(* ===== verification/Prelude.thy ===== *)
theory Prelude
  imports Main "HOL-Library.AList" "HOL-Library.Word"
begin

text \<open>
  Shared vocabulary of the development: results as sums, time as natural numbers of
  nanoseconds, hash maps as association lists with distinct keys, and the generic
  lemmas every component uses.

  Rust's \<open>Result<T, E>\<close> is the sum \<open>'e + 't\<close>, written with the abbreviations
  \<open>Ok\<close> and \<open>Err\<close>. \<open>Instant\<close> and \<open>Duration\<close> are natural numbers of nanoseconds;
  \<open>Instant::saturating_duration_since\<close> and \<open>Instant::duration_since\<close> both give zero
  for an earlier instant, which is subtraction on \<open>nat\<close>.
\<close>

named_theorems inv_intros
named_theorems map_simps

type_synonym ('t, 'e) result = "'e + 't"

abbreviation Ok :: "'t \<Rightarrow> ('t, 'e) result" where "Ok \<equiv> Inr"
abbreviation Err :: "'e \<Rightarrow> ('t, 'e) result" where "Err \<equiv> Inl"

definition is_ok :: "('t, 'e) result \<Rightarrow> bool" where
  "is_ok r \<longleftrightarrow> (case r of Ok _ \<Rightarrow> True | Err _ \<Rightarrow> False)"

definition ok_or :: "'e \<Rightarrow> 't option \<Rightarrow> ('t, 'e) result" where
  "ok_or e x = (case x of Some v \<Rightarrow> Ok v | None \<Rightarrow> Err e)"

definition bind_result :: "('a, 'e) result \<Rightarrow> ('a \<Rightarrow> ('b, 'e) result) \<Rightarrow> ('b, 'e) result" where
  "bind_result r f = (case r of Ok x \<Rightarrow> f x | Err e \<Rightarrow> Err e)"

lemma is_ok_simps [simp]: "is_ok (Ok x)" "\<not> is_ok (Err e)"
  by (simp_all add: is_ok_def)

lemma ok_or_simps [simp]: "ok_or e (Some v) = Ok v" "ok_or e None = Err e"
  by (simp_all add: ok_or_def)

lemma bind_result_simps [simp]:
  "bind_result (Ok x) f = f x" "bind_result (Err e) f = Err e"
  by (simp_all add: bind_result_def)

lemma bind_result_eq_Ok [simp]:
  "bind_result r f = Ok y \<longleftrightarrow> (\<exists>x. r = Ok x \<and> f x = Ok y)"
  by (cases r) simp_all

lemma Ok_eq_bind_result [simp]:
  "Ok y = bind_result r f \<longleftrightarrow> (\<exists>x. r = Ok x \<and> f x = Ok y)"
  by (cases r) auto

lemma bind_result_eq_Err [simp]:
  "bind_result r f = Err e \<longleftrightarrow> r = Err e \<or> (\<exists>x. r = Ok x \<and> f x = Err e)"
  by (cases r) simp_all

lemma ok_or_eq_Ok [simp]: "ok_or e x = Ok v \<longleftrightarrow> x = Some v"
  by (cases x) simp_all

lemma is_okE: assumes "is_ok r" obtains x where "r = Ok x"
  using assms by (cases r) auto

section \<open>Time\<close>

type_synonym instant = nat
type_synonym duration = nat

definition ms :: "nat \<Rightarrow> duration" where "ms n = n * 1000000"
definition secs :: "nat \<Rightarrow> duration" where "secs n = n * 1000000000"

lemma secs_mono [simp]: "secs a \<le> secs b \<longleftrightarrow> a \<le> b" "secs a < secs b \<longleftrightarrow> a < b"
  by (simp_all add: secs_def)

lemma secs_pos [simp]: "0 < secs n \<longleftrightarrow> 0 < n"
  by (simp add: secs_def)

lemma ms_mono [simp]: "ms a \<le> ms b \<longleftrightarrow> a \<le> b" "ms a < ms b \<longleftrightarrow> a < b"
  by (simp_all add: ms_def)

lemma ms_pos [simp]: "0 < ms n \<longleftrightarrow> 0 < n"
  by (simp add: ms_def)

section \<open>Hash maps as association lists\<close>

text \<open>
  A \<open>HashMap<K, V>\<close> is an association list whose keys are distinct. \<open>insert\<close> is
  \<open>AList.update\<close>, \<open>remove\<close> is \<open>AList.delete\<close>, \<open>get\<close> is \<open>map_of\<close>, \<open>len\<close> is the length
  and \<open>retain\<close> is \<open>filter\<close>.
\<close>

type_synonym ('k, 'v) hmap = "('k \<times> 'v) list"

definition keys_ok :: "('k, 'v) hmap \<Rightarrow> bool" where
  "keys_ok m \<longleftrightarrow> distinct (map fst m)"

lemma keys_ok_Nil [simp, inv_intros]: "keys_ok []"
  by (simp add: keys_ok_def)

lemma keys_ok_update [simp, inv_intros]: "keys_ok m \<Longrightarrow> keys_ok (AList.update k v m)"
  by (simp add: keys_ok_def distinct_update)

lemma keys_ok_delete [simp, inv_intros]: "keys_ok m \<Longrightarrow> keys_ok (AList.delete k m)"
  by (simp add: keys_ok_def distinct_delete)

lemma keys_ok_filter [simp, inv_intros]: "keys_ok m \<Longrightarrow> keys_ok (filter P m)"
  by (auto simp: keys_ok_def distinct_map_filter)

lemma map_of_hinsert [simp, map_simps]:
  "map_of (AList.update k v m) k' = (if k' = k then Some v else map_of m k')"
  by (simp add: update_conv')

lemma map_of_hremove [simp, map_simps]:
  "map_of (AList.delete k m) k' = (if k' = k then None else map_of m k')"
  by (simp add: delete_conv')

lemma map_of_filter_keys_ok [map_simps]:
  assumes "keys_ok m"
  shows "map_of (filter P m) k =
         (case map_of m k of Some v \<Rightarrow> if P (k, v) then Some v else None | None \<Rightarrow> None)"
  using assms
proof (induction m)
  case (Cons a m)
  obtain k' v where a: "a = (k', v)" by force
  have "map_of m k' = None"
    using Cons.prems by (simp add: keys_ok_def a map_of_eq_None_iff)
  then show ?case
    using Cons by (auto simp: a keys_ok_def split: option.splits)
qed simp

lemma length_update_le: "length (AList.update k v m) \<le> Suc (length m)"
  by (induction m) auto

lemma length_update_present:
  "map_of m k = Some w \<Longrightarrow> length (AList.update k v m) = length m"
  by (induction m) (auto split: if_splits)

lemma length_update_fresh:
  "map_of m k = None \<Longrightarrow> length (AList.update k v m) = Suc (length m)"
  by (induction m) (auto split: if_splits)

lemma length_delete_le' [simp]: "length (AList.delete k m) \<le> length m"
  by (rule length_delete_le)

lemma set_update_subset: "set (AList.update k v m) \<subseteq> insert (k, v) (set m)"
  by (induction m) auto

lemma set_delete_subset: "set (AList.delete k m) \<subseteq> set m"
  by (auto simp: AList.delete_eq)

section \<open>Lists\<close>

lemma takeWhile_all: "(\<And>x. x \<in> set xs \<Longrightarrow> P x) \<Longrightarrow> takeWhile P xs = xs"
  by (simp add: takeWhile_eq_all_conv)

lemma dropWhile_none: "xs = [] \<or> \<not> P (hd xs) \<Longrightarrow> dropWhile P xs = xs"
  by (cases xs) auto

lemma length_filter_mono:
  "(\<And>x. x \<in> set xs \<Longrightarrow> P x \<Longrightarrow> Q x) \<Longrightarrow> length (filter P xs) \<le> length (filter Q xs)"
  by (induction xs) auto

lemma length_concat_bound:
  assumes "\<And>x. x \<in> set xs \<Longrightarrow> length x \<le> n"
  shows "length (concat xs) \<le> length xs * n"
  using assms
proof (induction xs)
  case (Cons x xs)
  have "length x \<le> n" "length (concat xs) \<le> length xs * n" using Cons by auto
  then show ?case by simp
qed simp

section \<open>Properties kept by operations\<close>

text \<open>
  The contract of a component whose operations keep a property of its state: \<open>exec\<close> runs
  one operation, \<open>allowed\<close> says which operations the contract covers. An invariant allows
  every operation; a terminal state allows those that cannot leave it.
\<close>

locale preserved =
  fixes exec :: "'op \<Rightarrow> 's \<Rightarrow> 's"
    and allowed :: "'op \<Rightarrow> bool"
    and kept_prop :: "'s \<Rightarrow> bool"
  assumes keep: "kept_prop s \<Longrightarrow> allowed op \<Longrightarrow> kept_prop (exec op s)"
begin

lemma keep_run: "kept_prop s \<Longrightarrow> list_all allowed ops \<Longrightarrow> kept_prop (fold exec ops s)"
  by (induction ops arbitrary: s) (auto intro: keep)

lemma keep_prefix:
  "kept_prop s \<Longrightarrow> list_all allowed (ops @ ops') \<Longrightarrow> kept_prop (fold exec ops s) \<and> kept_prop (fold exec (ops @ ops') s)"
  using keep_run [of s ops] keep_run [of s "ops @ ops'"] by auto

end

end
