(* ===== verification/Rust_Str.thy ===== *)
theory Rust_Str
  imports Prelude "HOL-Library.Sublist"
begin

text \<open>
  The part of Rust's \<open>str\<close> the program uses, on UTF-8 byte strings. A \<open>String\<close> or
  \<open>&str\<close> is a HOL \<open>string\<close>: a list of 8-bit characters, one per byte of its UTF-8
  encoding, so \<open>len\<close> is \<open>length\<close> and slicing is \<open>take\<close>/\<open>drop\<close> at byte offsets.
\<close>

abbreviation byte :: "char \<Rightarrow> nat" where "byte c \<equiv> of_char c"

lemma byte_less [simp]: "byte c < 256"
  using nat_of_char_less_256 [of c] by simp

section \<open>UTF-8\<close>

definition is_cont :: "char \<Rightarrow> bool" where
  "is_cont c \<longleftrightarrow> 128 \<le> byte c \<and> byte c < 192"

definition is_ascii :: "char \<Rightarrow> bool" where
  "is_ascii c \<longleftrightarrow> byte c < 128"

text \<open>
  One step of UTF-8 decoding: whether the sequence at the front is well formed, and how
  many bytes it spans (of a malformed one, the maximal prefix of a well-formed
  sequence, as \<open>from_utf8_lossy\<close> replaces it).
\<close>

definition second_ok :: "nat \<Rightarrow> nat \<Rightarrow> bool" where
  "second_ok b0 b1 \<longleftrightarrow>
     (if b0 = 224 then 160 \<le> b1 \<and> b1 < 192
      else if b0 = 237 then 128 \<le> b1 \<and> b1 < 160
      else if b0 = 240 then 144 \<le> b1 \<and> b1 < 192
      else if b0 = 244 then 128 \<le> b1 \<and> b1 < 144
      else 128 \<le> b1 \<and> b1 < 192)"

definition seq_len :: "nat \<Rightarrow> nat" where
  "seq_len b0 = (if b0 < 128 then 1 else if b0 < 194 then 0 else if b0 < 224 then 2
                 else if b0 < 240 then 3 else if b0 < 245 then 4 else 0)"

fun utf8_front :: "string \<Rightarrow> bool \<times> nat" where
  "utf8_front [] = (True, 0)"
| "utf8_front (c # cs) =
     (let n = seq_len (byte c) in
      if n = 0 then (False, 1)
      else if n = 1 then (True, 1)
      else case cs of
        [] \<Rightarrow> (False, 1)
      | c1 # cs1 \<Rightarrow>
          if \<not> second_ok (byte c) (byte c1) then (False, 1)
          else let k = length (takeWhile is_cont (take (n - 2) cs1)) in
               if k = n - 2 then (True, n) else (False, 2 + k))"

lemma utf8_front_pos: "cs \<noteq> [] \<Longrightarrow> 0 < snd (utf8_front cs)"
  by (cases cs rule: utf8_front.cases) (auto simp: Let_def split: list.splits)

function utf8_chunks :: "string \<Rightarrow> (bool \<times> string) list" where
  "utf8_chunks s =
     (if s = [] then []
      else let (ok, n) = utf8_front s in (ok, take n s) # utf8_chunks (drop n s))"
  by auto
termination
proof (relation "measure length")
  fix s :: string and x ok n
  assume "s \<noteq> []" "x = utf8_front s" "(ok, n) = x"
  then have "0 < n" using utf8_front_pos [of s] by (metis snd_conv)
  with \<open>s \<noteq> []\<close> show "(drop n s, s) \<in> measure length" by simp
qed simp

declare utf8_chunks.simps [simp del]

definition valid_utf8 :: "string \<Rightarrow> bool" where
  "valid_utf8 s \<longleftrightarrow> list_all fst (utf8_chunks s)"

definition replacement_char :: string where
  "replacement_char = [CHR 0xEF, CHR 0xBF, CHR 0xBD]"

definition from_utf8_lossy :: "string \<Rightarrow> string" where
  "from_utf8_lossy s =
     concat (map (\<lambda>(ok, c). if ok then c else replacement_char) (utf8_chunks s))"

text \<open>\<open>str::is_char_boundary\<close>: index 0, the length, or a byte that starts a character.\<close>

definition is_char_boundary :: "string \<Rightarrow> nat \<Rightarrow> bool" where
  "is_char_boundary s i \<longleftrightarrow>
     i = 0 \<or> i = length s \<or> (i < length s \<and> \<not> is_cont (s ! i))"

text \<open>\<open>str::chars\<close>: the characters of a valid string, each as its group of bytes.\<close>

function chars :: "string \<Rightarrow> string list" where
  "chars [] = []"
| "chars (c # cs) = (c # takeWhile is_cont cs) # chars (dropWhile is_cont cs)"
  by pat_completeness auto
termination
  by (relation "measure length") (auto simp: le_imp_less_Suc length_dropWhile_le)

lemma concat_chars [simp]: "concat (chars s) = s"
  by (induction s rule: chars.induct) auto

lemma chars_ascii: "\<forall>c\<in>set s. \<not> is_cont c \<Longrightarrow> chars s = map (\<lambda>c. [c]) s"
proof (induction s)
  case (Cons c cs)
  then have "takeWhile is_cont cs = []" "dropWhile is_cont cs = cs"
    by (cases cs; simp)+
  with Cons show ?case by simp
qed simp

lemma is_ascii_not_cont [simp]: "is_ascii c \<Longrightarrow> \<not> is_cont c"
  by (simp add: is_ascii_def is_cont_def)

lemma seq_len_cases: "seq_len b \<in> {0, 1, 2, 3, 4}"
  by (simp add: seq_len_def)

lemma seq_len_ascii [simp]: "is_ascii c \<Longrightarrow> seq_len (byte c) = 1"
  by (simp add: is_ascii_def seq_len_def)

lemma second_ok_cont: "second_ok b (byte c) \<Longrightarrow> is_cont c"
  by (auto simp: second_ok_def is_cont_def split: if_splits)

lemma seq_len_not_cont: "seq_len (byte c) \<noteq> 0 \<Longrightarrow> \<not> is_cont c"
  by (auto simp: seq_len_def is_cont_def split: if_splits)

text \<open>A well-formed front: one byte that is no continuation, then continuation bytes only.\<close>

lemma utf8_front_ok:
  assumes "utf8_front s = (True, n)" "s \<noteq> []"
  shows "0 < n" "n \<le> length s" "\<not> is_cont (hd s)" "\<forall>c\<in>set (tl (take n s)). is_cont c"
proof -
  obtain c cs where s: "s = c # cs" using assms by (cases s) auto
  consider "n = 1" "seq_len (byte c) = 1"
    | c1 cs1 where "cs = c1 # cs1" "second_ok (byte c) (byte c1)"
        "length (takeWhile is_cont (take (n - 2) cs1)) = n - 2" "n = seq_len (byte c)" "2 \<le> n"
    using assms seq_len_cases [of "byte c"]
    by (auto simp: s Let_def split: list.splits if_splits)
  note cases = this
  show "0 < n" using cases by cases auto
  show "\<not> is_cont (hd s)"
    using cases seq_len_not_cont [of c] by cases (auto simp: s)
  have *: "n \<le> length s \<and> (\<forall>c\<in>set (tl (take n s)). is_cont c)"
    using cases
  proof cases
    case (2 c1 cs1)
    have len: "n - 2 \<le> length cs1"
      using 2(3) length_takeWhile_le [of is_cont "take (n - 2) cs1"] by simp
    have "takeWhile is_cont (take (n - 2) cs1) = take (n - 2) cs1"
      using 2(3) len takeWhile_eq_take [of is_cont "take (n - 2) cs1"] by simp
    then have "\<forall>x\<in>set (take (n - 2) cs1). is_cont x"
      by (metis set_takeWhileD)
    moreover have "take n s = c # c1 # take (n - 2) cs1"
      using 2(5) by (simp add: s 2(1) take_Cons' numeral_2_eq_2)
    ultimately show ?thesis
      using len second_ok_cont [OF 2(2)] 2(1,5) by (auto simp: s)
  qed (auto simp: s)
  from * show "n \<le> length s" "\<forall>c\<in>set (tl (take n s)). is_cont c" by auto
qed

lemma utf8_front_append:
  assumes "utf8_front s = (True, n)" "s \<noteq> []" "n \<le> i"
  shows "utf8_front (take i s) = (True, n)"
proof -
  obtain c cs where s: "s = c # cs" using assms by (cases s) auto
  have n: "0 < n" "n \<le> length s" using utf8_front_ok [OF assms(1,2)] by auto
  then obtain j where i: "i = Suc j" using assms(3) by (cases i) auto
  show ?thesis
  proof (cases "n = 1")
    case True
    then show ?thesis using assms
      by (auto simp: s i Let_def split: list.splits if_splits)
  next
    case False
    then obtain c1 cs1 where cs: "cs = c1 # cs1" using n by (cases cs) (auto simp: s)
    obtain k where j: "j = Suc k" using False n assms(3) i by (cases j) auto
    have "n = seq_len (byte c)" using assms False
      by (auto simp: s cs Let_def split: list.splits if_splits)
    moreover from this have "take (n - 2) (take k cs1) = take (n - 2) cs1"
      using assms(3) by (simp add: i j min_def)
    ultimately show ?thesis using assms False
      by (auto simp: s cs i j Let_def split: if_splits)
  qed
qed

lemma valid_utf8_Nil [simp]: "valid_utf8 []"
  by (simp add: valid_utf8_def utf8_chunks.simps)

lemma valid_utf8_step:
  "s \<noteq> [] \<Longrightarrow> valid_utf8 s \<longleftrightarrow>
     fst (utf8_front s) \<and> valid_utf8 (drop (snd (utf8_front s)) s)"
  by (subst valid_utf8_def, subst utf8_chunks.simps) (auto simp: valid_utf8_def split: prod.splits)

text \<open>Cutting a valid string at a character boundary leaves a valid string.\<close>

lemma valid_utf8_take:
  assumes "valid_utf8 s" "is_char_boundary s i"
  shows "valid_utf8 (take i s)"
  using assms
proof (induction "length s" arbitrary: s i rule: less_induct)
  case less
  show ?case
  proof (cases "s = [] \<or> i = 0 \<or> length s \<le> i")
    case True
    then show ?thesis using less.prems by auto
  next
    case False
    then have s: "s \<noteq> []" "0 < i" "i < length s" by auto
    obtain n where f: "utf8_front s = (True, n)" and v: "valid_utf8 (drop n s)"
      using less.prems(1) s valid_utf8_step [of s] by (metis prod.collapse)
    note ok = utf8_front_ok [OF f s(1)]
    have ni: "n \<le> i"
    proof (rule ccontr)
      assume "\<not> n \<le> i"
      then have "s ! i \<in> set (tl (take n s))"
        using s ok(1,2) by (auto simp: in_set_conv_nth nth_tl intro!: exI [of _ "i - 1"])
      then show False using ok(4) less.prems(2) s by (auto simp: is_char_boundary_def)
    qed
    have b: "is_char_boundary (drop n s) (i - n)"
      using less.prems(2) s ni by (auto simp: is_char_boundary_def)
    have "valid_utf8 (take (i - n) (drop n s))"
      using less.hyps [OF _ v b] ok(1,2) by simp
    moreover have "utf8_front (take i s) = (True, n)"
      by (rule utf8_front_append [OF f s(1) ni])
    ultimately show ?thesis
      using valid_utf8_step [of "take i s"] s by (simp add: drop_take)
  qed
qed

lemma valid_utf8_ascii: "list_all is_ascii s \<Longrightarrow> valid_utf8 s"
proof (induction s)
  case (Cons c s)
  have "utf8_front (c # s) = (True, 1)" using Cons.prems by (simp add: Let_def)
  then show ?case using Cons by (subst valid_utf8_step) auto
qed simp

lemma from_utf8_lossy_valid: "valid_utf8 s \<Longrightarrow> from_utf8_lossy s = s"
proof (induction s rule: utf8_chunks.induct)
  case (1 s)
  show ?case
  proof (cases "s = []")
    case True
    then show ?thesis by (simp add: from_utf8_lossy_def utf8_chunks.simps)
  next
    case False
    obtain n where f: "utf8_front s = (True, n)" and v: "valid_utf8 (drop n s)"
      using 1(2) False valid_utf8_step [of s] by (metis prod.collapse)
    have "from_utf8_lossy (drop n s) = drop n s"
      using 1(1) [OF False] f v by (auto simp: prod_eq_iff)
    then show ?thesis using f False
      by (subst from_utf8_lossy_def, subst utf8_chunks.simps) (simp add: from_utf8_lossy_def)
  qed
qed

section \<open>Case and whitespace\<close>

text \<open>\<open>char::is_whitespace\<close>: the Unicode property \<open>White_Space\<close>, on the encoded character.\<close>

definition is_whitespace :: "string \<Rightarrow> bool" where
  "is_whitespace ch \<longleftrightarrow>
     (case map byte ch of
        [b] \<Rightarrow> (9 \<le> b \<and> b \<le> 13) \<or> b = 32
      | [b0, b1] \<Rightarrow> b0 = 194 \<and> (b1 = 133 \<or> b1 = 160)
      | [b0, b1, b2] \<Rightarrow>
          (b0 = 225 \<and> b1 = 154 \<and> b2 = 128)
          \<or> (b0 = 226 \<and> b1 = 128 \<and> ((128 \<le> b2 \<and> b2 \<le> 138) \<or> b2 = 168 \<or> b2 = 169 \<or> b2 = 175))
          \<or> (b0 = 226 \<and> b1 = 129 \<and> b2 = 159)
          \<or> (b0 = 227 \<and> b1 = 128 \<and> b2 = 128)
      | _ \<Rightarrow> False)"

text \<open>\<open>char::is_ascii_whitespace\<close>: space, tab, line feed, form feed, carriage return.\<close>

definition is_ascii_whitespace :: "char \<Rightarrow> bool" where
  "is_ascii_whitespace c \<longleftrightarrow> byte c \<in> {9, 10, 12, 13, 32}"

definition ascii_lower_char :: "char \<Rightarrow> char" where
  "ascii_lower_char c = (if 65 \<le> byte c \<and> byte c \<le> 90 then char_of (byte c + 32) else c)"

definition to_ascii_lowercase :: "string \<Rightarrow> string" where
  "to_ascii_lowercase s = map ascii_lower_char s"

definition is_lower :: "char \<Rightarrow> bool" where "is_lower c \<longleftrightarrow> 97 \<le> byte c \<and> byte c \<le> 122"
definition is_upper :: "char \<Rightarrow> bool" where "is_upper c \<longleftrightarrow> 65 \<le> byte c \<and> byte c \<le> 90"
definition is_digit :: "char \<Rightarrow> bool" where "is_digit c \<longleftrightarrow> 48 \<le> byte c \<and> byte c \<le> 57"

lemma is_lower_not_upper: "is_lower c \<Longrightarrow> \<not> is_upper c"
  by (simp add: is_lower_def is_upper_def)

lemma is_lower_ascii [simp]: "is_lower c \<Longrightarrow> is_ascii c"
  by (simp add: is_lower_def is_ascii_def)

lemma ascii_lower_id: "\<not> is_upper c \<Longrightarrow> ascii_lower_char c = c"
  by (auto simp: is_upper_def ascii_lower_char_def)

lemma ascii_lower_not_upper [simp]: "\<not> is_upper (ascii_lower_char c)"
  by (auto simp: is_upper_def ascii_lower_char_def)

definition trim_start :: "string \<Rightarrow> string" where
  "trim_start s = concat (dropWhile is_whitespace (chars s))"

definition trim :: "string \<Rightarrow> string" where
  "trim s = concat (rev (dropWhile is_whitespace (rev (dropWhile is_whitespace (chars s)))))"

definition trim_end :: "string \<Rightarrow> string" where
  "trim_end s = concat (rev (dropWhile is_whitespace (rev (chars s))))"

lemma is_whitespace_single:
  "is_whitespace [c] \<longleftrightarrow> (9 \<le> byte c \<and> byte c \<le> 13) \<or> byte c = 32"
  by (simp add: is_whitespace_def)

lemma concat_singles [simp]: "concat (map (\<lambda>c. [c]) s) = s"
  by (induction s) auto

lemma trim_ascii_id:
  assumes "\<forall>c\<in>set s. \<not> is_cont c"
    and "s = [] \<or> \<not> is_whitespace [hd s] \<and> \<not> is_whitespace [last s]"
  shows "trim s = s"
proof (cases "s = []")
  case False
  let ?cs = "map (\<lambda>c. [c]) s"
  have "dropWhile is_whitespace ?cs = ?cs"
    using assms False by (intro dropWhile_none) (simp add: hd_map)
  moreover have "dropWhile is_whitespace (rev ?cs) = rev ?cs"
    using assms False by (intro dropWhile_none) (simp add: hd_map hd_rev last_map rev_map)
  ultimately show ?thesis using assms(1) by (simp add: trim_def chars_ascii)
qed (simp add: trim_def)

section \<open>Splitting and joining\<close>

text \<open>\<open>str::split\<close> on an ASCII character: always at least one piece.\<close>

fun split_on :: "char \<Rightarrow> string \<Rightarrow> string list" where
  "split_on c [] = [[]]"
| "split_on c (x # xs) =
     (if x = c then [] # split_on c xs
      else case split_on c xs of p # ps \<Rightarrow> (x # p) # ps | [] \<Rightarrow> [[x]])"

text \<open>\<open>str::lines\<close>, split after each line feed, without it and a carriage return before it, and \<open>Iterator::find_map\<close>.\<close>

definition strip_cr :: "string \<Rightarrow> string" where
  "strip_cr l = (if l \<noteq> [] \<and> last l = CHR 0x0D then butlast l else l)"

definition str_lines :: "string \<Rightarrow> string list" where
  "str_lines s =
     (let ps = split_on CHR 0x0A s;
          full = butlast ps; rest = last ps
      in map strip_cr full @ (if rest = [] then [] else [rest]))"

fun find_map :: "('a \<Rightarrow> 'b option) \<Rightarrow> 'a list \<Rightarrow> 'b option" where
  "find_map f [] = None"
| "find_map f (x # xs) = (case f x of Some y \<Rightarrow> Some y | None \<Rightarrow> find_map f xs)"

fun join :: "string \<Rightarrow> string list \<Rightarrow> string" where
  "join sep [] = []"
| "join sep [p] = p"
| "join sep (p # q # ps) = p @ sep @ join sep (q # ps)"

fun strip_prefix :: "string \<Rightarrow> string \<Rightarrow> string option" where
  "strip_prefix [] s = Some s"
| "strip_prefix (p # ps) [] = None"
| "strip_prefix (p # ps) (c # cs) = (if p = c then strip_prefix ps cs else None)"

text \<open>\<open>str::split_once\<close>: around the first occurrence of the pattern.\<close>

fun split_once :: "string \<Rightarrow> string \<Rightarrow> (string \<times> string) option" where
  "split_once pat [] = (if pat = [] then Some ([], []) else None)"
| "split_once pat (c # cs) =
     (case strip_prefix pat (c # cs) of
        Some rest \<Rightarrow> Some ([], rest)
      | None \<Rightarrow> map_option (\<lambda>(a, b). (c # a, b)) (split_once pat cs))"

definition contains_str :: "string \<Rightarrow> string \<Rightarrow> bool" where
  "contains_str pat s \<longleftrightarrow> split_once pat s \<noteq> None"

definition starts_with :: "string \<Rightarrow> string \<Rightarrow> bool" where
  "starts_with pat s \<longleftrightarrow> strip_prefix pat s \<noteq> None"

lemma split_on_nonempty [simp]: "split_on c s \<noteq> []"
  by (induction s) (auto split: list.splits)

lemma join_Cons: "ps \<noteq> [] \<Longrightarrow> join sep (p # ps) = p @ sep @ join sep ps"
  by (cases ps) auto

lemma join_split_on [simp]: "join [c] (split_on c s) = s"
proof (induction s)
  case (Cons x xs)
  obtain p ps where p: "split_on c xs = p # ps" by (cases "split_on c xs") auto
  show ?case using Cons by (cases ps) (auto simp: p)
qed simp

lemma split_on_pieces: "p \<in> set (split_on c s) \<Longrightarrow> c \<notin> set p"
proof (induction s arbitrary: p)
  case (Cons x xs)
  then show ?case by (cases "split_on c xs") (auto split: if_splits)
qed simp

lemma split_on_absent: "c \<notin> set s \<Longrightarrow> split_on c s = [s]"
  by (induction s) auto

lemma split_on_append:
  "c \<notin> set a \<Longrightarrow> split_on c (a @ c # b) = a # split_on c b"
  by (induction a) auto

lemma split_on_join:
  assumes "ps \<noteq> []" "\<forall>p\<in>set ps. c \<notin> set p"
  shows "split_on c (join [c] ps) = ps"
  using assms
proof (induction ps)
  case (Cons p ps)
  then show ?case
    by (cases "ps = []") (auto simp: split_on_absent join_Cons split_on_append)
qed simp

lemma strip_prefix_append [simp]: "strip_prefix p (p @ s) = Some s"
  by (induction p) auto

lemma strip_prefix_Some: "strip_prefix p s = Some r \<longleftrightarrow> s = p @ r"
  by (induction p s rule: strip_prefix.induct) auto

lemma strip_prefix_None_hd: "p \<noteq> [] \<Longrightarrow> s = [] \<or> hd s \<noteq> hd p \<Longrightarrow> strip_prefix p s = None"
  by (cases p; cases s) auto

lemma split_once_char:
  "c \<notin> set a \<Longrightarrow> split_once [c] (a @ c # b) = Some (a, b)"
  by (induction a) auto

lemma split_once_Some: "split_once pat s = Some (a, b) \<Longrightarrow> s = a @ pat @ b"
  by (induction pat s arbitrary: a b rule: split_once.induct)
     (auto split: option.splits if_splits simp: strip_prefix_Some)

lemma split_once_absent: "c \<notin> set s \<Longrightarrow> split_once [c] s = None"
  by (induction s) auto

lemma set_join: "set (join sep ps) \<subseteq> \<Union> (set ` set ps) \<union> set sep"
  by (induction sep ps rule: join.induct) auto

lemma length_join_le: "length (join sep ps) = sum_list (map length ps) + (length ps - 1) * length sep"
proof (induction sep ps rule: join.induct)
  case (3 sep p q ps)
  then show ?case by simp
qed auto

end
