(* ===== verification/Rust_Fmt.thy ===== *)
theory Rust_Fmt
  imports Rust_Str
begin

text \<open>
  Formatting and parsing of integers as Rust's \<open>Display\<close> and \<open>FromStr\<close> do it, and the
  backward scan to a character boundary that several components use to cut a string.
\<close>

section \<open>Decimal numbers\<close>

definition digit_char :: "nat \<Rightarrow> char" where "digit_char d = char_of (48 + d)"

fun show_nat :: "nat \<Rightarrow> string" where
  "show_nat n = (if n < 10 then [digit_char n] else show_nat (n div 10) @ [digit_char (n mod 10)])"

declare show_nat.simps [simp del]

definition show_int :: "int \<Rightarrow> string" where
  "show_int i = (if i < 0 then ''-'' @ show_nat (nat (- i)) else show_nat (nat i))"

text \<open>The width of \<open>{:0w}\<close> counts the sign.\<close>

definition pad_zero :: "nat \<Rightarrow> int \<Rightarrow> string" where
  "pad_zero w i =
     (let s = show_nat (nat \<bar>i\<bar>); sign = (if i < 0 then ''-'' else '''')
      in sign @ replicate (w - length s - length sign) CHR ''0'' @ s)"

definition dec_digit :: "char \<Rightarrow> nat option" where
  "dec_digit c = (if is_digit c then Some (byte c - 48) else None)"

fun parse_digits :: "nat \<Rightarrow> nat \<Rightarrow> string \<Rightarrow> nat option" where
  "parse_digits bound acc [] = Some acc"
| "parse_digits bound acc (c # cs) =
     (case dec_digit c of
        None \<Rightarrow> None
      | Some d \<Rightarrow> if acc * 10 + d < bound then parse_digits bound (acc * 10 + d) cs else None)"

text \<open>\<open>str::parse::<uN>()\<close> for the unsigned type with \<open>bound\<close> values.\<close>

definition parse_unsigned :: "nat \<Rightarrow> string \<Rightarrow> nat option" where
  "parse_unsigned bound s =
     (if s = [] \<or> s = ''+'' \<or> s = ''-'' then None
      else if hd s = CHR ''+'' then parse_digits bound 0 (tl s)
      else parse_digits bound 0 s)"

lemma digit_char_facts [simp]:
  assumes "d < 10"
  shows "is_digit (digit_char d)" "dec_digit (digit_char d) = Some d" "is_ascii (digit_char d)"
proof -
  have "byte (digit_char d) = 48 + d" using assms by (simp add: digit_char_def)
  then show "is_digit (digit_char d)" "dec_digit (digit_char d) = Some d" "is_ascii (digit_char d)"
    using assms by (simp_all add: is_digit_def dec_digit_def is_ascii_def)
qed

lemma show_nat_nonempty [simp]: "show_nat n \<noteq> []"
  by (subst show_nat.simps) simp

lemma show_nat_digits: "c \<in> set (show_nat n) \<Longrightarrow> is_digit c"
  by (induction n rule: show_nat.induct) (subst (asm) (2) show_nat.simps, auto split: if_splits)

lemma parse_digits_append:
  "parse_digits b acc (s @ t) = Option.bind (parse_digits b acc s) (\<lambda>a. parse_digits b a t)"
  by (induction b acc s rule: parse_digits.induct) (auto split: option.splits)

lemma parse_digits_show: "n < b \<Longrightarrow> parse_digits b 0 (show_nat n) = Some n"
proof (induction n rule: show_nat.induct)
  case (1 n)
  show ?case
  proof (cases "n < 10")
    case True
    then show ?thesis using 1(2) by (subst show_nat.simps) simp
  next
    case False
    then have "parse_digits b 0 (show_nat (n div 10)) = Some (n div 10)"
      using 1 by simp
    then show ?thesis using False 1(2)
      by (subst show_nat.simps) (simp add: parse_digits_append)
  qed
qed

lemma parse_show_nat: "n < b \<Longrightarrow> parse_unsigned b (show_nat n) = Some n"
proof -
  assume n: "n < b"
  have d: "is_digit c" if "c \<in> set (show_nat n)" for c using that by (rule show_nat_digits)
  have "hd (show_nat n) \<noteq> CHR ''+''" "show_nat n \<noteq> ''+''" "show_nat n \<noteq> ''-''"
    using d [of "hd (show_nat n)"] by (auto simp: is_digit_def)
  then show ?thesis using parse_digits_show [OF n] by (simp add: parse_unsigned_def)
qed

section \<open>Cutting at a character boundary\<close>

text \<open>\<open>while !s.is_char_boundary(end) { end -= 1; }\<close>\<close>

fun boundary_down :: "string \<Rightarrow> nat \<Rightarrow> nat" where
  "boundary_down s stop =
     (if is_char_boundary s stop then stop else case stop of 0 \<Rightarrow> 0 | Suc e \<Rightarrow> boundary_down s e)"

declare boundary_down.simps [simp del]

lemma boundary_down_props:
  "boundary_down s e \<le> e \<and> is_char_boundary s (boundary_down s e)
   \<and> (\<forall>i. boundary_down s e < i \<and> i \<le> e \<longrightarrow> \<not> is_char_boundary s i)"
proof (induction e)
  case 0
  then show ?case by (auto simp: boundary_down.simps is_char_boundary_def)
next
  case (Suc e)
  show ?case
  proof (cases "is_char_boundary s (Suc e)")
    case True
    then show ?thesis by (auto simp: boundary_down.simps)
  next
    case False
    then have "boundary_down s (Suc e) = boundary_down s e" by (simp add: boundary_down.simps)
    with Suc False show ?thesis by (metis le_Suc_eq)
  qed
qed


end
