(* ===== verification/Codes.thy ===== *)
theory Codes
  imports Rust_Str
begin

text \<open>
  The wire enums of \<open>herdr-relay-proto/src/codes.rs\<close>: WebSocket close codes, the
  application error taxonomy, and the phrase validation codes. An enum with a wire form
  satisfies the interface \<open>wire_enum\<close>: decoding inverts encoding, and only encodings
  decode.
\<close>

section \<open>The interface of a wire enum\<close>

locale wire_enum =
  fixes enc :: "'a \<Rightarrow> 'b"
    and dec :: "'b \<Rightarrow> 'a option"
  assumes dec_enc: "dec (enc a) = Some a"
    and enc_dec: "dec b = Some a \<Longrightarrow> enc a = b"
begin

lemma enc_inj: "enc a = enc b \<longleftrightarrow> a = b"
  by (metis dec_enc option.inject)

lemma dec_iff: "dec b = Some a \<longleftrightarrow> b = enc a"
  using dec_enc enc_dec by blast

lemma dec_None_iff: "dec b = None \<longleftrightarrow> b \<notin> range enc"
  by (metis dec_iff not_None_eq rangeE rangeI)

lemma dec_partial_inj: "dec b = dec c \<Longrightarrow> dec b \<noteq> None \<Longrightarrow> b = c"
  by (metis dec_iff not_None_eq)

end

section \<open>Close codes\<close>

datatype close_code =
    Normal
  | GoingAway
  | Abnormal
  | InternalError
  | PairingExpired
  | HandleUnknown
  | HandleTaken
  | ProtocolError
  | Revoked
  | HandshakeFailed
  | HostInUse
  | FrameTooLarge
  | RateLimited

fun close_code_code :: "close_code \<Rightarrow> 16 word" where
    "close_code_code Normal = 1000"
  | "close_code_code GoingAway = 1001"
  | "close_code_code Abnormal = 1006"
  | "close_code_code InternalError = 1011"
  | "close_code_code PairingExpired = 4000"
  | "close_code_code HandleUnknown = 4001"
  | "close_code_code HandleTaken = 4002"
  | "close_code_code ProtocolError = 4003"
  | "close_code_code Revoked = 4004"
  | "close_code_code HandshakeFailed = 4005"
  | "close_code_code HostInUse = 4006"
  | "close_code_code FrameTooLarge = 4007"
  | "close_code_code RateLimited = 4008"

fun close_code_name :: "close_code \<Rightarrow> string option" where
    "close_code_name Normal = None"
  | "close_code_name GoingAway = None"
  | "close_code_name Abnormal = None"
  | "close_code_name InternalError = None"
  | "close_code_name PairingExpired = Some ''pairing_expired''"
  | "close_code_name HandleUnknown = Some ''handle_unknown''"
  | "close_code_name HandleTaken = Some ''handle_taken''"
  | "close_code_name ProtocolError = Some ''protocol_error''"
  | "close_code_name Revoked = Some ''revoked''"
  | "close_code_name HandshakeFailed = Some ''handshake_failed''"
  | "close_code_name HostInUse = Some ''host_in_use''"
  | "close_code_name FrameTooLarge = Some ''frame_too_large''"
  | "close_code_name RateLimited = Some ''rate_limited''"

definition close_code_from_code :: "16 word \<Rightarrow> close_code option" where
  "close_code_from_code c =
    (if c = 1000 then Some Normal
     else if c = 1001 then Some GoingAway
     else if c = 1006 then Some Abnormal
     else if c = 1011 then Some InternalError
     else if c = 4000 then Some PairingExpired
     else if c = 4001 then Some HandleUnknown
     else if c = 4002 then Some HandleTaken
     else if c = 4003 then Some ProtocolError
     else if c = 4004 then Some Revoked
     else if c = 4005 then Some HandshakeFailed
     else if c = 4006 then Some HostInUse
     else if c = 4007 then Some FrameTooLarge
     else if c = 4008 then Some RateLimited
     else None)"

interpretation close_codes: wire_enum close_code_code close_code_from_code
proof
  show "close_code_from_code (close_code_code a) = Some a" for a
    by (cases a) (simp_all add: close_code_from_code_def)
  show "close_code_code a = b" if "close_code_from_code b = Some a" for a b
    using that by (auto simp: close_code_from_code_def split: if_splits)
qed

lemma close_code_name_inj:
  "close_code_name a = close_code_name b \<Longrightarrow> close_code_name a \<noteq> None \<Longrightarrow> a = b"
  by (cases a; cases b) simp_all

text \<open>A close code has a wire name exactly when it is in the relay-defined range.\<close>

lemma close_code_named_iff:
  "close_code_name c \<noteq> None \<longleftrightarrow> 4000 \<le> close_code_code c"
  by (cases c) (simp_all add: word_le_nat_alt)

section \<open>Application error codes\<close>

datatype error_code =
    E_ProtocolMismatch
  | E_HerdrProtocolMismatch
  | E_UnknownMessage
  | E_FrameTooLarge
  | E_PaneNotFound
  | E_AgentNotFound
  | E_InvalidRequest
  | E_InvalidKey
  | E_Timeout
  | E_AgentPromptStalled
  | E_NotWatching
  | E_Revoked
  | E_HandleUnknown
  | E_HostInUse
  | E_PairingExpired
  | E_RateLimited
  | E_HandshakeFailed
  | E_PluginDisabled
  | E_ActionUnknown
  | E_InternalError

fun error_code_name :: "error_code \<Rightarrow> string" where
    "error_code_name E_ProtocolMismatch = ''protocol_mismatch''"
  | "error_code_name E_HerdrProtocolMismatch = ''herdr_protocol_mismatch''"
  | "error_code_name E_UnknownMessage = ''unknown_message''"
  | "error_code_name E_FrameTooLarge = ''frame_too_large''"
  | "error_code_name E_PaneNotFound = ''pane_not_found''"
  | "error_code_name E_AgentNotFound = ''agent_not_found''"
  | "error_code_name E_InvalidRequest = ''invalid_request''"
  | "error_code_name E_InvalidKey = ''invalid_key''"
  | "error_code_name E_Timeout = ''timeout''"
  | "error_code_name E_AgentPromptStalled = ''agent_prompt_stalled''"
  | "error_code_name E_NotWatching = ''not_watching''"
  | "error_code_name E_Revoked = ''revoked''"
  | "error_code_name E_HandleUnknown = ''handle_unknown''"
  | "error_code_name E_HostInUse = ''host_in_use''"
  | "error_code_name E_PairingExpired = ''pairing_expired''"
  | "error_code_name E_RateLimited = ''rate_limited''"
  | "error_code_name E_HandshakeFailed = ''handshake_failed''"
  | "error_code_name E_PluginDisabled = ''plugin_disabled''"
  | "error_code_name E_ActionUnknown = ''action_unknown''"
  | "error_code_name E_InternalError = ''internal_error''"

definition all_error_codes :: "error_code list" where
  "all_error_codes =
     [E_ProtocolMismatch,
      E_HerdrProtocolMismatch,
      E_UnknownMessage,
      E_FrameTooLarge,
      E_PaneNotFound,
      E_AgentNotFound,
      E_InvalidRequest,
      E_InvalidKey,
      E_Timeout,
      E_AgentPromptStalled,
      E_NotWatching,
      E_Revoked,
      E_HandleUnknown,
      E_HostInUse,
      E_PairingExpired,
      E_RateLimited,
      E_HandshakeFailed,
      E_PluginDisabled,
      E_ActionUnknown,
      E_InternalError]"

definition error_code_of_name :: "string \<Rightarrow> error_code option" where
  "error_code_of_name s = find (\<lambda>c. error_code_name c = s) all_error_codes"

lemma all_error_codes_complete: "c \<in> set all_error_codes"
  by (cases c) (simp_all add: all_error_codes_def)

interpretation error_code_wire: wire_enum error_code_name error_code_of_name
proof
  show "error_code_of_name (error_code_name a) = Some a" for a
    by (cases a) (simp_all add: error_code_of_name_def all_error_codes_def)
  show "error_code_name a = b" if "error_code_of_name b = Some a" for a b
    using that by (auto simp: error_code_of_name_def find_Some_iff)
qed

section \<open>Phrase validation codes\<close>

datatype phrase_error_code =
    PhraseWordCount
  | PhraseWordUnknown
  | PhraseSeparator
  | PhraseCase
  | PhraseExpired
  | PhraseAttempts

fun phrase_error_code_name :: "phrase_error_code \<Rightarrow> string" where
    "phrase_error_code_name PhraseWordCount = ''phrase_word_count''"
  | "phrase_error_code_name PhraseWordUnknown = ''phrase_word_unknown''"
  | "phrase_error_code_name PhraseSeparator = ''phrase_separator''"
  | "phrase_error_code_name PhraseCase = ''phrase_case''"
  | "phrase_error_code_name PhraseExpired = ''phrase_expired''"
  | "phrase_error_code_name PhraseAttempts = ''phrase_attempts''"

definition all_phrase_error_codes :: "phrase_error_code list" where
  "all_phrase_error_codes =
     [PhraseWordCount,
      PhraseWordUnknown,
      PhraseSeparator,
      PhraseCase,
      PhraseExpired,
      PhraseAttempts]"

definition phrase_error_code_of_name :: "string \<Rightarrow> phrase_error_code option" where
  "phrase_error_code_of_name s = find (\<lambda>c. phrase_error_code_name c = s) all_phrase_error_codes"

lemma all_phrase_error_codes_complete: "c \<in> set all_phrase_error_codes"
  by (cases c) (simp_all add: all_phrase_error_codes_def)

interpretation phrase_error_code_wire: wire_enum phrase_error_code_name phrase_error_code_of_name
proof
  show "phrase_error_code_of_name (phrase_error_code_name a) = Some a" for a
    by (cases a) (simp_all add: phrase_error_code_of_name_def all_phrase_error_codes_def)
  show "phrase_error_code_name a = b" if "phrase_error_code_of_name b = Some a" for a b
    using that by (auto simp: phrase_error_code_of_name_def find_Some_iff)
qed

end
