(* ===== verification/Base64_Ref.thy ===== *)
theory Base64_Ref
  imports Rust_Str
begin

text \<open>
  The base64 codec (\<open>URL_SAFE_NO_PAD\<close> of the \<open>base64\<close> crate) is a parameter of the
  model: a pair of functions \<open>enc\<close> and \<open>dec\<close>. \<open>url_safe_no_pad enc dec\<close> collects the
  documented behaviour the program relies on. The rest of the theory is a concrete
  codec after RFC 4648 section 5, on which that behaviour is proved, so that the
  hypothesis is known to be satisfiable.
\<close>

definition b64_char :: "char \<Rightarrow> bool" where
  "b64_char c \<longleftrightarrow> is_upper c \<or> is_lower c \<or> is_digit c \<or> c = CHR ''-'' \<or> c = CHR ''_''"

definition url_safe_no_pad :: "(8 word list \<Rightarrow> string) \<Rightarrow> (string \<Rightarrow> 8 word list option) \<Rightarrow> bool" where
  "url_safe_no_pad enc dec \<longleftrightarrow>
     (\<forall>b. dec (enc b) = Some b)
     \<and> (\<forall>s b. dec s = Some b \<longrightarrow> enc b = s)
     \<and> (\<forall>b. length (enc b) = (4 * length b + 2) div 3)
     \<and> (\<forall>b. list_all b64_char (enc b))"

lemma url_safe_no_padD:
  assumes "url_safe_no_pad enc dec"
  shows "dec (enc b) = Some b" "dec s = Some b \<Longrightarrow> enc b = s"
    "length (enc b) = (4 * length b + 2) div 3" "list_all b64_char (enc b)"
  using assms by (auto simp: url_safe_no_pad_def)

definition b64_alphabet :: string where
  "b64_alphabet =
     ''ABCDEFGHIJKLMNOPQRSTUVWXYZabcdefghijklmnopqrstuvwxyz0123456789-_''"

definition b64_digit :: "nat \<Rightarrow> char" where
  "b64_digit n = b64_alphabet ! n"

definition b64_value :: "char \<Rightarrow> nat option" where
  "b64_value c = map_of (zip b64_alphabet [0..<64]) c"

fun b64_enc :: "nat list \<Rightarrow> string" where
  "b64_enc [] = []"
| "b64_enc [a] = map b64_digit [a div 4, (a mod 4) * 16]"
| "b64_enc [a, b] = map b64_digit [a div 4, (a mod 4) * 16 + b div 16, (b mod 16) * 4]"
| "b64_enc (a # b # c # r) =
     map b64_digit [a div 4, (a mod 4) * 16 + b div 16, (b mod 16) * 4 + c div 64, c mod 64]
     @ b64_enc r"

fun b64_groups :: "nat list \<Rightarrow> nat list option" where
  "b64_groups [] = Some []"
| "b64_groups [p] = None"
| "b64_groups [p, q] = (if q mod 16 = 0 then Some [p * 4 + q div 16] else None)"
| "b64_groups [p, q, r] =
     (if r mod 4 = 0 then Some [p * 4 + q div 16, (q mod 16) * 16 + r div 4] else None)"
| "b64_groups (p # q # r # s # t) =
     map_option (\<lambda>u. [p * 4 + q div 16, (q mod 16) * 16 + r div 4, (r mod 4) * 64 + s] @ u)
       (b64_groups t)"

definition b64_dec :: "string \<Rightarrow> nat list option" where
  "b64_dec s = Option.bind (those (map b64_value s)) b64_groups"

definition ref_enc :: "8 word list \<Rightarrow> string" where
  "ref_enc b = b64_enc (map unat b)"

definition ref_dec :: "string \<Rightarrow> 8 word list option" where
  "ref_dec s = map_option (map of_nat) (b64_dec s)"

lemma nat_lt_64: "n < 64 \<Longrightarrow> n \<in> set [0..<64]"
  by simp

lemma b64_all: "list_all (\<lambda>n. b64_value (b64_digit n) = Some n \<and> b64_char (b64_digit n)) [0..<64]"
  by code_simp

lemma b64_value_digit [simp]: "n < 64 \<Longrightarrow> b64_value (b64_digit n) = Some n"
  using b64_all nat_lt_64 [of n] unfolding list_all_iff by blast

lemma b64_char_digit [simp]: "n < 64 \<Longrightarrow> b64_char (b64_digit n)"
  using b64_all nat_lt_64 [of n] unfolding list_all_iff by blast

lemma b64_value_Some: "b64_value c = Some n \<Longrightarrow> n < 64 \<and> b64_digit n = c"
proof -
  assume "b64_value c = Some n"
  then have "(c, n) \<in> set (zip b64_alphabet [0..<64])"
    unfolding b64_value_def by (rule map_of_SomeD)
  then show ?thesis by (auto simp: set_zip b64_digit_def)
qed

lemma b64_enc_facts:
  assumes "\<forall>x\<in>set xs. x < 256"
  shows "b64_dec (b64_enc xs) = Some xs \<and> length (b64_enc xs) = (4 * length xs + 2) div 3
         \<and> list_all b64_char (b64_enc xs)"
  using assms
proof (induction xs rule: b64_enc.induct)
  case (2 a)
  have "a div 4 < 64" "a mod 4 * 16 < 64" using 2 by auto
  then show ?case by (simp add: b64_dec_def)
next
  case (3 a b)
  have *: "a div 4 < 64" "a mod 4 * 16 + b div 16 < 64" "b mod 16 * 4 < 64" using 3 by auto
  have "(a mod 4 * 16 + b div 16) div 16 = a mod 4" "(a mod 4 * 16 + b div 16) mod 16 = b div 16"
    using 3 by auto
  with * show ?case by (simp add: b64_dec_def)
next
  case (4 a b c r)
  have *: "a div 4 < 64" "a mod 4 * 16 + b div 16 < 64" "b mod 16 * 4 + c div 64 < 64" "c mod 64 < 64"
    using 4(2) by auto
  have "(a mod 4 * 16 + b div 16) div 16 = a mod 4" "(a mod 4 * 16 + b div 16) mod 16 = b div 16"
    "(b mod 16 * 4 + c div 64) div 4 = b mod 16" "(b mod 16 * 4 + c div 64) mod 4 = c div 64"
    using 4(2) by auto
  moreover have "Suc (Suc (Suc (Suc (Suc (Suc (n * 4)) div 3)))) = (14 + n * 4) div 3" for n :: nat
    by presburger
  ultimately show ?case using * 4
    by (auto simp: b64_dec_def Option.bind_eq_Some_conv mult.commute)
qed (simp add: b64_dec_def)

lemma b64_groups_facts:
  assumes "b64_groups vs = Some xs" "\<forall>v\<in>set vs. v < 64"
  shows "(\<forall>x\<in>set xs. x < 256) \<and> b64_enc xs = map b64_digit vs"
  using assms
proof (induction vs arbitrary: xs rule: b64_groups.induct)
  case (3 p q)
  then have "q = q div 16 * 16" by (auto split: if_splits)
  with 3 show ?case by (auto split: if_splits)
next
  case (4 p q r)
  then have r: "r = r div 4 * 4" "r div 4 < 16" "q div 16 < 4" by (auto split: if_splits)
  have "(p * 4 + q div 16) mod 4 * 16 + (q mod 16 * 16 + r div 4) div 16 = q"
    "(q mod 16 * 16 + r div 4) mod 16 * 4 = r" using r by (auto simp: mod_mult_self1)
  with 4 r show ?case by (auto split: if_splits)
next
  case (5 p q r s t)
  then obtain u where u: "b64_groups t = Some u"
    and xs: "xs = [p * 4 + q div 16, (q mod 16) * 16 + r div 4, (r mod 4) * 64 + s] @ u" by auto
  have r: "r div 4 < 16" "q div 16 < 4" "s < 64" using 5 by auto
  have "(p * 4 + q div 16) mod 4 * 16 + (q mod 16 * 16 + r div 4) div 16 = q"
    "(q mod 16 * 16 + r div 4) mod 16 * 4 + ((r mod 4) * 64 + s) div 64 = r" using r by auto
  moreover have "(\<forall>x\<in>set u. x < 256) \<and> b64_enc u = map b64_digit t" using 5 u by auto
  ultimately show ?case using r 5(3) by (auto simp: xs)
qed auto

lemma those_values: "those (map b64_value s) = Some vs \<Longrightarrow> (\<forall>v\<in>set vs. v < 64) \<and> map b64_digit vs = s"
proof (induction s arbitrary: vs)
  case (Cons c s)
  then obtain n ns where "b64_value c = Some n" "those (map b64_value s) = Some ns" "vs = n # ns"
    by (auto split: option.splits)
  with Cons.IH b64_value_Some [of c n] show ?case by auto
qed simp

lemma ref_codec: "url_safe_no_pad ref_enc ref_dec"
  unfolding url_safe_no_pad_def
proof (intro conjI allI impI)
  fix b :: "8 word list"
  have lt: "\<forall>x\<in>set (map unat b). x < 256"
    using unsigned_less [where 'a=nat and 'b=8] by auto
  note f = b64_enc_facts [OF lt]
  show "ref_dec (ref_enc b) = Some b"
    using f by (simp add: ref_dec_def ref_enc_def o_def)
  show "length (ref_enc b) = (4 * length b + 2) div 3" "list_all b64_char (ref_enc b)"
    using f by (auto simp: ref_enc_def)
next
  fix s :: string and b :: "8 word list"
  assume "ref_dec s = Some b"
  then obtain vs xs where v: "those (map b64_value s) = Some vs" "b64_groups vs = Some xs"
    "b = map of_nat xs"
    by (auto simp: ref_dec_def b64_dec_def Option.bind_eq_Some_conv)
  have d: "(\<forall>v\<in>set vs. v < 64) \<and> map b64_digit vs = s" by (rule those_values [OF v(1)])
  then have g: "(\<forall>x\<in>set xs. x < 256) \<and> b64_enc xs = s" using b64_groups_facts [OF v(2)] by auto
  have "map (unat \<circ> (of_nat :: nat \<Rightarrow> 8 word)) xs = xs"
    using g by (intro map_idI) (auto simp: unat_of_nat)
  then show "ref_enc b = s" using g by (simp add: ref_enc_def v)
qed

end
