(* ===== verification/Handle_Codec.thy ===== *)
theory Handle_Codec
  imports Base64_Ref "HOL-Library.Multiset"
begin

text \<open>
  \<open>herdr-relay-proto/src/handle.rs\<close>: the 128-bit routing handle and the
  \<open>herdr-remote://pair\<close> URI builder and parser. The base64 codec is the parameter
  \<open>enc\<close>/\<open>dec\<close>. Parsing slices the text at byte offsets, which panics in Rust off a
  character boundary: the parser returns an option whose \<open>None\<close> is that panic.
\<close>

section \<open>Handles\<close>

definition HANDLE_BYTES :: nat where "HANDLE_BYTES = 16"
definition HANDLE_LEN :: nat where "HANDLE_LEN = 22"
definition PAIRING_URI_SCHEME :: string where "PAIRING_URI_SCHEME = ''herdr-remote''"
definition PAIRING_URI_MAX_LEN :: nat where "PAIRING_URI_MAX_LEN = 512"

datatype handle = Handle (handle_bytes: "8 word list")

definition handle_ok :: "handle \<Rightarrow> bool" where
  "handle_ok h \<longleftrightarrow> length (handle_bytes h) = HANDLE_BYTES"

datatype handle_error = WrongLength | Decode

definition handle_encode :: "(8 word list \<Rightarrow> string) \<Rightarrow> handle \<Rightarrow> string" where
  "handle_encode enc h = enc (handle_bytes h)"

definition handle_from_str ::
  "(string \<Rightarrow> 8 word list option) \<Rightarrow> string \<Rightarrow> (handle, handle_error) result" where
  "handle_from_str dec candidate =
     (if length candidate \<noteq> HANDLE_LEN then Err WrongLength
      else case dec candidate of
        None \<Rightarrow> Err Decode
      | Some decoded \<Rightarrow>
          if length decoded = HANDLE_BYTES then Ok (Handle decoded) else Err WrongLength)"

lemma handle_encode_length:
  "url_safe_no_pad enc dec \<Longrightarrow> handle_ok h \<Longrightarrow> length (handle_encode enc h) = HANDLE_LEN"
  by (simp add: handle_encode_def url_safe_no_padD(3) [of enc dec] handle_ok_def
      HANDLE_BYTES_def HANDLE_LEN_def)

lemma handle_from_str_encode:
  "url_safe_no_pad enc dec \<Longrightarrow> handle_ok h \<Longrightarrow> handle_from_str dec (handle_encode enc h) = Ok h"
  using handle_encode_length [of enc dec h]
  by (simp add: handle_from_str_def handle_encode_def url_safe_no_padD(1) handle_ok_def)

lemma handle_from_str_Ok:
  "url_safe_no_pad enc dec \<Longrightarrow> handle_from_str dec s = Ok h \<Longrightarrow>
     handle_ok h \<and> handle_encode enc h = s"
  by (auto simp: handle_from_str_def handle_ok_def handle_encode_def url_safe_no_padD(2)
      split: if_splits option.splits)

section \<open>Percent encoding\<close>

definition hex_upper :: "nat \<Rightarrow> char" where
  "hex_upper n = (if n < 10 then char_of (48 + n) else char_of (55 + n))"

definition unreserved :: "char \<Rightarrow> bool" where
  "unreserved c \<longleftrightarrow> is_upper c \<or> is_lower c \<or> is_digit c \<or> c \<in> {CHR ''-'', CHR ''.'', CHR ''_'', CHR ''~''}"

definition percent_encode :: "string \<Rightarrow> string" where
  "percent_encode input =
     concat (map (\<lambda>b. if unreserved b then [b]
                      else [CHR ''%'', hex_upper (byte b div 16), hex_upper (byte b mod 16)]) input)"

text \<open>\<open>u8::from_str_radix(_, 16)\<close>: an optional \<open>+\<close>, then hexadecimal digits, no overflow.\<close>

definition hex_digit :: "char \<Rightarrow> nat option" where
  "hex_digit c =
     (let b = byte c in
      if 48 \<le> b \<and> b \<le> 57 then Some (b - 48)
      else if 97 \<le> b \<and> b \<le> 102 then Some (b - 87)
      else if 65 \<le> b \<and> b \<le> 70 then Some (b - 55)
      else None)"

fun u8_digits :: "nat \<Rightarrow> string \<Rightarrow> nat option" where
  "u8_digits acc [] = Some acc"
| "u8_digits acc (c # cs) =
     (case hex_digit c of
        None \<Rightarrow> None
      | Some d \<Rightarrow> if acc * 16 + d < 256 then u8_digits (acc * 16 + d) cs else None)"

definition u8_from_hex :: "string \<Rightarrow> nat option" where
  "u8_from_hex s =
     (if s = [] \<or> s = ''+'' \<or> s = ''-'' then None
      else if hd s = CHR ''+'' then u8_digits 0 (tl s)
      else u8_digits 0 s)"

text \<open>
  The decoding loop at byte offset \<open>i\<close>. \<open>None\<close> is the panic of the slice
  \<open>&input[i + 1..i + 3]\<close>.
\<close>

function percent_decode_loop :: "string \<Rightarrow> nat \<Rightarrow> string \<Rightarrow> string option" where
  "percent_decode_loop input i out =
     (if i < length input then
        if input ! i = CHR ''%'' \<and> i + 3 \<le> length input then
          if is_char_boundary input (i + 1) \<and> is_char_boundary input (i + 3) then
            case u8_from_hex (take 2 (drop (i + 1) input)) of
              Some v \<Rightarrow> percent_decode_loop input (i + 3) (out @ [char_of v])
            | None \<Rightarrow> percent_decode_loop input (i + 1) (out @ [input ! i])
          else None
        else percent_decode_loop input (i + 1) (out @ [input ! i])
      else Some out)"
  by pat_completeness auto
termination by (relation "measure (\<lambda>(input, i, out). length input - i)") auto

declare percent_decode_loop.simps [simp del]

definition percent_decode :: "string \<Rightarrow> string option" where
  "percent_decode input = map_option from_utf8_lossy (percent_decode_loop input 0 [])"

section \<open>The pairing URI\<close>

record pairing_uri =
  pu_relay_origin :: string
  pu_handle :: handle
  pu_phrase :: string

datatype pairing_uri_error =
    UriScheme
  | UriPath
  | UriVersion
  | UriFieldMissing
  | UriFieldRepeated
  | UriTooLong
  | RelayOriginInvalid
  | HandleMalformed handle_error

fun pairing_uri_error_code :: "pairing_uri_error \<Rightarrow> string" where
  "pairing_uri_error_code UriScheme = ''pair_uri_scheme''"
| "pairing_uri_error_code UriPath = ''pair_uri_path''"
| "pairing_uri_error_code UriVersion = ''pair_uri_version''"
| "pairing_uri_error_code UriFieldMissing = ''pair_uri_field_missing''"
| "pairing_uri_error_code UriFieldRepeated = ''pair_uri_field_repeated''"
| "pairing_uri_error_code UriTooLong = ''pair_uri_too_long''"
| "pairing_uri_error_code RelayOriginInvalid = ''relay_origin_invalid''"
| "pairing_uri_error_code (HandleMalformed _) = ''handle_malformed''"

definition pairing_uri_build :: "(8 word list \<Rightarrow> string) \<Rightarrow> pairing_uri \<Rightarrow> string" where
  "pairing_uri_build enc u =
     PAIRING_URI_SCHEME @ ''://pair?v=1&r='' @ percent_encode (pu_relay_origin u)
     @ ''&h='' @ handle_encode enc (pu_handle u) @ ''&p='' @ pu_phrase u"

record query_fields =
  qf_version :: "string option"
  qf_relay_origin :: "string option"
  qf_handle :: "string option"
  qf_phrase :: "string option"

definition no_fields :: query_fields where
  "no_fields = \<lparr>qf_version = None, qf_relay_origin = None, qf_handle = None, qf_phrase = None\<rparr>"

text \<open>One \<open>key=value\<close> pair of the query; the outer option is the panic of the decoder.\<close>

definition parse_pair ::
  "string \<Rightarrow> query_fields \<Rightarrow> (query_fields, pairing_uri_error) result option" where
  "parse_pair pair qf =
     (case split_once ''='' pair of
        None \<Rightarrow> Some (Err UriFieldMissing)
      | Some (key, value) \<Rightarrow>
          if key = ''v'' then
            if qf_version qf \<noteq> None then Some (Err UriFieldRepeated)
            else Some (Ok (qf\<lparr>qf_version := Some value\<rparr>))
          else if key = ''r'' then
            if qf_relay_origin qf \<noteq> None then Some (Err UriFieldRepeated)
            else map_option (\<lambda>d. Ok (qf\<lparr>qf_relay_origin := Some d\<rparr>)) (percent_decode value)
          else if key = ''h'' then
            if qf_handle qf \<noteq> None then Some (Err UriFieldRepeated)
            else Some (Ok (qf\<lparr>qf_handle := Some value\<rparr>))
          else if key = ''p'' then
            if qf_phrase qf \<noteq> None then Some (Err UriFieldRepeated)
            else Some (Ok (qf\<lparr>qf_phrase := Some value\<rparr>))
          else Some (Ok qf))"

fun parse_query_from ::
  "string list \<Rightarrow> query_fields \<Rightarrow> (query_fields, pairing_uri_error) result option" where
  "parse_query_from [] qf = Some (Ok qf)"
| "parse_query_from (pair # pairs) qf =
     (case parse_pair pair qf of
        None \<Rightarrow> None
      | Some (Err e) \<Rightarrow> Some (Err e)
      | Some (Ok qf') \<Rightarrow> parse_query_from pairs qf')"

definition parse_query :: "string \<Rightarrow> (query_fields, pairing_uri_error) result option" where
  "parse_query query = parse_query_from (split_on CHR ''&'' query) no_fields"

definition is_absolute_http_origin :: "string \<Rightarrow> bool" where
  "is_absolute_http_origin origin =
     (case split_once ''://'' origin of
        None \<Rightarrow> False
      | Some (scheme, rest) \<Rightarrow>
          (scheme = ''http'' \<or> scheme = ''https'') \<and> rest \<noteq> []
          \<and> list_all (\<lambda>c. c \<notin> {CHR ''/'', CHR ''?'', CHR ''#'', CHR ''@''}) rest)"

definition fields_to_uri ::
  "(string \<Rightarrow> 8 word list option) \<Rightarrow> query_fields \<Rightarrow> (pairing_uri, pairing_uri_error) result" where
  "fields_to_uri dec qf =
     (if qf_version qf \<noteq> Some ''1'' then Err UriVersion
      else bind_result (ok_or UriFieldMissing (qf_relay_origin qf)) (\<lambda>origin.
           bind_result (ok_or UriFieldMissing (qf_handle qf)) (\<lambda>handle_text.
           bind_result (ok_or UriFieldMissing (qf_phrase qf)) (\<lambda>phrase.
             if \<not> is_absolute_http_origin origin then Err RelayOriginInvalid
             else case handle_from_str dec handle_text of
               Err e \<Rightarrow> Err (HandleMalformed e)
             | Ok h \<Rightarrow> Ok \<lparr>pu_relay_origin = origin, pu_handle = h, pu_phrase = phrase\<rparr>))))"

definition pairing_uri_parse ::
  "(string \<Rightarrow> 8 word list option) \<Rightarrow> string \<Rightarrow> (pairing_uri, pairing_uri_error) result option" where
  "pairing_uri_parse dec uri =
     (if PAIRING_URI_MAX_LEN < length uri then Some (Err UriTooLong)
      else case Option.bind (strip_prefix PAIRING_URI_SCHEME uri) (strip_prefix ''://'') of
        None \<Rightarrow> Some (Err UriScheme)
      | Some rest \<Rightarrow>
          case split_once ''?'' rest of
            None \<Rightarrow> Some (Err UriFieldMissing)
          | Some (path, query) \<Rightarrow>
              if path \<noteq> ''pair'' then Some (Err UriPath)
              else map_option (\<lambda>r. bind_result r (fields_to_uri dec)) (parse_query query))"


section \<open>Percent round trip\<close>

lemma byte_hex_upper: "n < 16 \<Longrightarrow> byte (hex_upper n) = (if n < 10 then 48 + n else 55 + n)"
  by (simp add: hex_upper_def)

lemma byte_neqI: "byte c \<noteq> byte d \<Longrightarrow> c \<noteq> d"
  by auto

lemma hex_upper_facts [simp]:
  assumes "n < 16"
  shows "hex_digit (hex_upper n) = Some n" "hex_upper n \<noteq> CHR ''+''" "is_ascii (hex_upper n)"
    "hex_upper n \<noteq> CHR ''&''" "hex_upper n \<noteq> CHR ''=''" "hex_upper n \<noteq> CHR ''?''"
  using assms
  by (auto simp: hex_digit_def Let_def byte_hex_upper is_ascii_def intro!: byte_neqI split: if_splits)

lemma u8_from_hex_upper [simp]:
  "m < 16 \<Longrightarrow> n < 16 \<Longrightarrow> u8_from_hex [hex_upper m, hex_upper n] = Some (m * 16 + n)"
  by (simp add: u8_from_hex_def)

lemma byte_div_16 [simp]: "byte b div 16 < 16"
  using byte_less [of b] by (intro less_mult_imp_div_less) simp

lemma unreserved_facts [simp]:
  assumes "unreserved c"
  shows "is_ascii c" "c \<noteq> CHR ''%''" "c \<noteq> CHR ''&''" "c \<noteq> CHR ''=''" "c \<noteq> CHR ''?''"
  using assms by (auto simp: unreserved_def is_upper_def is_lower_def is_digit_def is_ascii_def)

lemma percent_encode_Cons [simp]:
  "percent_encode [] = []"
  "percent_encode (b # s) =
     (if unreserved b then b # percent_encode s
      else CHR ''%'' # hex_upper (byte b div 16) # hex_upper (byte b mod 16) # percent_encode s)"
  by (simp_all add: percent_encode_def)

lemma reserved_marks [simp]:
  "\<not> unreserved CHR ''&''" "\<not> unreserved CHR ''=''" "\<not> unreserved CHR ''?''" "\<not> unreserved CHR ''%''"
  by (simp_all add: unreserved_def is_upper_def is_lower_def is_digit_def)

lemma percent_encode_set:
  "c \<in> set (percent_encode s) \<Longrightarrow> is_ascii c \<and> c \<noteq> CHR ''&'' \<and> c \<noteq> CHR ''='' \<and> c \<noteq> CHR ''?''"
proof (induction s)
  case (Cons b s)
  have "is_ascii CHR ''%''" by (simp add: is_ascii_def)
  with Cons show ?case using reserved_marks by (auto split: if_splits)
qed simp

lemma char_of_byte_split: "char_of (byte b div 16 * 16 + byte b mod 16) = b"
  by (simp add: div_mult_mod_eq)

lemma ascii_boundary:
  assumes "\<forall>c\<in>set (drop i s). is_ascii c" "i \<le> j" "j \<le> length s"
  shows "is_char_boundary s j"
proof (cases "j = length s")
  case False
  then have "s ! j \<in> set (drop i s)"
    using assms(2,3) by (auto simp: in_set_conv_nth intro!: exI [of _ "j - i"])
  then show ?thesis using assms by (auto simp: is_char_boundary_def)
qed (simp add: is_char_boundary_def)

lemma percent_decode_loop_encode:
  "percent_decode_loop (pre @ percent_encode s) (length pre) out = Some (out @ s)"
proof (induction s arbitrary: pre out)
  case Nil
  then show ?case by (subst percent_decode_loop.simps) simp
next
  case (Cons b s)
  show ?case
  proof (cases "unreserved b")
    case True
    then show ?thesis
      using Cons.IH [of "pre @ [b]" "out @ [b]"] by (subst percent_decode_loop.simps) simp
  next
    case False
    let ?h = "hex_upper (byte b div 16)" and ?l = "hex_upper (byte b mod 16)"
    let ?t = "CHR ''%'' # ?h # ?l # percent_encode s"
    have "\<forall>c\<in>set ?t. is_ascii c" by (auto dest: percent_encode_set simp: is_ascii_def [of "CHR ''%''"])
    then have "is_char_boundary (pre @ ?t) (length pre + 1)"
      "is_char_boundary (pre @ ?t) (length pre + 3)"
      by (auto intro!: ascii_boundary [of "length pre"])
    then show ?thesis
      using False Cons.IH [of "pre @ [CHR ''%'', ?h, ?l]" "out @ [b]"]
      by (subst percent_decode_loop.simps) (simp add: char_of_byte_split numeral_3_eq_3)
  qed
qed

lemma percent_decode_encode: "valid_utf8 s \<Longrightarrow> percent_decode (percent_encode s) = Some s"
  using percent_decode_loop_encode [of "[]" s "[]"]
  by (simp add: percent_decode_def from_utf8_lossy_valid)

text \<open>On pure ASCII the decoder never panics.\<close>

lemma percent_decode_ascii_total:
  assumes "list_all is_ascii s"
  shows "percent_decode s \<noteq> None"
proof -
  have "is_char_boundary s j" if "j \<le> length s" for j
    using assms that by (intro ascii_boundary [of 0]) (auto simp: list_all_iff)
  then have "percent_decode_loop s i out \<noteq> None" for i out
  proof (induction s i out rule: percent_decode_loop.induct)
    case (1 input i out)
    then show ?case
      by (subst percent_decode_loop.simps) (auto split: option.splits)
  qed
  then show ?thesis by (simp add: percent_decode_def)
qed

section \<open>Parsing what was built\<close>

definition uri_pieces :: "(8 word list \<Rightarrow> string) \<Rightarrow> pairing_uri \<Rightarrow> string list" where
  "uri_pieces enc u =
     [''v=1'', ''r='' @ percent_encode (pu_relay_origin u),
      ''h='' @ handle_encode enc (pu_handle u), ''p='' @ pu_phrase u]"

lemma pairing_uri_build_pieces:
  "pairing_uri_build enc u = ''herdr-remote://pair?'' @ join ''&'' (uri_pieces enc u)"
  by (simp add: pairing_uri_build_def uri_pieces_def PAIRING_URI_SCHEME_def)

lemma parse_pair_pieces [simp]:
  "parse_pair ''v=1'' q = (if qf_version q \<noteq> None then Some (Err UriFieldRepeated)
     else Some (Ok (q\<lparr>qf_version := Some ''1''\<rparr>)))"
  "parse_pair (CHR ''r'' # CHR ''='' # x) q = (if qf_relay_origin q \<noteq> None then Some (Err UriFieldRepeated)
     else map_option (\<lambda>d. Ok (q\<lparr>qf_relay_origin := Some d\<rparr>)) (percent_decode x))"
  "parse_pair (CHR ''h'' # CHR ''='' # x) q = (if qf_handle q \<noteq> None then Some (Err UriFieldRepeated)
     else Some (Ok (q\<lparr>qf_handle := Some x\<rparr>)))"
  "parse_pair (CHR ''p'' # CHR ''='' # x) q = (if qf_phrase q \<noteq> None then Some (Err UriFieldRepeated)
     else Some (Ok (q\<lparr>qf_phrase := Some x\<rparr>)))"
  by (simp_all add: parse_pair_def)

lemma handle_encode_chars:
  "url_safe_no_pad enc dec \<Longrightarrow> CHR ''&'' \<notin> set (handle_encode enc h)"
  using url_safe_no_padD(4) [of enc dec "handle_bytes h"]
  by (auto simp: handle_encode_def list_all_iff b64_char_def is_upper_def is_lower_def is_digit_def)

lemma four_permuted:
  assumes "mset ps = mset [a, b, c, d]" "distinct [a, b, c, d]"
  obtains w x y z where "ps = [w, x, y, z]" "distinct [w, x, y, z]" "w \<in> {a, b, c, d}"
    "x \<in> {a, b, c, d}" "y \<in> {a, b, c, d}" "z \<in> {a, b, c, d}"
proof -
  have "length ps = 4" using arg_cong [OF assms(1), of size] by simp
  then obtain w x y z where ps: "ps = [w, x, y, z]"
    by (auto simp: length_Suc_conv numeral_eq_Suc)
  moreover have "set ps = {a, b, c, d}" using mset_eq_setD [OF assms(1)] by simp
  moreover have "distinct ps" using assms by (metis mset_eq_imp_distinct_iff)
  ultimately show ?thesis using that by auto
qed

lemma pieces_parse:
  assumes "mset ps = mset (uri_pieces enc u)" "valid_utf8 (pu_relay_origin u)"
  shows "parse_query_from ps no_fields =
         Some (Ok \<lparr>qf_version = Some ''1'', qf_relay_origin = Some (pu_relay_origin u),
                   qf_handle = Some (handle_encode enc (pu_handle u)),
                   qf_phrase = Some (pu_phrase u)\<rparr>)"
proof -
  let ?a = "''v=1''" and ?b = "''r='' @ percent_encode (pu_relay_origin u)"
    and ?c = "''h='' @ handle_encode enc (pu_handle u)" and ?d = "''p='' @ pu_phrase u"
  have "mset ps = mset [?a, ?b, ?c, ?d]" "distinct [?a, ?b, ?c, ?d]"
    using assms(1) by (simp_all add: uri_pieces_def)
  then obtain w x y z where "ps = [w, x, y, z]" "distinct [w, x, y, z]"
    "w \<in> {?a, ?b, ?c, ?d}" "x \<in> {?a, ?b, ?c, ?d}" "y \<in> {?a, ?b, ?c, ?d}" "z \<in> {?a, ?b, ?c, ?d}"
    by (rule four_permuted)
  then show ?thesis
    by (elim insertE emptyE) (simp_all add: no_fields_def percent_decode_encode [OF assms(2)])
qed

lemma pieces_no_amp:
  assumes "url_safe_no_pad enc dec" "CHR ''&'' \<notin> set (pu_phrase u)" "p \<in> set (uri_pieces enc u)"
  shows "CHR ''&'' \<notin> set p"
  using assms handle_encode_chars [OF assms(1)]
  by (auto simp: uri_pieces_def dest: percent_encode_set)

text \<open>A pairing URI whose four fields are emitted in any order parses back to the record it
  was built from, whenever the origin is an absolute http(s) origin, the handle is a 16-byte
  handle, the phrase holds no ampersand, and the text is within 512 bytes.\<close>

theorem pairing_uri_any_order:
  assumes "url_safe_no_pad enc dec" "handle_ok (pu_handle u)" "valid_utf8 (pu_relay_origin u)"
    and "is_absolute_http_origin (pu_relay_origin u)" "CHR ''&'' \<notin> set (pu_phrase u)"
    and "mset ps = mset (uri_pieces enc u)"
    and "uri = ''herdr-remote://pair?'' @ join ''&'' ps" "length uri \<le> PAIRING_URI_MAX_LEN"
  shows "pairing_uri_parse dec uri = Some (Ok u)"
proof -
  have "ps \<noteq> []" using assms(6) by (auto simp: uri_pieces_def)
  moreover have "set ps = set (uri_pieces enc u)" using assms(6) by (rule mset_eq_setD)
  ultimately have "split_on CHR ''&'' (join ''&'' ps) = ps"
    using pieces_no_amp [OF assms(1,5)] by (intro split_on_join) auto
  moreover have "split_once ''?'' (''pair?'' @ join ''&'' ps) = Some (''pair'', join ''&'' ps)"
    using split_once_char [of "CHR ''?''" "''pair''"] by simp
  ultimately show ?thesis
    using assms(2,4,7,8) handle_from_str_encode [OF assms(1,2)] pieces_parse [OF assms(6,3)]
    by (simp add: pairing_uri_parse_def PAIRING_URI_SCHEME_def parse_query_def fields_to_uri_def)
qed

lemma uri_witness_facts:
  "handle_encode ref_enc (Handle (replicate 16 0)) = ''AAAAAAAAAAAAAAAAAAAAAA''"
  by code_simp

theorem pairing_uri_any_order_witness:
  "pairing_uri_parse ref_dec
     ''herdr-remote://pair?p=a-b&h=AAAAAAAAAAAAAAAAAAAAAA&r=https%3A%2F%2Fx.y&v=1'' =
   Some (Ok \<lparr>pu_relay_origin = ''https://x.y'', pu_handle = Handle (replicate 16 0), pu_phrase = ''a-b''\<rparr>)"
proof -
  let ?u = "\<lparr>pu_relay_origin = ''https://x.y'', pu_handle = Handle (replicate 16 0), pu_phrase = ''a-b''\<rparr>"
  let ?ps = "rev (uri_pieces ref_enc ?u)"
  have pe: "percent_encode ''https://x.y'' = ''https%3A%2F%2Fx.y''"
    by (simp add: unreserved_def is_upper_def is_lower_def is_digit_def hex_upper_def char_of_def
        bit_Suc_0_iff)
  have "join ''&'' ?ps = ''p=a-b&h=AAAAAAAAAAAAAAAAAAAAAA&r=https%3A%2F%2Fx.y&v=1''"
    unfolding uri_pieces_def pairing_uri.simps pe uri_witness_facts by simp
  moreover have "is_absolute_http_origin ''https://x.y''" "valid_utf8 ''https://x.y''"
    by (simp add: is_absolute_http_origin_def, intro valid_utf8_ascii, simp add: is_ascii_def)
  ultimately show ?thesis
    using pairing_uri_any_order [OF ref_codec, of ?u ?ps "''herdr-remote://pair?'' @ join ''&'' ?ps"]
    by (simp add: handle_ok_def HANDLE_BYTES_def PAIRING_URI_MAX_LEN_def)
qed

text \<open>What the parser accepts is well formed: the origin passes the origin check, the handle is
  16 bytes and its canonical encoding occurs in the text, and the text is within the bound.\<close>

theorem pairing_uri_parse_sound:
  assumes "url_safe_no_pad enc dec" "pairing_uri_parse dec uri = Some (Ok u)"
  shows "is_absolute_http_origin (pu_relay_origin u) \<and> handle_ok (pu_handle u)
         \<and> length uri \<le> PAIRING_URI_MAX_LEN
         \<and> (\<exists>query. uri = ''herdr-remote://pair?'' @ query)"
proof -
  obtain rest q qf where u: "uri = ''herdr-remote://'' @ rest" "length uri \<le> PAIRING_URI_MAX_LEN"
    and q: "split_once ''?'' rest = Some (''pair'', q)" and f: "fields_to_uri dec qf = Ok u"
    using assms(2)
    by (auto simp: pairing_uri_parse_def strip_prefix_Some PAIRING_URI_SCHEME_def Option.bind_eq_Some_conv
        split: if_splits option.splits)
  have "is_absolute_http_origin (pu_relay_origin u) \<and> handle_ok (pu_handle u)"
    using f handle_from_str_Ok [OF assms(1)]
    by (auto simp: fields_to_uri_def split: if_splits sum.splits)
  with u split_once_Some [OF q] show ?thesis by auto
qed

theorem pairing_uri_parse_sound_witness:
  "pairing_uri_parse ref_dec
     ''herdr-remote://pair?v=1&r=http%3A%2F%2Fx&h=AAAAAAAAAAAAAAAAAAAAAA&p=a'' \<noteq> None
   \<and> is_absolute_http_origin ''http://x''"
proof -
  let ?uri = "''herdr-remote://pair?v=1&r=http%3A%2F%2Fx&h=AAAAAAAAAAAAAAAAAAAAAA&p=a''"
  let ?u = "\<lparr>pu_relay_origin = ''http://x'', pu_handle = Handle (replicate 16 0), pu_phrase = ''a''\<rparr>"
  have "pairing_uri_parse ref_dec ?uri = Some (Ok ?u)" by code_simp
  with pairing_uri_parse_sound [OF ref_codec this] show ?thesis by simp
qed

text \<open>Parsing a pairing URI can panic: a valid UTF-8 text with a percent sign one byte before
  a two-byte character makes the decoder slice inside that character.\<close>

theorem pairing_uri_parse_can_panic:
  "valid_utf8 (''herdr-remote://pair?r=%a'' @ [CHR 0xC3, CHR 0xA9])
   \<and> pairing_uri_parse dec (''herdr-remote://pair?r=%a'' @ [CHR 0xC3, CHR 0xA9]) = None
   \<and> percent_decode ''%+F'' = Some [CHR 0x0F]"
  by code_simp

end
