(* ===== verification/Phrase_Codec.thy ===== *)
theory Phrase_Codec
  imports Codes
begin

text \<open>
  \<open>herdr-relay-proto/src/phrase.rs\<close>: the six-word pairing phrase. The word list is an
  argument, as in the code; the random indices of \<open>Phrase::generate\<close> are an argument
  standing for the system random source, \<open>None\<close> when it fails.
\<close>

section \<open>The code\<close>

definition WORD_COUNT :: nat where "WORD_COUNT = 6"
definition EFF_WORDLIST_ENTRY_COUNT :: nat where "EFF_WORDLIST_ENTRY_COUNT = 7776"

record phrase =
  ph_canonical :: string
  ph_words :: "string list"

datatype phrase_error =
    PE_Generate
  | PE_WordListSize nat
  | PE_WordCount
  | PE_WordUnknown
  | PE_Separator
  | PE_Case

fun phrase_error_to_code :: "phrase_error \<Rightarrow> phrase_error_code option" where
  "phrase_error_to_code PE_WordCount = Some PhraseWordCount"
| "phrase_error_to_code PE_WordUnknown = Some PhraseWordUnknown"
| "phrase_error_to_code PE_Separator = Some PhraseSeparator"
| "phrase_error_to_code PE_Case = Some PhraseCase"
| "phrase_error_to_code PE_Generate = None"
| "phrase_error_to_code (PE_WordListSize _) = None"

definition phrase_generate :: "string list \<Rightarrow> nat list option \<Rightarrow> (phrase, phrase_error) result" where
  "phrase_generate words rng =
     (if length words \<noteq> EFF_WORDLIST_ENTRY_COUNT then Err (PE_WordListSize (length words))
      else case rng of
        None \<Rightarrow> Err PE_Generate
      | Some indices \<Rightarrow>
          let chosen = map (\<lambda>i. words ! i) indices
          in Ok \<lparr>ph_canonical = join ''-'' chosen, ph_words = chosen\<rparr>)"

text \<open>Normalisation, character by character; the flag is \<open>last_was_separator\<close>.\<close>

fun normalize_loop :: "bool \<Rightarrow> string list \<Rightarrow> string" where
  "normalize_loop sep [] = []"
| "normalize_loop sep (ch # rest) =
     (if ch = ''-'' \<or> is_whitespace ch then
        (if sep then [] else ''-'') @ normalize_loop True rest
      else to_ascii_lowercase ch @ normalize_loop False rest)"

definition normalize :: "string \<Rightarrow> string" where
  "normalize input = normalize_loop False (chars (trim input))"

fun spans_from :: "nat \<Rightarrow> string list \<Rightarrow> (nat \<times> nat) list" where
  "spans_from offset [] = []"
| "spans_from offset (part # parts) =
     (offset, offset + length part) # spans_from (offset + length part + 1) parts"

function segment_loop :: "string \<Rightarrow> string list \<Rightarrow> (nat \<times> nat) list \<Rightarrow> string list \<Rightarrow> nat \<Rightarrow> string list" where
  "segment_loop normalized parts spans words i =
     (if i < length parts then
        (let joined = take (snd (spans ! (i + 1)) - fst (spans ! i)) (drop (fst (spans ! i)) normalized) in
         if i + 1 < length parts \<and> joined \<in> set words
         then joined # segment_loop normalized parts spans words (i + 2)
         else parts ! i # segment_loop normalized parts spans words (i + 1))
      else [])"
  by pat_completeness auto
termination by (relation "measure (\<lambda>(_, parts, _, _, i). length parts - i)") auto

declare segment_loop.simps [simp del]

definition segment_words :: "string \<Rightarrow> string list \<Rightarrow> string list \<Rightarrow> string list" where
  "segment_words normalized parts words = segment_loop normalized parts (spans_from 0 parts) words 0"

definition parse_canonical :: "string \<Rightarrow> string list \<Rightarrow> (phrase, phrase_error) result" where
  "parse_canonical candidate words =
     (if length words \<noteq> EFF_WORDLIST_ENTRY_COUNT then Err (PE_WordListSize (length words))
      else let normalized = normalize candidate;
               parts = split_on CHR ''-'' normalized
           in if list_ex (\<lambda>w. w = []) parts then Err PE_Separator
              else if list_ex (\<lambda>w. \<not> list_all is_lower w) parts then Err PE_Case
              else let segmented = segment_words normalized parts words
                   in if length segmented \<noteq> WORD_COUNT then Err PE_WordCount
                      else if list_ex (\<lambda>w. w \<notin> set words) segmented then Err PE_WordUnknown
                      else Ok \<lparr>ph_canonical = normalized, ph_words = segmented\<rparr>)"

definition display_form :: "phrase \<Rightarrow> string" where
  "display_form p = join '' '' (ph_words p)"

section \<open>Segmentation by spans is greedy pairing\<close>

text \<open>The reference: join a token with the next when the dictionary holds the hyphenated form.\<close>

fun pair_words :: "string list \<Rightarrow> string list \<Rightarrow> string list" where
  "pair_words words [] = []"
| "pair_words words [p] = [p]"
| "pair_words words (p # q # ps) =
     (if p @ ''-'' @ q \<in> set words then (p @ ''-'' @ q) # pair_words words ps
      else p # pair_words words (q # ps))"

lemma length_spans_from [simp]: "length (spans_from k parts) = length parts"
  by (induction k parts rule: spans_from.induct) auto

lemma spans_from_nth:
  "i < length parts \<Longrightarrow>
     spans_from k parts ! i =
       (let o' = k + sum_list (map length (take i parts)) + i in (o', o' + length (parts ! i)))"
proof (induction k parts arbitrary: i rule: spans_from.induct)
  case (2 k part parts)
  then show ?case by (cases i) (auto simp: Let_def)
qed simp

lemma drop_join:
  "i < length parts \<Longrightarrow>
     drop (sum_list (map length (take i parts)) + i) (join [c] parts) = join [c] (drop i parts)"
proof (induction parts arbitrary: i)
  case (Cons p parts)
  show ?case
  proof (cases i)
    case (Suc j)
    then have "parts \<noteq> []" "j < length parts" using Cons.prems by auto
    then show ?thesis using Cons.IH [of j] by (simp add: Suc join_Cons)
  qed simp
qed simp

lemma joined_slice:
  assumes "i + 1 < length parts"
  shows "take (snd (spans_from 0 parts ! (i + 1)) - fst (spans_from 0 parts ! i))
           (drop (fst (spans_from 0 parts ! i)) (join [c] parts)) = parts ! i @ c # parts ! (i + 1)"
proof -
  have "drop i parts = parts ! i # parts ! (i + 1) # drop (i + 2) parts"
    using assms by (metis Cons_nth_drop_Suc Suc_1 Suc_eq_plus1 Suc_lessD add_Suc_right)
  moreover have "take (i + 1) parts = take i parts @ [parts ! i]"
    using assms by (simp add: take_Suc_conv_app_nth)
  ultimately show ?thesis
    using assms drop_join [of i parts c]
    by (cases "drop (i + 2) parts") (simp_all add: spans_from_nth Let_def)
qed

lemma segment_loop_pairs:
  assumes "normalized = join ''-'' parts"
  shows "segment_loop normalized parts (spans_from 0 parts) words i = pair_words words (drop i parts)"
proof (induction "length parts - i" arbitrary: i rule: less_induct)
  case less
  show ?case
  proof (cases "i + 1 < length parts")
    case True
    then have d: "drop (Suc i) parts = parts ! Suc i # drop (Suc (Suc i)) parts"
      "drop i parts = parts ! i # parts ! Suc i # drop (Suc (Suc i)) parts"
      by (simp_all add: Cons_nth_drop_Suc)
    show ?thesis
      using True joined_slice [OF True, of "CHR ''-''"] less [of "i + 1"] less [of "i + 2"]
      by (subst segment_loop.simps) (auto simp: assms d Let_def)
  next
    case False
    then consider "i < length parts" "drop i parts = [parts ! i]" | "length parts \<le> i"
      by (metis Cons_nth_drop_Suc Suc_eq_plus1 drop_all leI)
    then show ?thesis
      using False less [of "i + 1"] by cases (subst segment_loop.simps; auto simp: Let_def)+
  qed
qed

lemma segment_words_pairs:
  "segment_words (join ''-'' parts) parts words = pair_words words parts"
  by (simp add: segment_words_def segment_loop_pairs)

section \<open>Normal forms\<close>

definition lower_word :: "string \<Rightarrow> bool" where
  "lower_word w \<longleftrightarrow> w \<noteq> [] \<and> list_all is_lower w"

text \<open>The shape of the EFF list that \<open>segment_words\<close> relies on.\<close>

definition dictionary_ok :: "string list \<Rightarrow> bool" where
  "dictionary_ok words \<longleftrightarrow>
     length words = EFF_WORDLIST_ENTRY_COUNT
     \<and> (\<forall>w\<in>set words. lower_word w \<or>
          (\<exists>a b. w = a @ ''-'' @ b \<and> lower_word a \<and> lower_word b \<and> a \<notin> set words))"

lemma lower_word_no_dash: "list_all is_lower w \<Longrightarrow> CHR ''-'' \<notin> set w"
  by (auto simp: list_all_iff is_lower_def)

definition word_pieces :: "string \<Rightarrow> string list" where
  "word_pieces w = split_on CHR ''-'' w"

lemma dictionary_word_cases:
  assumes "dictionary_ok words" "w \<in> set words"
  obtains "lower_word w" "word_pieces w = [w]"
    | a b where "w = a @ ''-'' @ b" "lower_word a" "lower_word b" "a \<notin> set words" "word_pieces w = [a, b]"
proof -
  from assms consider "lower_word w"
    | a b where "w = a @ ''-'' @ b" "lower_word a" "lower_word b" "a \<notin> set words"
    by (auto simp: dictionary_ok_def)
  then show ?thesis
  proof cases
    case 1
    then show ?thesis using that(1) lower_word_no_dash [of w]
      by (simp add: lower_word_def word_pieces_def split_on_absent)
  next
    case (2 a b)
    then show ?thesis using that(2) lower_word_no_dash [of a] lower_word_no_dash [of b]
      by (simp add: lower_word_def word_pieces_def split_on_append split_on_absent)
  qed
qed

lemma split_on_concat:
  "c \<notin> set sep \<or> sep = [c] \<Longrightarrow> split_on c (a @ c # b) = split_on c a @ split_on c b"
proof (induction a)
  case (Cons x a)
  then show ?case by (cases "split_on c a") auto
qed simp

lemma split_join_words:
  "ws \<noteq> [] \<Longrightarrow> split_on CHR ''-'' (join ''-'' ws) = concat (map word_pieces ws)"
proof (induction ws)
  case (Cons w ws)
  then show ?case
    by (cases "ws = []") (auto simp: word_pieces_def join_Cons split_on_concat [of _ "''-''"])
qed simp

text \<open>A left half that is no entry on its own never starts a false pair.\<close>

lemma no_false_pair:
  assumes "dictionary_ok words" "p \<in> set words" "list_all is_lower p" "list_all is_lower q"
  shows "p @ ''-'' @ q \<notin> set words"
proof
  assume "p @ ''-'' @ q \<in> set words"
  with assms(1) show False
  proof (cases rule: dictionary_word_cases)
    case 1
    then show ?thesis by (auto simp: lower_word_def is_lower_def)
  next
    case (2 a b)
    then have "split_once ''-'' (p @ CHR ''-'' # q) = split_once ''-'' (a @ CHR ''-'' # b)" by simp
    then have "a = p"
      using 2 lower_word_no_dash [of a] lower_word_no_dash [of p] assms
      by (simp add: lower_word_def split_once_char)
    with 2 assms show ?thesis by simp
  qed
qed

lemma pair_words_pieces:
  assumes "dictionary_ok words" "set ws \<subseteq> set words"
  shows "pair_words words (concat (map word_pieces ws)) = ws"
  using assms(2)
proof (induction ws)
  case (Cons w ws)
  then have w: "w \<in> set words" and IH: "pair_words words (concat (map word_pieces ws)) = ws" by auto
  from assms(1) w show ?case
  proof (cases rule: dictionary_word_cases)
    case 1
    show ?thesis
    proof (cases ws)
      case Nil
      then show ?thesis using 1 by simp
    next
      case (Cons v vs)
      then have "v \<in> set words" using Cons.prems by auto
      with assms(1) obtain q qs where q: "word_pieces v = q # qs" "list_all is_lower q"
        by (cases rule: dictionary_word_cases) (auto simp: lower_word_def)
      have "w @ ''-'' @ q \<notin> set words"
        using no_false_pair [OF assms(1) w _ q(2)] 1 by (simp add: lower_word_def)
      then show ?thesis using 1 IH q by (simp add: Cons)
    qed
  next
    case (2 a b)
    then show ?thesis using IH w by simp
  qed
qed simp

section \<open>Normalising a phrase text\<close>

abbreviation singles :: "string \<Rightarrow> string list" where "singles s \<equiv> map (\<lambda>c. [c]) s"

lemma is_lower_plain:
  assumes "is_lower c"
  shows "c \<noteq> CHR ''-''" "\<not> is_whitespace [c]" "ascii_lower_char c = c"
  using assms by (auto simp: is_lower_def is_whitespace_single ascii_lower_id is_upper_def)

lemma normalize_loop_lower:
  "lower_word w \<Longrightarrow> normalize_loop b (singles (w @ r)) = w @ normalize_loop False (singles r)"
  unfolding lower_word_def
proof (induction w arbitrary: b)
  case (Cons c w)
  then show ?case
    by (cases "w = []") (auto simp: is_lower_plain to_ascii_lowercase_def)
qed simp

lemma normalize_loop_word:
  assumes "dictionary_ok words" "w \<in> set words"
  shows "normalize_loop b (singles (w @ r)) = w @ normalize_loop False (singles r)"
  using assms
proof (cases rule: dictionary_word_cases)
  case 1
  then show ?thesis by (simp add: normalize_loop_lower del: map_append)
next
  case (2 a d)
  then show ?thesis
    using normalize_loop_lower [of a b "CHR ''-'' # d @ r"] normalize_loop_lower [of d True r] by simp
qed

lemma normalize_loop_join:
  assumes "dictionary_ok words" "set ws \<subseteq> set words" "c = CHR ''-'' \<or> c = CHR '' ''"
  shows "normalize_loop b (singles (join [c] ws)) = join ''-'' ws"
  using assms(2)
proof (induction ws arbitrary: b)
  case (Cons w ws)
  have sep: "[c] = ''-'' \<or> is_whitespace [c]" using assms(3) by (auto simp: is_whitespace_single)
  have w: "normalize_loop b (singles (w @ r)) = w @ normalize_loop False (singles r)" for b r
    using Cons.prems by (intro normalize_loop_word [OF assms(1)]) auto
  show ?case
  proof (cases "ws = []")
    case True
    then show ?thesis using w [of b "[]"] by simp
  next
    case False
    then show ?thesis using w [of b "c # join [c] ws"] Cons sep by (auto simp: join_Cons)
  qed
qed simp

lemma dictionary_word_ends:
  assumes "dictionary_ok words" "w \<in> set words"
  shows "w \<noteq> []" "is_lower (hd w)" "is_lower (last w)" "\<forall>c\<in>set w. is_ascii c"
proof -
  have "w \<noteq> [] \<and> is_lower (hd w) \<and> is_lower (last w) \<and> (\<forall>c\<in>set w. is_ascii c)"
    using assms
  proof (cases rule: dictionary_word_cases)
    case 1
    then show ?thesis by (auto simp: lower_word_def list_all_iff)
  next
    case (2 a b)
    then show ?thesis
      by (cases a) (auto simp: lower_word_def list_all_iff is_ascii_def [of "CHR ''-''"] last_ConsR)
  qed
  then show "w \<noteq> []" "is_lower (hd w)" "is_lower (last w)" "\<forall>c\<in>set w. is_ascii c" by auto
qed

lemma join_ends:
  assumes "dictionary_ok words" "set ws \<subseteq> set words" "ws \<noteq> []" "is_ascii c"
  shows "join [c] ws \<noteq> [] \<and> is_lower (hd (join [c] ws)) \<and> is_lower (last (join [c] ws))
         \<and> (\<forall>x\<in>set (join [c] ws). is_ascii x)"
  using assms(2,3)
proof (induction ws)
  case (Cons w ws)
  note w = dictionary_word_ends [OF assms(1), of w]
  show ?case
  proof (cases "ws = []")
    case True
    then show ?thesis using w Cons.prems by simp
  next
    case False
    then show ?thesis using w Cons assms(4) by (cases w) (auto simp: join_Cons)
  qed
qed simp

lemma normalize_join:
  assumes "dictionary_ok words" "set ws \<subseteq> set words" "ws \<noteq> []" "c = CHR ''-'' \<or> c = CHR '' ''"
  shows "normalize (join [c] ws) = join ''-'' ws"
proof -
  have "is_ascii c" using assms(4) by (auto simp: is_ascii_def)
  note e = join_ends [OF assms(1-3) this]
  have "trim (join [c] ws) = join [c] ws"
    using e is_lower_plain(2) by (intro trim_ascii_id) auto
  moreover have "chars (join [c] ws) = singles (join [c] ws)"
    using e by (intro chars_ascii) auto
  ultimately show ?thesis
    using normalize_loop_join [OF assms(1,2,4)] by (simp add: normalize_def)
qed

section \<open>Parsing\<close>

lemma parse_of_normal_form:
  assumes "dictionary_ok words" "set ws \<subseteq> set words" "length ws = WORD_COUNT"
    and "normalize candidate = join ''-'' ws"
  shows "parse_canonical candidate words = Ok \<lparr>ph_canonical = join ''-'' ws, ph_words = ws\<rparr>"
proof -
  let ?parts = "concat (map word_pieces ws)"
  have ne: "ws \<noteq> []" using assms(3) by (auto simp: WORD_COUNT_def)
  have sp: "split_on CHR ''-'' (join ''-'' ws) = ?parts" by (rule split_join_words [OF ne])
  have lw: "lower_word p" if "p \<in> set ?parts" for p
  proof -
    from that obtain w where "w \<in> set words" "p \<in> set (word_pieces w)" using assms(2) by auto
    with assms(1) show ?thesis by (cases rule: dictionary_word_cases) auto
  qed
  have "segment_words (join ''-'' ws) ?parts words = pair_words words ?parts"
    using segment_words_pairs [of ?parts words] join_split_on [of "CHR ''-''" "join ''-'' ws"]
    by (simp add: sp)
  then have "segment_words (join ''-'' ws) ?parts words = ws"
    using pair_words_pieces [OF assms(1,2)] by simp
  moreover have "\<not> list_ex (\<lambda>w. w = []) ?parts" "\<not> list_ex (\<lambda>w. \<not> list_all is_lower w) ?parts"
    using lw unfolding list_ex_iff lower_word_def by blast+
  moreover have "\<not> list_ex (\<lambda>w. w \<notin> set words) ws" using assms(2) by (auto simp: list_ex_iff)
  ultimately show ?thesis
    using assms(1,3,4) by (simp add: parse_canonical_def sp Let_def dictionary_ok_def)
qed

lemma pair_words_Nil_iff [simp]: "pair_words words ps = [] \<longleftrightarrow> ps = []"
  by (induction words ps rule: pair_words.induct) auto

lemma join_pair_words: "join ''-'' (pair_words words ps) = join ''-'' ps"
proof (induction words ps rule: pair_words.induct)
  case (3 words p q ps)
  then show ?case by (cases "ps = []") (auto simp: join_Cons)
qed auto

section \<open>Properties\<close>

text \<open>Whatever words the random source picks, the generated phrase is accepted: both its
  canonical hyphenated form and its spaced display form parse back to the same six words, although
  entries such as drop-down hold a hyphen themselves. The word list must have the shape
  \<open>segment_words\<close> documents: lower-case words, or two halves joined by a hyphen whose left half
  is no entry.\<close>

theorem generated_phrase_parses:
  assumes "dictionary_ok words" "length indices = WORD_COUNT"
    and "\<forall>i\<in>set indices. i < EFF_WORDLIST_ENTRY_COUNT"
  shows "\<exists>p. phrase_generate words (Some indices) = Ok p
         \<and> ph_words p = map (\<lambda>i. words ! i) indices
         \<and> parse_canonical (ph_canonical p) words = Ok p
         \<and> parse_canonical (display_form p) words = Ok p"
proof -
  let ?ws = "map (\<lambda>i. words ! i) indices"
  have len: "length words = EFF_WORDLIST_ENTRY_COUNT" using assms(1) by (simp add: dictionary_ok_def)
  have ws: "set ?ws \<subseteq> set words" "length ?ws = WORD_COUNT" "?ws \<noteq> []"
    using assms(2,3) len by (auto simp: WORD_COUNT_def)
  let ?p = "\<lparr>ph_canonical = join ''-'' ?ws, ph_words = ?ws\<rparr>"
  have "phrase_generate words (Some indices) = Ok ?p"
    using len by (simp add: phrase_generate_def Let_def)
  moreover have "parse_canonical (join ''-'' ?ws) words = Ok ?p"
    "parse_canonical (display_form ?p) words = Ok ?p"
    using parse_of_normal_form [OF assms(1) ws(1,2)] normalize_join [OF assms(1) ws(1,3)]
    by (simp_all add: display_form_def)
  ultimately show ?thesis by auto
qed

definition sample_words :: "string list" where
  "sample_words = concat (replicate 1296
     [''remedy'', ''tapestry'', ''drop-down'', ''down'', ''t-shirt'', ''shirt''])"

lemma set_sample_words:
  "set sample_words = {''remedy'', ''tapestry'', ''drop-down'', ''down'', ''t-shirt'', ''shirt''}"
  by (simp add: sample_words_def)

lemma sample_words_ok: "dictionary_ok sample_words"
proof -
  have "length sample_words = EFF_WORDLIST_ENTRY_COUNT"
    by (simp add: sample_words_def length_concat sum_list_replicate EFF_WORDLIST_ENTRY_COUNT_def)
  moreover have "lower_word ''remedy''" "lower_word ''tapestry''" "lower_word ''down''" "lower_word ''shirt''"
    "lower_word ''drop''" "lower_word ''t''"
    by (simp_all add: lower_word_def is_lower_def)
  moreover have "''drop-down'' = ''drop'' @ ''-'' @ ''down''" "''t-shirt'' = ''t'' @ ''-'' @ ''shirt''"
    by simp_all
  ultimately show ?thesis
    unfolding dictionary_ok_def set_sample_words by blast
qed

theorem generated_phrase_parses_witness:
  "\<exists>p. phrase_generate sample_words (Some [0, 2, 3, 4, 5, 1]) = Ok p
       \<and> parse_canonical (display_form p) sample_words = Ok p"
proof -
  have "length [0, 2, 3, 4, 5, 1 :: nat] = WORD_COUNT"
    "\<forall>i\<in>set [0, 2, 3, 4, 5, 1 :: nat]. i < EFF_WORDLIST_ENTRY_COUNT"
    by (simp_all add: WORD_COUNT_def EFF_WORDLIST_ENTRY_COUNT_def)
  from generated_phrase_parses [OF sample_words_ok this] show ?thesis by blast
qed

text \<open>A phrase that parses consists of six entries of the word list; joined with hyphens they
  give its canonical form, which is the normalised input and holds lower-case letters and hyphens
  only.\<close>

theorem parse_canonical_sound:
  assumes "parse_canonical candidate words = Ok p"
  shows "length (ph_words p) = WORD_COUNT \<and> set (ph_words p) \<subseteq> set words
         \<and> ph_canonical p = join ''-'' (ph_words p) \<and> ph_canonical p = normalize candidate
         \<and> list_all (\<lambda>c. is_lower c \<or> c = CHR ''-'') (ph_canonical p)"
proof -
  let ?n = "normalize candidate"
  let ?parts = "split_on CHR ''-'' ?n"
  have seg: "segment_words ?n ?parts words = pair_words words ?parts"
    using segment_words_pairs [of ?parts words] by simp
  from assms have p: "p = \<lparr>ph_canonical = ?n, ph_words = pair_words words ?parts\<rparr>"
    and len: "length (pair_words words ?parts) = WORD_COUNT"
    and sub: "\<not> list_ex (\<lambda>w. w \<notin> set words) (pair_words words ?parts)"
    and low: "\<not> list_ex (\<lambda>w. \<not> list_all is_lower w) ?parts"
    by (auto simp: parse_canonical_def Let_def seg split: if_splits)
  have "set ?n \<subseteq> \<Union> (set ` set ?parts) \<union> {CHR ''-''}"
    using set_join [of "''-''" ?parts] by simp
  then have "list_all (\<lambda>c. is_lower c \<or> c = CHR ''-'') ?n"
    using low by (fastforce simp: list_all_iff list_ex_iff)
  moreover have "?n = join ''-'' (pair_words words ?parts)" by (simp add: join_pair_words)
  ultimately show ?thesis using len sub by (auto simp: p list_ex_iff)
qed

theorem parse_canonical_sound_witness:
  "\<exists>p. parse_canonical (join ''-'' (replicate 6 ''down'')) sample_words = Ok p \<and> length (ph_words p) = 6"
proof -
  have "parse_canonical (join ''-'' (replicate 6 ''down'')) sample_words =
      Ok \<lparr>ph_canonical = join ''-'' (replicate 6 ''down''), ph_words = replicate 6 ''down''\<rparr>"
    by (rule parse_of_normal_form [OF sample_words_ok])
       (simp_all add: set_sample_words WORD_COUNT_def normalize_join [OF sample_words_ok])
  from parse_canonical_sound [OF this] this show ?thesis by (simp add: WORD_COUNT_def)
qed

end
