(* ===== verification/Frame_Codec.thy ===== *)
theory Frame_Codec
  imports Prelude
begin

unbundle bit_operations_syntax

text \<open>
  \<open>herdr-relay/src/frame_codec.rs\<close>: compress-then-fragment on send, reassemble-then-
  decompress on receive. zlib and the Noise transport are parameters. \<open>deflate\<close> is the
  compressor; \<open>reads\<close> gives the results of the successive \<open>ZlibDecoder::read\<close> calls on
  a body (the end of the list is a read of zero bytes); \<open>encrypt\<close>/\<open>decrypt\<close> step the two
  ends of a Noise session.
\<close>

type_synonym bytes = "8 word list"

definition MAX_UNCOMPRESSED_LEN :: nat where "MAX_UNCOMPRESSED_LEN = 1048576"
definition RECORD_HEADER_LEN :: nat where "RECORD_HEADER_LEN = 5"
definition MAX_COMPRESSED_RECORD_LEN :: nat where "MAX_COMPRESSED_RECORD_LEN = 1049641"
definition MAX_MESSAGE_LEN :: nat where "MAX_MESSAGE_LEN = 65535"
definition NOISE_PLAINTEXT_CEILING :: nat where "NOISE_PLAINTEXT_CEILING = MAX_MESSAGE_LEN - 16"
definition FRAGMENT_HEADER_LEN :: nat where "FRAGMENT_HEADER_LEN = 2"
definition MAX_CHUNK_LEN :: nat where "MAX_CHUNK_LEN = NOISE_PLAINTEXT_CEILING - FRAGMENT_HEADER_LEN"
definition MAX_FRAG_COUNT :: "8 word" where "MAX_FRAG_COUNT = 40"
definition INTER_FRAGMENT_TIMEOUT :: duration where "INTER_FRAGMENT_TIMEOUT = secs 10"

datatype protocol_fault =
    NoiseFailed
  | ZlibFailed
  | OutputTooLarge
  | ShortRecord
  | DeclaredTooLarge
  | LengthMismatch
  | UnknownCodec
  | FragmentTimeout
  | ShortFragment
  | FirstIndexNotZero
  | BadFragCount
  | TotalTooLarge
  | FragCountChanged
  | IndexOutOfOrder

datatype frame_codec_error = EnvelopeTooLarge | ProtocolFault protocol_fault

section \<open>Compression records\<close>

datatype zread = ZChunk bytes | ZFail

fun bounded_decompress_loop :: "zread list \<Rightarrow> bytes \<Rightarrow> (bytes, frame_codec_error) result" where
  "bounded_decompress_loop [] out = Ok out"
| "bounded_decompress_loop (ZFail # rs) out = Err (ProtocolFault ZlibFailed)"
| "bounded_decompress_loop (ZChunk c # rs) out =
     (if c = [] then Ok out
      else if MAX_UNCOMPRESSED_LEN < length (out @ c) then Err (ProtocolFault OutputTooLarge)
      else bounded_decompress_loop rs (out @ c))"

definition bounded_zlib_decompress ::
  "(bytes \<Rightarrow> zread list) \<Rightarrow> bytes \<Rightarrow> (bytes, frame_codec_error) result" where
  "bounded_zlib_decompress reads body = bounded_decompress_loop (reads body) []"

definition to_be_bytes :: "32 word \<Rightarrow> bytes" where
  "to_be_bytes w = [ucast (drop_bit 24 w), ucast (drop_bit 16 w), ucast (drop_bit 8 w), ucast w]"

definition from_be_bytes :: "8 word \<Rightarrow> 8 word \<Rightarrow> 8 word \<Rightarrow> 8 word \<Rightarrow> 32 word" where
  "from_be_bytes a b c d =
     push_bit 24 (ucast a) OR push_bit 16 (ucast b) OR push_bit 8 (ucast c) OR ucast d"

definition build_record :: "(bytes \<Rightarrow> bytes) \<Rightarrow> bytes \<Rightarrow> (bytes, frame_codec_error) result" where
  "build_record deflate envelope =
     (if MAX_UNCOMPRESSED_LEN < length envelope then Err EnvelopeTooLarge
      else let compressed = deflate envelope;
               (codec, body) = (if length compressed < length envelope then (1, compressed)
                                else (0, envelope))
           in Ok (codec # to_be_bytes (of_nat (length envelope)) @ body))"

definition decode_record ::
  "(bytes \<Rightarrow> zread list) \<Rightarrow> bytes \<Rightarrow> (bytes, frame_codec_error) result" where
  "decode_record reads rec =
     (if length rec < RECORD_HEADER_LEN then Err (ProtocolFault ShortRecord)
      else let codec = rec ! 0;
               uncompressed_len = unat (from_be_bytes (rec ! 1) (rec ! 2) (rec ! 3) (rec ! 4));
               body = drop RECORD_HEADER_LEN rec
           in if MAX_UNCOMPRESSED_LEN < uncompressed_len then Err (ProtocolFault DeclaredTooLarge)
              else if codec = 0 then
                (if length body \<noteq> uncompressed_len then Err (ProtocolFault LengthMismatch) else Ok body)
              else if codec = 1 then bounded_zlib_decompress reads body
              else Err (ProtocolFault UnknownCodec))"

section \<open>Fragments\<close>

text \<open>\<open>slice::chunks\<close>.\<close>

function chunks_of :: "nat \<Rightarrow> 'a list \<Rightarrow> 'a list list" where
  "chunks_of n xs = (if n = 0 \<or> xs = [] then [] else take n xs # chunks_of n (drop n xs))"
  by pat_completeness auto
termination by (relation "measure (\<lambda>(n, xs). length xs)") auto

declare chunks_of.simps [simp del]

definition split_into_fragments :: "bytes \<Rightarrow> bytes list" where
  "split_into_fragments rec =
     (let chunks = chunks_of MAX_CHUNK_LEN rec;
          frag_count = of_nat (length chunks)
      in map (\<lambda>(index, chunk). of_nat index # frag_count # chunk) (enumerate 0 chunks))"

fun encrypt_all ::
  "('s \<Rightarrow> bytes \<Rightarrow> 's \<times> bytes option) \<Rightarrow> 's \<Rightarrow> bytes list \<Rightarrow>
     's \<times> (bytes list, frame_codec_error) result" where
  "encrypt_all encrypt s [] = (s, Ok [])"
| "encrypt_all encrypt s (f # fs) =
     (case encrypt s f of
        (s1, None) \<Rightarrow> (s1, Err (ProtocolFault NoiseFailed))
      | (s1, Some c) \<Rightarrow>
          case encrypt_all encrypt s1 fs of
            (s2, Err e) \<Rightarrow> (s2, Err e)
          | (s2, Ok cs) \<Rightarrow> (s2, Ok (c # cs)))"

definition encode_frame ::
  "(bytes \<Rightarrow> bytes) \<Rightarrow> ('s \<Rightarrow> bytes \<Rightarrow> 's \<times> bytes option) \<Rightarrow> 's \<Rightarrow> bytes \<Rightarrow>
     's \<times> (bytes list, frame_codec_error) result" where
  "encode_frame deflate encrypt s envelope =
     (case build_record deflate envelope of
        Err e \<Rightarrow> (s, Err e)
      | Ok rec \<Rightarrow> encrypt_all encrypt s (split_into_fragments rec))"

section \<open>Reassembly\<close>

record partial_record =
  pr_frag_count :: "8 word"
  pr_next_index :: "8 word"
  pr_buffer :: bytes
  pr_last_at :: instant

type_synonym reassembler = "partial_record option"

definition reassembler_new :: reassembler where "reassembler_new = None"

definition accept_first ::
  "(bytes \<Rightarrow> zread list) \<Rightarrow> 8 word \<Rightarrow> 8 word \<Rightarrow> bytes \<Rightarrow> instant \<Rightarrow>
     reassembler \<times> (bytes option, frame_codec_error) result" where
  "accept_first reads frag_index frag_count chunk now =
     (if frag_index \<noteq> 0 then (None, Err (ProtocolFault FirstIndexNotZero))
      else if frag_count = 0 \<or> MAX_FRAG_COUNT < frag_count then (None, Err (ProtocolFault BadFragCount))
      else if MAX_COMPRESSED_RECORD_LEN < length chunk then (None, Err (ProtocolFault TotalTooLarge))
      else if frag_count = 1 then (None, bind_result (decode_record reads chunk) (\<lambda>e. Ok (Some e)))
      else (Some \<lparr>pr_frag_count = frag_count, pr_next_index = 1, pr_buffer = chunk, pr_last_at = now\<rparr>,
            Ok None))"

definition accept_next ::
  "(bytes \<Rightarrow> zread list) \<Rightarrow> partial_record \<Rightarrow> 8 word \<Rightarrow> 8 word \<Rightarrow> bytes \<Rightarrow> instant \<Rightarrow>
     reassembler \<times> (bytes option, frame_codec_error) result" where
  "accept_next reads p frag_index frag_count chunk now =
     (if frag_count \<noteq> pr_frag_count p then (None, Err (ProtocolFault FragCountChanged))
      else if frag_index \<noteq> pr_next_index p then (None, Err (ProtocolFault IndexOutOfOrder))
      else let buffer = pr_buffer p @ chunk in
           if MAX_COMPRESSED_RECORD_LEN < length buffer then (None, Err (ProtocolFault TotalTooLarge))
           else if frag_index = frag_count - 1 then
             (None, bind_result (decode_record reads buffer) (\<lambda>e. Ok (Some e)))
           else (Some (p\<lparr>pr_buffer := buffer, pr_last_at := now, pr_next_index := pr_next_index p + 1\<rparr>),
                 Ok None))"

definition accept_fragment ::
  "(bytes \<Rightarrow> zread list) \<Rightarrow> reassembler \<Rightarrow> bytes \<Rightarrow> instant \<Rightarrow>
     reassembler \<times> (bytes option, frame_codec_error) result" where
  "accept_fragment reads r plaintext now =
     (case r of
        Some p \<Rightarrow>
          if INTER_FRAGMENT_TIMEOUT < now - pr_last_at p then (None, Err (ProtocolFault FragmentTimeout))
          else if length plaintext < FRAGMENT_HEADER_LEN then (None, Err (ProtocolFault ShortFragment))
          else accept_next reads p (plaintext ! 0) (plaintext ! 1)
                 (drop FRAGMENT_HEADER_LEN plaintext) now
      | None \<Rightarrow>
          if length plaintext < FRAGMENT_HEADER_LEN then (None, Err (ProtocolFault ShortFragment))
          else accept_first reads (plaintext ! 0) (plaintext ! 1)
                 (drop FRAGMENT_HEADER_LEN plaintext) now)"

definition decode_fragment ::
  "(bytes \<Rightarrow> zread list) \<Rightarrow> ('r \<Rightarrow> bytes \<Rightarrow> 'r \<times> bytes option) \<Rightarrow> reassembler \<Rightarrow> 'r \<Rightarrow> bytes \<Rightarrow>
     instant \<Rightarrow> reassembler \<times> 'r \<times> (bytes option, frame_codec_error) result" where
  "decode_fragment reads decrypt r t ciphertext now =
     (case decrypt t ciphertext of
        (t1, None) \<Rightarrow> (r, t1, Err (ProtocolFault NoiseFailed))
      | (t1, Some plaintext) \<Rightarrow>
          case accept_fragment reads r plaintext now of (r1, res) \<Rightarrow> (r1, t1, res))"

text \<open>Feeding a sequence of fragments, with the instants they arrive at.\<close>

fun accept_all ::
  "(bytes \<Rightarrow> zread list) \<Rightarrow> reassembler \<Rightarrow> (bytes \<times> instant) list \<Rightarrow>
     reassembler \<times> (bytes option, frame_codec_error) result list" where
  "accept_all reads r [] = (r, [])"
| "accept_all reads r ((f, now) # fs) =
     (case accept_fragment reads r f now of
        (r1, res) \<Rightarrow> case accept_all reads r1 fs of (r2, out) \<Rightarrow> (r2, res # out))"

fun decode_all ::
  "(bytes \<Rightarrow> zread list) \<Rightarrow> ('r \<Rightarrow> bytes \<Rightarrow> 'r \<times> bytes option) \<Rightarrow> reassembler \<Rightarrow> 'r \<Rightarrow>
     (bytes \<times> instant) list \<Rightarrow> reassembler \<times> 'r \<times> (bytes option, frame_codec_error) result list" where
  "decode_all reads decrypt r t [] = (r, t, [])"
| "decode_all reads decrypt r t ((c, now) # cs) =
     (case decode_fragment reads decrypt r t c now of
        (r1, t1, res) \<Rightarrow> case decode_all reads decrypt r1 t1 cs of (r2, t2, out) \<Rightarrow> (r2, t2, res # out))"

section \<open>Records\<close>

lemma be_bytes_roundtrip:
  "from_be_bytes (ucast (drop_bit 24 w)) (ucast (drop_bit 16 w)) (ucast (drop_bit 8 w)) (ucast w) = w"
proof (rule bit_word_eqI)
  fix n assume "n < LENGTH(32)"
  then consider "n < 8" | "8 \<le> n" "n < 16" | "16 \<le> n" "n < 24" | "24 \<le> n" "n < 32" by force
  then show "bit (from_be_bytes (ucast (drop_bit 24 w)) (ucast (drop_bit 16 w)) (ucast (drop_bit 8 w))
      (ucast w)) n = bit w n"
    by cases (auto simp: from_be_bytes_def bit_simps)
qed

definition zlib_ok :: "(bytes \<Rightarrow> bytes) \<Rightarrow> (bytes \<Rightarrow> zread list) \<Rightarrow> bool" where
  "zlib_ok deflate reads \<longleftrightarrow>
     (\<forall>d. \<exists>cs. reads (deflate d) = map ZChunk cs \<and> [] \<notin> set cs \<and> concat cs = d)"

lemma bounded_decompress_loop_chunks:
  "[] \<notin> set cs \<Longrightarrow> length (out @ concat cs) \<le> MAX_UNCOMPRESSED_LEN \<Longrightarrow>
     bounded_decompress_loop (map ZChunk cs) out = Ok (out @ concat cs)"
proof (induction cs arbitrary: out)
  case (Cons c cs)
  then show ?case using Cons.IH [of "out @ c"] by auto
qed simp

lemma bounded_decompress_loop_bound:
  "bounded_decompress_loop rs out = Ok d \<Longrightarrow> length out \<le> MAX_UNCOMPRESSED_LEN \<Longrightarrow>
     length d \<le> MAX_UNCOMPRESSED_LEN"
  by (induction rs out rule: bounded_decompress_loop.induct) (auto split: if_splits)

lemma decode_record_bound:
  assumes "decode_record reads rec = Ok d"
  shows "length d \<le> MAX_UNCOMPRESSED_LEN"
  using assms bounded_decompress_loop_bound [of "reads (drop RECORD_HEADER_LEN rec)" "[]" d]
  by (auto simp: decode_record_def Let_def bounded_zlib_decompress_def split: if_splits)

lemma build_record_cases:
  assumes "build_record deflate env = Ok rec"
  obtains codec body where "rec = codec # to_be_bytes (of_nat (length env)) @ body"
    "length env \<le> MAX_UNCOMPRESSED_LEN" "length body \<le> length env"
    "codec = 0 \<and> body = env \<or> codec = 1 \<and> body = deflate env"
  using assms by (auto simp: build_record_def Let_def split: if_splits)

lemma decode_build_record:
  assumes "zlib_ok deflate reads" "build_record deflate env = Ok rec"
  shows "decode_record reads rec = Ok env"
  using assms(2)
proof (rule build_record_cases)
  fix codec body
  assume r: "rec = codec # to_be_bytes (of_nat (length env)) @ body"
    and l: "length env \<le> MAX_UNCOMPRESSED_LEN"
    and c: "codec = 0 \<and> body = env \<or> codec = 1 \<and> body = deflate env"
  have len: "unat (from_be_bytes (rec ! 1) (rec ! 2) (rec ! 3) (rec ! 4)) = length env"
    using l by (simp add: r to_be_bytes_def be_bytes_roundtrip unat_of_nat MAX_UNCOMPRESSED_LEN_def)
  have body: "drop RECORD_HEADER_LEN rec = body" "RECORD_HEADER_LEN \<le> length rec" "rec ! 0 = codec"
    by (simp_all add: r to_be_bytes_def RECORD_HEADER_LEN_def)
  obtain cs where "reads (deflate env) = map ZChunk cs" "[] \<notin> set cs" "concat cs = env"
    using assms(1) by (auto simp: zlib_ok_def)
  then have "bounded_zlib_decompress reads (deflate env) = Ok env"
    using bounded_decompress_loop_chunks [of cs "[]"] l by (auto simp: bounded_zlib_decompress_def)
  then show ?thesis
    using body len l c by (auto simp: decode_record_def Let_def)
qed

lemma build_record_length:
  "build_record deflate env = Ok rec \<Longrightarrow>
     0 < length rec \<and> length rec \<le> MAX_UNCOMPRESSED_LEN + RECORD_HEADER_LEN"
  by (erule build_record_cases) (simp add: to_be_bytes_def RECORD_HEADER_LEN_def)

section \<open>Chunks\<close>

lemma concat_chunks_of [simp]: "0 < n \<Longrightarrow> concat (chunks_of n xs) = xs"
  by (induction n xs rule: chunks_of.induct) (subst chunks_of.simps; simp)

lemma chunks_of_bounds: "c \<in> set (chunks_of n xs) \<Longrightarrow> c \<noteq> [] \<and> length c \<le> n"
proof (induction n xs rule: chunks_of.induct)
  case (1 n xs)
  then show ?case using chunks_of.simps [of n xs] take_eq_Nil [of n xs]
    by (auto split: if_splits)
qed

lemma length_chunks_of: "0 < n \<Longrightarrow> length (chunks_of n xs) * n < length xs + n"
proof (induction n xs rule: chunks_of.induct)
  case (1 n xs)
  then show ?case
    by (cases "xs = []"; cases "length xs \<le> n"; subst chunks_of.simps) (auto simp: chunks_of.simps)
qed

lemma chunks_of_Nil_iff: "0 < n \<Longrightarrow> chunks_of n xs = [] \<longleftrightarrow> xs = []"
  by (subst chunks_of.simps) simp

definition fragments_from :: "nat \<Rightarrow> nat \<Rightarrow> bytes list \<Rightarrow> bytes list" where
  "fragments_from i n cs = map (\<lambda>(j, c). of_nat j # of_nat n # c) (enumerate i cs)"

lemma fragments_from_simps [simp]:
  "fragments_from i n [] = []"
  "fragments_from i n (c # cs) = (of_nat i # of_nat n # c) # fragments_from (Suc i) n cs"
  by (simp_all add: fragments_from_def)

lemma length_fragments_from [simp]: "length (fragments_from i n cs) = length cs"
  by (simp add: fragments_from_def)

lemma split_into_fragments_from:
  "split_into_fragments rec =
     fragments_from 0 (length (chunks_of MAX_CHUNK_LEN rec)) (chunks_of MAX_CHUNK_LEN rec)"
  by (simp add: split_into_fragments_def fragments_from_def Let_def)

lemma chunk_constants [simp]: "MAX_CHUNK_LEN = 65517"
  by (simp add: MAX_CHUNK_LEN_def NOISE_PLAINTEXT_CEILING_def MAX_MESSAGE_LEN_def FRAGMENT_HEADER_LEN_def)

lemma unat_of_nat8 [simp]: "i < 256 \<Longrightarrow> unat (of_nat i :: 8 word) = i"
  by (simp add: unat_of_nat)

lemma word8_eq: "i < 256 \<Longrightarrow> j < 256 \<Longrightarrow> (of_nat i :: 8 word) = of_nat j \<longleftrightarrow> i = j"
  by (metis unat_of_nat8)

lemma word8_pred: "0 < n \<Longrightarrow> (of_nat n :: 8 word) - 1 = of_nat (n - 1)"
  by (cases n) simp_all

lemma word8_last:
  "i < n \<Longrightarrow> n \<le> 40 \<Longrightarrow> (of_nat i :: 8 word) = of_nat n - 1 \<longleftrightarrow> Suc i = n"
  using word8_pred [of n] word8_eq [of i "n - 1"] by (simp del: of_nat_diff) linarith

section \<open>Reassembly of an in-order sequence\<close>

fun gaps_ok :: "instant \<Rightarrow> instant list \<Rightarrow> bool" where
  "gaps_ok prev [] = True"
| "gaps_ok prev (t # ts) = (t - prev \<le> INTER_FRAGMENT_TIMEOUT \<and> gaps_ok t ts)"

definition partial_at :: "nat \<Rightarrow> nat \<Rightarrow> bytes \<Rightarrow> instant \<Rightarrow> partial_record" where
  "partial_at n i buffer t =
     \<lparr>pr_frag_count = of_nat n, pr_next_index = of_nat i, pr_buffer = buffer, pr_last_at = t\<rparr>"

lemma partial_at_sel [simp]:
  "pr_frag_count (partial_at n i b t) = of_nat n" "pr_next_index (partial_at n i b t) = of_nat i"
  "pr_buffer (partial_at n i b t) = b" "pr_last_at (partial_at n i b t) = t"
  by (simp_all add: partial_at_def)

lemma partial_at_update [simp]:
  "(partial_at n i b t)\<lparr>pr_buffer := b', pr_last_at := t', pr_next_index := of_nat i + 1\<rparr> =
     partial_at n (Suc i) b' t'"
  by (simp add: partial_at_def)

lemma accept_fragment_in_order:
  assumes "i < n" "n \<le> 40" "t' - t \<le> INTER_FRAGMENT_TIMEOUT"
    and "length (buf @ c) \<le> MAX_COMPRESSED_RECORD_LEN"
  shows "accept_fragment reads (Some (partial_at n i buf t)) (of_nat i # of_nat n # c) t' =
    (if Suc i = n then (None, bind_result (decode_record reads (buf @ c)) (\<lambda>e. Ok (Some e)))
     else (Some (partial_at n (Suc i) (buf @ c) t'), Ok None))"
  using assms
  by (auto simp: accept_fragment_def accept_next_def FRAGMENT_HEADER_LEN_def word8_last [OF assms(1,2)])

lemma accept_all_in_order:
  assumes "cs \<noteq> []" "i + length cs = n" "n \<le> 40" "length ts = length cs" "gaps_ok t ts"
    and "length (buf @ concat cs) \<le> MAX_COMPRESSED_RECORD_LEN"
  shows "accept_all reads (Some (partial_at n i buf t)) (zip (fragments_from i n cs) ts) =
    (None, replicate (length cs - 1) (Ok None)
           @ [bind_result (decode_record reads (buf @ concat cs)) (\<lambda>e. Ok (Some e))])"
  using assms
proof (induction cs arbitrary: i buf t ts)
  case (Cons c cs)
  then obtain t' ts' where ts: "ts = t' # ts'" by (cases ts) auto
  have step: "accept_fragment reads (Some (partial_at n i buf t)) (of_nat i # of_nat n # c) t' =
    (if Suc i = n then (None, bind_result (decode_record reads (buf @ c)) (\<lambda>e. Ok (Some e)))
     else (Some (partial_at n (Suc i) (buf @ c) t'), Ok None))"
    using Cons.prems ts by (intro accept_fragment_in_order) auto
  show ?case
  proof (cases "cs = []")
    case True
    then show ?thesis using Cons.prems ts step by simp
  next
    case False
    then have "Suc i \<noteq> n" "length cs = Suc (length cs - 1)" using Cons.prems(2) by auto
    moreover note Cons.IH [of "Suc i" ts' t' "buf @ c"]
    ultimately show ?thesis using Cons.prems ts step False
      by (simp add: replicate_append_same flip: replicate_Suc)
  qed
qed simp

lemma accept_fragment_first:
  assumes "0 < n" "n \<le> 40" "length c \<le> MAX_COMPRESSED_RECORD_LEN"
  shows "accept_fragment reads None (0 # of_nat n # c) t =
    (if n = 1 then (None, bind_result (decode_record reads c) (\<lambda>e. Ok (Some e)))
     else (Some (partial_at n 1 c t), Ok None))"
proof -
  have "(of_nat n :: 8 word) \<noteq> 0" using assms word8_eq [of n 0] by simp
  moreover have "\<not> MAX_FRAG_COUNT < of_nat n" using assms
    by (simp add: MAX_FRAG_COUNT_def word_less_nat_alt)
  moreover have "(of_nat n :: 8 word) = 1 \<longleftrightarrow> n = 1" using assms word8_eq [of n 1] by simp
  ultimately show ?thesis using assms(3)
    by (simp add: accept_fragment_def accept_first_def FRAGMENT_HEADER_LEN_def partial_at_def)
qed

lemma accept_all_complete:
  assumes "cs \<noteq> []" "length cs \<le> 40" "length ts = length cs" "gaps_ok (hd ts) ts"
    and "length (concat cs) \<le> MAX_COMPRESSED_RECORD_LEN"
  shows "accept_all reads None (zip (fragments_from 0 (length cs) cs) ts) =
    (None, replicate (length cs - 1) (Ok None)
           @ [bind_result (decode_record reads (concat cs)) (\<lambda>e. Ok (Some e))])"
proof -
  obtain c cs' t ts' where cs: "cs = c # cs'" and ts: "ts = t # ts'"
    using assms by (cases cs; cases ts) auto
  have step: "accept_fragment reads None (0 # of_nat (length cs) # c) t =
    (if length cs = 1 then (None, bind_result (decode_record reads c) (\<lambda>e. Ok (Some e)))
     else (Some (partial_at (length cs) 1 c t), Ok None))"
    using assms cs by (intro accept_fragment_first) auto
  show ?thesis
  proof (cases "cs' = []")
    case True
    then show ?thesis using step assms by (simp add: cs ts)
  next
    case False
    then have "length cs' = Suc (length cs' - 1)" by simp
    moreover have "accept_all reads (Some (partial_at (length cs) 1 c t))
        (zip (fragments_from 1 (length cs) cs') ts') =
      (None, replicate (length cs' - 1) (Ok None)
           @ [bind_result (decode_record reads (c @ concat cs')) (\<lambda>e. Ok (Some e))])"
      using assms False by (intro accept_all_in_order) (auto simp: cs ts)
    ultimately show ?thesis using step False
      by (simp add: cs ts replicate_append_same flip: replicate_Suc)
  qed
qed

section \<open>What an accepted sequence must look like\<close>

lemma two_headed: "2 \<le> length f \<Longrightarrow> f = f ! 0 # f ! 1 # drop 2 f"
  by (cases f; cases "tl f") auto

lemma accept_fragment_next_Ok:
  assumes "accept_fragment reads (Some (partial_at n i buf t)) f t' = (r, Ok x)" "i < n" "n \<le> 40"
  obtains c where "f = of_nat i # of_nat n # c" "length (buf @ c) \<le> MAX_COMPRESSED_RECORD_LEN"
    "t' - t \<le> INTER_FRAGMENT_TIMEOUT"
    "Suc i = n \<and> r = None \<and> (\<exists>e. x = Some e \<and> decode_record reads (buf @ c) = Ok e)
     \<or> Suc i < n \<and> r = Some (partial_at n (Suc i) (buf @ c) t') \<and> x = None"
proof -
  let ?c = "drop 2 f"
  have f: "2 \<le> length f" "f ! 0 = of_nat i" "f ! 1 = of_nat n"
    and l: "length (buf @ ?c) \<le> MAX_COMPRESSED_RECORD_LEN" and g: "t' - t \<le> INTER_FRAGMENT_TIMEOUT"
    using assms(1)
    by (auto simp: accept_fragment_def accept_next_def FRAGMENT_HEADER_LEN_def Let_def split: if_splits)
  then have eq: "f = of_nat i # of_nat n # ?c" using two_headed [of f] by simp
  note step = accept_fragment_in_order [OF assms(2,3) g l, of reads]
  have "Suc i = n \<and> r = None \<and> (\<exists>e. x = Some e \<and> decode_record reads (buf @ ?c) = Ok e)
     \<or> Suc i < n \<and> r = Some (partial_at n (Suc i) (buf @ ?c) t') \<and> x = None"
    using assms step eq by (auto split: if_splits)
  with eq l g show ?thesis by (rule that)
qed

lemma accept_fragment_first_Ok:
  assumes "accept_fragment reads None f t = (r, Ok x)"
  obtains n c where "0 < n" "n \<le> 40" "f = 0 # of_nat n # c" "length c \<le> MAX_COMPRESSED_RECORD_LEN"
    "n = 1 \<and> r = None \<and> (\<exists>e. x = Some e \<and> decode_record reads c = Ok e)
     \<or> 1 < n \<and> r = Some (partial_at n 1 c t) \<and> x = None"
proof -
  let ?c = "drop 2 f" and ?n = "unat (f ! 1)"
  have f: "2 \<le> length f" "f ! 0 = 0" "f ! 1 \<noteq> 0" "f ! 1 \<le> 40"
    and l: "length ?c \<le> MAX_COMPRESSED_RECORD_LEN"
    using assms
    by (auto simp: accept_fragment_def accept_first_def FRAGMENT_HEADER_LEN_def MAX_FRAG_COUNT_def
        split: if_splits)
  have n: "0 < ?n" "?n \<le> 40"
    using f(3,4) by (auto simp: word_le_nat_alt unat_gt_0)
  have eq: "f = 0 # of_nat ?n # ?c" using two_headed [OF f(1)] f(2) by simp
  have "?n = 1 \<and> r = None \<and> (\<exists>e. x = Some e \<and> decode_record reads ?c = Ok e)
     \<or> 1 < ?n \<and> r = Some (partial_at ?n 1 ?c t) \<and> x = None"
    using assms accept_fragment_first [OF n l, of reads t] eq n(1) by (auto split: if_splits)
  with n eq l show ?thesis by (rule that)
qed

lemma accept_all_sound_next:
  assumes "accept_all reads (Some (partial_at n i buf t)) fs = (r, replicate k (Ok None) @ [Ok (Some e)])"
    and "i < n" "n \<le> 40"
  shows "\<exists>cs. map fst fs = fragments_from i n cs \<and> i + length cs = n
         \<and> decode_record reads (buf @ concat cs) = Ok e
         \<and> length (buf @ concat cs) \<le> MAX_COMPRESSED_RECORD_LEN \<and> gaps_ok t (map snd fs) \<and> r = None"
  using assms
proof (induction fs arbitrary: i buf t k)
  case (Cons a fs)
  obtain f t' where a: "a = (f, t')" by force
  obtain r1 res where s: "accept_fragment reads (Some (partial_at n i buf t)) f t' = (r1, res)" by force
  obtain out where rest: "accept_all reads r1 fs = (r, out)"
    and out: "res # out = replicate k (Ok None) @ [Ok (Some e)]"
    using Cons.prems(1) by (auto simp: a s split: prod.splits)
  then obtain x where x: "res = Ok x" by (cases k) auto
  obtain c where c: "f = of_nat i # of_nat n # c" "length (buf @ c) \<le> MAX_COMPRESSED_RECORD_LEN"
    "t' - t \<le> INTER_FRAGMENT_TIMEOUT" and d: "Suc i = n \<and> r1 = None \<and>
       (\<exists>e. x = Some e \<and> decode_record reads (buf @ c) = Ok e)
     \<or> Suc i < n \<and> r1 = Some (partial_at n (Suc i) (buf @ c) t') \<and> x = None"
    using accept_fragment_next_Ok [OF s [unfolded x] Cons.prems(2,3)] by metis
  show ?case
  proof (cases k)
    case 0
    then have "out = []" "x = Some e" using out x by auto
    then have "fs = []" "r = r1" using rest by (cases fs; auto split: prod.splits)+
    with d c \<open>x = Some e\<close> show ?thesis
      by (intro exI [of _ "[c]"]) (auto simp: a)
  next
    case (Suc k')
    then have "x = None" "out = replicate k' (Ok None) @ [Ok (Some e)]" using out x by auto
    with d rest have "Suc i < n"
      "accept_all reads (Some (partial_at n (Suc i) (buf @ c) t')) fs =
         (r, replicate k' (Ok None) @ [Ok (Some e)])" by auto
    from Cons.IH [OF this(2,1) Cons.prems(3)] obtain cs where
      "map fst fs = fragments_from (Suc i) n cs" "Suc i + length cs = n"
      "decode_record reads ((buf @ c) @ concat cs) = Ok e"
      "length ((buf @ c) @ concat cs) \<le> MAX_COMPRESSED_RECORD_LEN" "gaps_ok t' (map snd fs)" "r = None"
      by blast
    then show ?thesis using c by (intro exI [of _ "c # cs"]) (auto simp: a)
  qed
qed simp

lemma accept_all_sound:
  assumes "accept_all reads None fs = (r, replicate k (Ok None) @ [Ok (Some e)])"
  shows "\<exists>cs. map fst fs = fragments_from 0 (length cs) cs \<and> 0 < length cs \<and> length cs \<le> 40
         \<and> decode_record reads (concat cs) = Ok e
         \<and> length (concat cs) \<le> MAX_COMPRESSED_RECORD_LEN
         \<and> gaps_ok (snd (hd fs)) (map snd fs) \<and> r = None"
proof (cases fs)
  case (Cons a fs')
  obtain f t where a: "a = (f, t)" by force
  obtain r1 res where s: "accept_fragment reads None f t = (r1, res)" by force
  obtain out where rest: "accept_all reads r1 fs' = (r, out)"
    and out: "res # out = replicate k (Ok None) @ [Ok (Some e)]"
    using assms by (auto simp: a s Cons split: prod.splits)
  then obtain x where x: "res = Ok x" by (cases k) auto
  obtain n c where c: "0 < n" "n \<le> 40" "f = 0 # of_nat n # c" "length c \<le> MAX_COMPRESSED_RECORD_LEN"
    and d: "n = 1 \<and> r1 = None \<and> (\<exists>e. x = Some e \<and> decode_record reads c = Ok e)
     \<or> 1 < n \<and> r1 = Some (partial_at n 1 c t) \<and> x = None"
    using accept_fragment_first_Ok [OF s [unfolded x]] by metis
  show ?thesis
  proof (cases k)
    case 0
    then have "out = []" "x = Some e" using out x by auto
    then have "fs' = []" "r = r1" using rest by (cases fs'; auto split: prod.splits)+
    with d c \<open>x = Some e\<close> show ?thesis
      by (intro exI [of _ "[c]"]) (auto simp: a Cons)
  next
    case (Suc k')
    then have "x = None" "out = replicate k' (Ok None) @ [Ok (Some e)]" using out x by auto
    with d rest have n1: "1 < n" and
      "accept_all reads (Some (partial_at n 1 c t)) fs' = (r, replicate k' (Ok None) @ [Ok (Some e)])"
      by auto
    from accept_all_sound_next [OF this(2,1) c(2)] obtain cs where
      "map fst fs' = fragments_from 1 n cs" "1 + length cs = n"
      "decode_record reads (c @ concat cs) = Ok e"
      "length (c @ concat cs) \<le> MAX_COMPRESSED_RECORD_LEN" "gaps_ok t (map snd fs')" "r = None"
      by blast
    then show ?thesis using c by (intro exI [of _ "c # cs"]) (auto simp: a Cons)
  qed
qed (use assms in auto)

section \<open>Invariant of the reassembler\<close>

definition reassembler_ok :: "reassembler \<Rightarrow> bool" where
  "reassembler_ok r \<longleftrightarrow>
     (case r of
        None \<Rightarrow> True
      | Some p \<Rightarrow> 0 < pr_next_index p \<and> pr_next_index p < pr_frag_count p
                \<and> pr_frag_count p \<le> MAX_FRAG_COUNT
                \<and> length (pr_buffer p) \<le> MAX_COMPRESSED_RECORD_LEN)"

lemma word8_suc_less:
  assumes "unat (i :: 8 word) < unat n" "i \<noteq> n - 1" "unat n \<le> 40"
  shows "0 < unat (i + 1)" "unat (i + 1) < unat n"
proof -
  have "unat (i + 1) = unat i + 1" using assms by (simp add: unat_word_ariths)
  moreover have "unat (n - 1) = unat n - 1" using assms by (simp add: unat_sub_if')
  ultimately show "0 < unat (i + 1)" "unat (i + 1) < unat n"
    using assms by (auto simp: word_unat_eq_iff)
qed

lemma word8_gt_1: "(n :: 8 word) \<noteq> 0 \<Longrightarrow> n \<noteq> 1 \<Longrightarrow> Suc 0 < unat n"
  using word_unat_eq_iff [of n 1] unat_gt_0 [of n] by (simp add: Suc_lessI)

lemma accept_fragment_ok:
  "reassembler_ok r \<Longrightarrow> reassembler_ok (fst (accept_fragment reads r f now))"
  by (auto simp: reassembler_ok_def accept_fragment_def accept_first_def accept_next_def Let_def
      MAX_FRAG_COUNT_def word_less_nat_alt word_le_nat_alt word8_suc_less word8_gt_1
      split: option.splits if_splits)

lemma accept_all_ok: "reassembler_ok r \<Longrightarrow> reassembler_ok (fst (accept_all reads r fs))"
proof (induction fs arbitrary: r)
  case (Cons a fs)
  obtain f t where a: "a = (f, t)" by force
  have "reassembler_ok (fst (accept_fragment reads r f t))"
    by (rule accept_fragment_ok [OF Cons.prems])
  from Cons.IH [OF this] show ?case
    by (simp add: a case_prod_beta)
qed simp

lemma accept_first_done:
  "accept_first reads i n c now = (r, res) \<Longrightarrow> res \<noteq> Ok None \<Longrightarrow>
     r = None \<and> (\<forall>d. res = Ok (Some d) \<longrightarrow> length d \<le> MAX_UNCOMPRESSED_LEN)"
  unfolding accept_first_def by (cases "decode_record reads c") (auto simp: decode_record_bound split: if_splits)

lemma accept_next_done:
  "accept_next reads p i n c now = (r, res) \<Longrightarrow> res \<noteq> Ok None \<Longrightarrow>
     r = None \<and> (\<forall>d. res = Ok (Some d) \<longrightarrow> length d \<le> MAX_UNCOMPRESSED_LEN)"
  unfolding accept_next_def Let_def
  by (cases "decode_record reads (pr_buffer p @ c)") (auto simp: decode_record_bound split: if_splits)

lemma accept_fragment_done:
  assumes "accept_fragment reads r f now = (r', res)" "res \<noteq> Ok None"
  shows "r' = None \<and> (\<forall>d. res = Ok (Some d) \<longrightarrow> length d \<le> MAX_UNCOMPRESSED_LEN)"
proof (cases r)
  case None
  then show ?thesis using assms accept_first_done [OF _ assms(2)]
    by (cases "length f < FRAGMENT_HEADER_LEN") (auto simp: accept_fragment_def)
next
  case (Some p)
  then show ?thesis using assms accept_next_done [OF _ assms(2)]
    by (cases "INTER_FRAGMENT_TIMEOUT < now - pr_last_at p"; cases "length f < FRAGMENT_HEADER_LEN")
       (auto simp: accept_fragment_def)
qed

section \<open>Properties\<close>

text \<open>After any sequence of fragments, at any instants, the reassembler holds at most one record
  in progress, whose next index lies strictly between zero and its fragment count, whose count is
  at most 40, and whose buffer is within the record cap; the next index never wraps around.\<close>

theorem reassembler_invariant:
  "reassembler_ok (fst (accept_all reads reassembler_new fs))"
  by (rule accept_all_ok) (simp add: reassembler_ok_def reassembler_new_def)

text \<open>A fragment that is refused, and a fragment that completes a record, both leave the
  reassembler empty; a completed envelope is at most 1 MiB long.\<close>

theorem accept_fragment_resets:
  assumes "accept_fragment reads r f now = (r', res)" "res \<noteq> Ok None"
  shows "r' = None \<and> (\<forall>d. res = Ok (Some d) \<longrightarrow> length d \<le> MAX_UNCOMPRESSED_LEN)"
  using accept_fragment_done [OF assms] .

theorem accept_fragment_resets_witness:
  "fst (accept_fragment (\<lambda>_. []) (Some (partial_at 3 1 [7] 0)) [2, 3, 9] 0) = None"
proof -
  have "accept_fragment (\<lambda>_. []) (Some (partial_at 3 1 [7] 0)) [2, 3, 9] 0 =
      (None, Err (ProtocolFault IndexOutOfOrder))"
    by (simp add: accept_fragment_def accept_next_def FRAGMENT_HEADER_LEN_def)
  from accept_fragment_resets [OF this] show ?thesis
    using \<open>accept_fragment _ _ _ _ = _\<close> by simp
qed

text \<open>The Noise channel between two peers: what one end encrypts the other end decrypts, in order.\<close>

definition noise_channel ::
  "('s \<Rightarrow> bytes \<Rightarrow> 's \<times> bytes option) \<Rightarrow> ('r \<Rightarrow> bytes \<Rightarrow> 'r \<times> bytes option) \<Rightarrow> ('s \<Rightarrow> 'r \<Rightarrow> bool) \<Rightarrow> bool" where
  "noise_channel encrypt decrypt paired \<longleftrightarrow>
     (\<forall>s r p. paired s r \<longrightarrow> length p \<le> NOISE_PLAINTEXT_CEILING \<longrightarrow>
        (\<exists>s' r' c. encrypt s p = (s', Some c) \<and> decrypt r c = (r', Some p) \<and> paired s' r'))"

lemma noise_channel_all:
  assumes "noise_channel encrypt decrypt paired" "paired s t"
    and "\<forall>f\<in>set fs. length f \<le> NOISE_PLAINTEXT_CEILING"
  shows "\<exists>s' cs. encrypt_all encrypt s fs = (s', Ok cs) \<and> length cs = length fs
         \<and> (\<forall>reads r ts. length ts = length fs \<longrightarrow>
              (\<exists>t'. paired s' t' \<and> decode_all reads decrypt r t (zip cs ts) =
                    (case accept_all reads r (zip fs ts) of (r', out) \<Rightarrow> (r', t', out))))"
  using assms(2,3)
proof (induction fs arbitrary: s t)
  case (Cons f fs)
  then obtain s1 t1 c where e: "encrypt s f = (s1, Some c)" and d: "decrypt t c = (t1, Some f)"
    and "paired s1 t1"
    using assms(1) unfolding noise_channel_def by (meson list.set_intros(1))
  with Cons.IH [of s1 t1] Cons.prems(2) obtain s' cs where
    i: "encrypt_all encrypt s1 fs = (s', Ok cs)" "length cs = length fs"
      "\<And>reads r ts. length ts = length fs \<Longrightarrow>
         \<exists>t'. paired s' t' \<and> decode_all reads decrypt r t1 (zip cs ts) =
           (case accept_all reads r (zip fs ts) of (r', out) \<Rightarrow> (r', t', out))" by auto
  have "\<exists>t'. paired s' t' \<and> decode_all reads decrypt r t (zip (c # cs) ts) =
           (case accept_all reads r (zip (f # fs) ts) of (r', out) \<Rightarrow> (r', t', out))"
    if len: "length ts = length (f # fs)" for reads r ts
  proof -
    obtain now ts' where ts: "ts = now # ts'" using len by (cases ts) auto
    from i(3) [of ts' reads "fst (accept_fragment reads r f now)"] len ts show ?thesis
      by (auto simp: d decode_fragment_def case_prod_beta)
  qed
  with e i(1,2) show ?case by auto
qed simp

lemma fragments_fit:
  "\<forall>c\<in>set cs. length c \<le> MAX_CHUNK_LEN \<Longrightarrow>
     \<forall>f\<in>set (fragments_from i n cs). length f \<le> NOISE_PLAINTEXT_CEILING"
  by (induction cs arbitrary: i) (auto simp: NOISE_PLAINTEXT_CEILING_def MAX_MESSAGE_LEN_def)

lemma record_fragment_count:
  assumes "0 < length rec" "length rec \<le> MAX_UNCOMPRESSED_LEN + RECORD_HEADER_LEN"
  shows "chunks_of MAX_CHUNK_LEN rec \<noteq> []" "length (chunks_of MAX_CHUNK_LEN rec) \<le> 17"
  using length_chunks_of [of MAX_CHUNK_LEN rec] assms chunks_of_Nil_iff [of MAX_CHUNK_LEN rec]
  by (auto simp: MAX_UNCOMPRESSED_LEN_def RECORD_HEADER_LEN_def)

lemma encode_frame_ok:
  assumes "zlib_ok deflate reads" "noise_channel encrypt decrypt paired" "paired s t"
    and "length envelope \<le> MAX_UNCOMPRESSED_LEN"
  shows "\<exists>s' cs. encode_frame deflate encrypt s envelope = (s', Ok cs) \<and> 0 < length cs \<and> length cs \<le> 17
    \<and> (\<forall>ts. length ts = length cs \<longrightarrow> gaps_ok (hd ts) ts \<longrightarrow>
         (\<exists>t'. paired s' t' \<and> decode_all reads decrypt reassembler_new t (zip cs ts) =
            (None, t', replicate (length cs - 1) (Ok None) @ [Ok (Some envelope)])))"
proof -
  obtain rec where rec: "build_record deflate envelope = Ok rec"
    using assms(4)
    by (cases "length (deflate envelope) < length envelope") (auto simp: build_record_def Let_def)
  let ?cs = "chunks_of MAX_CHUNK_LEN rec"
  note bound = build_record_length [OF rec]
  have n: "?cs \<noteq> []" "length ?cs \<le> 17" using record_fragment_count bound by auto
  obtain s' ms where m: "encrypt_all encrypt s (fragments_from 0 (length ?cs) ?cs) = (s', Ok ms)"
    "length ms = length ?cs"
    "\<And>ts. length ts = length ?cs \<Longrightarrow> \<exists>t'. paired s' t' \<and> decode_all reads decrypt None t (zip ms ts) =
         (case accept_all reads None (zip (fragments_from 0 (length ?cs) ?cs) ts) of (r', out) \<Rightarrow> (r', t', out))"
    using noise_channel_all [OF assms(2,3) fragments_fit [of ?cs 0 "length ?cs"]] chunks_of_bounds
    by auto blast
  have acc: "accept_all reads None (zip (fragments_from 0 (length ?cs) ?cs) ts) =
      (None, replicate (length ?cs - 1) (Ok None) @ [Ok (Some envelope)])"
    if "length ts = length ?cs" "gaps_ok (hd ts) ts" for ts
    using accept_all_complete [of ?cs ts reads] n that bound decode_build_record [OF assms(1) rec]
    by (simp add: MAX_UNCOMPRESSED_LEN_def RECORD_HEADER_LEN_def MAX_COMPRESSED_RECORD_LEN_def)
  have "\<exists>t'. paired s' t' \<and> decode_all reads decrypt reassembler_new t (zip ms ts) =
      (None, t', replicate (length ms - 1) (Ok None) @ [Ok (Some envelope)])"
    if "length ts = length ms" "gaps_ok (hd ts) ts" for ts
    using m(3) [of ts] acc [of ts] that m(2) by (simp add: reassembler_new_def)
  with m(1,2) n rec show ?thesis
    by (intro exI [of _ s'] exI [of _ ms])
       (auto simp: encode_frame_def split_into_fragments_from)
qed

lemma encode_frame_delivers:
  assumes "zlib_ok deflate reads" "noise_channel encrypt decrypt paired" "paired s t"
    and "length envelope \<le> MAX_UNCOMPRESSED_LEN" "encode_frame deflate encrypt s envelope = (s', Ok cs)"
    and "length ts = length cs" "gaps_ok (hd ts) ts"
  shows "\<exists>t'. paired s' t' \<and> decode_all reads decrypt reassembler_new t (zip cs ts) =
            (None, t', replicate (length cs - 1) (Ok None) @ [Ok (Some envelope)])"
  using encode_frame_ok [OF assms(1-4)] assms(5-7) by auto

text \<open>C22: an envelope of at most 1 MiB that one end of a Noise session encodes arrives whole at the
  other end: it is sent as at most 17 messages; every message but the last leaves the receiver
  waiting, the last returns exactly the envelope, and the reassembler is empty again. This holds
  for every spacing of the messages in which no gap exceeds ten seconds.\<close>

theorem encode_decode_roundtrip:
  assumes "zlib_ok deflate reads" "noise_channel encrypt decrypt paired" "paired s t"
    and "length envelope \<le> MAX_UNCOMPRESSED_LEN"
  shows "\<exists>s' cs. encode_frame deflate encrypt s envelope = (s', Ok cs) \<and> 0 < length cs \<and> length cs \<le> 17
    \<and> (\<forall>ts. length ts = length cs \<longrightarrow> gaps_ok (hd ts) ts \<longrightarrow>
         (\<exists>t'. paired s' t' \<and> decode_all reads decrypt reassembler_new t (zip cs ts) =
            (None, t', replicate (length cs - 1) (Ok None) @ [Ok (Some envelope)])))"
  by (rule encode_frame_ok [OF assms])

text \<open>A concrete instance: a compressor that shortens one particular input, and a channel that
  copies the plaintext and counts messages.\<close>

definition toy_deflate :: "bytes \<Rightarrow> bytes" where
  "toy_deflate d = (if d = replicate 9 0 then [1] else 0 # d)"

definition toy_reads :: "bytes \<Rightarrow> zread list" where
  "toy_reads b =
     (if b = [1] then [ZChunk (replicate 4 0), ZChunk (replicate 5 0)]
      else map (\<lambda>x. ZChunk [x]) (tl b))"

definition toy_cipher :: "nat \<Rightarrow> bytes \<Rightarrow> nat \<times> bytes option" where
  "toy_cipher n p = (n + 1, if length p \<le> NOISE_PLAINTEXT_CEILING then Some p else None)"

lemma toy_zlib_ok: "zlib_ok toy_deflate toy_reads"
  unfolding zlib_ok_def
proof
  fix d :: bytes
  show "\<exists>cs. toy_reads (toy_deflate d) = map ZChunk cs \<and> [] \<notin> set cs \<and> concat cs = d"
  proof (cases "d = replicate 9 0")
    case True
    then show ?thesis
      by (intro exI [of _ "[replicate 4 0, replicate 5 0]"])
         (simp add: toy_reads_def toy_deflate_def eval_nat_numeral)
  next
    case False
    then show ?thesis
      by (intro exI [of _ "map (\<lambda>x. [x]) d"]) (auto simp: toy_reads_def toy_deflate_def)
  qed
qed

lemma toy_noise_ok: "noise_channel toy_cipher toy_cipher (=)"
  by (simp add: noise_channel_def toy_cipher_def)

theorem encode_decode_roundtrip_witness:
  "\<exists>s' cs. encode_frame toy_deflate toy_cipher 0 (replicate 9 0) = (s', Ok cs) \<and> 0 < length cs \<and> length cs \<le> 17"
  using encode_decode_roundtrip [OF toy_zlib_ok toy_noise_ok refl, of "replicate 9 0" 0]
  by (auto simp: MAX_UNCOMPRESSED_LEN_def)

text \<open>C12: only an unbroken record is ever delivered: if a receiver with no record in progress answers
  a run of messages with \<open>Ok None\<close> and then delivers an envelope, then the messages are exactly
  the fragments 0, 1, 2, ... of one record, each carrying the true count, at most 40 of them, with
  gaps of at most ten seconds and at most 1,049,641 bytes in total, and the envelope is what that
  record decodes to.\<close>

theorem delivered_only_in_order:
  assumes "accept_all reads reassembler_new fs = (r, replicate k (Ok None) @ [Ok (Some envelope)])"
  shows "\<exists>cs. map fst fs = fragments_from 0 (length cs) cs \<and> 0 < length cs \<and> length cs \<le> 40
         \<and> decode_record reads (concat cs) = Ok envelope
         \<and> length (concat cs) \<le> MAX_COMPRESSED_RECORD_LEN
         \<and> gaps_ok (snd (hd fs)) (map snd fs) \<and> r = None"
  using accept_all_sound [of reads fs r k envelope] assms by (simp add: reassembler_new_def)

theorem delivered_only_in_order_witness:
  "accept_all toy_reads reassembler_new [([0, 2, 0, 0, 0], 0), ([1, 2, 0, 1, 77], 5)] =
     (None, [Ok None, Ok (Some [77])])
   \<and> gaps_ok 0 [0, 5]"
proof -
  let ?fs = "[([0, 2, 0, 0, 0], 0), ([1, 2, 0, 1, 77], 5)] :: (bytes \<times> instant) list"
  have run: "accept_all toy_reads reassembler_new ?fs =
      (None, replicate 1 (Ok None) @ [Ok (Some [77])])"
    by (simp add: reassembler_new_def accept_fragment_def accept_first_def accept_next_def
        FRAGMENT_HEADER_LEN_def MAX_FRAG_COUNT_def MAX_COMPRESSED_RECORD_LEN_def
        INTER_FRAGMENT_TIMEOUT_def secs_def decode_record_def RECORD_HEADER_LEN_def
        from_be_bytes_def MAX_UNCOMPRESSED_LEN_def)
  from delivered_only_in_order [OF this] have "gaps_ok 0 [0, 5]" by auto
  with run show ?thesis by simp
qed

end
