(* ===== verification/Rate_Limits.thy ===== *)
theory Rate_Limits
  imports Prelude
begin

text \<open>
  \<open>herdr-relay-hub/src/routes/limits.rs\<close>: the sliding per-address limiter and the
  per-connection frame counter. \<open>Instant::now()\<close> is an argument of every operation.
  The locale \<open>sliding_window\<close> is the contract of any limiter that keeps a log of the
  instants it allowed; its theorem bounds what is allowed in every window of time.
\<close>

section \<open>The contract of a sliding-window limiter\<close>

definition prune :: "duration \<Rightarrow> instant \<Rightarrow> instant list \<Rightarrow> instant list" where
  "prune w now log = dropWhile (\<lambda>t. w \<le> now - t) log"

definition in_window :: "instant \<Rightarrow> duration \<Rightarrow> instant list \<Rightarrow> nat" where
  "in_window x w ts = length (filter (\<lambda>t. x \<le> t \<and> t < x + w) ts)"

lemma in_window_append [simp]: "in_window x w (a @ b) = in_window x w a + in_window x w b"
  by (simp add: in_window_def)

lemma in_window_Nil [simp]: "in_window x w [] = 0"
  by (simp add: in_window_def)

lemma in_window_single: "in_window x w [t] = (if x \<le> t \<and> t < x + w then 1 else 0)"
  by (simp add: in_window_def)

lemma in_window_le_length: "in_window x w ts \<le> length ts"
  by (simp add: in_window_def)

lemma in_window_none: "(\<And>t. t \<in> set ts \<Longrightarrow> t < x \<or> x + w \<le> t) \<Longrightarrow> in_window x w ts = 0"
  by (force simp: in_window_def filter_empty_conv)

lemma in_window_split: "in_window x w ts = in_window x w (takeWhile P ts) + in_window x w (dropWhile P ts)"
  by (metis in_window_append takeWhile_dropWhile_id)

locale sliding_window =
  fixes step :: "'s \<Rightarrow> 'e \<Rightarrow> 's \<times> bool"
    and log :: "'s \<Rightarrow> instant list"
    and mine :: "'e \<Rightarrow> bool"
    and at :: "'e \<Rightarrow> instant"
    and window :: duration
    and cap :: nat
  assumes window_pos: "0 < window"
    and step_mine: "mine e \<Longrightarrow> step s e = (s', b) \<Longrightarrow>
          (b \<longrightarrow> length (prune window (at e) (log s)) < cap)
          \<and> (log s' = prune window (at e) (log s) @ (if b then [at e] else []) \<or> \<not> b \<and> log s' = log s)"
    and step_other: "\<not> mine e \<Longrightarrow> step s e = (s', b) \<Longrightarrow> log s' = log s"
begin

fun run :: "'s \<Rightarrow> 'e list \<Rightarrow> 's \<times> instant list" where
  "run s [] = (s, [])"
| "run s (e # es) =
     (case step s e of (s1, b) \<Rightarrow>
        case run s1 es of (s2, ts) \<Rightarrow> (s2, (if mine e \<and> b then [at e] else []) @ ts))"

fun in_order :: "instant \<Rightarrow> 'e list \<Rightarrow> bool" where
  "in_order now [] = True"
| "in_order now (e # es) = (now \<le> at e \<and> in_order (at e) es)"

definition covers :: "instant list \<Rightarrow> 's \<Rightarrow> instant \<Rightarrow> bool" where
  "covers hist s now \<longleftrightarrow>
     (\<exists>old. hist = old @ log s \<and> (\<forall>u\<in>set old. u + window \<le> now))
     \<and> length (log s) \<le> cap \<and> (\<forall>x. in_window x window hist \<le> cap)"

lemma prune_split: "\<exists>old. ts = old @ prune window now ts \<and> (\<forall>u\<in>set old. u + window \<le> now)"
proof -
  have "u + window \<le> now" if "u \<in> set (takeWhile (\<lambda>t. window \<le> now - t) ts)" for u
    using set_takeWhileD [OF that] window_pos by linarith
  then show ?thesis
    by (intro exI [of _ "takeWhile (\<lambda>t. window \<le> now - t) ts"]) (auto simp: prune_def)
qed

lemma covers_step:
  assumes "covers hist s now" "now \<le> at e" "step s e = (s', b)"
  shows "covers (hist @ (if mine e \<and> b then [at e] else [])) s' (at e)"
proof (cases "mine e \<and> (b \<or> log s' \<noteq> log s)")
  case False
  then have "log s' = log s" "\<not> (mine e \<and> b)"
    using step_other [of e s s' b] assms(3) by auto
  moreover have "covers hist s' (at e)"
    using \<open>log s' = log s\<close> assms(1,2) by (fastforce simp: covers_def)
  ultimately show ?thesis by auto
next
  case True
  let ?kept = "prune window (at e) (log s)"
  have st: "mine e" "b \<longrightarrow> length ?kept < cap" "log s' = ?kept @ (if b then [at e] else [])"
    using step_mine [of e s s' b] assms(3) True by auto
  obtain old where old: "hist = old @ log s" "\<forall>u\<in>set old. u + window \<le> now"
    and bound: "\<forall>x. in_window x window hist \<le> cap"
    using assms(1) by (auto simp: covers_def)
  obtain dropped where d: "log s = dropped @ ?kept" "\<forall>u\<in>set dropped. u + window \<le> at e"
    using prune_split by blast
  let ?old = "old @ dropped"
  have o: "\<forall>u\<in>set ?old. u + window \<le> at e" using old(2) d(2) assms(2) by force
  have h: "hist = ?old @ ?kept" using old(1) d(1) by simp
  have l: "length ?kept \<le> cap" using assms(1) d(1) by (metis covers_def le_add2 le_trans length_append)
  have w: "in_window x window (hist @ (if b then [at e] else [])) \<le> cap" for x
  proof (cases "b \<and> x \<le> at e \<and> at e < x + window")
    case True
    then have "in_window x window ?old = 0" using o by (intro in_window_none) force
    moreover have "in_window x window ?kept \<le> length ?kept" by (rule in_window_le_length)
    ultimately show ?thesis using True st
      by (simp add: h in_window_single del: in_window_append) (simp add: in_window_single)
  next
    case False
    then show ?thesis using bound by (auto simp: in_window_single)
  qed
  show ?thesis
    unfolding covers_def
    using True st l h o w by (intro conjI exI [of _ ?old]) auto
qed

lemma covers_run:
  "covers hist s now \<Longrightarrow> in_order now es \<Longrightarrow> run s es = (s', ts) \<Longrightarrow>
     \<exists>now'. covers (hist @ ts) s' now'"
proof (induction es arbitrary: hist s now ts)
  case (Cons e es)
  obtain s1 b where s: "step s e = (s1, b)" by force
  obtain ts' where r: "run s1 es = (s', ts')" "ts = (if mine e \<and> b then [at e] else []) @ ts'"
    using Cons.prems(3) by (auto simp: s split: prod.splits)
  have "covers (hist @ (if mine e \<and> b then [at e] else [])) s1 (at e)"
    using covers_step [OF Cons.prems(1) _ s] Cons.prems(2) by simp
  from Cons.IH [OF this _ r(1)] Cons.prems(2) r(2) show ?case by simp
qed auto

text \<open>In every window of time, at most \<open>cap\<close> events are allowed.\<close>

lemma window_bound:
  assumes "log s = []" "in_order now es" "run s es = (s', ts)"
  shows "in_window x window ts \<le> cap" "length (log s') \<le> cap"
proof -
  have "covers [] s now" using assms(1) by (simp add: covers_def)
  from covers_run [OF this assms(2,3)] show "in_window x window ts \<le> cap" "length (log s') \<le> cap"
    by (auto simp: covers_def)
qed

end

section \<open>The per-address limiter\<close>

datatype ip_addr = V4 "32 word" | V6 "128 word"

definition WINDOW :: duration where "WINDOW = secs 1"

record ip_rate_limiter =
  ip_max :: nat
  ip_seen :: "(ip_addr, instant list) hmap"

definition ip_limiter_new :: "nat \<Rightarrow> ip_rate_limiter" where
  "ip_limiter_new max_per_window = \<lparr>ip_max = max_per_window, ip_seen = []\<rparr>"

definition ip_events :: "ip_rate_limiter \<Rightarrow> ip_addr \<Rightarrow> instant list" where
  "ip_events l ip = (case map_of (ip_seen l) ip of Some q \<Rightarrow> q | None \<Rightarrow> [])"

definition ip_allow :: "ip_rate_limiter \<Rightarrow> ip_addr \<Rightarrow> instant \<Rightarrow> ip_rate_limiter \<times> bool" where
  "ip_allow l ip now =
     (let events = dropWhile (\<lambda>t. WINDOW \<le> now - t) (ip_events l ip) in
      if ip_max l \<le> length events then (l\<lparr>ip_seen := AList.update ip events (ip_seen l)\<rparr>, False)
      else (l\<lparr>ip_seen := AList.update ip (events @ [now]) (ip_seen l)\<rparr>, True))"

definition ip_step :: "ip_rate_limiter \<Rightarrow> ip_addr \<times> instant \<Rightarrow> ip_rate_limiter \<times> bool" where
  "ip_step l e = ip_allow l (fst e) (snd e)"

lemma ip_allow_max [simp]: "ip_max (fst (ip_allow l ip now)) = ip_max l"
  by (simp add: ip_allow_def Let_def)

lemma ip_allow_other [simp]: "ip' \<noteq> ip \<Longrightarrow> ip_events (fst (ip_allow l ip now)) ip' = ip_events l ip'"
  by (simp add: ip_allow_def Let_def ip_events_def)

text \<open>The capacity is a field of the state, so the contract is interpreted on the limiters of one
  capacity, for the events of one address.\<close>

definition ip_step_cap :: "nat \<Rightarrow> ip_rate_limiter \<Rightarrow> ip_addr \<times> instant \<Rightarrow> ip_rate_limiter \<times> bool" where
  "ip_step_cap m l e = ip_step (l\<lparr>ip_max := m\<rparr>) e"

lemma ip_events_max [simp]: "ip_events (l\<lparr>ip_max := m\<rparr>) ip = ip_events l ip"
  by (simp add: ip_events_def)

interpretation ip_window: sliding_window "ip_step_cap m" "\<lambda>l. ip_events l ip" "\<lambda>e. fst e = ip" snd WINDOW m
  for m ip
proof
  show "0 < WINDOW" by (simp add: WINDOW_def)
  show "(b \<longrightarrow> length (prune WINDOW (snd e) (ip_events s ip)) < m)
      \<and> (ip_events s' ip = prune WINDOW (snd e) (ip_events s ip) @ (if b then [snd e] else []) \<or> \<not> b \<and> ip_events s' ip = ip_events s ip)"
    if "fst e = ip" "ip_step_cap m s e = (s', b)" for e s s' b
    using that by (auto simp: ip_step_cap_def ip_step_def ip_allow_def Let_def prune_def
        ip_events_def split: if_splits)
  show "ip_events s' ip = ip_events s ip" if "fst e \<noteq> ip" "ip_step_cap m s e = (s', b)" for e s s' b
    using that ip_allow_other [of ip "fst e" "s\<lparr>ip_max := m\<rparr>" "snd e"]
    by (simp add: ip_step_cap_def ip_step_def)
qed

text \<open>The calls of one limiter, and the instants at which it allowed a given address.\<close>

fun ip_run :: "ip_rate_limiter \<Rightarrow> (ip_addr \<times> instant) list \<Rightarrow> ip_rate_limiter \<times> bool list" where
  "ip_run l [] = (l, [])"
| "ip_run l ((ip, now) # es) =
     (case ip_allow l ip now of (l1, b) \<Rightarrow> case ip_run l1 es of (l2, bs) \<Rightarrow> (l2, b # bs))"

fun allowed_for :: "ip_addr \<Rightarrow> (ip_addr \<times> instant) list \<Rightarrow> bool list \<Rightarrow> instant list" where
  "allowed_for ip ((ip', now) # es) (b # bs) =
     (if ip' = ip \<and> b then [now] else []) @ allowed_for ip es bs"
| "allowed_for ip _ _ = []"

lemma ip_run_window:
  "ip_max l = m \<Longrightarrow> ip_run l es = (l', bs) \<Longrightarrow>
     ip_window.run m ip l es = (l', allowed_for ip es bs)"
proof (induction es arbitrary: l bs)
  case (Cons e es)
  obtain ip' now where e: "e = (ip', now)" by force
  obtain l1 b where s: "ip_allow l ip' now = (l1, b)" by force
  obtain bs' where r: "ip_run l1 es = (l', bs')" "bs = b # bs'"
    using Cons.prems by (auto simp: e s split: prod.splits)
  have "ip_max l1 = m" using ip_allow_max [of l ip' now] Cons.prems(1) by (simp add: s)
  moreover have "ip_step_cap m l e = (l1, b)"
    using Cons.prems(1) s by (cases l) (simp add: ip_step_cap_def ip_step_def e)
  ultimately show ?case using Cons.IH [OF _ r(1)] r(2) by (simp add: e)
qed simp

lemma ip_window_in_order:
  "sorted (map snd es) \<Longrightarrow> \<forall>e\<in>set es. now \<le> snd e \<Longrightarrow> ip_window.in_order now es"
  by (induction es arbitrary: now) auto

section \<open>The per-connection frame counter\<close>

record frame_rate_limiter =
  fr_max :: nat
  fr_window_start :: instant
  fr_count :: nat

definition frame_limiter_new :: "nat \<Rightarrow> instant \<Rightarrow> frame_rate_limiter" where
  "frame_limiter_new max_per_window now =
     \<lparr>fr_max = max_per_window, fr_window_start = now, fr_count = 0\<rparr>"

definition frame_allow :: "frame_rate_limiter \<Rightarrow> instant \<Rightarrow> frame_rate_limiter \<times> bool" where
  "frame_allow l now =
     (let l1 = (if WINDOW \<le> now - fr_window_start l then l\<lparr>fr_window_start := now, fr_count := 0\<rparr> else l);
          l2 = l1\<lparr>fr_count := fr_count l1 + 1\<rparr>
      in (l2, fr_count l2 \<le> fr_max l2))"

fun frame_run :: "frame_rate_limiter \<Rightarrow> instant list \<Rightarrow> frame_rate_limiter \<times> instant list" where
  "frame_run l [] = (l, [])"
| "frame_run l (t # ts) =
     (case frame_allow l t of (l1, b) \<Rightarrow>
        case frame_run l1 ts of (l2, as) \<Rightarrow> (l2, (if b then [t] else []) @ as))"

text \<open>What the counter knows about the frames allowed so far: at most \<open>fr_max\<close> since the window
  opened, and at most \<open>fr_max\<close> in the second before it opened.\<close>

definition frame_inv :: "instant list \<Rightarrow> frame_rate_limiter \<Rightarrow> instant \<Rightarrow> bool" where
  "frame_inv hist l now \<longleftrightarrow>
     fr_window_start l \<le> now \<and> (\<forall>u\<in>set hist. u \<le> now \<and> u < fr_window_start l + WINDOW)
     \<and> length (filter (\<lambda>u. fr_window_start l \<le> u) hist) \<le> min (fr_count l) (fr_max l)
     \<and> length (filter (\<lambda>u. fr_window_start l < u + WINDOW \<and> u < fr_window_start l) hist) \<le> fr_max l
     \<and> (\<forall>x. in_window x WINDOW hist \<le> 2 * fr_max l)"

lemma length_filter_or:
  "length (filter (\<lambda>x. P x \<or> Q x) xs) \<le> length (filter P xs) + length (filter Q xs)"
  by (induction xs) auto

lemma frame_inv_window:
  assumes "length (filter (\<lambda>u. ws \<le> u) hist) \<le> m"
    and "length (filter (\<lambda>u. ws < u + WINDOW \<and> u < ws) hist) \<le> m" "ws < x + WINDOW"
  shows "in_window x WINDOW hist \<le> 2 * m"
proof -
  have "in_window x WINDOW hist \<le>
      length (filter (\<lambda>u. ws \<le> u \<or> ws < u + WINDOW \<and> u < ws) hist)"
    unfolding in_window_def using assms(3) by (intro length_filter_mono) auto
  also have "\<dots> \<le> m + m"
    using assms(1,2) length_filter_or [of "\<lambda>u. ws \<le> u" "\<lambda>u. ws < u + WINDOW \<and> u < ws" hist]
    by linarith
  finally show ?thesis by simp
qed

lemma frame_inv_step:
  assumes "frame_inv hist l now" "now \<le> t" "frame_allow l t = (l', b)"
  shows "frame_inv (hist @ (if b then [t] else [])) l' t \<and> fr_max l' = fr_max l"
proof -
  let ?m = "fr_max l" and ?ws = "fr_window_start l" and ?h = "hist @ (if b then [t] else [])"
  have i: "?ws \<le> now" "\<forall>u\<in>set hist. u \<le> now \<and> u < ?ws + WINDOW"
    "length (filter (\<lambda>u. ?ws \<le> u) hist) \<le> min (fr_count l) ?m"
    "length (filter (\<lambda>u. ?ws < u + WINDOW \<and> u < ?ws) hist) \<le> ?m"
    "\<And>x. in_window x WINDOW hist \<le> 2 * ?m"
    using assms(1) by (auto simp: frame_inv_def)
  define ws where "ws = (if WINDOW \<le> t - ?ws then t else ?ws)"
  define n where "n = (if WINDOW \<le> t - ?ws then 0 else fr_count l)"
  have l': "l' = l\<lparr>fr_window_start := ws, fr_count := n + 1\<rparr>" and b: "b \<longleftrightarrow> n + 1 \<le> ?m"
    using assms(3) by (auto simp: frame_allow_def Let_def ws_def n_def)
  have pos: "0 < WINDOW" by (simp add: WINDOW_def)
  show ?thesis
  proof (cases "WINDOW \<le> t - ?ws")
    case False
    then have ws: "ws = ?ws" "n = fr_count l" by (auto simp: ws_def n_def)
    have c: "length (filter (\<lambda>u. ?ws \<le> u) ?h) \<le> min (n + 1) ?m" using i(3) b ws by auto
    have p: "length (filter (\<lambda>u. ?ws < u + WINDOW \<and> u < ?ws) ?h) \<le> ?m"
      using i(1,4) assms(2) by auto
    have "in_window x WINDOW ?h \<le> 2 * ?m" for x
    proof (cases "b \<and> x \<le> t \<and> t < x + WINDOW")
      case True
      then have "?ws < x + WINDOW" using i(1) assms(2) by simp
      then show ?thesis using frame_inv_window [of ?ws ?h ?m x] c p by simp
    next
      case False
      then show ?thesis using i(5) [of x] by (auto simp: in_window_single)
    qed
    moreover have "\<forall>u\<in>set ?h. u \<le> t \<and> u < ?ws + WINDOW"
      using i(1,2) assms(2) False by auto
    ultimately show ?thesis using c p i(1) assms(2) by (auto simp: frame_inv_def l' ws)
  next
    case True
    then have ws: "ws = t" "n = 0" by (auto simp: ws_def n_def)
    have old: "length (filter (\<lambda>u. t < u + WINDOW \<and> u < t) ?h) \<le> ?m"
    proof -
      have "length (filter (\<lambda>u. t < u + WINDOW \<and> u < t) ?h) \<le> length (filter (\<lambda>u. ?ws \<le> u) hist)"
        using True by (auto intro!: length_filter_mono)
      then show ?thesis using i(3) by simp
    qed
    have below: "\<forall>u\<in>set hist. u < t" using i(2) True pos by auto
    then have none: "filter (\<lambda>u. t \<le> u) hist = []" by (auto simp: filter_empty_conv)
    have new: "length (filter (\<lambda>u. t \<le> u) ?h) \<le> min 1 ?m" using b ws by (auto simp: none)
    have "in_window x WINDOW ?h \<le> 2 * ?m" for x
    proof (cases "b \<and> x \<le> t \<and> t < x + WINDOW")
      case True
      then show ?thesis using frame_inv_window [of t ?h ?m x] new old by simp
    next
      case False
      then show ?thesis using i(5) [of x] by (auto simp: in_window_single)
    qed
    moreover have "\<forall>u\<in>set ?h. u \<le> t \<and> u < t + WINDOW" using below pos by auto
    ultimately show ?thesis using new old by (auto simp: frame_inv_def l' ws)
  qed
qed

lemma frame_inv_run:
  "frame_inv hist l now \<Longrightarrow> sorted (now # ts) \<Longrightarrow> frame_run l ts = (l', as) \<Longrightarrow>
     \<exists>now'. frame_inv (hist @ as) l' now' \<and> fr_max l' = fr_max l"
proof (induction ts arbitrary: hist l now as)
  case (Cons t ts)
  obtain l1 b where s: "frame_allow l t = (l1, b)" by force
  obtain as' where r: "frame_run l1 ts = (l', as')" "as = (if b then [t] else []) @ as'"
    using Cons.prems(3) by (auto simp: s split: prod.splits)
  have "frame_inv (hist @ (if b then [t] else [])) l1 t \<and> fr_max l1 = fr_max l"
    using frame_inv_step [OF Cons.prems(1) _ s] Cons.prems(2) by simp
  with Cons.IH [OF _ _ r(1), of "hist @ (if b then [t] else [])" t] Cons.prems(2) r(2)
  show ?case by simp
qed auto

lemma frame_run_same_instant:
  assumes "fr_count l + n \<le> fr_max l" "t - fr_window_start l < WINDOW"
  shows "frame_run l (replicate n t) = (l\<lparr>fr_count := fr_count l + n\<rparr>, replicate n t)"
  using assms
proof (induction n arbitrary: l)
  case (Suc n)
  have "frame_allow l t = (l\<lparr>fr_count := fr_count l + 1\<rparr>, True)"
    using Suc.prems by (simp add: frame_allow_def Let_def)
  with Suc show ?case by simp
qed simp

lemma frame_run_append:
  "frame_run l (as @ bs) =
     (case frame_run l as of (l1, xs) \<Rightarrow> case frame_run l1 bs of (l2, ys) \<Rightarrow> (l2, xs @ ys))"
  by (induction as arbitrary: l) (auto split: prod.splits)

section \<open>Properties\<close>

text \<open>Whatever addresses call the limiter and however their calls interleave, in every window
  of one second at most \<open>m\<close> calls from one address are allowed.\<close>

theorem ip_limiter_window_bound:
  assumes "sorted (map snd es)" "ip_run (ip_limiter_new m) es = (l', bs)"
  shows "in_window x WINDOW (allowed_for ip es bs) \<le> m"
proof -
  have "ip_window.run m ip (ip_limiter_new m) es = (l', allowed_for ip es bs)"
    by (rule ip_run_window [OF _ assms(2)]) (simp add: ip_limiter_new_def)
  moreover have "ip_window.in_order 0 es" by (rule ip_window_in_order [OF assms(1)]) simp
  ultimately show ?thesis
    by (intro ip_window.window_bound(1)) (auto simp: ip_limiter_new_def ip_events_def)
qed

theorem ip_limiter_window_bound_witness:
  "in_window 0 WINDOW
     (allowed_for (V4 1) [(V4 1, 0), (V4 2, 1), (V4 1, 2), (V4 1, secs 1)] [True, True, False, True]) \<le> 1"
proof -
  have "ip_run (ip_limiter_new 1) [(V4 1, 0), (V4 2, 1), (V4 1, 2), (V4 1, secs 1)] =
     (fst (ip_run (ip_limiter_new 1) [(V4 1, 0), (V4 2, 1), (V4 1, 2), (V4 1, secs 1)]), [True, True, False, True])"
    by (simp add: ip_limiter_new_def ip_allow_def ip_events_def WINDOW_def secs_def Let_def)
  from ip_limiter_window_bound [OF _ this, of 0 "V4 1"] show ?thesis by (simp add: secs_def)
qed

text \<open>In every window of one second a connection has at most \<open>2 * m\<close> frames allowed by the frame
  counter, for a configured limit of \<open>m\<close>.\<close>

theorem frame_limiter_window_bound:
  assumes "sorted (start # ts)" "frame_run (frame_limiter_new m start) ts = (l', as)"
  shows "in_window x WINDOW as \<le> 2 * m"
proof -
  have "frame_inv [] (frame_limiter_new m start) start"
    by (simp add: frame_inv_def frame_limiter_new_def)
  from frame_inv_run [OF this assms] show ?thesis by (auto simp: frame_inv_def frame_limiter_new_def)
qed

theorem frame_limiter_window_bound_witness:
  "in_window 0 WINDOW [5, 6] \<le> 2 * 2"
proof -
  have "frame_run (frame_limiter_new 2 0) [5, 6, 7] =
      (fst (frame_run (frame_limiter_new 2 0) [5, 6, 7]), [5, 6])"
    by (simp add: frame_limiter_new_def frame_allow_def WINDOW_def secs_def Let_def)
  from frame_limiter_window_bound [OF _ this] show ?thesis by simp
qed

text \<open>The factor two is reached: with a limit of \<open>m\<close>, a burst of \<open>m\<close> frames one nanosecond before
  the counter's window ends and \<open>m\<close> more when it ends is allowed whole, \<open>2 * m\<close> frames within two
  nanoseconds.\<close>

theorem frame_limiter_double_burst:
  "let ts = replicate m (WINDOW - 1) @ replicate m WINDOW in
     snd (frame_run (frame_limiter_new m 0) ts) = ts \<and> in_window (WINDOW - 1) 2 ts = 2 * m"
proof -
  have pos: "0 < WINDOW" by (simp add: WINDOW_def)
  let ?l = "(frame_limiter_new m 0)\<lparr>fr_count := m\<rparr>"
  have 1: "frame_run (frame_limiter_new m 0) (replicate m (WINDOW - 1)) = (?l, replicate m (WINDOW - 1))"
    using pos frame_run_same_instant [of "frame_limiter_new m 0" m "WINDOW - 1"]
    by (simp add: frame_limiter_new_def)
  have 2: "snd (frame_run ?l (replicate m WINDOW)) = replicate m WINDOW"
  proof (cases m)
    case (Suc k)
    have "frame_allow ?l WINDOW = (?l\<lparr>fr_window_start := WINDOW, fr_count := 1\<rparr>, True)"
      by (simp add: frame_allow_def frame_limiter_new_def Suc)
    then show ?thesis
      using frame_run_same_instant [of "?l\<lparr>fr_window_start := WINDOW, fr_count := 1\<rparr>" k WINDOW] pos
      by (simp add: Suc frame_limiter_new_def split: prod.splits)
  qed simp
  have 3: "in_window (WINDOW - 1) 2 (replicate m (WINDOW - 1) @ replicate m WINDOW) = 2 * m"
    using pos by (simp add: in_window_def filter_replicate less_Suc_eq_le)
  show ?thesis using 1 2 3
    by (simp add: Let_def frame_run_append case_prod_beta)
qed

end
