(* ===== verification/Session_Map.thy ===== *)
theory Session_Map
  imports Codes Handle_Codec Rate_Limits
begin

text \<open>
  \<open>herdr-relay-hub/src/session.rs\<close>: the handle-routing map. A bounded channel
  (\<open>mpsc::channel(32)\<close>) is an entry of the explicit store \<open>hub_chans\<close>, addressed by a
  number; an \<open>OutboundTx\<close> is that number, \<open>same_channel\<close> is equality, and a channel is
  closed when its receiver was dropped. \<open>Instant::now()\<close> is an argument.
\<close>

definition OUTBOUND_QUEUE_DEPTH :: nat where "OUTBOUND_QUEUE_DEPTH = 32"
definition PAIRING_WINDOW :: duration where "PAIRING_WINDOW = secs 600"

type_synonym outbound_tx = nat
type_synonym close_frame = "16 word \<times> string"

datatype message =
    Binary "8 word list"
  | Text string
  | Ping
  | Pong
  | Close "close_frame option"

datatype role = Host | Device

datatype register_error =
    RE_HandleTaken
  | RE_HostInUse
  | RE_HandleUnknown
  | RE_PairingExpired
  | RE_HandleRateLimited
  | RE_TooManyHandles

record room =
  rm_host :: "outbound_tx option"
  rm_device :: "outbound_tx option"
  rm_host_registered_at :: instant
  rm_pairing :: bool

record chan =
  ch_queue :: "message list"
  ch_open :: bool

record hub =
  hub_rooms :: "(handle, room) hmap"
  hub_chans :: "(outbound_tx, chan) hmap"
  hub_next :: outbound_tx

definition hub_new :: hub where
  "hub_new = \<lparr>hub_rooms = [], hub_chans = [], hub_next = 0\<rparr>"

definition active_handles :: "hub \<Rightarrow> nat" where
  "active_handles h = length (hub_rooms h)"

section \<open>Channels\<close>

definition is_closed :: "hub \<Rightarrow> outbound_tx \<Rightarrow> bool" where
  "is_closed h tx = (case map_of (hub_chans h) tx of Some c \<Rightarrow> \<not> ch_open c | None \<Rightarrow> True)"

text \<open>\<open>mpsc::channel(OUTBOUND_QUEUE_DEPTH)\<close>.\<close>

definition new_channel :: "hub \<Rightarrow> hub \<times> outbound_tx" where
  "new_channel h =
     (h\<lparr>hub_chans := AList.update (hub_next h) \<lparr>ch_queue = [], ch_open = True\<rparr> (hub_chans h),
        hub_next := hub_next h + 1\<rparr>, hub_next h)"

text \<open>\<open>Sender::try_send\<close>: enqueues when the channel is open and not full, and never blocks.\<close>

definition try_send :: "hub \<Rightarrow> outbound_tx \<Rightarrow> message \<Rightarrow> hub" where
  "try_send h tx m =
     (case map_of (hub_chans h) tx of
        None \<Rightarrow> h
      | Some c \<Rightarrow>
          if ch_open c \<and> length (ch_queue c) < OUTBOUND_QUEUE_DEPTH
          then h\<lparr>hub_chans := AList.update tx (c\<lparr>ch_queue := ch_queue c @ [m]\<rparr>) (hub_chans h)\<rparr>
          else h)"

text \<open>Dropping the receiver closes the channel and discards what is queued.\<close>

definition drop_receiver :: "hub \<Rightarrow> outbound_tx \<Rightarrow> hub" where
  "drop_receiver h tx =
     (case map_of (hub_chans h) tx of
        None \<Rightarrow> h
      | Some c \<Rightarrow> h\<lparr>hub_chans := AList.update tx \<lparr>ch_queue = [], ch_open = False\<rparr> (hub_chans h)\<rparr>)"

text \<open>\<open>Receiver::recv\<close>: the next queued message.\<close>

definition recv :: "hub \<Rightarrow> outbound_tx \<Rightarrow> (hub \<times> message) option" where
  "recv h tx =
     (case map_of (hub_chans h) tx of
        Some c \<Rightarrow>
          (case ch_queue c of
             m # rest \<Rightarrow> Some (h\<lparr>hub_chans := AList.update tx (c\<lparr>ch_queue := rest\<rparr>) (hub_chans h)\<rparr>, m)
           | [] \<Rightarrow> None)
      | None \<Rightarrow> None)"

section \<open>Rooms\<close>

definition room_new :: "outbound_tx \<Rightarrow> bool \<Rightarrow> instant \<Rightarrow> room" where
  "room_new host_tx pairing now =
     \<lparr>rm_host = Some host_tx, rm_device = None, rm_host_registered_at = now, rm_pairing = pairing\<rparr>"

definition closed_role :: "hub \<Rightarrow> room \<Rightarrow> role option" where
  "closed_role h r =
     (if (case rm_host r of Some tx \<Rightarrow> is_closed h tx | None \<Rightarrow> False) then Some Host
      else if (case rm_device r of Some tx \<Rightarrow> is_closed h tx | None \<Rightarrow> False) then Some Device
      else None)"

definition gone_reason :: "role \<Rightarrow> string" where
  "gone_reason gone = (case gone of Host \<Rightarrow> ''the Host is gone'' | Device \<Rightarrow> ''the Device is gone'')"

definition going_away :: "role \<Rightarrow> message" where
  "going_away gone = Close (Some (close_code_code GoingAway, gone_reason gone))"

definition close_peer :: "hub \<Rightarrow> outbound_tx \<Rightarrow> role \<Rightarrow> hub" where
  "close_peer h peer_tx gone = try_send h peer_tx (going_away gone)"

definition slot_of :: "role \<Rightarrow> room \<Rightarrow> outbound_tx option" where
  "slot_of r rm = (case r of Host \<Rightarrow> rm_host rm | Device \<Rightarrow> rm_device rm)"

definition other_slot :: "role \<Rightarrow> room \<Rightarrow> outbound_tx option" where
  "other_slot r rm = (case r of Host \<Rightarrow> rm_device rm | Device \<Rightarrow> rm_host rm)"

text \<open>The first step of \<open>register\<close>: finish the teardown of a room one of whose connections is gone.\<close>

definition finish_teardown :: "hub \<Rightarrow> handle \<Rightarrow> hub" where
  "finish_teardown h rh =
     (case map_of (hub_rooms h) rh of
        None \<Rightarrow> h
      | Some room \<Rightarrow>
          case closed_role h room of
            None \<Rightarrow> h
          | Some gone \<Rightarrow>
              let h1 = h\<lparr>hub_rooms := AList.delete rh (hub_rooms h)\<rparr> in
              case other_slot gone room of
                Some peer_tx \<Rightarrow> close_peer h1 peer_tx gone
              | None \<Rightarrow> h1)"

text \<open>\<open>SessionMap::register\<close>. The channel made at the start is dropped again on an error, which
  nothing observes, so it is made where the code stores it.\<close>

definition register_host ::
  "hub \<Rightarrow> ip_rate_limiter \<Rightarrow> handle \<Rightarrow> ip_addr \<Rightarrow> nat \<Rightarrow> bool \<Rightarrow> instant \<Rightarrow>
     hub \<times> ip_rate_limiter \<times> (outbound_tx \<times> bool, register_error) result" where
  "register_host h lim rh ip max_handles pairing now =
     (if map_of (hub_rooms h) rh \<noteq> None then (h, lim, Err RE_HandleTaken)
      else case ip_allow lim ip now of (lim1, allowed) \<Rightarrow>
        if \<not> allowed then (h, lim1, Err RE_HandleRateLimited)
        else if max_handles \<le> length (hub_rooms h) then (h, lim1, Err RE_TooManyHandles)
        else case new_channel h of (h1, tx) \<Rightarrow>
          (h1\<lparr>hub_rooms := AList.update rh (room_new tx pairing now) (hub_rooms h1)\<rparr>, lim1, Ok (tx, True)))"

definition register_device ::
  "hub \<Rightarrow> handle \<Rightarrow> instant \<Rightarrow> hub \<times> (outbound_tx \<times> bool, register_error) result" where
  "register_device h rh now =
     (case map_of (hub_rooms h) rh of
        None \<Rightarrow> (h, Err RE_HandleUnknown)
      | Some room \<Rightarrow>
          if rm_pairing room \<and> PAIRING_WINDOW < now - rm_host_registered_at room
          then (h, Err RE_PairingExpired)
          else if rm_device room \<noteq> None then (h, Err RE_HostInUse)
          else case new_channel h of (h1, tx) \<Rightarrow>
            (h1\<lparr>hub_rooms := AList.update rh (room\<lparr>rm_device := Some tx\<rparr>) (hub_rooms h1)\<rparr>, Ok (tx, False)))"

definition register ::
  "hub \<Rightarrow> ip_rate_limiter \<Rightarrow> handle \<Rightarrow> role \<Rightarrow> ip_addr \<Rightarrow> nat \<Rightarrow> bool \<Rightarrow> instant \<Rightarrow>
     hub \<times> ip_rate_limiter \<times> (outbound_tx \<times> bool, register_error) result" where
  "register h lim rh role ip max_handles pairing now =
     (let h1 = finish_teardown h rh in
      case role of
        Host \<Rightarrow> register_host h1 lim rh ip max_handles pairing now
      | Device \<Rightarrow> (case register_device h1 rh now of (h2, r) \<Rightarrow> (h2, lim, r)))"

definition peer_of :: "hub \<Rightarrow> handle \<Rightarrow> role \<Rightarrow> outbound_tx option" where
  "peer_of h rh role =
     (case map_of (hub_rooms h) rh of None \<Rightarrow> None | Some room \<Rightarrow> other_slot role room)"

definition application_close :: "close_frame option \<Rightarrow> close_frame option" where
  "application_close f =
     (case f of
        Some (code, reason) \<Rightarrow> if 4000 \<le> code \<and> code \<le> 4999 then Some (code, reason) else None
      | None \<Rightarrow> None)"

definition owns_slot :: "hub \<Rightarrow> handle \<Rightarrow> role \<Rightarrow> outbound_tx \<Rightarrow> bool" where
  "owns_slot h rh role mine =
     (case map_of (hub_rooms h) rh of None \<Rightarrow> False | Some room \<Rightarrow> slot_of role room = Some mine)"

definition disconnect ::
  "hub \<Rightarrow> handle \<Rightarrow> role \<Rightarrow> outbound_tx \<Rightarrow> close_frame option \<Rightarrow> hub" where
  "disconnect h rh role mine peer_close =
     (if \<not> owns_slot h rh role mine then h
      else let peer_to_close = peer_of h rh role;
               h1 = h\<lparr>hub_rooms := AList.delete rh (hub_rooms h)\<rparr> in
        case peer_to_close of
          None \<Rightarrow> h1
        | Some peer_tx \<Rightarrow>
            case application_close peer_close of
              Some frame \<Rightarrow> try_send h1 peer_tx (Close (Some frame))
            | None \<Rightarrow> close_peer h1 peer_tx role)"

section \<open>Channel lemmas\<close>

lemma try_send_sel [simp]:
  "hub_rooms (try_send h tx m) = hub_rooms h" "hub_next (try_send h tx m) = hub_next h"
  by (simp_all add: try_send_def split: option.splits)

lemma close_peer_sel [simp]:
  "hub_rooms (close_peer h tx g) = hub_rooms h" "hub_next (close_peer h tx g) = hub_next h"
  by (simp_all add: close_peer_def)

lemma drop_receiver_sel [simp]:
  "hub_rooms (drop_receiver h tx) = hub_rooms h" "hub_next (drop_receiver h tx) = hub_next h"
  by (simp_all add: drop_receiver_def split: option.splits)

lemma new_channel_sel [simp]:
  "hub_rooms (fst (new_channel h)) = hub_rooms h" "snd (new_channel h) = hub_next h"
  "hub_next (fst (new_channel h)) = Suc (hub_next h)"
  by (simp_all add: new_channel_def)

lemma try_send_other [simp]: "tx' \<noteq> tx \<Longrightarrow> map_of (hub_chans (try_send h tx m)) tx' = map_of (hub_chans h) tx'"
  by (simp add: try_send_def split: option.splits)

lemma try_send_queue:
  "map_of (hub_chans h) tx = Some c \<Longrightarrow>
     map_of (hub_chans (try_send h tx m)) tx =
       Some (if ch_open c \<and> length (ch_queue c) < OUTBOUND_QUEUE_DEPTH
             then c\<lparr>ch_queue := ch_queue c @ [m]\<rparr> else c)"
  by (simp add: try_send_def)

lemma dom_try_send [simp]: "dom (map_of (hub_chans (try_send h tx m))) = dom (map_of (hub_chans h))"
  by (auto simp: try_send_def dom_def split: option.splits)

lemma keys_ok_try_send [simp]: "keys_ok (hub_chans h) \<Longrightarrow> keys_ok (hub_chans (try_send h tx m))"
  by (auto simp: try_send_def split: option.splits)

lemma is_closed_try_send [simp]: "is_closed (try_send h tx m) tx' = is_closed h tx'"
  by (auto simp: is_closed_def try_send_def split: option.splits)

section \<open>Invariant\<close>

definition slots_unique :: "(handle, room) hmap \<Rightarrow> bool" where
  "slots_unique rooms \<longleftrightarrow>
     (\<forall>k1 r1 a k2 r2 b tx. map_of rooms k1 = Some r1 \<longrightarrow> map_of rooms k2 = Some r2 \<longrightarrow>
        slot_of a r1 = Some tx \<longrightarrow> slot_of b r2 = Some tx \<longrightarrow> k1 = k2 \<and> a = b)"

definition slots_allocated :: "(handle, room) hmap \<Rightarrow> nat \<Rightarrow> bool" where
  "slots_allocated rooms n \<longleftrightarrow>
     (\<forall>k r a tx. map_of rooms k = Some r \<longrightarrow> slot_of a r = Some tx \<longrightarrow> tx < n)"

definition hub_ok :: "nat \<Rightarrow> hub \<Rightarrow> bool" where
  "hub_ok max_handles h \<longleftrightarrow>
     keys_ok (hub_rooms h) \<and> keys_ok (hub_chans h)
     \<and> (\<forall>k r. map_of (hub_rooms h) k = Some r \<longrightarrow> rm_host r \<noteq> None)
     \<and> slots_unique (hub_rooms h) \<and> slots_allocated (hub_rooms h) (hub_next h)
     \<and> (\<forall>tx. map_of (hub_chans h) tx \<noteq> None \<longleftrightarrow> tx < hub_next h)
     \<and> length (hub_rooms h) \<le> max_handles"

lemma hub_ok_new [simp]: "hub_ok n hub_new"
  by (simp add: hub_ok_def hub_new_def slots_unique_def slots_allocated_def)

lemma hub_ok_try_send [simp]: "hub_ok n h \<Longrightarrow> hub_ok n (try_send h tx m)"
  by (auto simp: hub_ok_def try_send_def split: option.splits if_splits)

lemma hub_ok_drop_receiver [simp]: "hub_ok n h \<Longrightarrow> hub_ok n (drop_receiver h tx)"
  by (auto simp: hub_ok_def drop_receiver_def split: option.splits if_splits)

lemma hub_ok_recv: "hub_ok n h \<Longrightarrow> recv h tx = Some (h', m) \<Longrightarrow> hub_ok n h'"
  by (auto simp: hub_ok_def recv_def split: option.splits list.splits if_splits)

lemma slots_unique_delete: "slots_unique rooms \<Longrightarrow> slots_unique (AList.delete k rooms)"
  unfolding slots_unique_def map_of_hremove by (metis option.distinct(1))

lemma slots_allocated_delete: "slots_allocated rooms n \<Longrightarrow> slots_allocated (AList.delete k rooms) n"
  unfolding slots_allocated_def map_of_hremove by (metis option.distinct(1))

lemma hub_ok_delete [simp]:
  "hub_ok n h \<Longrightarrow> hub_ok n (h\<lparr>hub_rooms := AList.delete k (hub_rooms h)\<rparr>)"
  using length_delete_le' [of k "hub_rooms h"]
  by (auto simp: hub_ok_def slots_unique_delete slots_allocated_delete simp del: length_delete_le')

lemma hub_ok_finish_teardown [simp]: "hub_ok n h \<Longrightarrow> hub_ok n (finish_teardown h rh)"
  by (simp add: finish_teardown_def Let_def close_peer_def split: option.splits)

lemma hub_ok_disconnect: "hub_ok n h \<Longrightarrow> hub_ok n (disconnect h rh role mine pc)"
  by (simp add: disconnect_def Let_def close_peer_def split: option.splits)

lemma slot_of_room_new [simp]: "slot_of a (room_new tx p now) = (if a = Host then Some tx else None)"
  by (cases a) (simp_all add: slot_of_def room_new_def)

lemma slot_of_set_device [simp]:
  "slot_of a (r\<lparr>rm_device := Some tx\<rparr>) = (if a = Device then Some tx else slot_of a r)"
  by (cases a) (simp_all add: slot_of_def)

text \<open>Storing a room whose only new slot is a channel nobody held before.\<close>

lemma slots_update:
  assumes "slots_unique rooms" "slots_allocated rooms n"
    and "\<And>a tx. slot_of a r = Some tx \<Longrightarrow>
           (a = b \<and> tx = n) \<or> (\<exists>r0. map_of rooms k = Some r0 \<and> slot_of a r0 = Some tx)"
  shows "slots_unique (AList.update k r rooms)" "slots_allocated (AList.update k r rooms) (Suc n)"
proof -
  have old: "tx < n" if "map_of rooms k' = Some r'" "slot_of a r' = Some tx" for k' r' a tx
    using assms(2) that by (auto simp: slots_allocated_def)
  show "slots_unique (AList.update k r rooms)"
    unfolding slots_unique_def map_of_hinsert
    using assms(1,3) old unfolding slots_unique_def
    by (smt (verit, best) nat_less_le option.inject)
  show "slots_allocated (AList.update k r rooms) (Suc n)"
    unfolding slots_allocated_def map_of_hinsert
    using assms(3) old by (smt (verit, best) less_Suc_eq option.inject)
qed

lemma hub_ok_store:
  assumes "hub_ok n h" "rm_host r \<noteq> None"
    and "\<And>a tx. slot_of a r = Some tx \<Longrightarrow>
           (a = b \<and> tx = hub_next h) \<or> (\<exists>r0. map_of (hub_rooms h) k = Some r0 \<and> slot_of a r0 = Some tx)"
    and "length (AList.update k r (hub_rooms h)) \<le> n"
  shows "hub_ok n ((fst (new_channel h))\<lparr>hub_rooms := AList.update k r (hub_rooms h)\<rparr>)"
  using assms slots_update [of "hub_rooms h" "hub_next h" r b k]
  by (auto simp: hub_ok_def new_channel_def less_Suc_eq)

lemma rm_host_room_new [simp]: "rm_host (room_new tx p now) = Some tx"
  by (simp add: room_new_def)

lemma hub_ok_register_host:
  assumes "hub_ok n h" "register_host h lim rh ip n pairing now = (h', lim', res)"
  shows "hub_ok n h'"
proof (cases "res = Ok (hub_next h, True)")
  case True
  let ?r = "room_new (hub_next h) pairing now"
  from True have r: "map_of (hub_rooms h) rh = None" "length (hub_rooms h) < n"
    and h': "h' = (fst (new_channel h))\<lparr>hub_rooms := AList.update rh ?r (hub_rooms h)\<rparr>"
    using assms(2)
    by (auto simp: register_host_def new_channel_def split: if_splits prod.splits)
  show ?thesis
    unfolding h' by (rule hub_ok_store [OF assms(1), where b = Host])
      (use r in \<open>auto simp: length_update_fresh split: if_splits\<close>)
next
  case False
  then have "h' = h" using assms(2)
    by (auto simp: register_host_def new_channel_def split: if_splits prod.splits)
  then show ?thesis using assms(1) by simp
qed

lemma hub_ok_register_device:
  assumes "hub_ok n h" "register_device h rh now = (h', res)"
  shows "hub_ok n h'"
proof (cases "res = Ok (hub_next h, False)")
  case True
  then obtain room where r: "map_of (hub_rooms h) rh = Some room" "rm_device room = None"
    and h': "h' = (fst (new_channel h))\<lparr>hub_rooms :=
               AList.update rh (room\<lparr>rm_device := Some (hub_next h)\<rparr>) (hub_rooms h)\<rparr>"
    using assms(2)
    by (auto simp: register_device_def new_channel_def split: if_splits prod.splits option.splits)
  have "rm_host room \<noteq> None" "length (hub_rooms h) \<le> n" using assms(1) r(1) by (auto simp: hub_ok_def)
  then show ?thesis
    unfolding h' by (intro hub_ok_store [OF assms(1), where b = Device])
      (use r in \<open>auto simp: length_update_present split: if_splits\<close>)
next
  case False
  then have "h' = h" using assms(2)
    by (auto simp: register_device_def new_channel_def split: if_splits prod.splits option.splits)
  then show ?thesis using assms(1) by simp
qed

lemma hub_ok_register:
  assumes "hub_ok n h" "register h lim rh role ip n pairing now = (h', lim', res)"
  shows "hub_ok n h'"
proof -
  have t: "hub_ok n (finish_teardown h rh)" using assms(1) by simp
  show ?thesis using assms(2) hub_ok_register_host [OF t] hub_ok_register_device [OF t]
    by (cases role) (auto simp: register_def Let_def split: prod.splits)
qed

section \<open>Steps of the hub\<close>

text \<open>One step on the shared state: a registration, a disconnect, a connection task dropping its
  receiver or taking a message from it, or a frame enqueued for a peer. \<open>n\<close> is \<open>max_handles\<close>.\<close>

inductive hub_step :: "nat \<Rightarrow> hub \<times> ip_rate_limiter \<Rightarrow> hub \<times> ip_rate_limiter \<Rightarrow> bool" for n where
  step_register:
    "register h lim rh role ip n pairing now = (h', lim', res) \<Longrightarrow> hub_step n (h, lim) (h', lim')"
| step_disconnect: "hub_step n (h, lim) (disconnect h rh role mine peer_close, lim)"
| step_drop: "hub_step n (h, lim) (drop_receiver h tx, lim)"
| step_recv: "recv h tx = Some (h', m) \<Longrightarrow> hub_step n (h, lim) (h', lim)"
| step_send: "hub_step n (h, lim) (try_send h tx m, lim)"

inductive_cases hub_stepE: "hub_step n s s'"

inductive hub_reach :: "nat \<Rightarrow> hub \<times> ip_rate_limiter \<Rightarrow> hub \<times> ip_rate_limiter \<Rightarrow> bool" for n s where
  reach_refl: "hub_reach n s s"
| reach_step: "hub_reach n s s1 \<Longrightarrow> hub_step n s1 s2 \<Longrightarrow> hub_reach n s s2"

lemma hub_step_ok: "hub_step n s s' \<Longrightarrow> hub_ok n (fst s) \<Longrightarrow> hub_ok n (fst s')"
  by (erule hub_stepE) (auto dest: hub_ok_register hub_ok_recv intro: hub_ok_disconnect)

lemma hub_reach_ok: "hub_reach n s s' \<Longrightarrow> hub_ok n (fst s) \<Longrightarrow> hub_ok n (fst s')"
  by (induction rule: hub_reach.induct) (auto dest: hub_step_ok)

section \<open>A channel out of the map stays out\<close>

definition unslotted :: "hub \<Rightarrow> outbound_tx \<Rightarrow> bool" where
  "unslotted h tx \<longleftrightarrow>
     tx < hub_next h \<and> (\<forall>k r a. map_of (hub_rooms h) k = Some r \<longrightarrow> slot_of a r \<noteq> Some tx)"

lemma unslotted_same_rooms:
  "unslotted h tx \<Longrightarrow> hub_rooms h' = hub_rooms h \<Longrightarrow> hub_next h' = hub_next h \<Longrightarrow> unslotted h' tx"
  by (simp add: unslotted_def)

lemma unslotted_delete:
  "unslotted h tx \<Longrightarrow> hub_rooms h' = AList.delete k (hub_rooms h) \<Longrightarrow> hub_next h' = hub_next h \<Longrightarrow>
     unslotted h' tx"
  by (auto simp: unslotted_def split: if_splits)

lemma unslotted_store:
  assumes "unslotted h tx"
    and "\<And>a t. slot_of a r = Some t \<Longrightarrow>
           t = hub_next h \<or> (\<exists>r0. map_of (hub_rooms h) k = Some r0 \<and> slot_of a r0 = Some t)"
  shows "unslotted ((fst (new_channel h))\<lparr>hub_rooms := AList.update k r (hub_rooms h)\<rparr>) tx"
  using assms unfolding unslotted_def by (fastforce split: if_splits)

lemma finish_teardown_rooms:
  "hub_rooms (finish_teardown h rh) = hub_rooms h
   \<or> hub_rooms (finish_teardown h rh) = AList.delete rh (hub_rooms h)"
  "hub_next (finish_teardown h rh) = hub_next h"
  by (simp_all add: finish_teardown_def Let_def split: option.splits)

lemma unslotted_finish_teardown: "unslotted h tx \<Longrightarrow> unslotted (finish_teardown h rh) tx"
  using finish_teardown_rooms [of h rh] by (metis unslotted_same_rooms unslotted_delete)

lemma disconnect_rooms:
  "hub_rooms (disconnect h rh role mine pc) =
     (if owns_slot h rh role mine then AList.delete rh (hub_rooms h) else hub_rooms h)"
  "hub_next (disconnect h rh role mine pc) = hub_next h"
  by (simp_all add: disconnect_def Let_def split: option.splits)

lemma unslotted_disconnect: "unslotted h tx \<Longrightarrow> unslotted (disconnect h rh role mine pc) tx"
  using disconnect_rooms [of h rh role mine pc] by (metis unslotted_same_rooms unslotted_delete)

lemma unslotted_register_host:
  assumes "unslotted h tx" "register_host h lim rh ip n pairing now = (h', lim', res)"
  shows "unslotted h' tx"
proof (cases "h' = h")
  case False
  then have "h' = (fst (new_channel h))\<lparr>hub_rooms := AList.update rh (room_new (hub_next h) pairing now) (hub_rooms h)\<rparr>"
    using assms(2) by (auto simp: register_host_def new_channel_def split: if_splits prod.splits)
  then show ?thesis by (auto intro!: unslotted_store [OF assms(1)] split: if_splits)
qed (use assms in simp)

lemma unslotted_register_device:
  assumes "unslotted h tx" "register_device h rh now = (h', res)"
  shows "unslotted h' tx"
proof (cases "h' = h")
  case False
  then obtain room where "map_of (hub_rooms h) rh = Some room"
    "h' = (fst (new_channel h))\<lparr>hub_rooms := AList.update rh (room\<lparr>rm_device := Some (hub_next h)\<rparr>) (hub_rooms h)\<rparr>"
    using assms(2)
    by (auto simp: register_device_def new_channel_def split: if_splits prod.splits option.splits)
  then show ?thesis by (auto intro!: unslotted_store [OF assms(1)] split: if_splits)
qed (use assms in simp)

lemma unslotted_register:
  assumes "unslotted h tx" "register h lim rh role ip n pairing now = (h', lim', res)"
  shows "unslotted h' tx"
  using assms(2) unslotted_register_host [OF unslotted_finish_teardown [OF assms(1)]]
    unslotted_register_device [OF unslotted_finish_teardown [OF assms(1)]]
  by (cases role) (auto simp: register_def Let_def split: prod.splits)

lemma recv_sel: "recv h tx = Some (h', m) \<Longrightarrow> hub_rooms h' = hub_rooms h \<and> hub_next h' = hub_next h"
  by (auto simp: recv_def split: option.splits list.splits)

lemma unslotted_step:
  assumes "hub_step n s s'" "unslotted (fst s) tx"
  shows "unslotted (fst s') tx"
  using assms
proof (cases rule: hub_step.cases)
  case (step_register h lim rh role ip pairing now h' lim' res)
  then show ?thesis using assms(2) unslotted_register by auto
next
  case (step_disconnect h lim rh role mine peer_close)
  then show ?thesis using assms(2) unslotted_disconnect by auto
next
  case (step_recv h tx' h' m lim)
  then show ?thesis using assms(2) recv_sel unslotted_same_rooms by (metis fst_conv)
qed (use assms(2) in \<open>auto elim!: unslotted_same_rooms\<close>)

lemma unslotted_reach: "hub_reach n s s' \<Longrightarrow> unslotted (fst s) tx \<Longrightarrow> unslotted (fst s') tx"
  by (induction rule: hub_reach.induct) (auto dest: unslotted_step)

lemma other_slot_slot_of: "\<exists>b. b \<noteq> a \<and> other_slot a room = slot_of b room"
  by (cases a) (auto simp: other_slot_def slot_of_def intro: exI [of _ Host] exI [of _ Device])

lemma peer_of_slot:
  assumes "peer_of h rh role = Some tx"
  obtains room b where "map_of (hub_rooms h) rh = Some room" "b \<noteq> role" "slot_of b room = Some tx"
    "other_slot role room = Some tx"
proof -
  obtain room where r: "map_of (hub_rooms h) rh = Some room" "other_slot role room = Some tx"
    using assms by (auto simp: peer_of_def split: option.splits)
  then show ?thesis using that other_slot_slot_of [of role room] by force
qed

lemma unslotted_after_disconnect:
  assumes "hub_ok n h" "owns_slot h rh role mine" "tx = mine \<or> peer_of h rh role = Some tx"
  shows "unslotted (disconnect h rh role mine pc) tx"
proof -
  obtain room where r: "map_of (hub_rooms h) rh = Some room" "slot_of role room = Some mine"
    using assms(2) by (auto simp: owns_slot_def split: option.splits)
  obtain a where a: "slot_of a room = Some tx"
    using assms(3) r by (auto elim: peer_of_slot)
  have "tx < hub_next h" "\<And>k r b. map_of (hub_rooms h) k = Some r \<Longrightarrow> slot_of b r = Some tx \<Longrightarrow> k = rh"
    using assms(1) r(1) a unfolding hub_ok_def slots_allocated_def slots_unique_def by blast+
  then show ?thesis
    using assms(2) by (auto simp: unslotted_def disconnect_rooms split: if_splits)
qed

section \<open>Properties\<close>

text \<open>C13: in every state the hub reaches from an empty map, by registrations, disconnects, dropped
  receivers and queued or drained frames in any order, the invariant holds: handles are distinct and
  at most \<open>n\<close>, every room has a Host, and no channel is in two slots.\<close>

theorem hub_reachable_ok:
  assumes "hub_reach n (hub_new, lim) (h, lim')"
  shows "hub_ok n h"
  using hub_reach_ok [OF assms] by simp

theorem hub_reachable_ok_witness:
  "hub_ok 5 (disconnect (fst (register hub_new (ip_limiter_new 1) (Handle []) Host (V4 0) 5 True 0))
     (Handle []) Host 0 None)"
proof -
  let ?lim = "ip_limiter_new 1"
  let ?r = "register hub_new ?lim (Handle []) Host (V4 0) 5 True 0"
  have 1: "hub_step 5 (hub_new, ?lim) (fst ?r, fst (snd ?r))" by (rule step_register) (simp add: prod_eq_iff)
  have 2: "hub_step 5 (fst ?r, fst (snd ?r)) (disconnect (fst ?r) (Handle []) Host 0 None, fst (snd ?r))"
    by (rule step_disconnect)
  show ?thesis
    by (rule hub_reachable_ok [OF reach_step [OF reach_step [OF reach_refl 1] 2]])
qed


definition two_peers :: hub where
  "two_peers =
     \<lparr>hub_rooms = [(Handle [], \<lparr>rm_host = Some 0, rm_device = Some 1, rm_host_registered_at = 0, rm_pairing = False\<rparr>)],
      hub_chans = [(0, \<lparr>ch_queue = [], ch_open = False\<rparr>), (1, \<lparr>ch_queue = [], ch_open = True\<rparr>)], hub_next = 2\<rparr>"

lemma two_peers_facts:
  "owns_slot two_peers (Handle []) Host 0" "peer_of two_peers (Handle []) Host = Some 1"
  "map_of (hub_chans two_peers) 1 = Some \<lparr>ch_queue = [], ch_open = True\<rparr>" "hub_ok 3 two_peers"
proof -
  show "hub_ok 3 two_peers"
    by (auto simp: two_peers_def hub_ok_def keys_ok_def slots_unique_def slots_allocated_def slot_of_def
        split: role.splits if_splits)
qed (simp_all add: two_peers_def owns_slot_def slot_of_def peer_of_def other_slot_def)


text \<open>Once a room was torn down, neither of its two connections ever owns a slot again, whatever the
  hub does afterwards, a fresh registration under the same handle included: their late disconnects
  change nothing.\<close>

theorem stale_disconnect_is_noop:
  assumes "hub_ok n h" "owns_slot h rh role mine"
    and "tx = mine \<or> peer_of h rh role = Some tx"
    and "hub_reach n (disconnect h rh role mine peer_close, lim) (h', lim')"
  shows "disconnect h' rh' role' tx peer_close' = h'"
proof -
  have "unslotted h' tx"
    using unslotted_reach [OF assms(4)] unslotted_after_disconnect [OF assms(1-3)] by simp
  then show ?thesis
    by (auto simp: disconnect_def owns_slot_def unslotted_def split: option.splits)
qed

theorem stale_disconnect_is_noop_witness:
  "let h' = fst (register (disconnect two_peers (Handle []) Host 0 None) (ip_limiter_new 1)
                   (Handle []) Host (V4 0) 3 False 0)
   in disconnect h' (Handle []) Device 1 None = h'"
proof -
  let ?h = "disconnect two_peers (Handle []) Host 0 None"
  let ?r = "register ?h (ip_limiter_new 1) (Handle []) Host (V4 0) 3 False 0"
  have "hub_reach 3 (?h, ip_limiter_new 1) (fst ?r, fst (snd ?r))"
    by (rule reach_step [OF reach_refl step_register]) (simp add: prod_eq_iff)
  from stale_disconnect_is_noop [OF two_peers_facts(4,1) disjI2 [OF two_peers_facts(2)] this]
  show ?thesis by (simp add: Let_def)
qed

text \<open>A frame that one connection forwards can only reach its own partner: if the peer of a slot is a
  channel, no other slot of any room has that channel as its peer, and the two sides of a room are
  each other's peers.\<close>

theorem peer_is_exclusive:
  assumes "hub_ok n h" "peer_of h rh role = Some tx"
  shows "(\<forall>rh' role'. peer_of h rh' role' = Some tx \<longrightarrow> rh' = rh \<and> role' = role)
         \<and> (\<forall>tx'. owns_slot h rh role tx' \<longrightarrow> tx' \<noteq> tx)"
proof -
  from assms(2) obtain room b where r: "map_of (hub_rooms h) rh = Some room" "b \<noteq> role" "slot_of b room = Some tx"
    by (rule peer_of_slot)
  have u: "slots_unique (hub_rooms h)" using assms(1) by (simp add: hub_ok_def)
  have 1: "rh' = rh \<and> role' = role" if "peer_of h rh' role' = Some tx" for rh' role'
  proof -
    from that obtain room' b' where r': "map_of (hub_rooms h) rh' = Some room'" "b' \<noteq> role'"
      "slot_of b' room' = Some tx" by (rule peer_of_slot)
    have "rh' = rh \<and> b' = b" using u r r' unfolding slots_unique_def by blast
    with r(2) r'(2) show ?thesis by (cases role; cases role'; cases b) auto
  qed
  have 2: "tx' \<noteq> tx" if "owns_slot h rh role tx'" for tx'
  proof
    assume "tx' = tx"
    with that r(1) have "slot_of role room = Some tx" by (simp add: owns_slot_def)
    with u r show False unfolding slots_unique_def by blast
  qed
  from 1 2 show ?thesis by blast
qed

theorem peer_is_exclusive_witness: "peer_of two_peers (Handle []) Device \<noteq> Some 1"
  using peer_is_exclusive [OF two_peers_facts(4,2)] by auto

text \<open>What a Device's registration answers, on every branch: \<open>HandleUnknown\<close> without a Host or when
  one of the room's connections is already gone, \<open>PairingExpired\<close> more than 600 seconds after a
  pairing Host registered, \<open>HostInUse\<close> when a Device is there, and otherwise the Device takes the
  free slot of that room with a fresh channel; no other room changes.\<close>

theorem register_device_outcome:
  assumes "register h lim rh Device ip n pairing now = (h', lim', res)"
  shows "lim' = lim \<and> (\<forall>k. k \<noteq> rh \<longrightarrow> map_of (hub_rooms h') k = map_of (hub_rooms h) k) \<and>
    (case map_of (hub_rooms h) rh of
       None \<Rightarrow> res = Err RE_HandleUnknown \<and> h' = h
     | Some room \<Rightarrow>
         if closed_role h room \<noteq> None then res = Err RE_HandleUnknown \<and> map_of (hub_rooms h') rh = None
         else if rm_pairing room \<and> secs 600 < now - rm_host_registered_at room
              then res = Err RE_PairingExpired \<and> h' = h
         else if rm_device room \<noteq> None then res = Err RE_HostInUse \<and> h' = h
         else res = Ok (hub_next h, False) \<and> peer_of h' rh Host = Some (hub_next h)
              \<and> peer_of h' rh Device = rm_host room)"
proof (cases "map_of (hub_rooms h) rh")
  case None
  then show ?thesis using assms
    by (auto simp: register_def finish_teardown_def register_device_def)
next
  case (Some room)
  show ?thesis
  proof (cases "closed_role h room")
    case None
    then show ?thesis using assms Some
      by (auto simp: register_def finish_teardown_def register_device_def PAIRING_WINDOW_def new_channel_def
          peer_of_def other_slot_def split: if_splits)
  next
    case (Some gone)
    have "map_of (hub_rooms (finish_teardown h rh)) k = (if k = rh then None else map_of (hub_rooms h) k)" for k
      using Some \<open>map_of (hub_rooms h) rh = Some room\<close>
      by (simp add: finish_teardown_def Let_def split: option.splits)
    then show ?thesis using assms Some \<open>map_of (hub_rooms h) rh = Some room\<close>
      by (auto simp: register_def register_device_def Let_def)
  qed
qed

theorem register_device_outcome_witness:
  "snd (snd (register (two_peers\<lparr>hub_chans := AList.update 0 \<lparr>ch_queue = [], ch_open = True\<rparr> (hub_chans two_peers)\<rparr>)
      (ip_limiter_new 1) (Handle []) Device (V4 0) 3 False 0)) = Err RE_HostInUse"
proof -
  let ?h = "two_peers\<lparr>hub_chans := AList.update 0 \<lparr>ch_queue = [], ch_open = True\<rparr> (hub_chans two_peers)\<rparr>"
  let ?r = "register ?h (ip_limiter_new 1) (Handle []) Device (V4 0) 3 False 0"
  have "?r = (fst ?r, fst (snd ?r), snd (snd ?r))" by simp
  from register_device_outcome [OF this] show ?thesis
    by (simp add: two_peers_def closed_role_def is_closed_def)
qed

end
