(* ===== verification/Hub_Metrics.thy ===== *)
theory Hub_Metrics
  imports Session_Map Rust_Fmt
begin

text \<open>
  \<open>herdr-relay-hub/src/routes/metrics.rs\<close> and \<open>config.rs\<close>: the counters, the Prometheus
  rendering and the environment configuration. Counters are 64-bit words, as
  \<open>AtomicU64::fetch_add\<close> wraps. The text of the float in the histogram's sum is the
  argument \<open>show_secs\<close>, a function of the stored milliseconds.
\<close>

section \<open>Counters\<close>

definition DURATION_BUCKETS_SECS :: "64 word list" where
  "DURATION_BUCKETS_SECS = [1, 5, 15, 30, 60, 120, 300, 600, 1800, 3600]"

definition NAMED_CLOSE_CODES :: "close_code list" where
  "NAMED_CLOSE_CODES =
     [PairingExpired, HandleUnknown, HandleTaken, ProtocolError, close_code.Revoked, HandshakeFailed,
      HostInUse, FrameTooLarge, RateLimited]"

datatype reject_reason = RR_RateLimited | RR_HandleMalformed | RR_HandleTaken | RR_HostInUse

definition REJECT_REASONS :: "reject_reason list" where
  "REJECT_REASONS = [RR_RateLimited, RR_HandleMalformed, RR_HandleTaken, RR_HostInUse]"

fun reject_label :: "reject_reason \<Rightarrow> string" where
  "reject_label RR_RateLimited = ''rate_limited''"
| "reject_label RR_HandleMalformed = ''handle_malformed''"
| "reject_label RR_HandleTaken = ''handle_taken''"
| "reject_label RR_HostInUse = ''host_in_use''"

fun reject_index :: "reject_reason \<Rightarrow> nat" where
  "reject_index RR_RateLimited = 0"
| "reject_index RR_HandleMalformed = 1"
| "reject_index RR_HandleTaken = 2"
| "reject_index RR_HostInUse = 3"

fun close_code_index :: "close_code \<Rightarrow> nat option" where
  "close_code_index PairingExpired = Some 0"
| "close_code_index HandleUnknown = Some 1"
| "close_code_index HandleTaken = Some 2"
| "close_code_index ProtocolError = Some 3"
| "close_code_index close_code.Revoked = Some 4"
| "close_code_index HandshakeFailed = Some 5"
| "close_code_index HostInUse = Some 6"
| "close_code_index FrameTooLarge = Some 7"
| "close_code_index RateLimited = Some 8"
| "close_code_index Normal = None"
| "close_code_index GoingAway = None"
| "close_code_index Abnormal = None"
| "close_code_index InternalError = None"

fun direction_index :: "role \<Rightarrow> nat" where
  "direction_index Host = 0"
| "direction_index Device = 1"

definition direction_label :: "nat \<Rightarrow> string" where
  "direction_label i = (if i = 0 then ''host_to_device'' else ''device_to_host'')"

record metrics =
  m_handles_total :: "64 word"
  m_frames_forwarded :: "64 word list"
  m_bytes_forwarded :: "64 word list"
  m_duration_buckets :: "64 word list"
  m_duration_sum_ms :: "64 word"
  m_duration_count :: "64 word"
  m_errors_total :: "64 word list"
  m_rejected_total :: "64 word list"

definition metrics_new :: metrics where
  "metrics_new =
     \<lparr>m_handles_total = 0, m_frames_forwarded = replicate 2 0, m_bytes_forwarded = replicate 2 0,
      m_duration_buckets = replicate 10 0, m_duration_sum_ms = 0, m_duration_count = 0,
      m_errors_total = replicate 9 0, m_rejected_total = replicate 4 0\<rparr>"

definition bump :: "nat \<Rightarrow> 64 word \<Rightarrow> 64 word list \<Rightarrow> 64 word list" where
  "bump i d xs = xs[i := xs ! i + d]"

definition record_handle_created :: "metrics \<Rightarrow> metrics" where
  "record_handle_created m = m\<lparr>m_handles_total := m_handles_total m + 1\<rparr>"

definition record_forward :: "role \<Rightarrow> nat \<Rightarrow> metrics \<Rightarrow> metrics" where
  "record_forward sender bytes m =
     (let i = direction_index sender in
      m\<lparr>m_frames_forwarded := bump i 1 (m_frames_forwarded m),
        m_bytes_forwarded := bump i (of_nat bytes) (m_bytes_forwarded m)\<rparr>)"

definition record_session_duration :: "64 word \<Rightarrow> metrics \<Rightarrow> metrics" where
  "record_session_duration duration_ms m =
     (let secs = duration_ms div 1000 in
      m\<lparr>m_duration_buckets :=
          map (\<lambda>(bucket, boundary). if secs \<le> boundary then bucket + 1 else bucket)
            (zip (m_duration_buckets m) DURATION_BUCKETS_SECS),
        m_duration_sum_ms := m_duration_sum_ms m + duration_ms,
        m_duration_count := m_duration_count m + 1\<rparr>)"

definition record_error :: "close_code \<Rightarrow> metrics \<Rightarrow> metrics" where
  "record_error code m =
     (case close_code_index code of
        Some i \<Rightarrow> m\<lparr>m_errors_total := bump i 1 (m_errors_total m)\<rparr>
      | None \<Rightarrow> m)"

definition record_rejected :: "reject_reason \<Rightarrow> metrics \<Rightarrow> metrics" where
  "record_rejected reason m =
     m\<lparr>m_rejected_total := bump (reject_index reason) 1 (m_rejected_total m)\<rparr>"

section \<open>Rendering\<close>

definition show_u64 :: "64 word \<Rightarrow> string" where "show_u64 w = show_nat (unat w)"

definition line :: "string \<Rightarrow> string" where "line s = s @ [CHR 0x0A]"

definition dquote :: string where "dquote = [CHR 0x22]"

definition header :: "string \<Rightarrow> string \<Rightarrow> string \<Rightarrow> string" where
  "header name help kind = line (''# HELP '' @ name @ '' '' @ help) @ line (''# TYPE '' @ name @ '' '' @ kind)"

definition push_gauge :: "string \<Rightarrow> string \<Rightarrow> 64 word \<Rightarrow> string" where
  "push_gauge name help value = header name help ''gauge'' @ line (name @ '' '' @ show_u64 value)"

definition push_counter :: "string \<Rightarrow> string \<Rightarrow> 64 word \<Rightarrow> string" where
  "push_counter name help value = header name help ''counter'' @ line (name @ '' '' @ show_u64 value)"

definition push_labeled_counter ::
  "string \<Rightarrow> string \<Rightarrow> string \<Rightarrow> (string \<times> 64 word) list \<Rightarrow> string" where
  "push_labeled_counter name help label values =
     header name help ''counter''
     @ concat (map (\<lambda>(value_label, count).
         line (name @ ''{'' @ label @ ''='' @ dquote @ value_label @ dquote @ ''} '' @ show_u64 count)) values)"

text \<open>The running sums \<open>push_histogram\<close> prints for the buckets.\<close>

fun cumulative_from :: "64 word \<Rightarrow> 64 word list \<Rightarrow> 64 word list" where
  "cumulative_from acc [] = []"
| "cumulative_from acc (b # bs) = (acc + b) # cumulative_from (acc + b) bs"

definition HISTOGRAM_NAME :: string where
  "HISTOGRAM_NAME = ''herdr_relay_session_duration_seconds''"

definition push_histogram :: "(64 word \<Rightarrow> string) \<Rightarrow> metrics \<Rightarrow> string" where
  "push_histogram show_secs m =
     header HISTOGRAM_NAME ''Session lifetime'' ''histogram''
     @ concat (map (\<lambda>(boundary, cumulative).
         line (HISTOGRAM_NAME @ ''_bucket{le='' @ dquote @ show_u64 boundary @ dquote @ ''} '' @ show_u64 cumulative))
         (zip DURATION_BUCKETS_SECS (cumulative_from 0 (m_duration_buckets m))))
     @ line (HISTOGRAM_NAME @ ''_bucket{le='' @ dquote @ ''+Inf'' @ dquote @ ''} '' @ show_u64 (m_duration_count m))
     @ line (HISTOGRAM_NAME @ ''_sum '' @ show_secs (m_duration_sum_ms m))
     @ line (HISTOGRAM_NAME @ ''_count '' @ show_u64 (m_duration_count m))"

definition render :: "(64 word \<Rightarrow> string) \<Rightarrow> metrics \<Rightarrow> nat \<Rightarrow> string" where
  "render show_secs m active =
     push_gauge ''herdr_relay_handles_active'' ''Current active handle registrations'' (of_nat active)
     @ push_counter ''herdr_relay_handles_total'' ''Total handle registrations since start'' (m_handles_total m)
     @ push_labeled_counter ''herdr_relay_frames_forwarded_total'' ''Total frames relayed'' ''direction''
         (map (\<lambda>i. (direction_label i, m_frames_forwarded m ! i)) [0, 1])
     @ push_labeled_counter ''herdr_relay_bytes_forwarded_total'' ''Total bytes relayed'' ''direction''
         (map (\<lambda>i. (direction_label i, m_bytes_forwarded m ! i)) [0, 1])
     @ push_histogram show_secs m
     @ push_labeled_counter ''herdr_relay_errors_total'' ''Error count by type'' ''code''
         (map (\<lambda>(i, code). (case close_code_name code of Some n \<Rightarrow> n | None \<Rightarrow> '''', m_errors_total m ! i))
           (enumerate 0 NAMED_CLOSE_CODES))
     @ push_labeled_counter ''herdr_relay_connections_rejected_total'' ''Rejected connection count'' ''reason''
         (map (\<lambda>reason. (reject_label reason, m_rejected_total m ! reject_index reason)) REJECT_REASONS)"

section \<open>Configuration\<close>

record hub_config =
  hc_max_handles :: nat
  hc_connection_rate :: nat
  hc_frame_rate :: nat
  hc_handle_rate :: nat
  hc_log_json :: bool

text \<open>The environment is an argument; \<open>None\<close> is a variable that is unset or not Unicode.\<close>

definition env_usize :: "(string \<Rightarrow> string option) \<Rightarrow> string \<Rightarrow> nat \<Rightarrow> nat" where
  "env_usize env name dflt =
     (case Option.bind (env name) (parse_unsigned (2 ^ 64)) of Some v \<Rightarrow> v | None \<Rightarrow> dflt)"

definition parse_bool :: "string \<Rightarrow> bool option" where
  "parse_bool s = (if s = ''true'' then Some True else if s = ''false'' then Some False else None)"

definition env_bool :: "(string \<Rightarrow> string option) \<Rightarrow> string \<Rightarrow> bool \<Rightarrow> bool" where
  "env_bool env name dflt =
     (case Option.bind (env name) parse_bool of Some v \<Rightarrow> v | None \<Rightarrow> dflt)"

definition config_from_env :: "(string \<Rightarrow> string option) \<Rightarrow> hub_config" where
  "config_from_env env =
     \<lparr>hc_max_handles = env_usize env ''HERDR_RELAY_MAX_HANDLES'' 4096,
      hc_connection_rate = env_usize env ''HERDR_RELAY_CONNECTION_RATE'' 10,
      hc_frame_rate = env_usize env ''HERDR_RELAY_FRAME_RATE'' 100,
      hc_handle_rate = env_usize env ''HERDR_RELAY_HANDLE_RATE'' 5,
      hc_log_json = env_bool env ''HERDR_RELAY_LOG_JSON'' True\<rparr>"

lemma config_defaults:
  "config_from_env (\<lambda>_. None) =
     \<lparr>hc_max_handles = 4096, hc_connection_rate = 10, hc_frame_rate = 100, hc_handle_rate = 5, hc_log_json = True\<rparr>"
  by (simp add: config_from_env_def env_usize_def env_bool_def)

section \<open>The error counters and the labels\<close>

text \<open>The index of a close code is its position among the rendered codes: the label of each counter
  is the name of the code it counts.\<close>

lemma close_code_index_position:
  "close_code_index c = Some i \<longleftrightarrow> i < 9 \<and> NAMED_CLOSE_CODES ! i = c"
  by (cases c; auto simp: NAMED_CLOSE_CODES_def less_Suc_eq numeral_eq_Suc nth_Cons split: nat.splits)

lemma close_code_index_named: "close_code_index c \<noteq> None \<longleftrightarrow> close_code_name c \<noteq> None"
  by (cases c) simp_all

lemma reject_index_position: "i = reject_index r \<longleftrightarrow> i < 4 \<and> REJECT_REASONS ! i = r"
  by (cases r; auto simp: REJECT_REASONS_def less_Suc_eq numeral_eq_Suc nth_Cons split: nat.splits)

definition metrics_ok :: "metrics \<Rightarrow> bool" where
  "metrics_ok m \<longleftrightarrow>
     length (m_frames_forwarded m) = 2 \<and> length (m_bytes_forwarded m) = 2
     \<and> length (m_duration_buckets m) = 10 \<and> length (m_errors_total m) = 9 \<and> length (m_rejected_total m) = 4"

lemma metrics_ok_intros [inv_intros]:
  "metrics_ok metrics_new"
  "metrics_ok m \<Longrightarrow> metrics_ok (record_handle_created m)"
  "metrics_ok m \<Longrightarrow> metrics_ok (record_forward r n m)"
  "metrics_ok m \<Longrightarrow> metrics_ok (record_session_duration d m)"
  "metrics_ok m \<Longrightarrow> metrics_ok (record_error c m)"
  "metrics_ok m \<Longrightarrow> metrics_ok (record_rejected rr m)"
  by (simp_all add: metrics_ok_def metrics_new_def record_handle_created_def record_forward_def
      record_session_duration_def record_error_def record_rejected_def bump_def Let_def
      DURATION_BUCKETS_SECS_def split: option.splits)

section \<open>The histogram\<close>

text \<open>How many of the sessions lasted at most \<open>b\<close> seconds.\<close>

definition sessions_within :: "64 word list \<Rightarrow> 64 word \<Rightarrow> nat" where
  "sessions_within ds b = length (filter (\<lambda>d. d div 1000 \<le> b) ds)"

lemma duration_buckets_fold:
  "length (m_duration_buckets m) = 10 \<Longrightarrow>
     m_duration_buckets (fold record_session_duration ds m) =
     map (\<lambda>(bucket, b). bucket + of_nat (sessions_within ds b)) (zip (m_duration_buckets m) DURATION_BUCKETS_SECS)"
proof (induction ds arbitrary: m)
  case Nil
  then show ?case
    by (intro nth_equalityI) (auto simp: sessions_within_def DURATION_BUCKETS_SECS_def)
next
  case (Cons d ds)
  have l: "length (m_duration_buckets (record_session_duration d m)) = 10"
    using Cons.prems by (simp add: record_session_duration_def Let_def DURATION_BUCKETS_SECS_def)
  have 10: "length DURATION_BUCKETS_SECS = 10" by (simp add: DURATION_BUCKETS_SECS_def)
  show ?case
    using Cons.prems 10 unfolding fold_simps comp_def Cons.IH [OF l]
    by (intro nth_equalityI) (auto simp: record_session_duration_def Let_def sessions_within_def)
qed

text \<open>After the sessions \<open>ds\<close>, bucket \<open>i\<close> already counts every session of at most the i-th
  boundary, which is what a cumulative bucket must show; the rendering adds up the buckets before it
  once more, so that one instantaneous session is printed as 1, 2, ..., 10 over a count of 1.\<close>

theorem histogram_counts_twice:
  "(\<forall>i < 10. m_duration_buckets (fold record_session_duration ds metrics_new) ! i =
      of_nat (sessions_within ds (DURATION_BUCKETS_SECS ! i)))
   \<and> cumulative_from 0 (m_duration_buckets (record_session_duration 0 metrics_new)) =
       [1, 2, 3, 4, 5, 6, 7, 8, 9, 10]
   \<and> m_duration_count (record_session_duration 0 metrics_new) = 1"
proof -
  have "m_duration_buckets (fold record_session_duration ds metrics_new) =
      map (\<lambda>(bucket, b). bucket + of_nat (sessions_within ds b)) (zip (replicate 10 0) DURATION_BUCKETS_SECS)"
    by (simp add: duration_buckets_fold metrics_new_def)
  moreover have "length DURATION_BUCKETS_SECS = 10" by (simp add: DURATION_BUCKETS_SECS_def)
  ultimately have "\<forall>i < 10. m_duration_buckets (fold record_session_duration ds metrics_new) ! i =
      of_nat (sessions_within ds (DURATION_BUCKETS_SECS ! i))" by simp
  moreover have "m_duration_buckets (record_session_duration 0 metrics_new) = replicate 10 1"
    by (simp add: record_session_duration_def metrics_new_def DURATION_BUCKETS_SECS_def Let_def numeral_eq_Suc)
  then have "cumulative_from 0 (m_duration_buckets (record_session_duration 0 metrics_new)) =
      [1, 2, 3, 4, 5, 6, 7, 8, 9, 10]"
    by (simp add: numeral_eq_Suc)
  moreover have "m_duration_count (record_session_duration 0 metrics_new) = 1"
    by (simp add: record_session_duration_def metrics_new_def Let_def)
  ultimately show ?thesis by blast
qed

theorem histogram_counts_twice_witness:
  "m_duration_buckets (fold record_session_duration [2500, 0] metrics_new) ! 1 = 2"
proof -
  have "m_duration_buckets (fold record_session_duration [2500, 0] metrics_new) ! 1 =
      of_nat (sessions_within [2500, 0] (DURATION_BUCKETS_SECS ! 1))"
    using histogram_counts_twice [of "[2500, 0]"] by (metis one_less_numeral_iff semiring_norm(76) numeral_less_iff)
  then show ?thesis by (simp add: sessions_within_def DURATION_BUCKETS_SECS_def word_le_nat_alt)
qed

end
