(* ===== verification/Hub_Logging.thy ===== *)
theory Hub_Logging
  imports Rust_Fmt
begin

text \<open>
  \<open>herdr-relay-hub/src/routes/logging.rs\<close>: the field collector, the log line, the
  truncation of messages and the ISO 8601 clock. A log event is the list of its named
  fields; the JSON of a line is in \<open>Hub_Front\<close>.
\<close>

section \<open>Truncation\<close>

definition truncate_str :: "string \<Rightarrow> nat \<Rightarrow> string" where
  "truncate_str s max_bytes =
     (if length s \<le> max_bytes then s else take (boundary_down s max_bytes) s)"

lemma truncate_str_length: "length (truncate_str s n) \<le> n"
  using boundary_down_props [of s n] by (auto simp: truncate_str_def)

lemma truncate_str_prefix: "truncate_str s n = take (length (truncate_str s n)) s"
  by (auto simp: truncate_str_def min_def)

lemma truncate_str_boundary: "is_char_boundary s (length (truncate_str s n))"
  using boundary_down_props [of s n] by (auto simp: truncate_str_def min_def is_char_boundary_def)

lemma truncate_str_maximal:
  assumes "is_char_boundary s i" "i \<le> n" "i \<le> length s"
  shows "i \<le> length (truncate_str s n)"
proof (cases "length s \<le> n")
  case False
  then have "i \<le> boundary_down s n"
    using boundary_down_props [of s n] assms(1,2) by (metis leI)
  then show ?thesis using False boundary_down_props [of s n] by (simp add: truncate_str_def)
qed (use assms in \<open>simp add: truncate_str_def\<close>)

section \<open>Fields\<close>

datatype field_value = FV_U64 nat | FV_I64 int | FV_Str string | FV_Debug string

record field_collector =
  fc_event :: "string option"
  fc_handle_first_6 :: "string option"
  fc_peer :: "string option"
  fc_active_handles :: "nat option"
  fc_frames_forwarded :: "nat option"
  fc_bytes_forwarded :: "nat option"
  fc_duration_ms :: "nat option"
  fc_error_code :: "string option"
  fc_error_message :: "string option"

definition fc_default :: field_collector where
  "fc_default =
     \<lparr>fc_event = None, fc_handle_first_6 = None, fc_peer = None, fc_active_handles = None,
      fc_frames_forwarded = None, fc_bytes_forwarded = None, fc_duration_ms = None,
      fc_error_code = None, fc_error_message = None\<rparr>"

definition record_u64 :: "string \<Rightarrow> nat \<Rightarrow> field_collector \<Rightarrow> field_collector" where
  "record_u64 name v f =
     (if name = ''active_handles'' then f\<lparr>fc_active_handles := Some v\<rparr>
      else if name = ''frames_forwarded'' then f\<lparr>fc_frames_forwarded := Some v\<rparr>
      else if name = ''bytes_forwarded'' then f\<lparr>fc_bytes_forwarded := Some v\<rparr>
      else if name = ''duration_ms'' then f\<lparr>fc_duration_ms := Some v\<rparr>
      else f)"

definition record_i64 :: "string \<Rightarrow> int \<Rightarrow> field_collector \<Rightarrow> field_collector" where
  "record_i64 name v f = (if 0 \<le> v then record_u64 name (nat v) f else f)"

definition record_str :: "string \<Rightarrow> string \<Rightarrow> field_collector \<Rightarrow> field_collector" where
  "record_str name v f =
     (if name = ''event'' then f\<lparr>fc_event := Some v\<rparr>
      else if name = ''handle_first_6'' then f\<lparr>fc_handle_first_6 := Some v\<rparr>
      else if name = ''peer'' then f\<lparr>fc_peer := Some v\<rparr>
      else if name = ''error_code'' then f\<lparr>fc_error_code := Some v\<rparr>
      else if name = ''error_message'' then f\<lparr>fc_error_message := Some (truncate_str v 256)\<rparr>
      else f)"

fun record_field :: "string \<times> field_value \<Rightarrow> field_collector \<Rightarrow> field_collector" where
  "record_field (name, FV_U64 v) f = record_u64 name v f"
| "record_field (name, FV_I64 v) f = record_i64 name v f"
| "record_field (name, FV_Str v) f = record_str name v f"
| "record_field (name, FV_Debug v) f = record_str name v f"

record log_line =
  ll_ts :: string
  ll_event :: string
  ll_fields :: field_collector

text \<open>\<open>Subscriber::event\<close>: the line an event prints, if any.\<close>

definition log_event :: "bool \<Rightarrow> string \<Rightarrow> (string \<times> field_value) list \<Rightarrow> log_line option" where
  "log_event enabled ts fs =
     (if \<not> enabled then None
      else let f = fold record_field fs fc_default in
        case fc_event f of
          None \<Rightarrow> None
        | Some kind \<Rightarrow> Some \<lparr>ll_ts = ts, ll_event = kind, ll_fields = f\<lparr>fc_event := None\<rparr>\<rparr>)"

definition message_bounded :: "field_collector \<Rightarrow> bool" where
  "message_bounded f \<longleftrightarrow> (case fc_error_message f of Some m \<Rightarrow> length m \<le> 256 | None \<Rightarrow> True)"

lemma message_bounded_record: "message_bounded f \<Longrightarrow> message_bounded (record_field x f)"
  by (cases "(x, f)" rule: record_field.cases)
     (auto simp: message_bounded_def record_u64_def record_i64_def record_str_def truncate_str_length)

lemma message_bounded_fold: "message_bounded f \<Longrightarrow> message_bounded (fold record_field xs f)"
  by (induction xs arbitrary: f) (auto simp: message_bounded_record)

lemma log_event_message_bounded:
  "log_event e ts fs = Some l \<Longrightarrow> message_bounded (ll_fields l)"
  using message_bounded_fold [of fc_default fs]
  by (auto simp: log_event_def message_bounded_def fc_default_def Let_def split: if_splits option.splits)

section \<open>The clock\<close>

definition civil_from_days :: "int \<Rightarrow> int \<times> int \<times> int" where
  "civil_from_days z0 =
     (let z = z0 + 719468;
          era = z div 146097;
          doe = z mod 146097;
          yoe = (doe - doe div 1460 + doe div 36524 - doe div 146096) div 365;
          y = yoe + era * 400;
          doy = doe - (365 * yoe + yoe div 4 - yoe div 100);
          mp = (5 * doy + 2) div 153;
          d = doy - (153 * mp + 2) div 5 + 1;
          m = (if mp < 10 then mp + 3 else mp - 9)
      in (if m \<le> 2 then y + 1 else y, m, d))"

definition format_iso8601 :: "nat \<Rightarrow> string" where
  "format_iso8601 millis_since_epoch =
     (let millis = sint (of_nat millis_since_epoch :: 64 word);
          secs = millis div 1000;
          msec = millis mod 1000;
          days = secs div 86400;
          secs_of_day = secs mod 86400;
          (y, m, d) = civil_from_days days
      in pad_zero 4 y @ ''-'' @ pad_zero 2 m @ ''-'' @ pad_zero 2 d @ ''T''
         @ pad_zero 2 (secs_of_day div 3600) @ '':'' @ pad_zero 2 (secs_of_day div 60 mod 60) @ '':''
         @ pad_zero 2 (secs_of_day mod 60) @ ''.'' @ pad_zero 3 msec @ ''Z'')"

lemma civil_examples:
  "civil_from_days 0 = (1970, 1, 1)" "civil_from_days 59 = (1970, 3, 1)"
  "civil_from_days 11016 = (2000, 2, 29)" "civil_from_days (-1) = (1969, 12, 31)"
  "civil_from_days 19724 = (2024, 1, 2)"
  by code_simp+

section \<open>Properties\<close>

text \<open>The truncation of a log message returns valid UTF-8 text: the longest prefix of the
  message, cut at a character boundary, that fits the bound.\<close>

theorem truncate_str_correct:
  assumes "valid_utf8 s"
  shows "valid_utf8 (truncate_str s n) \<and> length (truncate_str s n) \<le> n
    \<and> truncate_str s n = take (length (truncate_str s n)) s
    \<and> (\<forall>i. is_char_boundary s i \<and> i \<le> n \<and> i \<le> length s \<longrightarrow> i \<le> length (truncate_str s n))"
proof (intro conjI allI impI)
  show "valid_utf8 (truncate_str s n)"
    using valid_utf8_take [OF assms truncate_str_boundary] truncate_str_prefix by metis
qed (use truncate_str_length truncate_str_prefix truncate_str_maximal in auto)

theorem truncate_str_correct_witness:
  "truncate_str [CHR ''a'', CHR 0xC3, CHR 0xA9] 2 = ''a'' \<and> valid_utf8 ''a''"
proof -
  have v: "valid_utf8 [CHR ''a'', CHR 0xC3, CHR 0xA9]" by code_simp
  have t: "truncate_str [CHR ''a'', CHR 0xC3, CHR 0xA9] 2 = ''a''" by code_simp
  from truncate_str_correct [OF v, of 2] t show ?thesis by simp
qed

end
