(* ===== verification/Push_Store.thy ===== *)
theory Push_Store
  imports Hub_Metrics
begin

text \<open>
  \<open>herdr-relay-hub/src/routes/push.rs\<close>: the store of device tokens, the frames that
  change it and the wake that a Host requests. The JSON parser of a frame is the argument
  \<open>decode\<close>; whether a platform has a provider is the argument \<open>supports\<close>. A spawned
  delivery is a value of the list \<open>pu_inflight\<close>; its outcome is a step of its own.
\<close>

section \<open>The store\<close>

definition CAPACITY :: nat where "CAPACITY = 4096"
definition COLLAPSE :: duration where "COLLAPSE = secs 30"

datatype platform = Ios | Android

text \<open>\<open>RelayMessage\<close> of \<open>herdr-relay-proto/src/frame.rs\<close>.\<close>

datatype relay_message =
    PushRegister platform string
  | PushUnregister
  | PushWake

record push_entry =
  pe_platform :: string
  pe_token :: string
  pe_generation :: nat
  pe_last_sent :: "instant option"

record push_store =
  ps_entries :: "(handle, push_entry) hmap"
  ps_generation :: nat

definition store_default :: push_store where
  "store_default = \<lparr>ps_entries = [], ps_generation = 0\<rparr>"

text \<open>\<open>iter().min_by_key(generation)\<close>.\<close>

fun oldest :: "(handle, push_entry) hmap \<Rightarrow> handle option" where
  "oldest [] = None"
| "oldest ((k, e) # m) =
     (case oldest m of
        None \<Rightarrow> Some k
      | Some k' \<Rightarrow>
          (case map_of m k' of
             Some e' \<Rightarrow> if pe_generation e \<le> pe_generation e' then Some k else Some k'
           | None \<Rightarrow> Some k))"

definition store_register :: "handle \<Rightarrow> string \<Rightarrow> string \<Rightarrow> push_store \<Rightarrow> push_store" where
  "store_register rh platform token s =
     (let last_sent = Option.bind (map_of (ps_entries s) rh) pe_last_sent;
          entries = (if length (ps_entries s) = CAPACITY \<and> map_of (ps_entries s) rh = None
                     then (case oldest (ps_entries s) of
                             Some k \<Rightarrow> AList.delete k (ps_entries s)
                           | None \<Rightarrow> ps_entries s)
                     else ps_entries s);
          gen = ps_generation s + 1
      in \<lparr>ps_entries = AList.update rh
            \<lparr>pe_platform = platform, pe_token = token, pe_generation = gen, pe_last_sent = last_sent\<rparr> entries,
          ps_generation = gen\<rparr>)"

definition take_wake ::
  "handle \<Rightarrow> instant \<Rightarrow> push_store \<Rightarrow> push_store \<times> (string \<times> string \<times> nat) option" where
  "take_wake rh now s =
     (case map_of (ps_entries s) rh of
        None \<Rightarrow> (s, None)
      | Some e \<Rightarrow>
          if (case pe_last_sent e of Some sent \<Rightarrow> now - sent < COLLAPSE | None \<Rightarrow> False) then (s, None)
          else (s\<lparr>ps_entries := AList.update rh (e\<lparr>pe_last_sent := Some now\<rparr>) (ps_entries s)\<rparr>,
                Some (pe_platform e, pe_token e, pe_generation e)))"

definition remove_generation :: "handle \<Rightarrow> nat \<Rightarrow> push_store \<Rightarrow> push_store" where
  "remove_generation rh gen s =
     (case map_of (ps_entries s) rh of
        Some e \<Rightarrow> if pe_generation e = gen then s\<lparr>ps_entries := AList.delete rh (ps_entries s)\<rparr> else s
      | None \<Rightarrow> s)"

definition store_unregister :: "handle \<Rightarrow> push_store \<Rightarrow> push_store" where
  "store_unregister rh s = s\<lparr>ps_entries := AList.delete rh (ps_entries s)\<rparr>"

section \<open>Frames and deliveries\<close>

record delivery =
  dl_handle :: handle
  dl_platform :: string
  dl_token :: string
  dl_generation :: nat

record push =
  pu_store :: push_store
  pu_sent :: "64 word list"
  pu_failed :: "64 word list"
  pu_inflight :: "delivery list"

definition push_new :: push where
  "push_new = \<lparr>pu_store = store_default, pu_sent = [0, 0], pu_failed = [0, 0], pu_inflight = []\<rparr>"

definition platform_name :: "platform \<Rightarrow> string" where
  "platform_name p = (case p of Ios \<Rightarrow> ''ios'' | Android \<Rightarrow> ''android'')"

definition push_parse ::
  "(string \<Rightarrow> relay_message option) \<Rightarrow> string \<Rightarrow> role \<Rightarrow> relay_message option" where
  "push_parse decode text role =
     (case decode text of
        None \<Rightarrow> None
      | Some m \<Rightarrow>
          (case m of
             PushRegister _ token \<Rightarrow> if role = Device \<and> token \<noteq> [] \<and> length token \<le> 4096 then Some m else None
           | PushUnregister \<Rightarrow> if role = Device then Some m else None
           | PushWake \<Rightarrow> if role = Host then Some m else None))"

text \<open>\<open>Push::receive\<close>; \<open>None\<close> is the error for a malformed frame.\<close>

definition push_receive ::
  "(string \<Rightarrow> relay_message option) \<Rightarrow> bool \<Rightarrow> (string \<Rightarrow> bool) \<Rightarrow> string \<Rightarrow> handle \<Rightarrow> role \<Rightarrow> hub \<Rightarrow>
     instant \<Rightarrow> push \<Rightarrow> push option" where
  "push_receive decode enabled supports text rh role sessions now p =
     (case push_parse decode text role of
        None \<Rightarrow> None
      | Some m \<Rightarrow>
          if \<not> enabled then Some p
          else case m of
            PushRegister platform token \<Rightarrow>
              if supports (platform_name platform)
              then Some (p\<lparr>pu_store := store_register rh (platform_name platform) token (pu_store p)\<rparr>)
              else Some p
          | PushUnregister \<Rightarrow> Some (p\<lparr>pu_store := store_unregister rh (pu_store p)\<rparr>)
          | PushWake \<Rightarrow>
              if (case peer_of sessions rh Host of Some tx \<Rightarrow> \<not> is_closed sessions tx | None \<Rightarrow> False)
              then Some p
              else case take_wake rh now (pu_store p) of
                (s, None) \<Rightarrow> Some (p\<lparr>pu_store := s\<rparr>)
              | (s, Some (platform, token, gen)) \<Rightarrow>
                  Some (p\<lparr>pu_store := s,
                          pu_inflight := pu_inflight p @
                            [\<lparr>dl_handle = rh, dl_platform = platform, dl_token = token, dl_generation = gen\<rparr>]\<rparr>))"

datatype send_outcome = Sent | SendFailed | TokenGone

text \<open>The spawned task finishing: the counters, and the removal of a token the provider refused.\<close>

definition push_delivered :: "delivery \<Rightarrow> send_outcome \<Rightarrow> push \<Rightarrow> push" where
  "push_delivered d outcome p =
     (let i = (if dl_platform d = ''android'' then 1 else 0);
          p1 = (if outcome = Sent then p\<lparr>pu_sent := bump i 1 (pu_sent p)\<rparr>
                else p\<lparr>pu_failed := bump i 1 (pu_failed p)\<rparr>);
          p2 = p1\<lparr>pu_inflight := remove1 d (pu_inflight p1)\<rparr>
      in if outcome = TokenGone
         then p2\<lparr>pu_store := remove_generation (dl_handle d) (dl_generation d) (pu_store p2)\<rparr>
         else p2)"

definition render_push_metrics :: "push \<Rightarrow> string" where
  "render_push_metrics p =
     concat (map (\<lambda>(name, counters).
       line (''# HELP herdr_relay_push_'' @ name @ ''_total Content-free push results'')
       @ line (''# TYPE herdr_relay_push_'' @ name @ ''_total counter'')
       @ concat (map (\<lambda>(i, platform).
           line (''herdr_relay_push_'' @ name @ ''_total{platform='' @ dquote @ platform @ dquote @ ''} ''
                 @ show_u64 (counters ! i)))
           (enumerate 0 [''ios'', ''android''])))
       [(''sent'', pu_sent p), (''failed'', pu_failed p)])"

section \<open>Invariant of the store\<close>

definition store_ok :: "push_store \<Rightarrow> bool" where
  "store_ok s \<longleftrightarrow>
     keys_ok (ps_entries s) \<and> length (ps_entries s) \<le> CAPACITY
     \<and> (\<forall>k e. map_of (ps_entries s) k = Some e \<longrightarrow> 0 < pe_generation e \<and> pe_generation e \<le> ps_generation s)
     \<and> (\<forall>j k e f. map_of (ps_entries s) j = Some e \<longrightarrow> map_of (ps_entries s) k = Some f \<longrightarrow>
          pe_generation e = pe_generation f \<longrightarrow> j = k)"

lemma store_ok_default [simp]: "store_ok store_default"
  by (simp add: store_ok_def store_default_def)

lemma oldest_Some: "m \<noteq> [] \<Longrightarrow> \<exists>k. oldest m = Some k"
  by (induction m rule: oldest.induct) (auto split: option.splits)

lemma oldest_min:
  "keys_ok m \<Longrightarrow> oldest m = Some k \<Longrightarrow>
     \<exists>e. map_of m k = Some e \<and> (\<forall>j f. map_of m j = Some f \<longrightarrow> pe_generation e \<le> pe_generation f)"
proof (induction m arbitrary: k rule: oldest.induct)
  case (2 k0 e0 m)
  have fresh: "map_of m k0 = None" and km: "keys_ok m"
    using 2(2) by (auto simp: keys_ok_def map_of_eq_None_iff)
  show ?case
  proof (cases "oldest m")
    case None
    then have "m = []" using oldest_Some by force
    then show ?thesis using 2(3) by auto
  next
    case (Some k')
    then obtain e' where e': "map_of m k' = Some e'"
      "\<And>j f. map_of m j = Some f \<Longrightarrow> pe_generation e' \<le> pe_generation f"
      using 2(1) [OF km] by blast
    have "k' \<noteq> k0" using e'(1) fresh by auto
    show ?thesis
    proof (cases "pe_generation e0 \<le> pe_generation e'")
      case True
      then have "k = k0" using 2(3) Some e'(1) by simp
      then show ?thesis using True e'(2) by (auto intro: le_trans)
    next
      case False
      then have "k = k'" using 2(3) Some e'(1) by simp
      then show ?thesis using False e' \<open>k' \<noteq> k0\<close> by auto
    qed
  qed
qed simp

lemma length_delete_present:
  "keys_ok m \<Longrightarrow> map_of m k = Some v \<Longrightarrow> Suc (length (AList.delete k m)) = length m"
proof (induction m)
  case (Cons a m)
  obtain k' v' where a: "a = (k', v')" by force
  show ?case
  proof (cases "k = k'")
    case True
    then have "k \<notin> fst ` set m" using Cons.prems by (auto simp: a keys_ok_def)
    then show ?thesis using True by (simp add: a delete_id)
  next
    case False
    then show ?thesis using Cons by (auto simp: a keys_ok_def)
  qed
qed simp

lemma store_ok_unregister: "store_ok s \<Longrightarrow> store_ok (store_unregister rh s)"
  using length_delete_le' [of rh "ps_entries s"] unfolding store_ok_def store_unregister_def
  by (auto split: if_splits simp del: length_delete_le')

lemma store_ok_remove_generation: "store_ok s \<Longrightarrow> store_ok (remove_generation rh g s)"
  using store_ok_unregister [of s rh]
  by (auto simp: remove_generation_def store_unregister_def split: option.splits)

lemma store_ok_take_wake: "store_ok s \<Longrightarrow> store_ok (fst (take_wake rh now s))"
  by (auto simp: take_wake_def store_ok_def length_update_present split: option.splits if_splits)

lemma store_ok_put:
  assumes "store_ok s" "map_of (ps_entries s) rh \<noteq> None \<or> length (ps_entries s) < CAPACITY"
    and "pe_generation e = ps_generation s + 1"
  shows "store_ok \<lparr>ps_entries = AList.update rh e (ps_entries s), ps_generation = ps_generation s + 1\<rparr>"
proof -
  have "length (AList.update rh e (ps_entries s)) \<le> CAPACITY"
    using assms(1,2) length_update_present [of "ps_entries s" rh] length_update_le [of rh e "ps_entries s"]
    by (cases "map_of (ps_entries s) rh") (auto simp: store_ok_def)
  moreover have "pe_generation f \<noteq> ps_generation s + 1" if "map_of (ps_entries s) j = Some f" for j f
    using assms(1) that by (fastforce simp: store_ok_def)
  ultimately show ?thesis
    using assms(1,3) unfolding store_ok_def
    by (auto split: if_splits simp: le_Suc_eq) (metis Suc_n_not_le_n)+
qed

lemma store_ok_register: "store_ok s \<Longrightarrow> store_ok (store_register rh p t s)"
proof -
  assume ok: "store_ok s"
  show ?thesis
  proof (cases "length (ps_entries s) = CAPACITY \<and> map_of (ps_entries s) rh = None")
    case False
    then have "map_of (ps_entries s) rh \<noteq> None \<or> length (ps_entries s) < CAPACITY"
      using ok by (auto simp: store_ok_def)
    from store_ok_put [OF ok this] show ?thesis
      unfolding store_register_def Let_def if_not_P [OF False] by simp
  next
    case True
    then have "ps_entries s \<noteq> []" by (auto simp: CAPACITY_def)
    then obtain k where k: "oldest (ps_entries s) = Some k" using oldest_Some by blast
    then obtain e where e: "map_of (ps_entries s) k = Some e"
      using oldest_min [of "ps_entries s" k] ok by (auto simp: store_ok_def)
    let ?s = "store_unregister k s"
    have "length (ps_entries ?s) < CAPACITY"
      using length_delete_present [OF _ e] ok True by (auto simp: store_ok_def store_unregister_def)
    with store_ok_put [OF store_ok_unregister [OF ok, of k], of rh] True k show ?thesis
      by (simp add: store_register_def Let_def store_unregister_def)
  qed
qed

section \<open>Sequences of operations\<close>

datatype push_op =
    Op_Register handle string string
  | Op_Unregister handle
  | Op_Wake handle instant
  | Op_Gone handle nat

fun push_exec :: "push_op \<Rightarrow> push_store \<Rightarrow> push_store" where
  "push_exec (Op_Register rh p t) s = store_register rh p t s"
| "push_exec (Op_Unregister rh) s = store_unregister rh s"
| "push_exec (Op_Wake rh now) s = fst (take_wake rh now s)"
| "push_exec (Op_Gone rh g) s = remove_generation rh g s"

lemma store_ok_exec: "store_ok s \<Longrightarrow> store_ok (push_exec op s)"
  by (cases op) (simp_all add: store_ok_register store_ok_unregister store_ok_take_wake store_ok_remove_generation)

interpretation push_ops: preserved push_exec "\<lambda>_. True" store_ok
  by unfold_locales (rule store_ok_exec)

lemma store_ok_run: "store_ok s \<Longrightarrow> store_ok (fold push_exec ops s)"
  by (rule push_ops.keep_run) (simp_all add: list_all_iff)

definition last_sent :: "handle \<Rightarrow> push_store \<Rightarrow> instant option" where
  "last_sent rh s = Option.bind (map_of (ps_entries s) rh) pe_last_sent"

definition registered :: "handle \<Rightarrow> push_store \<Rightarrow> bool" where
  "registered rh s \<longleftrightarrow> map_of (ps_entries s) rh \<noteq> None"

text \<open>The handle stays registered through the whole sequence, and no wake is before \<open>t\<close>.\<close>

fun kept :: "handle \<Rightarrow> instant \<Rightarrow> push_op list \<Rightarrow> push_store \<Rightarrow> bool" where
  "kept rh t [] s = registered rh s"
| "kept rh t (op # ops) s =
     (registered rh s \<and> (case op of Op_Wake _ now \<Rightarrow> t \<le> now | _ \<Rightarrow> True) \<and> kept rh t ops (push_exec op s))"

lemma kept_registered: "kept rh t ops s \<Longrightarrow> registered rh s"
  by (cases ops) auto

lemma store_register_map:
  "map_of (ps_entries (store_register k p tok s)) rh =
     (if rh = k then Some \<lparr>pe_platform = p, pe_token = tok, pe_generation = ps_generation s + 1, pe_last_sent = last_sent k s\<rparr>
      else if length (ps_entries s) = CAPACITY \<and> map_of (ps_entries s) k = None \<and> oldest (ps_entries s) = Some rh then None
      else map_of (ps_entries s) rh)"
  by (auto simp: store_register_def Let_def last_sent_def split: option.splits)

lemma last_sent_exec:
  assumes "last_sent rh s = Some u" "t \<le> u" "registered rh (push_exec op s)"
    and "case op of Op_Wake _ now \<Rightarrow> t \<le> now | _ \<Rightarrow> True"
  shows "\<exists>u. last_sent rh (push_exec op s) = Some u \<and> t \<le> u"
proof (cases op)
  case (Op_Register k p tok)
  then show ?thesis using assms(1,2,3)
    by (auto simp: last_sent_def registered_def store_register_map split: if_splits)
next
  case (Op_Wake k now)
  then show ?thesis using assms
    by (auto simp: last_sent_def take_wake_def Option.bind_eq_Some_conv split: option.splits if_splits)
qed (use assms in \<open>auto simp: last_sent_def registered_def store_unregister_def remove_generation_def
       split: option.splits if_splits\<close>)

lemma last_sent_run:
  "last_sent rh s = Some u \<Longrightarrow> t \<le> u \<Longrightarrow> kept rh t ops s \<Longrightarrow>
     \<exists>u. last_sent rh (fold push_exec ops s) = Some u \<and> t \<le> u"
proof (induction ops arbitrary: s u)
  case (Cons op ops)
  then have k: "kept rh t ops (push_exec op s)" "case op of Op_Wake _ now \<Rightarrow> t \<le> now | _ \<Rightarrow> True" by auto
  from last_sent_exec [OF Cons.prems(1,2) kept_registered [OF k(1)] k(2)] Cons.IH k(1) show ?case by auto
qed auto

section \<open>Properties\<close>

text \<open>After any sequence of registrations, removals, wakes and refused tokens, the store holds at
  most 4096 handles, all distinct, with distinct generations no greater than the generation counter;
  a registration always leaves its own handle registered with the given token.\<close>

theorem push_store_bounded:
  "let s = fold push_exec ops store_default in
     store_ok s \<and> length (ps_entries s) \<le> CAPACITY
     \<and> map_option pe_token (map_of (ps_entries (store_register rh p tok s)) rh) = Some tok"
proof -
  have ok: "store_ok (fold push_exec ops store_default)" by (simp add: store_ok_run)
  then have "length (ps_entries (fold push_exec ops store_default)) \<le> CAPACITY"
    unfolding store_ok_def by blast
  with ok show ?thesis by (simp add: Let_def store_register_map)
qed

text \<open>Two wakes of one handle that are both granted lie at least 30 seconds apart, whatever
  registrations, token refreshes and wakes of other handles happen in between, as long as the handle
  stays registered.\<close>

theorem wakes_are_spaced:
  assumes "take_wake rh t s = (s1, Some d1)" "kept rh t ops s1"
    and "take_wake rh t' (fold push_exec ops s1) = (s2, Some d2)"
  shows "t + COLLAPSE \<le> t'"
proof -
  have "last_sent rh s1 = Some t"
    using assms(1) by (auto simp: take_wake_def last_sent_def split: option.splits if_splits)
  from last_sent_run [OF this _ assms(2)] obtain u
    where "last_sent rh (fold push_exec ops s1) = Some u" "t \<le> u" by auto
  moreover from this assms(3) have "COLLAPSE \<le> t' - u"
    by (auto simp: take_wake_def last_sent_def Option.bind_eq_Some_conv split: option.splits if_splits)
  moreover have "0 < COLLAPSE" by (simp add: COLLAPSE_def)
  ultimately show ?thesis by linarith
qed

definition one_token :: push_store where
  "one_token = store_register (Handle []) ''ios'' ''tok'' store_default"

theorem wakes_are_spaced_witness:
  "5 + COLLAPSE \<le> secs 40"
proof -
  let ?s1 = "fst (take_wake (Handle []) 5 one_token)"
  let ?ops = "[Op_Register (Handle []) ''ios'' ''new'', Op_Wake (Handle []) 7]"
  note defs = one_token_def store_register_def store_default_def take_wake_def Let_def CAPACITY_def
    registered_def COLLAPSE_def secs_def
  have "take_wake (Handle []) 5 one_token = (?s1, Some (''ios'', ''tok'', 1))"
    by (simp add: defs)
  moreover have "kept (Handle []) 5 ?ops ?s1" by (simp add: defs)
  moreover have "take_wake (Handle []) (secs 40) (fold push_exec ?ops ?s1) =
      (fst (take_wake (Handle []) (secs 40) (fold push_exec ?ops ?s1)), Some (''ios'', ''new'', 2))"
    by (simp add: defs)
  ultimately show ?thesis by (rule wakes_are_spaced)
qed

text \<open>A provider's refusal of an old token never deletes a newer registration: a delivery of a
  generation that the handle no longer holds leaves the store as it is.\<close>

theorem stale_refusal_keeps_registration:
  assumes "store_ok (pu_store p)" "take_wake rh t (pu_store p) = (s1, Some (platform, token, gen))"
  shows "pu_store (push_delivered \<lparr>dl_handle = rh, dl_platform = platform, dl_token = token, dl_generation = gen\<rparr> outcome
           (p\<lparr>pu_store := store_register rh platform' token' s1\<rparr>)) = store_register rh platform' token' s1"
proof -
  have "gen \<le> ps_generation (pu_store p)" "ps_generation s1 = ps_generation (pu_store p)"
    using assms by (auto simp: take_wake_def store_ok_def split: option.splits if_splits)
  then have "remove_generation rh gen (store_register rh platform' token' s1) = store_register rh platform' token' s1"
    by (simp add: remove_generation_def store_register_map)
  then show ?thesis by (simp add: push_delivered_def Let_def)
qed

theorem stale_refusal_keeps_registration_witness:
  "let s1 = fst (take_wake (Handle []) 5 one_token) in
     pu_store (push_delivered \<lparr>dl_handle = Handle [], dl_platform = ''ios'', dl_token = ''tok'', dl_generation = 1\<rparr>
       TokenGone (push_new\<lparr>pu_store := store_register (Handle []) ''ios'' ''new'' s1\<rparr>)) =
     store_register (Handle []) ''ios'' ''new'' s1"
proof -
  let ?p = "push_new\<lparr>pu_store := one_token\<rparr>"
  have ok: "store_ok (pu_store ?p)" by (simp add: one_token_def store_ok_register)
  have w: "take_wake (Handle []) 5 (pu_store ?p) = (fst (take_wake (Handle []) 5 one_token), Some (''ios'', ''tok'', 1))"
    by (simp add: one_token_def store_register_def store_default_def take_wake_def Let_def CAPACITY_def)
  show ?thesis
    using stale_refusal_keeps_registration [OF ok w, of TokenGone "''ios''" "''new''"]
    unfolding Let_def push.update_convs by simp
qed

end
