(* ===== verification/Relay_Pump.thy ===== *)
theory Relay_Pump
  imports Push_Store
begin

text \<open>
  \<open>herdr-relay-hub/src/heartbeat.rs\<close>, \<open>relay.rs\<close>, \<open>routes/registration.rs\<close>,
  \<open>routes/connection.rs\<close> and the request checks of \<open>routes.rs\<close>: the life of one
  connection. A step takes the instant it runs at, the item its \<open>select!\<close> woke up for and
  whether a send succeeded within its timeout; it returns what is written to the socket.
  JSON encoding and decoding and the parsing of an IP address are arguments.
\<close>

section \<open>Heartbeat\<close>

definition PING_INTERVAL :: duration where "PING_INTERVAL = secs 30"
definition PONG_TIMEOUT :: duration where "PONG_TIMEOUT = secs 10"
definition SEND_TIMEOUT :: duration where "SEND_TIMEOUT = secs 10"

datatype heartbeat_event = PingDue | PongOverdue

record heartbeat =
  hb_next_tick :: instant
  hb_awaiting :: "instant option"

definition heartbeat_new :: "instant \<Rightarrow> heartbeat" where
  "heartbeat_new now = \<lparr>hb_next_tick = now + PING_INTERVAL, hb_awaiting = None\<rparr>"

text \<open>\<open>Heartbeat::wait\<close> resolving at \<open>now\<close>: either branch of the \<open>select!\<close> whose deadline has come.
  A tick is rescheduled one interval after the instant it was taken (\<open>MissedTickBehavior::Delay\<close>).\<close>

inductive hb_wait :: "heartbeat \<Rightarrow> instant \<Rightarrow> heartbeat_event \<Rightarrow> heartbeat \<Rightarrow> bool" where
  hb_overdue: "hb_awaiting hb = Some since \<Longrightarrow> since + PONG_TIMEOUT \<le> now \<Longrightarrow> hb_wait hb now PongOverdue hb"
| hb_ping: "hb_next_tick hb \<le> now \<Longrightarrow> hb_wait hb now PingDue (hb\<lparr>hb_next_tick := now + PING_INTERVAL\<rparr>)"

inductive_cases hb_waitE: "hb_wait hb now e hb'"

inductive_simps hb_wait_overdue: "hb_wait hb now PongOverdue hb'"
inductive_simps hb_wait_ping: "hb_wait hb now PingDue hb'"

definition note_ping_sent :: "instant \<Rightarrow> heartbeat \<Rightarrow> heartbeat" where
  "note_ping_sent now hb = hb\<lparr>hb_awaiting := Some now\<rparr>"

definition note_pong :: "heartbeat \<Rightarrow> heartbeat" where
  "note_pong hb = hb\<lparr>hb_awaiting := None\<rparr>"

section \<open>The shared state\<close>

record app =
  ap_hub :: hub
  ap_metrics :: metrics
  ap_push :: push
  ap_conn_limiter :: ip_rate_limiter
  ap_handle_limiter :: ip_rate_limiter
  ap_config :: hub_config

definition app_new :: "hub_config \<Rightarrow> app" where
  "app_new config =
     \<lparr>ap_hub = hub_new, ap_metrics = metrics_new, ap_push = push_new,
      ap_conn_limiter = ip_limiter_new (hc_connection_rate config),
      ap_handle_limiter = ip_limiter_new (hc_handle_rate config), ap_config = config\<rparr>"

definition MAX_FRAME_BYTES :: nat where "MAX_FRAME_BYTES = 1048576"
definition SUBPROTOCOL :: string where "SUBPROTOCOL = ''herdr-relay.v1''"

section \<open>Request checks\<close>

text \<open>Headers in order, names in lower case, with the value when it is visible ASCII.\<close>

type_synonym headers = "(string \<times> string option) list"

definition header_get :: "headers \<Rightarrow> string \<Rightarrow> string option" where
  "header_get hs name = Option.bind (map_of hs name) id"

definition client_ip :: "(string \<Rightarrow> ip_addr option) \<Rightarrow> headers \<Rightarrow> ip_addr \<Rightarrow> ip_addr" where
  "client_ip parse_ip hs peer =
     (case find_map (\<lambda>name. Option.bind (header_get hs name)
              (\<lambda>value. parse_ip (trim (hd (split_on CHR '','' value)))))
            [''cf-connecting-ip'', ''x-forwarded-for''] of
        Some ip \<Rightarrow> ip
      | None \<Rightarrow> peer)"

definition requests_subprotocol :: "headers \<Rightarrow> bool" where
  "requests_subprotocol hs =
     list_ex (\<lambda>(name, value). name = ''sec-websocket-protocol'' \<and>
       (case value of None \<Rightarrow> False
        | Some v \<Rightarrow> list_ex (\<lambda>p. trim p = SUBPROTOCOL) (split_on CHR '','' v))) hs"

section \<open>Registration frames\<close>

record register_frame =
  rf_kind :: string
  rf_protocol :: nat
  rf_pairing :: bool

definition expected_type :: "role \<Rightarrow> string" where
  "expected_type r = (case r of Host \<Rightarrow> ''host_register'' | Device \<Rightarrow> ''device_register'')"

text \<open>\<open>wait_for_registration\<close>: \<open>item\<close> is the first socket message, \<open>None\<close> when none came in time.\<close>

definition wait_for_registration ::
  "(string \<Rightarrow> register_frame option) \<Rightarrow> message option \<Rightarrow> role \<Rightarrow> bool option" where
  "wait_for_registration decode item role =
     (case item of
        Some (Text text) \<Rightarrow>
          if MAX_FRAME_BYTES < length text then None
          else (case decode text of
            None \<Rightarrow> None
          | Some frame \<Rightarrow>
              if rf_kind frame = expected_type role \<and> rf_protocol frame = 1 then Some (rf_pairing frame) else None)
      | _ \<Rightarrow> None)"

definition role_name :: "role \<Rightarrow> string" where
  "role_name r = (case r of Host \<Rightarrow> ''host'' | Device \<Rightarrow> ''device'')"

text \<open>Both frames are objects of string fields; \<open>obj\<close> is \<open>serde_json::to_string\<close> of such an object.\<close>

definition session_joined_frame :: "((string \<times> string) list \<Rightarrow> string) \<Rightarrow> role \<Rightarrow> string" where
  "session_joined_frame obj r = obj [(''type'', ''session_joined''), (''role'', role_name r)]"

definition error_frame :: "((string \<times> string) list \<Rightarrow> string) \<Rightarrow> string \<Rightarrow> string \<Rightarrow> string" where
  "error_frame obj code msg = obj [(''type'', ''error''), (''code'', code), (''message'', msg)]"

definition handle_first_6 :: "(8 word list \<Rightarrow> string) \<Rightarrow> handle \<Rightarrow> string" where
  "handle_first_6 enc h = concat (take 6 (chars (handle_encode enc h)))"

section \<open>Opening a connection\<close>

text \<open>\<open>close_with_error\<close>: the two frames written and the counter.\<close>

definition error_and_close ::
  "((string \<times> string) list \<Rightarrow> string) \<Rightarrow> close_code \<Rightarrow> string \<Rightarrow> string \<Rightarrow> message list" where
  "error_and_close obj code name msg =
     [Text (error_frame obj name msg), Close (Some (close_code_code code, msg))]"

definition close_with_error ::
  "((string \<times> string) list \<Rightarrow> string) \<Rightarrow> close_code \<Rightarrow> string \<Rightarrow> string \<Rightarrow> app \<Rightarrow> app \<times> message list" where
  "close_with_error obj code name msg a =
     (a\<lparr>ap_metrics := record_error code (ap_metrics a)\<rparr>, error_and_close obj code name msg)"

definition count_rejected :: "reject_reason option \<Rightarrow> app \<Rightarrow> app" where
  "count_rejected reason a =
     (case reason of Some r \<Rightarrow> a\<lparr>ap_metrics := record_rejected r (ap_metrics a)\<rparr> | None \<Rightarrow> a)"

fun describe_register_error ::
  "register_error \<Rightarrow> close_code \<times> string \<times> string \<times> reject_reason option" where
  "describe_register_error RE_HandleTaken =
     (HandleTaken, ''handle_taken'', ''A Host is already registered under this handle'', Some RR_HandleTaken)"
| "describe_register_error RE_HostInUse =
     (HostInUse, ''host_in_use'', ''A Device is already active on this Host'', Some RR_HostInUse)"
| "describe_register_error RE_HandleUnknown =
     (HandleUnknown, ''handle_unknown'', ''No Host is registered under this handle'', None)"
| "describe_register_error RE_PairingExpired =
     (PairingExpired, ''pairing_expired'', ''The pairing window has expired'', None)"
| "describe_register_error RE_HandleRateLimited =
     (RateLimited, ''rate_limited'', ''handle registration rate limit exceeded'', Some RR_RateLimited)"
| "describe_register_error RE_TooManyHandles =
     (RateLimited, ''rate_limited'', ''handle registration rate limit exceeded'', Some RR_RateLimited)"

text \<open>\<open>drive_connection\<close> up to the byte pump: the new state, the frames written, and the sender of the
  joined connection.\<close>

definition drive_connection ::
  "((string \<times> string) list \<Rightarrow> string) \<Rightarrow> (string \<Rightarrow> register_frame option) \<Rightarrow> ip_addr \<Rightarrow> bool \<Rightarrow>
     (handle, handle_error) result \<Rightarrow> role \<Rightarrow> instant \<Rightarrow> message option \<Rightarrow> instant \<Rightarrow> app \<Rightarrow>
     app \<times> message list \<times> outbound_tx option" where
  "drive_connection obj decode ip protocol_ok raw_handle role now item now' a =
     (case ip_allow (ap_conn_limiter a) ip now of (lim, allowed) \<Rightarrow>
      let a1 = a\<lparr>ap_conn_limiter := lim\<rparr> in
      if \<not> allowed then
        case close_with_error obj RateLimited ''rate_limited'' ''connection rate limit exceeded'' a1 of
          (a2, out) \<Rightarrow> (count_rejected (Some RR_RateLimited) a2, out, None)
      else if \<not> protocol_ok then
        case close_with_error obj ProtocolError ''protocol_error'' ''missing or unsupported subprotocol'' a1 of
          (a2, out) \<Rightarrow> (a2, out, None)
      else case raw_handle of
        Err _ \<Rightarrow>
          (case close_with_error obj ProtocolError ''protocol_error'' ''malformed routing handle'' a1 of
            (a2, out) \<Rightarrow> (count_rejected (Some RR_HandleMalformed) a2, out, None))
      | Ok rh \<Rightarrow>
          case wait_for_registration decode item role of
            None \<Rightarrow>
              (case close_with_error obj ProtocolError ''protocol_error''
                      ''missing or malformed registration frame'' a1 of
                (a2, out) \<Rightarrow> (a2, out, None))
          | Some pairing \<Rightarrow>
              case register (ap_hub a1) (ap_handle_limiter a1) rh role ip (hc_max_handles (ap_config a1))
                     pairing now' of
                (h, lim', Err e) \<Rightarrow>
                  (case describe_register_error e of (code, name, msg, reason) \<Rightarrow>
                   case close_with_error obj code name msg (a1\<lparr>ap_hub := h, ap_handle_limiter := lim'\<rparr>) of
                     (a2, out) \<Rightarrow> (count_rejected reason a2, out, None))
              | (h, lim', Ok (tx, is_new)) \<Rightarrow>
                  let a2 = a1\<lparr>ap_hub := h, ap_handle_limiter := lim'\<rparr>;
                      a3 = (if is_new then a2\<lparr>ap_metrics := record_handle_created (ap_metrics a2)\<rparr> else a2)
                  in (a3, [Text (session_joined_frame obj role)], Some tx))"

section \<open>The byte pump\<close>

record peer =
  pp_handle :: handle
  pp_role :: role
  pp_tx :: outbound_tx
  pp_heartbeat :: heartbeat
  pp_limiter :: frame_rate_limiter
  pp_frames_forwarded :: nat
  pp_bytes_forwarded :: nat
  pp_started :: instant
  pp_close :: "close_frame option"

definition peer_new :: "app \<Rightarrow> handle \<Rightarrow> role \<Rightarrow> outbound_tx \<Rightarrow> instant \<Rightarrow> peer" where
  "peer_new a rh role tx now =
     \<lparr>pp_handle = rh, pp_role = role, pp_tx = tx, pp_heartbeat = heartbeat_new now,
      pp_limiter = frame_limiter_new (hc_frame_rate (ap_config a)) now,
      pp_frames_forwarded = 0, pp_bytes_forwarded = 0, pp_started = now, pp_close = None\<rparr>"

text \<open>What the \<open>select!\<close> of the loop yields.\<close>

datatype pump_item =
    Frame message
  | StreamEnd
  | Outgoing message
  | Heart heartbeat_event

text \<open>\<open>forward\<close>: \<open>None\<close> while the send waits for space in the peer's queue.\<close>

definition forward :: "hub \<Rightarrow> handle \<Rightarrow> role \<Rightarrow> 8 word list \<Rightarrow> hub option" where
  "forward h rh role bytes =
     (case peer_of h rh role of
        None \<Rightarrow> Some h
      | Some peer_tx \<Rightarrow>
          if is_closed h peer_tx then Some h
          else case map_of (hub_chans h) peer_tx of
            Some c \<Rightarrow>
              if length (ch_queue c) < OUTBOUND_QUEUE_DEPTH then Some (try_send h peer_tx (Binary bytes)) else None
          | None \<Rightarrow> Some h)"

definition refuse ::
  "close_code \<Rightarrow> string \<Rightarrow> app \<Rightarrow> peer \<Rightarrow> (app \<times> peer \<times> message list \<times> bool) option" where
  "refuse code reason a p =
     Some (a\<lparr>ap_metrics := record_error code (ap_metrics a)\<rparr>, p,
           [Close (Some (close_code_code code, reason))], False)"

text \<open>One iteration of \<open>run_peer\<close>: the state, the connection, what is written, and whether the loop
  goes on.\<close>

definition pump_step ::
  "((string \<times> string) list \<Rightarrow> string) \<Rightarrow> (string \<Rightarrow> relay_message option) \<Rightarrow> bool \<Rightarrow> (string \<Rightarrow> bool) \<Rightarrow>
     instant \<Rightarrow> bool \<Rightarrow> pump_item \<Rightarrow> app \<Rightarrow> peer \<Rightarrow> (app \<times> peer \<times> message list \<times> bool) option" where
  "pump_step obj decode enabled supports now send_ok item a p =
     (case item of
        Frame (Binary bytes) \<Rightarrow>
          if MAX_FRAME_BYTES < length bytes then refuse FrameTooLarge ''frame exceeds the 1 MiB limit'' a p
          else (case frame_allow (pp_limiter p) now of (lim, ok) \<Rightarrow>
            if \<not> ok then refuse RateLimited ''frame rate limit exceeded'' a (p\<lparr>pp_limiter := lim\<rparr>)
            else map_option (\<lambda>h.
                (a\<lparr>ap_hub := h, ap_metrics := record_forward (pp_role p) (length bytes) (ap_metrics a)\<rparr>,
                 p\<lparr>pp_limiter := lim, pp_frames_forwarded := pp_frames_forwarded p + 1,
                   pp_bytes_forwarded := pp_bytes_forwarded p + length bytes\<rparr>, [], True))
              (forward (ap_hub a) (pp_handle p) (pp_role p) bytes))
      | Frame Pong \<Rightarrow> Some (a, p\<lparr>pp_heartbeat := note_pong (pp_heartbeat p)\<rparr>, [], True)
      | Frame (Text text) \<Rightarrow>
          if MAX_FRAME_BYTES < length text then refuse FrameTooLarge ''frame exceeds 1 MiB limit'' a p
          else (case frame_allow (pp_limiter p) now of (lim, ok) \<Rightarrow>
            let p1 = p\<lparr>pp_limiter := lim\<rparr> in
            if \<not> ok then refuse RateLimited ''frame rate limit exceeded'' a p1
            else case push_receive decode enabled supports text (pp_handle p) (pp_role p) (ap_hub a) now (ap_push a) of
              Some pu \<Rightarrow> Some (a\<lparr>ap_push := pu\<rparr>, p1, [], True)
            | None \<Rightarrow> Some (a, p1, [Text (error_frame obj ''invalid_frame'' ''invalid push frame'')], send_ok))
      | Frame Ping \<Rightarrow> Some (a, p, [], True)
      | Frame (Close frame) \<Rightarrow> Some (a, p\<lparr>pp_close := frame\<rparr>, [], False)
      | StreamEnd \<Rightarrow> Some (a, p, [], False)
      | Outgoing m \<Rightarrow> Some (a, p, [m], send_ok)
      | Heart PingDue \<Rightarrow>
          Some (a, if send_ok then p\<lparr>pp_heartbeat := note_ping_sent now (pp_heartbeat p)\<rparr> else p, [Ping], send_ok)
      | Heart PongOverdue \<Rightarrow> Some (a, p, [], False))"

text \<open>After the loop: the receiver is dropped first, then the duration is recorded and the room torn down.\<close>

definition pump_exit :: "instant \<Rightarrow> app \<Rightarrow> peer \<Rightarrow> app" where
  "pump_exit now a p =
     (let duration_ms = (now - pp_started p) div ms 1;
          h1 = drop_receiver (ap_hub a) (pp_tx p);
          h2 = disconnect h1 (pp_handle p) (pp_role p) (pp_tx p) (pp_close p)
      in a\<lparr>ap_hub := h2, ap_metrics := record_session_duration (of_nat duration_ms) (ap_metrics a)\<rparr>)"

section \<open>The loop as a relation\<close>

text \<open>One iteration at instant \<open>t\<close>, finished at \<open>now\<close>: a send is bounded by \<open>SEND_TIMEOUT\<close>. An outgoing
  message comes from the connection's own queue, a heartbeat event from its heartbeat.\<close>

inductive peer_step ::
  "((string \<times> string) list \<Rightarrow> string) \<Rightarrow> (string \<Rightarrow> relay_message option) \<Rightarrow> bool \<Rightarrow> (string \<Rightarrow> bool) \<Rightarrow>
     app \<times> peer \<Rightarrow> app \<times> peer \<Rightarrow> bool"
  for obj decode enabled supports where
  peer_frame:
    "pump_step obj decode enabled supports now ok (Frame m) a p = Some (a', p', out, True) \<Longrightarrow>
       peer_step obj decode enabled supports (a, p) (a', p')"
| peer_outgoing:
    "recv (ap_hub a) (pp_tx p) = Some (h, m) \<Longrightarrow>
       pump_step obj decode enabled supports now ok (Outgoing m) (a\<lparr>ap_hub := h\<rparr>) p = Some (a', p', out, True) \<Longrightarrow>
       peer_step obj decode enabled supports (a, p) (a', p')"
| peer_heart:
    "hb_wait (pp_heartbeat p) t e hb \<Longrightarrow> t \<le> now \<Longrightarrow> now \<le> t + SEND_TIMEOUT \<Longrightarrow>
       pump_step obj decode enabled supports now ok (Heart e) a (p\<lparr>pp_heartbeat := hb\<rparr>) = Some (a', p', out, True) \<Longrightarrow>
       peer_step obj decode enabled supports (a, p) (a', p')"

inductive peer_reach ::
  "((string \<times> string) list \<Rightarrow> string) \<Rightarrow> (string \<Rightarrow> relay_message option) \<Rightarrow> bool \<Rightarrow> (string \<Rightarrow> bool) \<Rightarrow>
     app \<times> peer \<Rightarrow> app \<times> peer \<Rightarrow> bool"
  for obj decode enabled supports s where
  pr_refl: "peer_reach obj decode enabled supports s s"
| pr_step: "peer_reach obj decode enabled supports s s1 \<Longrightarrow> peer_step obj decode enabled supports s1 s2 \<Longrightarrow>
     peer_reach obj decode enabled supports s s2"

definition hb_ok :: "heartbeat \<Rightarrow> bool" where
  "hb_ok hb \<longleftrightarrow> (\<forall>since. hb_awaiting hb = Some since \<longrightarrow> since + PONG_TIMEOUT < hb_next_tick hb)"

lemma hb_ok_new [simp]: "hb_ok (heartbeat_new now)"
  by (simp add: hb_ok_def heartbeat_new_def)

lemma hb_ok_pong [simp]: "hb_ok (note_pong hb)"
  by (simp add: hb_ok_def note_pong_def)

lemma hb_ok_ping:
  assumes "hb_wait hb t PingDue hb'" "t \<le> now" "now \<le> t + SEND_TIMEOUT"
  shows "hb_ok (note_ping_sent now hb')"
proof -
  have "PONG_TIMEOUT + SEND_TIMEOUT < PING_INTERVAL"
    by (simp add: PONG_TIMEOUT_def SEND_TIMEOUT_def PING_INTERVAL_def secs_def)
  with assms show ?thesis
    by (auto simp: hb_wait_ping hb_ok_def note_ping_sent_def)
qed

lemma hb_ok_peer_step:
  assumes "peer_step obj decode enabled supports s s'" "hb_ok (pp_heartbeat (snd s))"
  shows "hb_ok (pp_heartbeat (snd s'))"
  using assms
proof (cases rule: peer_step.cases)
  case (peer_frame now ok m a p a' p' out)
  then show ?thesis using assms(2)
    by (cases m) (auto simp: pump_step_def refuse_def Let_def split: if_splits prod.splits option.splits)
next
  case (peer_outgoing a p h m now ok a' p' out)
  then show ?thesis using assms(2) by (auto simp: pump_step_def)
next
  case (peer_heart p t e hb now a a' p' out)
  then show ?thesis
    using hb_ok_ping [of "pp_heartbeat p" t hb now] by (cases e) (auto simp: pump_step_def split: if_splits)
qed

lemma hb_ok_reach:
  "peer_reach obj decode enabled supports s s' \<Longrightarrow> hb_ok (pp_heartbeat (snd s)) \<Longrightarrow>
     hb_ok (pp_heartbeat (snd s'))"
  by (induction rule: peer_reach.induct) (auto dest: hb_ok_peer_step)

definition refused_out :: "((string \<times> string) list \<Rightarrow> string) \<Rightarrow> message list \<Rightarrow> bool" where
  "refused_out obj out \<longleftrightarrow> (\<exists>code name msg. close_code_name code = Some name
     \<and> out = [Text (error_frame obj name msg), Close (Some (close_code_code code, msg))])"

lemma refused_outI: "close_code_name code = Some name \<Longrightarrow> refused_out obj (error_and_close obj code name msg)"
  by (auto simp: refused_out_def error_and_close_def)

lemma describe_named: "describe_register_error e = (code, name, msg, reason) \<Longrightarrow> close_code_name code = Some name"
  by (cases e) auto

section \<open>Properties\<close>

text \<open>A peer that stops answering is dropped in time: in every state of a connection's loop in which
  a pong is outstanding, the pong deadline of ten seconds after the ping comes before the next ping is
  due, so the heartbeat resolves to \<open>PongOverdue\<close> at that deadline and to nothing else.\<close>

theorem pong_deadline_first:
  assumes "peer_reach obj decode enabled supports (a, peer_new a0 rh role tx start) (a', p)"
    and "hb_awaiting (pp_heartbeat p) = Some since"
  shows "since + secs 10 < hb_next_tick (pp_heartbeat p)
    \<and> hb_wait (pp_heartbeat p) (since + secs 10) PongOverdue (pp_heartbeat p)
    \<and> (\<forall>e hb'. hb_wait (pp_heartbeat p) (since + secs 10) e hb' \<longrightarrow> e = PongOverdue)"
proof -
  have "hb_ok (pp_heartbeat p)"
    using hb_ok_reach [OF assms(1)] by (simp add: peer_new_def)
  with assms(2) have lt: "since + secs 10 < hb_next_tick (pp_heartbeat p)"
    by (simp add: hb_ok_def PONG_TIMEOUT_def)
  then show ?thesis
    using assms(2) by (auto simp: PONG_TIMEOUT_def elim: hb_waitE intro: hb_overdue)
qed

theorem pong_deadline_first_witness:
  "let p = peer_new (app_new (config_from_env (\<lambda>_. None))) (Handle []) Host 0 0;
       hb = \<lparr>hb_next_tick = secs 60, hb_awaiting = Some (secs 31)\<rparr>
   in hb_wait hb (secs 31 + secs 10) PongOverdue hb"
proof -
  let ?a = "app_new (config_from_env (\<lambda>_. None))"
  let ?p = "peer_new ?a (Handle []) Host 0 0"
  let ?hb = "\<lparr>hb_next_tick = secs 30 + PING_INTERVAL, hb_awaiting = None\<rparr>"
  let ?p' = "(?p\<lparr>pp_heartbeat := ?hb\<rparr>)\<lparr>pp_heartbeat := note_ping_sent (secs 31) ?hb\<rparr>"
  have "hb_wait (pp_heartbeat ?p) (secs 30) PingDue ?hb"
    by (simp add: hb_wait_ping peer_new_def heartbeat_new_def PING_INTERVAL_def)
  then have "peer_step (\<lambda>_. []) (\<lambda>_. None) False (\<lambda>_. False) (?a, ?p) (?a, ?p')"
    by (rule peer_heart [of _ _ _ _ "secs 31" _ _ _ _ True])
       (simp_all add: pump_step_def SEND_TIMEOUT_def secs_def)
  then have r: "peer_reach (\<lambda>_. []) (\<lambda>_. None) False (\<lambda>_. False) (?a, ?p) (?a, ?p')"
    by (rule pr_step [OF pr_refl])
  from pong_deadline_first [OF r, of "secs 31"] show ?thesis
    by (simp add: note_ping_sent_def Let_def PING_INTERVAL_def secs_def)
qed

text \<open>The relay forwards bytes verbatim and to nobody else: when the pump accepts a binary frame, no
  room changes, nothing is written back, and the only channel that can change is the partner's, which
  receives exactly that frame at the end of its queue; without an open partner the frame is dropped.
  The counters grow by one frame and its length.\<close>

theorem binary_forwarded_verbatim:
  assumes "pump_step obj decode enabled supports now ok (Frame (Binary bytes)) a p = Some (a', p', out, True)"
  shows "length bytes \<le> 1048576 \<and> out = [] \<and> hub_rooms (ap_hub a') = hub_rooms (ap_hub a)
    \<and> (\<forall>tx. peer_of (ap_hub a) (pp_handle p) (pp_role p) \<noteq> Some tx \<longrightarrow>
         map_of (hub_chans (ap_hub a')) tx = map_of (hub_chans (ap_hub a)) tx)
    \<and> (\<forall>tx c. peer_of (ap_hub a) (pp_handle p) (pp_role p) = Some tx \<longrightarrow>
         map_of (hub_chans (ap_hub a)) tx = Some c \<longrightarrow>
         map_of (hub_chans (ap_hub a')) tx = Some (if ch_open c then c\<lparr>ch_queue := ch_queue c @ [Binary bytes]\<rparr> else c))
    \<and> pp_frames_forwarded p' = pp_frames_forwarded p + 1
    \<and> pp_bytes_forwarded p' = pp_bytes_forwarded p + length bytes"
proof -
  obtain h where f: "forward (ap_hub a) (pp_handle p) (pp_role p) bytes = Some h"
    and h: "ap_hub a' = h" "out = []" "length bytes \<le> 1048576"
      "pp_frames_forwarded p' = pp_frames_forwarded p + 1"
      "pp_bytes_forwarded p' = pp_bytes_forwarded p + length bytes"
    using assms by (auto simp: pump_step_def refuse_def MAX_FRAME_BYTES_def split: if_splits prod.splits)
  show ?thesis
  proof (cases "peer_of (ap_hub a) (pp_handle p) (pp_role p)")
    case None
    then show ?thesis using f h by (auto simp: forward_def)
  next
    case (Some tx)
    show ?thesis
    proof (cases "map_of (hub_chans (ap_hub a)) tx")
      case None
      then show ?thesis using f h Some by (auto simp: forward_def is_closed_def)
    next
      case (Some c)
      have "\<not> ch_open c \<and> h = ap_hub a \<or> ch_open c \<and> length (ch_queue c) < OUTBOUND_QUEUE_DEPTH
          \<and> h = try_send (ap_hub a) tx (Binary bytes)"
        using f Some \<open>peer_of _ _ _ = Some tx\<close> by (auto simp: forward_def is_closed_def split: if_splits)
      then show ?thesis
        unfolding h(1) using h(2-) Some \<open>peer_of _ _ _ = Some tx\<close> by (auto simp: try_send_queue)
    qed
  qed
qed

definition linked_app :: app where
  "linked_app = (app_new (config_from_env (\<lambda>_. None)))\<lparr>ap_hub := two_peers\<rparr>"

theorem binary_forwarded_verbatim_witness:
  "map_of (hub_chans (the (forward two_peers (Handle []) Host [1, 2]))) 1 =
     Some \<lparr>ch_queue = [Binary [1, 2]], ch_open = True\<rparr>"
proof -
  let ?p = "peer_new linked_app (Handle []) Host 0 0"
  obtain h where f: "forward two_peers (Handle []) Host [1, 2] = Some h"
    using two_peers_facts(2,3) by (simp add: forward_def is_closed_def OUTBOUND_QUEUE_DEPTH_def)
  have sel: "ap_hub linked_app = two_peers" "pp_handle ?p = Handle []" "pp_role ?p = Host"
    by (simp_all add: linked_app_def peer_new_def)
  have "snd (frame_allow (pp_limiter ?p) 5)"
    by (simp add: linked_app_def app_new_def peer_new_def frame_limiter_new_def frame_allow_def
        config_defaults Let_def)
  then obtain lim where fa: "frame_allow (pp_limiter ?p) 5 = (lim, True)" by (metis prod.collapse)
  have "\<exists>a' p'. pump_step (\<lambda>_. []) (\<lambda>_. None) False (\<lambda>_. False) 5 True (Frame (Binary [1, 2])) linked_app ?p =
      Some (a', p', [], True) \<and> ap_hub a' = h"
    using f fa sel by (simp add: pump_step_def MAX_FRAME_BYTES_def)
  then obtain a' p' where st: "pump_step (\<lambda>_. []) (\<lambda>_. None) False (\<lambda>_. False) 5 True
      (Frame (Binary [1, 2])) linked_app ?p = Some (a', p', [], True)" and "ap_hub a' = h"
    by blast
  from binary_forwarded_verbatim [OF st] \<open>ap_hub a' = h\<close> two_peers_facts(2,3) f show ?thesis
    by (simp add: sel)
qed

text \<open>Opening a connection has two outcomes. A refusal writes exactly an error frame and a close
  frame, whose numeric code and whose name belong to one close code, and leaves no new room behind for
  the sender; a success writes exactly \<open>session_joined\<close>, and the returned sender owns the slot of its
  role in the room of its handle.\<close>

theorem drive_connection_outcome:
  assumes "drive_connection obj decode ip protocol_ok raw role now item now' a = (a', out, tx)"
  shows "(tx = None \<and> (\<exists>code name msg. close_code_name code = Some name
            \<and> out = [Text (error_frame obj name msg), Close (Some (close_code_code code, msg))]))
       \<or> (\<exists>t rh. tx = Some t \<and> raw = Ok rh \<and> protocol_ok \<and> out = [Text (session_joined_frame obj role)]
            \<and> owns_slot (ap_hub a') rh role t)"
proof (cases tx)
  case None
  then have "refused_out obj out"
    using assms
    by (auto simp: drive_connection_def close_with_error_def refused_outI describe_named Let_def
        split: prod.splits if_splits sum.splits option.splits)
  then have "\<exists>code name msg. close_code_name code = Some name
            \<and> out = [Text (error_frame obj name msg), Close (Some (close_code_code code, msg))]"
    by (simp add: refused_out_def)
  with None show ?thesis by blast
next
  case (Some t)
  then obtain rh h lim lim' pairing n b where "raw = Ok rh" "protocol_ok" "out = [Text (session_joined_frame obj role)]"
    and r: "register (ap_hub a) lim rh role ip n pairing now' = (h, lim', Ok (t, b))" and h: "ap_hub a' = h"
    using assms
    by (auto simp: drive_connection_def close_with_error_def Let_def
        split: prod.splits if_splits sum.splits option.splits)
  have "owns_slot h rh role t"
    using r by (cases role)
      (auto simp: register_def register_host_def register_device_def new_channel_def owns_slot_def slot_of_def
        room_new_def Let_def split: prod.splits if_splits option.splits)
  with \<open>raw = Ok rh\<close> \<open>protocol_ok\<close> \<open>out = _\<close> h Some show ?thesis by blast
qed

theorem drive_connection_outcome_witness:
  "let r = drive_connection (\<lambda>_. ''x'') (\<lambda>_. None) (V4 0) False (Ok (Handle [])) Host 0 None 0
             (app_new (config_from_env (\<lambda>_. None)))
   in snd (snd r) = None \<and> length (fst (snd r)) = 2"
proof -
  let ?r = "drive_connection (\<lambda>_. ''x'') (\<lambda>_. None) (V4 0) False (Ok (Handle [])) Host 0 None 0
             (app_new (config_from_env (\<lambda>_. None)))"
  have "?r = (fst ?r, fst (snd ?r), snd (snd ?r))" by simp
  from drive_connection_outcome [OF this] show ?thesis by (auto simp: Let_def)
qed

end
