(* ===== verification/Host_Pairing.thy ===== *)
theory Host_Pairing
  imports Handle_Codec Phrase_Codec
begin

text \<open>
  \<open>herdr-relay/src/pairing.rs\<close> and \<open>pairing/wordlist.rs\<close>: the Host's pairing session and the
  word list. The random bytes of a handle, the random word indices, the QR encoder and the
  hash of the pre-shared key are arguments; so are the file system and the fetcher of the
  word list.
\<close>

section \<open>The word list\<close>

datatype wordlist_error =
    WL_Fetch
  | WL_NoFetcherAvailable
  | WL_NotUtf8
  | WL_ChecksumMismatch
  | WL_WrongEntryCount nat
  | WL_Cache
  | WL_Phrase phrase_error

definition generate_phrase :: "string list \<Rightarrow> nat list option \<Rightarrow> (phrase, wordlist_error) result" where
  "generate_phrase words rng =
     (case phrase_generate words rng of Ok p \<Rightarrow> Ok p | Err e \<Rightarrow> Err (WL_Phrase e))"

definition extract_words :: "string \<Rightarrow> (string list, wordlist_error) result" where
  "extract_words raw =
     (if \<not> valid_utf8 raw then Err WL_NotUtf8
      else let words = map to_ascii_lowercase
                 (filter (\<lambda>w. w \<noteq> []) (map (\<lambda>line. trim (last (split_on CHR 0x09 line))) (str_lines raw)))
           in if length words = EFF_WORDLIST_ENTRY_COUNT then Ok words
              else Err (WL_WrongEntryCount (length words)))"

definition verify_checksum :: "(string \<Rightarrow> string) \<Rightarrow> string \<Rightarrow> string \<Rightarrow> (unit, wordlist_error) result" where
  "verify_checksum hex_digest raw expected = (if hex_digest raw = expected then Ok () else Err WL_ChecksumMismatch)"

text \<open>
  The cache file: absent, present with its bytes, or unreadable. A write succeeds
  (\<open>None\<close>), or fails and leaves some file behind.
\<close>

datatype cache_file = CacheMissing | CacheBytes string | CacheUnreadable

definition write_cache :: "cache_file option \<Rightarrow> string \<Rightarrow> cache_file \<times> (unit, wordlist_error) result" where
  "write_cache failure bytes =
     (case failure of None \<Rightarrow> (CacheBytes bytes, Ok ()) | Some left \<Rightarrow> (left, Err WL_Cache))"

definition load_verified ::
  "(string \<Rightarrow> string) \<Rightarrow> string \<Rightarrow> (string, wordlist_error) result \<Rightarrow> cache_file option \<Rightarrow> cache_file \<Rightarrow>
     cache_file \<times> (string list, wordlist_error) result" where
  "load_verified hex_digest expected fetched failure c =
     (let finish = (\<lambda>raw. bind_result (verify_checksum hex_digest raw expected) (\<lambda>_. extract_words raw)) in
      case c of
        CacheBytes raw \<Rightarrow> (c, finish raw)
      | CacheMissing \<Rightarrow>
          (case fetched of
             Err e \<Rightarrow> (c, Err e)
           | Ok bytes \<Rightarrow>
               (case write_cache failure bytes of
                  (c', Err e) \<Rightarrow> (c', Err e)
                | (c', Ok _) \<Rightarrow> (c', finish bytes)))
      | CacheUnreadable \<Rightarrow> (c, Err WL_Cache))"

definition RAW_SOURCE_CHECKSUM_BLAKE2S256_HEX :: string where
  "RAW_SOURCE_CHECKSUM_BLAKE2S256_HEX = ''e246c56edf8a06d87d89fd37966576ee70302c19ce128dac5004a87a7990d060''"

definition load_with_fetch ::
  "(string \<Rightarrow> string) \<Rightarrow> (string, wordlist_error) result \<Rightarrow> cache_file option \<Rightarrow> cache_file \<Rightarrow>
     cache_file \<times> (string list, wordlist_error) result" where
  "load_with_fetch hex_digest = load_verified hex_digest RAW_SOURCE_CHECKSUM_BLAKE2S256_HEX"

text \<open>Several loads, one after the other, each with its own fetch and write.\<close>

fun load_all ::
  "(string \<Rightarrow> string) \<Rightarrow> string \<Rightarrow> ((string, wordlist_error) result \<times> cache_file option) list \<Rightarrow> cache_file \<Rightarrow>
     cache_file \<times> (string list, wordlist_error) result list" where
  "load_all hex_digest expected [] c = (c, [])"
| "load_all hex_digest expected ((fetched, failure) # rest) c =
     (let (c', r) = load_verified hex_digest expected fetched failure c;
          (c'', rs) = load_all hex_digest expected rest c' in (c'', r # rs))"

lemma load_all_cached:
  "load_verified hex_digest expected fetched failure (CacheBytes raw) =
     (CacheBytes raw, bind_result (verify_checksum hex_digest raw expected) (\<lambda>_. extract_words raw))"
  "load_all hex_digest expected loads (CacheBytes raw) =
     (CacheBytes raw, replicate (length loads) (bind_result (verify_checksum hex_digest raw expected) (\<lambda>_. extract_words raw)))"
  by (induction loads) (auto simp: load_verified_def)

text \<open>\<open>run_fetch_command\<close>: \<open>None\<close> when the binary does not exist.\<close>

datatype command_outcome = CommandSucceeded string | CommandFailed | CommandNotFound

definition run_fetch_command :: "command_outcome \<Rightarrow> (string, wordlist_error) result option" where
  "run_fetch_command o' =
     (case o' of CommandSucceeded out \<Rightarrow> Some (Ok out) | CommandFailed \<Rightarrow> Some (Err WL_Fetch) | CommandNotFound \<Rightarrow> None)"

definition default_fetch :: "command_outcome \<Rightarrow> command_outcome \<Rightarrow> (string, wordlist_error) result" where
  "default_fetch curl wget =
     (case run_fetch_command curl of
        Some r \<Rightarrow> r
      | None \<Rightarrow> (case run_fetch_command wget of Some r \<Rightarrow> r | None \<Rightarrow> Err WL_NoFetcherAvailable))"

section \<open>The pairing session\<close>

definition PHRASE_LIFETIME :: duration where "PHRASE_LIFETIME = secs 600"
definition MAX_ATTEMPTS :: nat where "MAX_ATTEMPTS = 3"

datatype pairing_error =
    PairingWordlist wordlist_error
  | PairingHandle
  | PairingUriTooLong nat
  | PairingQr

text \<open>What the random source and the QR encoder give to one generation.\<close>

record 'q entropy =
  en_handle :: "handle option"
  en_words :: "nat list option"
  en_qr :: "string \<Rightarrow> 'q option"

record 'q live_phrase =
  lp_handle :: handle
  lp_phrase :: phrase
  lp_generated_at :: instant
  lp_failed_attempts :: nat
  lp_uri :: string
  lp_qr :: 'q

datatype 'q session_state = Live "'q live_phrase" | Expired | Spent | Enrolled

record 'q pairing_session =
  ps_relay_origin :: string
  ps_state :: "'q session_state"

definition qr_from_uri :: "(string \<Rightarrow> 'q option) \<Rightarrow> string \<Rightarrow> ('q, pairing_error) result" where
  "qr_from_uri qr uri =
     (if PAIRING_URI_MAX_LEN < length uri then Err (PairingUriTooLong (length uri))
      else ok_or PairingQr (qr uri))"

definition live_generate ::
  "(8 word list \<Rightarrow> string) \<Rightarrow> string \<Rightarrow> string list \<Rightarrow> 'q entropy \<Rightarrow> instant \<Rightarrow> ('q live_phrase, pairing_error) result" where
  "live_generate enc origin words en now =
     bind_result (ok_or PairingHandle (en_handle en)) (\<lambda>h.
     bind_result (case generate_phrase words (en_words en) of Ok p \<Rightarrow> Ok p | Err e \<Rightarrow> Err (PairingWordlist e)) (\<lambda>phrase.
       let uri = pairing_uri_build enc \<lparr>pu_relay_origin = origin, pu_handle = h, pu_phrase = ph_canonical phrase\<rparr> in
       if PAIRING_URI_MAX_LEN < length uri then Err (PairingUriTooLong (length uri))
       else bind_result (ok_or PairingQr (en_qr en uri)) (\<lambda>q.
         Ok \<lparr>lp_handle = h, lp_phrase = phrase, lp_generated_at = now, lp_failed_attempts = 0,
             lp_uri = uri, lp_qr = q\<rparr>)))"

definition session_new ::
  "(8 word list \<Rightarrow> string) \<Rightarrow> string \<Rightarrow> string list \<Rightarrow> 'q entropy \<Rightarrow> instant \<Rightarrow>
     ('q pairing_session, pairing_error) result" where
  "session_new enc origin words en now =
     bind_result (live_generate enc origin words en now) (\<lambda>l. Ok \<lparr>ps_relay_origin = origin, ps_state = Live l\<rparr>)"

definition apply_expiry :: "instant \<Rightarrow> 'q pairing_session \<Rightarrow> 'q pairing_session" where
  "apply_expiry now s =
     (case ps_state s of
        Live l \<Rightarrow> if PHRASE_LIFETIME < now - lp_generated_at l then s\<lparr>ps_state := Expired\<rparr> else s
      | _ \<Rightarrow> s)"

definition session_live :: "'q pairing_session \<Rightarrow> 'q live_phrase option" where
  "session_live s = (case ps_state s of Live l \<Rightarrow> Some l | _ \<Rightarrow> None)"

text \<open>Each accessor first applies the expiry and keeps the state it leaves.\<close>

definition access :: "('q live_phrase \<Rightarrow> 'a) \<Rightarrow> instant \<Rightarrow> 'q pairing_session \<Rightarrow> 'q pairing_session \<times> 'a option" where
  "access f now s = (let s1 = apply_expiry now s in (s1, map_option f (session_live s1)))"

definition is_live :: "instant \<Rightarrow> 'q pairing_session \<Rightarrow> 'q pairing_session \<times> bool" where
  "is_live now s = (let s1 = apply_expiry now s in (s1, session_live s1 \<noteq> None))"

definition is_spent :: "'q pairing_session \<Rightarrow> bool" where
  "is_spent s \<longleftrightarrow> (case ps_state s of Spent \<Rightarrow> True | _ \<Rightarrow> False)"

definition session_handle :: "instant \<Rightarrow> 'q pairing_session \<Rightarrow> 'q pairing_session \<times> handle option" where
  "session_handle = access lp_handle"

definition phrase_display :: "instant \<Rightarrow> 'q pairing_session \<Rightarrow> 'q pairing_session \<times> string option" where
  "phrase_display = access (\<lambda>l. display_form (lp_phrase l))"

definition phrase_canonical :: "instant \<Rightarrow> 'q pairing_session \<Rightarrow> 'q pairing_session \<times> string option" where
  "phrase_canonical = access (\<lambda>l. ph_canonical (lp_phrase l))"

definition session_pairing_uri :: "instant \<Rightarrow> 'q pairing_session \<Rightarrow> 'q pairing_session \<times> string option" where
  "session_pairing_uri = access lp_uri"

definition session_qr :: "instant \<Rightarrow> 'q pairing_session \<Rightarrow> 'q pairing_session \<times> 'q option" where
  "session_qr = access lp_qr"

definition psk_for :: "(string \<Rightarrow> 'k) \<Rightarrow> instant \<Rightarrow> 'q pairing_session \<Rightarrow> 'q pairing_session \<times> 'k option" where
  "psk_for psk_from_phrase = access (\<lambda>l. psk_from_phrase (ph_canonical (lp_phrase l)))"

definition record_failed_attempt :: "instant \<Rightarrow> 'q pairing_session \<Rightarrow> 'q pairing_session" where
  "record_failed_attempt now s =
     (let s1 = apply_expiry now s in
      case ps_state s1 of
        Live l \<Rightarrow>
          let l1 = l\<lparr>lp_failed_attempts := lp_failed_attempts l + 1\<rparr> in
          if MAX_ATTEMPTS \<le> lp_failed_attempts l1 then s1\<lparr>ps_state := Spent\<rparr> else s1\<lparr>ps_state := Live l1\<rparr>
      | _ \<Rightarrow> s1)"

definition record_enrolled :: "'q pairing_session \<Rightarrow> 'q pairing_session" where
  "record_enrolled s = s\<lparr>ps_state := Enrolled\<rparr>"

definition regenerate ::
  "(8 word list \<Rightarrow> string) \<Rightarrow> string list \<Rightarrow> 'q entropy \<Rightarrow> instant \<Rightarrow> 'q pairing_session \<Rightarrow>
     'q pairing_session \<times> (unit, pairing_error) result" where
  "regenerate enc words en now s =
     (case live_generate enc (ps_relay_origin s) words en now of
        Err e \<Rightarrow> (s, Err e)
      | Ok l \<Rightarrow> (s\<lparr>ps_state := Live l\<rparr>, Ok ()))"

section \<open>Sequences of operations\<close>

datatype 'q session_op =
    SO_Access instant
  | SO_Failed instant
  | SO_Enrolled
  | SO_Regenerate "string list" "'q entropy" instant

fun session_exec :: "(8 word list \<Rightarrow> string) \<Rightarrow> 'q session_op \<Rightarrow> 'q pairing_session \<Rightarrow> 'q pairing_session" where
  "session_exec enc (SO_Access now) s = apply_expiry now s"
| "session_exec enc (SO_Failed now) s = record_failed_attempt now s"
| "session_exec enc SO_Enrolled s = record_enrolled s"
| "session_exec enc (SO_Regenerate words en now) s = fst (regenerate enc words en now s)"

fun no_regenerate :: "'q session_op \<Rightarrow> bool" where
  "no_regenerate (SO_Regenerate _ _ _) = False"
| "no_regenerate _ = True"

fun is_failure :: "'q session_op \<Rightarrow> bool" where
  "is_failure (SO_Failed _) = True"
| "is_failure _ = False"

interpretation dead_phrase: preserved "session_exec enc" no_regenerate "\<lambda>s. session_live s = None" for enc
proof
  fix s :: "'q pairing_session" and op :: "'q session_op"
  assume "session_live s = None" "no_regenerate op"
  then show "session_live (session_exec enc op s) = None"
    by (cases op) (auto simp: session_live_def apply_expiry_def record_failed_attempt_def record_enrolled_def
        Let_def split: session_state.splits if_splits)
qed

text \<open>What is known of a live phrase generated at \<open>t\<close> after \<open>n\<close> failures.\<close>

definition live_since :: "instant \<Rightarrow> nat \<Rightarrow> 'q pairing_session \<Rightarrow> bool" where
  "live_since t n s \<longleftrightarrow>
     (\<forall>l. session_live s = Some l \<longrightarrow> lp_generated_at l = t \<and> lp_failed_attempts l = n \<and> n < MAX_ATTEMPTS)"

lemma live_since_exec:
  "live_since t n s \<Longrightarrow> no_regenerate op \<Longrightarrow>
     live_since t (if is_failure op then n + 1 else n) (session_exec enc op s)"
  by (cases op)
     (auto simp: live_since_def session_live_def apply_expiry_def record_failed_attempt_def record_enrolled_def
        Let_def split: session_state.splits if_splits)

lemma live_since_run:
  "live_since t n s \<Longrightarrow> list_all no_regenerate ops \<Longrightarrow>
     live_since t (n + length (filter is_failure ops)) (fold (session_exec enc) ops s)"
proof (induction ops arbitrary: n s)
  case (Cons op ops)
  then have "live_since t (if is_failure op then n + 1 else n) (session_exec enc op s)"
    by (intro live_since_exec) auto
  from Cons.IH [OF this] Cons.prems(2) show ?case by (auto split: if_splits)
qed simp

section \<open>Properties\<close>

text \<open>A phrase stops working for good: whatever accesses, failures and enrolments follow its
  generation, the pre-shared key is available at an instant only if at most 600 seconds have passed
  and fewer than three attempts have failed.\<close>

theorem psk_only_while_live:
  assumes "session_new enc origin words en t = Ok s" "list_all no_regenerate ops"
    and "psk_for h now (fold (session_exec enc) ops s) = (s', Some k)"
  shows "now - t \<le> secs 600 \<and> length (filter is_failure ops) < 3"
proof -
  have "live_since t 0 s"
    using assms(1) by (auto simp: session_new_def live_generate_def live_since_def session_live_def
        MAX_ATTEMPTS_def Let_def split: if_splits)
  from live_since_run [OF this assms(2), of enc]
  have r: "live_since t (length (filter is_failure ops)) (fold (session_exec enc) ops s)" by simp
  then show ?thesis using assms(3)
    by (auto simp: psk_for_def access_def apply_expiry_def live_since_def session_live_def MAX_ATTEMPTS_def
        PHRASE_LIFETIME_def Let_def split: session_state.splits if_splits)
qed

definition sample_entropy :: "unit entropy" where
  "sample_entropy = \<lparr>en_handle = Some (Handle (replicate 16 0)), en_words = Some (replicate 6 0), en_qr = (\<lambda>_. Some ())\<rparr>"

lemma sample_word_0: "sample_words ! 0 = ''remedy''"
proof -
  have "replicate 1296 xs = xs # replicate 1295 xs" for xs :: "string list"
    using replicate_Suc [of 1295 xs] by simp
  then show ?thesis by (simp add: sample_words_def)
qed

lemma sample_phrase:
  "generate_phrase sample_words (Some (replicate 6 0)) =
     Ok \<lparr>ph_canonical = join ''-'' (replicate 6 ''remedy''), ph_words = replicate 6 ''remedy''\<rparr>"
proof -
  have "length sample_words = EFF_WORDLIST_ENTRY_COUNT"
    using sample_words_ok by (simp add: dictionary_ok_def)
  then show ?thesis
    by (simp add: generate_phrase_def phrase_generate_def Let_def sample_word_0)
qed

definition sample_uri :: string where
  "sample_uri = ''herdr-remote://pair?v=1&r=https%3A%2F%2Fx&h=AAAAAAAAAAAAAAAAAAAAAA&p=remedy-remedy-remedy-remedy-remedy-remedy''"

lemma sample_uri_build:
  "pairing_uri_build (\<lambda>_. ''AAAAAAAAAAAAAAAAAAAAAA'') \<lparr>pu_relay_origin = ''https://x'',
     pu_handle = Handle (replicate 16 0), pu_phrase = join ''-'' (replicate 6 ''remedy'')\<rparr> = sample_uri"
  by code_simp

definition sample_pairing :: "unit pairing_session" where
  "sample_pairing = \<lparr>ps_relay_origin = ''https://x'', ps_state = Live
     \<lparr>lp_handle = Handle (replicate 16 0),
      lp_phrase = \<lparr>ph_canonical = join ''-'' (replicate 6 ''remedy''), ph_words = replicate 6 ''remedy''\<rparr>,
      lp_generated_at = 0, lp_failed_attempts = 0, lp_uri = sample_uri, lp_qr = ()\<rparr>\<rparr>"

lemma sample_session:
  "session_new (\<lambda>_. ''AAAAAAAAAAAAAAAAAAAAAA'') ''https://x'' sample_words sample_entropy 0 = Ok sample_pairing"
proof -
  have "length sample_uri \<le> PAIRING_URI_MAX_LEN" by (simp add: sample_uri_def PAIRING_URI_MAX_LEN_def)
  then show ?thesis
    by (simp add: session_new_def live_generate_def sample_entropy_def sample_phrase sample_uri_build
        sample_pairing_def)
qed

theorem psk_only_while_live_witness:
  "\<exists>s k. psk_for (\<lambda>p. length p) (secs 2) (fold (session_exec (\<lambda>_. ''AAAAAAAAAAAAAAAAAAAAAA''))
       [SO_Failed (secs 1), SO_Access (secs 2)] sample_pairing) = (s, Some k)
     \<and> secs 2 - 0 \<le> secs 600"
proof -
  let ?e = "\<lambda>_ :: 8 word list. ''AAAAAAAAAAAAAAAAAAAAAA''"
  let ?ops = "[SO_Failed (secs 1), SO_Access (secs 2)] :: unit session_op list"
  have k: "\<exists>s k. psk_for (\<lambda>p. length p) (secs 2) (fold (session_exec ?e) ?ops sample_pairing) = (s, Some k)"
    by (simp add: psk_for_def access_def apply_expiry_def record_failed_attempt_def session_live_def
        sample_pairing_def MAX_ATTEMPTS_def PHRASE_LIFETIME_def secs_def Let_def)
  then obtain s' k where r: "psk_for (\<lambda>p. length p) (secs 2) (fold (session_exec ?e) ?ops sample_pairing) = (s', Some k)"
    by blast
  show ?thesis
    using psk_only_while_live [OF sample_session _ r] r by auto
qed

text \<open>A bad download is kept: when the cache is missing and the fetched bytes have the wrong
  digest, the load fails with \<open>ChecksumMismatch\<close> after having written them to the cache, and every
  later load fails the same way, whatever a new fetch would return.\<close>

theorem bad_download_poisons_cache:
  assumes "hex_digest raw \<noteq> expected"
  shows "load_all hex_digest expected ((Ok raw, None) # loads) CacheMissing =
    (CacheBytes raw, replicate (Suc (length loads)) (Err WL_ChecksumMismatch))"
  using assms load_all_cached(2) [of hex_digest expected loads raw]
  by (simp add: load_verified_def write_cache_def verify_checksum_def)

theorem bad_download_poisons_cache_witness:
  "load_all id ''good'' [(Ok ''bad'', None), (Ok ''good'', None)] CacheMissing =
    (CacheBytes ''bad'', [Err WL_ChecksumMismatch, Err WL_ChecksumMismatch])"
  using bad_download_poisons_cache [of id "''bad''" "''good''" "[(Ok ''good'', None)]"] by simp

text \<open>A load that succeeds returns 7776 words parsed from bytes with the recorded digest, and leaves
  those bytes in the cache, so that every later load returns the same words without a fetch.\<close>

theorem load_success_is_stable:
  assumes "load_verified hex_digest expected fetched failure c = (c', Ok words)"
  shows "length words = EFF_WORDLIST_ENTRY_COUNT \<and>
    (\<exists>raw. c' = CacheBytes raw \<and> hex_digest raw = expected \<and> extract_words raw = Ok words \<and>
       load_all hex_digest expected loads c' = (c', replicate (length loads) (Ok words)))"
proof -
  obtain raw where raw: "c' = CacheBytes raw"
      "bind_result (verify_checksum hex_digest raw expected) (\<lambda>_. extract_words raw) = Ok words"
    using assms by (auto simp: load_verified_def write_cache_def Let_def
        split: cache_file.splits sum.splits option.splits prod.splits)
  then have "hex_digest raw = expected" "extract_words raw = Ok words"
    by (auto simp: verify_checksum_def split: if_splits)
  moreover from this have "length words = EFF_WORDLIST_ENTRY_COUNT"
    by (auto simp: extract_words_def Let_def split: if_splits)
  ultimately show ?thesis using raw load_all_cached(2) [of hex_digest expected loads raw] by auto
qed


definition sample_source :: string where
  "sample_source = concat (replicate 7776 [CHR ''a'', CHR 0x0A])"

lemma str_lines_sample: "str_lines (concat (replicate n [CHR ''a'', CHR 0x0A])) = replicate n ''a''"
proof -
  have "split_on CHR 0x0A (concat (replicate n [CHR ''a'', CHR 0x0A])) = replicate n ''a'' @ [[]]"
    by (induction n) simp_all
  then show ?thesis by (simp add: str_lines_def strip_cr_def)
qed

lemma extract_sample: "extract_words sample_source = Ok (replicate 7776 ''a'')"
proof -
  have "list_all is_ascii sample_source"
    by (auto simp: sample_source_def list_all_iff is_ascii_def)
  then have "valid_utf8 sample_source" by (rule valid_utf8_ascii)
  moreover have "trim ''a'' = ''a''" "to_ascii_lowercase ''a'' = ''a''" by code_simp+
  moreover have "map (\<lambda>line. trim (last (split_on CHR 0x09 line))) (str_lines sample_source) = replicate 7776 ''a''"
    using \<open>trim ''a'' = ''a''\<close> by (simp add: sample_source_def str_lines_sample)
  moreover have "filter (\<lambda>w. w \<noteq> []) (replicate 7776 ''a'') = replicate 7776 ''a''"
    by (rule filter_True) simp
  ultimately show ?thesis
    by (simp only: extract_words_def Let_def) (simp add: EFF_WORDLIST_ENTRY_COUNT_def)
qed

theorem load_success_is_stable_witness:
  "\<exists>ws. load_verified (\<lambda>_. ''d'') ''d'' (Ok sample_source) None CacheMissing = (CacheBytes sample_source, Ok ws)
     \<and> length ws = EFF_WORDLIST_ENTRY_COUNT"
proof -
  have "load_verified (\<lambda>_. ''d'') ''d'' (Ok sample_source) None CacheMissing =
      (CacheBytes sample_source, Ok (replicate 7776 ''a''))"
    by (simp add: load_verified_def write_cache_def verify_checksum_def extract_sample)
  from this load_success_is_stable [OF this, of "[]"] show ?thesis by blast
qed

end
