(* ===== verification/Device_Store.thy ===== *)
theory Device_Store
  imports Push_Store
begin

text \<open>
  \<open>herdr-relay/src/store.rs\<close> and \<open>watch/devices.rs\<close>: the paired-device list, in memory and in
  \<open>paired-devices.json\<close>, and the device-management requests over it. The JSON reader and
  writer, the clock, the outcome of every file operation, the fingerprint hash and the key
  rotation are arguments.
\<close>

section \<open>The list\<close>

record paired_device =
  pd_host_id :: string
  pd_handle :: string
  pd_device_id :: string
  pd_device_name :: string
  pd_platform :: platform
  pd_os_version :: string
  pd_static_public_key :: "8 word list"
  pd_paired_at :: string
  pd_last_seen :: string

definition pd_fingerprint :: "(8 word list \<Rightarrow> string) \<Rightarrow> paired_device \<Rightarrow> string" where
  "pd_fingerprint fingerprint_of d = fingerprint_of (pd_static_public_key d)"

datatype store_error = StoreRead | StoreParse | StoreSerialize | StoreWrite

text \<open>A file of the Host directory, and the ways the staged save of the list can fail.\<close>

datatype disk_file = FileMissing | FileUnreadable | FileText string

datatype save_outcome = SaveWorks | StagingFails | RenameFails

record device_store =
  ds_file :: disk_file
  ds_devices :: "paired_device list"

definition store_load :: "(string \<Rightarrow> paired_device list option) \<Rightarrow> disk_file \<Rightarrow> (device_store, store_error) result" where
  "store_load de f =
     (case f of
        FileText t \<Rightarrow> (case de t of Some ds \<Rightarrow> Ok \<lparr>ds_file = f, ds_devices = ds\<rparr> | None \<Rightarrow> Err StoreParse)
      | FileMissing \<Rightarrow> Ok \<lparr>ds_file = f, ds_devices = []\<rparr>
      | FileUnreadable \<Rightarrow> Err StoreRead)"

text \<open>
  \<open>save\<close> writes a temporary file beside the list and renames it over the list; when
  either step fails the temporary file is removed and the list is as before.
\<close>

definition store_save ::
  "(paired_device list \<Rightarrow> string option) \<Rightarrow> save_outcome \<Rightarrow> paired_device list \<Rightarrow> device_store \<Rightarrow>
     device_store \<times> (unit, store_error) result" where
  "store_save ser out ds s =
     (case ser ds of
        None \<Rightarrow> (s, Err StoreSerialize)
      | Some json \<Rightarrow>
          (case out of
             SaveWorks \<Rightarrow> (s\<lparr>ds_file := FileText json\<rparr>, Ok ())
           | StagingFails \<Rightarrow> (s, Err StoreWrite)
           | RenameFails \<Rightarrow> (s, Err StoreWrite)))"

definition store_find :: "string \<Rightarrow> device_store \<Rightarrow> paired_device option" where
  "store_find i s = find (\<lambda>d. pd_device_id d = i) (ds_devices s)"

text \<open>\<open>Iterator::position\<close>.\<close>

fun position :: "('a \<Rightarrow> bool) \<Rightarrow> 'a list \<Rightarrow> nat option" where
  "position P [] = None"
| "position P (x # xs) = (if P x then Some 0 else map_option Suc (position P xs))"

definition remove_nth :: "nat \<Rightarrow> 'a list \<Rightarrow> 'a list" where
  "remove_nth n xs = take n xs @ drop (Suc n) xs"

definition new_entry :: "string \<Rightarrow> string \<Rightarrow> string \<Rightarrow> string \<Rightarrow> string \<Rightarrow> platform \<Rightarrow> string \<Rightarrow> 8 word list \<Rightarrow> paired_device" where
  "new_entry now host_id rh device_id name platform os key =
     \<lparr>pd_host_id = host_id, pd_handle = rh, pd_device_id = device_id, pd_device_name = name,
      pd_platform = platform, pd_os_version = os, pd_static_public_key = key,
      pd_paired_at = now, pd_last_seen = now\<rparr>"

definition store_add ::
  "(paired_device list \<Rightarrow> string option) \<Rightarrow> save_outcome \<Rightarrow> paired_device \<Rightarrow> device_store \<Rightarrow>
     device_store \<times> (unit, store_error) result" where
  "store_add ser out entry s =
     (let others = filter (\<lambda>d. pd_device_id d \<noteq> pd_device_id entry) (ds_devices s) in
      case store_save ser out (others @ [entry]) s of
        (s1, Err e) \<Rightarrow> (s1, Err e)
      | (s1, Ok _) \<Rightarrow> (s1\<lparr>ds_devices := others @ [entry]\<rparr>, Ok ()))"

definition store_revoke ::
  "(paired_device list \<Rightarrow> string option) \<Rightarrow> save_outcome \<Rightarrow> string \<Rightarrow> device_store \<Rightarrow>
     device_store \<times> (paired_device option, store_error) result" where
  "store_revoke ser out i s =
     (case position (\<lambda>d. pd_device_id d = i) (ds_devices s) of
        None \<Rightarrow> (s, Ok None)
      | Some n \<Rightarrow>
          (case store_save ser out (remove_nth n (ds_devices s)) s of
             (s1, Err e) \<Rightarrow> (s1, Err e)
           | (s1, Ok _) \<Rightarrow> (s1\<lparr>ds_devices := remove_nth n (ds_devices s)\<rparr>, Ok (Some (ds_devices s ! n)))))"

definition store_clear_all ::
  "(paired_device list \<Rightarrow> string option) \<Rightarrow> save_outcome \<Rightarrow> device_store \<Rightarrow>
     device_store \<times> (paired_device list, store_error) result" where
  "store_clear_all ser out s =
     (case store_save ser out [] s of
        (s1, Err e) \<Rightarrow> (s1, Err e)
      | (s1, Ok _) \<Rightarrow> (s1\<lparr>ds_devices := []\<rparr>, Ok (ds_devices s)))"

definition touch_last_seen ::
  "(paired_device list \<Rightarrow> string option) \<Rightarrow> save_outcome \<Rightarrow> string \<Rightarrow> string \<Rightarrow> device_store \<Rightarrow>
     device_store \<times> (bool, store_error) result" where
  "touch_last_seen ser out now i s =
     (case position (\<lambda>d. pd_device_id d = i) (ds_devices s) of
        None \<Rightarrow> (s, Ok False)
      | Some n \<Rightarrow>
          (let updated = (ds_devices s)[n := (ds_devices s ! n)\<lparr>pd_last_seen := now\<rparr>] in
           case store_save ser out updated s of
             (s1, Err e) \<Rightarrow> (s1, Err e)
           | (s1, Ok _) \<Rightarrow> (s1\<lparr>ds_devices := updated\<rparr>, Ok True)))"

section \<open>Device-management requests\<close>

record device_list_entry =
  dle_id :: string
  dle_name :: string
  dle_paired_at :: string
  dle_last_seen :: string
  dle_connected :: bool
  dle_platform :: platform
  dle_fingerprint :: string

record revoke_request =
  rr_device_id :: "string option"
  rr_all :: "bool option"

record revoke_result =
  rv_revoked :: "string list"
  rv_all :: bool

datatype device_error = InvalidRevokeRequest | DeviceStoreError store_error | DeviceKeys

definition device_list :: "(8 word list \<Rightarrow> string) \<Rightarrow> device_store \<Rightarrow> string option \<Rightarrow> device_list_entry list" where
  "device_list fingerprint_of s connected = map (\<lambda>d.
     \<lparr>dle_id = pd_device_id d, dle_name = pd_device_name d, dle_paired_at = pd_paired_at d,
      dle_last_seen = pd_last_seen d, dle_connected = (connected = Some (pd_device_id d)),
      dle_platform = pd_platform d, dle_fingerprint = fingerprint_of (pd_static_public_key d)\<rparr>) (ds_devices s)"

text \<open>\<open>rotate_ok\<close> is the outcome of \<open>keys::rotate\<close>, which runs after the list is cleared.\<close>

definition revoke_device ::
  "(paired_device list \<Rightarrow> string option) \<Rightarrow> save_outcome \<Rightarrow> bool \<Rightarrow> revoke_request \<Rightarrow> device_store \<Rightarrow>
     device_store \<times> (revoke_result, device_error) result" where
  "revoke_device ser out rotate_ok req s =
     (case (rr_device_id req, rr_all req = Some True) of
        (None, True) \<Rightarrow>
          (case store_clear_all ser out s of
             (s1, Err e) \<Rightarrow> (s1, Err (DeviceStoreError e))
           | (s1, Ok cleared) \<Rightarrow>
               if rotate_ok then (s1, Ok \<lparr>rv_revoked = map pd_device_id cleared, rv_all = True\<rparr>)
               else (s1, Err DeviceKeys))
      | (Some i, False) \<Rightarrow>
          (case store_revoke ser out i s of
             (s1, Err e) \<Rightarrow> (s1, Err (DeviceStoreError e))
           | (s1, Ok r) \<Rightarrow> (s1, Ok \<lparr>rv_revoked = map pd_device_id (case r of None \<Rightarrow> [] | Some d \<Rightarrow> [d]), rv_all = False\<rparr>))
      | _ \<Rightarrow> (s, Err InvalidRevokeRequest))"


section \<open>The contract of a registry of devices\<close>

text \<open>
  What the Host core relies on: a call that fails changes nothing, an entry that was added
  is found under its id until it is replaced or revoked, a revoked id is not found.
\<close>

locale device_registry =
  fixes find_entry :: "string \<Rightarrow> 's \<Rightarrow> 'd option"
    and add_entry :: "'env \<Rightarrow> 'd \<Rightarrow> 's \<Rightarrow> 's \<times> (unit, 'e) result"
    and revoke_entry :: "'env \<Rightarrow> string \<Rightarrow> 's \<Rightarrow> 's \<times> ('d option, 'e) result"
    and entry_id :: "'d \<Rightarrow> string"
    and ids_ok :: "'s \<Rightarrow> bool"
  assumes add_done: "ids_ok s \<Longrightarrow> add_entry env d s = (s', Ok u) \<Longrightarrow>
        ids_ok s' \<and> (\<forall>i. find_entry i s' = (if i = entry_id d then Some d else find_entry i s))"
    and add_failed: "add_entry env d s = (s', Err e) \<Longrightarrow> s' = s"
    and revoke_done: "ids_ok s \<Longrightarrow> revoke_entry env j s = (s', Ok r) \<Longrightarrow>
        ids_ok s' \<and> r = find_entry j s \<and> (\<forall>i. find_entry i s' = (if i = j then None else find_entry i s))"
    and revoke_failed: "revoke_entry env j s = (s', Err e) \<Longrightarrow> s' = s"
begin

lemma add_ids: "ids_ok s \<Longrightarrow> ids_ok (fst (add_entry env d s))"
  using add_done [of s env d] add_failed [of env d s]
  by (cases "add_entry env d s"; cases "snd (add_entry env d s)") auto

lemma revoke_ids: "ids_ok s \<Longrightarrow> ids_ok (fst (revoke_entry env j s))"
  using revoke_done [of s env j] revoke_failed [of env j s]
  by (cases "revoke_entry env j s"; cases "snd (revoke_entry env j s)") auto

lemma add_other: "ids_ok s \<Longrightarrow> i \<noteq> entry_id d \<Longrightarrow> find_entry i (fst (add_entry env d s)) = find_entry i s"
  using add_done [of s env d] add_failed [of env d s]
  by (cases "add_entry env d s"; cases "snd (add_entry env d s)") auto

lemma revoke_other: "ids_ok s \<Longrightarrow> i \<noteq> j \<Longrightarrow> find_entry i (fst (revoke_entry env j s)) = find_entry i s"
  using revoke_done [of s env j] revoke_failed [of env j s]
  by (cases "revoke_entry env j s"; cases "snd (revoke_entry env j s)") auto

lemma revoked_not_found: "ids_ok s \<Longrightarrow> revoke_entry env j s = (s', Ok r) \<Longrightarrow> find_entry j s' = None"
  using revoke_done [of s env j s' r] by auto

lemma revoke_again: "ids_ok s \<Longrightarrow> revoke_entry env j s = (s', Ok r) \<Longrightarrow> revoke_entry env' j s' = (s'', Ok r') \<Longrightarrow> r' = None"
  using revoke_done [of s env j s' r] revoke_done [of s' env' j s'' r'] by auto

lemma added_found: "ids_ok s \<Longrightarrow> add_entry env d s = (s', Ok u) \<Longrightarrow> find_entry (entry_id d) s' = Some d"
  using add_done [of s env d s' u] by auto

end

section \<open>The list fulfils the contract\<close>

definition ids_distinct :: "device_store \<Rightarrow> bool" where
  "ids_distinct s \<longleftrightarrow> distinct (map pd_device_id (ds_devices s))"

lemma position_find: "find P xs = map_option (\<lambda>n. xs ! n) (position P xs)"
  by (induction xs) (auto simp: option.map_comp comp_def)

lemma position_Some: "position P xs = Some n \<Longrightarrow> n < length xs \<and> P (xs ! n)"
  by (induction xs arbitrary: n) (auto split: if_splits)

lemma position_None: "position P xs = None \<longleftrightarrow> (\<forall>x\<in>set xs. \<not> P x)"
  by (induction xs) auto

lemma save_devices: "store_save ser out ds s = (s', r) \<Longrightarrow> ds_devices s' = ds_devices s"
  by (auto simp: store_save_def split: option.splits save_outcome.splits)

lemma save_Err: "store_save ser out ds s = (s', Err e) \<Longrightarrow> s' = s"
  by (auto simp: store_save_def split: option.splits save_outcome.splits)

lemma save_Ok: "store_save ser out ds s = (s', Ok u) \<Longrightarrow> \<exists>t. ser ds = Some t \<and> s' = s\<lparr>ds_file := FileText t\<rparr>"
  by (auto simp: store_save_def split: option.splits save_outcome.splits)

lemma add_Ok: "store_add ser out d s = (s', Ok u) \<Longrightarrow>
    \<exists>t. ser (ds_devices s') = Some t \<and> ds_file s' = FileText t \<and>
      ds_devices s' = filter (\<lambda>d'. pd_device_id d' \<noteq> pd_device_id d) (ds_devices s) @ [d]"
  by (auto simp: store_add_def Let_def split: prod.splits sum.splits dest!: save_Ok)

lemma add_Err: "store_add ser out d s = (s', Err e) \<Longrightarrow> s' = s"
  by (auto simp: store_add_def Let_def split: prod.splits sum.splits dest!: save_Err)

lemma revoke_Ok: "store_revoke ser out i s = (s', Ok r) \<Longrightarrow>
    (case position (\<lambda>d. pd_device_id d = i) (ds_devices s) of
       None \<Rightarrow> s' = s \<and> r = None
     | Some n \<Rightarrow> \<exists>t. ser (ds_devices s') = Some t \<and> ds_file s' = FileText t \<and>
         ds_devices s' = remove_nth n (ds_devices s) \<and> r = Some (ds_devices s ! n))"
  by (auto simp: store_revoke_def split: prod.splits sum.splits option.splits dest!: save_Ok)

lemma revoke_Err: "store_revoke ser out i s = (s', Err e) \<Longrightarrow> s' = s"
  by (auto simp: store_revoke_def split: prod.splits sum.splits option.splits dest!: save_Err)

lemma clear_Ok: "store_clear_all ser out s = (s', Ok r) \<Longrightarrow>
    \<exists>t. ser [] = Some t \<and> ds_file s' = FileText t \<and> ds_devices s' = [] \<and> r = ds_devices s"
  by (auto simp: store_clear_all_def split: prod.splits sum.splits dest!: save_Ok)

lemma clear_Err: "store_clear_all ser out s = (s', Err e) \<Longrightarrow> s' = s"
  by (auto simp: store_clear_all_def split: prod.splits sum.splits dest!: save_Err)

lemma touch_Ok: "touch_last_seen ser out now i s = (s', Ok r) \<Longrightarrow>
    (case position (\<lambda>d. pd_device_id d = i) (ds_devices s) of
       None \<Rightarrow> s' = s \<and> \<not> r
     | Some n \<Rightarrow> \<exists>t. ser (ds_devices s') = Some t \<and> ds_file s' = FileText t \<and> r \<and>
         ds_devices s' = (ds_devices s)[n := (ds_devices s ! n)\<lparr>pd_last_seen := now\<rparr>])"
  by (auto simp: touch_last_seen_def Let_def split: prod.splits sum.splits option.splits dest!: save_Ok)

lemma touch_Err: "touch_last_seen ser out now i s = (s', Err e) \<Longrightarrow> s' = s"
  by (auto simp: touch_last_seen_def Let_def split: prod.splits sum.splits option.splits dest!: save_Err)

lemmas store_call_failed = add_Err revoke_Err clear_Err touch_Err

lemma find_append: "find P (xs @ ys) = (case find P xs of None \<Rightarrow> find P ys | Some x \<Rightarrow> Some x)"
  by (induction xs) auto

lemma find_filter_other:
  "find (\<lambda>d. pd_device_id d = i) (filter (\<lambda>d. pd_device_id d \<noteq> j) ds) =
     (if i = j then None else find (\<lambda>d. pd_device_id d = i) ds)"
  by (induction ds) auto

lemma remove_nth_filter:
  assumes "distinct (map pd_device_id ds)" "position (\<lambda>d. pd_device_id d = j) ds = Some n"
  shows "remove_nth n ds = filter (\<lambda>d. pd_device_id d \<noteq> j) ds"
  using assms
proof (induction ds arbitrary: n)
  case (Cons d ds)
  show ?case
  proof (cases "pd_device_id d = j")
    case True
    then have "\<forall>x\<in>set ds. pd_device_id x \<noteq> j" using Cons.prems(1) by (auto simp: rev_image_eqI)
    then show ?thesis using True Cons.prems(2) by (simp add: remove_nth_def filter_id_conv)
  next
    case False
    then show ?thesis using Cons by (auto simp: remove_nth_def)
  qed
qed simp

lemma revoke_filter:
  assumes "ids_distinct s" "store_revoke ser out j s = (s', Ok r)"
  shows "ds_devices s' = filter (\<lambda>d. pd_device_id d \<noteq> j) (ds_devices s)" "r = store_find j s"
proof -
  let ?P = "\<lambda>d. pd_device_id d = j"
  have "ds_devices s' = filter (\<lambda>d. pd_device_id d \<noteq> j) (ds_devices s) \<and> r = store_find j s"
  proof (cases "position ?P (ds_devices s)")
    case None
    then have "filter (\<lambda>d. pd_device_id d \<noteq> j) (ds_devices s) = ds_devices s"
      by (simp add: position_None filter_id_conv)
    then show ?thesis using revoke_Ok [OF assms(2)] None
      by (simp add: store_find_def position_find)
  next
    case (Some n)
    then have "remove_nth n (ds_devices s) = filter (\<lambda>d. pd_device_id d \<noteq> j) (ds_devices s)"
      using assms(1) by (simp add: ids_distinct_def remove_nth_filter)
    then show ?thesis using revoke_Ok [OF assms(2)] Some
      by (auto simp: store_find_def position_find)
  qed
  then show "ds_devices s' = filter (\<lambda>d. pd_device_id d \<noteq> j) (ds_devices s)" "r = store_find j s" by auto
qed

lemma distinct_map_filter': "distinct (map f xs) \<Longrightarrow> distinct (map f (filter P xs))"
  by (induction xs) auto

interpretation stored: device_registry store_find "\<lambda>(ser, out). store_add ser out"
  "\<lambda>(ser, out). store_revoke ser out" pd_device_id ids_distinct
proof (unfold_locales, goal_cases)
  case (1 s env d s' u)
  then show ?case
    by (cases env) (auto simp: ids_distinct_def store_find_def find_append find_filter_other
        distinct_map_filter' dest!: add_Ok split: option.splits)
next
  case (2 env d s s' e) then show ?case by (cases env) (auto dest: add_Err)
next
  case (3 s env j s' r)
  then have r: "store_revoke (fst env) (snd env) j s = (s', Ok r)" by (simp add: case_prod_beta)
  from revoke_filter [OF 3(1) r] 3(1) show ?case
    by (simp add: ids_distinct_def distinct_map_filter' store_find_def find_filter_other)
next
  case (4 env j s s' e) then show ?case by (cases env) (auto dest: revoke_Err)
qed


section \<open>Sequences of calls\<close>

datatype store_op =
    OpAdd paired_device save_outcome
  | OpRevoke string save_outcome
  | OpClear save_outcome
  | OpTouch string string save_outcome

fun store_exec :: "(paired_device list \<Rightarrow> string option) \<Rightarrow> store_op \<Rightarrow> device_store \<Rightarrow> device_store" where
  "store_exec ser (OpAdd d out) s = fst (store_add ser out d s)"
| "store_exec ser (OpRevoke i out) s = fst (store_revoke ser out i s)"
| "store_exec ser (OpClear out) s = fst (store_clear_all ser out s)"
| "store_exec ser (OpTouch now i out) s = fst (touch_last_seen ser out now i s)"

text \<open>A call that changes the store writes what it leaves in memory.\<close>

lemma store_exec_writes:
  "store_exec ser op s = s \<or>
   (\<exists>t. ser (ds_devices (store_exec ser op s)) = Some t \<and> ds_file (store_exec ser op s) = FileText t)"
proof (cases op)
  case (OpAdd d out)
  then show ?thesis
    by (cases "store_add ser out d s"; cases "snd (store_add ser out d s)") (auto dest: store_call_failed add_Ok)
next
  case (OpRevoke i out)
  then show ?thesis
    by (cases "store_revoke ser out i s"; cases "snd (store_revoke ser out i s)")
       (auto dest!: revoke_Err revoke_Ok split: option.splits)
next
  case (OpClear out)
  then show ?thesis
    by (cases "store_clear_all ser out s"; cases "snd (store_clear_all ser out s)") (auto dest: store_call_failed dest!: clear_Ok)
next
  case (OpTouch now i out)
  then show ?thesis
    by (cases "touch_last_seen ser out now i s"; cases "snd (touch_last_seen ser out now i s)")
       (auto dest!: touch_Err touch_Ok split: option.splits)
qed

lemma store_exec_ids: "ids_distinct s \<Longrightarrow> ids_distinct (store_exec ser op s)"
proof (cases op)
  case (OpTouch now i out)
  have "map pd_device_id (ds[n := (ds ! n)\<lparr>pd_last_seen := now\<rparr>]) = map pd_device_id ds" for ds :: "paired_device list" and n
    by (cases "n < length ds") (auto simp: list_update_beyond nth_list_update intro!: nth_equalityI)
  then show "ids_distinct s \<Longrightarrow> ?thesis" using OpTouch
    by (cases "touch_last_seen ser out now i s"; cases "snd (touch_last_seen ser out now i s)")
       (auto simp: ids_distinct_def dest!: touch_Err touch_Ok split: option.splits)
next
  case (OpClear out)
  then show "ids_distinct s \<Longrightarrow> ?thesis"
    by (cases "store_clear_all ser out s"; cases "snd (store_clear_all ser out s)")
       (auto simp: ids_distinct_def dest: clear_Err dest!: clear_Ok)
qed (use stored.add_ids [of s "(ser, out)" for out] stored.revoke_ids [of s "(ser, out)" for out] in auto)

fun adds_id :: "string \<Rightarrow> store_op \<Rightarrow> bool" where
  "adds_id i (OpAdd d _) = (pd_device_id d = i)"
| "adds_id i _ = False"

text \<open>The ids of the list, without an add of \<open>i\<close>, only shrink at \<open>i\<close>.\<close>

lemma store_exec_absent:
  assumes "ids_distinct s" "store_find i s = None" "\<not> adds_id i op"
  shows "store_find i (store_exec ser op s) = None"
proof (cases op)
  case (OpAdd d out)
  then show ?thesis using stored.add_other [OF assms(1), of i d "(ser, out)"] assms(2,3) by simp
next
  case (OpRevoke j out)
  then show ?thesis using stored.revoke_other [OF assms(1), of i j "(ser, out)"] assms(2)
      stored.revoked_not_found [OF assms(1), of "(ser, out)" j] revoke_Err [of ser out j s]
    by (cases "store_revoke ser out j s"; cases "snd (store_revoke ser out j s)"; cases "i = j") auto
next
  case (OpClear out)
  then show ?thesis using assms(2)
    by (cases "store_clear_all ser out s"; cases "snd (store_clear_all ser out s)")
       (auto simp: store_find_def dest: clear_Err dest!: clear_Ok)
next
  case (OpTouch now j out)
  have "find (\<lambda>d. pd_device_id d = i) (ds[n := (ds ! n)\<lparr>pd_last_seen := now\<rparr>]) = None"
    if "find (\<lambda>d. pd_device_id d = i) ds = None" for ds :: "paired_device list" and n
    using that by (cases "n < length ds") (auto simp: list_update_beyond find_None_iff in_set_conv_nth nth_list_update split: if_splits)
  then show ?thesis using OpTouch assms(2)
    by (cases "touch_last_seen ser out now j s"; cases "snd (touch_last_seen ser out now j s)")
       (auto simp: store_find_def dest!: touch_Err touch_Ok split: option.splits)
qed

interpretation absent_id: preserved "store_exec ser" "\<lambda>op. \<not> adds_id i op"
  "\<lambda>s. ids_distinct s \<and> store_find i s = None" for ser i
  by unfold_locales (auto intro: store_exec_ids store_exec_absent)

definition synced :: "(string \<Rightarrow> paired_device list option) \<Rightarrow> device_store \<Rightarrow> bool" where
  "synced de s \<longleftrightarrow> store_load de (ds_file s) = Ok s"

lemma store_load_synced: "store_load de f = Ok s \<Longrightarrow> synced de s"
  by (auto simp: synced_def store_load_def split: disk_file.splits option.splits)

lemma store_exec_synced:
  assumes "\<And>ds t. ser ds = Some t \<Longrightarrow> de t = Some ds" "synced de s"
  shows "synced de (store_exec ser op s)"
  using store_exec_writes [of ser op s]
proof
  assume "store_exec ser op s = s"
  then show ?thesis using assms(2) by simp
next
  assume "\<exists>t. ser (ds_devices (store_exec ser op s)) = Some t \<and> ds_file (store_exec ser op s) = FileText t"
  then obtain t where "de t = Some (ds_devices (store_exec ser op s))" "ds_file (store_exec ser op s) = FileText t"
    using assms(1) by blast
  then show ?thesis by (simp add: synced_def store_load_def)
qed

lemma store_run_synced:
  assumes "\<And>ds t. ser ds = Some t \<Longrightarrow> de t = Some ds" "synced de s"
  shows "synced de (fold (store_exec ser) ops s)"
  using assms(2) by (induction ops arbitrary: s) (auto intro: store_exec_synced assms(1))

section \<open>Properties\<close>

text \<open>Memory and disk agree: from a loaded list on, after any calls with any outcomes of their
  saves, loading the file again gives exactly the list in memory; a restart loses nothing.\<close>

theorem reload_gives_same_list:
  assumes "\<And>ds t. ser ds = Some t \<Longrightarrow> de t = Some ds" "store_load de f = Ok s"
  shows "store_load de (ds_file (fold (store_exec ser) ops s)) = Ok (fold (store_exec ser) ops s)"
  using store_run_synced [OF assms(1) store_load_synced [OF assms(2)]] by (simp add: synced_def)

text \<open>After a successful revocation the device is not found, neither in memory nor after a
  restart that loads the file, whatever calls follow, until it is enrolled again; a second
  revocation finds nothing.\<close>

theorem revoked_until_enrolled_again:
  assumes "\<And>ds t. ser ds = Some t \<Longrightarrow> de t = Some ds" "synced de s" "ids_distinct s"
    and "store_revoke ser out i s = (s1, Ok r)" "list_all (\<lambda>op. \<not> adds_id i op) ops"
  shows "store_find i (fold (store_exec ser) ops s1) = None \<and>
    (\<exists>s2. store_load de (ds_file (fold (store_exec ser) ops s1)) = Ok s2 \<and> store_find i s2 = None) \<and>
    store_revoke ser out' i (fold (store_exec ser) ops s1) = (fold (store_exec ser) ops s1, Ok None)"
proof -
  let ?s = "fold (store_exec ser) ops s1"
  have s1: "s1 = store_exec ser (OpRevoke i out) s" by (simp add: assms(4))
  have "store_find i s1 = None"
    using stored.revoked_not_found [OF assms(3), of "(ser, out)" i s1 r] assms(4) by simp
  then have k: "ids_distinct s1 \<and> store_find i s1 = None"
    using store_exec_ids [OF assms(3), of ser "OpRevoke i out"] s1 by simp
  from absent_id.keep_run [OF k assms(5)] have f: "store_find i ?s = None" by simp
  moreover have "synced de s1" unfolding s1 by (rule store_exec_synced) (use assms in auto)
  then have "synced de ?s" by (rule store_run_synced [rotated]) (use assms in auto)
  ultimately show ?thesis
    by (auto simp: synced_def store_revoke_def store_find_def position_find split: option.splits)
qed

text \<open>The answer to \<open>revoke_device\<close> names exactly the devices that left the list, and every other
  device stays; an error leaves the list and the file as they were, except that a failed key
  rotation of a revocation of all devices is reported after the list was cleared.\<close>

theorem revoke_device_outcome:
  assumes "ids_distinct s" "revoke_device ser out rotate_ok req s = (s', r)"
  shows "case r of
      Ok v \<Rightarrow> (\<forall>i. store_find i s' = (if i \<in> set (rv_revoked v) then None else store_find i s))
    | Err e \<Rightarrow> s' = s \<or> e = DeviceKeys \<and> \<not> rotate_ok \<and> rr_all req = Some True \<and> ds_devices s' = []"
proof (cases "rr_device_id req")
  case None
  show ?thesis
  proof (cases "rr_all req = Some True")
    case True
    then show ?thesis using assms None
      by (cases "store_clear_all ser out s"; cases "snd (store_clear_all ser out s)")
         (auto simp: revoke_device_def store_find_def find_None_iff find_None_iff2 dest: clear_Err dest!: clear_Ok split: if_splits)
  qed (use assms None in \<open>auto simp: revoke_device_def\<close>)
next
  case (Some j)
  show ?thesis
  proof (cases "rr_all req = Some True")
    case False
    show ?thesis
    proof (cases "store_revoke ser out j s")
      case (Pair s1 q)
      show ?thesis
      proof (cases q)
        case (Inl e)
        then show ?thesis using assms Some False Pair by (auto simp: revoke_device_def dest: revoke_Err)
      next
        case (Inr d)
        have f: "d = store_find j s" "\<And>i. store_find i s1 = (if i = j then None else store_find i s)"
          using stored.revoke_done [OF assms(1), of "(ser, out)" j s1 d] Pair Inr by auto
        have "pd_device_id x = j" if "store_find j s = Some x" for x
          using that by (auto simp: store_find_def find_Some_iff)
        then show ?thesis using assms Some False Pair Inr f
          by (cases d) (auto simp: revoke_device_def)
      qed
    qed
  qed (use assms Some in \<open>auto simp: revoke_device_def\<close>)
qed

section \<open>Witnesses\<close>

definition sample_device :: "string \<Rightarrow> paired_device" where
  "sample_device i = new_entry ''t0'' ''host'' ''AAAAAAAAAAAAAAAAAAAAAA'' i ''Pixel'' Android ''15'' (replicate 32 0)"

text \<open>A writer that can write the empty list and the list of one device \<open>a\<close>, and its reader.\<close>

definition sample_ser :: "paired_device list \<Rightarrow> string option" where
  "sample_ser ds = (if ds = [] then Some ''[]'' else if ds = [sample_device ''a''] then Some ''[a]'' else None)"

definition sample_de :: "string \<Rightarrow> paired_device list option" where
  "sample_de t = (if t = ''[]'' then Some [] else if t = ''[a]'' then Some [sample_device ''a''] else None)"

lemma sample_ser_de: "sample_ser ds = Some t \<Longrightarrow> sample_de t = Some ds"
  by (auto simp: sample_ser_def sample_de_def split: if_splits)

theorem reload_gives_same_list_witness:
  "store_load sample_de (ds_file (fold (store_exec sample_ser)
      [OpAdd (sample_device ''a'') SaveWorks, OpRevoke ''a'' RenameFails] \<lparr>ds_file = FileMissing, ds_devices = []\<rparr>))
   = Ok \<lparr>ds_file = FileText ''[a]'', ds_devices = [sample_device ''a'']\<rparr>"
proof -
  have l: "store_load sample_de FileMissing = Ok \<lparr>ds_file = FileMissing, ds_devices = []\<rparr>"
    by (simp add: store_load_def)
  have "fold (store_exec sample_ser) [OpAdd (sample_device ''a'') SaveWorks, OpRevoke ''a'' RenameFails]
      \<lparr>ds_file = FileMissing, ds_devices = []\<rparr> = \<lparr>ds_file = FileText ''[a]'', ds_devices = [sample_device ''a'']\<rparr>"
    by (simp add: store_add_def store_revoke_def store_save_def sample_ser_def sample_device_def new_entry_def remove_nth_def)
  with reload_gives_same_list [OF sample_ser_de l, of sample_ser
      "[OpAdd (sample_device ''a'') SaveWorks, OpRevoke ''a'' RenameFails]"] show ?thesis by simp
qed

theorem revoked_until_enrolled_again_witness:
  "store_find ''a'' (fold (store_exec sample_ser) [OpTouch ''t1'' ''a'' SaveWorks]
      (fst (store_revoke sample_ser SaveWorks ''a'' \<lparr>ds_file = FileText ''[a]'', ds_devices = [sample_device ''a'']\<rparr>))) = None"
proof -
  let ?s = "\<lparr>ds_file = FileText ''[a]'', ds_devices = [sample_device ''a'']\<rparr>"
  have s: "synced sample_de ?s" by (simp add: synced_def store_load_def sample_de_def)
  have i: "ids_distinct ?s" by (simp add: ids_distinct_def)
  have r: "store_revoke sample_ser SaveWorks ''a'' ?s =
      (\<lparr>ds_file = FileText ''[]'', ds_devices = []\<rparr>, Ok (Some (sample_device ''a'')))"
    by (simp add: store_revoke_def store_save_def sample_ser_def sample_device_def new_entry_def remove_nth_def)
  have l: "list_all (\<lambda>op. \<not> adds_id ''a'' op) [OpTouch ''t1'' ''a'' SaveWorks]" by simp
  from revoked_until_enrolled_again [OF sample_ser_de s i r l]
  show ?thesis by (simp only: r fst_conv)
qed

theorem revoke_device_outcome_witness:
  "\<exists>s'. revoke_device sample_ser SaveWorks False \<lparr>rr_device_id = None, rr_all = Some True\<rparr>
      \<lparr>ds_file = FileText ''[a]'', ds_devices = [sample_device ''a'']\<rparr> = (s', Err DeviceKeys) \<and> ds_devices s' = []"
proof -
  let ?s = "\<lparr>ds_file = FileText ''[a]'', ds_devices = [sample_device ''a'']\<rparr>"
  have "ids_distinct ?s" by (simp add: ids_distinct_def)
  moreover have r: "revoke_device sample_ser SaveWorks False \<lparr>rr_device_id = None, rr_all = Some True\<rparr> ?s =
      (\<lparr>ds_file = FileText ''[]'', ds_devices = []\<rparr>, Err DeviceKeys)"
    by (simp add: revoke_device_def store_clear_all_def store_save_def sample_ser_def)
  ultimately show ?thesis using revoke_device_outcome [OF _ r] by simp
qed

end
