(* ===== verification/Host_Config.thy ===== *)
theory Host_Config
  imports Handle_Codec Rust_Fmt
begin

text \<open>
  \<open>herdr-relay/src/config.rs\<close> and the start-up checks of \<open>bridge.rs\<close>: the tunables, the
  origins the Host prints and dials, the host name and the watchdog over Herdr. The TOML
  reader, the environment and the outcome of every I/O step are arguments; the jitter
  fraction (an f64) is opaque.
\<close>

section \<open>Tunables\<close>

record 'f relay_config =
  rc_socket_timeout_ms :: nat
  rc_max_response_bytes :: nat
  rc_debounce_ms :: nat
  rc_poll_ms :: nat
  rc_input_read_ms :: "nat list"
  rc_max_reads_per_second :: nat
  rc_attached_panes_per_device :: nat
  rc_max_scrollback_lines :: nat
  rc_reconnect_initial_ms :: nat
  rc_reconnect_max_ms :: nat
  rc_reconnect_jitter :: 'f
  rc_reconnect_reset_after_s :: nat
  rc_relay_origin :: string
  rc_host_connect_origin :: string

text \<open>The argument is the float \<open>0.20\<close>.\<close>

definition relay_config_default :: "'f \<Rightarrow> 'f relay_config" where
  "relay_config_default jitter =
     \<lparr>rc_socket_timeout_ms = 5000, rc_max_response_bytes = 4 * 1024 * 1024, rc_debounce_ms = 120, rc_poll_ms = 125,
      rc_input_read_ms = [60, 130, 250], rc_max_reads_per_second = 16, rc_attached_panes_per_device = 1,
      rc_max_scrollback_lines = 1000, rc_reconnect_initial_ms = 250, rc_reconnect_max_ms = 8000,
      rc_reconnect_jitter = jitter, rc_reconnect_reset_after_s = 30, rc_relay_origin = [],
      rc_host_connect_origin = []\<rparr>"

datatype config_error = ConfigRead | ConfigParse

datatype config_file = ConfigMissing | ConfigUnreadable | ConfigText string

definition config_load :: "(string \<Rightarrow> 'f relay_config option) \<Rightarrow> 'f \<Rightarrow> config_file \<Rightarrow> ('f relay_config, config_error) result" where
  "config_load from_toml jitter f =
     (case f of
        ConfigText t \<Rightarrow> ok_or ConfigParse (from_toml t)
      | ConfigMissing \<Rightarrow> Ok (relay_config_default jitter)
      | ConfigUnreadable \<Rightarrow> Err ConfigRead)"

section \<open>Origins\<close>

text \<open>\<open>to_ws_origin\<close>; \<open>None\<close> is its \<open>unreachable!\<close>.\<close>

definition to_ws_origin :: "string \<Rightarrow> string option" where
  "to_ws_origin origin =
     (case strip_prefix ''https://'' origin of
        Some rest \<Rightarrow> Some (''wss://'' @ rest)
      | None \<Rightarrow>
          (case strip_prefix ''http://'' origin of
             Some rest \<Rightarrow> Some (''ws://'' @ rest)
           | None \<Rightarrow> None))"

text \<open>\<open>env\<close> is the value of \<open>HERDR_RELAY_HOST_CONNECT_ORIGIN\<close>, if it is set.\<close>

definition pick_connect_origin :: "string option \<Rightarrow> 'f relay_config \<Rightarrow> string" where
  "pick_connect_origin env cfg =
     (case env of
        Some v \<Rightarrow> if trim v \<noteq> [] then v
                  else if trim (rc_host_connect_origin cfg) = [] then rc_relay_origin cfg else rc_host_connect_origin cfg
      | None \<Rightarrow> if trim (rc_host_connect_origin cfg) = [] then rc_relay_origin cfg else rc_host_connect_origin cfg)"

definition bounded_host_name :: "string \<Rightarrow> string" where
  "bounded_host_name name = take (boundary_down name (min (length name) 64)) name"

definition host_name :: "string option \<Rightarrow> string option \<Rightarrow> string" where
  "host_name computername hostname =
     (let name = trim (case computername of Some n \<Rightarrow> n | None \<Rightarrow> (case hostname of Some n \<Rightarrow> n | None \<Rightarrow> []))
      in bounded_host_name (if name = [] then ''unknown'' else name))"

section \<open>Start-up\<close>

text \<open>
  \<open>run_inner\<close> up to the configuration it starts the bridge with. Every I/O step is its
  outcome; \<open>si_ping\<close> is the version and protocol of the \<open>ping\<close> answer as far as they are
  present. The outer option is the panic of \<open>to_ws_origin\<close>.
\<close>

record 'f startup_io =
  si_config_dir :: bool
  si_ensure_dir :: bool
  si_config :: "('f relay_config, config_error) result"
  si_keypair :: bool
  si_words :: bool
  si_socket :: bool
  si_ping :: "(string option \<times> nat option) option"
  si_env :: "string option"
  si_log_file :: bool

record host_params =
  hp_relay_origin :: string
  hp_ws_origin :: string
  hp_herdr_version :: string
  hp_herdr_protocol :: "32 word"

definition INVALID_ORIGIN_NOTICE :: string where
  "INVALID_ORIGIN_NOTICE = ''relay_origin must be an http:// or https:// origin, for example http://192.168.1.20:8080 - set it in config.toml''"

definition run_inner :: "'f startup_io \<Rightarrow> (host_params, string) result option" where
  "run_inner io =
     (if \<not> si_config_dir io then Some (Err ''resolve config directory failed'')
      else if \<not> si_ensure_dir io then Some (Err ''create config directory failed'')
      else case si_config io of
        Err _ \<Rightarrow> Some (Err ''load config.toml failed'')
      | Ok cfg \<Rightarrow>
          if trim (rc_relay_origin cfg) = [] then Some (Err ''relay origin not configured - set relay_origin in config.toml'')
          else if \<not> is_absolute_http_origin (trim (rc_relay_origin cfg)) then Some (Err INVALID_ORIGIN_NOTICE)
          else if \<not> si_keypair io then Some (Err ''load host keypair failed'')
          else if \<not> si_words io then Some (Err ''load pairing word list failed'')
          else if \<not> si_socket io then Some (Err ''locate herdr socket failed'')
          else case si_ping io of
            None \<Rightarrow> Some (Err ''ping herdr failed'')
          | Some (version, protocol) \<Rightarrow>
              let connect = pick_connect_origin (si_env io) cfg in
              if \<not> is_absolute_http_origin (trim connect) then Some (Err INVALID_ORIGIN_NOTICE)
              else case to_ws_origin connect of
                None \<Rightarrow> None
              | Some ws \<Rightarrow>
                  if \<not> si_log_file io then Some (Err ''open relay.log failed'')
                  else Some (Ok \<lparr>hp_relay_origin = rc_relay_origin cfg, hp_ws_origin = ws,
                    hp_herdr_version = (case version of Some v \<Rightarrow> v | None \<Rightarrow> ''unknown''),
                    hp_herdr_protocol = of_nat (case protocol of Some p \<Rightarrow> p | None \<Rightarrow> 0)\<rparr>))"

section \<open>The watchdog\<close>

definition HERDR_GONE_AFTER :: nat where "HERDR_GONE_AFTER = 300"
definition HERDR_PROBE_EVERY :: nat where "HERDR_PROBE_EVERY = 30"

text \<open>\<open>herdr_gone\<close> over the outcomes of its probes: whether it has returned after them.\<close>

fun herdr_gone :: "nat \<Rightarrow> bool list \<Rightarrow> bool" where
  "herdr_gone failures [] = False"
| "herdr_gone failures (ok # probes) =
     (let failures' = (if ok then 0 else failures + 1) in
      if HERDR_GONE_AFTER \<le> failures' * HERDR_PROBE_EVERY then True else herdr_gone failures' probes)"

section \<open>Lemmas\<close>

lemma absolute_origin_scheme:
  assumes "is_absolute_http_origin origin"
  shows "\<exists>rest. rest \<noteq> [] \<and> (origin = ''http://'' @ rest \<or> origin = ''https://'' @ rest)"
proof -
  obtain scheme rest where "split_once ''://'' origin = Some (scheme, rest)"
      "scheme = ''http'' \<or> scheme = ''https''" "rest \<noteq> []"
    using assms by (auto simp: is_absolute_http_origin_def split: option.splits)
  then show ?thesis using split_once_Some [of "''://''" origin scheme rest] by auto
qed

lemma to_ws_origin_absolute:
  "to_ws_origin (''http://'' @ rest) = Some (''ws://'' @ rest)"
  "to_ws_origin (''https://'' @ rest) = Some (''wss://'' @ rest)"
  by (simp_all add: to_ws_origin_def)

lemma trim_leading_space:
  assumes "list_all is_ascii s"
  shows "trim (CHR '' '' # s) = trim s"
proof -
  have "\<forall>c\<in>set (CHR '' '' # s). \<not> is_cont c"
    using assms by (auto simp: list_all_iff is_ascii_def is_cont_def)
  then have "chars (CHR '' '' # s) = [CHR '' ''] # map (\<lambda>c. [c]) s" "chars s = map (\<lambda>c. [c]) s"
    using chars_ascii [of "CHR '' '' # s"] chars_ascii [of s] by auto
  then show ?thesis by (simp add: trim_def is_whitespace_single)
qed


definition ten_failures :: "bool list \<Rightarrow> bool" where
  "ten_failures xs \<longleftrightarrow> (\<exists>i. i + 10 \<le> length xs \<and> (\<forall>k<10. \<not> xs ! (i + k)))"

lemma ten_failures_reset:
  assumes "f < 10"
  shows "ten_failures (replicate f False @ True # probes) \<longleftrightarrow> ten_failures probes"
proof
  let ?xs = "replicate f False @ True # probes"
  assume "ten_failures ?xs"
  then obtain i where i: "i + 10 \<le> length ?xs" "\<forall>k<10. \<not> ?xs ! (i + k)"
    unfolding ten_failures_def by blast
  have "f < i"
  proof (rule ccontr)
    assume "\<not> f < i"
    then have "\<not> ?xs ! (i + (f - i))" using i(2) assms by (metis less_imp_diff_less)
    then show False using \<open>\<not> f < i\<close> by (simp add: nth_append)
  qed
  have "\<forall>k<10. \<not> probes ! (i - Suc f + k)"
  proof (intro allI impI)
    fix k :: nat assume "k < 10"
    then have "\<not> ?xs ! (i + k)" using i(2) by blast
    then show "\<not> probes ! (i - Suc f + k)" using \<open>f < i\<close> by (simp add: nth_append nth_Cons' Suc_diff_Suc)
  qed
  then show "ten_failures probes" using i(1) \<open>f < i\<close> unfolding ten_failures_def
    by (intro exI [of _ "i - Suc f"]) auto
next
  assume "ten_failures probes"
  then obtain i where "i + 10 \<le> length probes" "\<forall>k<10. \<not> probes ! (i + k)"
    unfolding ten_failures_def by blast
  then show "ten_failures (replicate f False @ True # probes)" unfolding ten_failures_def
    by (intro exI [of _ "Suc f + i"]) (auto simp: nth_append)
qed

lemma herdr_gone_from: "f < 10 \<Longrightarrow> herdr_gone f probes \<longleftrightarrow> ten_failures (replicate f False @ probes)"
proof (induction probes arbitrary: f)
  case (Cons ok probes)
  show ?case
  proof (cases ok)
    case True
    then show ?thesis using ten_failures_reset [OF Cons.prems, of probes] Cons.IH [of 0]
      by (simp add: HERDR_GONE_AFTER_def HERDR_PROBE_EVERY_def)
  next
    case False
    show ?thesis
    proof (cases "f = 9")
      case True
      then have "ten_failures (replicate f False @ ok # probes)" using False unfolding ten_failures_def
        by (intro exI [of _ 0]) (auto simp: nth_append nth_Cons')
      then show ?thesis using True False by (simp add: HERDR_GONE_AFTER_def HERDR_PROBE_EVERY_def)
    next
      case f: False
      then show ?thesis using False Cons.prems Cons.IH [of "Suc f"]
        by (simp add: HERDR_GONE_AFTER_def HERDR_PROBE_EVERY_def replicate_append_same [symmetric])
    qed
  qed
qed (simp add: ten_failures_def)

section \<open>Properties\<close>

text \<open>A host start-up fails by panic, and only then, when the origin to dial passes the check with its
  surrounding white space removed but does not begin with its scheme; an origin without surrounding
  white space always gives the WebSocket origin with the scheme mapped.\<close>

theorem startup_origin_outcome:
  assumes "si_config io = Ok cfg"
  defines "h \<equiv> pick_connect_origin (si_env io) cfg"
  shows "(run_inner io = None \<longrightarrow> is_absolute_http_origin (trim h) \<and> trim h \<noteq> h) \<and>
    (\<forall>hp. run_inner io = Some (Ok hp) \<longrightarrow>
       is_absolute_http_origin (trim h) \<and>
       (\<exists>rest. h = ''http://'' @ rest \<and> hp_ws_origin hp = ''ws://'' @ rest \<or>
               h = ''https://'' @ rest \<and> hp_ws_origin hp = ''wss://'' @ rest))"
proof (intro conjI impI allI)
  assume n: "run_inner io = None"
  then have a: "is_absolute_http_origin (trim h)" "to_ws_origin h = None"
    using assms by (auto simp: run_inner_def Let_def split: if_splits option.splits)
  moreover have "trim h \<noteq> h"
    using absolute_origin_scheme [OF a(1)] a(2) by (auto simp: to_ws_origin_def)
  ultimately show "is_absolute_http_origin (trim h)" "trim h \<noteq> h" by auto
next
  fix hp assume "run_inner io = Some (Ok hp)"
  then have a: "is_absolute_http_origin (trim h)" "to_ws_origin h = Some (hp_ws_origin hp)"
    using assms by (auto simp: run_inner_def Let_def split: if_splits option.splits)
  then show "is_absolute_http_origin (trim h)"
    "\<exists>rest. h = ''http://'' @ rest \<and> hp_ws_origin hp = ''ws://'' @ rest \<or>
       h = ''https://'' @ rest \<and> hp_ws_origin hp = ''wss://'' @ rest"
    by (auto simp: to_ws_origin_def strip_prefix_Some split: option.splits)
qed

definition sample_startup :: "string \<Rightarrow> nat startup_io" where
  "sample_startup origin = \<lparr>si_config_dir = True, si_ensure_dir = True,
     si_config = Ok ((relay_config_default 20)\<lparr>rc_relay_origin := origin\<rparr>), si_keypair = True, si_words = True,
     si_socket = True, si_ping = Some (Some ''0.9'', Some 22), si_env = None, si_log_file = True\<rparr>"

lemma trim_Nil [simp]: "trim [] = []"
  by (simp add: trim_def)

theorem startup_origin_outcome_witness:
  "\<exists>hp. run_inner (sample_startup ''https://r.example'') = Some (Ok hp) \<and> hp_ws_origin hp = ''wss://r.example''"
proof -
  have t: "trim ''https://r.example'' = ''https://r.example''" by code_simp
  have r: "\<exists>hp. run_inner (sample_startup ''https://r.example'') = Some (Ok hp)"
    by (simp add: run_inner_def sample_startup_def relay_config_default_def pick_connect_origin_def t
        is_absolute_http_origin_def to_ws_origin_def)
  then obtain hp where hp: "run_inner (sample_startup ''https://r.example'') = Some (Ok hp)" ..
  have "si_config (sample_startup ''https://r.example'') =
      Ok ((relay_config_default 20)\<lparr>rc_relay_origin := ''https://r.example''\<rparr>)" by (simp add: sample_startup_def)
  from startup_origin_outcome [OF this] hp show ?thesis
    by (auto simp: pick_connect_origin_def sample_startup_def relay_config_default_def)
qed

text \<open>One leading space in the configured origin, which every check accepts, makes the start-up panic.\<close>

theorem leading_space_panics:
  assumes "list_all is_ascii origin" "is_absolute_http_origin origin" "trim origin = origin"
  shows "run_inner (sample_startup (CHR '' '' # origin)) = None"
proof -
  have "trim (CHR '' '' # origin) = origin" using trim_leading_space [OF assms(1)] assms(3) by simp
  moreover have "origin \<noteq> []" using assms(2) by (auto simp: is_absolute_http_origin_def)
  moreover have "to_ws_origin (CHR '' '' # origin) = None" by (simp add: to_ws_origin_def)
  ultimately show ?thesis using assms(2)
    by (simp add: run_inner_def sample_startup_def relay_config_default_def pick_connect_origin_def)
qed

theorem leading_space_panics_witness: "run_inner (sample_startup '' https://x'') = None"
proof -
  have "trim ''https://x'' = ''https://x''" "list_all is_ascii ''https://x''"
    "is_absolute_http_origin ''https://x''" by code_simp+
  then show ?thesis using leading_space_panics [of "''https://x''"] by simp
qed

text \<open>The bridge gives up on Herdr exactly when ten probes in a row have failed; any shorter outage
  between two successful probes is invisible.\<close>

theorem herdr_gone_after_ten_failures:
  "herdr_gone 0 probes \<longleftrightarrow>
     (\<exists>i. length (take 10 (drop i probes)) = 10 \<and> list_all Not (take 10 (drop i probes)))"
proof -
  have "i + 10 \<le> length probes \<and> (\<forall>k<10. \<not> probes ! (i + k)) \<longleftrightarrow>
      length (take 10 (drop i probes)) = 10 \<and> list_all Not (take 10 (drop i probes))" for i
    by (auto simp: list_all_length)
  then show ?thesis using herdr_gone_from [of 0 probes] by (simp add: ten_failures_def)
qed

text \<open>The host name of the protocol is valid UTF-8 of at most 64 bytes: the longest prefix of the
  trimmed name of the machine that ends at a character boundary, or \<open>unknown\<close>.\<close>

theorem host_name_bounded:
  assumes "valid_utf8 name"
  shows "valid_utf8 (bounded_host_name name) \<and> length (bounded_host_name name) \<le> 64
    \<and> bounded_host_name name = take (length (bounded_host_name name)) name
    \<and> (length name \<le> 64 \<longrightarrow> bounded_host_name name = name)"
proof -
  let ?b = "boundary_down name (min (length name) 64)"
  have b: "?b \<le> min (length name) 64" "is_char_boundary name ?b"
    using boundary_down_props [of name "min (length name) 64"] by auto
  moreover have "?b = length name" if "length name \<le> 64"
    using that by (subst boundary_down.simps) (simp add: is_char_boundary_def)
  ultimately show ?thesis using valid_utf8_take [OF assms b(2)]
    by (auto simp: bounded_host_name_def min_def)
qed

theorem host_name_bounded_witness:
  "valid_utf8 (bounded_host_name (replicate 63 CHR ''a'' @ [CHR 0xC3, CHR 0xA9])) \<and>
   length (bounded_host_name (replicate 63 CHR ''a'' @ [CHR 0xC3, CHR 0xA9])) \<le> 64"
proof -
  have "valid_utf8 (replicate 63 CHR ''a'' @ [CHR 0xC3, CHR 0xA9])" by code_simp
  from host_name_bounded [OF this] show ?thesis by blast
qed

end
