(* ===== verification/Host_Relay.thy ===== *)
theory Host_Relay
  imports Host_Config Device_Store Session_Map Frame_Codec
begin

text \<open>
  \<open>herdr-relay/src/relay/\<close>: the reconnect ladder, the stale detector, the registry of live
  sessions with its close signals, the registration at the relay and the receive loop. The
  f64 expression that applies the jitter, the Noise transport and zlib are arguments; a
  socket is the list of messages it still delivers.
\<close>

section \<open>Reconnect ladder\<close>

text \<open>\<open>Duration::MAX\<close>, at which \<open>saturating_mul\<close> stops.\<close>

definition DURATION_MAX :: duration where "DURATION_MAX = (2 ^ 64 - 1) * 1000000000 + 999999999"

record 'f backoff =
  bo_initial :: duration
  bo_max :: duration
  bo_jitter :: 'f
  bo_reset_after :: duration
  bo_attempt :: "32 word"
  bo_connected_at :: "instant option"

definition backoff_new :: "'f relay_config \<Rightarrow> 'f backoff" where
  "backoff_new cfg =
     \<lparr>bo_initial = ms (rc_reconnect_initial_ms cfg), bo_max = ms (rc_reconnect_max_ms cfg),
      bo_jitter = rc_reconnect_jitter cfg, bo_reset_after = secs (rc_reconnect_reset_after_s cfg),
      bo_attempt = 0, bo_connected_at = None\<rparr>"

definition record_connected :: "instant \<Rightarrow> 'f backoff \<Rightarrow> 'f backoff" where
  "record_connected now b = b\<lparr>bo_connected_at := Some now\<rparr>"

definition record_disconnected :: "instant \<Rightarrow> 'f backoff \<Rightarrow> 'f backoff" where
  "record_disconnected now b =
     (let survived = (case bo_connected_at b of Some since \<Rightarrow> bo_reset_after b \<le> now - since | None \<Rightarrow> False);
          b1 = (if survived then b\<lparr>bo_attempt := 0\<rparr> else b)
      in b1\<lparr>bo_connected_at := None\<rparr>)"

text \<open>
  \<open>jittered jitter base\<close> is the wait in whole milliseconds that
  \<open>(base as f64 * (1.0 + unit * jitter)).max(0.0) as u64\<close> gives for the drawn unit.
\<close>

definition next_wait :: "('f \<Rightarrow> nat \<Rightarrow> nat) \<Rightarrow> 'f backoff \<Rightarrow> 'f backoff \<times> duration" where
  "next_wait jittered b =
     (let exponent = min (unat (bo_attempt b)) 31;
          base = min (min (bo_initial b * 2 ^ exponent) DURATION_MAX) (bo_max b);
          attempt = (if bo_attempt b = - 1 then - 1 else bo_attempt b + 1)
      in (b\<lparr>bo_attempt := attempt\<rparr>, ms (jittered (bo_jitter b) (base div 1000000))))"

definition attempt_number :: "'f backoff \<Rightarrow> 32 word" where
  "attempt_number b = bo_attempt b + 1"

fun next_waits :: "('f \<Rightarrow> nat \<Rightarrow> nat) \<Rightarrow> nat \<Rightarrow> 'f backoff \<Rightarrow> duration list" where
  "next_waits jittered 0 b = []"
| "next_waits jittered (Suc n) b = (let (b', w) = next_wait jittered b in w # next_waits jittered n b')"

section \<open>Stale detector\<close>

record stale_detector =
  sd_pong_timeout :: duration
  sd_hold_open :: duration
  sd_last_pong_at :: "instant option"
  sd_disconnected_at :: "instant option"

definition stale_new :: "duration \<Rightarrow> duration \<Rightarrow> stale_detector" where
  "stale_new pong_timeout hold_open =
     \<lparr>sd_pong_timeout = pong_timeout, sd_hold_open = hold_open, sd_last_pong_at = None, sd_disconnected_at = None\<rparr>"

definition record_pong :: "instant \<Rightarrow> stale_detector \<Rightarrow> stale_detector" where
  "record_pong now d = d\<lparr>sd_last_pong_at := Some now, sd_disconnected_at := None\<rparr>"

definition stale_record_disconnected :: "instant \<Rightarrow> stale_detector \<Rightarrow> stale_detector" where
  "stale_record_disconnected now d = d\<lparr>sd_disconnected_at := Some now\<rparr>"

definition is_stale :: "instant \<Rightarrow> instant \<Rightarrow> stale_detector \<Rightarrow> bool" where
  "is_stale now last_ping_at d =
     (let last_seen = (case sd_last_pong_at d of Some t \<Rightarrow> t | None \<Rightarrow> last_ping_at)
      in sd_pong_timeout d \<le> now - last_seen)"

definition within_hold_open :: "instant \<Rightarrow> stale_detector \<Rightarrow> bool" where
  "within_hold_open now d =
     (case sd_disconnected_at d of None \<Rightarrow> True | Some since \<Rightarrow> now - since < sd_hold_open d)"

section \<open>Session registry\<close>

text \<open>
  A \<open>oneshot\<close> channel is an entry of an explicit store: what its receiver will see, and
  whether the receiver is still there. Dropping a sender that sent nothing is \<open>HungUp\<close>.
\<close>

datatype close_signal = NoSignal | SignalRevoked | HungUp

record oneshot =
  os_signal :: close_signal
  os_receiver :: bool

record registered_session =
  rs_device_id :: "string option"
  rs_close :: nat

record session_registry =
  rg_sessions :: "(handle, registered_session) hmap"
  rg_chans :: "(nat, oneshot) hmap"
  rg_next :: nat

definition registry_new :: session_registry where
  "registry_new = \<lparr>rg_sessions = [], rg_chans = [], rg_next = 0\<rparr>"

definition signal_of :: "session_registry \<Rightarrow> nat \<Rightarrow> close_signal" where
  "signal_of rg c = (case map_of (rg_chans rg) c of Some o' \<Rightarrow> os_signal o' | None \<Rightarrow> NoSignal)"

definition has_receiver :: "session_registry \<Rightarrow> nat \<Rightarrow> bool" where
  "has_receiver rg c = (case map_of (rg_chans rg) c of Some o' \<Rightarrow> os_receiver o' | None \<Rightarrow> False)"

definition put_signal :: "close_signal \<Rightarrow> nat \<Rightarrow> session_registry \<Rightarrow> session_registry" where
  "put_signal sig c rg =
     (case map_of (rg_chans rg) c of
        Some o' \<Rightarrow> rg\<lparr>rg_chans := AList.update c (o'\<lparr>os_signal := sig\<rparr>) (rg_chans rg)\<rparr>
      | None \<Rightarrow> rg)"

definition drop_close_receiver :: "nat \<Rightarrow> session_registry \<Rightarrow> session_registry" where
  "drop_close_receiver c rg =
     (case map_of (rg_chans rg) c of
        Some o' \<Rightarrow> rg\<lparr>rg_chans := AList.update c (o'\<lparr>os_receiver := False\<rparr>) (rg_chans rg)\<rparr>
      | None \<Rightarrow> rg)"

definition drop_entry :: "registered_session option \<Rightarrow> session_registry \<Rightarrow> session_registry" where
  "drop_entry e rg = (case e of Some s \<Rightarrow> put_signal HungUp (rs_close s) rg | None \<Rightarrow> rg)"

definition registry_register :: "handle \<Rightarrow> string option \<Rightarrow> session_registry \<Rightarrow> session_registry \<times> nat" where
  "registry_register rh device_id rg =
     (let c = rg_next rg;
          old = map_of (rg_sessions rg) rh;
          rg1 = rg\<lparr>rg_chans := AList.update c \<lparr>os_signal = NoSignal, os_receiver = True\<rparr> (rg_chans rg),
                   rg_next := c + 1,
                   rg_sessions := AList.update rh \<lparr>rs_device_id = device_id, rs_close = c\<rparr> (rg_sessions rg)\<rparr>
      in (drop_entry old rg1, c))"

definition set_device_id :: "handle \<Rightarrow> string \<Rightarrow> session_registry \<Rightarrow> session_registry" where
  "set_device_id rh device_id rg =
     (case map_of (rg_sessions rg) rh of
        Some s \<Rightarrow> rg\<lparr>rg_sessions := AList.update rh (s\<lparr>rs_device_id := Some device_id\<rparr>) (rg_sessions rg)\<rparr>
      | None \<Rightarrow> rg)"

definition registry_unregister :: "handle \<Rightarrow> session_registry \<Rightarrow> session_registry" where
  "registry_unregister rh rg =
     drop_entry (map_of (rg_sessions rg) rh) (rg\<lparr>rg_sessions := AList.delete rh (rg_sessions rg)\<rparr>)"

definition to_be_closed :: "revoke_result \<Rightarrow> registered_session \<Rightarrow> bool" where
  "to_be_closed res s \<longleftrightarrow>
     rv_all res \<or> (case rs_device_id s of Some i \<Rightarrow> list_ex (\<lambda>revoked. revoked = i) (rv_revoked res) | None \<Rightarrow> False)"

text \<open>One iteration of the closing loop: remove the entry and send; the count grows when the receiver is there.\<close>

definition close_one :: "handle \<Rightarrow> session_registry \<times> nat \<Rightarrow> session_registry \<times> nat" where
  "close_one rh st =
     (let (rg, closed) = st in
      case map_of (rg_sessions rg) rh of
        None \<Rightarrow> (rg, closed)
      | Some s \<Rightarrow>
          let rg1 = rg\<lparr>rg_sessions := AList.delete rh (rg_sessions rg)\<rparr> in
          if has_receiver rg (rs_close s) then (put_signal SignalRevoked (rs_close s) rg1, closed + 1)
          else (rg1, closed))"

definition close_for_revocation :: "revoke_result \<Rightarrow> session_registry \<Rightarrow> session_registry \<times> nat" where
  "close_for_revocation res rg =
     fold close_one (map fst (filter (\<lambda>(_, s). to_be_closed res s) (rg_sessions rg))) (rg, 0)"

section \<open>Registration at the relay\<close>

definition CONNECT_TIMEOUT :: duration where "CONNECT_TIMEOUT = secs 30"

datatype connect_error =
    CE_Connect
  | CE_Io
  | CE_Timeout
  | CE_UnexpectedRegistrationReply string
  | CE_Noise

definition link_error_class :: "connect_error \<Rightarrow> string" where
  "link_error_class e =
     (case e of
        CE_Timeout \<Rightarrow> ''i/o timeout''
      | CE_Connect \<Rightarrow> ''connect failed'' | CE_Io \<Rightarrow> ''connect failed''
      | CE_UnexpectedRegistrationReply _ \<Rightarrow> ''registration rejected''
      | CE_Noise \<Rightarrow> ''handshake failed'')"

definition registration_frame :: "bool \<Rightarrow> string" where
  "registration_frame pairing =
     (if pairing then ''{\"type\":\"host_register\",\"protocol\":1,\"pairing\":true}''
      else ''{\"type\":\"host_register\",\"protocol\":1}'')"

definition closed_by_relay :: connect_error where
  "closed_by_relay = CE_UnexpectedRegistrationReply ''the relay closed the connection''"

text \<open>What a socket delivers: messages and I/O errors; the end of the list is the end of the stream.\<close>

datatype ws_item = WsMessage message | WsIoError

fun next_message :: "ws_item list \<Rightarrow> (message, connect_error) result \<times> ws_item list" where
  "next_message [] = (Err closed_by_relay, [])"
| "next_message (WsIoError # rest) = (Err CE_Io, rest)"
| "next_message (WsMessage m # rest) =
     (case m of
        Ping \<Rightarrow> next_message rest
      | Pong \<Rightarrow> next_message rest
      | Close _ \<Rightarrow> (Err closed_by_relay, rest)
      | other \<Rightarrow> (Ok other, rest))"

text \<open>\<open>debug\<close> is the debug text of a message.\<close>

definition next_text :: "(message \<Rightarrow> string) \<Rightarrow> ws_item list \<Rightarrow> (string, connect_error) result \<times> ws_item list" where
  "next_text debug ws =
     (case next_message ws of
        (Ok m, rest) \<Rightarrow> ((case m of Text t \<Rightarrow> Ok t | other \<Rightarrow> Err (CE_UnexpectedRegistrationReply (debug other))), rest)
      | (Err e, rest) \<Rightarrow> (Err e, rest))"

definition next_binary :: "(message \<Rightarrow> string) \<Rightarrow> ws_item list \<Rightarrow> (bytes, connect_error) result \<times> ws_item list" where
  "next_binary debug ws =
     (case next_message ws of
        (Ok m, rest) \<Rightarrow> ((case m of Binary b \<Rightarrow> Ok b | other \<Rightarrow> Err (CE_UnexpectedRegistrationReply (debug other))), rest)
      | (Err e, rest) \<Rightarrow> (Err e, rest))"

text \<open>
  \<open>register_host_inner\<close> after the connection opened: \<open>None\<close> for a connection that failed;
  \<open>sent\<close> is the outcome of sending the registration frame.
\<close>

definition register_host_inner ::
  "(message \<Rightarrow> string) \<Rightarrow> bool \<Rightarrow> ws_item list option \<Rightarrow> bool \<Rightarrow> (ws_item list, connect_error) result \<times> string list" where
  "register_host_inner debug pairing connected sent =
     (case connected of
        None \<Rightarrow> (Err CE_Connect, [])
      | Some ws \<Rightarrow>
          if \<not> sent then (Err CE_Io, [])
          else (case next_text debug ws of
             (Err e, _) \<Rightarrow> Err e
           | (Ok text, rest) \<Rightarrow>
               if contains_str ''session_joined'' text then Ok rest
               else Err (CE_UnexpectedRegistrationReply text), [registration_frame pairing]))"

text \<open>The bound on registration; \<open>took\<close> is the time the exchange takes.\<close>

definition register_host_bounded :: "duration \<Rightarrow> ('a, connect_error) result \<Rightarrow> ('a, connect_error) result" where
  "register_host_bounded took r = (if CONNECT_TIMEOUT < took then Err CE_Timeout else r)"

section \<open>Receiving frames\<close>

datatype session_error = SE_Io | SE_Closed | SE_Codec frame_codec_error

text \<open>
  \<open>receive_frame\<close> over the items of a socket, each with the instant it arrives at: the
  result, the state it leaves and the items not read. A socket that delivers nothing more
  has ended.
\<close>

fun receive_frame ::
  "(bytes \<Rightarrow> zread list) \<Rightarrow> ('r \<Rightarrow> bytes \<Rightarrow> 'r \<times> bytes option) \<Rightarrow> reassembler \<Rightarrow> 'r \<Rightarrow> (ws_item \<times> instant) list \<Rightarrow>
     (bytes, session_error) result \<times> reassembler \<times> 'r \<times> (ws_item \<times> instant) list" where
  "receive_frame reads decrypt r t [] = (Err SE_Closed, r, t, [])"
| "receive_frame reads decrypt r t ((WsIoError, now) # ws) = (Err SE_Io, r, t, ws)"
| "receive_frame reads decrypt r t ((WsMessage m, now) # ws) =
     (case m of
        Binary b \<Rightarrow>
          (case decode_fragment reads decrypt r t b now of
             (r1, t1, Ok (Some envelope)) \<Rightarrow> (Ok envelope, r1, t1, ws)
           | (r1, t1, Ok None) \<Rightarrow> receive_frame reads decrypt r1 t1 ws
           | (r1, t1, Err e) \<Rightarrow> (Err (SE_Codec e), r1, t1, ws))
      | Close _ \<Rightarrow> (Err SE_Closed, r, t, ws)
      | _ \<Rightarrow> receive_frame reads decrypt r t ws)"

section \<open>The ladder\<close>

lemma next_waits_ladder:
  assumes "bo_max b \<le> DURATION_MAX"
  shows "next_waits jittered n b = map (\<lambda>i. ms (jittered (bo_jitter b)
     (min (bo_initial b * 2 ^ min (unat (bo_attempt b) + i) 31) (bo_max b) div 1000000))) [0..<n]"
  using assms
proof (induction n arbitrary: b)
  case (Suc n)
  let ?b = "fst (next_wait jittered b)"
  have att: "min (unat (bo_attempt ?b) + i) 31 = min (unat (bo_attempt b) + Suc i) 31" for i
  proof (cases "bo_attempt b = - 1")
    case True
    have "31 \<le> unat (- 1 :: 32 word)" by transfer (simp add: take_bit_minus_one_eq_mask mask_eq_exp_minus_1)
    then show ?thesis using True by (simp add: next_wait_def Let_def min_def)
  next
    case False
    then have "unat (bo_attempt b + 1) = Suc (unat (bo_attempt b))"
      by (metis add.commute eq_neg_iff_add_eq_0 unatSuc)
    then show ?thesis using False by (simp add: next_wait_def Let_def)
  qed
  have same: "bo_initial ?b = bo_initial b" "bo_max ?b = bo_max b" "bo_jitter ?b = bo_jitter b"
    by (simp_all add: next_wait_def Let_def)
  have w: "snd (next_wait jittered b) = ms (jittered (bo_jitter b)
      (min (bo_initial b * 2 ^ min (unat (bo_attempt b)) 31) (bo_max b) div 1000000))"
    using Suc.prems by (simp add: next_wait_def Let_def min_def)
  have step: "next_waits jittered (Suc n) b = snd (next_wait jittered b) # next_waits jittered n ?b"
    by (simp add: case_prod_beta)
  have up: "[0..<Suc n] = 0 # map Suc [0..<n]" by (simp add: map_Suc_upt upt_conv_Cons del: upt_Suc)
  show ?case
    unfolding step w up using Suc.IH [of ?b] Suc.prems by (simp add: same att)
qed simp

section \<open>The registry\<close>

definition registry_ok :: "session_registry \<Rightarrow> bool" where
  "registry_ok rg \<longleftrightarrow> keys_ok (rg_sessions rg)
     \<and> (\<forall>rh s. map_of (rg_sessions rg) rh = Some s \<longrightarrow>
          map_of (rg_chans rg) (rs_close s) \<noteq> None \<and> rs_close s < rg_next rg \<and> signal_of rg (rs_close s) = NoSignal)
     \<and> (\<forall>rh rh' s s'. map_of (rg_sessions rg) rh = Some s \<and> map_of (rg_sessions rg) rh' = Some s'
          \<and> rs_close s = rs_close s' \<longrightarrow> rh = rh')"

lemma put_signal_simps [simp]:
  "rg_sessions (put_signal sig c rg) = rg_sessions rg"
  "rg_next (put_signal sig c rg) = rg_next rg"
  "map_of (rg_chans (put_signal sig c rg)) c' = None \<longleftrightarrow> map_of (rg_chans rg) c' = None"
  "has_receiver (put_signal sig c rg) c' = has_receiver rg c'"
  by (auto simp: put_signal_def has_receiver_def update_conv' split: option.splits)

lemma signal_put [simp]:
  "signal_of (put_signal sig c rg) c' = (if c' = c \<and> map_of (rg_chans rg) c \<noteq> None then sig else signal_of rg c')"
  by (auto simp: put_signal_def signal_of_def update_conv' split: option.splits)

lemma put_signal_chan [simp]:
  "(\<exists>y. map_of (rg_chans (put_signal sig c rg)) c' = Some y) \<longleftrightarrow> (\<exists>y. map_of (rg_chans rg) c' = Some y)"
  by (auto simp: put_signal_def update_conv' split: option.splits)

lemma new_chan_simps [simp]:
  "signal_of (rg\<lparr>rg_chans := AList.update c o' (rg_chans rg), rg_next := n\<rparr>) c' =
     (if c' = c then os_signal o' else signal_of rg c')"
  by (simp add: signal_of_def update_conv')

lemma sessions_only [simp]:
  "signal_of (rg\<lparr>rg_sessions := m\<rparr>) c = signal_of rg c"
  "has_receiver (rg\<lparr>rg_sessions := m\<rparr>) c = has_receiver rg c"
  by (simp_all add: signal_of_def has_receiver_def)

definition live_session :: "session_registry \<Rightarrow> handle \<Rightarrow> bool" where
  "live_session rg rh \<longleftrightarrow> (case map_of (rg_sessions rg) rh of Some s \<Rightarrow> has_receiver rg (rs_close s) | None \<Rightarrow> False)"

definition closes :: "session_registry \<Rightarrow> handle \<Rightarrow> nat \<Rightarrow> bool" where
  "closes rg rh c \<longleftrightarrow> (\<exists>s. map_of (rg_sessions rg) rh = Some s \<and> rs_close s = c \<and> has_receiver rg c)"

lemma close_one_step:
  assumes "close_one rh (rg, k) = (rg', n)"
  shows "rg_sessions rg' = AList.delete rh (rg_sessions rg)" "has_receiver rg' = has_receiver rg"
    and "n = k + (if live_session rg rh then 1 else 0)"
    and "signal_of rg' c = (if closes rg rh c then SignalRevoked else signal_of rg c)"
proof -
  have h: "has_receiver rg c \<Longrightarrow> map_of (rg_chans rg) c \<noteq> None" for c
    by (auto simp: has_receiver_def split: option.splits)
  show "rg_sessions rg' = AList.delete rh (rg_sessions rg)" "has_receiver rg' = has_receiver rg"
    "n = k + (if live_session rg rh then 1 else 0)"
    using assms by (auto simp: close_one_def live_session_def Let_def delete_id map_of_eq_None_iff [symmetric]
        split: option.splits if_splits)
  show "signal_of rg' c = (if closes rg rh c then SignalRevoked else signal_of rg c)"
    using assms h by (auto simp: close_one_def closes_def Let_def split: option.splits if_splits)
qed

text \<open>The closing loop over any list of distinct handles.\<close>

lemma close_fold:
  assumes "distinct hs" "fold close_one hs (rg, k) = (rg', n)"
  shows "rg_sessions rg' = filter (\<lambda>(rh, s). rh \<notin> set hs) (rg_sessions rg)
    \<and> n = k + length (filter (live_session rg) hs)
    \<and> signal_of rg' c = (if \<exists>rh\<in>set hs. closes rg rh c then SignalRevoked else signal_of rg c)"
  using assms
proof (induction hs arbitrary: rg k)
  case (Cons rh hs)
  obtain rg1 k1 where st: "close_one rh (rg, k) = (rg1, k1)" by force
  note one = close_one_step [OF st]
  have other: "map_of (rg_sessions rg1) rh' = map_of (rg_sessions rg) rh'" if "rh' \<in> set hs" for rh'
    using that Cons.prems(1) one(1) by (auto simp: delete_conv')
  then have "live_session rg1 rh' = live_session rg rh'" "closes rg1 rh' = closes rg rh'" if "rh' \<in> set hs" for rh'
    using that by (auto simp: live_session_def closes_def fun_eq_iff one(2) other split: option.splits)
  moreover from this have "filter (live_session rg1) hs = filter (live_session rg) hs"
    by (intro filter_cong) auto
  moreover have "fold close_one hs (rg1, k1) = (rg', n)" using Cons.prems(2) st by simp
  moreover have "filter (\<lambda>(rh, s). rh \<notin> set hs) (AList.delete rh (rg_sessions rg)) =
      filter (\<lambda>(rh', s). rh' \<noteq> rh \<and> rh' \<notin> set hs) (rg_sessions rg)"
    by (auto simp: AList.delete_eq intro: filter_cong)
  ultimately show ?case using Cons.IH [of rg1 k1] Cons.prems(1) one by (auto simp: insert_iff conj_commute)
qed simp

lemma filter_by_key:
  assumes "keys_ok m"
  shows "filter (\<lambda>(k, v). k \<notin> set (map fst (filter P m))) m = filter (\<lambda>x. \<not> P x) m"
proof (rule filter_cong)
  fix x assume x: "x \<in> set m"
  have "x = y" if "y \<in> set m" "fst y = fst x" for y
    using that x assms eq_key_imp_eq_value [of m "fst x" "snd x" "snd y"]
    by (cases x; cases y) (auto simp: keys_ok_def)
  then have "fst x \<in> set (map fst (filter P m)) \<longleftrightarrow> P x" using x by auto
  then show "(\<lambda>(k, v). k \<notin> set (map fst (filter P m))) x \<longleftrightarrow> \<not> P x" by (cases x) simp
qed simp

lemma revocation_spec:
  assumes "registry_ok rg" "close_for_revocation res rg = (rg', n)"
  shows "rg_sessions rg' = filter (\<lambda>(rh, s). \<not> to_be_closed res s) (rg_sessions rg) \<and>
    n = length (filter (\<lambda>(rh, s). to_be_closed res s \<and> has_receiver rg (rs_close s)) (rg_sessions rg)) \<and>
    (\<forall>c. signal_of rg' c = (if \<exists>(rh, s)\<in>set (rg_sessions rg). to_be_closed res s \<and> rs_close s = c \<and> has_receiver rg c
       then SignalRevoked else signal_of rg c))"
proof -
  let ?P = "\<lambda>(rh :: handle, s). to_be_closed res s" and ?m = "rg_sessions rg"
  let ?hs = "map fst (filter ?P ?m)"
  have k: "keys_ok ?m" using assms(1) by (simp add: registry_ok_def)
  then have d: "distinct ?hs" by (simp add: keys_ok_def distinct_map_filter)
  have f: "fold close_one ?hs (rg, 0) = (rg', n)" using assms(2) by (simp add: close_for_revocation_def)
  have mo: "map_of ?m rh = Some s" if "(rh, s) \<in> set ?m" for rh s
    using that k by (simp add: keys_ok_def)
  have "length (filter (live_session rg) ?hs) = length (filter (live_session rg \<circ> fst) (filter ?P ?m))"
    by (simp add: filter_map)
  also have "filter (live_session rg \<circ> fst) (filter ?P ?m) =
      filter (\<lambda>(rh, s). to_be_closed res s \<and> has_receiver rg (rs_close s)) ?m"
    unfolding filter_filter by (rule filter_cong) (auto simp: live_session_def mo)
  finally have n: "n = length (filter (\<lambda>(rh, s). to_be_closed res s \<and> has_receiver rg (rs_close s)) ?m)"
    using close_fold [OF d f] by simp
  have s: "rg_sessions rg' = filter (\<lambda>(rh, s). \<not> to_be_closed res s) ?m"
    using close_fold [OF d f] filter_by_key [OF k, of ?P] by (auto simp: case_prod_unfold)
  have "(\<exists>rh\<in>set ?hs. closes rg rh c) \<longleftrightarrow>
      (\<exists>(rh, s)\<in>set ?m. to_be_closed res s \<and> rs_close s = c \<and> has_receiver rg c)" for c
    by (auto simp: closes_def mo) (force dest: mo)+
  then show ?thesis using s n close_fold [OF d f] by simp
qed

datatype registry_op =
    RG_Register handle "string option"
  | RG_SetDeviceId handle string
  | RG_Unregister handle
  | RG_Close revoke_result
  | RG_DropReceiver nat

fun registry_exec :: "registry_op \<Rightarrow> session_registry \<Rightarrow> session_registry" where
  "registry_exec (RG_Register rh i) rg = fst (registry_register rh i rg)"
| "registry_exec (RG_SetDeviceId rh i) rg = set_device_id rh i rg"
| "registry_exec (RG_Unregister rh) rg = registry_unregister rh rg"
| "registry_exec (RG_Close res) rg = fst (close_for_revocation res rg)"
| "registry_exec (RG_DropReceiver c) rg = drop_close_receiver c rg"

lemma registry_register_ok:
  assumes "registry_ok rg"
  shows "registry_ok (fst (registry_register rh i rg))"
proof -
  have lt: "rs_close s < rg_next rg" if "map_of (rg_sessions rg) h = Some s" for h s
    using that assms by (auto simp: registry_ok_def)
  then have ne: "rs_close s \<noteq> rg_next rg" "rg_next rg \<noteq> rs_close s" if "map_of (rg_sessions rg) h = Some s" for h s
    using that by (metis less_irrefl)+
  show ?thesis
  proof (cases "map_of (rg_sessions rg) rh")
    case None
    then show ?thesis using assms
      by (auto simp: registry_ok_def registry_register_def Let_def drop_entry_def update_conv' less_Suc_eq
          dest: ne split: if_splits)
  next
    case (Some old)
    then show ?thesis using assms ne [OF Some]
      by (auto simp: registry_ok_def registry_register_def Let_def drop_entry_def update_conv' less_Suc_eq
          dest: ne split: if_splits)
  qed
qed

lemma set_device_id_ok: "registry_ok rg \<Longrightarrow> registry_ok (set_device_id rh i rg)"
  by (auto simp: registry_ok_def set_device_id_def update_conv' split: option.splits if_splits)

lemma unregister_ok: "registry_ok rg \<Longrightarrow> registry_ok (registry_unregister rh rg)"
  by (auto simp: registry_ok_def registry_unregister_def drop_entry_def delete_conv' split: option.splits if_splits)

lemma drop_close_receiver_ok: "registry_ok rg \<Longrightarrow> registry_ok (drop_close_receiver c rg)"
  by (auto simp: registry_ok_def drop_close_receiver_def signal_of_def update_conv' split: option.splits if_splits)

lemma close_one_ok:
  assumes "registry_ok rg" "close_one rh (rg, k) = (rg', n)"
  shows "registry_ok rg'"
  using assms
  by (auto simp: registry_ok_def close_one_def Let_def delete_conv' split: option.splits if_splits)

lemma close_for_revocation_ok: "registry_ok rg \<Longrightarrow> registry_ok (fst (close_for_revocation res rg))"
proof -
  have "registry_ok rg \<Longrightarrow> registry_ok (fst (fold close_one hs (rg, k)))" for hs k
    by (induction hs arbitrary: rg k) (auto, metis close_one_ok prod.collapse)
  then show "registry_ok rg \<Longrightarrow> ?thesis" by (simp add: close_for_revocation_def)
qed

interpretation registry_ops: preserved registry_exec "\<lambda>_. True" registry_ok
proof
  fix rg op assume "registry_ok rg" "True"
  then show "registry_ok (registry_exec op rg)"
    by (cases op) (simp_all add: registry_register_ok set_device_id_ok unregister_ok close_for_revocation_ok
        drop_close_receiver_ok)
qed

lemma registry_reachable_ok: "registry_ok (fold registry_exec ops registry_new)"
  by (rule registry_ops.keep_run) (simp_all add: registry_ok_def registry_new_def list_all_iff)

section \<open>Properties\<close>

text \<open>After a connection that lasted from \<open>t\<close> to \<open>t'\<close>, the following waits climb the ladder
  250 ms, 500 ms, ... doubling up to the ceiling (before jitter): from its first rung when the
  connection survived the reset time, otherwise from the rung reached before.\<close>

theorem reconnect_ladder:
  assumes "bo_max b \<le> DURATION_MAX"
  shows "next_waits jittered n (record_disconnected t' (record_connected t b)) =
    map (\<lambda>i. ms (jittered (bo_jitter b) (min (bo_initial b * 2 ^ min
      ((if bo_reset_after b \<le> t' - t then 0 else unat (bo_attempt b)) + i) 31) (bo_max b) div 1000000))) [0..<n]"
  using next_waits_ladder [of "record_disconnected t' (record_connected t b)" jittered n] assms
  by (simp add: record_disconnected_def record_connected_def Let_def)

theorem reconnect_ladder_witness:
  "next_waits (\<lambda>_ n. n) 7 (record_disconnected (secs 31) (record_connected 0 (backoff_new (relay_config_default (20 :: nat))))) =
    map ms [250, 500, 1000, 2000, 4000, 8000, 8000]"
proof -
  have "bo_max (backoff_new (relay_config_default (20 :: nat))) \<le> DURATION_MAX"
    by (simp add: backoff_new_def relay_config_default_def DURATION_MAX_def ms_def)
  from reconnect_ladder [OF this, of "\<lambda>_ n. n" 7 "secs 31" 0] show ?thesis
    by (simp add: backoff_new_def relay_config_default_def ms_def secs_def upt_rec min_def)
qed


definition carries_data :: "ws_item \<times> instant \<Rightarrow> bool" where
  "carries_data i \<longleftrightarrow> (case fst i of WsIoError \<Rightarrow> True | WsMessage m \<Rightarrow>
     (case m of Binary _ \<Rightarrow> True | Close _ \<Rightarrow> True | _ \<Rightarrow> False))"

text \<open>What the receive loop returns depends on binary, close and error items only: text, ping and pong
  messages between the fragments of a frame change neither the result nor the reassembler nor the
  transport.\<close>

theorem receive_ignores_control:
  "receive_frame reads decrypt r t (filter carries_data ws) =
    (case receive_frame reads decrypt r t ws of (res, r', t', rest) \<Rightarrow> (res, r', t', filter carries_data rest))"
  by (induction reads decrypt r t ws rule: receive_frame.induct)
     (auto simp: carries_data_def split: message.splits prod.splits sum.splits option.splits)

end
