(* ===== verification/Host_Core.thy ===== *)
theory Host_Core
  imports Host_Relay Host_Pairing
begin

text \<open>
  \<open>herdr-relay/src/bridge.rs\<close>: the shared state of the Host bridge and every section of code
  that runs under its lock, one definition per section: the control commands, the guard of
  the one active session, registrations, enrolment and the locked sections of the
  registration and pairing loops. A task is a number; \<open>abort\<close> asks it to end, and its
  end, which drops what it holds, is a step of its own.

  The stop channel is \<open>tokio::sync::watch\<close>: \<open>send\<close> fails, and keeps the old value, when no
  receiver exists; \<open>subscribe\<close> sees the stored value. The file operations, the random
  source, the QR encoder, the hashes, the clock and the key storage are arguments.
\<close>

section \<open>State\<close>

datatype link_state = Connected | Idle | Offline | Stopped

record link_status =
  ls_state :: link_state
  ls_attempt :: "32 word"
  ls_error :: "string option"

definition link_idle :: link_status where
  "link_idle = \<lparr>ls_state = Idle, ls_attempt = 0, ls_error = None\<rparr>"

definition link_connected :: link_status where
  "link_connected = \<lparr>ls_state = Connected, ls_attempt = 0, ls_error = None\<rparr>"

definition link_stopped :: link_status where
  "link_stopped = \<lparr>ls_state = Stopped, ls_attempt = 0, ls_error = None\<rparr>"

record 'q pairing_slot =
  op_session :: "'q pairing_session"
  op_minted_at :: instant
  op_registered :: bool
  op_task :: nat

record active_session =
  ac_device_id :: "string option"
  ac_handle :: handle

record watch_chan =
  wc_value :: bool
  wc_version :: nat
  wc_receivers :: "nat list"

record ('q, 'k) host_state =
  hs_store :: device_store
  hs_pairing :: "'q pairing_slot option"
  hs_active :: "active_session option"
  hs_link :: link_status
  hs_stopped :: bool
  hs_relay_origin :: string
  hs_keypair :: 'k
  hs_registry :: session_registry
  hs_words :: "string list"
  hs_registrations :: "(string, nat) hmap"
  hs_stop_tx :: watch_chan
  hs_next_task :: nat
  hs_aborted :: "nat list"

section \<open>Tasks and the stop channel\<close>

definition abort_task :: "nat \<Rightarrow> ('q, 'k) host_state \<Rightarrow> ('q, 'k) host_state" where
  "abort_task t s = s\<lparr>hs_aborted := t # hs_aborted s\<rparr>"

text \<open>\<open>registrations.remove\<close>, aborting the task it held.\<close>

definition forget_registration :: "string \<Rightarrow> ('q, 'k) host_state \<Rightarrow> ('q, 'k) host_state" where
  "forget_registration i s = (case map_of (hs_registrations s) i of
     Some t \<Rightarrow> abort_task t (s\<lparr>hs_registrations := AList.delete i (hs_registrations s)\<rparr>) | None \<Rightarrow> s)"

definition spawn_task :: "('q, 'k) host_state \<Rightarrow> ('q, 'k) host_state \<times> nat" where
  "spawn_task s = (s\<lparr>hs_next_task := hs_next_task s + 1\<rparr>, hs_next_task s)"

definition stop_send :: "bool \<Rightarrow> ('q, 'k) host_state \<Rightarrow> ('q, 'k) host_state" where
  "stop_send v s =
     (if wc_receivers (hs_stop_tx s) = [] then s
      else s\<lparr>hs_stop_tx := (hs_stop_tx s)\<lparr>wc_value := v, wc_version := wc_version (hs_stop_tx s) + 1\<rparr>\<rparr>)"

definition stop_subscribe :: "nat \<Rightarrow> ('q, 'k) host_state \<Rightarrow> ('q, 'k) host_state" where
  "stop_subscribe t s =
     s\<lparr>hs_stop_tx := (hs_stop_tx s)\<lparr>wc_receivers := wc_receivers (hs_stop_tx s) @ [t]\<rparr>\<rparr>"

text \<open>A task that returned or was aborted drops its receivers.\<close>

definition task_ends :: "nat \<Rightarrow> ('q, 'k) host_state \<Rightarrow> ('q, 'k) host_state" where
  "task_ends t s =
     s\<lparr>hs_stop_tx := (hs_stop_tx s)\<lparr>wc_receivers := filter (\<lambda>u. u \<noteq> t) (wc_receivers (hs_stop_tx s))\<rparr>\<rparr>"

text \<open>\<open>wait_until_running\<close> lets a task pass when the stored value is false.\<close>

definition may_run :: "('q, 'k) host_state \<Rightarrow> bool" where
  "may_run s \<longleftrightarrow> \<not> wc_value (hs_stop_tx s)"

section \<open>Startup\<close>

definition host_init ::
  "device_store \<Rightarrow> string \<Rightarrow> 'k \<Rightarrow> string list \<Rightarrow> ('q, 'k) host_state" where
  "host_init store origin keypair words =
     \<lparr>hs_store = store, hs_pairing = None, hs_active = None, hs_link = link_idle, hs_stopped = False,
      hs_relay_origin = origin, hs_keypair = keypair, hs_registry = registry_new, hs_words = words,
      hs_registrations = [], hs_stop_tx = \<lparr>wc_value = False, wc_version = 0, wc_receivers = []\<rparr>,
      hs_next_task = 0, hs_aborted = []\<rparr>"

text \<open>\<open>dec\<close> is base64url decoding, as in the handle codec.\<close>

definition spawn_registration ::
  "(string \<Rightarrow> 8 word list option) \<Rightarrow> string \<Rightarrow> ('q, 'k) host_state \<Rightarrow> ('q, 'k) host_state \<times> bool" where
  "spawn_registration dec device_id s =
     (let usable = (case store_find device_id (hs_store s) of
          Some entry \<Rightarrow> is_ok (handle_from_str dec (pd_handle entry)) | None \<Rightarrow> False) in
      if \<not> usable then (s, False)
      else let (s1, t) = spawn_task s in
        (s1\<lparr>hs_registrations := AList.update device_id t (hs_registrations s1)\<rparr>, True))"

text \<open>The registrations \<open>start\<close> opens: the state, how many started and how many were skipped.\<close>

definition start_registrations ::
  "(string \<Rightarrow> 8 word list option) \<Rightarrow> ('q, 'k) host_state \<Rightarrow> ('q, 'k) host_state \<times> nat \<times> nat" where
  "start_registrations dec s =
     fold (\<lambda>i (s, started, skipped).
         case spawn_registration dec i s of
           (s1, True) \<Rightarrow> (s1, started + 1, skipped)
         | (s1, False) \<Rightarrow> (s1, started, skipped + 1))
       (map pd_device_id (ds_devices (hs_store s))) (s, 0, 0)"

section \<open>Control commands\<close>

record pairing_status =
  pst_registered :: bool
  pst_uri :: "string option"
  pst_phrase :: "string option"
  pst_handle :: "string option"
  pst_expires_in_s :: nat

record device_row =
  dr_device_id :: string
  dr_device_name :: string
  dr_platform :: platform
  dr_os_version :: string
  dr_fingerprint :: string
  dr_paired_at :: string
  dr_last_seen :: string
  dr_connected :: bool

record host_status =
  st_relay_origin :: string
  st_link :: link_status
  st_pairing :: "pairing_status option"
  st_devices :: "device_row list"

text \<open>Whether an open pairing is live; asking applies the expiry.\<close>

definition pairing_is_live :: "instant \<Rightarrow> ('q, 'k) host_state \<Rightarrow> ('q, 'k) host_state \<times> bool" where
  "pairing_is_live now s =
     (case hs_pairing s of
        None \<Rightarrow> (s, False)
      | Some p \<Rightarrow> (let (ses, live) = is_live now (op_session p) in
          (s\<lparr>hs_pairing := Some (p\<lparr>op_session := ses\<rparr>)\<rparr>, live)))"

definition take_pairing :: "('q, 'k) host_state \<Rightarrow> ('q, 'k) host_state" where
  "take_pairing s =
     (case hs_pairing s of
        None \<Rightarrow> s
      | Some p \<Rightarrow> abort_task (op_task p) (s\<lparr>hs_pairing := None\<rparr>))"

text \<open>
  \<open>build_status\<close>. A pairing that is not live is destroyed first. \<open>enc\<close> is base64url
  encoding.
\<close>

definition build_status ::
  "(8 word list \<Rightarrow> string) \<Rightarrow> (8 word list \<Rightarrow> string) \<Rightarrow> instant \<Rightarrow> ('q, 'k) host_state \<Rightarrow>
     ('q, 'k) host_state \<times> host_status" where
  "build_status enc fingerprint_of now s =
     (let (s1, live) = pairing_is_live now s;
          s2 = (if hs_pairing s1 \<noteq> None \<and> \<not> live then take_pairing s1 else s1);
          pairing = map_option (\<lambda>p.
            \<lparr>pst_registered = op_registered p,
             pst_uri = (if op_registered p then snd (session_pairing_uri now (op_session p)) else None),
             pst_phrase = (if op_registered p then snd (phrase_display now (op_session p)) else None),
             pst_handle = (if op_registered p then map_option (handle_encode enc) (snd (session_handle now (op_session p))) else None),
             pst_expires_in_s = PHRASE_LIFETIME div secs 1 - (now - op_minted_at p) div secs 1\<rparr>) (hs_pairing s2);
          connected_id = Option.bind (hs_active s2) ac_device_id;
          devices = map (\<lambda>d.
            \<lparr>dr_device_id = pd_device_id d, dr_device_name = pd_device_name d, dr_platform = pd_platform d,
             dr_os_version = pd_os_version d, dr_fingerprint = pd_fingerprint fingerprint_of d,
             dr_paired_at = pd_paired_at d, dr_last_seen = pd_last_seen d,
             dr_connected = (connected_id = Some (pd_device_id d))\<rparr>) (ds_devices (hs_store s2))
      in (s2, \<lparr>st_relay_origin = hs_relay_origin s2, st_link = hs_link s2, st_pairing = pairing, st_devices = devices\<rparr>))"

datatype control_error = Unauthorized | BadRequest | UnknownCommand | NotFound

definition open_pairing ::
  "(8 word list \<Rightarrow> string) \<Rightarrow> 'q entropy \<Rightarrow> instant \<Rightarrow> ('q, 'k) host_state \<Rightarrow>
     ('q, 'k) host_state \<times> (unit, control_error) result" where
  "open_pairing enc en now s =
     (let (s1, live) = pairing_is_live now s in
      if live then (s1, Ok ())
      else
        let s2 = take_pairing s1 in
        (case session_new enc (hs_relay_origin s2) (hs_words s2) en now of
           Err _ \<Rightarrow> (s2, Err BadRequest)
         | Ok session \<Rightarrow>
             let s3 = (if hs_stopped s2 then stop_send False (s2\<lparr>hs_stopped := False, hs_link := link_idle\<rparr>) else s2);
                 (s4, t) = spawn_task s3
             in (s4\<lparr>hs_pairing := Some \<lparr>op_session = session, op_minted_at = now, op_registered = False, op_task = t\<rparr>\<rparr>,
                 Ok ())))"

definition close_pairing :: "('q, 'k) host_state \<Rightarrow> ('q, 'k) host_state" where
  "close_pairing s = take_pairing s"

definition stop_command :: "('q, 'k) host_state \<Rightarrow> ('q, 'k) host_state" where
  "stop_command s = stop_send True (s\<lparr>hs_stopped := True, hs_link := link_stopped\<rparr>)"

definition close_sessions :: "revoke_result \<Rightarrow> ('q, 'k) host_state \<Rightarrow> ('q, 'k) host_state" where
  "close_sessions res s = s\<lparr>hs_registry := fst (close_for_revocation res (hs_registry s))\<rparr>"

definition revoke_one ::
  "(paired_device list \<Rightarrow> string option) \<Rightarrow> save_outcome \<Rightarrow> string \<Rightarrow> ('q, 'k) host_state \<Rightarrow>
     ('q, 'k) host_state \<times> (unit, control_error) result" where
  "revoke_one ser out device_id s =
     (case store_revoke ser out device_id (hs_store s) of
        (st, Err _) \<Rightarrow> (s\<lparr>hs_store := st\<rparr>, Err BadRequest)
      | (st, Ok None) \<Rightarrow> (s\<lparr>hs_store := st\<rparr>, Err NotFound)
      | (st, Ok (Some _)) \<Rightarrow>
          let s1 = s\<lparr>hs_store := st\<rparr>;
              session_live = (case hs_active s1 of Some a \<Rightarrow> ac_device_id a = Some device_id | None \<Rightarrow> False);
              s2 = close_sessions \<lparr>rv_revoked = [device_id], rv_all = False\<rparr> s1
          in (if session_live then
                let s3 = s2\<lparr>hs_active := None\<rparr> in if hs_stopped s3 then s3 else s3\<lparr>hs_link := link_idle\<rparr>
              else forget_registration device_id s2,
              Ok ()))"

text \<open>Aborts every registration but the one of the active device, and forgets all of them.\<close>

definition drain_registrations :: "string option \<Rightarrow> ('q, 'k) host_state \<Rightarrow> ('q, 'k) host_state" where
  "drain_registrations active_id s =
     fold (\<lambda>(i, t) s. if Some i \<noteq> active_id then abort_task t s else s) (hs_registrations s)
       (s\<lparr>hs_registrations := []\<rparr>)"

definition revoke_all ::
  "(paired_device list \<Rightarrow> string option) \<Rightarrow> save_outcome \<Rightarrow> 'k option \<Rightarrow> ('q, 'k) host_state \<Rightarrow>
     ('q, 'k) host_state \<times> (unit, control_error) result" where
  "revoke_all ser out rotated s =
     (case store_clear_all ser out (hs_store s) of
        (st, Err _) \<Rightarrow> (s\<lparr>hs_store := st\<rparr>, Err BadRequest)
      | (st, Ok cleared) \<Rightarrow>
          let s1 = close_sessions \<lparr>rv_revoked = map pd_device_id cleared, rv_all = True\<rparr> (s\<lparr>hs_store := st\<rparr>);
              s2 = take_pairing (drain_registrations (Option.bind (hs_active s1) ac_device_id) s1);
              s3 = s2\<lparr>hs_active := None\<rparr>;
              s4 = (if hs_stopped s3 then s3 else s3\<lparr>hs_link := link_idle\<rparr>)
          in ((case rotated of Some k \<Rightarrow> s4\<lparr>hs_keypair := k\<rparr> | None \<Rightarrow> s4), Ok ()))"

text \<open>The part of a Device's \<open>revoke_device\<close> that follows the store, the key and the registry.\<close>

definition finish_wire_revoke :: "'k option \<Rightarrow> revoke_result \<Rightarrow> ('q, 'k) host_state \<Rightarrow> ('q, 'k) host_state" where
  "finish_wire_revoke reloaded res s =
     (let active_id = Option.bind (hs_active s) ac_device_id in
      if rv_all res then
        let s1 = take_pairing (drain_registrations active_id s)
        in (case reloaded of Some k \<Rightarrow> s1\<lparr>hs_keypair := k\<rparr> | None \<Rightarrow> s1)
      else fold (\<lambda>i s. if Some i \<noteq> active_id then forget_registration i s else s) (rv_revoked res) s)"

text \<open>The \<open>revoke_device\<close> arm of \<open>bridge_thread\<close>, one section under the lock.\<close>

definition wire_revoke ::
  "(paired_device list \<Rightarrow> string option) \<Rightarrow> save_outcome \<Rightarrow> bool \<Rightarrow> 'k option \<Rightarrow> revoke_request \<Rightarrow>
     ('q, 'k) host_state \<Rightarrow> ('q, 'k) host_state \<times> (revoke_result, device_error) result" where
  "wire_revoke ser out rotate_ok reloaded req s =
     (case revoke_device ser out rotate_ok req (hs_store s) of
        (st, Err e) \<Rightarrow> (s\<lparr>hs_store := st\<rparr>, Err e)
      | (st, Ok res) \<Rightarrow> (finish_wire_revoke reloaded res (close_sessions res (s\<lparr>hs_store := st\<rparr>)), Ok res))"

section \<open>The active session\<close>

definition set_offline :: "32 word \<Rightarrow> string \<Rightarrow> ('q, 'k) host_state \<Rightarrow> ('q, 'k) host_state" where
  "set_offline attempt cls s =
     (if hs_active s = None \<and> \<not> hs_stopped s
      then s\<lparr>hs_link := \<lparr>ls_state = Offline, ls_attempt = attempt, ls_error = Some cls\<rparr>\<rparr> else s)"

definition set_idle :: "('q, 'k) host_state \<Rightarrow> ('q, 'k) host_state" where
  "set_idle s = (if hs_active s = None \<and> \<not> hs_stopped s then s\<lparr>hs_link := link_idle\<rparr> else s)"

text \<open>\<open>claim_active\<close>: \<open>None\<close> refuses the claim.\<close>

definition claim_active :: "string option \<Rightarrow> handle \<Rightarrow> ('q, 'k) host_state \<Rightarrow> ('q, 'k) host_state option" where
  "claim_active device_id rh s =
     (if hs_active s \<noteq> None \<or> hs_stopped s then None
      else Some (s\<lparr>hs_active := Some \<lparr>ac_device_id = device_id, ac_handle = rh\<rparr>, hs_link := link_connected\<rparr>))"

definition release_active :: "handle \<Rightarrow> ('q, 'k) host_state \<Rightarrow> ('q, 'k) host_state" where
  "release_active rh s =
     (let s1 = s\<lparr>hs_registry := registry_unregister rh (hs_registry s)\<rparr> in
      if \<not> (case hs_active s1 of Some a \<Rightarrow> ac_handle a = rh | None \<Rightarrow> False) then s1
      else s1\<lparr>hs_active := None, hs_link := (if hs_stopped s1 then link_stopped else link_idle)\<rparr>)"

definition register_session ::
  "(string \<Rightarrow> 8 word list option) \<Rightarrow> string \<Rightarrow> handle \<Rightarrow> string \<Rightarrow> ('q, 'k) host_state \<Rightarrow>
     ('q, 'k) host_state \<times> nat option" where
  "register_session dec host_id rh device_id s =
     (if hs_stopped s \<or> \<not> (case store_find device_id (hs_store s) of
            Some entry \<Rightarrow> pd_host_id entry = host_id \<and> handle_from_str dec (pd_handle entry) = Ok rh
          | None \<Rightarrow> False)
      then (s, None)
      else let (rg, c) = registry_register rh (Some device_id) (hs_registry s) in (s\<lparr>hs_registry := rg\<rparr>, Some c))"

definition touch_device ::
  "(paired_device list \<Rightarrow> string option) \<Rightarrow> save_outcome \<Rightarrow> string \<Rightarrow> string \<Rightarrow> ('q, 'k) host_state \<Rightarrow> ('q, 'k) host_state" where
  "touch_device ser out now device_id s =
     s\<lparr>hs_store := fst (touch_last_seen ser out now device_id (hs_store s))\<rparr>"

section \<open>The pairing loop\<close>

text \<open>Whether the open pairing is still the one of a handle.\<close>

definition pairing_has_handle :: "instant \<Rightarrow> handle \<Rightarrow> ('q, 'k) host_state \<Rightarrow> ('q, 'k) host_state \<times> bool" where
  "pairing_has_handle now rh s =
     (case hs_pairing s of
        None \<Rightarrow> (s, False)
      | Some p \<Rightarrow> (let (ses, h) = session_handle now (op_session p) in
          (s\<lparr>hs_pairing := Some (p\<lparr>op_session := ses\<rparr>)\<rparr>, h = Some rh)))"

datatype ('k) pass_start = PassEnds | PassRuns handle 'k instant

text \<open>The locked section at the top of each pass of \<open>pairing_loop\<close>.\<close>

definition pairing_pass ::
  "(string \<Rightarrow> 'p) \<Rightarrow> instant \<Rightarrow> ('q, 'k) host_state \<Rightarrow> ('q, 'k) host_state \<times> 'p pass_start" where
  "pairing_pass psk_from_phrase now s =
     (case hs_pairing s of
        None \<Rightarrow> (s, PassEnds)
      | Some p \<Rightarrow>
          let (ses1, h) = session_handle now (op_session p);
              (ses2, psk) = psk_for psk_from_phrase now ses1;
              s1 = s\<lparr>hs_pairing := Some (p\<lparr>op_session := ses2\<rparr>)\<rparr>
          in (case (h, psk) of
                (Some rh, Some k) \<Rightarrow> (s1, PassRuns rh k (op_minted_at p))
              | _ \<Rightarrow> (take_pairing s1, PassEnds)))"

definition pairing_registered :: "instant \<Rightarrow> handle \<Rightarrow> ('q, 'k) host_state \<Rightarrow> ('q, 'k) host_state" where
  "pairing_registered now rh s =
     (case pairing_has_handle now rh s of
        (s1, True) \<Rightarrow> s1\<lparr>hs_pairing := map_option (\<lambda>p. p\<lparr>op_registered := True\<rparr>) (hs_pairing s1)\<rparr>
      | (s1, False) \<Rightarrow> s1)"

definition pairing_handshake_failed :: "instant \<Rightarrow> handle \<Rightarrow> ('q, 'k) host_state \<Rightarrow> ('q, 'k) host_state" where
  "pairing_handshake_failed now rh s =
     (case pairing_has_handle now rh s of
        (s1, True) \<Rightarrow> s1\<lparr>hs_pairing := map_option (\<lambda>p. p\<lparr>op_session := record_failed_attempt now (op_session p)\<rparr>) (hs_pairing s1)\<rparr>
      | (s1, False) \<Rightarrow> s1)"

definition pairing_window_elapsed :: "instant \<Rightarrow> handle \<Rightarrow> ('q, 'k) host_state \<Rightarrow> ('q, 'k) host_state" where
  "pairing_window_elapsed now rh s =
     (case pairing_has_handle now rh s of
        (s1, True) \<Rightarrow> s1\<lparr>hs_pairing := None\<rparr>
      | (s1, False) \<Rightarrow> s1)"

text \<open>The deadline branch of \<open>serve_new_pairing\<close>, before the first frame of the Device.\<close>

definition enrol_deadline :: "instant \<Rightarrow> ('q, 'k) host_state \<Rightarrow> ('q, 'k) host_state" where
  "enrol_deadline deadline s =
     (if (case hs_pairing s of Some p \<Rightarrow> op_minted_at p + PHRASE_LIFETIME = deadline | None \<Rightarrow> False)
      then s\<lparr>hs_pairing := None\<rparr> else s)"

datatype enrol_outcome = EnrolRefused | EnrolFailed | Enrolled_as string

text \<open>
  The enrolment section of \<open>serve_new_pairing\<close>: \<open>now\<close> is the instant of its first two
  checks, \<open>now'\<close> that of the check after the save.
\<close>

definition enrol ::
  "(8 word list \<Rightarrow> string) \<Rightarrow> (paired_device list \<Rightarrow> string option) \<Rightarrow> save_outcome \<Rightarrow> instant \<Rightarrow> instant \<Rightarrow> instant \<Rightarrow>
     handle \<Rightarrow> paired_device \<Rightarrow> ('q, 'k) host_state \<Rightarrow> ('q, 'k) host_state \<times> enrol_outcome" where
  "enrol enc ser out now now' deadline rh device s =
     (if hs_stopped s \<or> deadline \<le> now then (s, EnrolRefused)
      else case pairing_has_handle now rh s of
        (s1, False) \<Rightarrow> (s1, EnrolRefused)
      | (s1, True) \<Rightarrow>
          let i = pd_device_id device;
              s2 = forget_registration i s1
          in (case store_add ser out (device\<lparr>pd_handle := handle_encode enc rh\<rparr>) (hs_store s2) of
                (st, Err _) \<Rightarrow> (s2\<lparr>hs_store := st\<rparr>, EnrolFailed)
              | (st, Ok _) \<Rightarrow>
                  let (s3, same) = pairing_has_handle now' rh (s2\<lparr>hs_store := st\<rparr>);
                      s4 = (if same then s3\<lparr>hs_pairing := None\<rparr> else s3);
                      s5 = (case hs_active s4 of
                              Some a \<Rightarrow> if ac_handle a = rh then s4\<lparr>hs_active := Some (a\<lparr>ac_device_id := Some i\<rparr>)\<rparr> else s4
                            | None \<Rightarrow> s4)
                  in (s5, Enrolled_as i)))"

section \<open>Sequences of sections\<close>

text \<open>What the host needs from its environment: both directions of base64url, the JSON writer, the hashes.\<close>

record host_env =
  he_enc :: "8 word list \<Rightarrow> string"
  he_dec :: "string \<Rightarrow> 8 word list option"
  he_ser :: "paired_device list \<Rightarrow> string option"

datatype ('q, 'k) host_op =
    HO_Status instant
  | HO_OpenPairing "'q entropy" instant
  | HO_ClosePairing
  | HO_Stop
  | HO_Revoke save_outcome string
  | HO_RevokeAll save_outcome "'k option"
  | HO_WireRevoke save_outcome bool "'k option" revoke_request
  | HO_SpawnRegistration string
  | HO_SetOffline "32 word" string
  | HO_SetIdle
  | HO_Claim "string option" handle
  | HO_Release handle
  | HO_RegisterSession string handle string
  | HO_Touch save_outcome string string
  | HO_PairingPass instant
  | HO_PairingRegistered instant handle
  | HO_HandshakeFailed instant handle
  | HO_WindowElapsed instant handle
  | HO_EnrolDeadline instant
  | HO_Enrol save_outcome instant instant instant handle paired_device
  | HO_Subscribe nat
  | HO_TaskEnds nat
  | HO_DropCloseReceiver nat

fun host_exec :: "host_env \<Rightarrow> ('q, 'k) host_op \<Rightarrow> ('q, 'k) host_state \<Rightarrow> ('q, 'k) host_state" where
  "host_exec he (HO_Status now) s = fst (build_status (he_enc he) (\<lambda>_. []) now s)"
| "host_exec he (HO_OpenPairing en now) s = fst (open_pairing (he_enc he) en now s)"
| "host_exec he HO_ClosePairing s = close_pairing s"
| "host_exec he HO_Stop s = stop_command s"
| "host_exec he (HO_Revoke out i) s = fst (revoke_one (he_ser he) out i s)"
| "host_exec he (HO_RevokeAll out rotated) s = fst (revoke_all (he_ser he) out rotated s)"
| "host_exec he (HO_WireRevoke out rotate_ok reloaded req) s = fst (wire_revoke (he_ser he) out rotate_ok reloaded req s)"
| "host_exec he (HO_SpawnRegistration i) s = fst (spawn_registration (he_dec he) i s)"
| "host_exec he (HO_SetOffline n cls) s = set_offline n cls s"
| "host_exec he HO_SetIdle s = set_idle s"
| "host_exec he (HO_Claim i rh) s = (case claim_active i rh s of Some s1 \<Rightarrow> s1 | None \<Rightarrow> s)"
| "host_exec he (HO_Release rh) s = release_active rh s"
| "host_exec he (HO_RegisterSession host_id rh i) s = fst (register_session (he_dec he) host_id rh i s)"
| "host_exec he (HO_Touch out now i) s = touch_device (he_ser he) out now i s"
| "host_exec he (HO_PairingPass now) s = fst (pairing_pass id now s)"
| "host_exec he (HO_PairingRegistered now rh) s = pairing_registered now rh s"
| "host_exec he (HO_HandshakeFailed now rh) s = pairing_handshake_failed now rh s"
| "host_exec he (HO_WindowElapsed now rh) s = pairing_window_elapsed now rh s"
| "host_exec he (HO_EnrolDeadline deadline) s = enrol_deadline deadline s"
| "host_exec he (HO_Enrol out now now' deadline rh d) s = fst (enrol (he_enc he) (he_ser he) out now now' deadline rh d s)"
| "host_exec he (HO_Subscribe t) s = stop_subscribe t s"
| "host_exec he (HO_TaskEnds t) s = task_ends t s"
| "host_exec he (HO_DropCloseReceiver c) s = s\<lparr>hs_registry := drop_close_receiver c (hs_registry s)\<rparr>"

section \<open>What the helpers leave alone\<close>

lemma abort_task_simps [simp]:
  "hs_store (abort_task t s) = hs_store s" "hs_pairing (abort_task t s) = hs_pairing s"
  "hs_active (abort_task t s) = hs_active s" "hs_link (abort_task t s) = hs_link s"
  "hs_stopped (abort_task t s) = hs_stopped s" "hs_registry (abort_task t s) = hs_registry s"
  "hs_registrations (abort_task t s) = hs_registrations s" "hs_stop_tx (abort_task t s) = hs_stop_tx s"
  "hs_keypair (abort_task t s) = hs_keypair s" "hs_relay_origin (abort_task t s) = hs_relay_origin s"
  "hs_words (abort_task t s) = hs_words s" "hs_next_task (abort_task t s) = hs_next_task s"
  "hs_aborted (abort_task t s) = t # hs_aborted s"
  by (simp_all add: abort_task_def)

lemma forget_simps [simp]:
  "hs_store (forget_registration i s) = hs_store s" "hs_pairing (forget_registration i s) = hs_pairing s"
  "hs_active (forget_registration i s) = hs_active s" "hs_link (forget_registration i s) = hs_link s"
  "hs_stopped (forget_registration i s) = hs_stopped s" "hs_registry (forget_registration i s) = hs_registry s"
  "hs_stop_tx (forget_registration i s) = hs_stop_tx s"
  "hs_registrations (forget_registration i s) = AList.delete i (hs_registrations s)"
  by (simp_all add: forget_registration_def delete_id map_of_eq_None_iff split: option.split)

lemma take_pairing_simps [simp]:
  "hs_store (take_pairing s) = hs_store s" "hs_pairing (take_pairing s) = None"
  "hs_active (take_pairing s) = hs_active s" "hs_link (take_pairing s) = hs_link s"
  "hs_stopped (take_pairing s) = hs_stopped s" "hs_registry (take_pairing s) = hs_registry s"
  "hs_registrations (take_pairing s) = hs_registrations s" "hs_stop_tx (take_pairing s) = hs_stop_tx s"
  "hs_keypair (take_pairing s) = hs_keypair s" "hs_relay_origin (take_pairing s) = hs_relay_origin s"
  "hs_words (take_pairing s) = hs_words s" "hs_next_task (take_pairing s) = hs_next_task s"
  by (simp_all add: take_pairing_def split: option.split)

lemma stop_send_simps [simp]:
  "hs_store (stop_send v s) = hs_store s" "hs_pairing (stop_send v s) = hs_pairing s"
  "hs_active (stop_send v s) = hs_active s" "hs_link (stop_send v s) = hs_link s"
  "hs_stopped (stop_send v s) = hs_stopped s" "hs_registry (stop_send v s) = hs_registry s"
  "hs_registrations (stop_send v s) = hs_registrations s" "hs_next_task (stop_send v s) = hs_next_task s"
  "wc_receivers (hs_stop_tx (stop_send v s)) = wc_receivers (hs_stop_tx s)"
  by (simp_all add: stop_send_def)

text \<open>The pairing after the expiry of an instant was applied, and the phrase that is then live.\<close>

definition expired_pairing :: "instant \<Rightarrow> ('q, 'k) host_state \<Rightarrow> 'q pairing_slot option" where
  "expired_pairing now s = map_option (\<lambda>p. p\<lparr>op_session := apply_expiry now (op_session p)\<rparr>) (hs_pairing s)"

definition live_now :: "instant \<Rightarrow> ('q, 'k) host_state \<Rightarrow> 'q live_phrase option" where
  "live_now now s = Option.bind (expired_pairing now s) (\<lambda>p. session_live (op_session p))"

lemma pairing_is_live_eq:
  "pairing_is_live now s = (s\<lparr>hs_pairing := expired_pairing now s\<rparr>, live_now now s \<noteq> None)"
  by (cases "hs_pairing s")
     (simp_all add: pairing_is_live_def expired_pairing_def live_now_def is_live_def Let_def)

lemma pairing_has_handle_eq:
  "pairing_has_handle now rh s =
     (s\<lparr>hs_pairing := expired_pairing now s\<rparr>, map_option lp_handle (live_now now s) = Some rh)"
  by (cases "hs_pairing s")
     (simp_all add: pairing_has_handle_def expired_pairing_def live_now_def session_handle_def access_def Let_def)

lemma apply_expiry_twice [simp]: "apply_expiry now (apply_expiry now s) = apply_expiry now s"
  by (auto simp: apply_expiry_def split: session_state.splits)

lemma pairing_pass_eq:
  "pairing_pass psk now s =
     (case hs_pairing s of
        None \<Rightarrow> (s, PassEnds)
      | Some p \<Rightarrow>
          (case live_now now s of
             Some l \<Rightarrow> (s\<lparr>hs_pairing := expired_pairing now s\<rparr>, PassRuns (lp_handle l) (psk (ph_canonical (lp_phrase l))) (op_minted_at p))
           | None \<Rightarrow> (take_pairing (s\<lparr>hs_pairing := expired_pairing now s\<rparr>), PassEnds)))"
  by (auto simp: pairing_pass_def expired_pairing_def live_now_def session_handle_def psk_for_def access_def Let_def
      split: option.splits)

lemmas pairing_eqs = pairing_is_live_eq pairing_has_handle_eq pairing_pass_eq

section \<open>The invariant\<close>

definition host_ok :: "('q, 'k) host_state \<Rightarrow> bool" where
  "host_ok s \<longleftrightarrow> ids_distinct (hs_store s) \<and> registry_ok (hs_registry s) \<and> keys_ok (hs_registrations s)
     \<and> (hs_stopped s \<longleftrightarrow> ls_state (hs_link s) = Stopped)
     \<and> (ls_state (hs_link s) = Connected \<longrightarrow> hs_active s \<noteq> None)"

lemma host_okI [inv_intros]:
  "\<lbrakk>ids_distinct (hs_store s); registry_ok (hs_registry s); keys_ok (hs_registrations s);
    hs_stopped s \<longleftrightarrow> ls_state (hs_link s) = Stopped; ls_state (hs_link s) = Connected \<Longrightarrow> hs_active s \<noteq> None\<rbrakk> \<Longrightarrow> host_ok s"
  by (simp add: host_ok_def)

lemma link_states [simp]: "ls_state link_idle = Idle" "ls_state link_connected = Connected" "ls_state link_stopped = Stopped"
  by (simp_all add: link_idle_def link_connected_def link_stopped_def)

lemma revoke_store_ids: "ids_distinct st \<Longrightarrow> store_revoke ser out i st = (st', r) \<Longrightarrow> ids_distinct st'"
  using stored.revoke_ids [of st "(ser, out)" i] by simp

lemma add_store_ids: "ids_distinct st \<Longrightarrow> store_add ser out d st = (st', r) \<Longrightarrow> ids_distinct st'"
  using stored.add_ids [of st "(ser, out)" d] by simp

lemma clear_store_ids: "ids_distinct st \<Longrightarrow> store_clear_all ser out st = (st', r) \<Longrightarrow> ids_distinct st'"
  using store_exec_ids [of st ser "OpClear out"] by simp

lemma wire_store_ids: "ids_distinct st \<Longrightarrow> revoke_device ser out rotate_ok req st = (st', r) \<Longrightarrow> ids_distinct st'"
  by (auto simp: revoke_device_def split: option.splits prod.splits sum.splits if_splits bool.splits
      dest: revoke_store_ids clear_store_ids)

lemma abort_fold:
  "fold (\<lambda>(i, t) s. if Some i \<noteq> a then abort_task t s else s) xs s =
     s\<lparr>hs_aborted := rev (map snd (filter (\<lambda>(i, t). Some i \<noteq> a) xs)) @ hs_aborted s\<rparr>"
  by (induction xs arbitrary: s) (auto simp: abort_task_def)

lemma drain_eq:
  "drain_registrations a s = s\<lparr>hs_registrations := [],
     hs_aborted := rev (map snd (filter (\<lambda>(i, t). Some i \<noteq> a) (hs_registrations s))) @ hs_aborted s\<rparr>"
  unfolding drain_registrations_def abort_fold by simp

definition drop_ids :: "string option \<Rightarrow> string list \<Rightarrow> (string, nat) hmap \<Rightarrow> (string, nat) hmap" where
  "drop_ids a ids m = filter (\<lambda>(i, t). i \<notin> set ids \<or> Some i = a) m"

lemma drop_fold:
  "\<exists>ab. fold (\<lambda>i s. if Some i \<noteq> a then forget_registration i s else s) ids s
     = s\<lparr>hs_registrations := drop_ids a ids (hs_registrations s), hs_aborted := ab\<rparr>"
proof (induction ids arbitrary: s)
  case Nil
  show ?case by (rule exI [of _ "hs_aborted s"]) (simp add: drop_ids_def)
next
  case (Cons i ids)
  have d: "drop_ids a ids (AList.delete i m) = drop_ids a (i # ids) m" if "Some i \<noteq> a" for m
    using that by (auto simp: drop_ids_def AList.delete_eq intro: filter_cong)
  have k: "drop_ids a ids m = drop_ids a (i # ids) m" if "Some i = a \<or> map_of m i = None" for m
    using that by (force simp: drop_ids_def map_of_eq_None_iff intro!: filter_cong)
  show ?case
  proof (cases "Some i \<noteq> a")
    case True
    show ?thesis
    proof (cases "map_of (hs_registrations s) i")
      case None
      then show ?thesis using True Cons.IH [of s] k [of "hs_registrations s"] by (simp add: forget_registration_def)
    next
      case (Some t)
      then show ?thesis using True d
          Cons.IH [of "abort_task t (s\<lparr>hs_registrations := AList.delete i (hs_registrations s)\<rparr>)"]
        by (simp add: forget_registration_def abort_task_def)
    qed
  next
    case False
    then show ?thesis using Cons.IH [of s] k [of "hs_registrations s"] by simp
  qed
qed

lemma drop_ids_keys [simp]: "keys_ok m \<Longrightarrow> keys_ok (drop_ids a ids m)"
  by (simp add: drop_ids_def)

lemma finish_wire_eq:
  "\<exists>ab p k. finish_wire_revoke reloaded res s = s\<lparr>hs_pairing := p, hs_keypair := k, hs_aborted := ab,
     hs_registrations := (if rv_all res then [] else drop_ids (Option.bind (hs_active s) ac_device_id) (rv_revoked res) (hs_registrations s))\<rparr>"
proof (cases "rv_all res")
  case True
  have "\<exists>ab p. take_pairing (drain_registrations a s) = s\<lparr>hs_pairing := p, hs_aborted := ab, hs_registrations := []\<rparr>" for a
  proof (cases "hs_pairing s")
    case None
    let ?ab = "rev (map snd (filter (\<lambda>(i, t). Some i \<noteq> a) (hs_registrations s))) @ hs_aborted s"
    show ?thesis unfolding drain_eq using None
      by (intro exI [of _ ?ab] exI [of _ None]) (cases s, simp add: take_pairing_def)
  next
    case (Some p)
    let ?ab = "op_task p # rev (map snd (filter (\<lambda>(i, t). Some i \<noteq> a) (hs_registrations s))) @ hs_aborted s"
    show ?thesis unfolding drain_eq using Some
      by (intro exI [of _ ?ab] exI [of _ None]) (cases s, simp add: take_pairing_def abort_task_def)
  qed
  then obtain ab p where "take_pairing (drain_registrations (Option.bind (hs_active s) ac_device_id) s) =
      s\<lparr>hs_pairing := p, hs_aborted := ab, hs_registrations := []\<rparr>" by blast
  then show ?thesis using True
    by (intro exI [of _ ab] exI [of _ p] exI [of _ "case reloaded of Some k \<Rightarrow> k | None \<Rightarrow> hs_keypair s"])
       (simp add: finish_wire_revoke_def Let_def split: option.split)
next
  case False
  from drop_fold [of "Option.bind (hs_active s) ac_device_id" "rv_revoked res" s] obtain ab where
    "finish_wire_revoke reloaded res s = s\<lparr>hs_registrations :=
       drop_ids (Option.bind (hs_active s) ac_device_id) (rv_revoked res) (hs_registrations s), hs_aborted := ab\<rparr>"
    using False by (auto simp: finish_wire_revoke_def Let_def)
  then show ?thesis using False
    by (intro exI [of _ ab] exI [of _ "hs_pairing s"] exI [of _ "hs_keypair s"]) (cases s, simp)
qed

section \<open>Every section keeps the invariant\<close>

lemma host_ok_status: "host_ok s \<Longrightarrow> host_ok (fst (build_status enc f now s))"
  by (auto simp: host_ok_def build_status_def pairing_eqs Let_def)

lemma host_ok_open: "host_ok s \<Longrightarrow> host_ok (fst (open_pairing enc en now s))"
  by (auto simp: host_ok_def open_pairing_def pairing_eqs Let_def spawn_task_def split: sum.split)

lemma host_ok_stop: "host_ok s \<Longrightarrow> host_ok (stop_command s)"
  by (auto simp: host_ok_def stop_command_def)

lemma host_ok_revoke_one: "host_ok s \<Longrightarrow> host_ok (fst (revoke_one ser out i s))"
  by (auto simp: host_ok_def revoke_one_def close_sessions_def close_for_revocation_ok Let_def
      dest: revoke_store_ids split: prod.split sum.split option.split)

lemma host_ok_revoke_all: "host_ok s \<Longrightarrow> host_ok (fst (revoke_all ser out rotated s))"
  by (auto simp: host_ok_def revoke_all_def close_sessions_def close_for_revocation_ok drain_eq Let_def
      dest: clear_store_ids split: prod.split sum.split option.split)

lemma host_ok_wire: "host_ok s \<Longrightarrow> host_ok (fst (wire_revoke ser out rotate_ok reloaded req s))"
proof -
  assume ok: "host_ok s"
  obtain st r where r: "revoke_device ser out rotate_ok req (hs_store s) = (st, r)" by force
  then have "ids_distinct st" using ok wire_store_ids by (auto simp: host_ok_def)
  then show ?thesis
  proof (cases r)
    case (Inr res)
    from finish_wire_eq [of reloaded res "close_sessions res (s\<lparr>hs_store := st\<rparr>)"] obtain ab p k where
      "finish_wire_revoke reloaded res (close_sessions res (s\<lparr>hs_store := st\<rparr>)) =
        (close_sessions res (s\<lparr>hs_store := st\<rparr>))\<lparr>hs_pairing := p, hs_keypair := k, hs_aborted := ab,
          hs_registrations := (if rv_all res then [] else drop_ids (Option.bind (hs_active (close_sessions res (s\<lparr>hs_store := st\<rparr>))) ac_device_id)
            (rv_revoked res) (hs_registrations (close_sessions res (s\<lparr>hs_store := st\<rparr>))))\<rparr>" by blast
    then show ?thesis using ok r Inr \<open>ids_distinct st\<close>
      by (simp add: wire_revoke_def host_ok_def close_sessions_def close_for_revocation_ok)
  qed (use ok r in \<open>simp add: wire_revoke_def host_ok_def\<close>)
qed

lemma host_ok_spawn: "host_ok s \<Longrightarrow> host_ok (fst (spawn_registration dec i s))"
  by (auto simp: host_ok_def spawn_registration_def spawn_task_def Let_def)

lemma host_ok_claim: "host_ok s \<Longrightarrow> claim_active i rh s = Some s1 \<Longrightarrow> host_ok s1"
  by (auto simp: host_ok_def claim_active_def split: if_splits)

lemma host_ok_release: "host_ok s \<Longrightarrow> host_ok (release_active rh s)"
  by (auto simp: host_ok_def release_active_def unregister_ok Let_def)

lemma host_ok_register: "host_ok s \<Longrightarrow> host_ok (fst (register_session dec hid rh i s))"
  using registry_register_ok [of "hs_registry s" rh "Some i"]
  by (auto simp: host_ok_def register_session_def split: prod.split)

lemma forget_aborted: "map_of (hs_registrations s) i = Some t \<Longrightarrow> t \<in> set (hs_aborted (forget_registration i s))"
  by (simp add: forget_registration_def)

definition set_active_id :: "handle \<Rightarrow> string \<Rightarrow> active_session option \<Rightarrow> active_session option" where
  "set_active_id rh i a = (case a of Some a \<Rightarrow> Some (if ac_handle a = rh then a\<lparr>ac_device_id := Some i\<rparr> else a) | None \<Rightarrow> None)"

text \<open>The enrolment section on each of its branches.\<close>

lemma enrol_eq:
  "enrol enc ser out now now' deadline rh d s =
     (if hs_stopped s \<or> deadline \<le> now then (s, EnrolRefused)
      else let s1 = s\<lparr>hs_pairing := expired_pairing now s\<rparr> in
        if map_option lp_handle (live_now now s) \<noteq> Some rh then (s1, EnrolRefused)
        else let s2 = forget_registration (pd_device_id d) s1 in
          case store_add ser out (d\<lparr>pd_handle := handle_encode enc rh\<rparr>) (hs_store s2) of
            (st, Err _) \<Rightarrow> (s2\<lparr>hs_store := st\<rparr>, EnrolFailed)
          | (st, Ok _) \<Rightarrow>
              (s2\<lparr>hs_store := st,
                 hs_pairing := (if map_option lp_handle (live_now now' s2) = Some rh then None else expired_pairing now' s2),
                 hs_active := set_active_id rh (pd_device_id d) (hs_active s2)\<rparr>, Enrolled_as (pd_device_id d)))"
proof (cases "hs_stopped s \<or> deadline \<le> now \<or> map_option lp_handle (live_now now s) \<noteq> Some rh")
  case True
  then show ?thesis by (auto simp: enrol_def pairing_has_handle_eq split: bool.splits)
next
  case False
  let ?s2 = "forget_registration (pd_device_id d) (s\<lparr>hs_pairing := expired_pairing now s\<rparr>)"
  obtain st r where r: "store_add ser out (d\<lparr>pd_handle := handle_encode enc rh\<rparr>) (hs_store s) = (st, r)" by force
  have e: "expired_pairing now' (?s2\<lparr>hs_store := st\<rparr>) = expired_pairing now' ?s2"
    "live_now now' (?s2\<lparr>hs_store := st\<rparr>) = live_now now' ?s2"
    by (simp_all add: expired_pairing_def live_now_def)
  show ?thesis
  proof (cases r)
    case (Inl e)
    then show ?thesis using False r by (simp add: enrol_def pairing_has_handle_eq Let_def)
  next
    case (Inr u)
    then show ?thesis using False r
      by (cases "hs_active s") (simp_all add: enrol_def pairing_has_handle_eq Let_def set_active_id_def e, auto)
  qed
qed

lemma host_ok_enrol:
  assumes "host_ok s"
  shows "host_ok (fst (enrol enc ser out now now' deadline rh d s))"
proof -
  obtain st r where r: "store_add ser out (d\<lparr>pd_handle := handle_encode enc rh\<rparr>) (hs_store s) = (st, r)" by force
  have "ids_distinct st" using assms r add_store_ids by (auto simp: host_ok_def)
  then show ?thesis using assms r by (cases r) (auto simp: enrol_eq host_ok_def Let_def set_active_id_def)
qed

lemma host_ok_touch: "host_ok s \<Longrightarrow> host_ok (touch_device ser out now i s)"
  using store_exec_ids [of "hs_store s" ser "OpTouch now i out"] by (auto simp: host_ok_def touch_device_def)

lemma host_ok_pass: "host_ok s \<Longrightarrow> host_ok (fst (pairing_pass psk now s))"
  by (auto simp: host_ok_def pairing_pass_eq split: option.split)

lemma host_ok_pairing:
  "host_ok s \<Longrightarrow> host_ok (pairing_registered now rh s)" "host_ok s \<Longrightarrow> host_ok (pairing_handshake_failed now rh s)"
  "host_ok s \<Longrightarrow> host_ok (pairing_window_elapsed now rh s)" "host_ok s \<Longrightarrow> host_ok (enrol_deadline deadline s)"
  "host_ok s \<Longrightarrow> host_ok (close_pairing s)"
  by (simp_all add: host_ok_def pairing_registered_def pairing_handshake_failed_def pairing_window_elapsed_def
      enrol_deadline_def close_pairing_def pairing_has_handle_eq split: bool.split)

lemma host_ok_link:
  "host_ok s \<Longrightarrow> host_ok (set_offline n cls s)" "host_ok s \<Longrightarrow> host_ok (set_idle s)"
  "host_ok s \<Longrightarrow> host_ok (stop_subscribe t s)" "host_ok s \<Longrightarrow> host_ok (task_ends t s)"
  "host_ok s \<Longrightarrow> host_ok (s\<lparr>hs_registry := drop_close_receiver c (hs_registry s)\<rparr>)"
  by (simp_all add: host_ok_def set_offline_def set_idle_def stop_subscribe_def task_ends_def drop_close_receiver_ok)

lemma host_exec_ok: "host_ok s \<Longrightarrow> host_ok (host_exec he op s)"
  by (cases op) (simp_all add: host_ok_status host_ok_open host_ok_stop host_ok_revoke_one host_ok_revoke_all
      host_ok_wire host_ok_spawn host_ok_release host_ok_register host_ok_enrol host_ok_touch host_ok_pass
      host_ok_pairing host_ok_link host_ok_claim split: option.split)

interpretation host_inv: preserved "host_exec he" "\<lambda>_. True" host_ok for he
  by unfold_locales (rule host_exec_ok)

section \<open>What a section does to the device list\<close>

fun enrols :: "string \<Rightarrow> ('q, 'k) host_op \<Rightarrow> bool" where
  "enrols i (HO_Enrol _ _ _ _ _ d) = (pd_device_id d = i)"
| "enrols i _ = False"

definition store_moves :: "host_env \<Rightarrow> string \<Rightarrow> ('q, 'k) host_op \<Rightarrow> device_store \<Rightarrow> device_store \<Rightarrow> bool" where
  "store_moves he i op st st' \<longleftrightarrow>
     (\<exists>sops. st' = fold (store_exec (he_ser he)) sops st \<and> (\<not> enrols i op \<longrightarrow> list_all (\<lambda>so. \<not> adds_id i so) sops))"

lemma store_moves_refl [simp]: "store_moves he i op st st"
  unfolding store_moves_def by (rule exI [of _ "[]"]) simp

lemma store_moves_one:
  "store_exec (he_ser he) so st = st' \<Longrightarrow> (adds_id i so \<Longrightarrow> enrols i op) \<Longrightarrow> store_moves he i op st st'"
  unfolding store_moves_def by (rule exI [of _ "[so]"]) auto

lemma wire_store_moves:
  assumes "revoke_device (he_ser he) out rotate_ok req st = (st', r)"
  shows "store_moves he i op st st'"
proof -
  consider "rr_device_id req = None" "rr_all req = Some True" | j where "rr_device_id req = Some j" "rr_all req \<noteq> Some True"
    | "st' = st" using assms by (cases "rr_device_id req"; cases "rr_all req = Some True") (auto simp: revoke_device_def)
  then show ?thesis
  proof cases
    case 1
    then have "store_exec (he_ser he) (OpClear out) st = st'" using assms
      by (auto simp: revoke_device_def split: prod.splits sum.splits if_splits)
    then show ?thesis by (rule store_moves_one) simp
  next
    case (2 j)
    then have "store_exec (he_ser he) (OpRevoke j out) st = st'" using assms
      by (auto simp: revoke_device_def split: prod.splits sum.splits)
    then show ?thesis by (rule store_moves_one) simp
  qed simp
qed

lemma finish_wire_simps [simp]:
  "hs_store (finish_wire_revoke k res s) = hs_store s" "hs_active (finish_wire_revoke k res s) = hs_active s"
  "hs_stopped (finish_wire_revoke k res s) = hs_stopped s" "hs_registry (finish_wire_revoke k res s) = hs_registry s"
  "hs_stop_tx (finish_wire_revoke k res s) = hs_stop_tx s" "hs_link (finish_wire_revoke k res s) = hs_link s"
  using finish_wire_eq [of k res s] by auto

lemma host_store_moves: "store_moves he i op (hs_store s) (hs_store (host_exec he op s))"
proof (cases op)
  case (HO_Revoke out j)
  have "hs_store (host_exec he op s) = store_exec (he_ser he) (OpRevoke j out) (hs_store s)"
    unfolding HO_Revoke by (auto simp: revoke_one_def close_sessions_def Let_def split: prod.split sum.split option.split)
  then show ?thesis by (intro store_moves_one [of _ "OpRevoke j out"]) simp_all
next
  case (HO_RevokeAll out rotated)
  have "hs_store (host_exec he op s) = store_exec (he_ser he) (OpClear out) (hs_store s)"
    unfolding HO_RevokeAll by (auto simp: revoke_all_def close_sessions_def drain_eq Let_def split: prod.split sum.split option.split)
  then show ?thesis by (intro store_moves_one [of _ "OpClear out"]) simp_all
next
  case (HO_WireRevoke out rotate_ok reloaded req)
  obtain st r where "revoke_device (he_ser he) out rotate_ok req (hs_store s) = (st, r)" by force
  then show ?thesis unfolding HO_WireRevoke using wire_store_moves
    by (cases r) (auto simp: wire_revoke_def close_sessions_def)
next
  case (HO_Touch out now j)
  then show ?thesis by (intro store_moves_one [of _ "OpTouch now j out"]) (simp_all add: touch_device_def)
next
  case (HO_Enrol out now now' deadline rh d)
  obtain st r where r: "store_add (he_ser he) out (d\<lparr>pd_handle := handle_encode (he_enc he) rh\<rparr>) (hs_store s) = (st, r)" by force
  then have "store_moves he i op (hs_store s) st"
    by (intro store_moves_one [of _ "OpAdd (d\<lparr>pd_handle := handle_encode (he_enc he) rh\<rparr>) out"]) (simp_all add: HO_Enrol)
  then show ?thesis using r by (cases r) (auto simp: HO_Enrol enrol_eq Let_def)
qed (simp_all add: build_status_def open_pairing_def close_pairing_def stop_command_def spawn_registration_def spawn_task_def
    set_offline_def set_idle_def claim_active_def release_active_def register_session_def pairing_pass_eq
    pairing_registered_def pairing_handshake_failed_def pairing_window_elapsed_def enrol_deadline_def stop_subscribe_def
    task_ends_def pairing_eqs Let_def split: option.split sum.split bool.split prod.split)

interpretation locked_out: preserved "host_exec he" "\<lambda>op. \<not> enrols i op"
  "\<lambda>s. ids_distinct (hs_store s) \<and> store_find i (hs_store s) = None" for he i
proof (unfold_locales, goal_cases)
  case (1 s op)
  from host_store_moves [of he i op s] 1(2) obtain sops where
    m: "hs_store (host_exec he op s) = fold (store_exec (he_ser he)) sops (hs_store s)" "list_all (\<lambda>so. \<not> adds_id i so) sops"
    unfolding store_moves_def by blast
  from absent_id.keep_run [OF 1(1) m(2)] m(1) show ?case by simp
qed

section \<open>The guard of the active session\<close>

fun keeps_claim :: "handle \<Rightarrow> ('q, 'k) host_op \<Rightarrow> bool" where
  "keeps_claim rh (HO_Release rh') = (rh' \<noteq> rh)"
| "keeps_claim rh (HO_Revoke _ _) = False"
| "keeps_claim rh (HO_RevokeAll _ _) = False"
| "keeps_claim rh _ = True"

definition claimed_by :: "handle \<Rightarrow> ('q, 'k) host_state \<Rightarrow> bool" where
  "claimed_by rh s \<longleftrightarrow> map_option ac_handle (hs_active s) = Some rh"

lemma claimed_exec: "claimed_by rh s \<Longrightarrow> keeps_claim rh op \<Longrightarrow> claimed_by rh (host_exec he op s)"
proof (cases op)
  case (HO_Enrol out now now' deadline rh' d)
  then show "claimed_by rh s \<Longrightarrow> ?thesis"
    by (auto simp: claimed_by_def enrol_eq set_active_id_def Let_def split: prod.split sum.split)
next
  case (HO_WireRevoke out rotate_ok reloaded req)
  then show "claimed_by rh s \<Longrightarrow> ?thesis"
    by (auto simp: claimed_by_def wire_revoke_def close_sessions_def split: prod.split sum.split)
qed (auto simp: claimed_by_def build_status_def open_pairing_def close_pairing_def stop_command_def spawn_registration_def spawn_task_def
    set_offline_def set_idle_def claim_active_def release_active_def register_session_def pairing_pass_eq touch_device_def
    pairing_registered_def pairing_handshake_failed_def pairing_window_elapsed_def enrol_deadline_def stop_subscribe_def
    task_ends_def pairing_eqs Let_def split: option.split sum.split bool.split prod.split)

interpretation claim: preserved "host_exec he" "keeps_claim rh" "claimed_by rh" for he rh
  by unfold_locales (rule claimed_exec)

section \<open>The stop channel\<close>

fun is_stop :: "('q, 'k) host_op \<Rightarrow> bool" where
  "is_stop HO_Stop = True"
| "is_stop _ = False"

definition stuck :: "('q, 'k) host_state \<Rightarrow> bool" where
  "stuck s \<longleftrightarrow> \<not> hs_stopped s \<and> \<not> may_run s"

lemma stuck_exec: "stuck s \<Longrightarrow> \<not> is_stop op \<Longrightarrow> stuck (host_exec he op s)"
proof (cases op)
  case (HO_Enrol out now now' deadline rh' d)
  then show "stuck s \<Longrightarrow> ?thesis"
    by (auto simp: stuck_def may_run_def enrol_eq Let_def split: prod.split sum.split)
next
  case (HO_WireRevoke out rotate_ok reloaded req)
  then show "stuck s \<Longrightarrow> ?thesis"
    by (auto simp: stuck_def may_run_def wire_revoke_def close_sessions_def split: prod.split sum.split)
next
  case (HO_Revoke out i)
  then show "stuck s \<Longrightarrow> ?thesis"
    by (auto simp: stuck_def may_run_def revoke_one_def close_sessions_def Let_def split: prod.split sum.split option.split)
next
  case (HO_RevokeAll out k)
  then show "stuck s \<Longrightarrow> ?thesis"
    by (auto simp: stuck_def may_run_def revoke_all_def close_sessions_def drain_eq Let_def split: prod.split sum.split option.split)
qed (auto simp: stuck_def may_run_def build_status_def open_pairing_def close_pairing_def spawn_registration_def spawn_task_def
    set_offline_def set_idle_def claim_active_def release_active_def register_session_def pairing_pass_eq touch_device_def
    pairing_registered_def pairing_handshake_failed_def pairing_window_elapsed_def enrol_deadline_def stop_subscribe_def
    task_ends_def pairing_eqs Let_def split: option.split sum.split bool.split prod.split)

interpretation stuck_host: preserved "host_exec he" "\<lambda>op. \<not> is_stop op" stuck for he
  by unfold_locales (rule stuck_exec)

section \<open>Properties\<close>

text \<open>C8: in every state the Host reaches, by any interleaving of its locked sections, device ids and
  registrations are distinct, the session registry is consistent, the link reads \<open>stopped\<close> exactly
  while the bridge is stopped, and \<open>connected\<close> only while a session is active.\<close>

theorem host_reachable_ok:
  assumes "ids_distinct store" "s = fold (host_exec he) ops (host_init store origin keypair words)"
  shows "distinct (map pd_device_id (ds_devices (hs_store s))) \<and> keys_ok (hs_registrations s)
    \<and> registry_ok (hs_registry s) \<and> (hs_stopped s \<longleftrightarrow> ls_state (hs_link s) = Stopped)
    \<and> (ls_state (hs_link s) = Connected \<longrightarrow> hs_active s \<noteq> None)"
proof -
  have "host_ok (host_init store origin keypair words)"
    using assms(1) registry_reachable_ok [of "[]"] by (simp add: host_ok_def host_init_def)
  from host_inv.keep_run [OF this, of ops he] show ?thesis
    using assms(2) by (simp add: host_ok_def ids_distinct_def list_all_iff)
qed


text \<open>A revocation from the control plane reports \<open>not_found\<close> for an unknown device and changes nothing
  when the save fails; otherwise it removes exactly that device, signals exactly its live sessions,
  and either frees the active slot it held or aborts its registration loop.\<close>

theorem revoke_one_outcome:
  assumes "host_ok s" "revoke_one ser out i s = (s', r)"
  shows "case r of
      Err e \<Rightarrow> s' = s \<and> (e = NotFound \<longrightarrow> store_find i (hs_store s) = None)
    | Ok _ \<Rightarrow>
        (\<forall>j. store_find j (hs_store s') = (if j = i then None else store_find j (hs_store s))) \<and>
        (\<forall>c. signal_of (hs_registry s') c =
           (if \<exists>(rh, x)\<in>set (rg_sessions (hs_registry s)). rs_device_id x = Some i \<and> rs_close x = c \<and> has_receiver (hs_registry s) c
            then SignalRevoked else signal_of (hs_registry s) c)) \<and>
        (if Option.bind (hs_active s) ac_device_id = Some i then hs_active s' = None
         else hs_active s' = hs_active s \<and> hs_registrations s' = AList.delete i (hs_registrations s) \<and>
           (\<forall>t. map_of (hs_registrations s) i = Some t \<longrightarrow> t \<in> set (hs_aborted s')))"
proof -
  have d: "ids_distinct (hs_store s)" and k: "registry_ok (hs_registry s)" using assms(1) by (simp_all add: host_ok_def)
  obtain st q where st: "store_revoke ser out i (hs_store s) = (st, q)" by force
  show ?thesis
  proof (cases q)
    case (Inl e)
    then show ?thesis using assms(2) st revoke_Err [of ser out i "hs_store s" st e] by (auto simp: revoke_one_def)
  next
    case (Inr x)
    have f: "x = store_find i (hs_store s)"
      "\<And>j. store_find j st = (if j = i then None else store_find j (hs_store s))"
      using stored.revoke_done [OF d, of "(ser, out)" i st x] st Inr by auto
    show ?thesis
    proof (cases x)
      case None
      then have "st = hs_store s" using revoke_Ok [of ser out i "hs_store s" st None] st Inr
        by (auto split: option.splits)
      moreover have "store_find i (hs_store s) = None" using f(1) None by simp
      ultimately show ?thesis using assms(2) st Inr None by (auto simp: revoke_one_def)
    next
      case (Some dev)
      obtain rg n where c: "close_for_revocation \<lparr>rv_revoked = [i], rv_all = False\<rparr> (hs_registry s) = (rg, n)" by force
      have sig: "signal_of rg c = (if \<exists>(rh, x)\<in>set (rg_sessions (hs_registry s)). rs_device_id x = Some i \<and> rs_close x = c
            \<and> has_receiver (hs_registry s) c then SignalRevoked else signal_of (hs_registry s) c)" for c
        using revocation_spec [OF k c]
        by (simp add: to_be_closed_def split: option.split) (auto split: option.splits)
      show ?thesis
      proof (cases "Option.bind (hs_active s) ac_device_id = Some i")
        case True
        then obtain a where "hs_active s = Some a" "ac_device_id a = Some i" by (cases "hs_active s") auto
        then show ?thesis using assms(2) st Inr Some f sig c True
          by (auto simp: revoke_one_def close_sessions_def Let_def split: if_splits)
      next
        case False
        then have "\<not> (case hs_active s of Some a \<Rightarrow> ac_device_id a = Some i | None \<Rightarrow> False)"
          by (auto split: option.splits)
        then show ?thesis using assms(2) st Inr Some f sig c False
          by (auto simp: revoke_one_def close_sessions_def Let_def intro!: forget_aborted split: if_splits)
      qed
    qed
  qed
qed

text \<open>C14: the active slot is exclusive: once a session claimed it for a handle, no other claim succeeds,
  whatever sections run, until that session releases it or a revocation from the control plane
  clears it; a release by another session leaves it alone.\<close>

theorem active_claim_exclusive:
  assumes "claim_active i rh s = Some s1" "list_all (keeps_claim rh) ops"
  shows "claim_active i' rh' (fold (host_exec he) ops s1) = None
    \<and> map_option ac_handle (hs_active (fold (host_exec he) ops s1)) = Some rh"
proof -
  have "claimed_by rh s1" using assms(1) by (auto simp: claim_active_def claimed_by_def split: if_splits)
  from claim.keep_run [OF this assms(2), of he] show ?thesis by (auto simp: claimed_by_def claim_active_def)
qed

text \<open>C26: the status of an open pairing shows a credential only while the phrase is live, at most 600
  seconds old, and only after the relay accepted the registration; what it then shows is the
  credential of that phrase.\<close>

theorem status_shows_live_credentials:
  assumes "snd (build_status enc fingerprint_of now s) = st" "st_pairing st = Some ps"
  shows "\<exists>p l. hs_pairing s = Some p \<and> ps_state (op_session p) = Live l \<and> now - lp_generated_at l \<le> secs 600
    \<and> pst_registered ps = op_registered p
    \<and> pst_uri ps = (if op_registered p then Some (lp_uri l) else None)
    \<and> pst_phrase ps = (if op_registered p then Some (display_form (lp_phrase l)) else None)
    \<and> pst_handle ps = (if op_registered p then Some (handle_encode enc (lp_handle l)) else None)"
proof -
  obtain p where p: "hs_pairing s = Some p"
    using assms by (cases "hs_pairing s") (auto simp: build_status_def pairing_is_live_eq expired_pairing_def Let_def)
  obtain l where l: "live_now now s = Some l"
    using assms p by (cases "live_now now s") (auto simp: build_status_def pairing_is_live_eq expired_pairing_def Let_def)
  then have "ps_state (op_session p) = Live l" "apply_expiry now (op_session p) = op_session p"
    "now - lp_generated_at l \<le> secs 600"
    using p by (auto simp: live_now_def expired_pairing_def apply_expiry_def session_live_def PHRASE_LIFETIME_def
        split: session_state.splits if_splits)
  moreover from this have "apply_expiry now (op_session p) = op_session p" by simp
  ultimately show ?thesis using assms p l
    by (intro exI [of _ p] exI [of _ l])
       (auto simp: build_status_def pairing_is_live_eq expired_pairing_def Let_def session_pairing_uri_def
         phrase_display_def session_handle_def access_def session_live_def)
qed

text \<open>C25: a Device is enrolled only while the bridge runs, before the deadline, and through the live
  phrase whose handle its handshake used; then the list finds exactly it under its id, its
  obsolete registration is forgotten, and the phrase is destroyed when it is still the one used.
  On every other outcome the list is as before.\<close>

theorem enrolment_outcome:
  assumes "host_ok s" "enrol enc ser out now now' deadline rh d s = (s', r)"
  shows "case r of
      Enrolled_as i \<Rightarrow> i = pd_device_id d \<and> \<not> hs_stopped s \<and> now < deadline
        \<and> map_option lp_handle (live_now now s) = Some rh
        \<and> (\<forall>j. store_find j (hs_store s') =
             (if j = i then Some (d\<lparr>pd_handle := handle_encode enc rh\<rparr>) else store_find j (hs_store s)))
        \<and> hs_registrations s' = AList.delete i (hs_registrations s)
        \<and> map_option lp_handle (live_now now' s') \<noteq> Some rh
    | _ \<Rightarrow> hs_store s' = hs_store s"
proof -
  let ?d = "d\<lparr>pd_handle := handle_encode enc rh\<rparr>"
  have ids: "ids_distinct (hs_store s)" using assms(1) by (simp add: host_ok_def)
  obtain st q where st: "store_add ser out ?d (hs_store s) = (st, q)" by force
  consider "r = EnrolRefused" | "r = EnrolFailed" | i where "r = Enrolled_as i" by (cases r)
  then show ?thesis
  proof cases
    case 1
    then show ?thesis using assms(2) by (auto simp: enrol_eq Let_def split: if_splits prod.splits sum.splits)
  next
    case 2
    then show ?thesis using assms(2) st
      by (cases q) (auto simp: enrol_eq Let_def split: if_splits dest: add_Err)
  next
    case (3 i)
    then obtain u where q: "q = Ok u" using assms(2) st by (cases q) (auto simp: enrol_eq Let_def split: if_splits)
    have f: "\<forall>j. store_find j st = (if j = pd_device_id d then Some ?d else store_find j (hs_store s))"
      using stored.add_done [OF ids, of "(ser, out)" ?d st u] st q by simp
    have twice: "map_option lp_handle (live_now now' t) \<noteq> Some rh"
      if "hs_pairing t = (if map_option lp_handle (live_now now' u') = Some rh then None else expired_pairing now' u')"
      for t u' :: "('a, 'b) host_state"
      using that by (auto simp: live_now_def expired_pairing_def option.map_comp comp_def split: if_splits)
    let ?u = "forget_registration (pd_device_id d) (s\<lparr>hs_pairing := expired_pairing now s\<rparr>)"
    have "hs_pairing s' = (if map_option lp_handle (live_now now' ?u) = Some rh then None else expired_pairing now' ?u)"
      using 3 assms(2) st q by (simp add: enrol_eq Let_def split: if_splits) auto
    from twice [OF this] have destroyed: "map_option lp_handle (live_now now' s') \<noteq> Some rh" .
    have rest: "i = pd_device_id d" "\<not> hs_stopped s" "now < deadline" "map_option lp_handle (live_now now s) = Some rh"
        "hs_store s' = st" "hs_registrations s' = AList.delete i (hs_registrations s)"
      using 3 assms(2) st q by (auto simp: enrol_eq Let_def split: if_splits)
    show ?thesis unfolding 3 enrol_outcome.case using rest f destroyed by blast
  qed
qed

text \<open>A resume can get lost: after a pairing was opened, the bridge stopped, the pairing closed and its
  task gone, opening a pairing again clears the stopped state, but the stop channel then has no
  receiver and keeps its value, so every task that waits for the bridge to run waits on; nothing
  but another stop changes that.\<close>

theorem resume_after_stop_lost:
  assumes "session_new (he_enc he) origin words en t0 = Ok p0" "session_new (he_enc he) origin words en' t1 = Ok p1"
    and "list_all (\<lambda>op. \<not> is_stop op) ops"
    and "s = fold (host_exec he) ([HO_OpenPairing en t0, HO_Subscribe 0, HO_Stop, HO_ClosePairing, HO_TaskEnds 0,
      HO_OpenPairing en' t1] @ ops) (host_init store origin keypair words)"
  shows "\<not> hs_stopped s \<and> \<not> may_run s"
proof -
  let ?s = "fold (host_exec he) [HO_OpenPairing en t0, HO_Subscribe 0, HO_Stop, HO_ClosePairing, HO_TaskEnds 0,
      HO_OpenPairing en' t1] (host_init store origin keypair words)"
  have "stuck ?s"
    using assms(1,2)
    by (simp add: stuck_def may_run_def host_init_def open_pairing_def pairing_is_live_eq expired_pairing_def live_now_def
        spawn_task_def stop_subscribe_def stop_command_def stop_send_def close_pairing_def take_pairing_def
        abort_task_def task_ends_def Let_def)
  from stuck_host.keep_run [OF this assms(3), of he] show ?thesis using assms(4) by (simp add: stuck_def)
qed

text \<open>Opening a pairing while the bridge is stopped and a pairing is still live answers success without
  leaving the stopped state: no session can be claimed and the link still reads stopped.\<close>

theorem open_pairing_keeps_stopped:
  assumes "host_ok s" "hs_stopped s" "live_now now s \<noteq> None"
  shows "\<exists>s'. open_pairing enc en now s = (s', Ok ()) \<and> hs_stopped s' \<and> ls_state (hs_link s') = Stopped
    \<and> hs_stop_tx s' = hs_stop_tx s \<and> claim_active i rh s' = None"
  using assms by (auto simp: open_pairing_def pairing_is_live_eq claim_active_def host_ok_def)

text \<open>A \<open>revoke_device\<close> for all devices from the phone whose key rotation fails reports an error after
  the list was cleared: the session registry, the registrations and the active session are as
  before, so the revoked sessions are not told and stay open.\<close>

theorem failed_rotation_keeps_sessions:
  assumes "store_clear_all ser out (hs_store s) = (st, Ok cleared)"
  shows "wire_revoke ser out False reloaded \<lparr>rr_device_id = None, rr_all = Some True\<rparr> s = (s\<lparr>hs_store := st\<rparr>, Err DeviceKeys)
    \<and> ds_devices st = []"
  using assms clear_Ok [OF assms] by (auto simp: wire_revoke_def revoke_device_def)

section \<open>Witnesses\<close>

definition sample_env :: host_env where
  "sample_env = \<lparr>he_enc = (\<lambda>_. ''AAAAAAAAAAAAAAAAAAAAAA''), he_dec = (\<lambda>_. Some (replicate 16 0)), he_ser = sample_ser\<rparr>"

definition sample_store :: device_store where
  "sample_store = \<lparr>ds_file = FileText ''[a]'', ds_devices = [sample_device ''a'']\<rparr>"

definition sample_host :: "(unit, nat) host_state" where
  "sample_host = host_init sample_store ''https://x'' 7 sample_words"

lemma sample_host_ok: "host_ok sample_host"
  using registry_reachable_ok [of "[]"]
  by (simp add: host_ok_def sample_host_def host_init_def ids_distinct_def sample_store_def)

lemma sample_revoke: "\<exists>s1. revoke_one (he_ser sample_env) SaveWorks ''a'' sample_host = (s1, Ok ())"
  by (simp add: revoke_one_def store_revoke_def store_save_def sample_host_def host_init_def sample_store_def sample_env_def
      sample_ser_def sample_device_def new_entry_def remove_nth_def Let_def)

theorem host_reachable_ok_witness:
  "registry_ok (hs_registry (fold (host_exec sample_env) [HO_Claim None (Handle [])] sample_host))"
proof -
  have "ids_distinct sample_store" by (simp add: ids_distinct_def sample_store_def)
  from host_reachable_ok [OF this refl, of sample_env "[HO_Claim None (Handle [])]" "''https://x''" 7 sample_words]
  show ?thesis unfolding sample_host_def by (elim conjE)
qed


theorem revoke_one_outcome_witness:
  "\<exists>s'. revoke_one (he_ser sample_env) SaveWorks ''a'' sample_host = (s', Ok ()) \<and> store_find ''a'' (hs_store s') = None"
proof -
  from sample_revoke obtain s1 where s1: "revoke_one (he_ser sample_env) SaveWorks ''a'' sample_host = (s1, Ok ())" ..
  from revoke_one_outcome [OF sample_host_ok s1] s1 show ?thesis by auto
qed

theorem active_claim_exclusive_witness:
  "\<exists>s1. claim_active (Some ''a'') (Handle [1]) sample_host = Some s1 \<and>
     claim_active None (Handle [2]) (fold (host_exec sample_env) [HO_Release (Handle [3]), HO_Stop] s1) = None"
proof -
  obtain s1 where s1: "claim_active (Some ''a'') (Handle [1]) sample_host = Some s1"
    by (simp add: claim_active_def sample_host_def host_init_def)
  have "list_all (keeps_claim (Handle [1])) [HO_Release (Handle [3]), HO_Stop :: (unit, nat) host_op]" by simp
  from active_claim_exclusive [OF s1 this] s1 show ?thesis by blast
qed

definition paired_host :: "(unit, nat) host_state" where
  "paired_host = sample_host\<lparr>hs_pairing := Some \<lparr>op_session = sample_pairing, op_minted_at = 0, op_registered = True, op_task = 0\<rparr>\<rparr>"

lemma paired_live: "live_now now paired_host = (if now \<le> secs 600 then Some
     \<lparr>lp_handle = Handle (replicate 16 0),
      lp_phrase = \<lparr>ph_canonical = join ''-'' (replicate 6 ''remedy''), ph_words = replicate 6 ''remedy''\<rparr>,
      lp_generated_at = 0, lp_failed_attempts = 0, lp_uri = sample_uri, lp_qr = ()\<rparr> else None)"
  by (simp add: live_now_def expired_pairing_def paired_host_def sample_pairing_def apply_expiry_def session_live_def
      PHRASE_LIFETIME_def)

theorem status_shows_live_credentials_witness:
  "\<exists>ps. st_pairing (snd (build_status (he_enc sample_env) (\<lambda>_. []) (secs 5) paired_host)) = Some ps
     \<and> pst_uri ps = Some sample_uri"
proof -
  let ?st = "snd (build_status (he_enc sample_env) (\<lambda>_. []) (secs 5) paired_host)"
  have "live_now (secs 5) paired_host \<noteq> None" by (simp add: paired_live)
  then have "\<exists>ps. st_pairing ?st = Some ps"
    by (simp add: build_status_def pairing_is_live_eq Let_def) (simp add: expired_pairing_def paired_host_def)
  then obtain ps where ps: "st_pairing ?st = Some ps" ..
  from status_shows_live_credentials [OF refl ps] obtain p l where
    "hs_pairing paired_host = Some p" "ps_state (op_session p) = Live l"
    "pst_uri ps = (if op_registered p then Some (lp_uri l) else None)" by blast
  then have "pst_uri ps = Some sample_uri" by (auto simp: paired_host_def sample_pairing_def)
  then show ?thesis using ps by blast
qed

theorem enrolment_outcome_witness:
  "\<exists>s'. enrol (he_enc sample_env) (he_ser sample_env) SaveWorks (secs 5) (secs 5) (secs 600) (Handle (replicate 16 0))
      (sample_device ''a'') (paired_host\<lparr>hs_store := \<lparr>ds_file = FileMissing, ds_devices = []\<rparr>\<rparr>) = (s', Enrolled_as ''a'')
     \<and> store_find ''a'' (hs_store s') \<noteq> None"
proof -
  let ?s = "paired_host\<lparr>hs_store := \<lparr>ds_file = FileMissing, ds_devices = []\<rparr>\<rparr>"
  have ok: "host_ok ?s" using sample_host_ok by (simp add: host_ok_def paired_host_def ids_distinct_def)
  have l: "live_now (secs 5) ?s = live_now (secs 5) paired_host"
    by (simp add: live_now_def expired_pairing_def paired_host_def)
  have d: "pd_device_id (sample_device ''a'') = ''a''" by (simp add: sample_device_def new_entry_def)
  have h: "sample_device ''a''\<lparr>pd_handle := handle_encode (he_enc sample_env) (Handle (replicate 16 0))\<rparr> = sample_device ''a''"
    by (simp add: sample_device_def new_entry_def sample_env_def handle_encode_def)
  have "\<exists>s'. enrol (he_enc sample_env) (he_ser sample_env) SaveWorks (secs 5) (secs 5) (secs 600) (Handle (replicate 16 0))
      (sample_device ''a'') ?s = (s', Enrolled_as ''a'')"
    by (simp add: enrol_eq l paired_live h d Let_def store_add_def store_save_def)
       (simp add: paired_host_def sample_host_def host_init_def sample_env_def sample_ser_def)
  then obtain s' where s': "enrol (he_enc sample_env) (he_ser sample_env) SaveWorks (secs 5) (secs 5) (secs 600)
      (Handle (replicate 16 0)) (sample_device ''a'') ?s = (s', Enrolled_as ''a'')" ..
  from enrolment_outcome [OF ok s'] s' show ?thesis by auto
qed

theorem resume_after_stop_lost_witness:
  "\<not> may_run (fold (host_exec sample_env) ([HO_OpenPairing sample_entropy 0, HO_Subscribe 0, HO_Stop, HO_ClosePairing,
      HO_TaskEnds 0, HO_OpenPairing sample_entropy 0] @ [HO_Subscribe 1]) (host_init sample_store ''https://x'' (7 :: nat) sample_words))"
proof -
  have p: "session_new (he_enc sample_env) ''https://x'' sample_words sample_entropy 0 = Ok sample_pairing"
    using sample_session by (simp add: sample_env_def)
  have "list_all (\<lambda>op. \<not> is_stop op) [HO_Subscribe 1 :: (unit, nat) host_op]" by simp
  from resume_after_stop_lost [OF p p this refl] show ?thesis by blast
qed

theorem open_pairing_keeps_stopped_witness:
  "\<exists>s'. open_pairing (he_enc sample_env) sample_entropy (secs 5) (stop_command paired_host) = (s', Ok ()) \<and> hs_stopped s'"
proof -
  have "host_ok paired_host" using sample_host_ok by (simp add: host_ok_def paired_host_def)
  then have "host_ok (stop_command paired_host)" by (rule host_ok_stop)
  moreover have "hs_stopped (stop_command paired_host)" by (simp add: stop_command_def)
  moreover have "live_now (secs 5) (stop_command paired_host) = live_now (secs 5) paired_host"
    by (simp add: live_now_def expired_pairing_def stop_command_def)
  then have "live_now (secs 5) (stop_command paired_host) \<noteq> None" by (simp add: paired_live)
  ultimately show ?thesis using open_pairing_keeps_stopped by blast
qed

theorem failed_rotation_keeps_sessions_witness:
  "\<exists>st. wire_revoke (he_ser sample_env) SaveWorks False None \<lparr>rr_device_id = None, rr_all = Some True\<rparr> sample_host
     = (sample_host\<lparr>hs_store := st\<rparr>, Err DeviceKeys) \<and> ds_devices st = []"
proof -
  have "\<exists>st cleared. store_clear_all (he_ser sample_env) SaveWorks (hs_store sample_host) = (st, Ok cleared)"
    by (simp add: store_clear_all_def store_save_def sample_env_def sample_ser_def)
  then show ?thesis using failed_rotation_keeps_sessions by blast
qed

end
