(* ===== verification/Pane_Scheduler.thy ===== *)
theory Pane_Scheduler
  imports Rate_Limits
begin

text \<open>
  \<open>herdr-relay/src/watch/scheduler.rs\<close>: when the host reads a watched pane. A changed
  revision, the poll timer and a sent input each arm a deadline; a cap limits the reads of
  each second. Every instant is an argument, as in the source. The contract
  \<open>sliding_window\<close> of the hub's limiter covers the read history too.
\<close>

record pane_scheduler =
  sc_window :: duration
  sc_poll :: duration
  sc_input_offsets :: "duration list"
  sc_max_per_sec :: "32 word"
  sc_pending_due :: "instant option"
  sc_window_open_until :: "instant option"
  sc_next_poll :: instant
  sc_input_due :: "instant list"
  sc_read_history :: "instant list"

datatype fire_outcome = Read | PollRead | RateLimited

definition scheduler_new :: "duration \<Rightarrow> duration \<Rightarrow> duration list \<Rightarrow> 32 word \<Rightarrow> instant \<Rightarrow> pane_scheduler" where
  "scheduler_new window poll offsets max_per_sec now =
     \<lparr>sc_window = window, sc_poll = poll, sc_input_offsets = sort offsets, sc_max_per_sec = max_per_sec,
      sc_pending_due = None, sc_window_open_until = None, sc_next_poll = now + poll, sc_input_due = [],
      sc_read_history = []\<rparr>"

definition on_input_sent :: "instant \<Rightarrow> pane_scheduler \<Rightarrow> pane_scheduler" where
  "on_input_sent now s = s\<lparr>sc_input_due := map (\<lambda>offset. now + offset) (sc_input_offsets s)\<rparr>"

definition on_revision_changed :: "instant \<Rightarrow> pane_scheduler \<Rightarrow> pane_scheduler" where
  "on_revision_changed now s =
     (if sc_pending_due s = None
      then s\<lparr>sc_pending_due := Some (case sc_window_open_until s of Some until \<Rightarrow> max until now | None \<Rightarrow> now)\<rparr>
      else s)"

definition next_deadline :: "pane_scheduler \<Rightarrow> instant option" where
  "next_deadline s =
     (let due = sc_next_poll s;
          due1 = (case sc_pending_due s of Some pending \<Rightarrow> min due pending | None \<Rightarrow> due);
          due2 = (case sc_input_due s of input # _ \<Rightarrow> min due1 input | [] \<Rightarrow> due1)
      in Some due2)"

definition fire :: "instant \<Rightarrow> pane_scheduler \<Rightarrow> pane_scheduler \<times> fire_outcome option" where
  "fire now s =
     (let revision_due = (case sc_pending_due s of Some due \<Rightarrow> due \<le> now | None \<Rightarrow> False);
          poll_due = (sc_next_poll s \<le> now);
          input_due = (case sc_input_due s of due # _ \<Rightarrow> due \<le> now | [] \<Rightarrow> False) in
      if \<not> revision_due \<and> \<not> poll_due \<and> \<not> input_due then (s, None)
      else
        let s1 = (if poll_due then s\<lparr>sc_next_poll := now + sc_poll s\<rparr> else s);
            s2 = (if input_due then s1\<lparr>sc_input_due := filter (\<lambda>due. now < due) (sc_input_due s1)\<rparr> else s1);
            s3 = s2\<lparr>sc_read_history := dropWhile (\<lambda>t. secs 1 \<le> now - t) (sc_read_history s2)\<rparr> in
        if sc_max_per_sec s3 \<le> of_nat (length (sc_read_history s3)) then
          ((if revision_due
            then s3\<lparr>sc_pending_due := Some ((case sc_read_history s3 of t # _ \<Rightarrow> t | [] \<Rightarrow> now) + secs 1)\<rparr>
            else s3), Some RateLimited)
        else
          let s4 = (if revision_due then s3\<lparr>sc_pending_due := None, sc_window_open_until := Some (now + sc_window s3)\<rparr> else s3)
          in (s4\<lparr>sc_read_history := sc_read_history s4 @ [now]\<rparr>, Some (if revision_due then Read else PollRead)))"

section \<open>Sequences of events\<close>

datatype sched_event = EvRevision instant | EvInput instant | EvFire instant

fun ev_at :: "sched_event \<Rightarrow> instant" where
  "ev_at (EvRevision t) = t"
| "ev_at (EvInput t) = t"
| "ev_at (EvFire t) = t"

fun sched_step :: "pane_scheduler \<Rightarrow> sched_event \<Rightarrow> pane_scheduler \<times> fire_outcome option" where
  "sched_step s (EvRevision t) = (on_revision_changed t s, None)"
| "sched_step s (EvInput t) = (on_input_sent t s, None)"
| "sched_step s (EvFire t) = fire t s"

text \<open>The outcomes of a run, each with its instant.\<close>

fun sched_run :: "pane_scheduler \<Rightarrow> sched_event list \<Rightarrow> pane_scheduler \<times> (instant \<times> fire_outcome) list" where
  "sched_run s [] = (s, [])"
| "sched_run s (e # es) =
     (case sched_step s e of (s1, r) \<Rightarrow>
        case sched_run s1 es of (s2, rs) \<Rightarrow> (s2, (case r of Some x \<Rightarrow> [(ev_at e, x)] | None \<Rightarrow> []) @ rs))"

definition is_read :: "fire_outcome \<Rightarrow> bool" where "is_read x \<longleftrightarrow> x = Read \<or> x = PollRead"

definition reads_of :: "(instant \<times> fire_outcome) list \<Rightarrow> instant list" where
  "reads_of rs = map fst (filter (\<lambda>r. is_read (snd r)) rs)"

section \<open>The read history is a sliding window\<close>

text \<open>
  The length of the history is compared as a \<open>u32\<close>. On the states whose history is within
  the cap \<open>m\<close>, which a run never leaves, the comparison is that of the lengths.
\<close>

definition capped_step :: "32 word \<Rightarrow> pane_scheduler \<Rightarrow> sched_event \<Rightarrow> pane_scheduler \<times> bool" where
  "capped_step m s e =
     (if length (sc_read_history s) \<le> unat m
      then case sched_step (s\<lparr>sc_max_per_sec := m\<rparr>) e of (s', r) \<Rightarrow> (s', case r of Some x \<Rightarrow> is_read x | None \<Rightarrow> False)
      else (s, False))"

definition revision_due :: "instant \<Rightarrow> pane_scheduler \<Rightarrow> bool" where
  "revision_due now s \<longleftrightarrow> (case sc_pending_due s of Some due \<Rightarrow> due \<le> now | None \<Rightarrow> False)"

definition input_due :: "instant \<Rightarrow> pane_scheduler \<Rightarrow> bool" where
  "input_due now s \<longleftrightarrow> (case sc_input_due s of due # _ \<Rightarrow> due \<le> now | [] \<Rightarrow> False)"

definition any_due :: "instant \<Rightarrow> pane_scheduler \<Rightarrow> bool" where
  "any_due now s \<longleftrightarrow> revision_due now s \<or> sc_next_poll s \<le> now \<or> input_due now s"

text \<open>The state in which the cap is checked.\<close>

definition rearmed :: "instant \<Rightarrow> pane_scheduler \<Rightarrow> pane_scheduler" where
  "rearmed now s = s\<lparr>sc_next_poll := (if sc_next_poll s \<le> now then now + sc_poll s else sc_next_poll s),
     sc_input_due := (if input_due now s then filter (\<lambda>due. now < due) (sc_input_due s) else sc_input_due s),
     sc_read_history := prune (secs 1) now (sc_read_history s)\<rparr>"

lemma fire_eq:
  "fire now s =
     (if \<not> any_due now s then (s, None)
      else let s3 = rearmed now s in
        if sc_max_per_sec s \<le> of_nat (length (prune (secs 1) now (sc_read_history s))) then
          ((if revision_due now s
            then s3\<lparr>sc_pending_due := Some ((case prune (secs 1) now (sc_read_history s) of t # _ \<Rightarrow> t | [] \<Rightarrow> now) + secs 1)\<rparr>
            else s3), Some RateLimited)
        else ((if revision_due now s
            then s3\<lparr>sc_pending_due := None, sc_window_open_until := Some (now + sc_window s),
                    sc_read_history := prune (secs 1) now (sc_read_history s) @ [now]\<rparr>
            else s3\<lparr>sc_read_history := prune (secs 1) now (sc_read_history s) @ [now]\<rparr>),
          Some (if revision_due now s then Read else PollRead)))"
proof -
  let ?p = "sc_next_poll s \<le> now" and ?i = "input_due now s"
  have s2: "(if ?i then (if ?p then s\<lparr>sc_next_poll := now + sc_poll s\<rparr> else s)\<lparr>sc_input_due :=
        filter (\<lambda>due. now < due) (sc_input_due (if ?p then s\<lparr>sc_next_poll := now + sc_poll s\<rparr> else s))\<rparr>
      else (if ?p then s\<lparr>sc_next_poll := now + sc_poll s\<rparr> else s)) =
      s\<lparr>sc_next_poll := (if ?p then now + sc_poll s else sc_next_poll s),
        sc_input_due := (if ?i then filter (\<lambda>due. now < due) (sc_input_due s) else sc_input_due s)\<rparr>"
    by (cases ?p; cases ?i) simp_all
  show ?thesis
    unfolding fire_def Let_def revision_due_def [symmetric] input_due_def [symmetric] s2
    by (simp add: any_due_def rearmed_def prune_def)
qed

lemma fire_history:
  assumes "fire now s = (s', r)" "length (sc_read_history s) \<le> unat (sc_max_per_sec s)"
  shows "(r \<noteq> None \<and> is_read (the r) \<longrightarrow> length (prune (secs 1) now (sc_read_history s)) < unat (sc_max_per_sec s))
    \<and> (sc_read_history s' = prune (secs 1) now (sc_read_history s) @ (if r \<noteq> None \<and> is_read (the r) then [now] else [])
       \<or> r = None \<and> s' = s)"
proof -
  let ?h = "prune (secs 1) now (sc_read_history s)"
  have l: "length ?h \<le> length (sc_read_history s)" by (simp add: prune_def length_dropWhile_le)
  then have "length ?h < 2 ^ LENGTH(32)"
    using assms(2) unsigned_less [where 'a = nat and w = "sc_max_per_sec s"] by linarith
  then have "unat (of_nat (length ?h) :: 32 word) = length ?h"
    by (simp add: unsigned_of_nat take_bit_nat_eq_self)
  then have cmp: "sc_max_per_sec s \<le> of_nat (length ?h) \<longleftrightarrow> unat (sc_max_per_sec s) \<le> length ?h"
    by (simp add: word_le_nat_alt)
  show ?thesis
  proof (cases "any_due now s")
    case False
    then show ?thesis using assms(1) by (simp add: fire_eq)
  next
    case True
    then show ?thesis using assms(1) cmp
      by (cases "revision_due now s"; cases "unat (sc_max_per_sec s) \<le> length ?h")
         (auto simp: fire_eq Let_def is_read_def rearmed_def)
  qed
qed

lemma sched_step_max [simp]: "sc_max_per_sec (fst (sched_step s e)) = sc_max_per_sec s"
  by (cases e) (simp_all add: on_revision_changed_def on_input_sent_def fire_eq rearmed_def Let_def)

interpretation read_window: sliding_window "capped_step m" sc_read_history "\<lambda>_. True" ev_at "secs 1" "unat m" for m
proof
  show "0 < secs 1" by simp
  show "(b \<longrightarrow> length (prune (secs 1) (ev_at e) (sc_read_history s)) < unat m) \<and>
      (sc_read_history s' = prune (secs 1) (ev_at e) (sc_read_history s) @ (if b then [ev_at e] else [])
       \<or> \<not> b \<and> sc_read_history s' = sc_read_history s)"
    if "capped_step m s e = (s', b)" for e s s' b
  proof (cases e)
    case (EvFire t)
    obtain s1 r where f: "fire t (s\<lparr>sc_max_per_sec := m\<rparr>) = (s1, r)" by force
    show ?thesis using that EvFire f fire_history [OF f]
      by (cases r) (auto simp: capped_step_def split: if_splits)
  qed (use that in \<open>auto simp: capped_step_def on_revision_changed_def on_input_sent_def split: if_splits\<close>)
qed (simp_all)

section \<open>What a run reads\<close>

lemma fire_capped:
  assumes "sc_max_per_sec s = m" "length (sc_read_history s) \<le> unat m" "sched_step s e = (s', r)"
  shows "capped_step m s e = (s', case r of Some x \<Rightarrow> is_read x | None \<Rightarrow> False)
    \<and> sc_max_per_sec s' = m \<and> length (sc_read_history s') \<le> unat m"
proof -
  have s: "s\<lparr>sc_max_per_sec := m\<rparr> = s" using assms(1) by (cases s) simp
  have c: "capped_step m s e = (s', case r of Some x \<Rightarrow> is_read x | None \<Rightarrow> False)"
    using assms(2,3) by (simp add: capped_step_def s)
  have len: "length (prune (secs 1) (ev_at e) (sc_read_history s)) \<le> unat m"
    using assms(2) length_dropWhile_le order_trans unfolding prune_def by blast
  have m: "sc_max_per_sec s' = m" using sched_step_max [of s e] assms(1,3) by simp
  have "length (sc_read_history s') \<le> unat m"
    using read_window.step_mine [OF TrueI c] len assms(2) by auto
  then show ?thesis using c m by simp
qed

lemma sched_run_window:
  "sc_max_per_sec s = m \<Longrightarrow> length (sc_read_history s) \<le> unat m \<Longrightarrow> sched_run s es = (s', rs) \<Longrightarrow>
     read_window.run m s es = (s', reads_of rs)"
proof (induction es arbitrary: s rs)
  case (Cons e es)
  obtain s1 r where st: "sched_step s e = (s1, r)" by force
  obtain rs1 where run: "sched_run s1 es = (s', rs1)"
    "rs = (case r of Some x \<Rightarrow> [(ev_at e, x)] | None \<Rightarrow> []) @ rs1"
    using Cons.prems(3) by (auto simp: st split: prod.splits)
  note f = fire_capped [OF Cons.prems(1,2) st]
  have "read_window.run m s1 es = (s', reads_of rs1)" using Cons.IH run(1) f by blast
  then show ?case using f run(2) by (cases r) (auto simp: reads_of_def)
qed (simp add: reads_of_def)

lemma read_window_in_order:
  "sorted (map ev_at es) \<Longrightarrow> \<forall>e\<in>set es. now \<le> ev_at e \<Longrightarrow> read_window.in_order now es"
  by (induction es arbitrary: now) auto

text \<open>C21: The cap holds in every second, not only in calendar ones: whatever revision events, inputs
  and timer calls reach a pane, in the order of their instants, the reads in any interval of one
  second are at most \<open>max_per_sec\<close>.\<close>

theorem reads_per_second:
  assumes "sched_run (scheduler_new w poll offsets m now) es = (s', rs)"
    and "sorted (map ev_at es)" "\<forall>e\<in>set es. now \<le> ev_at e"
  shows "in_window x (secs 1) (reads_of rs) \<le> unat m"
proof (rule read_window.window_bound(1))
  show "read_window.run m (scheduler_new w poll offsets m now) es = (s', reads_of rs)"
    by (rule sched_run_window [OF _ _ assms(1)]) (simp_all add: scheduler_new_def)
  show "read_window.in_order now es" using assms(2,3) by (rule read_window_in_order)
qed (simp add: scheduler_new_def)

definition busy_events :: "sched_event list" where
  "busy_events = [EvRevision 5, EvFire 5, EvInput 6, EvFire 10, EvFire 20, EvFire (secs 1 + 5), EvFire (secs 1 + 6)]"

definition busy_scheduler :: pane_scheduler where
  "busy_scheduler = scheduler_new 3 7 [1, 4] 2 0"

lemma busy_run:
  "snd (sched_run busy_scheduler busy_events) =
     [(5, Read), (10, PollRead), (20, RateLimited), (secs 1 + 5, PollRead)]"
  by (simp add: busy_scheduler_def busy_events_def scheduler_new_def on_revision_changed_def on_input_sent_def
      fire_def secs_def is_read_def Let_def word_le_nat_alt)

theorem reads_per_second_witness:
  "in_window 5 (secs 1) (reads_of (snd (sched_run (scheduler_new 3 7 [1, 4] 2 0) busy_events))) \<le> unat (2 :: 32 word)"
  by (rule reads_per_second [OF surjective_pairing]) (simp_all add: busy_events_def secs_def)

section \<open>No busy loop, no lost revision\<close>

lemma next_deadline_due: "next_deadline s = Some d \<Longrightarrow> d \<le> now \<longleftrightarrow> any_due now s"
  by (auto simp: next_deadline_def any_due_def revision_due_def input_due_def Let_def min_def
      split: option.splits list.splits if_splits)

lemma filter_hd_gt: "filter (\<lambda>d. now < (d :: instant)) ds = d # rest \<Longrightarrow> now < d"
  by (metis filter_eq_Cons_iff)

lemma rearmed_quiet:
  assumes "0 < sc_poll s"
  shows "\<not> sc_next_poll (rearmed now s) \<le> now" "\<not> input_due now (rearmed now s)"
  using assms by (auto simp: rearmed_def input_due_def dest: filter_hd_gt split: list.splits)

lemma prune_hd_recent: "prune w now h = t # rest \<Longrightarrow> now < t + w"
  using hd_dropWhile [of "\<lambda>t. w \<le> now - t" h] by (fastforce simp: prune_def)

lemma fire_fields:
  assumes "fire now s = (s', Some r)"
  shows "sc_next_poll s' = sc_next_poll (rearmed now s)" "sc_input_due s' = sc_input_due (rearmed now s)"
    "sc_window s' = sc_window s" "r = Read \<Longrightarrow> revision_due now s"
    "sc_window_open_until s' = (if r = Read then Some (now + sc_window s) else sc_window_open_until s)"
    "sc_pending_due s' =
       (if r = Read then None
        else if revision_due now s
        then Some ((case prune (secs 1) now (sc_read_history s) of t # _ \<Rightarrow> t | [] \<Rightarrow> now) + secs 1)
        else sc_pending_due s)"
proof -
  have "sc_window (rearmed now s) = sc_window s" "sc_pending_due (rearmed now s) = sc_pending_due s"
    "sc_window_open_until (rearmed now s) = sc_window_open_until s"
    by (simp_all add: rearmed_def)
  then show "sc_next_poll s' = sc_next_poll (rearmed now s)" "sc_input_due s' = sc_input_due (rearmed now s)"
    "sc_window s' = sc_window s" "r = Read \<Longrightarrow> revision_due now s"
    "sc_window_open_until s' = (if r = Read then Some (now + sc_window s) else sc_window_open_until s)"
    "sc_pending_due s' =
       (if r = Read then None
        else if revision_due now s
        then Some ((case prune (secs 1) now (sc_read_history s) of t # _ \<Rightarrow> t | [] \<Rightarrow> now) + secs 1)
        else sc_pending_due s)"
    using assms by (auto simp: fire_eq Let_def split: if_splits)
qed

lemma retry_later: "now < (case prune (secs 1) now h of t # _ \<Rightarrow> t | [] \<Rightarrow> now) + secs 1"
  using prune_hd_recent [of "secs 1" now h] by (cases "prune (secs 1) now h") auto

lemma fire_quiet:
  assumes "0 < sc_poll s" "fire now s = (s', Some r)"
  shows "\<not> any_due now s'"
proof -
  note f = fire_fields [OF assms(2)]
  have "\<not> sc_next_poll s' \<le> now" "\<not> input_due now s'"
    using rearmed_quiet [OF assms(1), of now] f(1,2) by (simp_all add: input_due_def)
  moreover have "\<not> revision_due now s'"
  proof (cases "revision_due now s")
    case True
    then show ?thesis using f(6) retry_later [of now "sc_read_history s"] by (simp add: revision_due_def)
  next
    case False
    then show ?thesis using f(4,6) by (auto simp: revision_due_def)
  qed
  ultimately show ?thesis by (simp add: any_due_def)
qed

lemma sched_step_pending:
  assumes "sc_pending_due s \<noteq> None" "sched_step s e = (s', r)" "r \<noteq> Some Read"
  shows "sc_pending_due s' \<noteq> None"
proof (cases e)
  case (EvFire t)
  then show ?thesis
    using assms fire_fields(6) [of t s s'] by (cases r) (auto simp: fire_eq Let_def split: if_splits)
qed (use assms in \<open>auto simp: on_revision_changed_def on_input_sent_def split: if_splits\<close>)

lemma pending_kept:
  "sc_pending_due s \<noteq> None \<Longrightarrow> sched_run s es = (s', rs) \<Longrightarrow> Read \<notin> snd ` set rs \<Longrightarrow> sc_pending_due s' \<noteq> None"
proof (induction es arbitrary: s rs)
  case (Cons e es)
  obtain s1 r where st: "sched_step s e = (s1, r)" by force
  obtain rs1 where run: "sched_run s1 es = (s', rs1)"
    "rs = (case r of Some x \<Rightarrow> [(ev_at e, x)] | None \<Rightarrow> []) @ rs1"
    using Cons.prems(2) by (auto simp: st split: prod.splits)
  have "r \<noteq> Some Read" "Read \<notin> snd ` set rs1" using run(2) Cons.prems(3) by (auto split: option.splits)
  then show ?case using Cons.IH sched_step_pending [OF Cons.prems(1) st] run(1) by blast
qed simp

text \<open>C23: The loop that sleeps until \<open>next_deadline\<close> makes progress: \<open>fire\<close> does nothing exactly
  before the deadline, and with a positive poll period an outcome moves the deadline strictly past
  the present, so the loop never spins. A pending revision is never lost: until a \<open>Read\<close> it stays armed.\<close>

theorem fire_makes_progress:
  assumes "next_deadline s = Some d" "fire now s = (s', r)" "0 < sc_poll s"
  shows "(r = None \<longleftrightarrow> now < d) \<and> (r = None \<longrightarrow> s' = s) \<and>
      (r \<noteq> None \<longrightarrow> (\<exists>d'. next_deadline s' = Some d' \<and> now < d')) \<and>
      (sched_run s es = (s2, rs) \<longrightarrow> sc_pending_due s \<noteq> None \<longrightarrow> Read \<notin> snd ` set rs \<longrightarrow> sc_pending_due s2 \<noteq> None)"
proof (intro conjI impI)
  have n: "r = None \<longleftrightarrow> \<not> any_due now s" using assms(2) by (auto simp: fire_eq Let_def split: if_splits)
  then show "r = None \<longleftrightarrow> now < d" using next_deadline_due [OF assms(1), of now] by auto
  show "s' = s" if "r = None" using that n assms(2) by (simp add: fire_eq)
  show "\<exists>d'. next_deadline s' = Some d' \<and> now < d'" if out: "r \<noteq> None"
  proof -
    obtain d' where d': "next_deadline s' = Some d'" by (simp add: next_deadline_def Let_def)
    have "\<not> any_due now s'" using fire_quiet [OF assms(3)] assms(2) out by auto
    then show ?thesis using d' next_deadline_due [OF d', of now] by auto
  qed
  show "sc_pending_due s2 \<noteq> None" if "sched_run s es = (s2, rs)" "sc_pending_due s \<noteq> None" "Read \<notin> snd ` set rs"
    using pending_kept that by blast
qed

theorem fire_makes_progress_witness:
  "snd (fire 9 busy_scheduler) = Some PollRead \<and> (\<exists>d'. next_deadline (fst (fire 9 busy_scheduler)) = Some d' \<and> 9 < d')"
proof
  show *: "snd (fire 9 busy_scheduler) = Some PollRead"
    by (simp add: busy_scheduler_def scheduler_new_def fire_def Let_def word_le_nat_alt)
  have d: "next_deadline busy_scheduler = Some 7" and p: "0 < sc_poll busy_scheduler"
    by (simp_all add: busy_scheduler_def scheduler_new_def next_deadline_def Let_def)
  show "\<exists>d'. next_deadline (fst (fire 9 busy_scheduler)) = Some d' \<and> 9 < d'"
    using fire_makes_progress [THEN conjunct2, THEN conjunct2, THEN conjunct1, OF d surjective_pairing p, of 9] * by simp
qed

section \<open>The coalescing window\<close>

definition window_inv :: "pane_scheduler \<Rightarrow> bool" where
  "window_inv s \<longleftrightarrow> (\<forall>p u. sc_pending_due s = Some p \<longrightarrow> sc_window_open_until s = Some u \<longrightarrow> u \<le> p)"

definition read_times :: "(instant \<times> fire_outcome) list \<Rightarrow> instant list" where
  "read_times rs = map fst (filter (\<lambda>r. snd r = Read) rs)"

lemma window_inv_step:
  assumes "window_inv s" "sched_step s e = (s', r)"
  shows "window_inv s'" "sc_window s' = sc_window s"
    "sc_window_open_until s' = (if r = Some Read then Some (ev_at e + sc_window s) else sc_window_open_until s)"
    "r = Some Read \<Longrightarrow> sc_window_open_until s = Some u \<Longrightarrow> u \<le> ev_at e"
proof -
  have fire_case: "window_inv s' \<and> sc_window s' = sc_window s
      \<and> sc_window_open_until s' = (if r = Some Read then Some (t + sc_window s) else sc_window_open_until s)
      \<and> (r = Some Read \<longrightarrow> sc_window_open_until s = Some u \<longrightarrow> u \<le> t)"
    if f: "fire t s = (s', r)" for t
  proof (cases r)
    case None
    then have "s' = s" using f by (auto simp: fire_eq Let_def split: if_splits)
    then show ?thesis using assms(1) None by simp
  next
    case (Some x)
    have f': "fire t s = (s', Some x)" using f Some by simp
    note ff = fire_fields [OF f']
    have due: "v \<le> t" if "revision_due t s" "sc_window_open_until s = Some v" for v
      using assms(1) that by (force simp: window_inv_def revision_due_def split: option.splits)
    have "window_inv s'"
      using ff(5,6) due assms(1) retry_later [of t "sc_read_history s"]
      by (cases "x = Read"; cases "revision_due t s") (force simp: window_inv_def)+
    then show ?thesis using ff(3,4,5) due Some by auto
  qed
  have "window_inv s' \<and> sc_window s' = sc_window s
      \<and> sc_window_open_until s' = (if r = Some Read then Some (ev_at e + sc_window s) else sc_window_open_until s)
      \<and> (r = Some Read \<longrightarrow> sc_window_open_until s = Some u \<longrightarrow> u \<le> ev_at e)"
  proof (cases e)
    case (EvFire t)
    then show ?thesis using fire_case [of t] assms(2) by simp
  qed (use assms in \<open>auto simp: window_inv_def on_revision_changed_def on_input_sent_def split: if_splits option.splits\<close>)
  then show "window_inv s'" "sc_window s' = sc_window s"
    "sc_window_open_until s' = (if r = Some Read then Some (ev_at e + sc_window s) else sc_window_open_until s)"
    "r = Some Read \<Longrightarrow> sc_window_open_until s = Some u \<Longrightarrow> u \<le> ev_at e" by blast+
qed

lemma reads_spaced_from:
  "window_inv s \<Longrightarrow> sc_window s = w \<Longrightarrow> sched_run s es = (s', rs) \<Longrightarrow>
     (\<forall>u. sc_window_open_until s = Some u \<longrightarrow> (\<forall>t\<in>set (read_times rs). u \<le> t))
     \<and> sorted_wrt (\<lambda>a b. a + w \<le> b) (read_times rs)"
proof (induction es arbitrary: s rs)
  case (Cons e es)
  obtain s1 r where st: "sched_step s e = (s1, r)" by force
  obtain rs1 where run: "sched_run s1 es = (s', rs1)"
    "rs = (case r of Some x \<Rightarrow> [(ev_at e, x)] | None \<Rightarrow> []) @ rs1"
    using Cons.prems(3) by (auto simp: st split: prod.splits)
  note i = window_inv_step [OF Cons.prems(1) st]
  have ih: "\<forall>u. sc_window_open_until s1 = Some u \<longrightarrow> (\<forall>t\<in>set (read_times rs1). u \<le> t)"
    "sorted_wrt (\<lambda>a b. a + w \<le> b) (read_times rs1)"
    using Cons.IH [OF i(1) _ run(1)] i(2) Cons.prems(2) by auto
  show ?case
  proof (cases "r = Some Read")
    case True
    then have "read_times rs = ev_at e # read_times rs1" using run(2) by (simp add: read_times_def)
    moreover have "\<forall>t\<in>set (read_times rs1). ev_at e + w \<le> t" using ih(1) i(3) True Cons.prems(2) by simp
    ultimately show ?thesis using ih(2) i(4) [OF True] by fastforce
  next
    case False
    then have "read_times rs = read_times rs1" using run(2) by (auto simp: read_times_def split: option.splits)
    then show ?thesis using ih i(3) False by simp
  qed
qed (simp add: read_times_def)

text \<open>Two reads that answer a changed revision are at least one coalescing window apart, whatever
  events, inputs, polls and refusals of the cap lie between them.\<close>

theorem revision_reads_spaced:
  assumes "sched_run (scheduler_new w poll offsets m now) es = (s', rs)"
  shows "sorted_wrt (\<lambda>a b. a + w \<le> b) (read_times rs)"
proof -
  have "window_inv (scheduler_new w poll offsets m now)" "sc_window (scheduler_new w poll offsets m now) = w"
    by (simp_all add: window_inv_def scheduler_new_def)
  from reads_spaced_from [OF this assms] show ?thesis by blast
qed

theorem revision_reads_spaced_witness:
  "read_times (snd (sched_run (scheduler_new 3 100 [] 5 0) [EvRevision 5, EvFire 5, EvRevision 6, EvFire 7, EvFire 8])) = [5, 8]
   \<and> sorted_wrt (\<lambda>a b. a + 3 \<le> b) (read_times (snd (sched_run (scheduler_new 3 100 [] 5 0)
        [EvRevision 5, EvFire 5, EvRevision 6, EvFire 7, EvFire 8])))"
proof
  show "read_times (snd (sched_run (scheduler_new 3 100 [] 5 0) [EvRevision 5, EvFire 5, EvRevision 6, EvFire 7, EvFire 8])) = [5, 8]"
    by (simp add: scheduler_new_def on_revision_changed_def fire_def secs_def Let_def read_times_def word_le_nat_alt)
qed (rule revision_reads_spaced [OF surjective_pairing])

end
