(* ===== verification/Json.thy ===== *)
theory Json
  imports Prelude Rust_Str
begin

text \<open>
  The value type of \<open>serde_json\<close>, with the accessors the program calls on it. A number is an
  unsigned or a signed 64-bit integer or a float; a float is kept as its 64 bits. An object is
  an association list; \<open>get\<close> finds no member in anything but an object.
\<close>

type_synonym f64 = "64 word"

datatype json_number = PosInt "64 word" | NegInt "64 word" | Float f64

datatype json =
    JNull
  | JBool bool
  | JNum json_number
  | JStr string
  | JArr "json list"
  | JObj "(string \<times> json) list"

fun jget :: "string \<Rightarrow> json \<Rightarrow> json option" where
  "jget k (JObj kvs) = map_of kvs k"
| "jget k _ = None"

fun as_str :: "json \<Rightarrow> string option" where
  "as_str (JStr s) = Some s"
| "as_str _ = None"

fun as_bool :: "json \<Rightarrow> bool option" where
  "as_bool (JBool b) = Some b"
| "as_bool _ = None"

fun as_u64 :: "json \<Rightarrow> (64 word) option" where
  "as_u64 (JNum (PosInt n)) = Some n"
| "as_u64 _ = None"

text \<open>\<open>as_f64\<close> converts the integers; \<open>conv\<close> is that conversion.\<close>

fun as_f64 :: "(json_number \<Rightarrow> f64) \<Rightarrow> json \<Rightarrow> f64 option" where
  "as_f64 conv (JNum n) = Some (case n of Float x \<Rightarrow> x | _ \<Rightarrow> conv n)"
| "as_f64 conv _ = None"

fun as_array :: "json \<Rightarrow> json list option" where
  "as_array (JArr vs) = Some vs"
| "as_array _ = None"

fun is_object :: "json \<Rightarrow> bool" where
  "is_object (JObj _) = True"
| "is_object _ = False"

text \<open>\<open>value[k] = v\<close> on an object.\<close>

fun jset :: "string \<Rightarrow> json \<Rightarrow> json \<Rightarrow> json" where
  "jset k v (JObj kvs) = JObj (AList.update k v kvs)"
| "jset k v j = j"

definition jopt :: "string option \<Rightarrow> json" where
  "jopt x = (case x of Some s \<Rightarrow> JStr s | None \<Rightarrow> JNull)"

text \<open>The member \<open>k\<close> of an optional value as a string: \<open>v.as_ref()?.get(k)?.as_str()\<close>.\<close>

definition get_str :: "string \<Rightarrow> json option \<Rightarrow> string option" where
  "get_str k v = Option.bind (Option.bind v (jget k)) as_str"

lemma jget_jset [simp]:
  "is_object j \<Longrightarrow> jget k (jset k' v j) = (if k = k' then Some v else jget k j)"
  by (cases j) simp_all

lemma is_object_jset [simp]: "is_object (jset k v j) = is_object j"
  by (cases j) simp_all

lemma as_str_Some [simp]: "as_str j = Some s \<longleftrightarrow> j = JStr s"
  by (cases j) simp_all

lemma as_bool_Some [simp]: "as_bool j = Some b \<longleftrightarrow> j = JBool b"
  by (cases j) simp_all

lemma as_array_Some [simp]: "as_array j = Some vs \<longleftrightarrow> j = JArr vs"
  by (cases j) simp_all

lemma jget_object: "jget k j = Some v \<Longrightarrow> is_object j"
  by (cases j) simp_all

lemma get_str_None [simp]: "get_str k None = None"
  by (simp add: get_str_def)

end
