(* ===== verification/Key_Map.thy ===== *)
theory Key_Map
  imports Prelude Rust_Str Rust_Fmt
begin

text \<open>
  \<open>herdr-relay/src/watch/key_map.rs\<close>: the vocabulary of the \<open>keys\<close> field. A \<open>RejectedKey\<close> is
  the refused text.
\<close>

definition NAMED_KEYS :: "string list" where
  "NAMED_KEYS = [''up'', ''down'', ''left'', ''right'', ''enter'', ''return'', ''tab'', ''esc'', ''escape'',
     ''backspace'', ''space'']"

definition PERMITTED_MODIFIERS :: "string list" where
  "PERMITTED_MODIFIERS = [''ctrl'', ''alt'', ''shift'']"

definition FORBIDDEN_MODIFIERS :: "string list" where
  "FORBIDDEN_MODIFIERS = [''super'', ''cmd'', ''meta'']"

definition is_function_key :: "string \<Rightarrow> bool" where
  "is_function_key lower =
     (case strip_prefix ''f'' lower of
        None \<Rightarrow> False
      | Some rest \<Rightarrow>
          if rest = [] \<or> \<not> list_all is_digit rest then False
          else (case parse_unsigned (2 ^ 32) rest of Some n \<Rightarrow> n \<le> 99 | None \<Rightarrow> False))"

definition split_chord :: "string \<Rightarrow> (string list \<times> string) option" where
  "split_chord lower =
     (if CHR ''+'' \<notin> set lower then None
      else let parts = split_on (CHR ''+'') lower in Some (butlast parts, last parts))"

definition validate_chord :: "string list \<Rightarrow> string \<Rightarrow> string \<Rightarrow> (unit, string) result" where
  "validate_chord modifiers base raw =
     (if modifiers = [] \<or> base = [] then Err raw
      else if \<exists>m\<in>set modifiers. m \<notin> set PERMITTED_MODIFIERS \<or> m \<in> set FORBIDDEN_MODIFIERS then Err raw
      else if modifiers \<noteq> filter (\<lambda>m. m \<in> set modifiers) PERMITTED_MODIFIERS then Err raw
      else if length (chars base) = 1 \<or> base \<in> set NAMED_KEYS then Ok () else Err raw)"

definition validate_key :: "string \<Rightarrow> (unit, string) result" where
  "validate_key raw =
     (let lower = to_ascii_lowercase raw in
      case split_chord lower of
        Some (modifiers, base) \<Rightarrow> validate_chord modifiers base raw
      | None \<Rightarrow> if lower \<in> set NAMED_KEYS \<or> is_function_key lower then Ok () else Err raw)"

section \<open>The accepted vocabulary\<close>

definition valid_modifiers :: "string list list" where
  "valid_modifiers = [[''ctrl''], [''alt''], [''shift''], [''ctrl'', ''alt''], [''ctrl'', ''shift''], [''alt'', ''shift''],
     [''ctrl'', ''alt'', ''shift'']]"

lemma permitted_filter:
  "filter P PERMITTED_MODIFIERS =
     (if P ''ctrl'' then [''ctrl''] else []) @ (if P ''alt'' then [''alt''] else []) @ (if P ''shift'' then [''shift''] else [])"
  by (simp add: PERMITTED_MODIFIERS_def)

lemma permitted_not_forbidden: "m \<in> set PERMITTED_MODIFIERS \<Longrightarrow> m \<notin> set FORBIDDEN_MODIFIERS"
  by (auto simp: PERMITTED_MODIFIERS_def FORBIDDEN_MODIFIERS_def)

lemma valid_modifiers_fixed:
  "list_all (\<lambda>ms'. ms' = filter (\<lambda>m. m \<in> set ms') PERMITTED_MODIFIERS \<and> ms' \<noteq> []
     \<and> list_all (\<lambda>m. m \<in> set PERMITTED_MODIFIERS) ms') valid_modifiers"
  by code_simp

lemma filter_permitted_valid: "filter P PERMITTED_MODIFIERS = [] \<or> filter P PERMITTED_MODIFIERS \<in> set valid_modifiers"
  by (simp add: permitted_filter valid_modifiers_def)

lemma modifier_filter:
  "modifiers \<noteq> [] \<and> (\<forall>m\<in>set modifiers. m \<in> set PERMITTED_MODIFIERS \<and> m \<notin> set FORBIDDEN_MODIFIERS)
     \<and> modifiers = filter (\<lambda>m. m \<in> set modifiers) PERMITTED_MODIFIERS \<longleftrightarrow> modifiers \<in> set valid_modifiers"
  using filter_permitted_valid [of "\<lambda>m. m \<in> set modifiers"] valid_modifiers_fixed permitted_not_forbidden
  unfolding list_all_iff by metis

lemma validate_chord_Ok:
  "validate_chord modifiers base raw = Ok () \<longleftrightarrow>
     modifiers \<in> set valid_modifiers \<and> base \<noteq> [] \<and> (length (chars base) = 1 \<or> base \<in> set NAMED_KEYS)"
  unfolding modifier_filter [symmetric] validate_chord_def by auto

lemma split_chord_Some:
  assumes "split_chord lower = Some (modifiers, base)" "modifiers \<noteq> []"
  shows "lower = join ''+'' (modifiers @ [base])" "CHR ''+'' \<notin> set base"
proof -
  let ?parts = "split_on (CHR ''+'') lower"
  have p: "modifiers = butlast ?parts" "base = last ?parts"
    using assms(1) by (auto simp: split_chord_def Let_def split: if_splits)
  then have "?parts = modifiers @ [base]" by (simp add: append_butlast_last_id)
  then show "lower = join ''+'' (modifiers @ [base])" by (metis join_split_on)
  show "CHR ''+'' \<notin> set base" using p split_on_pieces [of base "CHR ''+''" lower] by simp
qed

lemma split_chord_join:
  assumes "\<forall>m\<in>set modifiers. CHR ''+'' \<notin> set m" "CHR ''+'' \<notin> set base" "modifiers \<noteq> []"
  shows "split_chord (join ''+'' (modifiers @ [base])) = Some (modifiers, base)"
proof -
  have parts: "split_on (CHR ''+'') (join ''+'' (modifiers @ [base])) = modifiers @ [base]"
    using assms by (intro split_on_join) auto
  moreover have "CHR ''+'' \<in> set (join ''+'' (modifiers @ [base]))"
    using split_on_absent [of "CHR ''+''" "join ''+'' (modifiers @ [base])"] parts assms(3) by auto
  ultimately show ?thesis by (simp add: split_chord_def Let_def)
qed

lemma valid_modifiers_plain: "modifiers \<in> set valid_modifiers \<Longrightarrow> modifiers \<noteq> [] \<and> (\<forall>m\<in>set modifiers. CHR ''+'' \<notin> set m)"
  by (auto simp: valid_modifiers_def)

text \<open>Digits that parse to \<open>n\<close> are the numeral of \<open>n\<close> after leading zeros.\<close>

lemma digit_char_dec: "dec_digit c = Some d \<Longrightarrow> c = digit_char d \<and> d < 10"
  by (auto simp: dec_digit_def digit_char_def is_digit_def split: if_splits)

lemma parse_digits_numeral:
  "parse_digits b 0 ds = Some n \<Longrightarrow> ds \<noteq> [] \<Longrightarrow> \<exists>z. ds = replicate z CHR ''0'' @ show_nat n"
proof (induction ds arbitrary: n rule: rev_induct)
  case (snoc c xs)
  obtain m where m: "parse_digits b 0 xs = Some m" and "parse_digits b m [c] = Some n"
    using snoc.prems(1) by (auto simp: parse_digits_append Option.bind_eq_Some_conv)
  then obtain d where d: "dec_digit c = Some d" "n = m * 10 + d" by (auto split: option.splits if_splits)
  then have c: "c = digit_char d" "d < 10" using digit_char_dec by auto
  have "digit_char 0 = CHR ''0''" by code_simp
  then have zero: "show_nat 0 = ''0''" by (subst show_nat.simps) simp
  show ?case
  proof (cases "m = 0")
    case True
    have "\<exists>z. xs = replicate z CHR ''0''"
    proof (cases "xs = []")
      case False
      from snoc.IH [OF m False] show ?thesis
        by (auto simp: True zero) (metis replicate_append_same replicate_Suc)
    qed auto
    then show ?thesis using c d True by (subst show_nat.simps) auto
  next
    case False
    then have "xs \<noteq> []" using m by auto
    from snoc.IH [OF m this] obtain z where "xs = replicate z CHR ''0'' @ show_nat m" by blast
    then show ?thesis using c d False by (subst show_nat.simps) (auto intro!: exI [of _ z])
  qed
qed simp

lemma parse_digits_zeros: "0 < b \<Longrightarrow> parse_digits b 0 (replicate z CHR ''0'' @ ds) = parse_digits b 0 ds"
  by (induction z) (auto simp: dec_digit_def is_digit_def)

lemma parse_digits_all: "parse_digits b a ds = Some n \<Longrightarrow> list_all is_digit ds"
  by (induction b a ds rule: parse_digits.induct) (auto simp: dec_digit_def split: option.splits if_splits)

lemma is_function_key_iff:
  "is_function_key s \<longleftrightarrow> (\<exists>z n. n \<le> 99 \<and> s = ''f'' @ replicate z CHR ''0'' @ show_nat n)"
proof
  assume "is_function_key s"
  then obtain rest n where r: "s = ''f'' @ rest" "rest \<noteq> []" "list_all is_digit rest"
    "parse_unsigned (2 ^ 32) rest = Some n" "n \<le> 99"
    by (auto simp: is_function_key_def strip_prefix_Some split: option.splits if_splits)
  then have "hd rest \<noteq> CHR ''+''" by (cases rest) (auto simp: is_digit_def)
  then have "parse_digits (2 ^ 32) 0 rest = Some n" using r(4) by (simp add: parse_unsigned_def split: if_splits)
  from parse_digits_numeral [OF this r(2)] show "\<exists>z n. n \<le> 99 \<and> s = ''f'' @ replicate z CHR ''0'' @ show_nat n"
    using r(1,5) by auto
next
  assume "\<exists>z n. n \<le> 99 \<and> s = ''f'' @ replicate z CHR ''0'' @ show_nat n"
  then obtain z n where s: "n \<le> 99" "s = ''f'' @ replicate z CHR ''0'' @ show_nat n" by blast
  let ?rest = "replicate z CHR ''0'' @ show_nat n"
  have p: "parse_digits (2 ^ 32) 0 ?rest = Some n"
    using s(1) by (simp add: parse_digits_zeros parse_digits_show)
  have d: "list_all is_digit ?rest" using parse_digits_all [OF p] .
  have "?rest \<noteq> []" by simp
  then have h: "is_digit (hd ?rest)" using d by (metis list.pred_inject(2) list.sel(1) list.exhaust)
  then have "parse_unsigned (2 ^ 32) ?rest = Some n"
    using p d by (auto simp: parse_unsigned_def is_digit_def list_all_iff)
  then show "is_function_key s"
    using s d by (simp add: is_function_key_def)
qed

text \<open>The accepted keys, without regard to case, are exactly the named keys, \<open>f\<close> and a number of at
  most 99 with any number of leading zeros, and chords of one to three distinct modifiers in the
  order ctrl, alt, shift joined by plus signs to one character or a named key. A refusal carries
  the text as it was sent.\<close>

theorem accepted_keys:
  fixes raw :: string
  defines "lower \<equiv> to_ascii_lowercase raw"
  shows "(validate_key raw = Ok () \<longleftrightarrow>
      (lower \<in> set NAMED_KEYS \<or> (\<exists>z n. n \<le> 99 \<and> lower = ''f'' @ replicate z CHR ''0'' @ show_nat n))
      \<or> (\<exists>modifiers base. modifiers \<in> set valid_modifiers \<and> base \<noteq> [] \<and> CHR ''+'' \<notin> set base
           \<and> (length (chars base) = 1 \<or> base \<in> set NAMED_KEYS) \<and> lower = join ''+'' (modifiers @ [base])))
      \<and> (validate_key raw \<noteq> Ok () \<longrightarrow> validate_key raw = Err raw)"
    (is "(_ \<longleftrightarrow> ?plain \<or> ?chord) \<and> _")
proof (rule conjI [OF _ impI])
  have digits: "CHR ''+'' \<notin> set (show_nat n)" for n
    using show_nat_digits [of "CHR ''+''" n] by (auto simp: is_digit_def)
  have plain: "CHR ''+'' \<notin> set lower" if ?plain
    using that digits by (auto simp: NAMED_KEYS_def)
  show "validate_key raw = Ok () \<longleftrightarrow> ?plain \<or> ?chord"
  proof (cases "split_chord lower")
    case None
    then have a: "CHR ''+'' \<notin> set lower" by (auto simp: split_chord_def Let_def split: if_splits)
    have "\<not> ?chord"
      using None split_chord_join valid_modifiers_plain by fastforce
    then show ?thesis using None
      unfolding is_function_key_iff [symmetric] by (simp add: validate_key_def lower_def [symmetric])
  next
    case (Some mb)
    obtain modifiers base where mb: "mb = (modifiers, base)" by force
    have "CHR ''+'' \<in> set lower" using Some by (auto simp: split_chord_def split: if_splits)
    then have np: "\<not> ?plain" using plain by blast
    have v: "validate_key raw = validate_chord modifiers base raw"
      using Some mb by (simp add: validate_key_def lower_def [symmetric])
    show ?thesis
    proof
      assume "validate_key raw = Ok ()"
      then have c: "modifiers \<in> set valid_modifiers" "base \<noteq> []" "length (chars base) = 1 \<or> base \<in> set NAMED_KEYS"
        using v validate_chord_Ok by auto
      then have "modifiers \<noteq> []" using valid_modifiers_plain by blast
      then show "?plain \<or> ?chord"
        using c split_chord_Some [OF Some [unfolded mb]] by blast
    next
      assume "?plain \<or> ?chord"
      then obtain ms' base' where c: "ms' \<in> set valid_modifiers" "base' \<noteq> []" "CHR ''+'' \<notin> set base'"
        "length (chars base') = 1 \<or> base' \<in> set NAMED_KEYS" "lower = join ''+'' (ms' @ [base'])"
        using np by blast
      then have "split_chord lower = Some (ms', base')"
        using split_chord_join valid_modifiers_plain by blast
      then show "validate_key raw = Ok ()" using c v validate_chord_Ok Some mb by auto
    qed
  qed
  show "validate_key raw = Err raw" if "validate_key raw \<noteq> Ok ()"
    using that by (auto simp: validate_key_def validate_chord_def Let_def split: option.splits if_splits)
qed

theorem accepted_keys_witness:
  "validate_key ''ctrl-c'' = Err ''ctrl-c'' \<and> validate_key ''F007'' = Ok ()"
proof
  have "validate_key ''ctrl-c'' \<noteq> Ok ()" by code_simp
  then show "validate_key ''ctrl-c'' = Err ''ctrl-c''" using accepted_keys [of "''ctrl-c''"] by blast
  have "digit_char 7 = CHR ''7''" by code_simp
  then have "show_nat 7 = ''7''" by (subst show_nat.simps) simp
  moreover have "to_ascii_lowercase ''F007'' = ''f007''" by code_simp
  ultimately have "\<exists>z n. n \<le> 99 \<and> to_ascii_lowercase ''F007'' = ''f'' @ replicate z CHR ''0'' @ show_nat n"
    by (intro exI [of _ 2] exI [of _ 7]) (simp add: numeral_2_eq_2)
  then show "validate_key ''F007'' = Ok ()" using accepted_keys [of "''F007''"] by blast
qed

end
