(* ===== verification/Wire_Messages.thy ===== *)
theory Wire_Messages
  imports Json Codes Device_Store
begin

text \<open>
  \<open>herdr-relay-proto/src/messages.rs\<close>, \<open>messages/*.rs\<close> and \<open>frame.rs\<close>: the application messages, their
  wire names and the frame envelope. The encoding of a payload as JSON is derived by serde;
  it is an argument of the envelope.
\<close>

section \<open>Session messages\<close>

record theme_palette =
  tp_name :: string  tp_accent :: string  tp_panel_bg :: string  tp_surface0 :: string
  tp_surface1 :: string  tp_surface_dim :: string  tp_overlay0 :: string  tp_overlay1 :: string
  tp_text :: string  tp_subtext0 :: string  tp_mauve :: string  tp_green :: string
  tp_yellow :: string  tp_red :: string  tp_blue :: string  tp_teal :: string  tp_peach :: string

record host_info =
  hi_protocol :: "32 word"
  hi_host_id :: string
  hi_host_name :: string
  hi_herdr_version :: string
  hi_herdr_protocol :: "32 word"
  hi_paired :: bool
  hi_theme :: "theme_palette option"

record device_info =
  di_protocol :: "32 word"
  di_device_id :: string
  di_device_name :: string
  di_platform :: platform
  di_os_version :: string
  di_app_version :: string

section \<open>The tree\<close>

record workspace_summary =
  ws_workspace_id :: string
  ws_name :: string
  ws_focused :: bool
  ws_repo_name :: "string option"
  ws_is_linked_worktree :: bool
  ws_space_id :: "string option"

record tab_summary =
  tb_tab_id :: string
  tb_workspace_id :: string
  tb_title :: string
  tb_focused :: bool

record pane_scroll_state =
  ps_offset_from_bottom :: "64 word"
  ps_max_offset_from_bottom :: "64 word"
  ps_viewport_rows :: "32 word"

record pane_summary =
  pn_pane_id :: string
  pn_workspace_id :: string
  pn_tab_id :: string
  pn_terminal_id :: string
  pn_label :: string
  pn_title :: string
  pn_cwd :: string
  pn_focused :: bool
  pn_agent :: "string option"
  pn_agent_status :: string
  pn_revision :: "64 word"
  pn_scroll :: pane_scroll_state

record agent_summary =
  ag_agent_kind :: string
  ag_pane_id :: string
  ag_status :: string
  ag_status_at :: "string option"
  ag_session :: "string option"

record tree_snapshot =
  ts_workspaces :: "workspace_summary list"
  ts_tabs :: "tab_summary list"
  ts_panes :: "pane_summary list"
  ts_agents :: "agent_summary list"

datatype tree_event =
    WorkspaceCreated | WorkspaceUpdated | WorkspaceRenamed | WorkspaceClosed
  | TabCreated | TabClosed | TabRenamed | TabFocused
  | PaneCreated | PaneClosed | PaneUpdated | PaneFocused
  | PaneAgentStatusChanged | LayoutUpdated

fun tree_event_name :: "tree_event \<Rightarrow> string" where
  "tree_event_name WorkspaceCreated = ''workspace.created''"
| "tree_event_name WorkspaceUpdated = ''workspace.updated''"
| "tree_event_name WorkspaceRenamed = ''workspace.renamed''"
| "tree_event_name WorkspaceClosed = ''workspace.closed''"
| "tree_event_name TabCreated = ''tab.created''"
| "tree_event_name TabClosed = ''tab.closed''"
| "tree_event_name TabRenamed = ''tab.renamed''"
| "tree_event_name TabFocused = ''tab.focused''"
| "tree_event_name PaneCreated = ''pane.created''"
| "tree_event_name PaneClosed = ''pane.closed''"
| "tree_event_name PaneUpdated = ''pane.updated''"
| "tree_event_name PaneFocused = ''pane.focused''"
| "tree_event_name PaneAgentStatusChanged = ''pane.agent_status_changed''"
| "tree_event_name LayoutUpdated = ''layout.updated''"

record tree_update =
  tu_event :: tree_event
  tu_pane :: "pane_summary option"
  tu_workspace :: "workspace_summary option"
  tu_tab :: "tab_summary option"

datatype agent_status_kind = AS_Idle | AS_Working | AS_Blocked | AS_Done | AS_Unknown

record agent_status =
  as_host_id :: string
  as_pane_id :: string
  as_workspace_id :: string
  as_tab_id :: string
  as_tab_title :: string
  as_pane_title :: string
  as_agent_kind :: string
  as_status :: agent_status_kind
  as_at :: string

section \<open>Watching, input and actions\<close>

record scroll_offsets =
  so_offset_from_bottom :: "64 word"
  so_max_offset_from_bottom :: "64 word"

record watch_ack =
  wa_pane_id :: string
  wa_revision :: "64 word"
  wa_viewport_rows :: "32 word"
  wa_width :: "32 word"
  wa_scroll :: scroll_offsets
  wa_line :: string

record pane_frame =
  pf_pane_id :: string
  pf_revision :: "64 word"
  pf_viewport_rows :: "32 word"
  pf_width :: "32 word"
  pf_text :: string

record scroll_response =
  sr_pane_id :: string
  sr_text :: string
  sr_lines :: "32 word"
  sr_truncated :: bool

datatype defer_mode = UntilIdle | CancelHeld

record send_input_req =
  si_pane_id :: string
  si_line :: "string option"
  si_text :: "string option"
  si_keys :: "string list option"
  si_defer :: "defer_mode option"
  si_bypass_line :: "bool option"

record send_input_ack =
  sa_pane_id :: string
  sa_accepted :: bool
  sa_queued :: bool

datatype host_action_kind =
    WorkspaceCreate | TabCreate | PaneSplit | Split | Zoom | CloseAction | Rename | Resize | PluginInvoke

fun host_action_kind_name :: "host_action_kind \<Rightarrow> string" where
  "host_action_kind_name WorkspaceCreate = ''workspace.create''"
| "host_action_kind_name TabCreate = ''tab.create''"
| "host_action_kind_name PaneSplit = ''pane.split''"
| "host_action_kind_name Split = ''split''"
| "host_action_kind_name Zoom = ''zoom''"
| "host_action_kind_name CloseAction = ''close''"
| "host_action_kind_name Rename = ''rename''"
| "host_action_kind_name Resize = ''resize''"
| "host_action_kind_name PluginInvoke = ''plugin.invoke''"

record host_action_req =
  ha_action :: host_action_kind
  ha_pane_id :: "string option"
  ha_workspace_id :: "string option"
  ha_tab_id :: "string option"
  ha_plugin_id :: "string option"
  ha_action_id :: "string option"
  ha_params :: "json option"

record host_action_ack =
  hk_action :: host_action_kind
  hk_success :: bool
  hk_pane_id :: "string option"
  hk_result_id :: "string option"

record action_list_entry =
  al_plugin_id :: string
  al_action_id :: string
  al_title :: string
  al_description :: "string option"
  al_contexts :: "string list option"

record error_message =
  em_code :: error_code
  em_message :: string
  em_fatal :: bool

section \<open>The message union\<close>

text \<open>A payload with one field is that field; an empty payload is left out.\<close>

datatype app_message =
    M_HostInfo host_info
  | M_HostTheme theme_palette
  | M_DeviceInfo device_info
  | M_TreeRequest
  | M_TreeSnapshot tree_snapshot
  | M_TreeUpdate tree_update
  | M_WatchPane string
  | M_WatchAck watch_ack
  | M_UnwatchPane string
  | M_PaneFrame pane_frame
  | M_ScrollRequest string "32 word"
  | M_ScrollResponse scroll_response
  | M_SendInput send_input_req
  | M_Ping
  | M_Pong
  | M_SendInputAck send_input_ack
  | M_AgentStatus agent_status
  | M_AgentPrompt string string
  | M_MarkSeen string
  | M_AgentPromptAck string bool
  | M_HostAction host_action_req
  | M_HostActionAck host_action_ack
  | M_DeviceListRequest
  | M_DeviceList "device_list_entry list"
  | M_RevokeDevice revoke_request
  | M_RevokeResult revoke_result
  | M_Error error_message
  | M_Disconnect
  | M_ActionListRequest
  | M_ActionList "action_list_entry list"

fun type_name :: "app_message \<Rightarrow> string" where
  "type_name (M_HostInfo _) = ''host_info''"
| "type_name (M_HostTheme _) = ''host_theme''"
| "type_name (M_DeviceInfo _) = ''device_info''"
| "type_name M_TreeRequest = ''tree_request''"
| "type_name (M_TreeSnapshot _) = ''tree_snapshot''"
| "type_name (M_TreeUpdate _) = ''tree_update''"
| "type_name (M_WatchPane _) = ''watch_pane''"
| "type_name (M_WatchAck _) = ''watch_ack''"
| "type_name (M_UnwatchPane _) = ''unwatch_pane''"
| "type_name (M_PaneFrame _) = ''pane_frame''"
| "type_name (M_ScrollRequest _ _) = ''scroll_request''"
| "type_name (M_ScrollResponse _) = ''scroll_response''"
| "type_name (M_SendInput _) = ''send_input''"
| "type_name M_Ping = ''ping''"
| "type_name M_Pong = ''pong''"
| "type_name (M_SendInputAck _) = ''send_input_ack''"
| "type_name (M_AgentStatus _) = ''agent_status''"
| "type_name (M_AgentPrompt _ _) = ''agent_prompt''"
| "type_name (M_MarkSeen _) = ''mark_seen''"
| "type_name (M_AgentPromptAck _ _) = ''agent_prompt_ack''"
| "type_name (M_HostAction _) = ''host_action''"
| "type_name (M_HostActionAck _) = ''host_action_ack''"
| "type_name M_DeviceListRequest = ''device_list_request''"
| "type_name (M_DeviceList _) = ''device_list''"
| "type_name (M_RevokeDevice _) = ''revoke_device''"
| "type_name (M_RevokeResult _) = ''revoke_result''"
| "type_name (M_Error _) = ''error''"
| "type_name M_Disconnect = ''disconnect''"
| "type_name M_ActionListRequest = ''action_list_request''"
| "type_name (M_ActionList _) = ''action_list''"

text \<open>The identifiers of the variants, from which serde derives the \<open>type\<close> tag by \<open>snake_case\<close>.\<close>

fun variant_ident :: "app_message \<Rightarrow> string" where
  "variant_ident (M_HostInfo _) = ''HostInfo''"
| "variant_ident (M_HostTheme _) = ''HostTheme''"
| "variant_ident (M_DeviceInfo _) = ''DeviceInfo''"
| "variant_ident M_TreeRequest = ''TreeRequest''"
| "variant_ident (M_TreeSnapshot _) = ''TreeSnapshot''"
| "variant_ident (M_TreeUpdate _) = ''TreeUpdate''"
| "variant_ident (M_WatchPane _) = ''WatchPane''"
| "variant_ident (M_WatchAck _) = ''WatchAck''"
| "variant_ident (M_UnwatchPane _) = ''UnwatchPane''"
| "variant_ident (M_PaneFrame _) = ''PaneFrame''"
| "variant_ident (M_ScrollRequest _ _) = ''ScrollRequest''"
| "variant_ident (M_ScrollResponse _) = ''ScrollResponse''"
| "variant_ident (M_SendInput _) = ''SendInput''"
| "variant_ident M_Ping = ''Ping''"
| "variant_ident M_Pong = ''Pong''"
| "variant_ident (M_SendInputAck _) = ''SendInputAck''"
| "variant_ident (M_AgentStatus _) = ''AgentStatus''"
| "variant_ident (M_AgentPrompt _ _) = ''AgentPrompt''"
| "variant_ident (M_MarkSeen _) = ''MarkSeen''"
| "variant_ident (M_AgentPromptAck _ _) = ''AgentPromptAck''"
| "variant_ident (M_HostAction _) = ''HostAction''"
| "variant_ident (M_HostActionAck _) = ''HostActionAck''"
| "variant_ident M_DeviceListRequest = ''DeviceListRequest''"
| "variant_ident (M_DeviceList _) = ''DeviceList''"
| "variant_ident (M_RevokeDevice _) = ''RevokeDevice''"
| "variant_ident (M_RevokeResult _) = ''RevokeResult''"
| "variant_ident (M_Error _) = ''Error''"
| "variant_ident M_Disconnect = ''Disconnect''"
| "variant_ident M_ActionListRequest = ''ActionListRequest''"
| "variant_ident (M_ActionList _) = ''ActionList''"

definition snake_case :: "string \<Rightarrow> string" where
  "snake_case ident =
     concat (map (\<lambda>(i, c). (if 0 < i \<and> is_upper c then ''_'' else []) @ [ascii_lower_char c]) (enumerate 0 ident))"

section \<open>The frame envelope\<close>

definition PROTOCOL_VERSION :: "32 word" where "PROTOCOL_VERSION = 1"

definition MAX_FRAME_SIZE :: nat where "MAX_FRAME_SIZE = 1048576"

record frame =
  fm_v :: "32 word"
  fm_message_type :: string
  fm_seq :: "64 word"
  fm_corr :: "string option"
  fm_payload :: json

datatype frame_error = FrameTooLarge nat | FrameMalformed

definition frame_wrap :: "(app_message \<Rightarrow> json option) \<Rightarrow> 64 word \<Rightarrow> string option \<Rightarrow> app_message \<Rightarrow> (frame, frame_error) result" where
  "frame_wrap to_value seq corr message =
     (case to_value message of
        None \<Rightarrow> Err FrameMalformed
      | Some (JObj fs) \<Rightarrow>
          Ok \<lparr>fm_v = PROTOCOL_VERSION, fm_message_type = type_name message, fm_seq = seq, fm_corr = corr,
              fm_payload = (case map_of fs ''payload'' of Some p \<Rightarrow> p | None \<Rightarrow> JObj [])\<rparr>
      | Some _ \<Rightarrow> Err FrameMalformed)"

definition frame_message :: "(json \<Rightarrow> app_message option) \<Rightarrow> frame \<Rightarrow> (app_message, frame_error) result" where
  "frame_message from_value f =
     ok_or FrameMalformed (from_value (JObj [(''type'', JStr (fm_message_type f)), (''payload'', fm_payload f)]))"

definition to_json_bytes :: "(frame \<Rightarrow> string option) \<Rightarrow> frame \<Rightarrow> (string, frame_error) result" where
  "to_json_bytes to_vec f =
     (case to_vec f of
        None \<Rightarrow> Err FrameMalformed
      | Some bytes \<Rightarrow> if MAX_FRAME_SIZE < length bytes then Err (FrameTooLarge (length bytes)) else Ok bytes)"

definition from_json_bytes :: "(string \<Rightarrow> frame option) \<Rightarrow> string \<Rightarrow> (frame, frame_error) result" where
  "from_json_bytes from_slice bytes =
     (if MAX_FRAME_SIZE < length bytes then Err (FrameTooLarge (length bytes))
      else ok_or FrameMalformed (from_slice bytes))"

type_synonym sequence_counter = "64 word"

definition sequence_counter_new :: sequence_counter where "sequence_counter_new = 0"

definition advance :: "sequence_counter \<Rightarrow> sequence_counter \<times> 64 word" where
  "advance c = (c + 1, c + 1)"

section \<open>The type string decides the variant\<close>

definition all_idents :: "string list" where
  "all_idents = [''HostInfo'', ''HostTheme'', ''DeviceInfo'', ''TreeRequest'', ''TreeSnapshot'', ''TreeUpdate'',
     ''WatchPane'', ''WatchAck'', ''UnwatchPane'', ''PaneFrame'', ''ScrollRequest'', ''ScrollResponse'',
     ''SendInput'', ''Ping'', ''Pong'', ''SendInputAck'', ''AgentStatus'', ''AgentPrompt'', ''MarkSeen'',
     ''AgentPromptAck'', ''HostAction'', ''HostActionAck'', ''DeviceListRequest'', ''DeviceList'',
     ''RevokeDevice'', ''RevokeResult'', ''Error'', ''Disconnect'', ''ActionListRequest'', ''ActionList'']"

lemma upper_table:
  "map (\<lambda>c. (is_upper c, ascii_lower_char c)) ''ABCDEFGHIJKLMNOPQRSTUVWXYZ'' =
    [(True, CHR ''a''), (True, CHR ''b''), (True, CHR ''c''), (True, CHR ''d''), (True, CHR ''e''), (True, CHR ''f''),
     (True, CHR ''g''), (True, CHR ''h''), (True, CHR ''i''), (True, CHR ''j''), (True, CHR ''k''), (True, CHR ''l''),
     (True, CHR ''m''), (True, CHR ''n''), (True, CHR ''o''), (True, CHR ''p''), (True, CHR ''q''), (True, CHR ''r''),
     (True, CHR ''s''), (True, CHR ''t''), (True, CHR ''u''), (True, CHR ''v''), (True, CHR ''w''), (True, CHR ''x''),
     (True, CHR ''y''), (True, CHR ''z'')]"
  by code_simp

lemma lower_table:
  "map (\<lambda>c. (is_upper c, ascii_lower_char c)) ''abcdefghijklmnopqrstuvwxyz'' =
    [(False, CHR ''a''), (False, CHR ''b''), (False, CHR ''c''), (False, CHR ''d''), (False, CHR ''e''), (False, CHR ''f''),
     (False, CHR ''g''), (False, CHR ''h''), (False, CHR ''i''), (False, CHR ''j''), (False, CHR ''k''), (False, CHR ''l''),
     (False, CHR ''m''), (False, CHR ''n''), (False, CHR ''o''), (False, CHR ''p''), (False, CHR ''q''), (False, CHR ''r''),
     (False, CHR ''s''), (False, CHR ''t''), (False, CHR ''u''), (False, CHR ''v''), (False, CHR ''w''), (False, CHR ''x''),
     (False, CHR ''y''), (False, CHR ''z'')]"
  by code_simp

lemmas char_table = upper_table [unfolded list.map list.inject prod.inject] lower_table [unfolded list.map list.inject prod.inject]

lemma all_tags:
  "map snake_case all_idents =
    [''host_info'', ''host_theme'', ''device_info'', ''tree_request'', ''tree_snapshot'',
     ''tree_update'', ''watch_pane'', ''watch_ack'', ''unwatch_pane'', ''pane_frame'',
     ''scroll_request'', ''scroll_response'', ''send_input'', ''ping'', ''pong'',
     ''send_input_ack'', ''agent_status'', ''agent_prompt'', ''mark_seen'', ''agent_prompt_ack'',
     ''host_action'', ''host_action_ack'', ''device_list_request'', ''device_list'',
     ''revoke_device'', ''revoke_result'', ''error'', ''disconnect'', ''action_list_request'',
     ''action_list'']"
  by (simp add: all_idents_def snake_case_def char_table)

lemmas tag_table = all_tags [unfolded all_idents_def list.map list.inject]

lemma variant_ident_listed: "variant_ident m \<in> set all_idents"
  by (cases m) (simp_all add: all_idents_def)

lemma tag_of_ident: "type_name m = snake_case (variant_ident m)"
  by (cases m; simp only: type_name.simps variant_ident.simps tag_table)

lemma tags_distinct: "distinct (map snake_case all_idents)"
  unfolding all_tags by simp

text \<open>C40: The hand-written \<open>type_name\<close> table agrees, for every message, with the tag serde derives from
  the name of its variant, and the type string alone decides the variant: two messages of
  different variants never share one.\<close>

theorem type_string_decides_variant:
  "type_name m = snake_case (variant_ident m) \<and> (type_name a = type_name b \<longleftrightarrow> variant_ident a = variant_ident b)"
proof
  show "type_name m = snake_case (variant_ident m)" by (rule tag_of_ident)
  show "type_name a = type_name b \<longleftrightarrow> variant_ident a = variant_ident b"
    using tags_distinct variant_ident_listed [of a] variant_ident_listed [of b]
    by (auto simp: tag_of_ident distinct_map inj_on_def)
qed

fun advances :: "nat \<Rightarrow> sequence_counter \<Rightarrow> (64 word) list" where
  "advances 0 c = []"
| "advances (Suc n) c = (case advance c of (c1, v) \<Rightarrow> v # advances n c1)"

lemma advances_from: "advances n (of_nat k) = map of_nat [Suc k..<Suc (k + n)]"
proof (induction n arbitrary: k)
  case (Suc n)
  have "advances (Suc n) (of_nat k) = of_nat (Suc k) # advances n (of_nat (Suc k))"
    by (simp add: advance_def add.commute)
  also have "\<dots> = map of_nat (Suc k # [Suc (Suc k)..<Suc (Suc k + n)])" using Suc [of "Suc k"] by simp
  also have "Suc k # [Suc (Suc k)..<Suc (Suc k + n)] = [Suc k..<Suc (k + Suc n)]"
    by (subst upt_conv_Cons) simp_all
  finally show ?case .
qed simp

text \<open>The envelope loses nothing: when serde encodes a message as a \<open>type\<close> tag and a payload and
  decodes what it encoded, a wrapped message survives the trip to bytes and back with its
  sequence number and correlation, unless the bytes exceed one mebibyte; then the sender and
  the receiver both refuse it. The n-th frame of a session carries the number n.\<close>

theorem frame_roundtrip:
  assumes tagged: "to_value m = Some (JObj [(''type'', JStr (snake_case (variant_ident m))), (''payload'', p)])"
    and decodes: "from_value (JObj [(''type'', JStr (snake_case (variant_ident m))), (''payload'', p)]) = Some m"
    and wrap: "frame_wrap to_value seq corr m = Ok f"
    and bytes: "to_vec f = Some bs" "from_slice bs = Some f"
  shows "(length bs \<le> 1048576 \<longrightarrow>
      to_json_bytes to_vec f = Ok bs \<and> from_json_bytes from_slice bs = Ok f \<and> frame_message from_value f = Ok m)
    \<and> (1048576 < length bs \<longrightarrow>
      to_json_bytes to_vec f = Err (FrameTooLarge (length bs)) \<and> from_json_bytes from_slice bs = Err (FrameTooLarge (length bs)))
    \<and> (fm_seq f = seq \<and> fm_corr f = corr \<and> fm_v f = 1)
    \<and> advances n sequence_counter_new = map of_nat [1..<Suc n]"
proof (rule conjI [OF impI conjI [OF impI conjI]])
  have f: "f = \<lparr>fm_v = 1, fm_message_type = type_name m, fm_seq = seq, fm_corr = corr, fm_payload = p\<rparr>"
    using wrap by (simp add: frame_wrap_def tagged PROTOCOL_VERSION_def)
  show "to_json_bytes to_vec f = Ok bs \<and> from_json_bytes from_slice bs = Ok f \<and> frame_message from_value f = Ok m"
    if "length bs \<le> 1048576"
    using that bytes decodes
    by (simp add: to_json_bytes_def from_json_bytes_def frame_message_def MAX_FRAME_SIZE_def f tag_of_ident)
  show "to_json_bytes to_vec f = Err (FrameTooLarge (length bs)) \<and> from_json_bytes from_slice bs = Err (FrameTooLarge (length bs))"
    if "1048576 < length bs"
    using that bytes by (simp add: to_json_bytes_def from_json_bytes_def MAX_FRAME_SIZE_def)
  show "fm_seq f = seq \<and> fm_corr f = corr \<and> fm_v f = 1" by (simp add: f)
  show "advances n sequence_counter_new = map of_nat [1..<Suc n]"
    using advances_from [of n 0] by (simp add: sequence_counter_new_def)
qed

theorem frame_roundtrip_witness:
  "\<exists>f. frame_wrap (\<lambda>_. Some (JObj [(''type'', JStr ''tree_request''), (''payload'', JObj [])])) 7 None M_TreeRequest = Ok f
     \<and> frame_message (\<lambda>_. Some M_TreeRequest) f = Ok M_TreeRequest \<and> fm_seq f = 7"
proof -
  let ?v = "JObj [(''type'', JStr ''tree_request''), (''payload'', JObj [])]"
  let ?f = "\<lparr>fm_v = 1, fm_message_type = ''tree_request'', fm_seq = 7, fm_corr = None, fm_payload = JObj []\<rparr>"
  have tag: "snake_case (variant_ident M_TreeRequest) = ''tree_request''" by (simp only: variant_ident.simps tag_table)
  have w: "frame_wrap (\<lambda>_. Some ?v) 7 None M_TreeRequest = Ok ?f" by (simp add: frame_wrap_def PROTOCOL_VERSION_def)
  have "frame_message (\<lambda>_. Some M_TreeRequest) ?f = Ok M_TreeRequest"
    using frame_roundtrip [THEN conjunct1, of "\<lambda>_. Some ?v" M_TreeRequest "JObj []" "\<lambda>_. Some M_TreeRequest" 7 None ?f "\<lambda>_. Some []" "[]" "\<lambda>_. Some ?f"]
      tag w by simp
  then show ?thesis using w by auto
qed

end
