(* ===== verification/Watch_Core.thy ===== *)
theory Watch_Core
  imports Wire_Messages Host_Config Pane_Scheduler Key_Map "HOL-Library.Monad_Syntax"
begin

text \<open>
  \<open>herdr-relay/src/watch/\<close>, its shared part: what the bridge calls on Herdr (\<open>herdr_calls.rs\<close>), the
  error and state types (\<open>bridge.rs\<close>), the raw shapes of Herdr's JSON with their mapping to the wire
  (\<open>raw.rs\<close>), the events (\<open>events.rs\<close>) and the error mapper (\<open>error_map.rs\<close>).

  Herdr is another program: its state is a type parameter \<open>'h\<close> and the trait \<open>HerdrCalls\<close> is a record of
  functions on it. Segmentation into graphemes, the frame hash and the JSON decoders serde derives are
  fields of the record \<open>watch_env\<close>.
\<close>

section \<open>Herdr\<close>

datatype ipc_error =
    IpcDiscover
  | IpcConnect
  | IpcIo
  | IpcMalformed string
  | IpcRejected (ipc_method: string) (ipc_code: string) (ipc_message: string)
  | IpcMissingPayload string string
  | IpcProtocolMismatch "64 word"

type_synonym ('h, 'a) call = "'h \<Rightarrow> 'h \<times> ('a, ipc_error) result"

record 'h herdr_calls =
  c_pane_send_text :: "string \<Rightarrow> string \<Rightarrow> ('h, unit) call"
  c_session_snapshot :: "('h, json) call"
  c_pane_layout :: "string \<Rightarrow> ('h, json) call"
  c_pane_read_visible :: "string \<Rightarrow> ('h, json) call"
  c_pane_read_recent :: "string \<Rightarrow> 32 word \<Rightarrow> ('h, json) call"
  c_pane_send_input :: "string \<Rightarrow> string option \<Rightarrow> string list option \<Rightarrow> ('h, unit) call"
  c_agent_prompt :: "string \<Rightarrow> string \<Rightarrow> ('h, unit) call"
  c_agent_focus :: "string \<Rightarrow> ('h, unit) call"
  c_workspace_create :: "json \<Rightarrow> ('h, string) call"
  c_tab_create :: "json \<Rightarrow> ('h, string) call"
  c_pane_split :: "json \<Rightarrow> ('h, string) call"
  c_pane_zoom :: "string \<Rightarrow> string \<Rightarrow> ('h, unit) call"
  c_pane_close :: "string \<Rightarrow> ('h, unit) call"
  c_pane_rename :: "string \<Rightarrow> string option \<Rightarrow> ('h, unit) call"
  c_pane_resize :: "string \<Rightarrow> string \<Rightarrow> f64 option \<Rightarrow> ('h, unit) call"
  c_plugin_action_list :: "('h, json) call"
  c_plugin_action_invoke :: "json \<Rightarrow> ('h, json) call"

section \<open>Raw shapes\<close>

record raw_worktree =
  rw_repo_name :: string
  rw_is_linked_worktree :: bool
  rw_repo_key :: "string option"

record raw_workspace =
  rws_workspace_id :: string
  rws_label :: string
  rws_focused :: bool
  rws_worktree :: "raw_worktree option"

record raw_tab =
  rt_tab_id :: string
  rt_workspace_id :: string
  rt_label :: string
  rt_focused :: bool

record raw_pane =
  rp_pane_id :: string
  rp_workspace_id :: string
  rp_tab_id :: string
  rp_terminal_id :: string
  rp_label :: string
  rp_cwd :: string
  rp_focused :: bool
  rp_agent :: "string option"
  rp_agent_status :: string
  rp_revision :: "64 word"
  rp_scroll :: pane_scroll_state

text \<open>\<open>agent_session\<close> is an object with an optional \<open>value\<close>.\<close>

record raw_agent =
  ra_agent :: string
  ra_pane_id :: string
  ra_agent_status :: string
  ra_agent_session :: "string option option"

record raw_snapshot =
  rs_workspaces :: "raw_workspace list"
  rs_tabs :: "raw_tab list"
  rs_panes :: "raw_pane list"
  rs_agents :: "raw_agent list"

definition map_workspace :: "raw_workspace \<Rightarrow> workspace_summary" where
  "map_workspace w =
     (let (repo_name, linked) = (case rws_worktree w of Some t \<Rightarrow> (Some (rw_repo_name t), rw_is_linked_worktree t) | None \<Rightarrow> (None, False))
      in \<lparr>ws_workspace_id = rws_workspace_id w, ws_name = rws_label w, ws_focused = rws_focused w,
          ws_repo_name = repo_name, ws_is_linked_worktree = linked, ws_space_id = None\<rparr>)"

text \<open>The groups of \<open>space_ids\<close>: a map from the private repository key to the indices of its members.\<close>

definition repo_key_of :: "raw_workspace \<Rightarrow> string option" where
  "repo_key_of w = Option.bind (rws_worktree w) rw_repo_key"

fun members_by_key :: "nat \<Rightarrow> raw_workspace list \<Rightarrow> (string, nat list) hmap \<Rightarrow> (string, nat list) hmap" where
  "members_by_key idx [] m = m"
| "members_by_key idx (w # ws) m =
     members_by_key (Suc idx) ws
       (case repo_key_of w of
          Some key \<Rightarrow> AList.update key ((case map_of m key of Some is \<Rightarrow> is | None \<Rightarrow> []) @ [idx]) m
        | None \<Rightarrow> m)"

definition is_parent :: "raw_workspace \<Rightarrow> bool" where
  "is_parent w \<longleftrightarrow> (case rws_worktree w of Some t \<Rightarrow> \<not> rw_is_linked_worktree t | None \<Rightarrow> False)"

definition space_group :: "raw_workspace list \<Rightarrow> nat list \<Rightarrow> string option list \<Rightarrow> string option list" where
  "space_group workspaces members out =
     (if length members < 2 then out
      else case find (\<lambda>idx. is_parent (workspaces ! idx)) members of
             None \<Rightarrow> out
           | Some parent \<Rightarrow> fold (\<lambda>idx o'. o'[idx := Some (rws_workspace_id (workspaces ! parent))]) members out)"

definition space_ids :: "raw_workspace list \<Rightarrow> string option list" where
  "space_ids workspaces =
     fold (space_group workspaces) (map snd (members_by_key 0 workspaces [])) (replicate (length workspaces) None)"

definition map_workspaces :: "raw_workspace list \<Rightarrow> workspace_summary list" where
  "map_workspaces workspaces =
     map (\<lambda>(w, space_id). (map_workspace w)\<lparr>ws_space_id := space_id\<rparr>) (zip workspaces (space_ids workspaces))"

definition map_tab :: "raw_tab \<Rightarrow> tab_summary" where
  "map_tab t = \<lparr>tb_tab_id = rt_tab_id t, tb_workspace_id = rt_workspace_id t, tb_title = rt_label t, tb_focused = rt_focused t\<rparr>"

definition map_pane :: "raw_pane \<Rightarrow> pane_summary" where
  "map_pane p =
     \<lparr>pn_pane_id = rp_pane_id p, pn_workspace_id = rp_workspace_id p, pn_tab_id = rp_tab_id p,
      pn_terminal_id = rp_terminal_id p, pn_label = rp_label p, pn_title = [], pn_cwd = rp_cwd p,
      pn_focused = rp_focused p, pn_agent = rp_agent p, pn_agent_status = rp_agent_status p,
      pn_revision = rp_revision p, pn_scroll = rp_scroll p\<rparr>"

section \<open>The environment of the watch loop\<close>

record watch_env =
  e_graphemes :: "string \<Rightarrow> string list"
  e_frame_hash :: "string \<Rightarrow> 32 word \<Rightarrow> 32 word \<Rightarrow> 64 word"
  e_parse :: "string \<Rightarrow> json option"
  e_snapshot :: "json \<Rightarrow> raw_snapshot option"
  e_raw_pane :: "json \<Rightarrow> raw_pane option"
  e_raw_workspace :: "json \<Rightarrow> raw_workspace option"
  e_raw_tab :: "json \<Rightarrow> raw_tab option"
  e_to_f64 :: "json_number \<Rightarrow> f64"
  e_debug_str :: "string \<Rightarrow> string"

section \<open>The bridge\<close>

datatype watch_error =
    W_Herdr ipc_error
  | W_PaneNotInSnapshot string
  | W_MissingField string string
  | W_Malformed string
  | W_SubscriptionClosed
  | W_NotWatching string
  | W_InvalidInput string
  | W_Device device_error

record watched_pane =
  wp_pane_id :: string
  wp_last_revision :: "64 word"
  wp_viewport_rows :: "32 word"
  wp_width :: "32 word"
  wp_last_frame_hash :: "64 word"

record pending_input =
  pi_pane_id :: string
  pi_keys :: "string list"
  pi_corr :: "string option"

type_synonym outgoing = "app_message \<times> string option"

record 'h bridge =
  br_herdr :: 'h
  br_config :: "f64 relay_config"
  br_host_id :: string
  br_host_name :: string
  br_watched :: "watched_pane option"
  br_scheduler :: "pane_scheduler option"
  br_observed :: "(string, string) hmap"
  br_lines :: "(string, string) hmap"
  br_settled :: "(string, instant) hmap"
  br_pending :: "pending_input option"
  br_session_active :: "bool option"
  br_replies :: "outgoing list"

definition AGENT_STATUS_SETTLE :: duration where "AGENT_STATUS_SETTLE = secs 30"

definition bridge_new :: "'h \<Rightarrow> string \<Rightarrow> string \<Rightarrow> f64 relay_config \<Rightarrow> 'h bridge" where
  "bridge_new h host_id hname config =
     \<lparr>br_herdr = h, br_config = config, br_host_id = host_id, br_host_name = hname, br_watched = None,
      br_scheduler = None, br_observed = [], br_lines = [], br_settled = [], br_pending = None,
      br_session_active = None, br_replies = []\<rparr>"

text \<open>A call of Herdr whose error becomes a \<open>WatchError\<close>, as the operator \<open>?\<close> does it.\<close>

definition on_herdr :: "('h, 'a) call \<Rightarrow> 'h bridge \<Rightarrow> 'h bridge \<times> ('a, watch_error) result" where
  "on_herdr c b = (case c (br_herdr b) of (h, r) \<Rightarrow>
     (b\<lparr>br_herdr := h\<rparr>, case r of Ok x \<Rightarrow> Ok x | Err e \<Rightarrow> Err (W_Herdr e)))"

definition watched_pane_id :: "'h bridge \<Rightarrow> string option" where
  "watched_pane_id b = map_option wp_pane_id (br_watched b)"

definition watches :: "string \<Rightarrow> 'h bridge \<Rightarrow> bool" where
  "watches pane_id b \<longleftrightarrow> watched_pane_id b = Some pane_id"

definition require_watched :: "string \<Rightarrow> 'h bridge \<Rightarrow> (unit, watch_error) result" where
  "require_watched pane_id b = (if watches pane_id b then Ok () else Err (W_NotWatching pane_id))"

definition bridge_host_info :: "string \<Rightarrow> 32 word \<Rightarrow> bool \<Rightarrow> 'h bridge \<Rightarrow> host_info" where
  "bridge_host_info herdr_version herdr_protocol paired b =
     \<lparr>hi_protocol = 1, hi_host_id = br_host_id b, hi_host_name = br_host_name b, hi_herdr_version = herdr_version,
      hi_herdr_protocol = herdr_protocol, hi_paired = paired, hi_theme = None\<rparr>"

definition settle_agent_status :: "string \<Rightarrow> instant \<Rightarrow> 'h bridge \<Rightarrow> 'h bridge \<times> bool" where
  "settle_agent_status pane_id now b =
     (let due = (case map_of (br_settled b) pane_id of None \<Rightarrow> True | Some t \<Rightarrow> AGENT_STATUS_SETTLE \<le> now - t)
      in (if due then b\<lparr>br_settled := AList.update pane_id now (br_settled b)\<rparr> else b, due))"

definition fetch_snapshot :: "watch_env \<Rightarrow> 'h herdr_calls \<Rightarrow> 'h bridge \<Rightarrow> 'h bridge \<times> (raw_snapshot, watch_error) result" where
  "fetch_snapshot env c b =
     (case on_herdr (c_session_snapshot c) b of
        (b1, Err e) \<Rightarrow> (b1, Err e)
      | (b1, Ok raw) \<Rightarrow> (b1, ok_or (W_Malformed ''session.snapshot'') (e_snapshot env raw)))"

definition map_snapshot :: "'h bridge \<Rightarrow> raw_snapshot \<Rightarrow> tree_snapshot" where
  "map_snapshot b raw =
     \<lparr>ts_workspaces = map_workspaces (rs_workspaces raw), ts_tabs = map map_tab (rs_tabs raw),
      ts_panes = map map_pane (rs_panes raw),
      ts_agents = map (\<lambda>a. \<lparr>ag_agent_kind = ra_agent a, ag_pane_id = ra_pane_id a, ag_status = ra_agent_status a,
        ag_status_at = map_of (br_observed b) (ra_pane_id a), ag_session = Option.bind (ra_agent_session a) id\<rparr>) (rs_agents raw)\<rparr>"

definition fetch_width :: "'h herdr_calls \<Rightarrow> string \<Rightarrow> 'h bridge \<Rightarrow> 'h bridge \<times> (32 word, watch_error) result" where
  "fetch_width c pane_id b =
     (case on_herdr (c_pane_layout c pane_id) b of
        (b1, Err e) \<Rightarrow> (b1, Err e)
      | (b1, Ok layout) \<Rightarrow>
          (b1, ok_or (W_MissingField ''pane.layout'' ''rect.width'')
                 (map_option ucast
                   (do {
                      panes \<leftarrow> Option.bind (jget ''panes'' layout) as_array;
                      p \<leftarrow> find (\<lambda>p. Option.bind (jget ''pane_id'' p) as_str = Some pane_id) panes;
                      r \<leftarrow> jget ''rect'' p;
                      w \<leftarrow> jget ''width'' r;
                      as_u64 w
                    }))))"

definition fetch_visible_text :: "'h herdr_calls \<Rightarrow> string \<Rightarrow> 'h bridge \<Rightarrow> 'h bridge \<times> (string, watch_error) result" where
  "fetch_visible_text c pane_id b =
     (case on_herdr (c_pane_read_visible c pane_id) b of
        (b1, Err e) \<Rightarrow> (b1, Err e)
      | (b1, Ok read) \<Rightarrow> (b1, ok_or (W_MissingField ''pane.read'' ''text'') (get_str ''text'' (Some read))))"

section \<open>Events\<close>

definition UNFILTERED_TREE_EVENTS :: "string list" where
  "UNFILTERED_TREE_EVENTS =
     [''workspace.created'', ''workspace.updated'', ''workspace.renamed'', ''workspace.closed'', ''tab.created'',
      ''tab.closed'', ''tab.renamed'', ''tab.focused'', ''pane.created'', ''pane.closed'', ''pane.updated'',
      ''pane.focused'', ''layout.updated'']"

datatype subscription_action = NoSubscriptionAction | Resubscribe

definition pane_id_of :: "json option \<Rightarrow> string option" where
  "pane_id_of data =
     (case get_str ''pane_id'' (Option.bind data (jget ''pane'')) of
        Some p \<Rightarrow> Some p
      | None \<Rightarrow> get_str ''pane_id'' data)"

definition tree_event_for :: "string \<Rightarrow> tree_event option" where
  "tree_event_for event_name =
     (if event_name = ''workspace_created'' then Some WorkspaceCreated
      else if event_name = ''workspace_updated'' then Some WorkspaceUpdated
      else if event_name = ''workspace_renamed'' then Some WorkspaceRenamed
      else if event_name = ''workspace_closed'' then Some WorkspaceClosed
      else if event_name = ''tab_created'' then Some TabCreated
      else if event_name = ''tab_closed'' then Some TabClosed
      else if event_name = ''tab_renamed'' then Some TabRenamed
      else if event_name = ''tab_focused'' then Some TabFocused
      else if event_name = ''pane_created'' then Some PaneCreated
      else if event_name = ''pane_closed'' then Some PaneClosed
      else if event_name = ''pane_updated'' then Some PaneUpdated
      else if event_name = ''pane_focused'' then Some PaneFocused
      else if event_name = ''pane_agent_status_changed'' then Some PaneAgentStatusChanged
      else if event_name = ''layout_updated'' then Some LayoutUpdated
      else None)"

definition agent_status_kind_of :: "string \<Rightarrow> agent_status_kind option" where
  "agent_status_kind_of raw =
     (if raw = ''idle'' then Some AS_Idle
      else if raw = ''working'' then Some AS_Working
      else if raw = ''blocked'' then Some AS_Blocked
      else if raw = ''done'' then Some AS_Done
      else if raw = ''unknown'' then Some AS_Unknown
      else None)"

section \<open>Errors on the wire\<close>

definition herdr_error_code :: "string \<Rightarrow> error_code" where
  "herdr_error_code code =
     (if code = ''invalid_request'' then E_InvalidRequest
      else if code = ''invalid_key'' then E_InvalidKey
      else if code = ''pane_not_found'' then E_PaneNotFound
      else if code = ''agent_not_found'' then E_AgentNotFound
      else if code = ''timeout'' then E_Timeout
      else if code = ''agent_prompt_stalled'' then E_AgentPromptStalled
      else if code = ''plugin_disabled'' then E_PluginDisabled
      else if code = ''action_unknown'' then E_ActionUnknown
      else E_InternalError)"

text \<open>\<open>show\<close> is the \<open>Display\<close> text of an error, which contains texts of the operating system.\<close>

definition map_watch_error :: "(watch_error \<Rightarrow> string) \<Rightarrow> watch_error \<Rightarrow> error_message" where
  "map_watch_error show err =
     (let (code, message) =
        (case err of
           W_NotWatching pane_id \<Rightarrow> (E_NotWatching, ''pane '' @ pane_id @ '' is not watched'')
         | W_InvalidInput reason \<Rightarrow> (E_InvalidRequest, reason)
         | W_Herdr (IpcRejected meth code message) \<Rightarrow>
             if meth = ''agent.focus'' \<and> code = ''agent_not_found'' then (E_PaneNotFound, message)
             else (herdr_error_code code, message)
         | W_Device InvalidRevokeRequest \<Rightarrow> (E_InvalidRequest, show err)
         | _ \<Rightarrow> (E_InternalError, show err))
      in \<lparr>em_code = code, em_message = message, em_fatal = False\<rparr>)"

section \<open>Worktree groups\<close>

text \<open>The reference: a member's group is named after the first non-linked member of its repository, when
  the repository has two members or more.\<close>

definition space_id_spec :: "raw_workspace list \<Rightarrow> raw_workspace \<Rightarrow> string option" where
  "space_id_spec workspaces w =
     (case repo_key_of w of
        None \<Rightarrow> None
      | Some key \<Rightarrow>
          let members = filter (\<lambda>v. repo_key_of v = Some key) workspaces in
          if length members < 2 then None else map_option rws_workspace_id (find is_parent members))"

fun key_indices :: "nat \<Rightarrow> raw_workspace list \<Rightarrow> string \<Rightarrow> nat list" where
  "key_indices idx [] key = []"
| "key_indices idx (w # ws) key = (if repo_key_of w = Some key then [idx] else []) @ key_indices (Suc idx) ws key"

lemma members_by_key_map:
  "map_of (members_by_key idx ws m) key =
     (if key_indices idx ws key = [] then map_of m key
      else Some ((case map_of m key of Some is \<Rightarrow> is | None \<Rightarrow> []) @ key_indices idx ws key))"
  by (induction idx ws m rule: members_by_key.induct) (auto split: option.splits)

lemma members_by_key_keys: "keys_ok m \<Longrightarrow> keys_ok (members_by_key idx ws m)"
  by (induction idx ws m rule: members_by_key.induct) (auto split: option.splits)

lemma key_indices_set: "i \<in> set (key_indices idx ws key) \<longleftrightarrow> idx \<le> i \<and> i < idx + length ws \<and> repo_key_of (ws ! (i - idx)) = Some key"
proof (induction ws arbitrary: idx)
  case (Cons w ws)
  then show ?case by (cases "i = idx") (auto simp: nth_Cons' Suc_diff_le split: if_splits)
qed simp

lemma key_indices_nth:
  "map (\<lambda>i. (pre @ ws) ! i) (key_indices (length pre) ws key) = filter (\<lambda>v. repo_key_of v = Some key) ws"
proof (induction ws arbitrary: pre)
  case (Cons w ws)
  from Cons [of "pre @ [w]"] show ?case by (simp add: nth_append)
qed simp

lemma find_map: "find P (map f xs) = map_option f (find (P \<circ> f) xs)"
  by (induction xs) simp_all

definition group_id :: "raw_workspace list \<Rightarrow> nat list \<Rightarrow> string option" where
  "group_id ws members =
     (if length members < 2 then None
      else map_option (\<lambda>p. rws_workspace_id (ws ! p)) (find (\<lambda>idx. is_parent (ws ! idx)) members))"

lemma group_id_spec:
  assumes "i < length ws" "repo_key_of (ws ! i) = Some key"
  shows "group_id ws (key_indices 0 ws key) = space_id_spec ws (ws ! i)"
proof -
  have m: "filter (\<lambda>v. repo_key_of v = Some key) ws = map (\<lambda>i. ws ! i) (key_indices 0 ws key)"
    using key_indices_nth [of "[]" ws key] by simp
  show ?thesis
    unfolding space_id_spec_def group_id_def using assms(2) by (simp add: Let_def m find_map o_def option.map_comp)
qed

lemma fold_update_nth:
  "i < length out \<Longrightarrow> fold (\<lambda>idx o'. o'[idx := v]) members out ! i = (if i \<in> set members then v else out ! i)
     \<and> length (fold (\<lambda>idx o'. o'[idx := v]) members out) = length out"
  by (induction members arbitrary: out) (auto simp: nth_list_update)

lemma space_group_nth:
  assumes "i < length out"
  shows "space_group ws g out ! i = (if i \<in> set g \<and> group_id ws g \<noteq> None then group_id ws g else out ! i)"
    and "length (space_group ws g out) = length out"
  using assms fold_update_nth [OF assms]
  by (auto simp: space_group_def group_id_def split: option.splits)

lemma fold_groups_nth:
  assumes "i < length out" "\<And>g. g \<in> set gs \<Longrightarrow> i \<in> set g \<Longrightarrow> g = g0"
  shows "fold (space_group ws) gs out ! i =
    (if g0 \<in> set gs \<and> i \<in> set g0 \<and> group_id ws g0 \<noteq> None then group_id ws g0 else out ! i)"
  using assms
proof (induction gs arbitrary: out)
  case (Cons g gs)
  have "fold (space_group ws) gs (space_group ws g out) ! i =
      (if g0 \<in> set gs \<and> i \<in> set g0 \<and> group_id ws g0 \<noteq> None then group_id ws g0 else space_group ws g out ! i)"
    using Cons.prems by (intro Cons.IH) (auto simp: space_group_nth(2) [OF Cons.prems(1)])
  then show ?case
    using Cons.prems(2) [of g] by (auto simp: space_group_nth(1) [OF Cons.prems(1)])
qed simp

lemma fold_groups_length: "length (fold (space_group ws) gs out) = length out"
proof (induction gs arbitrary: out)
  case (Cons g gs)
  have "length (space_group ws g out) = length out"
  proof (cases "out = []")
    case True
    have "fold (\<lambda>idx o'. o'[idx := v]) members ([] :: string option list) = []" for v members
      by (induction members) auto
    then show ?thesis using True by (auto simp: space_group_def split: option.splits)
  next
    case False
    then show ?thesis using space_group_nth(2) [of 0 out ws g] by simp
  qed
  then show ?case using Cons by simp
qed simp

text \<open>\<open>space_ids\<close> gives each workspace the group its reference definition gives it, and does so for every
  order in which the hash map yields the groups: the iteration order of the map cannot be observed.\<close>

theorem space_ids_any_order:
  assumes "set gs = set (map snd (members_by_key 0 workspaces []))"
  shows "fold (space_group workspaces) gs (replicate (length workspaces) None) = map (space_id_spec workspaces) workspaces \<and>
      space_ids workspaces = map (space_id_spec workspaces) workspaces"
proof
  have all: "fold (space_group workspaces) hs (replicate (length workspaces) None) = map (space_id_spec workspaces) workspaces"
    if hs: "set hs = set (map snd (members_by_key 0 workspaces []))" for hs
  proof (rule nth_equalityI)
    show "length (fold (space_group workspaces) hs (replicate (length workspaces) None)) = length (map (space_id_spec workspaces) workspaces)"
      by (simp add: fold_groups_length)
    fix i assume "i < length (fold (space_group workspaces) hs (replicate (length workspaces) None))"
    then have i: "i < length workspaces" by (simp add: fold_groups_length)
    have mem: "g \<in> set hs \<longleftrightarrow> (\<exists>key. g = key_indices 0 workspaces key \<and> g \<noteq> [])" for g
    proof -
      have "keys_ok (members_by_key 0 workspaces [])" by (simp add: members_by_key_keys)
      then have "g \<in> set hs \<longleftrightarrow> (\<exists>key. map_of (members_by_key 0 workspaces []) key = Some g)"
        unfolding hs keys_ok_def by (force simp: map_of_eq_Some_iff)
      then show ?thesis by (auto simp: members_by_key_map split: if_splits)
    qed
    define g0 where "g0 = (case repo_key_of (workspaces ! i) of Some key \<Rightarrow> key_indices 0 workspaces key | None \<Rightarrow> [])"
    have g: "g = g0" if "g \<in> set hs" "i \<in> set g" for g
      using that by (auto simp: mem key_indices_set g0_def)
    have f: "fold (space_group workspaces) hs (replicate (length workspaces) None) ! i =
        (if g0 \<in> set hs \<and> i \<in> set g0 \<and> group_id workspaces g0 \<noteq> None then group_id workspaces g0
         else replicate (length workspaces) None ! i)"
      by (rule fold_groups_nth) (use i g in simp_all)
    have "(if g0 \<in> set hs \<and> i \<in> set g0 \<and> group_id workspaces g0 \<noteq> None then group_id workspaces g0 else None) =
        space_id_spec workspaces (workspaces ! i)"
    proof (cases "repo_key_of (workspaces ! i)")
      case None
      then show ?thesis by (simp add: g0_def space_id_spec_def)
    next
      case (Some key)
      then have g0: "g0 = key_indices 0 workspaces key" by (simp add: g0_def)
      have "i \<in> set g0" using i Some by (simp add: g0 key_indices_set)
      then have "g0 \<in> set hs" by (auto simp: mem g0)
      then show ?thesis using \<open>i \<in> set g0\<close> group_id_spec [OF i Some] by (simp add: g0)
    qed
    then show "fold (space_group workspaces) hs (replicate (length workspaces) None) ! i = map (space_id_spec workspaces) workspaces ! i"
      unfolding f nth_map [OF i] nth_replicate [OF i] .
  qed
  show "fold (space_group workspaces) gs (replicate (length workspaces) None) = map (space_id_spec workspaces) workspaces"
    by (rule all [OF assms])
  show "space_ids workspaces = map (space_id_spec workspaces) workspaces"
    unfolding space_ids_def by (rule all) simp
qed

definition sample_workspace :: "string \<Rightarrow> bool \<Rightarrow> string option \<Rightarrow> raw_workspace" where
  "sample_workspace i linked key =
     \<lparr>rws_workspace_id = i, rws_label = [], rws_focused = False,
      rws_worktree = Some \<lparr>rw_repo_name = ''r'', rw_is_linked_worktree = linked, rw_repo_key = key\<rparr>\<rparr>"

theorem space_ids_any_order_witness:
  "space_ids [sample_workspace ''a'' True (Some ''k''), sample_workspace ''b'' False (Some ''l''), sample_workspace ''c'' False (Some ''k'')]
     = [Some ''c'', None, Some ''c'']"
  by (subst conjunct2 [OF space_ids_any_order [OF refl]])
     (simp add: space_id_spec_def sample_workspace_def repo_key_of_def is_parent_def Let_def)

section \<open>Event names\<close>

definition undotted :: "string \<Rightarrow> string" where
  "undotted s = map (\<lambda>c. if c = CHR ''.'' then CHR ''_'' else c) s"

lemma undotted_names: "tree_event_for (undotted (tree_event_name ev)) = Some ev"
  by (cases ev) (simp_all add: undotted_def tree_event_for_def)

lemma tree_event_for_Some: "tree_event_for n = Some ev \<longleftrightarrow> n = undotted (tree_event_name ev)"
proof
  assume "tree_event_for n = Some ev"
  then show "n = undotted (tree_event_name ev)"
    by (auto simp: tree_event_for_def undotted_def split: if_splits)
qed (simp add: undotted_names)

text \<open>Every name the bridge subscribes to is a wire name of a tree event, and the pushed form of the
  name, with underscores for dots, is recognised as exactly that event; no other name is.\<close>

theorem subscribed_events_recognised:
  "(\<exists>ev. n = tree_event_name ev) \<longleftrightarrow> n \<in> set UNFILTERED_TREE_EVENTS \<union> {''pane.agent_status_changed''}"
  "tree_event_for pushed = Some ev \<longleftrightarrow> pushed = undotted (tree_event_name ev)"
proof -
  have "tree_event_name ev \<in> set UNFILTERED_TREE_EVENTS \<union> {''pane.agent_status_changed''}" for ev
    by (cases ev) (simp_all add: UNFILTERED_TREE_EVENTS_def)
  moreover have "\<exists>ev. n = tree_event_name ev" if "n \<in> set UNFILTERED_TREE_EVENTS \<union> {''pane.agent_status_changed''}"
    using that by (auto simp: UNFILTERED_TREE_EVENTS_def; metis tree_event_name.simps)
  ultimately show "(\<exists>ev. n = tree_event_name ev) \<longleftrightarrow> n \<in> set UNFILTERED_TREE_EVENTS \<union> {''pane.agent_status_changed''}"
    by blast
  show "tree_event_for pushed = Some ev \<longleftrightarrow> pushed = undotted (tree_event_name ev)" by (rule tree_event_for_Some)
qed

section \<open>Agent status messages are spaced\<close>

definition settle_step :: "'h bridge \<Rightarrow> string \<times> instant \<Rightarrow> 'h bridge \<times> bool" where
  "settle_step b e = settle_agent_status (fst e) (snd e) b"

definition settle_log :: "string \<Rightarrow> 'h bridge \<Rightarrow> instant list" where
  "settle_log p b = (case map_of (br_settled b) p of Some t \<Rightarrow> [t] | None \<Rightarrow> [])"

interpretation settle_window: sliding_window settle_step "settle_log p" "\<lambda>e. fst e = p" snd AGENT_STATUS_SETTLE 1 for p
proof (unfold_locales, goal_cases)
  case 1
  show ?case by (simp add: AGENT_STATUS_SETTLE_def)
next
  case (2 e s s' b)
  then show ?case
    by (auto simp: settle_step_def settle_agent_status_def settle_log_def prune_def Let_def split: option.splits if_splits)
next
  case (3 e s s' b)
  then show ?case
    by (auto simp: settle_step_def settle_agent_status_def settle_log_def Let_def split: if_splits)
qed

fun settle_run :: "'h bridge \<Rightarrow> (string \<times> instant) list \<Rightarrow> 'h bridge \<times> (string \<times> instant) list" where
  "settle_run b [] = (b, [])"
| "settle_run b (e # es) =
     (case settle_agent_status (fst e) (snd e) b of (b1, due) \<Rightarrow>
        case settle_run b1 es of (b2, sent) \<Rightarrow> (b2, (if due then [e] else []) @ sent))"

lemma settle_run_window:
  "settle_run b es = (b', sent) \<Longrightarrow> settle_window.run p b es = (b', map snd (filter (\<lambda>e. fst e = p) sent))"
proof (induction es arbitrary: b sent)
  case (Cons e es)
  obtain b1 due where st: "settle_agent_status (fst e) (snd e) b = (b1, due)" by force
  obtain sent1 where r: "settle_run b1 es = (b', sent1)" "sent = (if due then [e] else []) @ sent1"
    using Cons.prems by (auto simp: st split: prod.splits)
  have "settle_step b e = (b1, due)" by (simp add: settle_step_def st)
  then show ?case using Cons.IH [OF r(1)] r(2) by simp
qed simp

lemma settle_in_order:
  "sorted (map snd es) \<Longrightarrow> \<forall>e\<in>set es. now \<le> snd e \<Longrightarrow> settle_window.in_order now es"
  by (induction es arbitrary: now) auto

text \<open>A flapping agent is quiet: in every interval of thirty seconds at most one \<open>agent_status\<close> passes
  the settle window of a pane, whatever status changes of whatever panes are seen.\<close>

theorem agent_status_settles:
  assumes "settle_run (bridge_new h i n cfg) es = (b', sent)" "sorted (map snd es)"
  shows "in_window x (secs 30) (map snd (filter (\<lambda>e. fst e = p) sent)) \<le> 1"
  using settle_window.window_bound(1) [OF _ settle_in_order [OF assms(2), of 0] settle_run_window [OF assms(1)], of p x]
  by (simp add: settle_log_def bridge_new_def AGENT_STATUS_SETTLE_def)

definition flapping :: "(string \<times> instant) list" where
  "flapping = [(''p'', secs 1), (''p'', secs 2), (''q'', secs 3), (''p'', secs 31)]"

theorem agent_status_settles_witness:
  "snd (settle_run (bridge_new () [] [] (relay_config_default 0)) flapping) = [(''p'', secs 1), (''q'', secs 3), (''p'', secs 31)]
   \<and> in_window 5 (secs 30) (map snd (filter (\<lambda>e. fst e = ''p'')
        (snd (settle_run (bridge_new () [] [] (relay_config_default 0)) flapping)))) \<le> 1"
proof
  show "snd (settle_run (bridge_new () [] [] (relay_config_default 0)) flapping) = [(''p'', secs 1), (''q'', secs 3), (''p'', secs 31)]"
    by (simp add: flapping_def settle_agent_status_def bridge_new_def AGENT_STATUS_SETTLE_def secs_def Let_def)
qed (rule agent_status_settles [OF surjective_pairing]; simp add: flapping_def)

end
