(* ===== verification/Watch_Input.thy ===== *)
theory Watch_Input
  imports Watch_Core
begin

text \<open>
  \<open>herdr-relay/src/watch/input.rs\<close>: the input of a Device and the text the bridge believes is in the
  composer of each pane, its shadow.
\<close>

section \<open>Sending text and keys\<close>

definition eq_ignore_ascii_case :: "string \<Rightarrow> string \<Rightarrow> bool" where
  "eq_ignore_ascii_case a b \<longleftrightarrow> to_ascii_lowercase a = to_ascii_lowercase b"

definition input_ack :: "string \<Rightarrow> bool \<Rightarrow> bool \<Rightarrow> app_message" where
  "input_ack pane_id accepted queued = M_SendInputAck \<lparr>sa_pane_id = pane_id, sa_accepted = accepted, sa_queued = queued\<rparr>"

definition send_typed_text :: "'h herdr_calls \<Rightarrow> string \<Rightarrow> string \<Rightarrow> 'h bridge \<Rightarrow> 'h bridge \<times> (unit, watch_error) result" where
  "send_typed_text c pane_id text b =
     (if CHR ''\<newline>'' \<in> set text then on_herdr (c_pane_send_input c pane_id (Some text) None) b
      else on_herdr (c_pane_send_text c pane_id text) b)"

text \<open>The six keys without a name, sent as their bytes.\<close>

definition ESC :: char where "ESC = CHR 0x1B"

definition unnamed_keys :: "string list" where
  "unnamed_keys = [ESC # ''[H'', ESC # ''[F'', ESC # ''[5~'', ESC # ''[6~'', ESC # ''[3~'', ESC # ''[2~'']"

definition drop_last_grapheme :: "watch_env \<Rightarrow> string \<Rightarrow> string" where
  "drop_last_grapheme env s = take (length (concat (butlast (e_graphemes env s)))) s"

definition submits :: "string \<Rightarrow> bool" where
  "submits key \<longleftrightarrow> eq_ignore_ascii_case key ''Enter'' \<or> eq_ignore_ascii_case key ''Return'' \<or> eq_ignore_ascii_case key ''ctrl+c''"

definition shadow_keys :: "watch_env \<Rightarrow> string list \<Rightarrow> string \<Rightarrow> string" where
  "shadow_keys env keys shadow =
     (if \<exists>key\<in>set keys. submits key then []
      else fold (\<lambda>key s. if eq_ignore_ascii_case key ''Backspace'' then drop_last_grapheme env s else s) keys shadow)"

text \<open>The shadow is absent for input that bypasses the line.\<close>

definition forward_text :: "'h herdr_calls \<Rightarrow> send_input_req \<Rightarrow> string option \<Rightarrow> 'h bridge \<Rightarrow> 'h bridge \<times> string option \<times> (unit, watch_error) result" where
  "forward_text c request shadow b =
     (case si_text request of
        None \<Rightarrow> (b, shadow, Ok ())
      | Some text \<Rightarrow>
          (case send_typed_text c (si_pane_id request) text b of
             (b1, Err e) \<Rightarrow> (b1, shadow, Err e)
           | (b1, Ok _) \<Rightarrow> (b1, if text \<in> set unnamed_keys then shadow else map_option (\<lambda>s. s @ text) shadow, Ok ())))"

definition forward_input :: "watch_env \<Rightarrow> 'h herdr_calls \<Rightarrow> send_input_req \<Rightarrow> string option \<Rightarrow> 'h bridge \<Rightarrow> 'h bridge \<times> string option \<times> (unit, watch_error) result" where
  "forward_input env c request shadow b =
     (case forward_text c request shadow b of
        (b1, shadow1, Err e) \<Rightarrow> (b1, shadow1, Err e)
      | (b1, shadow1, Ok _) \<Rightarrow>
          (case si_keys request of
             None \<Rightarrow> (b1, shadow1, Ok ())
           | Some keys \<Rightarrow>
               (case on_herdr (c_pane_send_input c (si_pane_id request) None (Some keys)) b1 of
                  (b2, Err e) \<Rightarrow> (b2, shadow1, Err e)
                | (b2, Ok _) \<Rightarrow> (b2, map_option (shadow_keys env keys) shadow1, Ok ()))))"

section \<open>Reconciling a line\<close>

definition common_prefix_bytes :: "watch_env \<Rightarrow> string \<Rightarrow> string \<Rightarrow> nat" where
  "common_prefix_bytes env old tx =
     sum_list (map (\<lambda>(a, _). length a) (takeWhile (\<lambda>(a, b). a = b) (zip (e_graphemes env old) (e_graphemes env tx))))"

text \<open>The loop that sends backspaces, at most \<open>n\<close> in one call; \<open>n\<close> is positive whenever \<open>remaining\<close> is.\<close>

function erase :: "watch_env \<Rightarrow> 'h herdr_calls \<Rightarrow> string \<Rightarrow> nat \<Rightarrow> nat \<Rightarrow> string \<Rightarrow> 'h bridge \<Rightarrow> 'h bridge \<times> string \<times> (unit, watch_error) result" where
  "erase env c pane_id n remaining old b =
     (if remaining = 0 \<or> n = 0 then (b, old, Ok ())
      else let count = min remaining n in
        case on_herdr (c_pane_send_input c pane_id None (Some (replicate count ''Backspace''))) b of
          (b1, Err e) \<Rightarrow> (b1, old, Err e)
        | (b1, Ok _) \<Rightarrow>
            let keep = length old - sum_list (map length (take count (rev (e_graphemes env old))))
            in erase env c pane_id n (remaining - count) (take keep old) b1)"
  by pat_completeness auto
termination
  by (relation "measure (\<lambda>(env, c, pane_id, n, remaining, old, b). remaining)") auto

declare erase.simps [simp del]

definition reconcile_line :: "watch_env \<Rightarrow> 'h herdr_calls \<Rightarrow> string \<Rightarrow> string \<Rightarrow> string \<Rightarrow> 'h bridge \<Rightarrow> 'h bridge \<times> string \<times> (unit, watch_error) result" where
  "reconcile_line env c pane_id old tx b =
     (let prefix_bytes = common_prefix_bytes env old tx;
          remove = length (e_graphemes env (drop prefix_bytes old)) in
      case (if remove \<noteq> 0 then erase env c pane_id (min remove 64) remove old b else (b, old, Ok ())) of
        (b1, old1, Err e) \<Rightarrow> (b1, old1, Err e)
      | (b1, old1, Ok _) \<Rightarrow>
          let tail = drop prefix_bytes tx in
          if tail = [] then (b1, old1, Ok ())
          else case send_typed_text c pane_id tail b1 of (b2, r) \<Rightarrow> (b2, old1, r))"

section \<open>The requests\<close>

definition validate_send_input :: "watch_env \<Rightarrow> send_input_req \<Rightarrow> (unit, watch_error) result" where
  "validate_send_input env request =
     (if si_bypass_line request = Some True \<and> (si_line request \<noteq> None \<or> si_defer request \<noteq> None)
      then Err (W_InvalidInput ''bypass_line cannot include line or defer'')
      else if si_defer request \<noteq> None then Err (W_InvalidInput ''deferred input requires the deferred handler'')
      else if si_line request \<noteq> None
      then (if si_text request \<noteq> None \<or> si_keys request \<noteq> None then Err (W_InvalidInput ''line cannot include text or keys'') else Ok ())
      else if si_text request = None \<and> (case si_keys request of None \<Rightarrow> True | Some ks \<Rightarrow> ks = [])
      then Err (W_InvalidInput ''send_input carried neither text nor keys'')
      else case find (\<lambda>key. \<not> is_ok (validate_key key)) (case si_keys request of Some ks \<Rightarrow> ks | None \<Rightarrow> []) of
             Some key \<Rightarrow> Err (W_InvalidInput (''unsupported key '' @ e_debug_str env key))
           | None \<Rightarrow> Ok ())"

definition cancel_pending_inputs :: "'h bridge \<Rightarrow> 'h bridge" where
  "cancel_pending_inputs b =
     (case br_pending b of
        None \<Rightarrow> b
      | Some p \<Rightarrow> b\<lparr>br_pending := None, br_replies := br_replies b @ [(input_ack (pi_pane_id p) False False, pi_corr p)]\<rparr>)"

definition interrupts :: "send_input_req \<Rightarrow> bool" where
  "interrupts request \<longleftrightarrow>
     (case si_keys request of
        None \<Rightarrow> False
      | Some keys \<Rightarrow> \<exists>key\<in>set keys. eq_ignore_ascii_case key ''Enter'' \<or> eq_ignore_ascii_case key ''ctrl+c'')"

definition shadow_of :: "'h bridge \<Rightarrow> string \<Rightarrow> string" where
  "shadow_of b pane_id = (case map_of (br_lines b) pane_id of Some s \<Rightarrow> s | None \<Rightarrow> [])"

definition set_shadow :: "string \<Rightarrow> string \<Rightarrow> 'h bridge \<Rightarrow> 'h bridge" where
  "set_shadow pane_id s b = b\<lparr>br_lines := AList.update pane_id s (br_lines b)\<rparr>"

text \<open>The part under the lock of the input lines: the new state, whether Herdr accepted, and whether the
  length of the shadow changed.\<close>

definition apply_input :: "watch_env \<Rightarrow> 'h herdr_calls \<Rightarrow> send_input_req \<Rightarrow> 'h bridge \<Rightarrow> 'h bridge \<times> bool \<times> bool" where
  "apply_input env c request b =
     (let pane = si_pane_id request in
      if si_bypass_line request = Some True
      then (case forward_input env c request None b of (b1, _, r) \<Rightarrow> (b1, is_ok r, False))
      else
        let old = shadow_of b pane;
            (b1, old1, r) = (case si_line request of
               Some tx \<Rightarrow> reconcile_line env c pane old tx b
             | None \<Rightarrow> (case forward_input env c request (Some old) b of (b1, sh, r) \<Rightarrow> (b1, the sh, r)));
            accepted = is_ok r;
            new = (case si_line request of Some tx \<Rightarrow> if accepted then tx else old1 | None \<Rightarrow> old1)
        in (set_shadow pane new b1, accepted, length new \<noteq> length old))"

definition send_input :: "watch_env \<Rightarrow> 'h herdr_calls \<Rightarrow> instant \<Rightarrow> send_input_req \<Rightarrow> 'h bridge \<Rightarrow> 'h bridge \<times> (app_message, watch_error) result" where
  "send_input env c now request b =
     (case require_watched (si_pane_id request) b of
        Err e \<Rightarrow> (b, Err e)
      | Ok _ \<Rightarrow>
          (case validate_send_input env request of
             Err e \<Rightarrow> (b, Err e)
           | Ok _ \<Rightarrow>
               let b1 = (if si_bypass_line request \<noteq> Some True \<and> interrupts request then cancel_pending_inputs b else b) in
               case apply_input env c request b1 of (b2, accepted, changed) \<Rightarrow>
                 ((if accepted \<or> changed then b2\<lparr>br_scheduler := map_option (on_input_sent now) (br_scheduler b2)\<rparr> else b2),
                  Ok (input_ack (si_pane_id request) accepted False))))"

section \<open>The composer\<close>

text \<open>
  What the shadow of a pane stands for: the text a line editor shows after the inputs Herdr accepted.
  \<open>logged\<close> is any Herdr that keeps the accepted inputs; the editor appends literal text, ignores the
  unnamed keys, removes a grapheme for a backspace and empties the line for a submitting key.
\<close>

datatype typed = TText string | TKeys "string list"

type_synonym input_log = "(string \<times> typed) list"

definition note_input :: "string \<Rightarrow> typed \<Rightarrow> ('h, unit) call \<Rightarrow> ('h \<times> input_log, unit) call" where
  "note_input pane_id t c hl =
     (case c (fst hl) of (h, r) \<Rightarrow> ((h, if is_ok r then snd hl @ [(pane_id, t)] else snd hl), r))"

definition through :: "('h, 'a) call \<Rightarrow> ('h \<times> input_log, 'a) call" where
  "through c hl = (case c (fst hl) of (h, r) \<Rightarrow> ((h, snd hl), r))"

definition logged :: "'h herdr_calls \<Rightarrow> ('h \<times> input_log) herdr_calls" where
  "logged c =
     \<lparr>c_pane_send_text = (\<lambda>p t. note_input p (TText t) (c_pane_send_text c p t)),
      c_session_snapshot = through (c_session_snapshot c), c_pane_layout = (\<lambda>p. through (c_pane_layout c p)),
      c_pane_read_visible = (\<lambda>p. through (c_pane_read_visible c p)),
      c_pane_read_recent = (\<lambda>p n. through (c_pane_read_recent c p n)),
      c_pane_send_input = (\<lambda>p t ks. note_input p
        (case t of Some x \<Rightarrow> TText x | None \<Rightarrow> TKeys (case ks of Some k \<Rightarrow> k | None \<Rightarrow> [])) (c_pane_send_input c p t ks)),
      c_agent_prompt = (\<lambda>t x. through (c_agent_prompt c t x)), c_agent_focus = (\<lambda>t. through (c_agent_focus c t)),
      c_workspace_create = (\<lambda>j. through (c_workspace_create c j)), c_tab_create = (\<lambda>j. through (c_tab_create c j)),
      c_pane_split = (\<lambda>j. through (c_pane_split c j)), c_pane_zoom = (\<lambda>p m. through (c_pane_zoom c p m)),
      c_pane_close = (\<lambda>p. through (c_pane_close c p)), c_pane_rename = (\<lambda>p l. through (c_pane_rename c p l)),
      c_pane_resize = (\<lambda>p d a. through (c_pane_resize c p d a)), c_plugin_action_list = through (c_plugin_action_list c),
      c_plugin_action_invoke = (\<lambda>j. through (c_plugin_action_invoke c j))\<rparr>"

definition editor_key :: "watch_env \<Rightarrow> string \<Rightarrow> string \<Rightarrow> string" where
  "editor_key env key s =
     (if submits key then []
      else if eq_ignore_ascii_case key ''Backspace'' then concat (butlast (e_graphemes env s)) else s)"

fun editor :: "watch_env \<Rightarrow> typed \<Rightarrow> string \<Rightarrow> string" where
  "editor env (TText t) s = (if t \<in> set unnamed_keys then s else s @ t)"
| "editor env (TKeys ks) s = fold (editor_key env) ks s"

definition composer :: "watch_env \<Rightarrow> input_log \<Rightarrow> string \<Rightarrow> string" where
  "composer env log p = fold (editor env) (map snd (filter (\<lambda>e. fst e = p) log)) []"

text \<open>The laws of the segmentation into grapheme clusters: the clusters are the text, and the clusters
  before and after a cluster boundary are the clusters of the two parts.\<close>

definition segmentation :: "(string \<Rightarrow> string list) \<Rightarrow> bool" where
  "segmentation g \<longleftrightarrow> (\<forall>s. concat (g s) = s) \<and> (\<forall>s n. g (concat (take n (g s))) = take n (g s) \<and> g (concat (drop n (g s))) = drop n (g s))"

lemma segmentationD:
  assumes "segmentation g"
  shows "concat (g s) = s" "g (concat (take n (g s))) = take n (g s)" "g (concat (drop n (g s))) = drop n (g s)"
  using assms by (simp_all add: segmentation_def)

section \<open>The shadow follows the composer\<close>

text \<open>Between \<open>b\<close> and \<open>b'\<close> only inputs to the pane \<open>p\<close> were accepted; they turn \<open>s\<close> into \<open>s'\<close>.\<close>

definition ran :: "watch_env \<Rightarrow> string \<Rightarrow> ('h \<times> input_log) bridge \<Rightarrow> ('h \<times> input_log) bridge \<Rightarrow> typed list \<Rightarrow> string \<Rightarrow> string \<Rightarrow> bool" where
  "ran env p b b' new s s' \<longleftrightarrow>
     snd (br_herdr b') = snd (br_herdr b) @ map (Pair p) new \<and> fold (editor env) new s = s'
     \<and> b' = b\<lparr>br_herdr := br_herdr b'\<rparr>"

lemma ran_refl [simp]: "ran env p b b [] s s"
  by (simp add: ran_def)

lemma ran_trans: "ran env p b b1 n1 s s1 \<Longrightarrow> ran env p b1 b2 n2 s1 s2 \<Longrightarrow> ran env p b b2 (n1 @ n2) s s2"
proof -
  assume a: "ran env p b b1 n1 s s1" "ran env p b1 b2 n2 s1 s2"
  then have "b2 = (b\<lparr>br_herdr := br_herdr b1\<rparr>)\<lparr>br_herdr := br_herdr b2\<rparr>" unfolding ran_def by metis
  then have "b2 = b\<lparr>br_herdr := br_herdr b2\<rparr>" by simp
  then show ?thesis using a unfolding ran_def by simp
qed

lemma send_keys_ran:
  assumes "on_herdr (c_pane_send_input (logged c) p None (Some ks)) b = (b', r)"
  shows "ran env p b b' (if is_ok r then [TKeys ks] else []) s (if is_ok r then editor env (TKeys ks) s else s)"
  using assms by (auto simp: on_herdr_def logged_def note_input_def ran_def split: prod.splits sum.splits if_splits)

lemma send_typed_text_ran:
  assumes "send_typed_text (logged c) p t b = (b', r)"
  shows "ran env p b b' (if is_ok r then [TText t] else []) s (if is_ok r then editor env (TText t) s else s)"
  using assms
  by (auto simp: send_typed_text_def on_herdr_def logged_def note_input_def ran_def split: prod.splits sum.splits if_splits)

lemma backspace_facts: "eq_ignore_ascii_case ''Backspace'' ''Backspace''" "\<not> submits ''Backspace''"
  by code_simp+

lemma drop_last_butlast:
  assumes "segmentation (e_graphemes env)"
  shows "drop_last_grapheme env s = concat (butlast (e_graphemes env s))"
proof (cases "e_graphemes env s = []")
  case False
  then have "s = concat (butlast (e_graphemes env s)) @ last (e_graphemes env s)"
    using segmentationD(1) [OF assms, of s] by (metis append_butlast_last_id concat_append concat.simps append_Nil2)
  then show ?thesis unfolding drop_last_grapheme_def by (metis append_eq_conv_conj)
qed (simp add: drop_last_grapheme_def)

lemma backspaces:
  assumes "segmentation (e_graphemes env)"
  shows "fold (editor_key env) (replicate k ''Backspace'') s = concat (take (length (e_graphemes env s) - k) (e_graphemes env s))"
proof -
  have "(editor_key env ''Backspace'' ^^ k) s = concat (take (length (e_graphemes env s) - k) (e_graphemes env s))"
  proof (induction k)
    case 0
    then show ?case using segmentationD(1) [OF assms] by simp
  next
    case (Suc k)
    then show ?case
      using segmentationD(2) [OF assms] backspace_facts by (simp add: editor_key_def butlast_take)
  qed
  then show ?thesis by (simp add: fold_replicate)
qed

lemma keep_bytes:
  assumes "segmentation (e_graphemes env)" "m \<le> length (e_graphemes env s)"
  shows "take (length s - sum_list (map length (take m (rev (e_graphemes env s))))) s
    = concat (take (length (e_graphemes env s) - m) (e_graphemes env s))"
proof -
  let ?g = "e_graphemes env s" and ?n = "length (e_graphemes env s) - m"
  have s: "s = concat (take ?n ?g) @ concat (drop ?n ?g)"
    using segmentationD(1) [OF assms(1), of s] by (metis append_take_drop_id concat_append)
  have "sum_list (map length (take m (rev ?g))) = length (concat (drop ?n ?g))"
    using assms(2) by (simp add: take_rev length_concat rev_map [symmetric])
  then show ?thesis using s by (metis add_diff_cancel_right' append_eq_conv_conj length_append)
qed

lemma erase_ran:
  assumes "segmentation (e_graphemes env)"
  shows "erase env (logged c) p n remaining old b = (b', old', r) \<Longrightarrow> remaining \<le> length (e_graphemes env old) \<Longrightarrow> 0 < n \<Longrightarrow>
    \<exists>ks. ran env p b b' (map (\<lambda>k. TKeys (replicate k ''Backspace'')) ks) old old' \<and> (\<forall>k\<in>set ks. k \<le> n)
      \<and> length ks * n < remaining + n
      \<and> (is_ok r \<longrightarrow> sum_list ks = remaining \<and> old' = concat (take (length (e_graphemes env old) - remaining) (e_graphemes env old)))"
proof (induction remaining arbitrary: old b rule: less_induct)
  case (less remaining)
  let ?g = "e_graphemes env old"
  show ?case
  proof (cases "remaining = 0")
    case True
    then have "b' = b" "old' = old" using less.prems(1) by (simp_all add: erase.simps)
    then show ?thesis using True less.prems(3) segmentationD(1) [OF assms]
      by (intro exI [of _ "[]"]) simp
  next
    case False
    define m where "m = min remaining n"
    have cnt: "0 < m" "m \<le> n" "m \<le> remaining" "remaining - m < remaining"
      using False less.prems(3) by (auto simp: m_def)
    obtain b1 r1 where st: "on_herdr (c_pane_send_input (logged c) p None (Some (replicate m ''Backspace''))) b = (b1, r1)"
      by force
    note one = send_keys_ran [OF st, of env old]
    show ?thesis
    proof (cases r1)
      case (Inl e)
      have er: "b' = b1" "old' = old" "r = Err e"
        using less.prems(1,3) False st Inl by (auto simp: erase.simps [of env "logged c" p n remaining] m_def Let_def)
      have "ran env p b b' [] old old'" using one er Inl by simp
      then show ?thesis using er False less.prems(3) by (intro exI [of _ "[]"]) simp
    next
      case (Inr u)
      let ?mid = "concat (take (length ?g - m) ?g)"
      have "m \<le> length ?g" using cnt less.prems(2) by linarith
      then have keep: "take (length old - sum_list (map length (take m (rev ?g)))) old = ?mid"
        by (rule keep_bytes [OF assms])
      have rest: "erase env (logged c) p n (remaining - m) ?mid b1 = (b', old', r)"
        using less.prems(1,3) False st Inr keep
        by (simp add: erase.simps [of env "logged c" p n remaining] m_def Let_def)
      have gm: "e_graphemes env ?mid = take (length ?g - m) ?g" by (rule segmentationD(2) [OF assms])
      have "remaining - m \<le> length (e_graphemes env ?mid)"
        using less.prems(2) by (simp add: gm)
      from less.IH [OF cnt(4) rest this less.prems(3)] obtain ks
        where ks: "ran env p b1 b' (map (\<lambda>k. TKeys (replicate k ''Backspace'')) ks) ?mid old'" "\<forall>k\<in>set ks. k \<le> n"
          "length ks * n < remaining - m + n"
          "is_ok r \<longrightarrow> sum_list ks = remaining - m \<and>
             old' = concat (take (length (e_graphemes env ?mid) - (remaining - m)) (e_graphemes env ?mid))"
        by blast
      have "ran env p b b1 [TKeys (replicate m ''Backspace'')] old ?mid"
        using one Inr backspaces [OF assms, of m old] by simp
      then have all: "ran env p b b' (map (\<lambda>k. TKeys (replicate k ''Backspace'')) (m # ks)) old old'"
        using ran_trans [OF _ ks(1)] by fastforce
      have len: "length (m # ks) * n < remaining + n"
      proof (cases "remaining \<le> n")
        case True
        then have "m = remaining" by (simp add: m_def)
        then have "ks = []" using ks(3) by (cases ks) auto
        then show ?thesis using False by simp
      next
        case more: False
        then have "m = n" by (simp add: m_def)
        then show ?thesis using ks(3) more by simp
      qed
      have "length (e_graphemes env ?mid) - (remaining - m) = length ?g - remaining"
        using cnt(3) by (simp add: gm)
      moreover have "take (length ?g - remaining) (e_graphemes env ?mid) = take (length ?g - remaining) ?g"
        using cnt(3) by (simp add: gm min_absorb1)
      ultimately have "is_ok r \<longrightarrow> sum_list (m # ks) = remaining \<and> old' = concat (take (length ?g - remaining) ?g)"
        using ks(4) cnt(3) by simp
      then show ?thesis using all len ks(2) cnt(2) by (intro exI [of _ "m # ks"]) auto
    qed
  qed
qed


lemma shadow_keys_editor:
  assumes "segmentation (e_graphemes env)"
  shows "shadow_keys env ks s = fold (editor_key env) ks s"
proof (cases "\<exists>k\<in>set ks. submits k")
  case True
  have empty: "editor_key env k [] = []" for k
    using segmentationD(1) [OF assms, of "[]"] by (auto simp: editor_key_def dest: in_set_butlastD)
  have stays: "fold (editor_key env) xs [] = []" for xs by (induction xs) (simp_all add: empty)
  obtain pre k post where k: "ks = pre @ k # post" "submits k" using split_list_first_prop [OF True] by blast
  have "editor_key env k u = []" for u using k(2) by (simp add: editor_key_def)
  then have "fold (editor_key env) ks s = []" by (simp add: k(1) stays)
  then show ?thesis using True by (simp add: shadow_keys_def)
next
  case False
  have "fold (\<lambda>key s. if eq_ignore_ascii_case key ''Backspace'' then drop_last_grapheme env s else s) ks s = fold (editor_key env) ks s"
    by (rule fold_cong) (use False in \<open>auto simp: fun_eq_iff editor_key_def drop_last_butlast [OF assms]\<close>)
  then show ?thesis using False by (simp add: shadow_keys_def)
qed

lemma common_prefix:
  assumes "segmentation (e_graphemes env)"
  shows "\<exists>k. k \<le> length (e_graphemes env old) \<and> common_prefix_bytes env old tx = length (concat (take k (e_graphemes env old)))
    \<and> concat (take k (e_graphemes env old)) = take (common_prefix_bytes env old tx) tx
    \<and> drop (common_prefix_bytes env old tx) old = concat (drop k (e_graphemes env old))"
proof -
  let ?go = "e_graphemes env old" and ?gt = "e_graphemes env tx"
  let ?tw = "takeWhile (\<lambda>(a, b). a = b) (zip ?go ?gt)"
  define k where "k = length ?tw"
  have tw: "?tw = take k (zip ?go ?gt)" unfolding k_def by (metis takeWhile_eq_take)
  then have pairs: "?tw = zip (take k ?go) (take k ?gt)" by (simp add: take_zip)
  have kl: "k \<le> length ?go" "k \<le> length ?gt" using length_takeWhile_le [of _ "zip ?go ?gt"] by (auto simp: k_def)
  have "\<forall>x\<in>set ?tw. fst x = snd x" using set_takeWhileD by fastforce
  then have "map fst ?tw = map snd ?tw" by simp
  then have eq: "take k ?go = take k ?gt" using kl by (simp add: pairs)
  have "map (\<lambda>(a, _). length a) ?tw = map length (map fst ?tw)" by (simp add: case_prod_unfold)
  then have bytes: "common_prefix_bytes env old tx = length (concat (take k ?go))"
    unfolding common_prefix_bytes_def using kl by (simp add: pairs length_concat)
  have od: "old = concat (take k ?go) @ concat (drop k ?go)"
    using segmentationD(1) [OF assms, of old] by (metis append_take_drop_id concat_append)
  have t: "tx = concat (take k ?go) @ concat (drop k ?gt)"
    using segmentationD(1) [OF assms, of tx] by (metis append_take_drop_id concat_append eq)
  show ?thesis
    using kl(1) bytes od t by (intro exI [of _ k] conjI) (metis append_eq_conv_conj)+
qed

lemma unnamed_escape: "t \<in> set unnamed_keys \<Longrightarrow> ESC \<in> set t"
  by (auto simp: unnamed_keys_def)

lemma batch_bound:
  assumes "k * min r (64 :: nat) < r + min r 64"
  shows "k \<le> (r + 63) div 64"
proof (cases "r \<le> 64")
  case True
  have "k * r < r + r" using assms True by simp
  then have r: "k * r < 2 * r" unfolding mult_2 .
  then have "\<not> 2 \<le> k" by (meson mult_le_mono1 not_le)
  moreover have "0 < r" using r by (cases r) auto
  ultimately show ?thesis by simp
next
  case False
  then show ?thesis using assms by simp
qed

lemma reconcile_ran:
  assumes seg: "segmentation (e_graphemes env)" and esc: "ESC \<notin> set tx"
    and rec: "reconcile_line env (logged c) p old tx b = (b', old', r)"
  shows "\<exists>ks tl. ran env p b b' (map (\<lambda>k. TKeys (replicate k ''Backspace'')) ks @ tl) old (if is_ok r then tx else old')
    \<and> (\<forall>k\<in>set ks. k \<le> 64) \<and> length ks \<le> (length (e_graphemes env old) + 63) div 64 \<and> length tl \<le> 1"
proof -
  let ?g = "e_graphemes env old" and ?pb = "common_prefix_bytes env old tx"
  obtain k where k: "k \<le> length ?g" "?pb = length (concat (take k ?g))"
    "concat (take k ?g) = take ?pb tx" "drop ?pb old = concat (drop k ?g)"
    using common_prefix [OF seg, of old tx] by blast
  define rm where "rm = length (e_graphemes env (drop ?pb old))"
  have rm: "rm = length ?g - k" by (simp add: rm_def k(4) segmentationD(3) [OF seg])
  obtain b1 old1 r1 where er: "(if rm \<noteq> 0 then erase env (logged c) p (min rm 64) rm old b else (b, old, Ok ())) = (b1, old1, r1)"
    by (metis prod_cases3)
  have erased: "\<exists>ks. ran env p b b1 (map (\<lambda>k. TKeys (replicate k ''Backspace'')) ks) old old1 \<and> (\<forall>k\<in>set ks. k \<le> 64)
      \<and> length ks \<le> (length ?g + 63) div 64 \<and> (is_ok r1 \<longrightarrow> old1 = concat (take k ?g))"
  proof (cases "rm = 0")
    case True
    then have "old1 = old" "b1 = b" using er by auto
    then show ?thesis using True rm k(1) segmentationD(1) [OF seg] by (intro exI [of _ "[]"]) simp
  next
    case False
    then have e: "erase env (logged c) p (min rm 64) rm old b = (b1, old1, r1)" using er by simp
    obtain ks where ks: "ran env p b b1 (map (\<lambda>k. TKeys (replicate k ''Backspace'')) ks) old old1" "\<forall>k\<in>set ks. k \<le> min rm 64"
      "length ks * min rm 64 < rm + min rm 64" "is_ok r1 \<longrightarrow> old1 = concat (take (length ?g - rm) ?g)"
      using erase_ran [OF seg e] rm False by auto
    have "length ks \<le> (rm + 63) div 64" by (rule batch_bound [OF ks(3)])
    also have "\<dots> \<le> (length ?g + 63) div 64" using rm by (intro div_le_mono) simp
    finally show ?thesis using ks rm k(1) by (intro exI [of _ ks]) auto
  qed
  then obtain ks where ks: "ran env p b b1 (map (\<lambda>k. TKeys (replicate k ''Backspace'')) ks) old old1" "\<forall>k\<in>set ks. k \<le> 64"
    "length ks \<le> (length ?g + 63) div 64" "is_ok r1 \<longrightarrow> old1 = concat (take k ?g)" by blast
  have rec': "(case (b1, old1, r1) of (b1, old1, Err e) \<Rightarrow> (b1, old1, Err e)
      | (b1, old1, Ok _) \<Rightarrow> if drop ?pb tx = [] then (b1, old1, Ok ())
          else case send_typed_text (logged c) p (drop ?pb tx) b1 of (b2, r) \<Rightarrow> (b2, old1, r)) = (b', old', r)"
    using rec unfolding reconcile_line_def Let_def rm_def [symmetric] er by simp
  show ?thesis
  proof (cases r1)
    case (Inl e)
    then have "b' = b1" "old' = old1" "r = Err e" using rec' by auto
    then show ?thesis using ks by (intro exI [of _ ks] exI [of _ "[]"]) simp
  next
    case (Inr u)
    then have o1: "old1 = take ?pb tx" using ks(4) k(3) by simp
    show ?thesis
    proof (cases "drop ?pb tx = []")
      case True
      then have "b' = b1" "old' = old1" "r = Ok ()" using rec' Inr by auto
      moreover have "old1 = tx" using o1 True by simp
      ultimately show ?thesis using ks by (intro exI [of _ ks] exI [of _ "[]"]) simp
    next
      case False
      then obtain b2 where s: "send_typed_text (logged c) p (drop ?pb tx) b1 = (b2, r)" and b2: "b' = b2" "old' = old1"
        using rec' Inr by (auto split: prod.splits)
      have "drop ?pb tx \<notin> set unnamed_keys" using unnamed_escape esc by (metis in_set_dropD)
      then have e: "editor env (TText (drop ?pb tx)) old1 = tx" by (simp add: o1)
      have "ran env p b1 b' (if is_ok r then [TText (drop ?pb tx)] else []) old1 (if is_ok r then tx else old')"
        using send_typed_text_ran [OF s, of env old1] unfolding e b2 .
      from ran_trans [OF ks(1) this] show ?thesis using ks(2,3)
        by (intro exI [of _ ks] exI [of _ "if is_ok r then [TText (drop ?pb tx)] else []"]) simp
    qed
  qed
qed

lemma forward_ran:
  assumes seg: "segmentation (e_graphemes env)"
    and fwd: "forward_input env (logged c) request (Some s) b = (b', sh, r)"
  shows "\<exists>new s'. sh = Some s' \<and> ran env (si_pane_id request) b b' new s s'"
proof -
  let ?p = "si_pane_id request"
  obtain b1 sh1 r1 where f1: "forward_text (logged c) request (Some s) b = (b1, sh1, r1)" by (metis prod_cases3)
  have one: "\<exists>new s1. sh1 = Some s1 \<and> ran env ?p b b1 new s s1"
  proof (cases "si_text request")
    case None
    then have "b1 = b" "sh1 = Some s" using f1 by (auto simp: forward_text_def)
    then show ?thesis by (metis ran_refl)
  next
    case (Some tx)
    obtain b2 r2 where t: "send_typed_text (logged c) ?p tx b = (b2, r2)" by force
    have "b1 = b2 \<and> sh1 = Some (if is_ok r2 then editor env (TText tx) s else s)"
      using f1 Some t by (cases r2) (auto simp: forward_text_def)
    then show ?thesis using send_typed_text_ran [OF t, of env s] by blast
  qed
  then obtain n1 s1 where first: "sh1 = Some s1" "ran env ?p b b1 n1 s s1" by blast
  show ?thesis
  proof (cases "is_ok r1 \<and> si_keys request \<noteq> None")
    case False
    then have "b' = b1 \<and> sh = sh1"
      using fwd f1 by (cases r1) (auto simp: forward_input_def split: option.splits)
    then show ?thesis using first by blast
  next
    case True
    then obtain keys where keys: "si_keys request = Some keys" "is_ok r1" by auto
    obtain b2 r2 where t: "on_herdr (c_pane_send_input (logged c) ?p None (Some keys)) b1 = (b2, r2)" by force
    have "b' = b2 \<and> sh = Some (if is_ok r2 then editor env (TKeys keys) s1 else s1)"
      using fwd f1 t keys first(1) shadow_keys_editor [OF seg]
      by (cases r1; cases r2) (auto simp: forward_input_def)
    then show ?thesis using ran_trans [OF first(2) send_keys_ran [OF t, of env s1]] by blast
  qed
qed

definition tracked :: "watch_env \<Rightarrow> ('h \<times> input_log) bridge \<Rightarrow> bool" where
  "tracked env b \<longleftrightarrow> (\<forall>p. shadow_of b p = composer env (snd (br_herdr b)) p)"

lemma composer_append [simp]:
  "composer env (log @ map (Pair p) new) q =
     (if q = p then fold (editor env) new (composer env log q) else composer env log q)"
proof -
  have "filter (\<lambda>e. fst e = q) (map (Pair p) new) = (if q = p then map (Pair p) new else [])"
    by (induction new) auto
  then show ?thesis by (simp add: composer_def o_def)
qed

lemma shadow_of_set [simp]: "shadow_of (set_shadow p s b) q = (if q = p then s else shadow_of b q)"
  by (simp add: shadow_of_def set_shadow_def)

lemma shadow_of_lines: "br_lines b' = br_lines b \<Longrightarrow> shadow_of b' p = shadow_of b p"
  by (simp add: shadow_of_def)

lemma tracked_step:
  assumes "tracked env b" "ran env p b b1 new (shadow_of b p) s"
  shows "tracked env (set_shadow p s b1)"
proof -
  have r: "snd (br_herdr b1) = snd (br_herdr b) @ map (Pair p) new" "fold (editor env) new (shadow_of b p) = s"
    and f: "b1 = b\<lparr>br_herdr := br_herdr b1\<rparr>"
    using assms(2) by (simp_all add: ran_def)
  have "br_lines b1 = br_lines b" by (subst f) simp
  then have "shadow_of b1 q = shadow_of b q" for q by (rule shadow_of_lines)
  then show ?thesis using r assms(1) by (simp add: tracked_def) (simp add: set_shadow_def r(1))
qed

lemma apply_input_tracked:
  assumes "segmentation (e_graphemes env)" "tracked env b" "si_bypass_line request \<noteq> Some True"
    and "\<forall>tx. si_line request = Some tx \<longrightarrow> ESC \<notin> set tx"
    and "apply_input env (logged c) request b = (b', accepted, changed)"
  shows "tracked env b' \<and> (accepted \<longrightarrow> (\<forall>tx. si_line request = Some tx \<longrightarrow> shadow_of b' (si_pane_id request) = tx))"
proof (cases "si_line request")
  case None
  obtain b1 sh r where f: "forward_input env (logged c) request (Some (shadow_of b (si_pane_id request))) b = (b1, sh, r)"
    by (metis prod_cases3)
  obtain new s where s: "sh = Some s" "ran env (si_pane_id request) b b1 new (shadow_of b (si_pane_id request)) s"
    using forward_ran [OF assms(1) f] by blast
  have "b' = set_shadow (si_pane_id request) s b1" using assms(3,5) None f s(1) by (simp add: apply_input_def Let_def)
  then show ?thesis using tracked_step [OF assms(2) s(2)] None by simp
next
  case (Some tx)
  obtain b1 old1 r where f: "reconcile_line env (logged c) (si_pane_id request) (shadow_of b (si_pane_id request)) tx b = (b1, old1, r)"
    by (metis prod_cases3)
  obtain new where s: "ran env (si_pane_id request) b b1 new (shadow_of b (si_pane_id request)) (if is_ok r then tx else old1)"
    using reconcile_ran [OF assms(1) _ f] assms(4) Some by blast
  have "b' = set_shadow (si_pane_id request) (if is_ok r then tx else old1) b1" "accepted = is_ok r"
    using assms(3,5) Some f by (auto simp: apply_input_def Let_def)
  then show ?thesis using tracked_step [OF assms(2) s] Some by simp
qed

lemma cancel_same:
  "br_lines (cancel_pending_inputs b) = br_lines b" "br_herdr (cancel_pending_inputs b) = br_herdr b"
  "br_watched (cancel_pending_inputs b) = br_watched b" "br_session_active (cancel_pending_inputs b) = br_session_active b"
  by (simp_all add: cancel_pending_inputs_def split: option.splits)

lemma tracked_same: "br_lines b' = br_lines b \<Longrightarrow> br_herdr b' = br_herdr b \<Longrightarrow> tracked env b' = tracked env b"
  by (simp add: tracked_def shadow_of_def)

lemma send_input_tracked:
  assumes "segmentation (e_graphemes env)" "tracked env b" "si_bypass_line request \<noteq> Some True"
    and "\<forall>tx. si_line request = Some tx \<longrightarrow> ESC \<notin> set tx"
    and "send_input env (logged c) now request b = (b', r)"
  shows "tracked env b' \<and> (r = Ok (input_ack (si_pane_id request) True False) \<longrightarrow>
    (\<forall>tx. si_line request = Some tx \<longrightarrow> shadow_of b' (si_pane_id request) = tx))"
proof (cases "is_ok (require_watched (si_pane_id request) b) \<and> is_ok (validate_send_input env request)")
  case False
  then have "b' = b \<and> \<not> is_ok r"
    using assms(5) by (auto simp: send_input_def split: sum.splits)
  then show ?thesis using assms(2) by auto
next
  case True
  let ?b1 = "if interrupts request then cancel_pending_inputs b else b"
  obtain b2 accepted changed where a: "apply_input env (logged c) request ?b1 = (b2, accepted, changed)" by (metis prod_cases3)
  have t: "tracked env ?b1" using assms(2) tracked_same cancel_same(1,2) by (metis (full_types))
  have s: "b' = (if accepted \<or> changed then b2\<lparr>br_scheduler := map_option (on_input_sent now) (br_scheduler b2)\<rparr> else b2)"
    "r = Ok (input_ack (si_pane_id request) accepted False)"
    using assms(3,5) True a by (auto simp: send_input_def Let_def split: sum.splits)
  have "tracked env b' = tracked env b2" "shadow_of b' p = shadow_of b2 p" for p
    by (simp_all add: s(1) tracked_def shadow_of_def)
  then show ?thesis using apply_input_tracked [OF assms(1) t assms(3,4) a] s(2) by (simp add: input_ack_def)
qed


fun send_inputs :: "watch_env \<Rightarrow> 'h herdr_calls \<Rightarrow> (instant \<times> send_input_req) list \<Rightarrow> 'h bridge \<Rightarrow> 'h bridge" where
  "send_inputs env c [] b = b"
| "send_inputs env c ((now, request) # rs) b = send_inputs env c rs (fst (send_input env c now request b))"

definition plain_request :: "send_input_req \<Rightarrow> bool" where
  "plain_request request \<longleftrightarrow> si_bypass_line request \<noteq> Some True \<and> (\<forall>tx. si_line request = Some tx \<longrightarrow> ESC \<notin> set tx)"

lemma send_inputs_tracked:
  assumes "segmentation (e_graphemes env)"
  shows "tracked env b \<Longrightarrow> list_all (plain_request \<circ> snd) rs \<Longrightarrow> tracked env (send_inputs env (logged c) rs b)"
proof (induction rs arbitrary: b)
  case (Cons r rs)
  obtain now request where r: "r = (now, request)" by force
  have "tracked env (fst (send_input env (logged c) now request b))"
    using send_input_tracked [OF assms Cons.prems(1) _ _ surjective_pairing] Cons.prems(2)
    by (simp add: r plain_request_def)
  then show ?case using Cons.IH Cons.prems(2) by (simp add: r)
qed simp


definition sample_env :: watch_env where
  "sample_env = \<lparr>e_graphemes = map (\<lambda>ch. [ch]), e_frame_hash = (\<lambda>t r w. of_nat (length t)), e_parse = (\<lambda>_. None),
     e_snapshot = (\<lambda>_. None), e_raw_pane = (\<lambda>_. None), e_raw_workspace = (\<lambda>_. None), e_raw_tab = (\<lambda>_. None),
     e_to_f64 = (\<lambda>_. 0), e_debug_str = id\<rparr>"

definition ok_calls :: "unit herdr_calls" where
  "ok_calls =
     \<lparr>c_pane_send_text = (\<lambda>_ _ h. (h, Ok ())), c_session_snapshot = (\<lambda>h. (h, Ok JNull)), c_pane_layout = (\<lambda>_ h. (h, Ok JNull)),
      c_pane_read_visible = (\<lambda>_ h. (h, Ok JNull)), c_pane_read_recent = (\<lambda>_ _ h. (h, Ok JNull)),
      c_pane_send_input = (\<lambda>_ _ _ h. (h, Ok ())), c_agent_prompt = (\<lambda>_ _ h. (h, Ok ())), c_agent_focus = (\<lambda>_ h. (h, Ok ())),
      c_workspace_create = (\<lambda>_ h. (h, Ok [])), c_tab_create = (\<lambda>_ h. (h, Ok [])), c_pane_split = (\<lambda>_ h. (h, Ok [])),
      c_pane_zoom = (\<lambda>_ _ h. (h, Ok ())), c_pane_close = (\<lambda>_ h. (h, Ok ())), c_pane_rename = (\<lambda>_ _ h. (h, Ok ())),
      c_pane_resize = (\<lambda>_ _ _ h. (h, Ok ())), c_plugin_action_list = (\<lambda>h. (h, Ok JNull)),
      c_plugin_action_invoke = (\<lambda>_ h. (h, Ok JNull))\<rparr>"

lemma sample_segmentation: "segmentation (e_graphemes sample_env)"
  by (simp add: segmentation_def sample_env_def take_map drop_map)

definition line_request :: "string \<Rightarrow> string \<Rightarrow> send_input_req" where
  "line_request p tx = \<lparr>si_pane_id = p, si_line = Some tx, si_text = None, si_keys = None, si_defer = None, si_bypass_line = None\<rparr>"

definition sample_config :: "f64 relay_config" where
  "sample_config =
     \<lparr>rc_socket_timeout_ms = 5, rc_max_response_bytes = 64, rc_debounce_ms = 3, rc_poll_ms = 4, rc_input_read_ms = [1],
      rc_max_reads_per_second = 8, rc_attached_panes_per_device = 1, rc_max_scrollback_lines = 10,
      rc_reconnect_initial_ms = 1, rc_reconnect_max_ms = 8, rc_reconnect_jitter = 0, rc_reconnect_reset_after_s = 3,
      rc_relay_origin = [], rc_host_connect_origin = []\<rparr>"

definition sample_bridge :: "(unit \<times> input_log) bridge" where
  "sample_bridge = (bridge_new ((), []) ''h'' ''n'' sample_config)\<lparr>br_watched := Some
     \<lparr>wp_pane_id = ''p'', wp_last_revision = 0, wp_viewport_rows = 24, wp_width = 80, wp_last_frame_hash = 0\<rparr>\<rparr>"

lemma sample_inputs:
  "snd (br_herdr (send_inputs sample_env (logged ok_calls) [(0, line_request ''p'' ''abc''), (1, line_request ''p'' ''axy'')] sample_bridge))
     = [(''p'', TText ''abc''), (''p'', TKeys [''Backspace'', ''Backspace'']), (''p'', TText ''xy'')]"
  by code_simp


text \<open>Reconciling a line ends, with few calls: it sends the backspaces in at most one batch for every
  64 graphemes of the old text, none larger than 64, then at most one text, whatever fails.\<close>

theorem line_sync_batches:
  assumes "segmentation (e_graphemes env)" "ESC \<notin> set tx" "reconcile_line env (logged c) p old tx b = (b', old', r)"
  shows "\<exists>ks tl. snd (br_herdr b') = snd (br_herdr b) @ map (\<lambda>k. (p, TKeys (replicate k ''Backspace''))) ks @ map (Pair p) tl
    \<and> (\<forall>k\<in>set ks. k \<le> 64) \<and> length ks \<le> (length (e_graphemes env old) + 63) div 64 \<and> length tl \<le> 1"
proof -
  obtain ks tl where k: "ran env p b b' (map (\<lambda>k. TKeys (replicate k ''Backspace'')) ks @ tl) old (if is_ok r then tx else old')"
    "\<forall>k\<in>set ks. k \<le> 64" "length ks \<le> (length (e_graphemes env old) + 63) div 64" "length tl \<le> 1"
    using reconcile_ran [OF assms] by blast
  then show ?thesis by (intro exI [of _ ks] exI [of _ tl]) (simp add: ran_def o_def)
qed

theorem line_sync_batches_witness:
  "\<exists>ks tl. snd (br_herdr (fst (reconcile_line sample_env (logged ok_calls) ''p'' (replicate 70 CHR ''a'') ''b'' sample_bridge)))
      = map (\<lambda>k. (''p'', TKeys (replicate k ''Backspace''))) ks @ map (Pair ''p'') tl \<and> length ks \<le> 2 \<and> length tl \<le> 1"
proof -
  obtain b' old' r where rec: "reconcile_line sample_env (logged ok_calls) ''p'' (replicate 70 CHR ''a'') ''b'' sample_bridge = (b', old', r)"
    by (metis prod_cases3)
  have "snd (br_herdr sample_bridge) = []" "length (e_graphemes sample_env (replicate 70 CHR ''a'')) = 70"
    by (simp_all add: sample_bridge_def bridge_new_def sample_env_def)
  then show ?thesis using line_sync_batches [OF sample_segmentation _ rec] by (auto simp: rec ESC_def)
qed

section \<open>Only the watched pane is written to\<close>

definition sent_to :: "string \<Rightarrow> ('h \<times> input_log) bridge \<Rightarrow> ('h \<times> input_log) bridge \<Rightarrow> bool" where
  "sent_to p b b' \<longleftrightarrow> (\<exists>new. snd (br_herdr b') = snd (br_herdr b) @ map (Pair p) new)"

lemma sent_to_refl [simp, intro]: "sent_to p b b"
  by (auto simp: sent_to_def intro: exI [of _ "[]"])

lemma sent_to_trans: "sent_to p b b1 \<Longrightarrow> sent_to p b1 b2 \<Longrightarrow> sent_to p b b2"
  unfolding sent_to_def by (metis append_assoc map_append)

lemma ran_sent_to: "ran env p b b' new s s' \<Longrightarrow> sent_to p b b'"
  by (auto simp: ran_def sent_to_def)

lemma send_sent_to:
  "on_herdr (c_pane_send_input (logged c) p None (Some ks)) b = (b', r) \<Longrightarrow> sent_to p b b'"
  "send_typed_text (logged c) p t b = (b', r) \<Longrightarrow> sent_to p b b'"
  by (blast intro: ran_sent_to send_keys_ran send_typed_text_ran)+

lemma forward_sent_to:
  assumes "forward_input env (logged c) request shadow b = (b', sh, r)"
  shows "sent_to (si_pane_id request) b b'"
proof -
  obtain b1 sh1 r1 where f1: "forward_text (logged c) request shadow b = (b1, sh1, r1)" by (metis prod_cases3)
  have first: "sent_to (si_pane_id request) b b1"
    using f1 send_sent_to(2) by (fastforce simp: forward_text_def split: option.splits prod.splits sum.splits)
  show ?thesis
  proof (cases "is_ok r1 \<and> si_keys request \<noteq> None")
    case False
    then have "b' = b1" using assms f1 by (cases r1) (auto simp: forward_input_def split: option.splits)
    then show ?thesis using first by simp
  next
    case True
    then obtain keys where keys: "si_keys request = Some keys" "is_ok r1" by auto
    obtain b2 r2 where t: "on_herdr (c_pane_send_input (logged c) (si_pane_id request) None (Some keys)) b1 = (b2, r2)" by force
    then have "b' = b2" using assms f1 keys by (cases r1; cases r2) (auto simp: forward_input_def)
    then show ?thesis using sent_to_trans [OF first send_sent_to(1) [OF t]] by simp
  qed
qed

lemma erase_sent_to: "erase env (logged c) p n remaining old b = (b', old', r) \<Longrightarrow> sent_to p b b'"
proof (induction remaining arbitrary: old b rule: less_induct)
  case (less remaining)
  show ?case
  proof (cases "remaining = 0 \<or> n = 0")
    case True
    then show ?thesis using less.prems by (auto simp: erase.simps)
  next
    case False
    define m where "m = min remaining n"
    obtain b1 r1 where st: "on_herdr (c_pane_send_input (logged c) p None (Some (replicate m ''Backspace''))) b = (b1, r1)" by force
    show ?thesis
    proof (cases r1)
      case (Inl e)
      then show ?thesis using less.prems False st send_sent_to(1) [OF st]
        by (auto simp: erase.simps [of env "logged c" p n remaining] m_def Let_def)
    next
      case (Inr u)
      then have "sent_to p b1 b'"
        using less.prems False st less.IH [of "remaining - m" _ b1]
        by (auto simp: erase.simps [of env "logged c" p n remaining] m_def Let_def)
      then show ?thesis using sent_to_trans [OF send_sent_to(1) [OF st]] by blast
    qed
  qed
qed

lemma reconcile_sent_to:
  assumes "reconcile_line env (logged c) p old tx b = (b', old', r)"
  shows "sent_to p b b'"
proof -
  let ?pb = "common_prefix_bytes env old tx"
  define rm where "rm = length (e_graphemes env (drop ?pb old))"
  obtain b1 old1 r1 where er: "(if rm \<noteq> 0 then erase env (logged c) p (min rm 64) rm old b else (b, old, Ok ())) = (b1, old1, r1)"
    by (metis prod_cases3)
  have first: "sent_to p b b1" using er erase_sent_to by (fastforce split: if_splits)
  obtain b2 r2 where s: "send_typed_text (logged c) p (drop ?pb tx) b1 = (b2, r2)" by force
  have "b' = b1 \<or> b' = b2"
    using assms unfolding reconcile_line_def Let_def rm_def [symmetric] er by (cases r1) (auto simp: s split: if_splits)
  then show ?thesis using first sent_to_trans [OF first send_sent_to(2) [OF s]] by blast
qed

lemma apply_input_sent_to:
  assumes "apply_input env (logged c) request b = (b', accepted, changed)"
  shows "sent_to (si_pane_id request) b b'"
proof -
  have s: "sent_to p b1 (set_shadow q x b2) = sent_to p b1 b2" for p q x b1 b2
    by (simp add: sent_to_def set_shadow_def)
  show ?thesis
    using assms forward_sent_to reconcile_sent_to
    by (fastforce simp: apply_input_def Let_def s split: if_splits option.splits prod.splits)
qed

text \<open>C20: Input reaches only the pane the Device watches: a request for another pane or one that fails
  validation changes nothing and sends nothing, and whatever Herdr accepts for a valid request is for the
  watched pane. This covers input that bypasses the line.\<close>

theorem input_only_to_watched:
  assumes "send_input env (logged c) now request b = (b', r)"
  shows "(watched_pane_id b \<noteq> Some (si_pane_id request) \<longrightarrow> b' = b \<and> r = Err (W_NotWatching (si_pane_id request))) \<and>
      (validate_send_input env request \<noteq> Ok () \<longrightarrow> b' = b \<and> \<not> is_ok r) \<and>
      (\<exists>new. snd (br_herdr b') = snd (br_herdr b) @ map (Pair (si_pane_id request)) new)"
proof (rule conjI [OF impI conjI [OF impI _]])
  show "b' = b \<and> r = Err (W_NotWatching (si_pane_id request))" if "watched_pane_id b \<noteq> Some (si_pane_id request)"
    using assms that by (simp add: send_input_def require_watched_def watches_def)
  show inv: "b' = b \<and> \<not> is_ok r" if "validate_send_input env request \<noteq> Ok ()"
    using assms that by (auto simp: send_input_def split: sum.splits)
  have "sent_to (si_pane_id request) b b'"
  proof (cases "watches (si_pane_id request) b \<and> is_ok (validate_send_input env request)")
    case False
    then have "b' = b"
      using assms by (auto simp: send_input_def require_watched_def split: sum.splits if_splits)
    then show ?thesis by simp
  next
    case True
    let ?b1 = "if si_bypass_line request \<noteq> Some True \<and> interrupts request then cancel_pending_inputs b else b"
    obtain b2 accepted changed where a: "apply_input env (logged c) request ?b1 = (b2, accepted, changed)" by (metis prod_cases3)
    have "br_herdr b' = br_herdr b2"
      using assms True a by (auto simp: send_input_def require_watched_def Let_def split: sum.splits if_splits)
    then have "sent_to (si_pane_id request) ?b1 b'"
      using apply_input_sent_to [OF a] by (simp add: sent_to_def)
    then show ?thesis by (simp add: sent_to_def cancel_same split: if_splits)
  qed
  then show "\<exists>new. snd (br_herdr b') = snd (br_herdr b) @ map (Pair (si_pane_id request)) new"
    by (simp add: sent_to_def)
qed

theorem input_only_to_watched_witness:
  "send_input sample_env (logged ok_calls) 0 (line_request ''q'' ''x'') sample_bridge = (sample_bridge, Err (W_NotWatching ''q''))"
proof -
  obtain b' r where s: "send_input sample_env (logged ok_calls) 0 (line_request ''q'' ''x'') sample_bridge = (b', r)" by force
  have q: "si_pane_id (line_request ''q'' ''x'') = ''q''" by (simp add: line_request_def)
  then have "watched_pane_id sample_bridge \<noteq> Some (si_pane_id (line_request ''q'' ''x''))"
    by (simp add: watched_pane_id_def sample_bridge_def bridge_new_def)
  then show ?thesis using input_only_to_watched [OF s] by (simp add: s q)
qed

end
