(* ===== verification/Held_Input.thy ===== *)
theory Held_Input
  imports Watch_Input
begin

text \<open>
  \<open>herdr-relay/src/watch/held_input.rs\<close>: the submit that waits for an agent to stop working. At most one is
  held in a session; every request is answered once.
\<close>

section \<open>Deferred input\<close>

definition take_input_replies :: "'h bridge \<Rightarrow> 'h bridge \<times> outgoing list" where
  "take_input_replies b = (b\<lparr>br_replies := []\<rparr>, br_replies b)"

definition deferred_cancel :: "send_input_req \<Rightarrow> 'h bridge \<Rightarrow> 'h bridge \<times> (app_message, watch_error) result" where
  "deferred_cancel request b =
     (if si_line request \<noteq> None \<or> si_text request \<noteq> None \<or> si_keys request \<noteq> None
      then (b, Err (W_InvalidInput ''cancel cannot include line, text, or keys''))
      else
        ((case br_pending b of Some p \<Rightarrow> if pi_pane_id p = si_pane_id request then cancel_pending_inputs b else b | None \<Rightarrow> b),
         Ok (input_ack (si_pane_id request) True False)))"

definition deferred_until_idle :: "watch_env \<Rightarrow> 'h herdr_calls \<Rightarrow> instant \<Rightarrow> send_input_req \<Rightarrow> string option \<Rightarrow> 'h bridge \<Rightarrow> 'h bridge \<times> (app_message, watch_error) result" where
  "deferred_until_idle env c now request corr b =
     (case require_watched (si_pane_id request) b of
        Err e \<Rightarrow> (b, Err e)
      | Ok _ \<Rightarrow>
          if si_line request \<noteq> None \<or> si_text request \<noteq> None
             \<or> \<not> (case si_keys request of None \<Rightarrow> False | Some keys \<Rightarrow> \<exists>key\<in>set keys. eq_ignore_ascii_case key ''Enter'')
          then (b, Err (W_InvalidInput ''until_idle requires keys containing Enter and no line or text''))
          else (case validate_send_input env request of
             Err e \<Rightarrow> (b, Err e)
           | Ok _ \<Rightarrow>
               (case fetch_snapshot env c b of
                  (b1, Err _) \<Rightarrow> (b1, Ok (input_ack (si_pane_id request) False False))
                | (b1, Ok snapshot) \<Rightarrow>
                    let working = (\<exists>agent\<in>set (rs_agents snapshot). ra_pane_id agent = si_pane_id request \<and> ra_agent_status agent = ''working'');
                        b2 = cancel_pending_inputs b1 in
                    if working
                    then (b2\<lparr>br_pending := Some \<lparr>pi_pane_id = si_pane_id request,
                            pi_keys = (case si_keys request of Some ks \<Rightarrow> ks | None \<Rightarrow> []), pi_corr = corr\<rparr>\<rparr>,
                          Ok (input_ack (si_pane_id request) True True))
                    else send_input env c now request b2)))"

definition deferred_result :: "watch_env \<Rightarrow> 'h herdr_calls \<Rightarrow> instant \<Rightarrow> send_input_req \<Rightarrow> string option \<Rightarrow> 'h bridge \<Rightarrow> 'h bridge \<times> (app_message, watch_error) result" where
  "deferred_result env c now request corr b =
     (if si_bypass_line request = Some True then send_input env c now request b
      else case si_defer request of
             Some CancelHeld \<Rightarrow> deferred_cancel (request\<lparr>si_defer := None\<rparr>) b
           | Some UntilIdle \<Rightarrow> deferred_until_idle env c now (request\<lparr>si_defer := None\<rparr>) corr b
           | None \<Rightarrow> send_input env c now request b)"

definition handle_deferred_input :: "watch_env \<Rightarrow> 'h herdr_calls \<Rightarrow> instant \<Rightarrow> send_input_req \<Rightarrow> string option \<Rightarrow> 'h bridge \<Rightarrow> 'h bridge \<times> outgoing list" where
  "handle_deferred_input env c now request corr b =
     (case deferred_result env c now request corr b of (b1, r) \<Rightarrow>
        take_input_replies (b1\<lparr>br_replies := br_replies b1 @
          [(case r of Ok m \<Rightarrow> m | Err _ \<Rightarrow> input_ack (si_pane_id request) False False, corr)]\<rparr>))"

definition release_pending_input :: "watch_env \<Rightarrow> 'h herdr_calls \<Rightarrow> instant \<Rightarrow> string \<Rightarrow> 'h bridge \<Rightarrow> 'h bridge" where
  "release_pending_input env c now pane_id b =
     (if br_session_active b = Some False then cancel_pending_inputs b
      else case br_pending b of
             None \<Rightarrow> b
           | Some p \<Rightarrow>
               if pi_pane_id p \<noteq> pane_id then b
               else
                 let request = \<lparr>si_pane_id = pi_pane_id p, si_line = None, si_text = None, si_keys = Some (pi_keys p),
                       si_defer = None, si_bypass_line = None\<rparr> in
                 case send_input env c now request (b\<lparr>br_pending := None\<rparr>) of (b1, r) \<Rightarrow>
                   b1\<lparr>br_replies := br_replies b1 @
                     [(case r of Ok m \<Rightarrow> m | Err _ \<Rightarrow> input_ack (pi_pane_id p) False False, pi_corr p)]\<rparr>)"

section \<open>Every request is answered once\<close>

text \<open>
  The operations that touch the held submit, in any order: a deferred request with its correlation, a plain
  input, a status event that releases, a cancellation, the end of the session, the taking of the replies, and
  any other change of the bridge that leaves the held submit and the replies alone.
\<close>

datatype 'h held_op =
    HandleDeferred instant send_input_req "string option"
  | PlainInput instant send_input_req
  | ReleaseHeld instant string
  | CancelHeldNow
  | TakeReplies
  | Elsewhere "'h bridge \<Rightarrow> 'h bridge"

definition keeps_held :: "('h bridge \<Rightarrow> 'h bridge) \<Rightarrow> bool" where
  "keeps_held f \<longleftrightarrow> (\<forall>b. br_pending (f b) = br_pending b \<and> br_replies (f b) = br_replies b)"

fun held_allowed :: "'h held_op \<Rightarrow> bool" where
  "held_allowed (Elsewhere f) = keeps_held f"
| "held_allowed _ = True"

text \<open>The state is the bridge, the replies handed out so far and the correlations asked so far.\<close>

type_synonym 'h held_state = "'h bridge \<times> outgoing list \<times> string option list"

fun held_exec :: "watch_env \<Rightarrow> 'h herdr_calls \<Rightarrow> 'h held_op \<Rightarrow> 'h held_state \<Rightarrow> 'h held_state" where
  "held_exec env c (HandleDeferred now request corr) (b, out, asked) =
     (case handle_deferred_input env c now request corr b of (b1, rs) \<Rightarrow> (b1, out @ rs, asked @ [corr]))"
| "held_exec env c (PlainInput now request) (b, out, asked) = (fst (send_input env c now request b), out, asked)"
| "held_exec env c (ReleaseHeld now p) (b, out, asked) = (release_pending_input env c now p b, out, asked)"
| "held_exec env c CancelHeldNow (b, out, asked) = (cancel_pending_inputs b, out, asked)"
| "held_exec env c TakeReplies (b, out, asked) = (case take_input_replies b of (b1, rs) \<Rightarrow> (b1, out @ rs, asked))"
| "held_exec env c (Elsewhere f) (b, out, asked) = (f b, out, asked)"

fun is_final :: "app_message \<Rightarrow> bool" where
  "is_final (M_SendInputAck a) = (\<not> sa_queued a)"
| "is_final _ = False"

definition finals :: "string option \<Rightarrow> outgoing list \<Rightarrow> nat" where
  "finals corr out = length (filter (\<lambda>(m, k). is_final m \<and> k = corr) out)"

definition held_for :: "string option \<Rightarrow> 'h bridge \<Rightarrow> nat" where
  "held_for corr b = (case br_pending b of Some p \<Rightarrow> if pi_corr p = corr then 1 else 0 | None \<Rightarrow> 0)"

definition answered_once :: "'h held_state \<Rightarrow> bool" where
  "answered_once s \<longleftrightarrow> (case s of (b, out, asked) \<Rightarrow>
     \<forall>corr. finals corr (out @ br_replies b) + held_for corr b = length (filter (\<lambda>k. k = corr) asked))"

lemma finals_append [simp]: "finals corr (a @ b) = finals corr a + finals corr b"
  by (simp add: finals_def)

lemma finals_Nil [simp]: "finals corr [] = 0"
  by (simp add: finals_def)

lemma finals_single [simp]: "finals corr [(m, k)] = (if is_final m \<and> k = corr then 1 else 0)"
  by (simp add: finals_def)

lemma is_final_ack [simp]: "is_final (input_ack p a q) = (\<not> q)"
  by (simp add: input_ack_def)

text \<open>What an operation owes: the final replies it queued and the submit it holds.\<close>

definition due_for :: "string option \<Rightarrow> 'h bridge \<Rightarrow> nat" where
  "due_for corr b = finals corr (br_replies b) + held_for corr b"

lemma cancel_due [simp]: "due_for corr (cancel_pending_inputs b) = due_for corr b"
  by (simp add: due_for_def cancel_pending_inputs_def held_for_def split: option.splits)

lemma cancel_pending [simp]: "br_pending (cancel_pending_inputs b) = None"
  by (simp add: cancel_pending_inputs_def split: option.splits)

lemma herdr_due [simp]: "due_for corr (b\<lparr>br_herdr := h\<rparr>) = due_for corr b" "br_pending (b\<lparr>br_herdr := h\<rparr>) = br_pending b"
  by (simp_all add: due_for_def held_for_def)

text \<open>The pieces of \<open>send_input\<close> leave the held submit, the replies and the watch alone.\<close>

definition held_same :: "'h bridge \<Rightarrow> 'h bridge \<Rightarrow> bool" where
  "held_same b b' \<longleftrightarrow> br_pending b' = br_pending b \<and> br_replies b' = br_replies b \<and> br_watched b' = br_watched b
     \<and> br_session_active b' = br_session_active b \<and> (br_scheduler b' = None \<longleftrightarrow> br_scheduler b = None)"

lemma held_same_refl [simp]: "held_same b b" by (simp add: held_same_def)

lemma held_same_trans: "held_same b b1 \<Longrightarrow> held_same b1 b2 \<Longrightarrow> held_same b b2" by (simp add: held_same_def)

lemma held_same_due: "held_same b b' \<Longrightarrow> due_for corr b' = due_for corr b"
  by (simp add: held_same_def due_for_def held_for_def)

lemma on_herdr_same: "on_herdr c b = (b', r) \<Longrightarrow> held_same b b'"
  by (auto simp: on_herdr_def held_same_def split: prod.splits)

lemma typed_same: "send_typed_text c p t b = (b', r) \<Longrightarrow> held_same b b'"
  by (auto simp: send_typed_text_def dest: on_herdr_same split: if_splits)

lemma forward_same: "forward_input env c request sh b = (b', sh', r) \<Longrightarrow> held_same b b'"
  unfolding forward_input_def forward_text_def
  by (fastforce dest: on_herdr_same typed_same intro: held_same_trans split: prod.splits sum.splits option.splits)

lemma erase_same: "erase env c p n remaining old b = (b', old', r) \<Longrightarrow> held_same b b'"
proof (induction remaining arbitrary: old b rule: less_induct)
  case (less remaining)
  show ?case
  proof (cases "remaining = 0 \<or> n = 0")
    case True
    then show ?thesis using less.prems by (auto simp: erase.simps)
  next
    case False
    define m where "m = min remaining n"
    obtain b1 r1 where st: "on_herdr (c_pane_send_input c p None (Some (replicate m ''Backspace''))) b = (b1, r1)" by force
    then show ?thesis
      using less.prems False on_herdr_same [OF st] less.IH [of "remaining - m" _ b1]
      by (cases r1) (auto simp: erase.simps [of env c p n remaining] m_def Let_def intro: held_same_trans)
  qed
qed

lemma reconcile_same: "reconcile_line env c p old tx b = (b', old', r) \<Longrightarrow> held_same b b'"
  unfolding reconcile_line_def Let_def
  by (fastforce dest: erase_same typed_same intro: held_same_trans split: prod.splits sum.splits if_splits)

lemma apply_input_same:
  assumes "apply_input env c request b = (b', accepted, changed)"
  shows "held_same b b'"
proof -
  have s: "held_same b1 (set_shadow q x b2) = held_same b1 b2" for q x b1 b2
    by (simp add: held_same_def set_shadow_def)
  show ?thesis
    using assms
    by (fastforce simp: apply_input_def Let_def s dest: forward_same reconcile_same split: if_splits option.splits prod.splits)
qed

lemma send_input_due:
  assumes "send_input env c now request b = (b', r)"
  shows "due_for corr b' = due_for corr b" "br_pending b = None \<Longrightarrow> br_pending b' = None"
    "r = Ok m \<Longrightarrow> is_final m"
proof -
  have "due_for corr b' = due_for corr b \<and> (br_pending b = None \<longrightarrow> br_pending b' = None) \<and> (r = Ok m \<longrightarrow> is_final m)"
  proof (cases "is_ok (require_watched (si_pane_id request) b) \<and> is_ok (validate_send_input env request)")
    case False
    then show ?thesis using assms by (auto simp: send_input_def split: sum.splits)
  next
    case True
    let ?b1 = "if si_bypass_line request \<noteq> Some True \<and> interrupts request then cancel_pending_inputs b else b"
    obtain b2 accepted changed where a: "apply_input env c request ?b1 = (b2, accepted, changed)" by (metis prod_cases3)
    have s: "b' = (if accepted \<or> changed then b2\<lparr>br_scheduler := map_option (on_input_sent now) (br_scheduler b2)\<rparr> else b2)"
      "r = Ok (input_ack (si_pane_id request) accepted False)"
      using assms True a by (auto simp: send_input_def Let_def split: sum.splits)
    have "held_same b2 b'" by (simp add: s(1) held_same_def)
    then have h: "held_same ?b1 b'" using apply_input_same [OF a] held_same_trans by blast
    have "due_for corr ?b1 = due_for corr b" "br_pending b = None \<longrightarrow> br_pending ?b1 = None" by simp_all
    then show ?thesis using held_same_due [OF h] h s(2) by (auto simp: held_same_def)
  qed
  then show "due_for corr b' = due_for corr b" "br_pending b = None \<Longrightarrow> br_pending b' = None"
    "r = Ok m \<Longrightarrow> is_final m" by blast+
qed

lemma fetch_snapshot_same: "fetch_snapshot env c b = (b', r) \<Longrightarrow> held_same b b'"
  by (auto simp: fetch_snapshot_def dest: on_herdr_same split: prod.splits sum.splits)

definition reply_of :: "send_input_req \<Rightarrow> (app_message, watch_error) result \<Rightarrow> app_message" where
  "reply_of request r = (case r of Ok m \<Rightarrow> m | Err _ \<Rightarrow> input_ack (si_pane_id request) False False)"

definition owes :: "string option \<Rightarrow> bool \<Rightarrow> string option \<Rightarrow> nat" where
  "owes corr yes k = (if yes \<and> k = corr then 1 else 0)"

lemma send_input_owes:
  assumes "send_input env c now request b = (b', r)"
  shows "due_for k b' + owes corr (is_final (reply_of request' r)) k = due_for k b + owes corr True k"
  using send_input_due [OF assms] by (cases r) (auto simp: reply_of_def)

lemma until_idle_owes:
  assumes "deferred_until_idle env c now request corr b = (b', r)"
  shows "due_for k b' + owes corr (is_final (reply_of request r)) k = due_for k b + owes corr True k"
proof (cases "is_ok (require_watched (si_pane_id request) b) \<and> si_line request = None \<and> si_text request = None
    \<and> (case si_keys request of None \<Rightarrow> False | Some keys \<Rightarrow> \<exists>key\<in>set keys. eq_ignore_ascii_case key ''Enter'')
    \<and> is_ok (validate_send_input env request)")
  case False
  then have "b' = b \<and> \<not> is_ok r"
    using assms by (auto simp: deferred_until_idle_def split: sum.splits if_splits)
  then show ?thesis by (cases r) (auto simp: reply_of_def)
next
  case True
  obtain b1 sn where f: "fetch_snapshot env c b = (b1, sn)" by force
  have d1: "due_for k b1 = due_for k b" using fetch_snapshot_same [OF f] held_same_due by blast
  show ?thesis
  proof (cases sn)
    case (Inl e)
    then have "b' = b1" "r = Ok (input_ack (si_pane_id request) False False)"
      using assms True f by (auto simp: deferred_until_idle_def split: sum.splits if_splits)
    then show ?thesis using d1 by (simp add: reply_of_def)
  next
    case (Inr snapshot)
    let ?w = "\<exists>agent\<in>set (rs_agents snapshot). ra_pane_id agent = si_pane_id request \<and> ra_agent_status agent = ''working''"
    let ?b2 = "cancel_pending_inputs b1"
    show ?thesis
    proof (cases ?w)
      case w: True
      have b': "b' = ?b2\<lparr>br_pending := Some \<lparr>pi_pane_id = si_pane_id request,
            pi_keys = (case si_keys request of Some ks \<Rightarrow> ks | None \<Rightarrow> []), pi_corr = corr\<rparr>\<rparr>"
        "r = Ok (input_ack (si_pane_id request) True True)"
        using assms True f Inr w by (auto simp: deferred_until_idle_def Let_def split: sum.splits if_splits)
      have "due_for k b' = due_for k ?b2 + owes corr True k"
        unfolding b'(1) by (auto simp: due_for_def held_for_def owes_def)
      then show ?thesis using d1 b'(2) by (simp add: reply_of_def owes_def)
    next
      case False
      then have "send_input env c now request ?b2 = (b', r)"
        using assms True f Inr by (auto simp: deferred_until_idle_def Let_def split: sum.splits if_splits)
      from send_input_owes [OF this, of k corr request] show ?thesis using d1 by simp
    qed
  qed
qed

lemma deferred_result_owes:
  assumes "deferred_result env c now request corr b = (b', r)"
  shows "due_for k b' + owes corr (is_final (reply_of request r)) k = due_for k b + owes corr True k"
proof -
  have cancel: "deferred_cancel request' b = (b', r) \<Longrightarrow> due_for k b' = due_for k b \<and> is_final (reply_of request r)" for request'
    by (auto simp: deferred_cancel_def reply_of_def split: if_splits option.splits)
  have same: "reply_of (request\<lparr>si_defer := None\<rparr>) r = reply_of request r" by (cases r) (simp_all add: reply_of_def)
  show ?thesis
    using assms send_input_owes [of env c now request b b' r k corr request] cancel
      until_idle_owes [of env c now "request\<lparr>si_defer := None\<rparr>" corr b b' r k] same
    by (auto simp: deferred_result_def owes_def split: if_splits option.splits defer_mode.splits)
qed

lemma handle_deferred_once:
  assumes "handle_deferred_input env c now request corr b = (b', rs)"
  shows "finals k rs + due_for k b' = due_for k b + owes corr True k"
proof -
  obtain b1 r where d: "deferred_result env c now request corr b = (b1, r)" by force
  have "rs = br_replies b1 @ [(reply_of request r, corr)]" "b' = b1\<lparr>br_replies := []\<rparr>"
    using assms d by (auto simp: handle_deferred_input_def take_input_replies_def reply_of_def)
  then have "finals k rs + due_for k b' = due_for k b1 + owes corr (is_final (reply_of request r)) k"
    by (auto simp: due_for_def held_for_def owes_def)
  then show ?thesis using deferred_result_owes [OF d] by simp
qed

lemma release_due: "due_for k (release_pending_input env c now p b) = due_for k b"
proof (cases "br_session_active b = Some False \<or> br_pending b = None \<or> (\<exists>q. br_pending b = Some q \<and> pi_pane_id q \<noteq> p)")
  case True
  then show ?thesis by (auto simp: release_pending_input_def split: option.splits)
next
  case False
  then obtain q where q: "br_pending b = Some q" "pi_pane_id q = p" "br_session_active b \<noteq> Some False" by auto
  let ?req = "\<lparr>si_pane_id = pi_pane_id q, si_line = None, si_text = None, si_keys = Some (pi_keys q), si_defer = None, si_bypass_line = None\<rparr>"
  obtain b1 r where s: "send_input env c now ?req (b\<lparr>br_pending := None\<rparr>) = (b1, r)" by force
  have rel: "release_pending_input env c now p b = b1\<lparr>br_replies := br_replies b1 @ [(reply_of ?req r, pi_corr q)]\<rparr>"
    using q s by (auto simp: release_pending_input_def Let_def reply_of_def split: sum.splits)
  have "is_final (reply_of ?req r)" using send_input_due(3) [OF s] by (cases r) (auto simp: reply_of_def)
  moreover have "br_pending b1 = None" using send_input_due(2) [OF s] by simp
  moreover have "due_for k b1 = due_for k (b\<lparr>br_pending := None\<rparr>)" by (rule send_input_due(1) [OF s])
  ultimately show ?thesis by (auto simp: rel due_for_def held_for_def q(1))
qed

interpretation held_ops: preserved "held_exec env c" held_allowed answered_once
  for env :: watch_env and c :: "'h herdr_calls"
proof (unfold_locales, goal_cases)
  case (1 s op)
  obtain b out asked where s: "s = (b, out, asked)" by (metis prod_cases3)
  have a: "finals k out + due_for k b = length (filter (\<lambda>j. j = k) asked)" for k
    using 1(1) by (simp add: s answered_once_def due_for_def add.assoc)
  have fin: "answered_once (b', out @ rs, asked @ more)"
    if "\<And>k. finals k rs + due_for k b' = due_for k b + length (filter (\<lambda>j. j = k) more)" for b' rs more
    using a that unfolding answered_once_def due_for_def by (simp add: add.assoc)
  show ?case
  proof (cases op)
    case (HandleDeferred now request corr)
    obtain b1 rs where h: "handle_deferred_input env c now request corr b = (b1, rs)" by force
    show ?thesis using fin [of rs b1 "[corr]"] handle_deferred_once [OF h]
      by (simp add: s HandleDeferred h owes_def eq_commute [of corr])
  next
    case (PlainInput now request)
    obtain b1 r where h: "send_input env c now request b = (b1, r)" by force
    show ?thesis using fin [of "[]" b1 "[]"] send_input_due(1) [OF h] by (simp add: s PlainInput h)
  next
    case (ReleaseHeld now p)
    show ?thesis using fin [of "[]" "release_pending_input env c now p b" "[]"] by (simp add: s ReleaseHeld release_due)
  next
    case CancelHeldNow
    show ?thesis using fin [of "[]" "cancel_pending_inputs b" "[]"] by (simp add: s CancelHeldNow)
  next
    case TakeReplies
    show ?thesis using fin [of "br_replies b" "b\<lparr>br_replies := []\<rparr>" "[]"]
      by (simp add: s TakeReplies take_input_replies_def due_for_def held_for_def)
  next
    case (Elsewhere f)
    then show ?thesis using fin [of "[]" "f b" "[]"] 1(2) by (simp add: s keeps_held_def due_for_def held_for_def)
  qed
qed

text \<open>C11: Every deferred request is answered exactly once. After any sequence of deferred requests, inputs,
  releases, cancellations and other steps, over a Herdr that may fail at any call, the final answers for a
  correlation, handed out or queued, and the submit still held for it are together as many as the requests
  made with it; and when the session ends with the cancellation of what is held, every request has its answer.\<close>

theorem deferred_answered_once:
  assumes "list_all held_allowed ops" "br_pending b = None" "br_replies b = []"
    and "fold (held_exec env c) ops (b, [], []) = (b', out, asked)"
    and "fold (held_exec env c) (ops @ [CancelHeldNow, TakeReplies]) (b, [], []) = (b'', out', asked)"
  shows "finals corr (out @ br_replies b') + held_for corr b' = length (filter (\<lambda>k. k = corr) asked) \<and>
      finals corr out' = length (filter (\<lambda>k. k = corr) asked)"
proof -
  have start: "answered_once (b, [], [])" using assms(2,3) by (simp add: answered_once_def held_for_def)
  have "answered_once (b', out, asked)" "answered_once (b'', out', asked)"
    using held_ops.keep_run [OF start assms(1), of env c]
      held_ops.keep_run [OF start, of "ops @ [CancelHeldNow, TakeReplies]" env c] assms(1,4,5) by simp_all
  moreover have "br_pending b'' = None" "br_replies b'' = []"
    using assms(4,5) by (auto simp: take_input_replies_def)
  ultimately show ?thesis by (simp add: answered_once_def held_for_def)
qed

definition working_calls :: "unit herdr_calls" where
  "working_calls = ok_calls\<lparr>c_session_snapshot := \<lambda>h. (h, Ok JNull)\<rparr>"

definition working_env :: watch_env where
  "working_env = sample_env\<lparr>e_snapshot := \<lambda>_. Some \<lparr>rs_workspaces = [], rs_tabs = [], rs_panes = [],
     rs_agents = [\<lparr>ra_agent = ''a'', ra_pane_id = ''p'', ra_agent_status = ''working'', ra_agent_session = None\<rparr>]\<rparr>\<rparr>"

definition submit_request :: send_input_req where
  "submit_request = \<lparr>si_pane_id = ''p'', si_line = None, si_text = None, si_keys = Some [''Enter''], si_defer = Some UntilIdle, si_bypass_line = None\<rparr>"

definition held_bridge :: "unit bridge" where
  "held_bridge = (bridge_new () ''h'' ''n'' sample_config)\<lparr>br_watched := Some
     \<lparr>wp_pane_id = ''p'', wp_last_revision = 0, wp_viewport_rows = 24, wp_width = 80, wp_last_frame_hash = 0\<rparr>\<rparr>"

definition held_sample_ops :: "unit held_op list" where
  "held_sample_ops = [HandleDeferred 1 submit_request (Some ''a''), HandleDeferred 2 submit_request (Some ''b''), ReleaseHeld 3 ''p'']"

lemma held_sample_out:
  "fst (snd (fold (held_exec working_env working_calls) (held_sample_ops @ [CancelHeldNow, TakeReplies]) (held_bridge, [], [])))
     = [(input_ack ''p'' True True, Some ''a''), (input_ack ''p'' False False, Some ''a''), (input_ack ''p'' True True, Some ''b''),
        (input_ack ''p'' True False, Some ''b'')]"
  by code_simp

theorem deferred_answered_once_witness:
  "finals (Some ''a'') (fst (snd (fold (held_exec working_env working_calls) (held_sample_ops @ [CancelHeldNow, TakeReplies]) (held_bridge, [], [])))) = 1"
proof -
  obtain b' out asked where f: "fold (held_exec working_env working_calls) held_sample_ops (held_bridge, [], []) = (b', out, asked)"
    by (metis prod_cases3)
  obtain b'' out' asked' where g: "fold (held_exec working_env working_calls) (held_sample_ops @ [CancelHeldNow, TakeReplies]) (held_bridge, [], []) = (b'', out', asked')"
    by (metis prod_cases3)
  have "asked' = asked" using f g by (auto simp: take_input_replies_def)
  moreover have "asked = [Some ''a'', Some ''b'']"
    using f by (auto simp: held_sample_ops_def split: prod.splits)
  moreover have "list_all held_allowed held_sample_ops" "br_pending held_bridge = None" "br_replies held_bridge = []"
    by (simp_all add: held_sample_ops_def held_bridge_def bridge_new_def)
  ultimately show ?thesis
    using deferred_answered_once [THEN conjunct2, of held_sample_ops held_bridge working_env working_calls b' out asked b'' out'] f g by simp
qed

end
