(* ===== verification/Watch_Actions.thy ===== *)
theory Watch_Actions
  imports Watch_Input
begin

text \<open>
  \<open>herdr-relay/src/watch/input.rs\<close> (agent prompts and host actions) and \<open>plugin_actions.rs\<close>: what a Device
  may ask of Herdr beside input. The parameters sent are JSON objects.
\<close>

definition agent_prompt :: "'h herdr_calls \<Rightarrow> string \<Rightarrow> string \<Rightarrow> 'h bridge \<Rightarrow> 'h bridge \<times> (app_message, watch_error) result" where
  "agent_prompt c target text b =
     (case on_herdr (c_agent_prompt c target text) b of
        (b1, Err e) \<Rightarrow> (b1, Err e)
      | (b1, Ok _) \<Rightarrow> (b1, Ok (M_AgentPromptAck target True)))"

definition mark_seen :: "'h herdr_calls \<Rightarrow> string \<Rightarrow> 'h bridge \<Rightarrow> 'h bridge \<times> (unit, watch_error) result" where
  "mark_seen c pane_id b = on_herdr (c_agent_focus c pane_id) b"

section \<open>Parameters\<close>

fun host_action_debug :: "host_action_kind \<Rightarrow> string" where
  "host_action_debug WorkspaceCreate = ''WorkspaceCreate''"
| "host_action_debug TabCreate = ''TabCreate''"
| "host_action_debug PaneSplit = ''PaneSplit''"
| "host_action_debug Split = ''Split''"
| "host_action_debug Zoom = ''Zoom''"
| "host_action_debug CloseAction = ''Close''"
| "host_action_debug Rename = ''Rename''"
| "host_action_debug Resize = ''Resize''"
| "host_action_debug PluginInvoke = ''PluginInvoke''"

definition require_pane_id :: "host_action_req \<Rightarrow> (string, watch_error) result" where
  "require_pane_id request =
     ok_or (W_InvalidInput (''host_action '' @ host_action_debug (ha_action request) @ '' requires pane_id'')) (ha_pane_id request)"

definition param_f64 :: "watch_env \<Rightarrow> json option \<Rightarrow> string \<Rightarrow> f64 option" where
  "param_f64 env params key = Option.bind (Option.bind params (jget key)) (as_f64 (e_to_f64 env))"

definition require_param_str :: "json option \<Rightarrow> string \<Rightarrow> (string, watch_error) result" where
  "require_param_str params key =
     ok_or (W_InvalidInput (''host_action params missing required field \"'' @ key @ ''\"'')) (get_str key params)"

definition set_opt :: "string \<Rightarrow> json option \<Rightarrow> json \<Rightarrow> json" where
  "set_opt k v j = (case v of Some x \<Rightarrow> jset k x j | None \<Rightarrow> j)"

definition base_create_params :: "json option \<Rightarrow> json" where
  "base_create_params params =
     set_opt ''env'' (Option.bind params (jget ''env''))
       (set_opt ''cwd'' (map_option JStr (get_str ''cwd'' params)) (JObj [(''focus'', JBool False)]))"

section \<open>Host actions\<close>

type_synonym action_outcome = "(bool \<times> string option \<times> string option, watch_error) result"

text \<open>The reply of a creating call: the id it returns, and the pane named in the acknowledgement.\<close>

definition created :: "('h, string) call \<Rightarrow> string option \<Rightarrow> 'h bridge \<Rightarrow> 'h bridge \<times> action_outcome" where
  "created c pane b =
     (case on_herdr c b of (b1, Err e) \<Rightarrow> (b1, Err e) | (b1, Ok i) \<Rightarrow> (b1, Ok (True, pane, Some i)))"

definition performed :: "('h, unit) call \<Rightarrow> string \<Rightarrow> 'h bridge \<Rightarrow> 'h bridge \<times> action_outcome" where
  "performed c pane b =
     (case on_herdr c b of (b1, Err e) \<Rightarrow> (b1, Err e) | (b1, Ok _) \<Rightarrow> (b1, Ok (True, Some pane, None)))"

definition workspace_create_params :: "host_action_req \<Rightarrow> json" where
  "workspace_create_params request =
     set_opt ''label'' (map_option JStr (get_str ''label'' (ha_params request))) (base_create_params (ha_params request))"

definition action_workspace_create :: "'h herdr_calls \<Rightarrow> host_action_req \<Rightarrow> 'h bridge \<Rightarrow> 'h bridge \<times> action_outcome" where
  "action_workspace_create c request b = created (c_workspace_create c (workspace_create_params request)) None b"

definition tab_create_params :: "host_action_req \<Rightarrow> json" where
  "tab_create_params request =
     set_opt ''workspace_id'' (map_option JStr (ha_workspace_id request))
       (set_opt ''label'' (map_option JStr (get_str ''label'' (ha_params request))) (base_create_params (ha_params request)))"

definition action_tab_create :: "'h herdr_calls \<Rightarrow> host_action_req \<Rightarrow> 'h bridge \<Rightarrow> 'h bridge \<times> action_outcome" where
  "action_tab_create c request b = created (c_tab_create c (tab_create_params request)) None b"

definition split_target :: "host_action_req \<Rightarrow> string option" where
  "split_target request =
     (case ha_pane_id request of Some p \<Rightarrow> Some p | None \<Rightarrow> get_str ''target_pane_id'' (ha_params request))"

definition split_create_params :: "watch_env \<Rightarrow> host_action_req \<Rightarrow> string \<Rightarrow> json" where
  "split_create_params env request direction =
     set_opt ''target_pane_id'' (map_option JStr (split_target request))
       (set_opt ''workspace_id'' (map_option JStr (ha_workspace_id request))
         (set_opt ''ratio'' (map_option (\<lambda>x. JNum (Float x)) (param_f64 env (ha_params request) ''ratio''))
           (jset ''direction'' (JStr direction) (base_create_params (ha_params request)))))"

definition action_pane_split_create :: "watch_env \<Rightarrow> 'h herdr_calls \<Rightarrow> host_action_req \<Rightarrow> 'h bridge \<Rightarrow> 'h bridge \<times> action_outcome" where
  "action_pane_split_create env c request b =
     (case require_param_str (ha_params request) ''direction'' of
        Err e \<Rightarrow> (b, Err e)
      | Ok direction \<Rightarrow> created (c_pane_split c (split_create_params env request direction)) (split_target request) b)"

definition action_pane_split_existing :: "'h herdr_calls \<Rightarrow> host_action_req \<Rightarrow> 'h bridge \<Rightarrow> 'h bridge \<times> action_outcome" where
  "action_pane_split_existing c request b =
     (case require_pane_id request of
        Err e \<Rightarrow> (b, Err e)
      | Ok pane_id \<Rightarrow>
          (case require_param_str (ha_params request) ''direction'' of
             Err e \<Rightarrow> (b, Err e)
           | Ok direction \<Rightarrow>
               created (c_pane_split c (JObj [(''target_pane_id'', JStr pane_id), (''direction'', JStr direction), (''focus'', JBool False)]))
                 (Some pane_id) b))"

definition action_pane_zoom :: "'h herdr_calls \<Rightarrow> host_action_req \<Rightarrow> 'h bridge \<Rightarrow> 'h bridge \<times> action_outcome" where
  "action_pane_zoom c request b =
     (case require_pane_id request of
        Err e \<Rightarrow> (b, Err e)
      | Ok pane_id \<Rightarrow>
          performed (c_pane_zoom c pane_id (case get_str ''mode'' (ha_params request) of Some m \<Rightarrow> m | None \<Rightarrow> ''toggle'')) pane_id b)"

definition action_pane_close :: "'h herdr_calls \<Rightarrow> host_action_req \<Rightarrow> 'h bridge \<Rightarrow> 'h bridge \<times> action_outcome" where
  "action_pane_close c request b =
     (case require_pane_id request of Err e \<Rightarrow> (b, Err e) | Ok pane_id \<Rightarrow> performed (c_pane_close c pane_id) pane_id b)"

definition action_pane_rename :: "'h herdr_calls \<Rightarrow> host_action_req \<Rightarrow> 'h bridge \<Rightarrow> 'h bridge \<times> action_outcome" where
  "action_pane_rename c request b =
     (case require_pane_id request of
        Err e \<Rightarrow> (b, Err e)
      | Ok pane_id \<Rightarrow> performed (c_pane_rename c pane_id (get_str ''label'' (ha_params request))) pane_id b)"

definition action_pane_resize :: "watch_env \<Rightarrow> 'h herdr_calls \<Rightarrow> host_action_req \<Rightarrow> 'h bridge \<Rightarrow> 'h bridge \<times> action_outcome" where
  "action_pane_resize env c request b =
     (case require_pane_id request of
        Err e \<Rightarrow> (b, Err e)
      | Ok pane_id \<Rightarrow>
          (case require_param_str (ha_params request) ''direction'' of
             Err e \<Rightarrow> (b, Err e)
           | Ok direction \<Rightarrow> performed (c_pane_resize c pane_id direction (param_f64 env (ha_params request) ''amount'')) pane_id b))"

section \<open>Plugin actions\<close>

definition platform_matches :: "json \<Rightarrow> string \<Rightarrow> bool" where
  "platform_matches action host_platform =
     (case Option.bind (jget ''platforms'' action) as_array of
        None \<Rightarrow> True
      | Some ps \<Rightarrow> \<exists>p\<in>set ps. as_str p = Some host_platform)"

definition str_or_empty :: "string option \<Rightarrow> string" where
  "str_or_empty s = (case s of Some x \<Rightarrow> x | None \<Rightarrow> [])"

definition project_action :: "json \<Rightarrow> action_list_entry" where
  "project_action raw =
     (let contexts = map_option (\<lambda>arr. map the (filter (\<lambda>s. s \<noteq> None) (map as_str arr))) (Option.bind (jget ''contexts'' raw) as_array) in
      \<lparr>al_plugin_id = str_or_empty (get_str ''plugin_id'' (Some raw)), al_action_id = str_or_empty (get_str ''action_id'' (Some raw)),
       al_title = str_or_empty (get_str ''title'' (Some raw)), al_description = get_str ''description'' (Some raw),
       al_contexts = Some (case contexts of Some (x # xs) \<Rightarrow> x # xs | _ \<Rightarrow> [''global''])\<rparr>)"

definition action_list_request :: "'h herdr_calls \<Rightarrow> string \<Rightarrow> 'h bridge \<Rightarrow> 'h bridge \<times> (app_message, watch_error) result" where
  "action_list_request c host_platform b =
     (case on_herdr (c_plugin_action_list c) b of
        (b1, Err e) \<Rightarrow> (b1, Err e)
      | (b1, Ok raw) \<Rightarrow>
          (b1, Ok (M_ActionList (map project_action (filter (\<lambda>a. platform_matches a host_platform)
            (case as_array raw of Some as \<Rightarrow> as | None \<Rightarrow> []))))))"

definition focused_or :: "string option \<Rightarrow> string option \<Rightarrow> json" where
  "focused_or given focused = jopt (case given of Some i \<Rightarrow> Some i | None \<Rightarrow> focused)"

definition build_invocation_context :: "watch_env \<Rightarrow> 'h herdr_calls \<Rightarrow> host_action_req \<Rightarrow> 'h bridge \<Rightarrow> 'h bridge \<times> (json, watch_error) result" where
  "build_invocation_context env c request b =
     (case fetch_snapshot env c b of
        (b1, Err e) \<Rightarrow> (b1, Err e)
      | (b1, Ok raw) \<Rightarrow>
          let tree = map_snapshot b1 raw in
          (b1, Ok (JObj
            [(''focused_workspace_id'', focused_or (ha_workspace_id request) (map_option ws_workspace_id (find ws_focused (ts_workspaces tree)))),
             (''focused_tab_id'', focused_or (ha_tab_id request) (map_option tb_tab_id (find tb_focused (ts_tabs tree)))),
             (''focused_pane_id'', focused_or (ha_pane_id request) (map_option pn_pane_id (find pn_focused (ts_panes tree)))),
             (''selected_text'', JNull), (''focused_pane_cwd'', JNull), (''workspace_cwd'', JNull), (''clicked_url'', JNull),
             (''link_handler_id'', JNull), (''invocation_source'', JStr ''herdr-remote'')])))"

definition snapshot_pane_ids :: "watch_env \<Rightarrow> 'h herdr_calls \<Rightarrow> 'h bridge \<Rightarrow> 'h bridge \<times> (string list, watch_error) result" where
  "snapshot_pane_ids env c b =
     (case fetch_snapshot env c b of
        (b1, Err e) \<Rightarrow> (b1, Err e)
      | (b1, Ok raw) \<Rightarrow> (b1, Ok (remdups (map rp_pane_id (rs_panes raw)))))"

text \<open>\<open>show\<close> is the display text of an error. The pause before the second snapshot is left out.\<close>

definition invoke_plugin :: "(watch_error \<Rightarrow> string) \<Rightarrow> watch_env \<Rightarrow> 'h herdr_calls \<Rightarrow> json \<Rightarrow> 'h bridge \<Rightarrow> 'h bridge \<times> (app_message, watch_error) result" where
  "invoke_plugin show env c params b =
     (case snapshot_pane_ids env c b of
        (b1, Err e) \<Rightarrow> (b1, Err e)
      | (b1, Ok before) \<Rightarrow>
          (case on_herdr (c_plugin_action_invoke c params) b1 of
             (b2, Err e) \<Rightarrow> (b2, Ok (M_Error (map_watch_error show e)))
           | (b2, Ok _) \<Rightarrow>
               (case snapshot_pane_ids env c b2 of
                  (b3, Err e) \<Rightarrow> (b3, Err e)
                | (b3, Ok after) \<Rightarrow>
                    let only_new = (case filter (\<lambda>p. p \<notin> set before) after of [i] \<Rightarrow> Some i | _ \<Rightarrow> None)
                    in (b3, Ok (M_HostActionAck \<lparr>hk_action = PluginInvoke, hk_success = True, hk_pane_id = only_new, hk_result_id = only_new\<rparr>)))))"

definition action_plugin_invoke :: "(watch_error \<Rightarrow> string) \<Rightarrow> watch_env \<Rightarrow> 'h herdr_calls \<Rightarrow> host_action_req \<Rightarrow> 'h bridge \<Rightarrow> 'h bridge \<times> (app_message, watch_error) result" where
  "action_plugin_invoke show env c request b =
     (case ha_plugin_id request of
        None \<Rightarrow> (b, Err (W_InvalidInput ''host_action plugin.invoke requires plugin_id''))
      | Some plugin_id \<Rightarrow>
          (case ha_action_id request of
             None \<Rightarrow> (b, Err (W_InvalidInput ''host_action plugin.invoke requires action_id''))
           | Some action_id \<Rightarrow>
               (case build_invocation_context env c request b of
                  (b1, Err e) \<Rightarrow> (b1, Err e)
                | (b1, Ok ctx) \<Rightarrow>
                    invoke_plugin show env c (JObj [(''plugin_id'', JStr plugin_id), (''action_id'', JStr action_id), (''context'', ctx)]) b1)))"

definition host_action :: "(watch_error \<Rightarrow> string) \<Rightarrow> watch_env \<Rightarrow> 'h herdr_calls \<Rightarrow> host_action_req \<Rightarrow> 'h bridge \<Rightarrow> 'h bridge \<times> (app_message, watch_error) result" where
  "host_action show env c request b =
     (if ha_action request = PluginInvoke then action_plugin_invoke show env c request b
      else case
        (case ha_action request of
           WorkspaceCreate \<Rightarrow> action_workspace_create c request b
         | TabCreate \<Rightarrow> action_tab_create c request b
         | PaneSplit \<Rightarrow> action_pane_split_create env c request b
         | Split \<Rightarrow> action_pane_split_existing c request b
         | Zoom \<Rightarrow> action_pane_zoom c request b
         | CloseAction \<Rightarrow> action_pane_close c request b
         | Rename \<Rightarrow> action_pane_rename c request b
         | _ \<Rightarrow> action_pane_resize env c request b) of
        (b1, Err e) \<Rightarrow> (b1, Err e)
      | (b1, Ok (success, pane_id, result_id)) \<Rightarrow>
          (b1, Ok (M_HostActionAck \<lparr>hk_action = ha_action request, hk_success = success, hk_pane_id = pane_id, hk_result_id = result_id\<rparr>)))"

section \<open>No create action moves the focus\<close>

lemma set_opt_get [simp]: "is_object j \<Longrightarrow> jget k (set_opt k' v j) = (if k = k' \<and> v \<noteq> None then v else jget k j)"
  by (auto simp: set_opt_def split: option.splits)

lemma set_opt_object [simp]: "is_object (set_opt k v j) = is_object j"
  by (simp add: set_opt_def split: option.splits)

lemma base_create_focus [simp]: "is_object (base_create_params p)" "jget ''focus'' (base_create_params p) = Some (JBool False)"
  by (simp_all add: base_create_params_def)

text \<open>Whatever a Device puts in the parameters of a host action, every creating call Herdr receives carries
  \<open>focus: false\<close>; a split never carries a label, and names the direction the Device gave.\<close>

theorem create_never_focuses:
  "jget ''focus'' (workspace_create_params request) = Some (JBool False)"
  "jget ''focus'' (tab_create_params request) = Some (JBool False)"
  "jget ''focus'' (split_create_params env request direction) = Some (JBool False)"
  "jget ''label'' (split_create_params env request direction) = None"
  "jget ''direction'' (split_create_params env request direction) = Some (JStr direction)"
  by (simp_all add: workspace_create_params_def tab_create_params_def split_create_params_def base_create_params_def)

section \<open>The acknowledgement names what happened\<close>

text \<open>A host action that is not a plugin's is acknowledged only after Herdr accepted its call: with its own
  kind, as a success, naming the id Herdr returned for a creating action and the pane for the others; a
  missing pane, direction or a refusal of Herdr is an error instead.\<close>

theorem host_action_outcome:
  assumes "host_action show env c request b = (b', r)" "ha_action request \<noteq> PluginInvoke"
  shows "(r = Ok m \<longrightarrow> (\<exists>pane i. m = M_HostActionAck \<lparr>hk_action = ha_action request, hk_success = True, hk_pane_id = pane, hk_result_id = i\<rparr>
      \<and> (i \<noteq> None \<longleftrightarrow> ha_action request \<in> {WorkspaceCreate, TabCreate, PaneSplit, Split})
      \<and> (ha_action request \<notin> {WorkspaceCreate, TabCreate, PaneSplit} \<longrightarrow> pane \<noteq> None \<and> pane = ha_pane_id request)))
      \<and> (ha_action request \<notin> {WorkspaceCreate, TabCreate, PaneSplit} \<longrightarrow> ha_pane_id request = None \<longrightarrow> b' = b \<and> \<not> is_ok r)"
proof (rule conjI [OF impI impI [OF impI]])
  note ops = action_workspace_create_def action_tab_create_def action_pane_split_create_def action_pane_split_existing_def
    action_pane_zoom_def action_pane_close_def action_pane_rename_def action_pane_resize_def created_def performed_def
    require_pane_id_def
  show "r = Ok m \<Longrightarrow> \<exists>pane i. m = M_HostActionAck \<lparr>hk_action = ha_action request, hk_success = True, hk_pane_id = pane, hk_result_id = i\<rparr>
      \<and> (i \<noteq> None \<longleftrightarrow> ha_action request \<in> {WorkspaceCreate, TabCreate, PaneSplit, Split})
      \<and> (ha_action request \<notin> {WorkspaceCreate, TabCreate, PaneSplit} \<longrightarrow> pane \<noteq> None \<and> pane = ha_pane_id request)"
    using assms
    by (cases "ha_action request")
       (auto simp: host_action_def ops split: prod.splits sum.splits)
  show "ha_action request \<notin> {WorkspaceCreate, TabCreate, PaneSplit} \<Longrightarrow> ha_pane_id request = None \<Longrightarrow> b' = b \<and> \<not> is_ok r"
    using assms by (cases "ha_action request") (auto simp: host_action_def ops)
qed

definition zoom_request :: host_action_req where
  "zoom_request = \<lparr>ha_action = Zoom, ha_pane_id = Some ''p'', ha_workspace_id = None, ha_tab_id = None, ha_plugin_id = None,
     ha_action_id = None, ha_params = None\<rparr>"

theorem host_action_outcome_witness:
  "\<exists>pane. snd (host_action (\<lambda>_. []) sample_env (logged ok_calls) zoom_request sample_bridge)
     = Ok (M_HostActionAck \<lparr>hk_action = Zoom, hk_success = True, hk_pane_id = pane, hk_result_id = None\<rparr>) \<and> pane = Some ''p''"
proof -
  obtain b' r where h: "host_action (\<lambda>_. []) sample_env (logged ok_calls) zoom_request sample_bridge = (b', r)" by force
  have z: "ha_action zoom_request = Zoom" "ha_pane_id zoom_request = Some ''p''" by (simp_all add: zoom_request_def)
  have "is_ok (snd (host_action (\<lambda>_. []) sample_env (logged ok_calls) zoom_request sample_bridge))" by code_simp
  then obtain m where m: "r = Ok m" using h is_okE by auto
  show ?thesis using host_action_outcome [THEN conjunct1, OF h, THEN mp] h m z by auto
qed

end
