(* ===== verification/Watch_Loop.thy ===== *)
theory Watch_Loop
  imports Held_Input
begin

text \<open>
  \<open>herdr-relay/src/watch/requests.rs\<close>, \<open>incoming.rs\<close>, \<open>run_loop.rs\<close> and \<open>latest_slot.rs\<close>: watching a pane, the
  lines of the event subscription, and the loop that turns them into frames. Clock readings and time
  stamps are arguments.
\<close>

section \<open>Requests\<close>

definition watch_tree_snapshot :: "watch_env \<Rightarrow> 'h herdr_calls \<Rightarrow> 'h bridge \<Rightarrow> 'h bridge \<times> (tree_snapshot, watch_error) result" where
  "watch_tree_snapshot env c b =
     (case fetch_snapshot env c b of (b1, Err e) \<Rightarrow> (b1, Err e) | (b1, Ok raw) \<Rightarrow> (b1, Ok (map_snapshot b1 raw)))"

definition new_scheduler :: "f64 relay_config \<Rightarrow> instant \<Rightarrow> pane_scheduler" where
  "new_scheduler cfg now =
     scheduler_new (ms (rc_debounce_ms cfg)) (ms (rc_poll_ms cfg)) (map ms (rc_input_read_ms cfg)) (of_nat (rc_max_reads_per_second cfg)) now"

definition start_watch :: "watch_env \<Rightarrow> instant \<Rightarrow> raw_pane \<Rightarrow> 32 word \<Rightarrow> string \<Rightarrow> 'h bridge \<Rightarrow> 'h bridge \<times> watch_ack \<times> pane_frame" where
  "start_watch env now pane width text b =
     (let pane_id = rp_pane_id pane;
          rows = ps_viewport_rows (rp_scroll pane);
          b1 = (if br_watched b \<noteq> None \<and> \<not> watches pane_id b then cancel_pending_inputs b else b);
          b2 = b1\<lparr>br_watched := Some \<lparr>wp_pane_id = pane_id, wp_last_revision = rp_revision pane, wp_viewport_rows = rows,
                    wp_width = width, wp_last_frame_hash = e_frame_hash env text rows width\<rparr>,
                  br_scheduler := Some (new_scheduler (br_config b1) now)\<rparr>
      in (b2,
          \<lparr>wa_pane_id = pane_id, wa_revision = rp_revision pane, wa_viewport_rows = rows, wa_width = width,
           wa_scroll = \<lparr>so_offset_from_bottom = ps_offset_from_bottom (rp_scroll pane),
             so_max_offset_from_bottom = ps_max_offset_from_bottom (rp_scroll pane)\<rparr>, wa_line = shadow_of b2 pane_id\<rparr>,
          \<lparr>pf_pane_id = pane_id, pf_revision = rp_revision pane, pf_viewport_rows = rows, pf_width = width, pf_text = text\<rparr>))"

definition watch_pane :: "watch_env \<Rightarrow> 'h herdr_calls \<Rightarrow> instant \<Rightarrow> string \<Rightarrow> 'h bridge \<Rightarrow> 'h bridge \<times> (watch_ack \<times> pane_frame, watch_error) result" where
  "watch_pane env c now pane_id b =
     (case fetch_snapshot env c b of
        (b1, Err e) \<Rightarrow> (b1, Err e)
      | (b1, Ok raw) \<Rightarrow>
          (case find (\<lambda>p. rp_pane_id p = pane_id) (rs_panes raw) of
             None \<Rightarrow> (b1, Err (W_PaneNotInSnapshot pane_id))
           | Some pane \<Rightarrow>
               (case fetch_width c pane_id b1 of
                  (b2, Err e) \<Rightarrow> (b2, Err e)
                | (b2, Ok width) \<Rightarrow>
                    (case fetch_visible_text c pane_id b2 of
                       (b3, Err e) \<Rightarrow> (b3, Err e)
                     | (b3, Ok text) \<Rightarrow> (case start_watch env now pane width text b3 of (b4, r) \<Rightarrow> (b4, Ok r))))))"

definition stop_watch :: "'h bridge \<Rightarrow> 'h bridge" where
  "stop_watch b = b\<lparr>br_watched := None, br_scheduler := None\<rparr>"

definition unwatch_pane :: "string \<Rightarrow> 'h bridge \<Rightarrow> 'h bridge" where
  "unwatch_pane pane_id b = (if watches pane_id b then stop_watch (cancel_pending_inputs b) else b)"

definition scroll_request :: "'h herdr_calls \<Rightarrow> string \<Rightarrow> 32 word \<Rightarrow> 'h bridge \<Rightarrow> 'h bridge \<times> (scroll_response, watch_error) result" where
  "scroll_request c pane_id lines b =
     (case on_herdr (c_pane_read_recent c pane_id (min lines (of_nat (rc_max_scrollback_lines (br_config b))))) b of
        (b1, Err e) \<Rightarrow> (b1, Err e)
      | (b1, Ok raw) \<Rightarrow>
          (case get_str ''text'' (Some raw) of
             None \<Rightarrow> (b1, Err (W_MissingField ''pane.read'' ''text''))
           | Some text \<Rightarrow>
               (b1, Ok \<lparr>sr_pane_id = pane_id, sr_text = text, sr_lines = of_nat (length (str_lines text)),
                  sr_truncated = (case Option.bind (jget ''truncated'' raw) as_bool of Some t \<Rightarrow> t | None \<Rightarrow> False)\<rparr>)))"

definition subscription_entries :: "string list \<Rightarrow> json list" where
  "subscription_entries pane_ids =
     map (\<lambda>t. JObj [(''type'', JStr t)]) UNFILTERED_TREE_EVENTS
     @ map (\<lambda>p. JObj [(''type'', JStr ''pane.agent_status_changed''), (''pane_id'', JStr p)]) pane_ids"

definition current_subscription_entries :: "watch_env \<Rightarrow> 'h herdr_calls \<Rightarrow> 'h bridge \<Rightarrow> 'h bridge \<times> json list" where
  "current_subscription_entries env c b =
     (case fetch_snapshot env c b of
        (b1, Err _) \<Rightarrow> (b1, subscription_entries [])
      | (b1, Ok raw) \<Rightarrow> (b1, subscription_entries (map rp_pane_id (rs_panes raw))))"

section \<open>A line of the subscription\<close>

definition agent_status_message :: "watch_env \<Rightarrow> 'h herdr_calls \<Rightarrow> string \<Rightarrow> json option \<Rightarrow> string \<Rightarrow> agent_status_kind \<Rightarrow> 'h bridge \<Rightarrow> 'h bridge \<times> app_message list" where
  "agent_status_message env c stamp data pane_id status b =
     (case fetch_snapshot env c b of
        (b1, Err _) \<Rightarrow> (b1, [])
      | (b1, Ok raw) \<Rightarrow>
          let snapshot = map_snapshot b1 raw in
          (case find (\<lambda>p. pn_pane_id p = pane_id) (ts_panes snapshot) of
             None \<Rightarrow> (b1, [])
           | Some pane \<Rightarrow>
               (b1, [M_AgentStatus
                 \<lparr>as_host_id = br_host_id b1, as_pane_id = pn_pane_id pane, as_workspace_id = pn_workspace_id pane,
                  as_tab_id = pn_tab_id pane,
                  as_tab_title = (case find (\<lambda>t. tb_tab_id t = pn_tab_id pane) (ts_tabs snapshot) of Some t \<Rightarrow> tb_title t | None \<Rightarrow> []),
                  as_pane_title = pn_title pane,
                  as_agent_kind = (case get_str ''agent'' data of Some a \<Rightarrow> a | None \<Rightarrow> (case pn_agent pane of Some a \<Rightarrow> a | None \<Rightarrow> [])),
                  as_status = status, as_at = stamp\<rparr>])))"

definition on_agent_status :: "watch_env \<Rightarrow> 'h herdr_calls \<Rightarrow> instant \<Rightarrow> string \<Rightarrow> json option \<Rightarrow> string \<Rightarrow> 'h bridge \<Rightarrow> 'h bridge \<times> app_message list" where
  "on_agent_status env c now stamp data pane_id b =
     (let b1 = b\<lparr>br_observed := AList.update pane_id stamp (br_observed b)\<rparr>;
          raw_status = get_str ''agent_status'' data;
          b2 = (case raw_status of Some s \<Rightarrow> if s \<noteq> ''working'' then release_pending_input env c now pane_id b1 else b1 | None \<Rightarrow> b1)
      in case Option.bind raw_status agent_status_kind_of of
           None \<Rightarrow> (b2, [])
         | Some status \<Rightarrow>
             if status = AS_Blocked \<or> status = AS_Done then
               (case settle_agent_status pane_id now b2 of
                  (b3, False) \<Rightarrow> (b3, [])
                | (b3, True) \<Rightarrow> agent_status_message env c stamp data pane_id status b3)
             else (b2, []))"

definition tree_update_for :: "watch_env \<Rightarrow> json option \<Rightarrow> tree_event \<Rightarrow> app_message" where
  "tree_update_for env data event =
     M_TreeUpdate \<lparr>tu_event = event,
       tu_pane = map_option map_pane (Option.bind (Option.bind data (jget ''pane'')) (e_raw_pane env)),
       tu_workspace = map_option map_workspace (Option.bind (Option.bind data (jget ''workspace'')) (e_raw_workspace env)),
       tu_tab = map_option map_tab (Option.bind (Option.bind data (jget ''tab'')) (e_raw_tab env))\<rparr>"

definition refresh_events :: "string list" where
  "refresh_events = [''workspace_created'', ''workspace_updated'', ''workspace_renamed'', ''workspace_closed'', ''tab_closed'',
     ''pane_closed'', ''pane_agent_status_changed'', ''pane_focused'']"

definition json_u64 :: "string \<Rightarrow> json option \<Rightarrow> (64 word) option" where
  "json_u64 k j = Option.bind (Option.bind j (jget k)) as_u64"

definition handle_pane_updated :: "'h herdr_calls \<Rightarrow> instant \<Rightarrow> json option \<Rightarrow> 'h bridge \<Rightarrow> 'h bridge" where
  "handle_pane_updated c now data b =
     (case pane_id_of data of
        None \<Rightarrow> b
      | Some pane_id \<Rightarrow>
          let pane = Option.bind data (jget ''pane'') in
          (case json_u64 ''revision'' pane of
             None \<Rightarrow> b
           | Some revision \<Rightarrow>
               let new_rows = map_option ucast (json_u64 ''viewport_rows'' (Option.bind pane (jget ''scroll''))) in
               (case br_watched b of
                  None \<Rightarrow> b
                | Some w \<Rightarrow>
                    if wp_pane_id w \<noteq> pane_id then b
                    else
                      let rows_changed = (case new_rows of Some rows \<Rightarrow> wp_viewport_rows w \<noteq> rows | None \<Rightarrow> False) in
                      if wp_last_revision w = revision \<and> \<not> rows_changed then b
                      else
                        let w1 = w\<lparr>wp_last_revision := revision,
                               wp_viewport_rows := (case new_rows of Some rows \<Rightarrow> rows | None \<Rightarrow> wp_viewport_rows w)\<rparr>;
                            b1 = b\<lparr>br_watched := Some w1\<rparr>;
                            b2 = (if rows_changed
                                  then (case fetch_width c pane_id b1 of
                                          (b2, Ok width) \<Rightarrow> b2\<lparr>br_watched := Some (w1\<lparr>wp_width := width\<rparr>)\<rparr>
                                        | (b2, Err _) \<Rightarrow> b2)
                                  else b1)
                        in b2\<lparr>br_scheduler := map_option (on_revision_changed now) (br_scheduler b2)\<rparr>)))"

definition handle_event :: "watch_env \<Rightarrow> 'h herdr_calls \<Rightarrow> instant \<Rightarrow> string \<Rightarrow> string \<Rightarrow> json option \<Rightarrow> 'h bridge \<Rightarrow> 'h bridge \<times> app_message list \<times> subscription_action" where
  "handle_event env c now stamp event data b =
     (let (b1, out1) = (if event = ''pane_agent_status_changed''
            then (case pane_id_of data of Some p \<Rightarrow> on_agent_status env c now stamp data p b | None \<Rightarrow> (b, []))
            else (b, []));
          out2 = (case tree_event_for event of Some ev \<Rightarrow> [tree_update_for env data ev] | None \<Rightarrow> []);
          (b2, out3) = (if event \<in> set refresh_events
            then (case fetch_snapshot env c b1 of (b2, Ok raw) \<Rightarrow> (b2, [M_TreeSnapshot (map_snapshot b2 raw)]) | (b2, Err _) \<Rightarrow> (b2, []))
            else (b1, []));
          action = (if event = ''pane_created'' then Resubscribe else NoSubscriptionAction);
          b3 = (if event = ''pane_updated'' then handle_pane_updated c now data b2 else b2);
          b4 = (if event = ''pane_closed''
                then (case pane_id_of data of Some p \<Rightarrow> unwatch_pane p b3 | None \<Rightarrow> b3)
                else b3)
      in (b4, out1 @ out2 @ out3, action))"

definition handle_subscription_line :: "watch_env \<Rightarrow> 'h herdr_calls \<Rightarrow> instant \<Rightarrow> string \<Rightarrow> string \<Rightarrow> 'h bridge \<Rightarrow> 'h bridge \<times> (app_message list \<times> subscription_action, watch_error) result" where
  "handle_subscription_line env c now stamp pushed b =
     (case e_parse env (trim_end pushed) of
        None \<Rightarrow> (b, Err (W_Malformed ''events.subscribe''))
      | Some parsed \<Rightarrow>
          if Option.bind (jget ''result'' parsed) (jget ''type'') = Some (JStr ''subscription_started'')
          then (b, Ok ([], NoSubscriptionAction))
          else (case get_str ''event'' (Some parsed) of
             None \<Rightarrow> (b, Ok ([], NoSubscriptionAction))
           | Some raw_event_name \<Rightarrow>
               (case handle_event env c now stamp (undotted raw_event_name) (jget ''data'' parsed) b of
                  (b1, out, action) \<Rightarrow> (b1, Ok (out, action)))))"

section \<open>The run loop\<close>

definition resynchronize :: "watch_env \<Rightarrow> 'h herdr_calls \<Rightarrow> 'h bridge \<Rightarrow> 'h bridge \<times> (app_message list, watch_error) result" where
  "resynchronize env c b =
     (case br_watched b of
        None \<Rightarrow> (b, Ok [])
      | Some watched \<Rightarrow>
          (case fetch_snapshot env c b of
             (b1, Err e) \<Rightarrow> (b1, Err e)
           | (b1, Ok raw) \<Rightarrow>
               (case find (\<lambda>p. rp_pane_id p = wp_pane_id watched) (rs_panes raw) of
                  None \<Rightarrow> (stop_watch b1, Ok [M_TreeUpdate \<lparr>tu_event = PaneClosed, tu_pane = None, tu_workspace = None, tu_tab = None\<rparr>])
                | Some pane \<Rightarrow>
                    if rp_revision pane = wp_last_revision watched then (b1, Ok [])
                    else
                      let rows = ps_viewport_rows (rp_scroll pane) in
                      (case (if rows \<noteq> wp_viewport_rows watched then fetch_width c (wp_pane_id watched) b1 else (b1, Ok (wp_width watched))) of
                         (b2, Err e) \<Rightarrow> (b2, Err e)
                       | (b2, Ok width) \<Rightarrow>
                           (case fetch_visible_text c (wp_pane_id watched) b2 of
                              (b3, Err e) \<Rightarrow> (b3, Err e)
                            | (b3, Ok text) \<Rightarrow>
                                (b3\<lparr>br_watched := map_option (\<lambda>w. w\<lparr>wp_last_revision := rp_revision pane, wp_viewport_rows := rows,
                                     wp_width := width, wp_last_frame_hash := e_frame_hash env text rows width\<rparr>) (br_watched b3)\<rparr>,
                                 Ok [M_PaneFrame \<lparr>pf_pane_id = wp_pane_id watched, pf_revision = rp_revision pane,
                                       pf_viewport_rows = rows, pf_width = width, pf_text = text\<rparr>]))))))"

definition poll_scheduler :: "watch_env \<Rightarrow> 'h herdr_calls \<Rightarrow> instant \<Rightarrow> 'h bridge \<Rightarrow> 'h bridge \<times> pane_frame option" where
  "poll_scheduler env c now b =
     (case br_scheduler b of
        None \<Rightarrow> (b, None)
      | Some s \<Rightarrow>
          (case fire now s of (s', outcome) \<Rightarrow>
             let b1 = b\<lparr>br_scheduler := Some s'\<rparr> in
             (case outcome of
                None \<Rightarrow> (b1, None)
              | Some RateLimited \<Rightarrow> (b1, None)
              | Some o' \<Rightarrow>
                  (case br_watched b1 of
                     None \<Rightarrow> (b1, None)
                   | Some watched \<Rightarrow>
                       (case fetch_visible_text c (wp_pane_id watched) b1 of
                          (b2, Err _) \<Rightarrow> (b2, None)
                        | (b2, Ok text) \<Rightarrow>
                            let hash = e_frame_hash env text (wp_viewport_rows watched) (wp_width watched) in
                            if o' = PollRead \<and> hash = wp_last_frame_hash watched then (b2, None)
                            else (b2\<lparr>br_watched := map_option (\<lambda>w. w\<lparr>wp_last_frame_hash := hash\<rparr>) (br_watched b2)\<rparr>,
                                  Some \<lparr>pf_pane_id = wp_pane_id watched, pf_revision = wp_last_revision watched,
                                        pf_viewport_rows = wp_viewport_rows watched, pf_width = wp_width watched, pf_text = text\<rparr>))))))"

text \<open>\<open>LatestSlot\<close>: the newest frame only.\<close>

type_synonym 'a latest_slot = "'a option"

definition slot_put :: "'a \<Rightarrow> 'a latest_slot \<Rightarrow> 'a latest_slot" where "slot_put v slot = Some v"

definition slot_try_take :: "'a latest_slot \<Rightarrow> 'a latest_slot \<times> 'a option" where "slot_try_take slot = (None, slot)"

text \<open>One pass of the loop: the reading of the clock at its head, what the channel gave within the wait, and
  the readings used for the line and for the read.\<close>

datatype received = RLine string | RIoError | RTimeout | RDisconnected

record tick =
  tk_now :: instant
  tk_received :: received
  tk_line_now :: instant
  tk_stamp :: string
  tk_poll_now :: instant

record run_output =
  ro_slot :: "pane_frame latest_slot"
  ro_messages :: "app_message list"
  ro_resubscribe :: bool

definition put_frame :: "pane_frame option \<Rightarrow> run_output \<Rightarrow> run_output" where
  "put_frame f w = (case f of Some x \<Rightarrow> w\<lparr>ro_slot := slot_put x (ro_slot w)\<rparr> | None \<Rightarrow> w)"

text \<open>The result is None while the loop has not returned within the given passes.\<close>

fun run_until :: "watch_env \<Rightarrow> 'h herdr_calls \<Rightarrow> instant \<Rightarrow> tick list \<Rightarrow> 'h bridge \<Rightarrow> run_output \<Rightarrow> 'h bridge \<times> run_output \<times> (unit, watch_error) result option" where
  "run_until env c deadline [] b w = (b, w, None)"
| "run_until env c deadline (t # ts) b w =
     (if deadline \<le> tk_now t then
        (case poll_scheduler env c (tk_now t) b of (b1, f) \<Rightarrow> (b1, put_frame f w, Some (Ok ())))
      else
        (case (case tk_received t of
                 RLine pushed \<Rightarrow>
                   (case handle_subscription_line env c (tk_line_now t) (tk_stamp t) pushed b of
                      (b1, Err e) \<Rightarrow> (b1, w, Some e)
                    | (b1, Ok (out, action)) \<Rightarrow>
                        (b1, w\<lparr>ro_messages := ro_messages w @ out, ro_resubscribe := ro_resubscribe w \<or> action = Resubscribe\<rparr>, None))
               | RIoError \<Rightarrow> (b, w, Some (W_Herdr IpcIo))
               | RTimeout \<Rightarrow> (b, w, None)
               | RDisconnected \<Rightarrow> (b, w, Some W_SubscriptionClosed)) of
           (b1, w1, Some e) \<Rightarrow> (b1, w1, Some (Err e))
         | (b1, w1, None) \<Rightarrow>
             (case poll_scheduler env c (tk_poll_now t) b1 of (b2, f) \<Rightarrow>
                run_until env c deadline ts b2 (put_frame f w1))))"

section \<open>The watch state\<close>

text \<open>A pane is watched exactly when a scheduler runs, and a held submit is for the watched pane.\<close>

definition watch_ok :: "'h bridge \<Rightarrow> bool" where
  "watch_ok b \<longleftrightarrow> (br_watched b = None \<longleftrightarrow> br_scheduler b = None) \<and> (\<forall>p. br_pending b = Some p \<longrightarrow> watches (pi_pane_id p) b)"

datatype watch_op =
    OpWatch instant string
  | OpUnwatch string
  | OpInput instant send_input_req
  | OpDeferred instant send_input_req "string option"
  | OpLine instant string string
  | OpPoll instant
  | OpCancelHeld
  | OpTakeReplies
  | OpScroll string "32 word"
  | OpSubscribe
  | OpEndSession

fun watch_exec :: "watch_env \<Rightarrow> 'h herdr_calls \<Rightarrow> watch_op \<Rightarrow> 'h bridge \<Rightarrow> 'h bridge" where
  "watch_exec env c (OpWatch now p) b = fst (watch_pane env c now p b)"
| "watch_exec env c (OpUnwatch p) b = unwatch_pane p b"
| "watch_exec env c (OpInput now request) b = fst (send_input env c now request b)"
| "watch_exec env c (OpDeferred now request corr) b = fst (handle_deferred_input env c now request corr b)"
| "watch_exec env c (OpLine now stamp pushed) b = fst (handle_subscription_line env c now stamp pushed b)"
| "watch_exec env c (OpPoll now) b = fst (poll_scheduler env c now b)"
| "watch_exec env c OpCancelHeld b = cancel_pending_inputs b"
| "watch_exec env c OpTakeReplies b = fst (take_input_replies b)"
| "watch_exec env c (OpScroll p n) b = fst (scroll_request c p n b)"
| "watch_exec env c OpSubscribe b = fst (current_subscription_entries env c b)"
| "watch_exec env c OpEndSession b = b\<lparr>br_session_active := Some False\<rparr>"

lemma same_ok: "held_same b b' \<Longrightarrow> watch_ok b \<Longrightarrow> watch_ok b'"
  by (simp add: held_same_def watch_ok_def watches_def watched_pane_id_def)

lemma watches_cancel [simp]: "watches p (cancel_pending_inputs b) = watches p b"
  by (simp add: watches_def watched_pane_id_def cancel_same)

lemma cancel_watch [simp]:
  "br_watched (cancel_pending_inputs b) = br_watched b" "br_scheduler (cancel_pending_inputs b) = br_scheduler b"
  by (simp_all add: cancel_pending_inputs_def split: option.splits)

lemma cancel_ok [simp]: "watch_ok b \<Longrightarrow> watch_ok (cancel_pending_inputs b)"
  by (simp add: watch_ok_def)

lemma send_input_watch:
  assumes "send_input env c now request b = (b', r)"
  shows "held_same b b' \<or> held_same (cancel_pending_inputs b) b'" "is_ok r \<Longrightarrow> watches (si_pane_id request) b"
proof -
  have "(held_same b b' \<or> held_same (cancel_pending_inputs b) b') \<and> (is_ok r \<longrightarrow> watches (si_pane_id request) b)"
  proof (cases "is_ok (require_watched (si_pane_id request) b) \<and> is_ok (validate_send_input env request)")
    case False
    then show ?thesis using assms by (auto simp: send_input_def split: sum.splits)
  next
    case True
    let ?b1 = "if si_bypass_line request \<noteq> Some True \<and> interrupts request then cancel_pending_inputs b else b"
    obtain b2 accepted changed where a: "apply_input env c request ?b1 = (b2, accepted, changed)" by (metis prod_cases3)
    have s: "b' = (if accepted \<or> changed then b2\<lparr>br_scheduler := map_option (on_input_sent now) (br_scheduler b2)\<rparr> else b2)"
      using assms True a by (auto simp: send_input_def Let_def split: sum.splits)
    have "held_same b2 b'" by (simp add: s held_same_def)
    then have "held_same ?b1 b'" using apply_input_same [OF a] held_same_trans by blast
    then show ?thesis using True by (auto simp: require_watched_def split: if_splits)
  qed
  then show "held_same b b' \<or> held_same (cancel_pending_inputs b) b'" "is_ok r \<Longrightarrow> watches (si_pane_id request) b" by blast+
qed

lemma send_input_ok: "send_input env c now request b = (b', r) \<Longrightarrow> watch_ok b \<Longrightarrow> watch_ok b'"
  using send_input_watch(1) same_ok cancel_ok by blast

lemma watch_ok_replies [simp]: "watch_ok (b\<lparr>br_replies := rs\<rparr>) = watch_ok b"
  by (simp add: watch_ok_def watches_def watched_pane_id_def)

lemma watch_ok_unheld: "watch_ok b \<Longrightarrow> watch_ok (b\<lparr>br_pending := None\<rparr>)"
  by (simp add: watch_ok_def watches_def watched_pane_id_def)

lemma release_ok: "watch_ok b \<Longrightarrow> watch_ok (release_pending_input env c now p b)"
  by (auto simp: release_pending_input_def Let_def watch_ok_unheld dest: send_input_ok split: option.splits prod.splits)

lemma until_idle_ok:
  assumes "deferred_until_idle env c now request corr b = (b', r)" "watch_ok b"
  shows "watch_ok b'"
proof (cases "is_ok (require_watched (si_pane_id request) b)")
  case False
  then show ?thesis using assms by (auto simp: deferred_until_idle_def split: sum.splits)
next
  case True
  then have w: "watches (si_pane_id request) b" by (auto simp: require_watched_def split: if_splits)
  obtain b1 sn where f: "fetch_snapshot env c b = (b1, sn)" by force
  note same = fetch_snapshot_same [OF f]
  have ok1: "watch_ok b1" using same_ok [OF same assms(2)] .
  have w1: "watches (si_pane_id request) b1" using same w by (simp add: held_same_def watches_def watched_pane_id_def)
  let ?p = "\<lparr>pi_pane_id = si_pane_id request, pi_keys = (case si_keys request of Some ks \<Rightarrow> ks | None \<Rightarrow> []), pi_corr = corr\<rparr>"
  have held: "watch_ok ((cancel_pending_inputs b1)\<lparr>br_pending := Some ?p\<rparr>)"
    using ok1 w1 by (simp add: watch_ok_def watches_def watched_pane_id_def)
  have sent: "watch_ok b2" if "send_input env c now request (cancel_pending_inputs b1) = (b2, r2)" for b2 r2
    using send_input_ok [OF that] ok1 by simp
  show ?thesis
    using assms f ok1 held sent
    by (auto simp: deferred_until_idle_def Let_def split: sum.splits if_splits)
qed

lemma deferred_ok:
  assumes "watch_ok b" shows "watch_ok (fst (handle_deferred_input env c now request corr b))"
proof -
  obtain b1 r where d: "deferred_result env c now request corr b = (b1, r)" by force
  have "watch_ok b1"
    using d assms until_idle_ok send_input_ok
    by (auto simp: deferred_result_def deferred_cancel_def split: if_splits option.splits defer_mode.splits)
  then show ?thesis by (simp add: handle_deferred_input_def take_input_replies_def d)
qed

lemma width_same: "fetch_width c p b = (b', r) \<Longrightarrow> held_same b b'"
  by (auto simp: fetch_width_def dest: on_herdr_same split: prod.splits sum.splits)

lemma text_same: "fetch_visible_text c p b = (b', r) \<Longrightarrow> held_same b b'"
  by (auto simp: fetch_visible_text_def dest: on_herdr_same split: prod.splits sum.splits)

lemma start_watch_ok: "watch_ok b \<Longrightarrow> watch_ok (fst (start_watch env now pane width text b))"
  by (auto simp: start_watch_def Let_def watch_ok_def watches_def watched_pane_id_def)

lemma watch_pane_ok:
  assumes "watch_ok b" shows "watch_ok (fst (watch_pane env c now p b))"
proof -
  obtain b1 r1 where f: "fetch_snapshot env c b = (b1, r1)" by force
  have b1: "watch_ok b1" using same_ok [OF fetch_snapshot_same [OF f] assms] .
  obtain b2 r2 where w: "fetch_width c p b1 = (b2, r2)" by force
  have b2: "watch_ok b2" using same_ok [OF width_same [OF w] b1] .
  obtain b3 r3 where t: "fetch_visible_text c p b2 = (b3, r3)" by force
  have b3: "watch_ok b3" using same_ok [OF text_same [OF t] b2] .
  have st: "watch_ok (fst (case start_watch env now pane width tx b3 of (b4, r) \<Rightarrow> (b4, Ok r)))" for pane width tx
    using start_watch_ok [OF b3] by (simp add: case_prod_unfold)
  show ?thesis
    by (cases r1; cases r2; cases r3)
       (auto simp: watch_pane_def f w t b1 b2 b3 st split: option.splits)
qed

lemma unwatch_ok: "watch_ok b \<Longrightarrow> watch_ok (unwatch_pane p b)"
  by (simp add: unwatch_pane_def stop_watch_def watch_ok_def)

lemma rewatched_ok:
  assumes "watch_ok b" "br_watched b = Some w" "br_pending x = br_pending b" "br_watched x = Some w'"
    and "wp_pane_id w' = wp_pane_id w" "br_scheduler x = None \<longleftrightarrow> br_scheduler b = None"
  shows "watch_ok x"
  using assms by (simp add: watch_ok_def watches_def watched_pane_id_def)

lemma pane_updated_ok:
  assumes "watch_ok b" shows "watch_ok (handle_pane_updated c now data b)"
proof -
  define pane where "pane = Option.bind data (jget ''pane'')"
  define new_rows :: "32 word option" where "new_rows = map_option ucast (json_u64 ''viewport_rows'' (Option.bind pane (jget ''scroll'')))"
  show ?thesis
  proof (cases "pane_id_of data")
    case None
    then show ?thesis using assms by (simp add: handle_pane_updated_def)
  next
    case pid: (Some pane_id)
    show ?thesis
    proof (cases "json_u64 ''revision'' pane")
      case None
      then show ?thesis using assms pid by (simp add: handle_pane_updated_def pane_def)
    next
      case rev: (Some revision)
      show ?thesis
      proof (cases "br_watched b")
        case None
        then show ?thesis using assms pid rev by (simp add: handle_pane_updated_def pane_def)
      next
        case w: (Some w)
        define w1 where "w1 = w\<lparr>wp_last_revision := revision,
          wp_viewport_rows := (case new_rows of Some rows \<Rightarrow> rows | None \<Rightarrow> wp_viewport_rows w)\<rparr>"
        have w1: "wp_pane_id w1 = wp_pane_id w" by (simp add: w1_def)
        obtain b2 r where fw: "fetch_width c pane_id (b\<lparr>br_watched := Some w1\<rparr>) = (b2, r)" by force
        note same = width_same [OF fw]
        let ?f = "map_option (on_revision_changed now)"
        have "handle_pane_updated c now data b \<in>
            {b, b2\<lparr>br_watched := Some (w1\<lparr>wp_width := (case r of Ok x \<Rightarrow> x | Err _ \<Rightarrow> 0)\<rparr>), br_scheduler := ?f (br_scheduler b2)\<rparr>,
             b2\<lparr>br_scheduler := ?f (br_scheduler b2)\<rparr>,
             b\<lparr>br_watched := Some w1, br_scheduler := ?f (br_scheduler b)\<rparr>}"
          unfolding handle_pane_updated_def pane_def [symmetric] pid rev w option.case Let_def
            new_rows_def [symmetric] w1_def [symmetric]
          by (cases "wp_pane_id w = pane_id"; cases r) (simp_all add: fw)
        then show ?thesis
          using assms w w1 same by (auto simp: held_same_def intro: rewatched_ok)
      qed
    qed
  qed
qed

lemma settle_ok: "settle_agent_status p now b = (b', due) \<Longrightarrow> watch_ok b \<Longrightarrow> watch_ok b'"
  by (auto simp: settle_agent_status_def Let_def watch_ok_def watches_def watched_pane_id_def split: if_splits)

lemma status_message_ok: "agent_status_message env c stamp data p status b = (b', out) \<Longrightarrow> watch_ok b \<Longrightarrow> watch_ok b'"
  by (auto simp: agent_status_message_def Let_def dest: fetch_snapshot_same same_ok split: prod.splits sum.splits option.splits)

lemma on_agent_status_ok:
  assumes "watch_ok b" shows "watch_ok (fst (on_agent_status env c now stamp data p b))"
proof -
  define b1 where "b1 = b\<lparr>br_observed := AList.update p stamp (br_observed b)\<rparr>"
  have b1: "watch_ok b1" using assms by (simp add: b1_def watch_ok_def watches_def watched_pane_id_def)
  define b2 where "b2 = (case get_str ''agent_status'' data of Some s \<Rightarrow> if s \<noteq> ''working'' then release_pending_input env c now p b1 else b1 | None \<Rightarrow> b1)"
  have b2: "watch_ok b2" using b1 release_ok by (auto simp: b2_def split: option.splits)
  obtain b3 due where d: "settle_agent_status p now b2 = (b3, due)" by force
  have b3: "watch_ok b3" by (rule settle_ok [OF d b2])
  have m: "watch_ok (fst (agent_status_message env c stamp data p status b3))" for status
    using status_message_ok [OF surjective_pairing b3] by blast
  show ?thesis
    unfolding on_agent_status_def Let_def b1_def [symmetric] b2_def [symmetric] d
    using b2 b3 m by (cases due) (auto split: option.splits)
qed

lemma handle_event_ok:
  assumes "watch_ok b" shows "watch_ok (fst (handle_event env c now stamp event data b))"
proof -
  obtain b1 out1 where a: "(if event = ''pane_agent_status_changed''
      then (case pane_id_of data of Some p \<Rightarrow> on_agent_status env c now stamp data p b | None \<Rightarrow> (b, []))
      else (b, [])) = (b1, out1)" by force
  have b1: "watch_ok b1"
  proof (cases "event = ''pane_agent_status_changed''")
    case True
    then show ?thesis
      using a assms on_agent_status_ok [OF assms, of env c now stamp data]
      by (cases "pane_id_of data") (auto simp: prod_eq_iff)
  qed (use a assms in simp)
  obtain b2 out3 where d: "(if event \<in> set refresh_events
      then (case fetch_snapshot env c b1 of (b2, Ok raw) \<Rightarrow> (b2, [M_TreeSnapshot (map_snapshot b2 raw)]) | (b2, Err _) \<Rightarrow> (b2, []))
      else (b1, [])) = (b2, out3)" by force
  obtain b2' r where f: "fetch_snapshot env c b1 = (b2', r)" by force
  have "watch_ok b2'" using same_ok [OF fetch_snapshot_same [OF f] b1] .
  then have b2: "watch_ok b2"
    using d b1 by (cases "event \<in> set refresh_events"; cases r) (simp_all add: f)
  show ?thesis
    unfolding handle_event_def a d Let_def prod.case
    using b2 pane_updated_ok [OF b2] by (auto simp: unwatch_ok split: option.splits)
qed

lemma poll_ok:
  assumes "watch_ok b" shows "watch_ok (fst (poll_scheduler env c now b))"
proof (cases "br_scheduler b")
  case None
  then show ?thesis using assms by (simp add: poll_scheduler_def)
next
  case (Some s)
  obtain s' outcome where f: "fire now s = (s', outcome)" by force
  define b1 where "b1 = b\<lparr>br_scheduler := Some s'\<rparr>"
  have b1: "watch_ok b1" using assms Some by (simp add: b1_def watch_ok_def watches_def watched_pane_id_def)
  have hashed: "watch_ok (b2\<lparr>br_watched := map_option (\<lambda>w. w\<lparr>wp_last_frame_hash := hash\<rparr>) (br_watched b2)\<rparr>)"
    if "watch_ok b2" for b2 :: "'a bridge" and hash
    using that by (auto simp: watch_ok_def watches_def watched_pane_id_def option.map_comp o_def)
  have read: "watch_ok b2" if "fetch_visible_text c p b1 = (b2, r)" for p b2 r
    using text_same [OF that] same_ok b1 by blast
  show ?thesis
    unfolding poll_scheduler_def Some option.case f prod.case Let_def b1_def [symmetric]
    using b1 read hashed by (auto split: option.splits fire_outcome.splits prod.splits sum.splits)
qed

interpretation watch_ops: preserved "watch_exec env c" "\<lambda>_. True" watch_ok
  for env :: watch_env and c :: "'h herdr_calls"
proof (unfold_locales, goal_cases)
  case (1 s op)
  show ?case
  proof (cases op)
    case (OpInput now request)
    then show ?thesis using 1(1) send_input_ok by (metis prod.collapse watch_exec.simps(3))
  next
    case (OpLine now stamp pushed)
    then show ?thesis using 1(1) handle_event_ok [OF 1(1)]
      by (auto simp: handle_subscription_line_def split: option.splits prod.splits) (metis fst_conv)
  next
    case (OpScroll p n)
    then show ?thesis using 1(1)
      by (auto simp: scroll_request_def dest!: on_herdr_same intro: same_ok split: prod.splits sum.splits option.splits)
  next
    case OpSubscribe
    then show ?thesis using 1(1)
      by (auto simp: current_subscription_entries_def dest!: fetch_snapshot_same intro: same_ok split: prod.splits sum.splits)
  next
    case OpEndSession
    then show ?thesis using 1(1) by (simp add: watch_ok_def watches_def watched_pane_id_def)
  qed (use 1(1) in \<open>simp_all add: watch_pane_ok unwatch_ok deferred_ok poll_ok take_input_replies_def\<close>)
qed

text \<open>C15: After any requests, subscription lines and timer calls of a session, whatever Herdr answers or fails to
  answer, a scheduler runs exactly while a pane is watched, and a held submit is for the watched pane, so
  none outlives its watch.\<close>

theorem watch_state_ok:
  "watch_ok (fold (watch_exec env c) ops (bridge_new h host_id hname cfg))"
  by (rule watch_ops.keep_run) (simp_all add: watch_ok_def bridge_new_def list_all_iff)

section \<open>What the loop sends\<close>

lemma text_herdr: "fetch_visible_text c p b = (b', r) \<Longrightarrow> \<exists>h. b' = b\<lparr>br_herdr := h\<rparr>"
  by (auto simp: fetch_visible_text_def on_herdr_def split: prod.splits sum.splits)

text \<open>A read is made only when the scheduler allows one, and a frame is sent only when there is something to
  say: without a read outcome Herdr is not called and nothing is sent; a frame names the watched pane and
  its stored revision, is remembered by its hash, and repeats the remembered hash only when the revision
  had moved. A failed read sends nothing and forgets nothing.\<close>

theorem poll_sends_only_changes:
  assumes "br_scheduler b = Some s" "br_watched b = Some w" "poll_scheduler env c now b = (b', f)"
  shows "(snd (fire now s) \<in> {None, Some RateLimited} \<longrightarrow> f = None \<and> br_herdr b' = br_herdr b)
    \<and> (f = Some fr \<longrightarrow> pf_pane_id fr = wp_pane_id w \<and> pf_revision fr = wp_last_revision w
      \<and> br_watched b' = Some (w\<lparr>wp_last_frame_hash := e_frame_hash env (pf_text fr) (pf_viewport_rows fr) (pf_width fr)\<rparr>)
      \<and> (e_frame_hash env (pf_text fr) (pf_viewport_rows fr) (pf_width fr) = wp_last_frame_hash w \<longrightarrow> snd (fire now s) = Some Read))
    \<and> (f = None \<longrightarrow> br_watched b' = Some w)"
proof (rule conjI [OF impI conjI [OF impI impI]])
  obtain s' outcome where fi: "fire now s = (s', outcome)" by force
  define b1 where "b1 = b\<lparr>br_scheduler := Some s'\<rparr>"
  obtain b2 r where t: "fetch_visible_text c (wp_pane_id w) b1 = (b2, r)" by force
  obtain h where b2: "b2 = b1\<lparr>br_herdr := h\<rparr>" using text_herdr [OF t] by blast
  have w1: "br_watched b1 = Some w" using assms(2) by (simp add: b1_def)
  have eq: "poll_scheduler env c now b =
      (case outcome of None \<Rightarrow> (b1, None) | Some RateLimited \<Rightarrow> (b1, None)
       | Some o' \<Rightarrow> (case r of Err _ \<Rightarrow> (b2, None)
          | Ok text \<Rightarrow> let hash = e_frame_hash env text (wp_viewport_rows w) (wp_width w) in
              if o' = PollRead \<and> hash = wp_last_frame_hash w then (b2, None)
              else (b2\<lparr>br_watched := map_option (\<lambda>w. w\<lparr>wp_last_frame_hash := hash\<rparr>) (br_watched b2)\<rparr>,
                    Some \<lparr>pf_pane_id = wp_pane_id w, pf_revision = wp_last_revision w, pf_viewport_rows = wp_viewport_rows w,
                      pf_width = wp_width w, pf_text = text\<rparr>)))"
    by (cases outcome; cases "the outcome"; cases r)
       (simp_all add: poll_scheduler_def assms(1) fi Let_def b1_def [symmetric] w1 t)
  show "f = None \<and> br_herdr b' = br_herdr b" if "snd (fire now s) \<in> {None, Some RateLimited}"
    using that assms(3) by (auto simp: eq fi b1_def)
  show "pf_pane_id fr = wp_pane_id w \<and> pf_revision fr = wp_last_revision w
      \<and> br_watched b' = Some (w\<lparr>wp_last_frame_hash := e_frame_hash env (pf_text fr) (pf_viewport_rows fr) (pf_width fr)\<rparr>)
      \<and> (e_frame_hash env (pf_text fr) (pf_viewport_rows fr) (pf_width fr) = wp_last_frame_hash w \<longrightarrow> snd (fire now s) = Some Read)"
    if "f = Some fr"
    using that assms(3) w1
    by (cases outcome; cases r) (auto simp: eq fi b2 Let_def split: fire_outcome.splits if_splits)
  show "br_watched b' = Some w" if "f = None"
    using that assms(3) w1
    by (cases outcome; cases r) (auto simp: eq b2 Let_def split: fire_outcome.splits if_splits)
qed

definition read_calls :: "unit herdr_calls" where
  "read_calls = ok_calls\<lparr>c_pane_read_visible := \<lambda>_ h. (h, Ok (JObj [(''text'', JStr ''hello'')]))\<rparr>"

definition polling_bridge :: "unit bridge" where
  "polling_bridge = held_bridge\<lparr>br_scheduler := Some (scheduler_new 3 7 [] 8 0)\<rparr>"

theorem poll_sends_only_changes_witness:
  "snd (poll_scheduler sample_env read_calls 8 polling_bridge) \<noteq> None
   \<and> br_watched (fst (poll_scheduler sample_env read_calls 8 (fst (poll_scheduler sample_env read_calls 8 polling_bridge))))
     = br_watched (fst (poll_scheduler sample_env read_calls 8 polling_bridge))"
proof
  note ev = poll_scheduler_def polling_bridge_def held_bridge_def bridge_new_def scheduler_new_def fire_def Let_def read_calls_def
    sample_env_def fetch_visible_text_def on_herdr_def get_str_def word_le_nat_alt
  show "snd (poll_scheduler sample_env read_calls 8 polling_bridge) \<noteq> None" by (simp add: ev)
  obtain b1 f1 where one: "poll_scheduler sample_env read_calls 8 polling_bridge = (b1, f1)" by force
  let ?s = "\<lparr>sc_window = 3, sc_poll = 7, sc_input_offsets = [], sc_max_per_sec = 8, sc_pending_due = None,
    sc_window_open_until = None, sc_next_poll = 15, sc_input_due = [], sc_read_history = [8]\<rparr>"
  let ?w = "\<lparr>wp_pane_id = ''p'', wp_last_revision = 0, wp_viewport_rows = 24, wp_width = 80, wp_last_frame_hash = 5\<rparr>"
  have sw: "br_scheduler b1 = Some ?s" "br_watched b1 = Some ?w" using one by (auto simp: ev)
  have n: "fire 8 ?s = (?s, None)" by (simp add: fire_def Let_def)
  obtain b2 f2 where two: "poll_scheduler sample_env read_calls 8 b1 = (b2, f2)" by force
  have "f2 = None" using poll_sends_only_changes [OF sw two] n by simp
  then show "br_watched (fst (poll_scheduler sample_env read_calls 8 (fst (poll_scheduler sample_env read_calls 8 polling_bridge))))
     = br_watched (fst (poll_scheduler sample_env read_calls 8 polling_bridge))"
    using poll_sends_only_changes [OF sw two] one two sw by simp
qed

text \<open>An update of a pane that is not watched reaches nobody's terminal: the bridge forwards the tree update
  and does nothing else, no call of Herdr, no change of its state; and so for an update of the watched pane
  whose revision and size are the stored ones.\<close>

theorem foreign_update_ignored:
  assumes "pane_id_of data = Some p"
    and "\<not> watches p b \<or> (\<exists>w. br_watched b = Some w \<and> json_u64 ''revision'' (Option.bind data (jget ''pane'')) = Some (wp_last_revision w)
      \<and> (case json_u64 ''viewport_rows'' (Option.bind (Option.bind data (jget ''pane'')) (jget ''scroll'')) of
           Some rows \<Rightarrow> ucast rows = wp_viewport_rows w | None \<Rightarrow> True))"
  shows "handle_event env c now stamp ''pane_updated'' data b = (b, [tree_update_for env data PaneUpdated], NoSubscriptionAction)"
proof -
  have "handle_pane_updated c now data b = b"
  proof (cases "json_u64 ''revision'' (Option.bind data (jget ''pane''))")
    case None
    then show ?thesis using assms(1) by (simp add: handle_pane_updated_def)
  next
    case rev: (Some revision)
    show ?thesis
    proof (cases "br_watched b")
      case None
      then show ?thesis using assms(1) rev by (simp add: handle_pane_updated_def)
    next
      case w: (Some w)
      show ?thesis
      proof (cases "wp_pane_id w = p")
        case False
        then show ?thesis using assms(1) rev w by (simp add: handle_pane_updated_def)
      next
        case True
        then have "revision = wp_last_revision w"
          "case json_u64 ''viewport_rows'' (Option.bind (Option.bind data (jget ''pane'')) (jget ''scroll'')) of
             Some rows \<Rightarrow> ucast rows = wp_viewport_rows w | None \<Rightarrow> True"
          using assms(2) rev w by (auto simp: watches_def watched_pane_id_def)
        then show ?thesis using assms(1) rev w True
          by (cases "json_u64 ''viewport_rows'' (Option.bind (Option.bind data (jget ''pane'')) (jget ''scroll''))")
             (simp_all add: handle_pane_updated_def)
      qed
    qed
  qed
  then show ?thesis by (simp add: handle_event_def refresh_events_def tree_event_for_def)
qed

theorem foreign_update_ignored_witness:
  "handle_event sample_env ok_calls 0 [] ''pane_updated'' (Some (JObj [(''pane_id'', JStr ''q'')])) polling_bridge
     = (polling_bridge, [tree_update_for sample_env (Some (JObj [(''pane_id'', JStr ''q'')])) PaneUpdated], NoSubscriptionAction)"
  by (rule foreign_update_ignored [of _ "''q''"])
     (simp_all add: pane_id_of_def get_str_def watches_def watched_pane_id_def polling_bridge_def held_bridge_def bridge_new_def)

text \<open>C28: The loop returns, and only for its own reasons: it has returned by the first pass whose clock has
  reached the deadline, without an error unless the channel broke or carried a line that is not JSON; no
  failing call of Herdr ends it.\<close>

theorem run_until_returns:
  assumes "run_until env c deadline ts b w = (b', w', r)"
  shows "((\<exists>t\<in>set ts. deadline \<le> tk_now t) \<longrightarrow> r \<noteq> None) \<and>
      (\<forall>e. r = Some (Err e) \<longrightarrow> e \<in> {W_Malformed ''events.subscribe'', W_Herdr IpcIo, W_SubscriptionClosed})"
proof -
  have line: "e = W_Malformed ''events.subscribe''" if "handle_subscription_line env c now stamp pushed b = (b1, Err e)" for now stamp pushed b b1 e
    using that by (auto simp: handle_subscription_line_def split: option.splits if_splits prod.splits)
  show ?thesis
    using assms
  proof (induction ts arbitrary: b w)
    case (Cons t ts)
    show ?case
    proof (cases "deadline \<le> tk_now t")
      case True
      then show ?thesis using Cons.prems by (auto split: prod.splits)
    next
      case False
      then show ?thesis
        using Cons.prems Cons.IH
        by (cases "tk_received t") (auto dest!: line split: prod.splits sum.splits option.splits)
    qed
  qed simp
qed

definition sample_tick :: "instant \<Rightarrow> tick" where
  "sample_tick now = \<lparr>tk_now = now, tk_received = RTimeout, tk_line_now = now, tk_stamp = [], tk_poll_now = now\<rparr>"

theorem run_until_returns_witness:
  "snd (snd (run_until sample_env ok_calls 50 [sample_tick 10, sample_tick 60] polling_bridge \<lparr>ro_slot = None, ro_messages = [], ro_resubscribe = False\<rparr>)) \<noteq> None"
proof -
  obtain b' w' r where u: "run_until sample_env ok_calls 50 [sample_tick 10, sample_tick 60] polling_bridge
      \<lparr>ro_slot = None, ro_messages = [], ro_resubscribe = False\<rparr> = (b', w', r)" by (metis prod_cases3)
  have "r \<noteq> None" using run_until_returns [OF u] by (simp add: sample_tick_def)
  then show ?thesis unfolding u by simp
qed

end
