(* ===== verification/Reply_Accounting.thy ===== *)
theory Reply_Accounting
  imports Watch_Loop Watch_Actions
begin

text \<open>
  What the operations of the watch bridge owe and queue: an operation is \<open>settled\<close> when it neither makes
  nor loses an answer to a deferred submit and queues acknowledgements only. The session counts its
  replies with these facts.
\<close>

fun is_ack :: "app_message \<Rightarrow> bool" where
  "is_ack (M_SendInputAck _) = True"
| "is_ack _ = False"

definition acks :: "outgoing list \<Rightarrow> bool" where
  "acks out \<longleftrightarrow> list_all (\<lambda>(m, _). is_ack m) out"

lemma acks_simps [simp]: "acks []" "acks (a @ b) \<longleftrightarrow> acks a \<and> acks b" "acks ((m, k) # a) \<longleftrightarrow> is_ack m \<and> acks a"
  by (auto simp: acks_def)

lemma is_ack_input_ack [simp]: "is_ack (input_ack p a q)" by (simp add: input_ack_def)

definition settled :: "'h bridge \<Rightarrow> 'h bridge \<Rightarrow> bool" where
  "settled b b' \<longleftrightarrow> (\<forall>k. due_for k b' = due_for k b) \<and> (acks (br_replies b) \<longrightarrow> acks (br_replies b'))"

lemma settled_refl [simp]: "settled b b" by (simp add: settled_def)

lemma settled_trans: "settled b b1 \<Longrightarrow> settled b1 b2 \<Longrightarrow> settled b b2" by (simp add: settled_def)

lemma settled_same: "held_same b b' \<Longrightarrow> settled b b'"
  by (simp add: settled_def held_same_def due_for_def held_for_def)

lemma settled_fields: "br_pending b' = br_pending b \<Longrightarrow> br_replies b' = br_replies b \<Longrightarrow> settled b b'"
  by (simp add: settled_def due_for_def held_for_def)

lemma settled_cancel [simp]: "settled b (cancel_pending_inputs b)"
  by (simp add: settled_def) (simp add: cancel_pending_inputs_def split: option.splits)

lemma send_input_settled: "send_input env c now request b = (b', r) \<Longrightarrow> settled b b'"
  using send_input_watch(1) settled_same settled_cancel settled_trans by metis

lemma send_input_ack: "send_input env c now request b = (b', Ok m) \<Longrightarrow> is_ack m"
  by (auto simp: send_input_def Let_def split: sum.splits prod.splits)

lemma release_settled: "settled b (release_pending_input env c now p b)"
proof -
  have "acks (br_replies (release_pending_input env c now p b))" if a: "acks (br_replies b)"
  proof (cases "br_session_active b = Some False \<or> br_pending b = None \<or> (\<exists>q. br_pending b = Some q \<and> pi_pane_id q \<noteq> p)")
    case True
    then show ?thesis using a settled_cancel [of b] by (auto simp: release_pending_input_def settled_def split: option.splits)
  next
    case False
    then obtain q where q: "br_pending b = Some q" "pi_pane_id q = p" "br_session_active b \<noteq> Some False" by auto
    let ?req = "\<lparr>si_pane_id = pi_pane_id q, si_line = None, si_text = None, si_keys = Some (pi_keys q), si_defer = None, si_bypass_line = None\<rparr>"
    obtain b1 r where s: "send_input env c now ?req (b\<lparr>br_pending := None\<rparr>) = (b1, r)" by force
    have "acks (br_replies b1)" using send_input_settled [OF s] a by (simp add: settled_def)
    then show ?thesis using q s send_input_ack [of env c now ?req "b\<lparr>br_pending := None\<rparr>" b1]
      by (auto simp: release_pending_input_def Let_def split: sum.splits)
  qed
  then show ?thesis by (simp add: settled_def release_due)
qed

section \<open>Requests\<close>

lemma tree_settled: "watch_tree_snapshot env c b = (b', r) \<Longrightarrow> settled b b'"
  by (auto simp: watch_tree_snapshot_def dest: fetch_snapshot_same settled_same split: prod.splits sum.splits)

lemma start_watch_settled: "settled b (fst (start_watch env now pane width text b))"
proof -
  let ?b1 = "if br_watched b \<noteq> None \<and> \<not> watches (rp_pane_id pane) b then cancel_pending_inputs b else b"
  have "settled ?b1 (fst (start_watch env now pane width text b))"
    by (rule settled_fields) (simp_all add: start_watch_def Let_def)
  moreover have "settled b ?b1" by simp
  ultimately show ?thesis using settled_trans by blast
qed

lemma watch_pane_settled: "settled b (fst (watch_pane env c now p b))"
proof -
  obtain b1 r1 where f: "fetch_snapshot env c b = (b1, r1)" by force
  obtain b2 r2 where w: "fetch_width c p b1 = (b2, r2)" by force
  obtain b3 r3 where t: "fetch_visible_text c p b2 = (b3, r3)" by force
  note s = settled_same [OF fetch_snapshot_same [OF f]] settled_same [OF width_same [OF w]] settled_same [OF text_same [OF t]]
  have s2: "settled b b2" and s3: "settled b b3" using s settled_trans by blast+
  have "fst (watch_pane env c now p b) \<in> {b1, b2, b3} \<or> (\<exists>pane width text. fst (watch_pane env c now p b) = fst (start_watch env now pane width text b3))"
    by (auto simp: watch_pane_def f w t split: sum.splits option.splits prod.splits) (metis fst_conv)
  then show ?thesis using s(1) s2 s3 settled_trans [OF s3 start_watch_settled] by auto
qed

lemma unwatch_settled: "settled b (unwatch_pane p b)"
proof -
  have "settled (cancel_pending_inputs b) (stop_watch (cancel_pending_inputs b))"
    by (rule settled_fields) (simp_all add: stop_watch_def)
  from settled_trans [OF settled_cancel this] show ?thesis by (simp add: unwatch_pane_def)
qed

lemma scroll_settled: "scroll_request c p n b = (b', r) \<Longrightarrow> settled b b'"
  by (auto simp: scroll_request_def Let_def dest!: on_herdr_same intro: settled_same split: prod.splits sum.splits option.splits)

lemma subscription_entries_settled: "current_subscription_entries env c b = (b', r) \<Longrightarrow> settled b b'"
  by (auto simp: current_subscription_entries_def dest: fetch_snapshot_same settled_same split: prod.splits sum.splits)

lemma mark_seen_settled: "mark_seen c p b = (b', r) \<Longrightarrow> settled b b'"
  by (auto simp: mark_seen_def dest: on_herdr_same settled_same)

lemma action_list_settled: "action_list_request c os b = (b', r) \<Longrightarrow> settled b b' \<and> (\<forall>m. r = Ok m \<longrightarrow> (\<exists>l. m = M_ActionList l))"
  by (auto simp: action_list_request_def dest: on_herdr_same settled_same split: prod.splits sum.splits)

lemma acted_same:
  "created call pane b = (b', r) \<Longrightarrow> held_same b b'" "performed call' p b = (b', r) \<Longrightarrow> held_same b b'"
  by (auto simp: created_def performed_def dest: on_herdr_same split: prod.splits sum.splits)

lemma pane_ids_same: "snapshot_pane_ids env c b = (b', r) \<Longrightarrow> held_same b b'"
  by (auto simp: snapshot_pane_ids_def dest: fetch_snapshot_same split: prod.splits sum.splits)

lemma context_same: "build_invocation_context env c request b = (b', r) \<Longrightarrow> held_same b b'"
  by (auto simp: build_invocation_context_def Let_def dest: fetch_snapshot_same split: prod.splits sum.splits)

text \<open>The reply of a host action is an acknowledgement of the action or an error.\<close>

fun acts :: "app_message \<Rightarrow> bool" where
  "acts (M_HostActionAck _) = True"
| "acts (M_Error _) = True"
| "acts _ = False"

lemma invoke_same: "invoke_plugin show env c params b = (b', r) \<Longrightarrow> held_same b b' \<and> (\<forall>m. r = Ok m \<longrightarrow> acts m)"
  unfolding invoke_plugin_def Let_def
  by (fastforce dest: pane_ids_same on_herdr_same intro: held_same_trans split: prod.splits sum.splits)

lemma plugin_same: "action_plugin_invoke show env c request b = (b', r) \<Longrightarrow> held_same b b' \<and> (\<forall>m. r = Ok m \<longrightarrow> acts m)"
  unfolding action_plugin_invoke_def
  by (fastforce dest: context_same invoke_same intro: held_same_trans split: prod.splits sum.splits option.splits)

lemma host_action_settled:
  assumes "host_action show env c request b = (b', r)"
  shows "settled b b' \<and> (\<forall>m. r = Ok m \<longrightarrow> acts m)"
proof (cases "ha_action request = PluginInvoke")
  case True
  then have "action_plugin_invoke show env c request b = (b', r)" using assms by (simp add: host_action_def)
  from plugin_same [OF this] show ?thesis using settled_same by blast
next
  case False
  note ops = action_workspace_create_def action_tab_create_def action_pane_split_create_def action_pane_split_existing_def
    action_pane_zoom_def action_pane_close_def action_pane_rename_def action_pane_resize_def
  have "held_same b b' \<and> (\<forall>m. r = Ok m \<longrightarrow> acts m)"
    using assms False
    by (cases "ha_action request")
       (auto simp: host_action_def ops dest: acted_same split: prod.splits sum.splits)
  then show ?thesis using settled_same by blast
qed

section \<open>Deferred requests\<close>

lemma deferred_acks:
  assumes "handle_deferred_input env c now request corr b = (b', rs)" "acks (br_replies b)"
  shows "acks rs \<and> br_replies b' = []"
proof -
  obtain b1 r where d: "deferred_result env c now request corr b = (b1, r)" by force
  have ui: "acks (br_replies x) \<and> (\<forall>m. y = Ok m \<longrightarrow> is_ack m)" if "deferred_until_idle env c now q corr b = (x, y)" for q x y
  proof -
    obtain b2 sn where f: "fetch_snapshot env c b = (b2, sn)" by force
    have b2: "acks (br_replies b2)" using fetch_snapshot_same [OF f] assms(2) by (simp add: held_same_def)
    then have c2: "acks (br_replies (cancel_pending_inputs b2))" using settled_cancel [of b2] by (simp add: settled_def)
    show ?thesis
      using that assms(2) b2 c2 send_input_settled [of env c now q "cancel_pending_inputs b2" x y] send_input_ack [of env c now q "cancel_pending_inputs b2" x]
      by (auto simp: deferred_until_idle_def f Let_def settled_def split: sum.splits if_splits)
  qed
  have ca: "acks (br_replies x) \<and> (\<forall>m. y = Ok m \<longrightarrow> is_ack m)" if "deferred_cancel q b = (x, y)" for q x y
    using that assms(2) settled_cancel [of b] by (auto simp: deferred_cancel_def settled_def split: if_splits option.splits)
  have si: "acks (br_replies x) \<and> (\<forall>m. y = Ok m \<longrightarrow> is_ack m)" if "send_input env c now q b = (x, y)" for q x y
    using that assms(2) send_input_settled [OF that] send_input_ack by (auto simp: settled_def)
  have "acks (br_replies b1) \<and> (\<forall>m. r = Ok m \<longrightarrow> is_ack m)"
    using d ui ca si by (auto simp: deferred_result_def split: if_splits option.splits defer_mode.splits)
  then show ?thesis using assms(1) d by (auto simp: handle_deferred_input_def take_input_replies_def split: sum.splits)
qed

section \<open>Events and the loop\<close>

lemma pane_updated_settled: "settled b (handle_pane_updated c now data b)"
  unfolding handle_pane_updated_def Let_def
  by (auto intro!: settled_fields dest!: width_same simp: held_same_def split: option.splits prod.splits sum.splits)

lemma settle_settled: "settle_agent_status p now b = (b', due) \<Longrightarrow> settled b b'"
  by (rule settled_fields) (auto simp: settle_agent_status_def Let_def split: if_splits)

lemma status_message_settled:
  "agent_status_message env c stamp data p status b = (b', out) \<Longrightarrow> settled b b'"
  by (auto simp: agent_status_message_def Let_def dest: fetch_snapshot_same settled_same split: prod.splits sum.splits option.splits)

lemma on_agent_status_settled: "settled b (fst (on_agent_status env c now stamp data p b))"
proof -
  define b1 where "b1 = b\<lparr>br_observed := AList.update p stamp (br_observed b)\<rparr>"
  have b1: "settled b b1" by (rule settled_fields) (simp_all add: b1_def)
  define b2 where "b2 = (case get_str ''agent_status'' data of Some s \<Rightarrow> if s \<noteq> ''working'' then release_pending_input env c now p b1 else b1 | None \<Rightarrow> b1)"
  have "settled b1 b2" using release_settled by (auto simp: b2_def split: option.splits)
  then have b2: "settled b b2" using b1 settled_trans by blast
  obtain b3 due where d: "settle_agent_status p now b2 = (b3, due)" by force
  have b3: "settled b b3" using settled_trans [OF b2 settle_settled [OF d]] .
  have m: "settled b (fst (agent_status_message env c stamp data p status b3))" for status
    using settled_trans [OF b3 status_message_settled [OF surjective_pairing]] by blast
  show ?thesis
    unfolding on_agent_status_def Let_def b1_def [symmetric] b2_def [symmetric] d
    using b2 b3 m by (cases due) (auto split: option.splits)
qed

lemma handle_event_settled: "settled b (fst (handle_event env c now stamp event data b))"
proof -
  obtain b1 out1 where a: "(if event = ''pane_agent_status_changed''
      then (case pane_id_of data of Some p \<Rightarrow> on_agent_status env c now stamp data p b | None \<Rightarrow> (b, []))
      else (b, [])) = (b1, out1)" by force
  have b1: "settled b b1"
  proof (cases "event = ''pane_agent_status_changed''")
    case True
    then show ?thesis
      using a on_agent_status_settled [of b env c now stamp data]
      by (cases "pane_id_of data") (auto simp: prod_eq_iff)
  qed (use a in simp)
  obtain b2 out3 where d: "(if event \<in> set refresh_events
      then (case fetch_snapshot env c b1 of (b2, Ok raw) \<Rightarrow> (b2, [M_TreeSnapshot (map_snapshot b2 raw)]) | (b2, Err _) \<Rightarrow> (b2, []))
      else (b1, [])) = (b2, out3)" by force
  obtain b2' r where f: "fetch_snapshot env c b1 = (b2', r)" by force
  have "settled b b2'" using settled_trans [OF b1 settled_same [OF fetch_snapshot_same [OF f]]] .
  then have b2: "settled b b2"
    using d b1 by (cases "event \<in> set refresh_events"; cases r) (simp_all add: f)
  have b3: "settled b (handle_pane_updated c now data b2)" using settled_trans [OF b2 pane_updated_settled] .
  show ?thesis
    unfolding handle_event_def a d Let_def prod.case
    using b2 b3 settled_trans [OF b2 unwatch_settled] by (auto split: option.splits)
qed

lemma line_settled: "settled b (fst (handle_subscription_line env c now stamp pushed b))"
  using handle_event_settled [of b env c now stamp]
  by (auto simp: handle_subscription_line_def split: option.splits prod.splits) (metis fst_conv)

lemma poll_settled: "settled b (fst (poll_scheduler env c now b))"
proof (cases "br_scheduler b")
  case (Some s)
  obtain s' outcome where f: "fire now s = (s', outcome)" by force
  show ?thesis
    unfolding poll_scheduler_def Some option.case f prod.case Let_def
    by (auto intro!: settled_fields dest!: text_same simp: held_same_def split: option.splits fire_outcome.splits prod.splits sum.splits)
qed (simp add: poll_scheduler_def)

lemma run_until_settled: "settled b (fst (run_until env c deadline ts b w))"
proof (induction ts arbitrary: b w)
  case (Cons t ts)
  show ?case
  proof (cases "deadline \<le> tk_now t")
    case True
    then show ?thesis using poll_settled [of b env c "tk_now t"] by (simp split: prod.splits) (metis fst_conv)
  next
    case False
    have go: "settled b (fst (case poll_scheduler env c (tk_poll_now t) b1 of (b2, f) \<Rightarrow> run_until env c deadline ts b2 (put_frame f w1)))"
      if "settled b b1" for b1 w1
      using settled_trans [OF that settled_trans [OF poll_settled Cons.IH]] by (simp split: prod.splits) (metis fst_conv)
    show ?thesis
    proof (cases "tk_received t")
      case (RLine pushed)
      obtain b1 r where l: "handle_subscription_line env c (tk_line_now t) (tk_stamp t) pushed b = (b1, r)" by force
      have "settled b b1" using line_settled [of b env c "tk_line_now t" "tk_stamp t" pushed] l by simp
      then show ?thesis using False RLine l go by (cases r) (auto split: prod.splits)
    qed (use False go [of b] in simp_all)
  qed
qed simp

end
