(* ===== verification/Theme.thy ===== *)
theory Theme
  imports Wire_Messages Host_Config
begin

text \<open>
  \<open>herdr-relay/src/theme.rs\<close>: the palettes of Herdr's themes, the choice of one from Herdr's
  configuration file and the debounced watch of that file. The TOML parser, Unicode lower
  case and the file itself (its modification time and its text) are arguments.
\<close>

section \<open>The catalogue\<close>

definition CATALOGUE :: "(string \<times> string list) list" where
  "CATALOGUE = [
    (''catppuccin'',
      [''#89B4FA'', ''#181825'', ''#313244'', ''#45475A'', ''#1E1E2E'', ''#6C7086'', ''#7F849C'', ''#CDD6F4'',
       ''#A6ADC8'', ''#CBA6F7'', ''#A6E3A1'', ''#F9E2AF'', ''#F38BA8'', ''#89B4FA'', ''#94E2D5'', ''#FAB387'']),
    (''catppuccin-latte'',
      [''#1E66F5'', ''#EFF1F5'', ''#CCD0DA'', ''#BCC0CC'', ''#E6E9EF'', ''#9CA0B0'', ''#8C8FA1'', ''#4C4F69'',
       ''#6C6F85'', ''#8839EF'', ''#40A02B'', ''#DF8E1D'', ''#D20F39'', ''#1E66F5'', ''#179299'', ''#FE640B'']),
    (''tokyo-night'',
      [''#7AA2F7'', ''#1A1B26'', ''#24283B'', ''#414868'', ''#1A1B26'', ''#565F89'', ''#697196'', ''#C0CAF5'',
       ''#A9B1D6'', ''#BB9AF7'', ''#9ECE6A'', ''#E0AF68'', ''#F7768E'', ''#7AA2F7'', ''#7DCFFF'', ''#FF9E64'']),
    (''tokyo-night-day'',
      [''#2E7DE9'', ''#E1E2E7'', ''#D5D6DB'', ''#C4C6CE'', ''#DFE1E6'', ''#8C8FA1'', ''#6C6E7E'', ''#3760BF'',
       ''#6172B0'', ''#9854F1'', ''#587539'', ''#8C6C3E'', ''#F52A65'', ''#2E7DE9'', ''#007197'', ''#B15C00'']),
    (''dracula'',
      [''#BD93F9'', ''#21222C'', ''#343746'', ''#424450'', ''#282A36'', ''#6272A4'', ''#6272A4'', ''#F8F8F2'',
       ''#BFBFB8'', ''#BD93F9'', ''#50FA7B'', ''#F1FA8C'', ''#FF5555'', ''#8BE9FD'', ''#8BE9FD'', ''#FFB86C'']),
    (''nord'',
      [''#88C0D0'', ''#2E3440'', ''#3B4252'', ''#434C5E'', ''#2E3440'', ''#4C566A'', ''#616E88'', ''#D8DEE9'',
       ''#ABB9CF'', ''#B48EAD'', ''#A3BE8C'', ''#EBCB8B'', ''#BF616A'', ''#81A1C1'', ''#88C0D0'', ''#D08770'']),
    (''gruvbox'',
      [''#83A598'', ''#282828'', ''#3C3836'', ''#504945'', ''#282828'', ''#665C54'', ''#7C6F64'', ''#EBDBB2'',
       ''#BDAE93'', ''#D3869B'', ''#B8BB26'', ''#FABD2F'', ''#FB4934'', ''#83A598'', ''#8EC07C'', ''#FE8019'']),
    (''gruvbox-light'',
      [''#076678'', ''#FBF1C7'', ''#F2E5BC'', ''#EBDBB2'', ''#FBF1C7'', ''#BDAE93'', ''#928374'', ''#3C3836'',
       ''#665C54'', ''#8F3F71'', ''#79740E'', ''#B57614'', ''#9D0006'', ''#076678'', ''#427B58'', ''#AF3A03'']),
    (''one-dark'',
      [''#61AFEF'', ''#21252B'', ''#2C313A'', ''#3E4451'', ''#282C34'', ''#5C6370'', ''#6B717D'', ''#ABB2BF'',
       ''#8B919E'', ''#C678DD'', ''#98C379'', ''#E5C07B'', ''#E06C75'', ''#61AFEF'', ''#56B6C2'', ''#D19A66'']),
    (''one-light'',
      [''#4078F2'', ''#FAFAFA'', ''#E5E5E6'', ''#D3D3D3'', ''#F0F0F1'', ''#A0A1A7'', ''#8A8B91'', ''#383A42'',
       ''#696C77'', ''#A626A4'', ''#50A14F'', ''#C18401'', ''#E45649'', ''#4078F2'', ''#0184BC'', ''#B76B01'']),
    (''solarized'',
      [''#268BD2'', ''#002B36'', ''#073642'', ''#0D4350'', ''#002B36'', ''#586E75'', ''#657B83'', ''#839496'',
       ''#6C7C80'', ''#6C71C4'', ''#859900'', ''#B58900'', ''#DC322F'', ''#268BD2'', ''#2AA198'', ''#CB4B16'']),
    (''solarized-light'',
      [''#268BD2'', ''#FDF6E3'', ''#EEE8D5'', ''#E4E0C8'', ''#FDF6E3'', ''#93A1A1'', ''#839496'', ''#657B83'',
       ''#586E75'', ''#6C71C4'', ''#859900'', ''#B58900'', ''#DC322F'', ''#268BD2'', ''#2AA198'', ''#CB4B16'']),
    (''kanagawa'',
      [''#7E9CD8'', ''#1F1F28'', ''#2A2A37'', ''#363646'', ''#16161D'', ''#54546D'', ''#6A6A7E'', ''#DCD7BA'',
       ''#A6A69C'', ''#957FB8'', ''#98BB6C'', ''#E6C384'', ''#C34043'', ''#7E9CD8'', ''#7AA89F'', ''#FFA066'']),
    (''kanagawa-lotus'',
      [''#4D699B'', ''#F2ECBC'', ''#E7DDB0'', ''#D9CFA3'', ''#E5DDB0'', ''#8A8980'', ''#716E61'', ''#545464'',
       ''#6F6F69'', ''#B35B79'', ''#6F894E'', ''#E98A00'', ''#C84053'', ''#4D699B'', ''#597B75'', ''#E35A00'']),
    (''rose-pine'',
      [''#C4A7E7'', ''#191724'', ''#1F1D2E'', ''#26233A'', ''#191724'', ''#6E6A86'', ''#908CAA'', ''#E0DEF4'',
       ''#908CAA'', ''#C4A7E7'', ''#31748F'', ''#F6C177'', ''#EB6F92'', ''#9CCFD8'', ''#9CCFD8'', ''#EBBCBA'']),
    (''rose-pine-dawn'',
      [''#907AA9'', ''#FAF4ED'', ''#FFFDF9'', ''#F2E9E1'', ''#FAF4ED'', ''#9893A5'', ''#797593'', ''#575279'',
       ''#797593'', ''#907AA9'', ''#286983'', ''#EA9D34'', ''#B4637A'', ''#56949F'', ''#56949F'', ''#D7827E'']),
    (''vesper'',
      [''#8A9A7B'', ''#101010'', ''#1C1C1C'', ''#282828'', ''#101010'', ''#505050'', ''#606060'', ''#D0D0D0'',
       ''#909090'', ''#8A9A7B'', ''#8A9A7B'', ''#D0A050'', ''#C05050'', ''#6080A0'', ''#70A0A0'', ''#D08050'']),
    (''terminal'',
      [''#000080'', ''reset'', ''reset'', ''#808080'', ''#808080'', ''#C0C0C0'', ''#FFFFFF'', ''reset'',
       ''#C0C0C0'', ''#C0C0C0'', ''#008000'', ''#808000'', ''#FF0000'', ''#000080'', ''#008080'', ''#808000''])]"

definition palette :: "string \<Rightarrow> theme_palette option" where
  "palette n = map_option (\<lambda>(name, colors).
     \<lparr>tp_name = name, tp_accent = colors ! 0, tp_panel_bg = colors ! 1, tp_surface0 = colors ! 2, tp_surface1 = colors ! 3,
      tp_surface_dim = colors ! 4, tp_overlay0 = colors ! 5, tp_overlay1 = colors ! 6, tp_text = colors ! 7,
      tp_subtext0 = colors ! 8, tp_mauve = colors ! 9, tp_green = colors ! 10, tp_yellow = colors ! 11,
      tp_red = colors ! 12, tp_blue = colors ! 13, tp_teal = colors ! 14, tp_peach = colors ! 15\<rparr>)
     (find (\<lambda>(candidate, _). candidate = n) CATALOGUE)"

definition reset_palette :: theme_palette where
  "reset_palette = \<lparr>tp_name = [], tp_accent = ''reset'', tp_panel_bg = ''reset'', tp_surface0 = ''reset'', tp_surface1 = ''reset'',
      tp_surface_dim = ''reset'', tp_overlay0 = ''reset'', tp_overlay1 = ''reset'', tp_text = ''reset'',
      tp_subtext0 = ''reset'', tp_mauve = ''reset'', tp_green = ''reset'', tp_yellow = ''reset'',
      tp_red = ''reset'', tp_blue = ''reset'', tp_teal = ''reset'', tp_peach = ''reset''\<rparr>"

section \<open>Choosing a palette\<close>

record theme_config =
  tc_name :: "string option"
  tc_dark_name :: "string option"
  tc_light_name :: "string option"
  tc_auto_switch :: bool

definition ALIASES :: "(string \<times> string) list" where
  "ALIASES = [(''catppuccin-mocha'', ''catppuccin''), (''catppuccin-dark'', ''catppuccin''), (''latte'', ''catppuccin-latte''),
     (''catppuccin-light'', ''catppuccin-latte''), (''tokyo-night-dark'', ''tokyo-night''), (''tokyo-night-light'', ''tokyo-night-day''),
     (''onedark'', ''one-dark''), (''onelight'', ''one-light''), (''solarized-dark'', ''solarized''),
     (''rosepine'', ''rose-pine''), (''rose-pine-dark'', ''rose-pine''), (''rose-pine-light'', ''rose-pine-dawn'')]"

text \<open>\<open>lower\<close> is \<open>str::to_lowercase\<close>.\<close>

definition canonical :: "(string \<Rightarrow> string) \<Rightarrow> string \<Rightarrow> string" where
  "canonical lower n =
     (let name = map (\<lambda>c. if c \<in> {CHR '' '', CHR ''_''} then CHR ''-'' else c) (lower (trim n))
      in case map_of ALIASES name of Some c \<Rightarrow> c | None \<Rightarrow> name)"

definition SIBLINGS :: "(string \<times> string) list" where
  "SIBLINGS = [(''catppuccin'', ''catppuccin-latte''), (''tokyo-night'', ''tokyo-night-day''), (''gruvbox'', ''gruvbox-light''),
     (''one-dark'', ''one-light''), (''solarized'', ''solarized-light''), (''kanagawa'', ''kanagawa-lotus''), (''rose-pine'', ''rose-pine-dawn'')]"

text \<open>\<open>parse_toml\<close> gives the \<open>theme\<close> table of a text, if there is one; \<open>None\<close> is a text it cannot parse.\<close>

definition resolve_theme :: "(string \<Rightarrow> string) \<Rightarrow> theme_config \<Rightarrow> bool \<Rightarrow> theme_palette option" where
  "resolve_theme lower cfg host_is_light =
     (let base = canonical lower (case tc_name cfg of Some n \<Rightarrow> n | None \<Rightarrow> ''catppuccin'') in
      if \<not> tc_auto_switch cfg then palette base
      else case (if host_is_light then tc_light_name cfg else tc_dark_name cfg) of
        Some selected \<Rightarrow> palette (canonical lower selected)
      | None \<Rightarrow>
          (case find (\<lambda>(dark, light). dark = base \<or> light = base) SIBLINGS of
             Some (dark, light) \<Rightarrow> palette (if host_is_light then light else dark)
           | None \<Rightarrow>
               (case palette base of
                  None \<Rightarrow> None
                | Some _ \<Rightarrow> palette (if host_is_light then ''catppuccin-latte'' else base))))"

definition resolve :: "(string \<Rightarrow> theme_config option option) \<Rightarrow> (string \<Rightarrow> string) \<Rightarrow> string \<Rightarrow> bool \<Rightarrow> theme_palette option" where
  "resolve parse_toml lower config_text host_is_light =
     (case parse_toml config_text of
        Some (Some cfg) \<Rightarrow> resolve_theme lower cfg host_is_light
      | _ \<Rightarrow> None)"

definition load_theme :: "(string \<Rightarrow> theme_palette option) \<Rightarrow> config_file \<Rightarrow> theme_palette option option" where
  "load_theme resolved f =
     (case f of ConfigText t \<Rightarrow> Some (resolved t) | ConfigMissing \<Rightarrow> Some None | ConfigUnreadable \<Rightarrow> None)"

section \<open>Watching the file\<close>

text \<open>A modification time is a number; \<open>None\<close> is a file without one, such as a missing file.\<close>

record theme_watcher =
  tw_modified :: "nat option"
  tw_next_poll :: instant
  tw_pending :: "instant option"
  tw_current :: "theme_palette option"

definition watcher_at :: "instant \<Rightarrow> nat option \<Rightarrow> theme_palette option option \<Rightarrow> theme_watcher" where
  "watcher_at now mtime loaded =
     \<lparr>tw_modified = mtime, tw_next_poll = now + secs 2, tw_pending = None,
      tw_current = (case loaded of Some p \<Rightarrow> p | None \<Rightarrow> None)\<rparr>"

text \<open>\<open>poll\<close> with what the file has at that instant: \<open>loaded\<close> is \<open>None\<close> when it cannot be read.\<close>

definition theme_poll :: "instant \<Rightarrow> nat option \<Rightarrow> theme_palette option option \<Rightarrow> theme_watcher \<Rightarrow> theme_watcher \<times> theme_palette option" where
  "theme_poll now mtime loaded w =
     (let due = (case tw_pending w of Some deadline \<Rightarrow> deadline \<le> now | None \<Rightarrow> False) in
      if now < tw_next_poll w \<and> \<not> due then (w, None)
      else let w1 = w\<lparr>tw_next_poll := now + secs 2\<rparr> in
        if mtime \<noteq> tw_modified w1 then (w1\<lparr>tw_modified := mtime, tw_pending := Some (now + ms 500)\<rparr>, None)
        else if \<not> due then (w1, None)
        else (case loaded of
           None \<Rightarrow> (w1, None)
         | Some next_palette \<Rightarrow>
             let w2 = w1\<lparr>tw_pending := None\<rparr> in
             if next_palette = tw_current w2 then (w2, None)
             else (w2\<lparr>tw_current := next_palette\<rparr>,
                   Some (case next_palette of Some p \<Rightarrow> p | None \<Rightarrow> reset_palette))))"

section \<open>Every name the choice uses is in the catalogue\<close>

lemma catalogue_names: "map fst CATALOGUE =
  [''catppuccin'', ''catppuccin-latte'', ''tokyo-night'', ''tokyo-night-day'', ''dracula'', ''nord'', ''gruvbox'', ''gruvbox-light'',
   ''one-dark'', ''one-light'', ''solarized'', ''solarized-light'', ''kanagawa'', ''kanagawa-lotus'', ''rose-pine'', ''rose-pine-dawn'',
   ''vesper'', ''terminal'']"
  by (simp add: CATALOGUE_def)

lemma palette_name: "palette n = Some p \<Longrightarrow> tp_name p = n \<and> n \<in> set (map fst CATALOGUE)"
  by (auto simp: palette_def find_Some_iff) (metis fst_conv image_eqI nth_mem)

lemma palette_known: "palette n \<noteq> None \<longleftrightarrow> n \<in> set (map fst CATALOGUE)"
  by (force simp: palette_def find_None_iff)

lemma find_in: "find P xs = Some x \<Longrightarrow> P x \<and> x \<in> set xs"
  by (auto simp: find_Some_iff)

lemma sibling_names: "(dark, light) \<in> set SIBLINGS \<Longrightarrow> dark \<in> set (map fst CATALOGUE) \<and> light \<in> set (map fst CATALOGUE)"
  unfolding catalogue_names by (auto simp: SIBLINGS_def)

lemma alias_names: "(a, n) \<in> set ALIASES \<Longrightarrow> n \<in> set (map fst CATALOGUE)"
  unfolding catalogue_names by (auto simp: ALIASES_def)

text \<open>The choice is total on the names it knows: a chosen palette is one of the catalogue; every alias stands for
  a palette; and a configuration that names no palette per mode gets one, on a light and on a dark host,
  exactly when its base is known, the same one for both palettes of a pair.\<close>

theorem theme_choice:
  "(resolve_theme lower cfg l = Some p \<longrightarrow> tp_name p \<in> set (map fst CATALOGUE))
    \<and> (map_of ALIASES a = Some n \<longrightarrow> palette n \<noteq> None)
    \<and> (tc_dark_name cfg = None \<and> tc_light_name cfg = None \<longrightarrow>
      (resolve_theme lower cfg l \<noteq> None \<longleftrightarrow> palette (canonical lower (case tc_name cfg of Some n \<Rightarrow> n | None \<Rightarrow> ''catppuccin'')) \<noteq> None))"
proof (intro conjI impI)
  show "tp_name p \<in> set (map fst CATALOGUE)" if "resolve_theme lower cfg l = Some p"
    using that palette_name [of _ p] by (auto simp: resolve_theme_def Let_def simp del: set_map split: if_splits option.splits)
  show "palette n \<noteq> None" if "map_of ALIASES a = Some n"
    using that alias_names [of a n] unfolding palette_known by (simp only: map_of_SomeD)
  define base where "base = canonical lower (case tc_name cfg of Some n \<Rightarrow> n | None \<Rightarrow> ''catppuccin'')"
  show "resolve_theme lower cfg l \<noteq> None \<longleftrightarrow> palette (canonical lower (case tc_name cfg of Some n \<Rightarrow> n | None \<Rightarrow> ''catppuccin'')) \<noteq> None"
    if none: "tc_dark_name cfg = None \<and> tc_light_name cfg = None"
  proof (cases "tc_auto_switch cfg")
    case True
    show ?thesis
    proof (cases "find (\<lambda>(dark, light). dark = base \<or> light = base) SIBLINGS")
      case None
      have "palette ''catppuccin-latte'' \<noteq> None" by (simp only: palette_known catalogue_names) simp
      then show ?thesis using none True None by (auto simp: resolve_theme_def Let_def base_def split: option.splits)
    next
      case (Some pr)
      obtain dark light where p: "pr = (dark, light)" by force
      have pr: "(dark, light) \<in> set SIBLINGS" "base = dark \<or> base = light"
        using find_in [OF Some] by (auto simp: p)
      then have "palette dark \<noteq> None" "palette light \<noteq> None" using sibling_names by (simp_all only: palette_known)
      then show ?thesis using none True Some p pr by (auto simp: resolve_theme_def Let_def base_def [symmetric])
    qed
  qed (simp add: resolve_theme_def Let_def)
qed

theorem theme_choice_witness:
  "resolve_theme id \<lparr>tc_name = None, tc_dark_name = None, tc_light_name = None, tc_auto_switch = True\<rparr> True \<noteq> None"
proof -
  have "canonical id ''catppuccin'' = ''catppuccin''" by code_simp
  moreover have "palette ''catppuccin'' \<noteq> None" by (simp only: palette_known catalogue_names) simp
  ultimately show ?thesis
    using theme_choice [THEN conjunct2, THEN conjunct2,
      of "\<lparr>tc_name = None, tc_dark_name = None, tc_light_name = None, tc_auto_switch = True\<rparr>" id True] by simp
qed

section \<open>The Device follows the file\<close>

definition shown :: "theme_palette option \<Rightarrow> theme_palette" where
  "shown p = (case p of Some x \<Rightarrow> x | None \<Rightarrow> reset_palette)"

text \<open>Polls with what the file had; the second part is what the Device shows, first from \<open>host_info\<close>.\<close>

fun theme_run :: "(nat option \<Rightarrow> theme_palette option) \<Rightarrow> (instant \<times> nat option \<times> bool) list \<Rightarrow> theme_watcher \<times> theme_palette \<Rightarrow> theme_watcher \<times> theme_palette" where
  "theme_run content [] s = s"
| "theme_run content ((now, mtime, readable) # es) (w, v) =
     (case theme_poll now mtime (if readable then Some (content mtime) else None) w of
        (w1, None) \<Rightarrow> theme_run content es (w1, v)
      | (w1, Some p) \<Rightarrow> theme_run content es (w1, p))"

definition watcher_ok :: "(nat option \<Rightarrow> theme_palette option) \<Rightarrow> theme_watcher \<times> theme_palette \<Rightarrow> bool" where
  "watcher_ok content s \<longleftrightarrow> (case s of (w, v) \<Rightarrow>
     (tw_pending w = None \<longrightarrow> tw_current w = content (tw_modified w)) \<and>
     (\<forall>d. tw_pending w = Some d \<longrightarrow> d \<le> tw_next_poll w) \<and> v = shown (tw_current w))"

lemma ms_half: "now + ms 500 \<le> now + secs 2" by (simp add: ms_def secs_def)

lemma theme_run_append [simp]: "theme_run content (a @ b) s = theme_run content b (theme_run content a s)"
  by (induction content a s rule: theme_run.induct) (auto split: prod.split option.split)

lemma watcher_ok_poll: "watcher_ok content s \<Longrightarrow> watcher_ok content (theme_run content [e] s)"
  using ms_half [of "fst e"]
  by (cases e; cases s) (auto simp: watcher_ok_def theme_poll_def Let_def shown_def split: option.splits if_splits)

lemma watcher_ok_run: "watcher_ok content s \<Longrightarrow> watcher_ok content (theme_run content es s)"
proof (induction es arbitrary: s)
  case (Cons e es)
  show ?case using Cons.IH [OF watcher_ok_poll [OF Cons.prems]] theme_run_append [of content "[e]" es s] by simp
qed simp

text \<open>The Device follows the file. Whatever the file did before and however often it could not be read, once it
  stands still two polls half a second apart, the first at or after its time, bring the Device to the palette
  of the file; and at all times the Device shows what the watcher holds as current.\<close>

theorem theme_follows_file:
  assumes "(w, v) = theme_run content es (watcher_at t0 m0 (Some (content m0)), shown (content m0))"
    and "tw_next_poll w \<le> t1" "t1 + ms 500 \<le> t2"
    and "(w', v') = theme_run content [(t1, m, True), (t2, m, True)] (w, v)"
  shows "v = shown (tw_current w) \<and> v' = shown (content m) \<and> tw_current w' = content m"
proof (intro conjI)
  have "watcher_ok content (watcher_at t0 m0 (Some (content m0)), shown (content m0))"
    by (simp add: watcher_ok_def watcher_at_def)
  from watcher_ok_run [OF this, of es] have ok: "watcher_ok content (w, v)" by (simp only: assms(1))
  then show "v = shown (tw_current w)" by (simp add: watcher_ok_def)
  obtain w1 v1 where one: "(w1, v1) = theme_run content [(t1, m, True)] (w, v)" by (metis surj_pair)
  have ok1: "watcher_ok content (w1, v1)" using watcher_ok_poll [OF ok, of "(t1, m, True)"] by (simp only: one)
  have "tw_modified w1 = m \<and> (\<forall>d. tw_pending w1 = Some d \<longrightarrow> d \<le> t2)"
    using one ok assms(2,3)
    by (auto simp: watcher_ok_def theme_poll_def Let_def split: option.splits if_splits)
  then have two: "tw_modified w1 = m" "\<And>d. tw_pending w1 = Some d \<Longrightarrow> d \<le> t2" by auto
  have run: "(w', v') = theme_run content [(t2, m, True)] (w1, v1)"
    using assms(4) one theme_run_append [of content "[(t1, m, True)]" "[(t2, m, True)]" "(w, v)"] by simp
  show c: "tw_current w' = content m"
    using run two ok1 by (auto simp: watcher_ok_def theme_poll_def Let_def split: option.splits if_splits)
  have "watcher_ok content (w', v')" using watcher_ok_poll [OF ok1, of "(t2, m, True)"] by (simp only: run)
  then show "v' = shown (content m)" by (simp add: watcher_ok_def c)
qed

definition two_themes :: "nat option \<Rightarrow> theme_palette option" where
  "two_themes m = (if m = Some 1 then palette ''nord'' else None)"

theorem theme_follows_file_witness:
  "snd (theme_run two_themes [(secs 3, Some 1, True), (secs 4, Some 1, True)]
     (theme_run two_themes [(secs 1, None, True)] (watcher_at 0 None (Some (two_themes None)), shown (two_themes None)))) = shown (palette ''nord'')
   \<and> palette ''nord'' \<noteq> None"
proof
  obtain w v where one: "(w, v) = theme_run two_themes [(secs 1, None, True)] (watcher_at 0 None (Some (two_themes None)), shown (two_themes None))"
    by (metis surj_pair)
  have np: "tw_next_poll w \<le> secs 3"
    using one by (simp add: theme_poll_def watcher_at_def Let_def secs_def)
  obtain w' v' where two: "(w', v') = theme_run two_themes [(secs 3, Some 1, True), (secs 4, Some 1, True)] (w, v)" by (metis surj_pair)
  have "v' = shown (two_themes (Some 1))"
    by (rule conjunct1 [OF conjunct2 [OF theme_follows_file [OF one np _ two]]]) (simp add: ms_def secs_def)
  then show "snd (theme_run two_themes [(secs 3, Some 1, True), (secs 4, Some 1, True)]
     (theme_run two_themes [(secs 1, None, True)] (watcher_at 0 None (Some (two_themes None)), shown (two_themes None)))) = shown (palette ''nord'')"
    unfolding one [symmetric] two [symmetric] by (simp add: two_themes_def)
qed (simp only: palette_known catalogue_names, simp)

end
