(* ===== verification/Session_Loop.thy ===== *)
theory Session_Loop
  imports Reply_Accounting Host_Core Theme "HOL-Library.Sublist"
begin

text \<open>
  \<open>herdr-relay/src/bridge.rs\<close>, one established session: the dispatch of a Device's frames, the queue of
  requests, the thread that owns the watch bridge and answers them, and the sending of its replies. The
  channels are lists, oldest first. The thread's loop is cut at its own seams (one request served, one
  tick) and \<open>session_step\<close> interleaves them with the arrival and the sending of messages and with the
  other users of the host state. JSON, the clock, the files, Herdr and the socket are arguments.
\<close>

section \<open>Dispatch of incoming frames\<close>

record session_env =
  se_watch :: watch_env
  se_from_slice :: "string \<Rightarrow> frame option"
  se_from_value :: "json \<Rightarrow> app_message option"
  se_to_value :: "app_message \<Rightarrow> json option"
  se_to_vec :: "frame \<Rightarrow> string option"
  se_show :: "watch_error \<Rightarrow> string"
  se_show_frame_error :: "frame_error \<Rightarrow> string"
  se_fingerprint :: "8 word list \<Rightarrow> string"
  se_ser :: "paired_device list \<Rightarrow> string option"
  se_os :: string

datatype dispatch_outcome = DO_Continue | DO_Pong "string option" | DO_Disconnect | DO_DeviceInfo | DO_Error string

datatype bridge_request =
    BR_TreeRequest "string option"
  | BR_WatchPane string "string option"
  | BR_SendInput send_input_req "string option"
  | BR_ScrollRequest string "32 word" "string option"
  | BR_UnwatchPane string
  | BR_MarkSeen string
  | BR_ActionListRequest "string option"
  | BR_HostAction host_action_req "string option"
  | BR_DeviceListRequest "string option"
  | BR_RevokeDevice revoke_request "string option"
  | BR_CancelPending

definition decode_message :: "session_env \<Rightarrow> string \<Rightarrow> (app_message, string) result" where
  "decode_message env bytes =
     (case from_json_bytes (se_from_slice env) bytes of
        Err e \<Rightarrow> Err (''parsing a frame failed: '' @ se_show_frame_error env e)
      | Ok f \<Rightarrow>
          (case frame_message (se_from_value env) f of
             Err e \<Rightarrow> Err (''decoding a message failed: '' @ se_show_frame_error env e)
           | Ok m \<Rightarrow> Ok m))"

text \<open>What the message of a frame with correlation \<open>corr\<close> puts on the request channel, and the outcome.\<close>

fun dispatch_message :: "string option \<Rightarrow> app_message \<Rightarrow> bridge_request list \<times> dispatch_outcome" where
  "dispatch_message corr M_Ping = ([], DO_Pong corr)"
| "dispatch_message corr M_TreeRequest = ([BR_TreeRequest corr], DO_Continue)"
| "dispatch_message corr (M_WatchPane p) = ([BR_WatchPane p corr], DO_Continue)"
| "dispatch_message corr (M_SendInput r) = ([BR_SendInput r corr], DO_Continue)"
| "dispatch_message corr (M_ScrollRequest p n) = ([BR_ScrollRequest p n corr], DO_Continue)"
| "dispatch_message corr (M_UnwatchPane p) = ([BR_UnwatchPane p], DO_Continue)"
| "dispatch_message corr M_ActionListRequest = ([BR_ActionListRequest corr], DO_Continue)"
| "dispatch_message corr (M_MarkSeen p) = ([BR_MarkSeen p], DO_Continue)"
| "dispatch_message corr (M_HostAction r) = ([BR_HostAction r corr], DO_Continue)"
| "dispatch_message corr M_DeviceListRequest = ([BR_DeviceListRequest corr], DO_Continue)"
| "dispatch_message corr (M_RevokeDevice r) = ([BR_RevokeDevice r corr], DO_Continue)"
| "dispatch_message corr (M_DeviceInfo _) = ([], DO_DeviceInfo)"
| "dispatch_message corr M_Disconnect = ([], DO_Disconnect)"
| "dispatch_message corr _ = ([], DO_Continue)"

definition dispatch_incoming :: "session_env \<Rightarrow> string \<Rightarrow> bridge_request list \<times> dispatch_outcome" where
  "dispatch_incoming env bytes =
     (case from_json_bytes (se_from_slice env) bytes of
        Err e \<Rightarrow> ([], DO_Error (''parsing a frame failed: '' @ se_show_frame_error env e))
      | Ok f \<Rightarrow>
          (case frame_message (se_from_value env) f of
             Err e \<Rightarrow> ([], DO_Error (''decoding a message failed: '' @ se_show_frame_error env e))
           | Ok m \<Rightarrow> dispatch_message (fm_corr f) m))"

section \<open>Queues\<close>

definition line_only :: "send_input_req \<Rightarrow> bool" where
  "line_only r \<longleftrightarrow> si_line r \<noteq> None \<and> si_text r = None \<and> si_keys r = None \<and> si_defer r = None"

text \<open>The loop of \<open>coalesce_input\<close>: the newest request, the correlations it answers, the request that stopped
  the loop and what is left on the channel.\<close>

fun coalesce_queue :: "send_input_req \<Rightarrow> string option list \<Rightarrow> bridge_request list \<Rightarrow> send_input_req \<times> string option list \<times> bridge_request option \<times> bridge_request list" where
  "coalesce_queue request corrs [] = (request, corrs, None, [])"
| "coalesce_queue request corrs (BR_SendInput newer corr # rest) =
     (if line_only newer \<and> si_pane_id newer = si_pane_id request
      then coalesce_queue newer (corrs @ [corr]) rest
      else (request, corrs, Some (BR_SendInput newer corr), rest))"
| "coalesce_queue request corrs (other # rest) = (request, corrs, Some other, rest)"

definition coalesce_input :: "send_input_req \<Rightarrow> string option \<Rightarrow> bridge_request list \<Rightarrow> send_input_req \<times> string option list \<times> bridge_request option \<times> bridge_request list" where
  "coalesce_input request corr queue =
     (if line_only request then coalesce_queue request [corr] queue else (request, [corr], None, queue))"

definition reply_to_inputs :: "app_message \<Rightarrow> string option list \<Rightarrow> outgoing list" where
  "reply_to_inputs reply corrs =
     map (Pair reply) (butlast corrs) @ (case corrs of [] \<Rightarrow> [] | _ \<Rightarrow> [(reply, last corrs)])"

fun retain_newest :: "string list \<Rightarrow> outgoing list \<Rightarrow> outgoing list" where
  "retain_newest panes [] = []"
| "retain_newest panes ((M_PaneFrame f, k) # out) =
     (if pf_pane_id f \<in> set panes then retain_newest panes out
      else (M_PaneFrame f, k) # retain_newest (pf_pane_id f # panes) out)"
| "retain_newest panes (m # out) = m # retain_newest panes out"

definition drain_outgoing :: "outgoing \<Rightarrow> outgoing list \<Rightarrow> outgoing list" where
  "drain_outgoing first rest = rev (retain_newest [] (rev (first # rest)))"

section \<open>The session thread\<close>

text \<open>\<open>sn_subscription\<close> is the frame slot of the open events subscription.\<close>

record ('h, 'q, 'k) session =
  sn_bridge :: "'h bridge"
  sn_subscription :: "pane_frame latest_slot option"
  sn_requests :: "bridge_request list"
  sn_pending :: "bridge_request option"
  sn_out :: "outgoing list"
  sn_host :: "('q, 'k) host_state"
  sn_theme :: theme_watcher
  sn_device_id :: string

record 'h session_calls =
  sx_herdr :: "'h herdr_calls"
  sx_subscribe :: "json list \<Rightarrow> ('h, unit) call"

text \<open>What serving one request reads from outside: the clock, the outcome of saving the device list, of
  rotating the host key and of reloading it.\<close>

record 'k served =
  sv_now :: instant
  sv_save :: save_outcome
  sv_rotate_ok :: bool
  sv_reloaded :: "'k option"

definition send_out :: "outgoing list \<Rightarrow> ('h, 'q, 'k) session \<Rightarrow> ('h, 'q, 'k) session" where
  "send_out out s = s\<lparr>sn_out := sn_out s @ out\<rparr>"

definition on_bridge :: "('h bridge \<Rightarrow> 'h bridge \<times> 'a) \<Rightarrow> ('h, 'q, 'k) session \<Rightarrow> ('h, 'q, 'k) session \<times> 'a" where
  "on_bridge f s = (case f (sn_bridge s) of (b, r) \<Rightarrow> (s\<lparr>sn_bridge := b\<rparr>, r))"

definition answer :: "session_env \<Rightarrow> string option \<Rightarrow> (app_message, watch_error) result \<Rightarrow> outgoing" where
  "answer env corr r = (case r of Ok m \<Rightarrow> (m, corr) | Err e \<Rightarrow> (M_Error (map_watch_error (se_show env) e), corr))"

definition map_ok :: "('a \<Rightarrow> 'b) \<Rightarrow> ('a, 'e) result \<Rightarrow> ('b, 'e) result" where
  "map_ok f r = (case r of Ok x \<Rightarrow> Ok (f x) | Err e \<Rightarrow> Err e)"

definition answer_with :: "session_env \<Rightarrow> string option \<Rightarrow> ('h bridge \<Rightarrow> 'h bridge \<times> (app_message, watch_error) result) \<Rightarrow> ('h, 'q, 'k) session \<Rightarrow> ('h, 'q, 'k) session" where
  "answer_with env corr f s = (case on_bridge f s of (s1, r) \<Rightarrow> send_out [answer env corr r] s1)"

definition take_replies :: "('h, 'q, 'k) session \<Rightarrow> ('h, 'q, 'k) session" where
  "take_replies s = (case on_bridge take_input_replies s of (s1, rs) \<Rightarrow> send_out rs s1)"

definition open_subscription :: "session_env \<Rightarrow> 'h session_calls \<Rightarrow> 'h bridge \<Rightarrow> 'h bridge \<times> pane_frame latest_slot option" where
  "open_subscription env x b =
     (case current_subscription_entries (se_watch env) (sx_herdr x) b of (b1, entries) \<Rightarrow>
       case on_herdr (sx_subscribe x entries) b1 of (b2, r) \<Rightarrow> (b2, if is_ok r then Some None else None))"

definition reopen :: "session_env \<Rightarrow> 'h session_calls \<Rightarrow> ('h, 'q, 'k) session \<Rightarrow> ('h, 'q, 'k) session" where
  "reopen env x s = (case on_bridge (open_subscription env x) s of (s1, sub) \<Rightarrow> s1\<lparr>sn_subscription := sub\<rparr>)"

definition subscribing_failed :: app_message where
  "subscribing_failed = M_Error \<lparr>em_code = E_InternalError, em_message = ''subscribing to pane updates failed'', em_fatal = False\<rparr>"

text \<open>\<open>bridge_thread\<close> up to its loop; the observed stamps and the shadows are the host's, shared by all sessions.\<close>

definition session_start ::
  "session_env \<Rightarrow> 'h session_calls \<Rightarrow> 'h \<Rightarrow> string \<Rightarrow> string \<Rightarrow> f64 relay_config \<Rightarrow> (string, string) hmap \<Rightarrow> (string, string) hmap \<Rightarrow>
     ('q, 'k) host_state \<Rightarrow> theme_watcher \<Rightarrow> string \<Rightarrow> ('h, 'q, 'k) session" where
  "session_start env x h host_id hname cfg observed lines host theme device_id =
     reopen env x
       \<lparr>sn_bridge = (bridge_new h host_id hname cfg)\<lparr>br_observed := observed, br_lines := lines, br_session_active := Some True\<rparr>,
        sn_subscription = None, sn_requests = [], sn_pending = None, sn_out = [], sn_host = host, sn_theme = theme,
        sn_device_id = device_id\<rparr>"

definition serve_watch :: "session_env \<Rightarrow> 'h session_calls \<Rightarrow> instant \<Rightarrow> string \<Rightarrow> string option \<Rightarrow> ('h, 'q, 'k) session \<Rightarrow> ('h, 'q, 'k) session" where
  "serve_watch env x now pane_id corr s =
     (case on_bridge (watch_pane (se_watch env) (sx_herdr x) now pane_id) s of
        (s1, Err e) \<Rightarrow> send_out [answer env corr (Err e)] s1
      | (s1, Ok (ack, f)) \<Rightarrow>
          let s2 = send_out [(M_WatchAck ack, corr), (M_PaneFrame f, None)] s1 in
          if sn_subscription s2 \<noteq> None then s2
          else let s3 = reopen env x s2 in
            if sn_subscription s3 = None then send_out [(subscribing_failed, None)] s3 else s3)"

definition serve_input :: "session_env \<Rightarrow> 'h session_calls \<Rightarrow> instant \<Rightarrow> send_input_req \<Rightarrow> string option \<Rightarrow> ('h, 'q, 'k) session \<Rightarrow> ('h, 'q, 'k) session" where
  "serve_input env x now request corr s =
     (if si_defer request \<noteq> None
      then (case on_bridge (handle_deferred_input (se_watch env) (sx_herdr x) now request corr) s of (s1, rs) \<Rightarrow> send_out rs s1)
      else
        case coalesce_input request corr (sn_requests s) of (newest, corrs, stopped, rest) \<Rightarrow>
        case on_bridge (send_input (se_watch env) (sx_herdr x) now newest)
               (s\<lparr>sn_requests := rest, sn_pending := stopped\<rparr>) of (s1, r) \<Rightarrow>
        send_out (reply_to_inputs (case r of Ok m \<Rightarrow> m | Err _ \<Rightarrow> input_ack (si_pane_id newest) False False) corrs) s1)"

definition serve_revoke :: "session_env \<Rightarrow> 'k served \<Rightarrow> revoke_request \<Rightarrow> string option \<Rightarrow> ('h, 'q, 'k) session \<Rightarrow> ('h, 'q, 'k) session" where
  "serve_revoke env sv request corr s =
     (case wire_revoke (se_ser env) (sv_save sv) (sv_rotate_ok sv) (sv_reloaded sv) request (sn_host s) of
        (h, r) \<Rightarrow> send_out [answer env corr (case r of Ok res \<Rightarrow> Ok (M_RevokeResult res) | Err e \<Rightarrow> Err (W_Device e))] (s\<lparr>sn_host := h\<rparr>))"

fun serve_request :: "session_env \<Rightarrow> 'h session_calls \<Rightarrow> 'k served \<Rightarrow> bridge_request \<Rightarrow> ('h, 'q, 'k) session \<Rightarrow> ('h, 'q, 'k) session" where
  "serve_request env x sv (BR_TreeRequest corr) s =
     answer_with env corr (\<lambda>b. case watch_tree_snapshot (se_watch env) (sx_herdr x) b of (b1, r) \<Rightarrow> (b1, map_ok M_TreeSnapshot r)) s"
| "serve_request env x sv (BR_WatchPane p corr) s = serve_watch env x (sv_now sv) p corr s"
| "serve_request env x sv (BR_SendInput request corr) s = serve_input env x (sv_now sv) request corr s"
| "serve_request env x sv (BR_ScrollRequest p n corr) s =
     answer_with env corr (\<lambda>b. case scroll_request (sx_herdr x) p n b of (b1, r) \<Rightarrow> (b1, map_ok M_ScrollResponse r)) s"
| "serve_request env x sv (BR_UnwatchPane p) s = s\<lparr>sn_bridge := unwatch_pane p (sn_bridge s)\<rparr>"
| "serve_request env x sv (BR_MarkSeen p) s =
     (case on_bridge (mark_seen (sx_herdr x) p) s of
        (s1, Ok _) \<Rightarrow> s1
      | (s1, Err e) \<Rightarrow> send_out [answer env None (Err e)] s1)"
| "serve_request env x sv (BR_ActionListRequest corr) s = answer_with env corr (action_list_request (sx_herdr x) (se_os env)) s"
| "serve_request env x sv (BR_HostAction request corr) s =
     answer_with env corr (host_action (se_show env) (se_watch env) (sx_herdr x) request) s"
| "serve_request env x sv (BR_DeviceListRequest corr) s =
     send_out [(M_DeviceList (device_list (se_fingerprint env) (hs_store (sn_host s)) (Some (sn_device_id s))), corr)] s"
| "serve_request env x sv (BR_RevokeDevice request corr) s = serve_revoke env sv request corr s"
| "serve_request env x sv BR_CancelPending s = take_replies (s\<lparr>sn_bridge := cancel_pending_inputs (sn_bridge s)\<rparr>)"

text \<open>The request the inner loop takes next, and one pass of it.\<close>

definition next_request :: "('h, 'q, 'k) session \<Rightarrow> (bridge_request \<times> ('h, 'q, 'k) session) option" where
  "next_request s =
     (case sn_pending s of
        Some r \<Rightarrow> Some (r, s\<lparr>sn_pending := None\<rparr>)
      | None \<Rightarrow> (case sn_requests s of [] \<Rightarrow> None | r # rs \<Rightarrow> Some (r, s\<lparr>sn_requests := rs\<rparr>)))"

definition serve_one :: "session_env \<Rightarrow> 'h session_calls \<Rightarrow> 'k served \<Rightarrow> ('h, 'q, 'k) session \<Rightarrow> ('h, 'q, 'k) session" where
  "serve_one env x sv s = (case next_request s of None \<Rightarrow> s | Some (r, s1) \<Rightarrow> take_replies (serve_request env x sv r s1))"

text \<open>The rest of the outer loop: the theme, then fifty milliseconds of the watch loop over the subscription.\<close>

record tick_input =
  ti_now :: instant
  ti_mtime :: "nat option"
  ti_loaded :: "theme_palette option option"
  ti_deadline :: instant
  ti_ticks :: "tick list"

definition theme_part :: "tick_input \<Rightarrow> ('h, 'q, 'k) session \<Rightarrow> ('h, 'q, 'k) session" where
  "theme_part ti s =
     (case theme_poll (ti_now ti) (ti_mtime ti) (ti_loaded ti) (sn_theme s) of (w, p) \<Rightarrow>
        send_out (case p of Some x \<Rightarrow> [(M_HostTheme x, None)] | None \<Rightarrow> []) (s\<lparr>sn_theme := w\<rparr>))"

definition watch_part :: "session_env \<Rightarrow> 'h session_calls \<Rightarrow> tick_input \<Rightarrow> ('h, 'q, 'k) session \<Rightarrow> ('h, 'q, 'k) session" where
  "watch_part env x ti s =
     (case sn_subscription s of
        None \<Rightarrow> s
      | Some slot \<Rightarrow>
          (case run_until (se_watch env) (sx_herdr x) (ti_deadline ti) (ti_ticks ti) (sn_bridge s)
                  \<lparr>ro_slot = slot, ro_messages = [], ro_resubscribe = False\<rparr> of (b1, o1, outcome) \<Rightarrow>
             case slot_try_take (ro_slot o1) of (slot1, f) \<Rightarrow>
             let s1 = take_replies (send_out (map (\<lambda>m. (m, None)) (ro_messages o1) @ (case f of Some pf \<Rightarrow> [(M_PaneFrame pf, None)] | None \<Rightarrow> []))
                        (s\<lparr>sn_bridge := b1, sn_subscription := Some slot1\<rparr>)) in
             if (case outcome of Some (Err _) \<Rightarrow> True | _ \<Rightarrow> False) then s1\<lparr>sn_subscription := None\<rparr>
             else if ro_resubscribe o1 then reopen env x s1
             else s1))"

definition tick_session :: "session_env \<Rightarrow> 'h session_calls \<Rightarrow> tick_input \<Rightarrow> ('h, 'q, 'k) session \<Rightarrow> ('h, 'q, 'k) session" where
  "tick_session env x ti s = watch_part env x ti (theme_part ti s)"

section \<open>The inner loop\<close>

lemma send_out_simps [simp]:
  "sn_bridge (send_out out s) = sn_bridge s" "sn_subscription (send_out out s) = sn_subscription s"
  "sn_requests (send_out out s) = sn_requests s" "sn_pending (send_out out s) = sn_pending s"
  "sn_out (send_out out s) = sn_out s @ out" "sn_host (send_out out s) = sn_host s"
  "sn_theme (send_out out s) = sn_theme s" "sn_device_id (send_out out s) = sn_device_id s"
  by (simp_all add: send_out_def)

lemma on_bridge_simps [simp]:
  "sn_bridge (fst (on_bridge f s)) = fst (f (sn_bridge s))" "sn_subscription (fst (on_bridge f s)) = sn_subscription s"
  "sn_requests (fst (on_bridge f s)) = sn_requests s" "sn_pending (fst (on_bridge f s)) = sn_pending s"
  "sn_out (fst (on_bridge f s)) = sn_out s" "sn_host (fst (on_bridge f s)) = sn_host s"
  "snd (on_bridge f s) = snd (f (sn_bridge s))"
  by (simp_all add: on_bridge_def split: prod.split)

text \<open>The requests that wait: the one put back by the coalescing, then the channel.\<close>

definition waiting :: "('h, 'q, 'k) session \<Rightarrow> bridge_request list" where
  "waiting s = (case sn_pending s of Some r \<Rightarrow> [r] | None \<Rightarrow> []) @ sn_requests s"

lemma next_request_waiting:
  "next_request s = None \<longleftrightarrow> waiting s = []"
  "next_request s = Some (r, s1) \<Longrightarrow> waiting s = r # waiting s1 \<and> sn_pending s1 = None \<and> sn_bridge s1 = sn_bridge s \<and> sn_out s1 = sn_out s"
  by (auto simp: next_request_def waiting_def split: option.splits list.splits)

lemma coalesce_length:
  "coalesce_queue request corrs queue = (newest, corrs', stopped, rest) \<Longrightarrow>
     length (case stopped of Some r \<Rightarrow> [r] | None \<Rightarrow> []) + length rest \<le> length queue"
  by (induction request corrs queue rule: coalesce_queue.induct) (auto split: if_splits)

lemma reopen_queue [simp]:
  "sn_requests (reopen env x s) = sn_requests s" "sn_pending (reopen env x s) = sn_pending s"
  "sn_out (reopen env x s) = sn_out s" "sn_host (reopen env x s) = sn_host s"
  by (simp_all add: reopen_def on_bridge_def split: prod.splits)

lemma take_replies_queue [simp]:
  "sn_requests (take_replies s) = sn_requests s" "sn_pending (take_replies s) = sn_pending s"
  "sn_host (take_replies s) = sn_host s" "sn_subscription (take_replies s) = sn_subscription s"
  by (simp_all add: take_replies_def on_bridge_def split: prod.splits)

lemma answer_with_queue [simp]:
  "sn_requests (answer_with env corr f s) = sn_requests s" "sn_pending (answer_with env corr f s) = sn_pending s"
  by (simp_all add: answer_with_def on_bridge_def split: prod.splits)

lemma serve_watch_queue [simp]:
  "sn_requests (serve_watch env x now p corr s) = sn_requests s" "sn_pending (serve_watch env x now p corr s) = sn_pending s"
  by (auto simp: serve_watch_def on_bridge_def Let_def split: prod.splits sum.splits)

lemma serve_input_queue:
  assumes "sn_pending s = None"
  shows "length (waiting (serve_input env x now request corr s)) \<le> length (waiting s)"
proof -
  have "length (case p of Some r \<Rightarrow> [r] | None \<Rightarrow> []) + length q \<le> length (sn_requests s)"
    if "coalesce_input request corr (sn_requests s) = (newest, corrs, p, q)" for newest corrs p q
    using that coalesce_length [of request "[corr]" "sn_requests s" newest corrs p q]
    by (auto simp: coalesce_input_def split: if_splits)
  then show ?thesis
    using assms by (fastforce simp: serve_input_def waiting_def on_bridge_def split: prod.splits)
qed

lemma serve_request_queue:
  assumes "sn_pending s = None"
  shows "length (waiting (serve_request env x sv r s)) \<le> length (waiting s)"
proof (cases r)
  case (BR_SendInput request corr)
  then show ?thesis using serve_input_queue [OF assms] by simp
qed (simp_all add: waiting_def serve_revoke_def on_bridge_def split: prod.splits sum.splits)

lemma serve_one_shorter: "next_request s \<noteq> None \<Longrightarrow> length (waiting (serve_one env x sv s)) < length (waiting s)"
proof -
  assume "next_request s \<noteq> None"
  then obtain r s1 where n: "next_request s = Some (r, s1)" by auto
  note w = next_request_waiting(2) [OF n]
  have "length (waiting (take_replies (serve_request env x sv r s1))) \<le> length (waiting s1)"
    using serve_request_queue [of s1] w by (simp add: waiting_def)
  then show ?thesis using w by (simp add: serve_one_def n)
qed

text \<open>The inner loop with no further arrivals; it serves at least one request a pass, so it ends.\<close>

function serve_all :: "session_env \<Rightarrow> 'h session_calls \<Rightarrow> (nat \<Rightarrow> 'k served) \<Rightarrow> ('h, 'q, 'k) session \<Rightarrow> ('h, 'q, 'k) session" where
  "serve_all env x svs s =
     (case next_request s of None \<Rightarrow> s | Some _ \<Rightarrow> serve_all env x (\<lambda>n. svs (Suc n)) (serve_one env x (svs 0) s))"
  by pat_completeness auto
termination
  by (relation "measure (\<lambda>(env, x, svs, s). length (waiting s))") (auto intro: serve_one_shorter)

declare serve_all.simps [simp del]

lemma serve_all_served: "waiting (serve_all env x svs s) = []"
proof (induction env x svs s rule: serve_all.induct)
  case (1 env x svs s)
  show ?case
  proof (cases "next_request s")
    case None
    then show ?thesis using next_request_waiting(1) [of s] by (simp add: serve_all.simps [of env x svs s])
  next
    case (Some rs)
    then show ?thesis using 1 by (simp add: serve_all.simps [of env x svs s])
  qed
qed

section \<open>Every request is answered once\<close>

text \<open>
  A request with a correlation is owed one answer. An acknowledgement that a submit is held is not one yet,
  and frames answer nothing. \<open>balance\<close> adds up what a session has queued, holds and still owes.
\<close>

fun is_answer :: "app_message \<Rightarrow> bool" where
  "is_answer (M_SendInputAck a) = (\<not> sa_queued a)"
| "is_answer (M_PaneFrame _) = False"
| "is_answer _ = True"

definition answers :: "string \<Rightarrow> outgoing list \<Rightarrow> nat" where
  "answers k out = length (filter (\<lambda>(m, c). is_answer m \<and> c = Some k) out)"

fun request_corr :: "bridge_request \<Rightarrow> string option" where
  "request_corr (BR_TreeRequest corr) = corr"
| "request_corr (BR_WatchPane _ corr) = corr"
| "request_corr (BR_SendInput _ corr) = corr"
| "request_corr (BR_ScrollRequest _ _ corr) = corr"
| "request_corr (BR_ActionListRequest corr) = corr"
| "request_corr (BR_HostAction _ corr) = corr"
| "request_corr (BR_DeviceListRequest corr) = corr"
| "request_corr (BR_RevokeDevice _ corr) = corr"
| "request_corr _ = None"

definition owed :: "string \<Rightarrow> bridge_request list \<Rightarrow> nat" where
  "owed k rs = length (filter (\<lambda>r. request_corr r = Some k) rs)"

definition balance :: "string \<Rightarrow> ('h, 'q, 'k) session \<Rightarrow> nat" where
  "balance k s = answers k (sn_out s) + due_for (Some k) (sn_bridge s) + owed k (waiting s)"

lemma answers_simps [simp]:
  "answers k [] = 0" "answers k (a @ b) = answers k a + answers k b"
  "answers k ((m, c) # a) = (if is_answer m \<and> c = Some k then 1 else 0) + answers k a"
  by (simp_all add: answers_def)

lemma owed_simps [simp]:
  "owed k [] = 0" "owed k (a @ b) = owed k a + owed k b"
  "owed k (r # a) = (if request_corr r = Some k then 1 else 0) + owed k a"
  by (simp_all add: owed_def)

lemma answers_unasked [simp]: "answers k (map (\<lambda>m. (m, None)) out) = 0"
  by (simp add: answers_def filter_map o_def)

lemma acks_answers: "acks out \<Longrightarrow> answers k out = finals (Some k) out"
proof (induction out)
  case (Cons mc out)
  obtain m c where "mc = (m, c)" by force
  then show ?case using Cons by (cases m) (auto simp: finals_def)
qed simp

lemma acts_answer: "acts m \<Longrightarrow> is_answer m" by (cases m) simp_all

lemma reply_to_inputs_map: "reply_to_inputs reply corrs = map (Pair reply) corrs"
proof (cases corrs)
  case (Cons c cs)
  then have "map (Pair reply) (butlast corrs @ [last corrs]) = map (Pair reply) corrs" by (subst append_butlast_last_id) simp_all
  then show ?thesis using Cons by (simp add: reply_to_inputs_def)
qed (simp add: reply_to_inputs_def)

lemma answers_replies: "is_answer reply \<Longrightarrow> answers k (map (Pair reply) corrs) = length (filter (\<lambda>c. c = Some k) corrs)"
  by (simp add: answers_def filter_map o_def)

lemma coalesce_owed:
  "coalesce_queue request corrs queue = (newest, corrs', stopped, rest) \<Longrightarrow>
     length (filter (\<lambda>c. c = Some k) corrs') + owed k ((case stopped of Some r \<Rightarrow> [r] | None \<Rightarrow> []) @ rest)
       = length (filter (\<lambda>c. c = Some k) corrs) + owed k queue"
  by (induction request corrs queue rule: coalesce_queue.induct) (auto split: if_splits)

lemma coalesce_input_owed:
  "coalesce_input request corr queue = (newest, corrs', stopped, rest) \<Longrightarrow>
     length (filter (\<lambda>c. c = Some k) corrs') + owed k ((case stopped of Some r \<Rightarrow> [r] | None \<Rightarrow> []) @ rest)
       = (if corr = Some k then 1 else 0) + owed k queue"
  using coalesce_owed [of request "[corr]" queue newest corrs' stopped rest k]
  by (auto simp: coalesce_input_def split: if_splits)

text \<open>One step books \<open>n\<close> more: the balance grows by \<open>n\<close>, and acknowledgements stay alone in the replies.\<close>

definition books :: "string \<Rightarrow> nat \<Rightarrow> ('h, 'q, 'k) session \<Rightarrow> ('h, 'q, 'k) session \<Rightarrow> bool" where
  "books k n s s' \<longleftrightarrow> (acks (br_replies (sn_bridge s)) \<longrightarrow> balance k s' = balance k s + n \<and> acks (br_replies (sn_bridge s')))"

lemma books_trans: "books k n s s1 \<Longrightarrow> books k m s1 s2 \<Longrightarrow> books k (n + m) s s2"
  by (simp add: books_def)

lemma books_bridge:
  assumes "settled (sn_bridge s) b'" "sn_bridge s' = b'" "sn_out s' = sn_out s @ new" "waiting s' = waiting s"
  shows "books k (answers k new) s s'"
  using assms by (auto simp: books_def balance_def settled_def)

lemma waiting_same: "sn_pending s' = sn_pending s \<Longrightarrow> sn_requests s' = sn_requests s \<Longrightarrow> waiting s' = waiting s"
  by (simp add: waiting_def)

lemma books_answer_with:
  assumes "\<And>b' r. f (sn_bridge s) = (b', r) \<Longrightarrow> settled (sn_bridge s) b' \<and> (\<forall>m. r = Ok m \<longrightarrow> is_answer m)"
  shows "books k (if corr = Some k then 1 else 0) s (answer_with env corr f s)"
proof -
  obtain b' r where f: "f (sn_bridge s) = (b', r)" by force
  have "books k (answers k [answer env corr r]) s (answer_with env corr f s)"
    by (rule books_bridge [of _ b']) (use assms [OF f] f in \<open>auto simp: answer_with_def on_bridge_def intro: waiting_same\<close>)
  moreover have "answers k [answer env corr r] = (if corr = Some k then 1 else 0)"
    using assms [OF f] by (cases r) (auto simp: answer_def)
  ultimately show ?thesis by simp
qed

lemma books_take: "books k 0 s (take_replies s)"
  by (auto simp: books_def balance_def take_replies_def on_bridge_def take_input_replies_def waiting_def due_for_def held_for_def acks_answers)

lemma open_subscription_settled: "open_subscription env x b = (b', sub) \<Longrightarrow> settled b b'"
  unfolding open_subscription_def
  by (auto dest!: subscription_entries_settled on_herdr_same intro: settled_trans settled_same split: prod.splits)

lemma books_reopen: "books k 0 s (reopen env x s)"
proof -
  obtain b' sub where o1: "open_subscription env x (sn_bridge s) = (b', sub)" by force
  have "books k (answers k []) s (reopen env x s)"
    by (rule books_bridge [of _ b']) (use open_subscription_settled [OF o1] o1 in \<open>auto simp: reopen_def on_bridge_def intro: waiting_same\<close>)
  then show ?thesis by simp
qed

lemma books_send: "books k (answers k out) s (send_out out s)"
  by (rule books_bridge) (auto intro: waiting_same)

lemma books_watch: "books k (if corr = Some k then 1 else 0) s (serve_watch env x now p corr s)"
proof -
  obtain b' r where w: "watch_pane (se_watch env) (sx_herdr x) now p (sn_bridge s) = (b', r)" by force
  have st: "settled (sn_bridge s) b'" using watch_pane_settled [of "sn_bridge s" "se_watch env" "sx_herdr x" now p] w by simp
  let ?n = "if corr = Some k then 1 else 0 :: nat"
  show ?thesis
  proof (cases r)
    case (Inl e)
    have "books k (answers k [answer env corr (Err e)]) s (serve_watch env x now p corr s)"
      by (rule books_bridge [of _ b']) (use st w Inl in \<open>auto simp: serve_watch_def on_bridge_def intro: waiting_same\<close>)
    then show ?thesis by (simp add: answer_def)
  next
    case (Inr af)
    obtain ack f where af: "af = (ack, f)" by force
    define s2 where "s2 = send_out [(M_WatchAck ack, corr), (M_PaneFrame f, None)] (s\<lparr>sn_bridge := b'\<rparr>)"
    have "books k (answers k [(M_WatchAck ack, corr), (M_PaneFrame f, None)]) s s2"
      by (rule books_bridge [of _ b']) (use st in \<open>auto simp: s2_def intro: waiting_same\<close>)
    then have s2: "books k ?n s s2" by simp
    have s3: "books k ?n s (reopen env x s2)" using books_trans [OF s2 books_reopen] by simp
    have s4: "books k ?n s (send_out [(subscribing_failed, None)] (reopen env x s2))"
      using books_trans [OF s3 books_send [of k "[(subscribing_failed, None)]"]] by simp
    have "serve_watch env x now p corr s \<in> {s2, reopen env x s2, send_out [(subscribing_failed, None)] (reopen env x s2)}"
      by (simp add: serve_watch_def on_bridge_def w Inr af s2_def Let_def)
    then show ?thesis using s2 s3 s4 by auto
  qed
qed

lemma books_input:
  assumes "sn_pending s = None"
  shows "books k (if corr = Some k then 1 else 0) s (serve_input env x now request corr s)"
proof (cases "si_defer request")
  case (Some d)
  obtain b' rs where h: "handle_deferred_input (se_watch env) (sx_herdr x) now request corr (sn_bridge s) = (b', rs)" by force
  show ?thesis
    using Some h handle_deferred_once [OF h, of "Some k"] deferred_acks [OF h] acks_answers [of rs k]
    by (auto simp: books_def balance_def serve_input_def on_bridge_def waiting_def owes_def)
next
  case None
  obtain newest corrs stopped rest where c: "coalesce_input request corr (sn_requests s) = (newest, corrs, stopped, rest)"
    by (metis prod_cases4)
  obtain b' r where i: "send_input (se_watch env) (sx_herdr x) now newest (sn_bridge s) = (b', r)" by force
  define reply where "reply = (case r of Ok m \<Rightarrow> m | Err _ \<Rightarrow> input_ack (si_pane_id newest) False False)"
  have "is_final reply" "is_ack reply"
    using send_input_due(3) [OF i] send_input_ack [of "se_watch env" "sx_herdr x" now newest "sn_bridge s" b'] i
    by (cases r; simp add: reply_def)+
  then have ans: "is_answer reply" by (cases reply) simp_all
  have s': "serve_input env x now request corr s =
      send_out (map (Pair reply) corrs) (s\<lparr>sn_requests := rest, sn_pending := stopped, sn_bridge := b'\<rparr>)"
    using None c i by (simp add: serve_input_def on_bridge_def reply_to_inputs_map reply_def)
  show ?thesis
    using send_input_settled [OF i] coalesce_input_owed [OF c, of k] assms
    by (auto simp: books_def balance_def s' waiting_def settled_def answers_replies [OF ans])
qed

lemma books_request:
  assumes "sn_pending s = None"
  shows "books k (if request_corr r = Some k then 1 else 0) s (serve_request env x sv r s)"
proof (cases r)
  case (BR_TreeRequest corr)
  show ?thesis unfolding BR_TreeRequest serve_request.simps request_corr.simps
    by (rule books_answer_with) (auto simp: map_ok_def dest: tree_settled split: prod.splits sum.splits)
next
  case (BR_ScrollRequest p n corr)
  show ?thesis unfolding BR_ScrollRequest serve_request.simps request_corr.simps
    by (rule books_answer_with) (auto simp: map_ok_def dest: scroll_settled split: prod.splits sum.splits)
next
  case (BR_ActionListRequest corr)
  show ?thesis unfolding BR_ActionListRequest serve_request.simps request_corr.simps
    by (rule books_answer_with) (use action_list_settled in fastforce)
next
  case (BR_HostAction q corr)
  show ?thesis unfolding BR_HostAction serve_request.simps request_corr.simps
    by (rule books_answer_with) (use host_action_settled acts_answer in blast)
next
  case (BR_UnwatchPane p)
  have "books k (answers k []) s (serve_request env x sv r s)"
    unfolding BR_UnwatchPane serve_request.simps by (rule books_bridge [OF unwatch_settled]) (auto intro: waiting_same)
  then show ?thesis by (simp add: BR_UnwatchPane)
next
  case (BR_MarkSeen p)
  obtain b' q where m: "mark_seen (sx_herdr x) p (sn_bridge s) = (b', q)" by force
  have "books k (answers k (case q of Ok _ \<Rightarrow> [] | Err e \<Rightarrow> [answer env None (Err e)])) s (serve_request env x sv r s)"
    by (rule books_bridge [OF mark_seen_settled [OF m]])
       (auto simp: BR_MarkSeen on_bridge_def m intro: waiting_same split: sum.splits)
  then show ?thesis by (simp add: BR_MarkSeen answer_def split: sum.splits)
next
  case (BR_DeviceListRequest corr)
  show ?thesis using books_send [of k "[(M_DeviceList l, corr)]" s for l] by (simp add: BR_DeviceListRequest)
next
  case (BR_RevokeDevice q corr)
  obtain h res where w: "wire_revoke (se_ser env) (sv_save sv) (sv_rotate_ok sv) (sv_reloaded sv) q (sn_host s) = (h, res)" by force
  have "books k (answers k [answer env corr (case res of Ok res \<Rightarrow> Ok (M_RevokeResult res) | Err e \<Rightarrow> Err (W_Device e))]) s (serve_request env x sv r s)"
    by (rule books_bridge [OF settled_refl]) (auto simp: BR_RevokeDevice serve_revoke_def w intro: waiting_same)
  then show ?thesis by (auto simp: BR_RevokeDevice answer_def split: sum.splits if_splits)
next
  case BR_CancelPending
  have "books k (answers k []) s (s\<lparr>sn_bridge := cancel_pending_inputs (sn_bridge s)\<rparr>)"
    by (rule books_bridge [OF settled_cancel]) (auto intro: waiting_same)
  from books_trans [OF this books_take] show ?thesis by (simp add: BR_CancelPending)
next
  case (BR_WatchPane p corr)
  show ?thesis unfolding BR_WatchPane serve_request.simps request_corr.simps by (rule books_watch)
next
  case (BR_SendInput q corr)
  show ?thesis unfolding BR_SendInput serve_request.simps request_corr.simps by (rule books_input [OF assms])
qed

lemma books_serve_one: "books k 0 s (serve_one env x sv s)"
proof (cases "next_request s")
  case None
  then show ?thesis by (simp add: serve_one_def books_def)
next
  case (Some rs)
  obtain r s1 where n: "next_request s = Some (r, s1)" using Some by (cases rs) auto
  note w = next_request_waiting(2) [OF n]
  have "balance k s = balance k s1 + (if request_corr r = Some k then 1 else 0)" using w by (simp add: balance_def)
  moreover have "books k (if request_corr r = Some k then 1 else 0) s1 (serve_one env x sv s)"
    using books_trans [OF books_request books_take, of s1 k r env x sv] w by (simp add: serve_one_def n)
  ultimately show ?thesis using w by (simp add: books_def)
qed

lemma books_tick: "books k 0 s (tick_session env x ti s)"
proof -
  have th: "books k 0 s (theme_part ti s)"
  proof -
    obtain w p where t: "theme_poll (ti_now ti) (ti_mtime ti) (ti_loaded ti) (sn_theme s) = (w, p)" by force
    have "books k (answers k (case p of Some x \<Rightarrow> [(M_HostTheme x, None)] | None \<Rightarrow> [])) s (theme_part ti s)"
      by (rule books_bridge [OF settled_refl]) (auto simp: theme_part_def t intro: waiting_same)
    then show ?thesis by (simp split: option.splits)
  qed
  define s0 where "s0 = theme_part ti s"
  have "books k 0 s0 (watch_part env x ti s0)"
  proof (cases "sn_subscription s0")
    case None
    then show ?thesis by (simp add: watch_part_def books_def)
  next
    case (Some slot)
    obtain b1 o1 outcome where r: "run_until (se_watch env) (sx_herdr x) (ti_deadline ti) (ti_ticks ti) (sn_bridge s0)
        \<lparr>ro_slot = slot, ro_messages = [], ro_resubscribe = False\<rparr> = (b1, o1, outcome)" by (metis prod_cases3)
    have st: "settled (sn_bridge s0) b1"
      using run_until_settled [of "sn_bridge s0" "se_watch env" "sx_herdr x" "ti_deadline ti" "ti_ticks ti"] r by (metis fst_conv)
    define out :: "outgoing list" where "out = map (\<lambda>m. (m, None)) (ro_messages o1) @ (case ro_slot o1 of Some pf \<Rightarrow> [(M_PaneFrame pf, None)] | None \<Rightarrow> [])"
    define s1 where "s1 = take_replies (send_out out (s0\<lparr>sn_bridge := b1, sn_subscription := Some None\<rparr>))"
    have "books k (answers k out) s0 (send_out out (s0\<lparr>sn_bridge := b1, sn_subscription := Some None\<rparr>))"
      by (rule books_bridge [OF st]) (auto intro: waiting_same)
    moreover have "answers k out = 0" by (simp add: out_def split: option.splits)
    ultimately have s1: "books k 0 s0 s1" using books_trans [OF _ books_take] by (fastforce simp: s1_def)
    have lost: "books k 0 s0 (s1\<lparr>sn_subscription := None\<rparr>)"
      using s1 by (simp add: books_def balance_def waiting_def)
    have re: "books k 0 s0 (reopen env x s1)" using books_trans [OF s1 books_reopen] by simp
    have "watch_part env x ti s0 \<in> {s1\<lparr>sn_subscription := None\<rparr>, reopen env x s1, s1}"
      by (simp add: watch_part_def Some r slot_try_take_def out_def [symmetric] s1_def [symmetric] Let_def)
    then show ?thesis using s1 lost re by auto
  qed
  from books_trans [OF th this [unfolded s0_def]] show ?thesis by (simp add: tick_session_def)
qed

section \<open>Sessions as interleavings\<close>

text \<open>
  A state is a session, the requests put on its channel so far and the messages sent so far. A step is the
  arrival of a frame, the cancellation a closing session asks for, one request served, one tick, the sending
  of everything queued, or a step of others: a locked section of the host, a stamp observed while idle,
  the end of the transport.
\<close>

type_synonym ('h, 'q, 'k) session_state = "('h, 'q, 'k) session \<times> bridge_request list \<times> outgoing list"

inductive session_step ::
  "session_env \<Rightarrow> 'h session_calls \<Rightarrow> host_env \<Rightarrow> ('h, 'q, 'k) session_state \<Rightarrow> ('h, 'q, 'k) session_state \<Rightarrow> bool"
  for env :: session_env and x :: "'h session_calls" and he :: host_env where
  arrives: "dispatch_incoming env bytes = (rs, outcome) \<Longrightarrow>
     session_step env x he (s, asked, sent) (s\<lparr>sn_requests := sn_requests s @ rs\<rparr>, asked @ rs, sent)"
| cancels: "session_step env x he (s, asked, sent)
     (s\<lparr>sn_requests := sn_requests s @ [BR_CancelPending]\<rparr>, asked @ [BR_CancelPending], sent)"
| serves: "next_request s \<noteq> None \<Longrightarrow> session_step env x he (s, asked, sent) (serve_one env x sv s, asked, sent)"
| ticks: "sn_pending s = None \<Longrightarrow> \<exists>t\<in>set (ti_ticks ti). ti_deadline ti \<le> tk_now t \<Longrightarrow>
     session_step env x he (s, asked, sent) (tick_session env x ti s, asked, sent)"
| sends: "sn_out s = first # rest \<Longrightarrow>
     session_step env x he (s, asked, sent) (s\<lparr>sn_out := []\<rparr>, asked, sent @ drain_outgoing first rest)"
| host: "session_step env x he (s, asked, sent) (s\<lparr>sn_host := host_exec he op (sn_host s)\<rparr>, asked, sent)"
| observed: "session_step env x he (s, asked, sent)
     (s\<lparr>sn_bridge := (sn_bridge s)\<lparr>br_observed := AList.update p stamp (br_observed (sn_bridge s))\<rparr>\<rparr>, asked, sent)"
| ends: "session_step env x he (s, asked, sent)
     (s\<lparr>sn_bridge := (sn_bridge s)\<lparr>br_session_active := Some False\<rparr>\<rparr>, asked, sent)"

definition session_reaches ::
  "session_env \<Rightarrow> 'h session_calls \<Rightarrow> host_env \<Rightarrow> ('h, 'q, 'k) session \<Rightarrow> ('h, 'q, 'k) session_state \<Rightarrow> bool" where
  "session_reaches env x he s0 st = (session_step env x he)\<^sup>*\<^sup>* (s0, [], []) st"

lemma answers_rev [simp]: "answers k (rev out) = answers k out"
  by (simp add: answers_def rev_filter [symmetric])

lemma answers_retain [simp]: "answers k (retain_newest panes out) = answers k out"
  by (induction panes out rule: retain_newest.induct) simp_all

lemma answers_drain [simp]: "answers k (drain_outgoing first rest) = answers k (first # rest)"
  by (cases first) (simp add: drain_outgoing_def)

definition balanced :: "string \<Rightarrow> ('h, 'q, 'k) session_state \<Rightarrow> bool" where
  "balanced k st \<longleftrightarrow> (case st of (s, asked, sent) \<Rightarrow>
     answers k sent + balance k s = owed k asked \<and> acks (br_replies (sn_bridge s)))"

lemma balanced_books: "balanced k (s, asked, sent) \<Longrightarrow> books k 0 s s' \<Longrightarrow> balanced k (s', asked, sent)"
  by (simp add: balanced_def books_def)

lemma balanced_step: "session_step env x he st st' \<Longrightarrow> balanced k st \<Longrightarrow> balanced k st'"
proof (induction rule: session_step.induct)
  case (serves s asked sent sv)
  then show ?case using balanced_books books_serve_one by blast
next
  case (ticks s ti asked sent)
  then show ?case using balanced_books books_tick by blast
next
  case (sends s first rest asked sent)
  then show ?case by (cases first) (auto simp: balanced_def balance_def waiting_def)
qed (auto simp: balanced_def balance_def waiting_def due_for_def held_for_def)

lemma balanced_start: "balanced k (session_start env x h host_id hname cfg observed lines host theme device_id, [], [])"
proof -
  let ?s = "\<lparr>sn_bridge = (bridge_new h host_id hname cfg)\<lparr>br_observed := observed, br_lines := lines, br_session_active := Some True\<rparr>,
        sn_subscription = None, sn_requests = [], sn_pending = None, sn_out = [], sn_host = host, sn_theme = theme,
        sn_device_id = device_id\<rparr>"
  have "balanced k (?s, [], [])"
    by (simp add: balanced_def balance_def waiting_def due_for_def held_for_def bridge_new_def)
  from balanced_books [OF this books_reopen] show ?thesis by (simp add: session_start_def)
qed

lemma balanced_reaches:
  assumes "session_reaches env x he s0 st" "balanced k (s0, [], [])"
  shows "balanced k st"
  using assms(1) unfolding session_reaches_def
  by (induction rule: rtranclp_induct) (auto intro: assms(2) balanced_step)


text \<open>A session that closes leaves no request behind: it asks for the cancellation of the held submit, and once
  its queue is served every request that ever arrived has exactly one answer, sent or queued.\<close>

lemma coalesce_last:
  "coalesce_queue request corrs (queue @ [BR_CancelPending]) = (newest, corrs', stopped, rest) \<Longrightarrow>
     \<exists>rs. (case stopped of Some r \<Rightarrow> [r] | None \<Rightarrow> []) @ rest = rs @ [BR_CancelPending]"
proof (induction queue arbitrary: request corrs)
  case (Cons r queue)
  show ?case
  proof (cases "\<exists>q c. r = BR_SendInput q c \<and> line_only q \<and> si_pane_id q = si_pane_id request")
    case True
    then show ?thesis using Cons by auto
  next
    case False
    then have "stopped = Some r \<and> rest = queue @ [BR_CancelPending]"
      using Cons.prems by (cases r) auto
    then show ?thesis by simp
  qed
qed auto

lemma serve_request_last:
  assumes "sn_pending s = None" "sn_requests s = rs @ [BR_CancelPending]"
  shows "\<exists>rs'. waiting (serve_request env x sv r s) = rs' @ [BR_CancelPending]"
proof (cases "\<exists>q c. r = BR_SendInput q c \<and> si_defer q = None \<and> line_only q")
  case True
  then obtain q c where r: "r = BR_SendInput q c" "si_defer q = None" "line_only q" by blast
  obtain newest corrs stopped rest where c: "coalesce_queue q [c] (rs @ [BR_CancelPending]) = (newest, corrs, stopped, rest)"
    by (metis prod_cases4)
  have "waiting (serve_request env x sv r s) = (case stopped of Some r \<Rightarrow> [r] | None \<Rightarrow> []) @ rest"
    using r c assms by (simp add: serve_input_def coalesce_input_def on_bridge_def waiting_def split: prod.splits)
  then show ?thesis using coalesce_last [OF c] by metis
next
  case False
  have "waiting (serve_request env x sv r s) = waiting s"
  proof (cases r)
    case (BR_SendInput q c)
    then show ?thesis
      using False assms by (auto simp: serve_input_def coalesce_input_def on_bridge_def waiting_def split: prod.splits)
  qed (simp_all add: waiting_def serve_revoke_def on_bridge_def split: prod.splits sum.splits)
  then show ?thesis using assms by (simp add: waiting_def)
qed

lemma serve_all_last: "waiting s = rs @ [BR_CancelPending] \<Longrightarrow> br_pending (sn_bridge (serve_all env x svs s)) = None
    \<and> br_replies (sn_bridge (serve_all env x svs s)) = []"
proof (induction env x svs s arbitrary: rs rule: serve_all.induct)
  case (1 env x svs s)
  then obtain r s1 where n: "next_request s = Some (r, s1)" using next_request_waiting(1) [of s] by fastforce
  note w = next_request_waiting(2) [OF n]
  let ?s' = "serve_one env x (svs 0) s"
  have s': "?s' = take_replies (serve_request env x (svs 0) r s1)" by (simp add: serve_one_def n)
  have eq: "serve_all env x svs s = serve_all env x (\<lambda>n. svs (Suc n)) ?s'" by (simp add: serve_all.simps [of env x svs s] n)
  show ?case
  proof (cases "waiting s1")
    case Nil
    then have r: "r = BR_CancelPending" using w 1(2) by simp
    have "sn_requests s1 = []" using Nil w by (simp add: waiting_def)
    then have "next_request ?s' = None"
      using r w by (simp add: s' next_request_def)
    then have "serve_all env x (\<lambda>n. svs (Suc n)) ?s' = ?s'" by (simp add: serve_all.simps)
    then show ?thesis
      by (simp add: eq s' r take_replies_def on_bridge_def take_input_replies_def)
  next
    case (Cons q qs)
    have rs1: "waiting s1 = tl rs @ [BR_CancelPending]" using w 1(2) Cons by (cases rs) simp_all
    have "\<exists>rs'. waiting (serve_request env x (svs 0) r s1) = rs' @ [BR_CancelPending]"
      using w rs1 by (intro serve_request_last) (simp_all add: waiting_def)
    then have "\<exists>rs'. waiting ?s' = rs' @ [BR_CancelPending]" by (simp add: s' waiting_def)
    then show ?thesis using 1(1) [of "(r, s1)"] n eq by auto
  qed
qed

lemma books_serve_all: "books k 0 s (serve_all env x svs s)"
proof (induction env x svs s rule: serve_all.induct)
  case (1 env x svs s)
  show ?case
  proof (cases "next_request s")
    case None
    then show ?thesis by (simp add: serve_all.simps [of env x svs s] books_def)
  next
    case (Some rs)
    then show ?thesis
      using books_trans [OF books_serve_one 1 [OF Some]] by (simp add: serve_all.simps [of env x svs s])
  qed
qed

text \<open>C7: Every close of a session first sends the cancel and waits for it. Whatever state the session is in, the thread
  then serves all that waits and ends with no held submit and each correlation answered as often as asked.\<close>

theorem closing_session_answers_all:
  assumes "session_reaches env x he (session_start env x h host_id hname cfg observed lines host theme device_id) (s, asked, sent)"
    and "s' = serve_all env x svs (s\<lparr>sn_requests := sn_requests s @ [BR_CancelPending]\<rparr>)"
  shows "waiting s' = [] \<and> br_pending (sn_bridge s') = None \<and> answers k (sent @ sn_out s') = owed k asked"
proof -
  let ?s = "s\<lparr>sn_requests := sn_requests s @ [BR_CancelPending]\<rparr>"
  have "balanced k (?s, asked, sent)"
    using balanced_reaches [OF assms(1) balanced_start, of k] by (simp add: balanced_def balance_def waiting_def)
  then have b: "balanced k (s', asked, sent)" using balanced_books books_serve_all assms(2) by blast
  have e: "br_pending (sn_bridge s') = None \<and> br_replies (sn_bridge s') = []"
    unfolding assms(2) by (rule serve_all_last [of _ "waiting s"]) (simp add: waiting_def)
  have w: "waiting s' = []" using serve_all_served assms(2) by blast
  have "answers k sent + answers k (sn_out s') = owed k asked"
    using b e w by (simp add: balanced_def balance_def due_for_def held_for_def)
  then show ?thesis using e w by simp
qed

section \<open>What is dropped on the way\<close>

fun frame_of :: "app_message \<Rightarrow> string option" where
  "frame_of (M_PaneFrame f) = Some (pf_pane_id f)"
| "frame_of _ = None"

lemma retain_newest_facts:
  "subseq (retain_newest panes out) out"
  "filter (\<lambda>(m, _). frame_of m = None) (retain_newest panes out) = filter (\<lambda>(m, _). frame_of m = None) out"
  "filter (\<lambda>(m, _). frame_of m = Some p) (retain_newest panes out)
     = (if p \<in> set panes then [] else take 1 (filter (\<lambda>(m, _). frame_of m = Some p) out))"
  by (induction panes out rule: retain_newest.induct) auto

lemma subseq_revI: "subseq xs ys \<Longrightarrow> subseq (rev xs) (rev ys)"
  by (induction rule: list_emb.induct) (auto intro: subseq_rev_drop_many list_emb_append_mono)

lemma rev_take_rev: "rev (take 1 (rev xs)) = (if xs = [] then [] else [last xs])"
  by (cases xs rule: rev_cases) simp_all

text \<open>Before they are sent, queued messages lose only frames that a newer frame of the same pane replaces: the
  order is kept, every other message is sent, and of the frames of a pane the newest.\<close>

theorem drain_keeps_newest:
  "subseq (drain_outgoing first rest) (first # rest)
   \<and> filter (\<lambda>(m, _). frame_of m = None) (drain_outgoing first rest) = filter (\<lambda>(m, _). frame_of m = None) (first # rest)
   \<and> filter (\<lambda>(m, _). frame_of m = Some p) (drain_outgoing first rest)
       = (let fs = filter (\<lambda>(m, _). frame_of m = Some p) (first # rest) in if fs = [] then [] else [last fs])"
proof (intro conjI)
  show "subseq (drain_outgoing first rest) (first # rest)"
    unfolding drain_outgoing_def using retain_newest_facts(1) [of "[]" "rev (first # rest)"]
    by (metis subseq_revI rev_rev_ident)
  show "filter (\<lambda>(m, _). frame_of m = None) (drain_outgoing first rest) = filter (\<lambda>(m, _). frame_of m = None) (first # rest)"
    unfolding drain_outgoing_def rev_filter [symmetric] retain_newest_facts(2) by (simp only: rev_filter rev_rev_ident)
  show "filter (\<lambda>(m, _). frame_of m = Some p) (drain_outgoing first rest)
       = (let fs = filter (\<lambda>(m, _). frame_of m = Some p) (first # rest) in if fs = [] then [] else [last fs])"
    unfolding drain_outgoing_def rev_filter [symmetric] retain_newest_facts(3) Let_def
    using rev_take_rev [of "filter (\<lambda>(m, _). frame_of m = Some p) (first # rest)"]
    by (simp only: list.set(1) empty_iff if_False)
qed

text \<open>Lines that wait in a row for one pane are merged into the newest, which answers them all; the first request
  of another kind or pane stops the merging and is served next, before the rest of the channel.\<close>

lemma coalesce_merged:
  "coalesce_queue request corrs queue = (newest, corrs', stopped, rest) \<Longrightarrow>
     \<exists>merged. queue = map (\<lambda>(q, c). BR_SendInput q c) merged @ (case stopped of Some r \<Rightarrow> [r] | None \<Rightarrow> []) @ rest
       \<and> (\<forall>(q, c)\<in>set merged. line_only q \<and> si_pane_id q = si_pane_id request)
       \<and> newest = last (request # map fst merged) \<and> corrs' = corrs @ map snd merged
       \<and> (stopped = None \<longrightarrow> rest = [])
       \<and> (\<forall>q c. stopped = Some (BR_SendInput q c) \<longrightarrow> \<not> (line_only q \<and> si_pane_id q = si_pane_id request))"
proof (induction queue arbitrary: request corrs)
  case (Cons r queue)
  show ?case
  proof (cases "\<exists>q c. r = BR_SendInput q c \<and> line_only q \<and> si_pane_id q = si_pane_id request")
    case True
    then obtain q c where r: "r = BR_SendInput q c" "line_only q" "si_pane_id q = si_pane_id request" by blast
    then have "coalesce_queue q (corrs @ [c]) queue = (newest, corrs', stopped, rest)" using Cons.prems by simp
    from Cons.IH [OF this] obtain merged where m:
      "queue = map (\<lambda>(q, c). BR_SendInput q c) merged @ (case stopped of Some r \<Rightarrow> [r] | None \<Rightarrow> []) @ rest"
      "\<forall>(q', c)\<in>set merged. line_only q' \<and> si_pane_id q' = si_pane_id q"
      "newest = last (q # map fst merged)" "corrs' = (corrs @ [c]) @ map snd merged" "stopped = None \<longrightarrow> rest = []"
      "\<forall>q' c. stopped = Some (BR_SendInput q' c) \<longrightarrow> \<not> (line_only q' \<and> si_pane_id q' = si_pane_id q)" by blast
    show ?thesis by (rule exI [of _ "(q, c) # merged"]) (use m r in auto)
  next
    case False
    then have "newest = request \<and> corrs' = corrs \<and> stopped = Some r \<and> rest = queue"
      using Cons.prems by (cases r) auto
    then show ?thesis using False by (intro exI [of _ "[]"]) auto
  qed
qed simp

text \<open>Every correlation of the merged lines is answered, in order, and the request that stopped the merging is kept.\<close>

theorem coalescing_answers_all_lines:
  assumes "line_only request" "coalesce_input request corr queue = (newest, corrs, stopped, rest)"
  shows "\<exists>merged. queue = map (\<lambda>(q, c). BR_SendInput q c) merged @ (case stopped of Some r \<Rightarrow> [r] | None \<Rightarrow> []) @ rest
       \<and> (\<forall>(q, c)\<in>set merged. line_only q \<and> si_pane_id q = si_pane_id request)
       \<and> newest = last (request # map fst merged) \<and> reply_to_inputs reply corrs = map (Pair reply) (corr # map snd merged)
       \<and> (\<forall>q c. stopped = Some (BR_SendInput q c) \<longrightarrow> \<not> (line_only q \<and> si_pane_id q = si_pane_id request))"
proof -
  have "coalesce_queue request [corr] queue = (newest, corrs, stopped, rest)"
    using assms by (simp add: coalesce_input_def)
  from coalesce_merged [OF this] obtain merged where
    "queue = map (\<lambda>(q, c). BR_SendInput q c) merged @ (case stopped of Some r \<Rightarrow> [r] | None \<Rightarrow> []) @ rest"
    "\<forall>(q, c)\<in>set merged. line_only q \<and> si_pane_id q = si_pane_id request"
    "newest = last (request # map fst merged)" "corrs = [corr] @ map snd merged"
    "\<forall>q c. stopped = Some (BR_SendInput q c) \<longrightarrow> \<not> (line_only q \<and> si_pane_id q = si_pane_id request)" by blast
  then show ?thesis unfolding reply_to_inputs_map by (intro exI [of _ merged]) simp
qed

text \<open>The merging does not look at \<open>bypass_line\<close>. A line that waits together with an invalid newer request, a line
  that also bypasses the line, is thrown away: Herdr sees nothing, and both are refused.\<close>

theorem bypass_discards_waiting_line:
  assumes "line_only request" "line_only newer" "si_pane_id newer = si_pane_id request" "si_bypass_line newer = Some True"
    and "sn_requests s = [BR_SendInput newer corr']"
  shows "serve_input env x now request corr s = send_out
      [(input_ack (si_pane_id request) False False, corr), (input_ack (si_pane_id request) False False, corr')]
      (s\<lparr>sn_requests := [], sn_pending := None\<rparr>)"
proof -
  have "si_defer request = None" using assms(1) by (simp add: line_only_def)
  moreover have "coalesce_input request corr (sn_requests s) = (newer, [corr, corr'], None, [])"
    using assms by (simp add: coalesce_input_def)
  moreover have "\<exists>e. send_input (se_watch env) (sx_herdr x) now newer (sn_bridge s) = (sn_bridge s, Err e)"
    using assms(2,4) by (auto simp: send_input_def validate_send_input_def line_only_def split: sum.splits)
  ultimately show ?thesis
    using assms(3) by (auto simp: serve_input_def on_bridge_def reply_to_inputs_map)
qed

section \<open>Without a subscription\<close>

lemma tick_unsubscribed:
  "sn_subscription s = None \<Longrightarrow> sn_bridge (tick_session env x ti s) = sn_bridge s \<and> sn_subscription (tick_session env x ti s) = None
     \<and> (\<exists>ps. sn_out (tick_session env x ti s) = sn_out s @ map (\<lambda>p. (M_HostTheme p, None)) ps)"
proof -
  assume a: "sn_subscription s = None"
  obtain w p where t: "theme_poll (ti_now ti) (ti_mtime ti) (ti_loaded ti) (sn_theme s) = (w, p)" by force
  have "\<exists>ps. (case p of Some x \<Rightarrow> [(M_HostTheme x, None)] | None \<Rightarrow> []) = map (\<lambda>p. (M_HostTheme p, None :: string option)) ps"
    by (cases p) (auto intro: exI [of _ "[]"] exI [of _ "[x]" for x])
  then show ?thesis by (simp add: tick_session_def theme_part_def t watch_part_def a)
qed

text \<open>When the events subscription ends, its connection lost or a line malformed, the session goes on without it
  and never opens it again by itself: no tick reads the watched pane, calls Herdr or sends anything but a
  theme, and no request but a \<open>watch_pane\<close> changes that.\<close>

theorem lost_subscription_stays_lost:
  assumes "sn_subscription s = None"
  shows "(let s' = fold (tick_session env x) tis s in sn_bridge s' = sn_bridge s \<and> sn_subscription s' = None
      \<and> (\<exists>ps. sn_out s' = sn_out s @ map (\<lambda>p. (M_HostTheme p, None)) ps))
    \<and> ((\<forall>p corr. r \<noteq> BR_WatchPane p corr) \<longrightarrow> sn_subscription (serve_request env x sv r s) = None)"
proof
  show "let s' = fold (tick_session env x) tis s in sn_bridge s' = sn_bridge s \<and> sn_subscription s' = None
      \<and> (\<exists>ps. sn_out s' = sn_out s @ map (\<lambda>p. (M_HostTheme p, None)) ps)"
    using assms
  proof (induction tis arbitrary: s)
    case Nil
    then show ?case by (simp add: Let_def exI [of _ "[]"])
  next
    case (Cons ti tis)
    obtain ps where one: "sn_bridge (tick_session env x ti s) = sn_bridge s" "sn_subscription (tick_session env x ti s) = None"
      "sn_out (tick_session env x ti s) = sn_out s @ map (\<lambda>p. (M_HostTheme p, None)) ps"
      using tick_unsubscribed [OF Cons.prems, of env x ti] by blast
    from Cons.IH [OF one(2)] one obtain qs where
      "sn_bridge (fold (tick_session env x) (ti # tis) s) = sn_bridge s" "sn_subscription (fold (tick_session env x) (ti # tis) s) = None"
      "sn_out (fold (tick_session env x) (ti # tis) s) = sn_out s @ map (\<lambda>p. (M_HostTheme p, None)) (ps @ qs)"
      by (auto simp: Let_def)
    then show ?case unfolding Let_def by blast
  qed
  show "(\<forall>p corr. r \<noteq> BR_WatchPane p corr) \<longrightarrow> sn_subscription (serve_request env x sv r s) = None"
    using assms by (cases r) (simp_all add: serve_input_def serve_revoke_def answer_with_def on_bridge_def split: prod.splits sum.splits)
qed

section \<open>Examples\<close>

definition sample_senv :: session_env where
  "sample_senv = \<lparr>se_watch = Watch_Input.sample_env,
     se_from_slice = (\<lambda>_. Some \<lparr>fm_v = 1, fm_message_type = ''tree_request'', fm_seq = 1, fm_corr = Some ''a'', fm_payload = JObj []\<rparr>),
     se_from_value = (\<lambda>_. Some M_TreeRequest), se_to_value = (\<lambda>_. None), se_to_vec = (\<lambda>_. None), se_show = (\<lambda>_. []),
     se_show_frame_error = (\<lambda>_. []), se_fingerprint = (\<lambda>_. []), se_ser = (\<lambda>_. None), se_os = ''linux''\<rparr>"

definition sample_scalls :: "unit session_calls" where
  "sample_scalls = \<lparr>sx_herdr = ok_calls, sx_subscribe = (\<lambda>_ h. (h, Err IpcIo))\<rparr>"

definition sample_served :: "nat served" where
  "sample_served = \<lparr>sv_now = 0, sv_save = SaveWorks, sv_rotate_ok = True, sv_reloaded = None\<rparr>"

definition sample_session :: "(unit, unit, nat) session" where
  "sample_session = session_start sample_senv sample_scalls () ''h'' ''n'' sample_config [] [] sample_host (watcher_at 0 None None) ''d''"

definition asked_session :: "(unit, unit, nat) session" where
  "asked_session = sample_session\<lparr>sn_requests := sn_requests sample_session @ [BR_TreeRequest (Some ''a'')]\<rparr>"

lemma sample_arrival: "dispatch_incoming sample_senv [] = ([BR_TreeRequest (Some ''a'')], DO_Continue)"
  by (simp add: dispatch_incoming_def from_json_bytes_def frame_message_def sample_senv_def)

lemma sample_reaches: "session_reaches sample_senv sample_scalls he sample_session (asked_session, [BR_TreeRequest (Some ''a'')], [])"
  using session_step.arrives [OF sample_arrival, of sample_scalls he sample_session "[]" "[]"]
  by (simp add: session_reaches_def asked_session_def r_into_rtranclp)


theorem closing_session_answers_all_witness:
  "answers ''a'' ([] @ sn_out (serve_all sample_senv sample_scalls (\<lambda>_. sample_served)
     (asked_session\<lparr>sn_requests := sn_requests asked_session @ [BR_CancelPending]\<rparr>))) = 1"
  using closing_session_answers_all [OF sample_reaches [unfolded sample_session_def] refl, of "\<lambda>_. sample_served" "''a''"] by simp

theorem coalescing_answers_all_lines_witness:
  "\<exists>merged. [BR_SendInput (line_request ''p'' ''ab'') (Some ''2''), BR_TreeRequest None]
       = map (\<lambda>(q, c). BR_SendInput q c) merged @ (case Some (BR_TreeRequest None) of Some r \<Rightarrow> [r] | None \<Rightarrow> []) @ []
     \<and> reply_to_inputs M_Pong [Some ''1'', Some ''2''] = map (Pair M_Pong) (Some ''1'' # map snd merged)"
proof -
  have l: "line_only (line_request ''p'' ''a'')" by (simp add: line_only_def line_request_def)
  have c: "coalesce_input (line_request ''p'' ''a'') (Some ''1'') [BR_SendInput (line_request ''p'' ''ab'') (Some ''2''), BR_TreeRequest None]
      = (line_request ''p'' ''ab'', [Some ''1'', Some ''2''], Some (BR_TreeRequest None), [])"
    by (simp add: coalesce_input_def line_only_def line_request_def)
  from coalescing_answers_all_lines [OF l c, of M_Pong] show ?thesis by blast
qed

theorem bypass_discards_waiting_line_witness:
  "sn_out (serve_input sample_senv sample_scalls 0 (line_request ''p'' ''a'') (Some ''1'')
      (sample_session\<lparr>sn_requests := [BR_SendInput (line_request ''p'' ''ab''\<lparr>si_bypass_line := Some True\<rparr>) (Some ''2'')]\<rparr>))
    = [(input_ack ''p'' False False, Some ''1''), (input_ack ''p'' False False, Some ''2'')]"
proof -
  have "line_only (line_request ''p'' ''a'')" "line_only (line_request ''p'' ''ab''\<lparr>si_bypass_line := Some True\<rparr>)"
    "si_pane_id (line_request ''p'' ''ab''\<lparr>si_bypass_line := Some True\<rparr>) = si_pane_id (line_request ''p'' ''a'')"
    "si_bypass_line (line_request ''p'' ''ab''\<lparr>si_bypass_line := Some True\<rparr>) = Some True"
    by (simp_all add: line_only_def line_request_def)
  note d = bypass_discards_waiting_line [OF this, of "sample_session\<lparr>sn_requests := [BR_SendInput (line_request ''p'' ''ab''\<lparr>si_bypass_line := Some True\<rparr>) (Some ''2'')]\<rparr>"]
  have "sn_out sample_session = []" by (simp add: sample_session_def session_start_def)
  then show ?thesis by (subst d) (simp_all add: line_request_def)
qed

theorem lost_subscription_stays_lost_witness:
  "sn_subscription (fold (tick_session sample_senv sample_scalls)
      [\<lparr>ti_now = 1, ti_mtime = None, ti_loaded = None, ti_deadline = 50, ti_ticks = []\<rparr>] sample_session) = None"
proof -
  have "sn_subscription sample_session = None"
    by (simp add: sample_session_def session_start_def reopen_def on_bridge_def open_subscription_def sample_scalls_def on_herdr_def
          split: prod.split)
  from lost_subscription_stays_lost [OF this, of sample_senv sample_scalls] show ?thesis unfolding Let_def by blast
qed

end
