(* ===== verification/Session_Serve.thy ===== *)
theory Session_Serve
  imports Session_Loop Frame_Codec
begin

text \<open>
  \<open>herdr-relay/src/bridge.rs\<close>, the socket side of an established session: \<open>send_message\<close> with \<open>send_frame\<close>
  of \<open>relay/connection.rs\<close>, the push wake, the four branches of \<open>serve_session\<close> and its ends. The WebSocket,
  zlib and the Noise transport are arguments; the socket of the theorems is a log of what it took, which may
  refuse any message.
\<close>

section \<open>Sending\<close>

text \<open>The sequence counter, the Noise transport and the socket of one session, all owned by its task.\<close>

record ('t, 'w) conn =
  cn_seq :: sequence_counter
  cn_transport :: 't
  cn_socket :: 'w

record ('t, 'w) conn_env =
  ce_deflate :: "bytes \<Rightarrow> bytes"
  ce_encrypt :: "'t \<Rightarrow> bytes \<Rightarrow> 't \<times> bytes option"
  ce_write :: "message \<Rightarrow> 'w \<Rightarrow> 'w \<times> bool"
  ce_show :: "session_error \<Rightarrow> string"

definition write_socket :: "('t, 'w) conn_env \<Rightarrow> message \<Rightarrow> ('t, 'w) conn \<Rightarrow> ('t, 'w) conn \<times> bool" where
  "write_socket ce m c = (case ce_write ce m (cn_socket c) of (w, written) \<Rightarrow> (c\<lparr>cn_socket := w\<rparr>, written))"

fun send_fragments :: "('t, 'w) conn_env \<Rightarrow> bytes list \<Rightarrow> ('t, 'w) conn \<Rightarrow> ('t, 'w) conn \<times> (unit, session_error) result" where
  "send_fragments ce [] c = (c, Ok ())"
| "send_fragments ce (fragment # fragments) c =
     (case write_socket ce (Binary fragment) c of
        (c1, False) \<Rightarrow> (c1, Err SE_Io)
      | (c1, True) \<Rightarrow> send_fragments ce fragments c1)"

definition send_frame :: "('t, 'w) conn_env \<Rightarrow> bytes \<Rightarrow> ('t, 'w) conn \<Rightarrow> ('t, 'w) conn \<times> (unit, session_error) result" where
  "send_frame ce envelope_bytes c =
     (case encode_frame (ce_deflate ce) (ce_encrypt ce) (cn_transport c) envelope_bytes of
        (t, Err e) \<Rightarrow> (c\<lparr>cn_transport := t\<rparr>, Err (SE_Codec e))
      | (t, Ok fragments) \<Rightarrow> send_fragments ce fragments (c\<lparr>cn_transport := t\<rparr>))"

definition bytes_of :: "string \<Rightarrow> bytes" where
  "bytes_of s = map (\<lambda>ch. of_nat (of_char ch)) s"

definition string_of :: "bytes \<Rightarrow> string" where
  "string_of bs = map (\<lambda>b. char_of (unat b)) bs"

lemma string_of_bytes_of [simp]: "string_of (bytes_of s) = s"
proof -
  have "unat (of_nat (byte ch) :: 8 word) = byte ch" for ch
    using nat_of_char_less_256 [of ch] by (simp add: unsigned_of_nat take_bit_eq_mod)
  then show ?thesis by (simp add: string_of_def bytes_of_def o_def)
qed

lemma length_bytes_of [simp]: "length (bytes_of s) = length s" by (simp add: bytes_of_def)

definition send_message ::
  "session_env \<Rightarrow> ('t, 'w) conn_env \<Rightarrow> app_message \<Rightarrow> string option \<Rightarrow> ('t, 'w) conn \<Rightarrow> ('t, 'w) conn \<times> (unit, string) result" where
  "send_message env ce message corr c =
     (case advance (cn_seq c) of (counter, seq) \<Rightarrow>
      let c1 = c\<lparr>cn_seq := counter\<rparr> in
      case frame_wrap (se_to_value env) seq corr message of
        Err e \<Rightarrow> (c1, Err (''building a '' @ type_name message @ '' frame failed: '' @ se_show_frame_error env e))
      | Ok f \<Rightarrow>
          (case to_json_bytes (se_to_vec env) f of
             Err e \<Rightarrow> (c1, Err (''serializing a '' @ type_name message @ '' frame failed: '' @ se_show_frame_error env e))
           | Ok bytes \<Rightarrow>
               (case send_frame ce (bytes_of bytes) c1 of
                  (c2, Err e) \<Rightarrow> (c2, Err (''sending a '' @ type_name message @ '' frame failed: '' @ ce_show ce e))
                | (c2, Ok _) \<Rightarrow> (c2, Ok ()))))"

definition needs_push_wake :: "app_message \<Rightarrow> bool" where
  "needs_push_wake message = (case message of M_AgentStatus s \<Rightarrow> as_status s \<in> {AS_Blocked, AS_Done} | _ \<Rightarrow> False)"

definition send_push_wake :: "('t, 'w) conn_env \<Rightarrow> ('t, 'w) conn \<Rightarrow> ('t, 'w) conn" where
  "send_push_wake ce c = fst (write_socket ce (Text ''{\"type\":\"push_wake\"}'') c)"

text \<open>The loops over a drained batch; those of \<open>Disconnect\<close> and \<open>stop\<close> send no push wake.\<close>

fun send_batch :: "session_env \<Rightarrow> ('t, 'w) conn_env \<Rightarrow> bool \<Rightarrow> outgoing list \<Rightarrow> ('t, 'w) conn \<Rightarrow> ('t, 'w) conn \<times> bool" where
  "send_batch env ce wakes [] c = (c, True)"
| "send_batch env ce wakes ((message, corr) # batch) c =
     (case send_message env ce message corr c of
        (c1, Err _) \<Rightarrow> (c1, False)
      | (c1, Ok _) \<Rightarrow>
          send_batch env ce wakes batch (if wakes \<and> needs_push_wake message then send_push_wake ce c1 else c1))"

definition close_socket :: "('t, 'w) conn_env \<Rightarrow> close_code \<Rightarrow> ('t, 'w) conn \<Rightarrow> ('t, 'w) conn \<times> bool" where
  "close_socket ce code c = write_socket ce (Close (Some (close_code_code code, []))) c"

section \<open>The branches of the serving loop\<close>

text \<open>What a branch reads from outside: the service of the thread for the requests it waits for and the
  outcome of saving the list of devices at a wall-clock time.\<close>

record 'k branch_input =
  bi_served :: "nat \<Rightarrow> 'k served"
  bi_save :: save_outcome
  bi_wall :: string

definition touch_session :: "session_env \<Rightarrow> 'k branch_input \<Rightarrow> ('h, 'q, 'k) session \<Rightarrow> ('h, 'q, 'k) session" where
  "touch_session env bi s =
     s\<lparr>sn_host := touch_device (se_ser env) (bi_save bi) (bi_wall bi) (sn_device_id s) (sn_host s)\<rparr>"

text \<open>The cancel is queued and waited for, so the thread has served everything before it.\<close>

definition cancel_held_before_close :: "session_env \<Rightarrow> 'h session_calls \<Rightarrow> 'k branch_input \<Rightarrow> ('h, 'q, 'k) session \<Rightarrow> ('h, 'q, 'k) session" where
  "cancel_held_before_close env x bi s = serve_all env x (bi_served bi) (s\<lparr>sn_requests := sn_requests s @ [BR_CancelPending]\<rparr>)"

text \<open>\<open>out_rx.try_recv\<close> followed by \<open>drain_outgoing\<close>: the batch and the emptied queue.\<close>

definition take_batch :: "('h, 'q, 'k) session \<Rightarrow> ('h, 'q, 'k) session \<times> outgoing list" where
  "take_batch s = (case sn_out s of [] \<Rightarrow> (s, []) | first # rest \<Rightarrow> (s\<lparr>sn_out := []\<rparr>, drain_outgoing first rest))"

text \<open>The branch of an incoming frame; the last component says whether the loop goes on.\<close>

definition on_incoming ::
  "session_env \<Rightarrow> 'h session_calls \<Rightarrow> ('t, 'w) conn_env \<Rightarrow> 'k branch_input \<Rightarrow> (bytes, session_error) result \<Rightarrow>
     ('h, 'q, 'k) session \<Rightarrow> ('t, 'w) conn \<Rightarrow> ('h, 'q, 'k) session \<times> ('t, 'w) conn \<times> bool" where
  "on_incoming env x ce bi incoming s c =
     (case incoming of
        Err _ \<Rightarrow> (s, c, False)
      | Ok bytes \<Rightarrow>
          (case dispatch_incoming env (string_of bytes) of (requests, outcome) \<Rightarrow>
           let s1 = (touch_session env bi s)\<lparr>sn_requests := sn_requests s @ requests\<rparr> in
           case outcome of
             DO_Pong corr \<Rightarrow> (case send_message env ce M_Pong corr c of (c1, r) \<Rightarrow> (s1, c1, is_ok r))
           | DO_Continue \<Rightarrow> (s1, c, True)
           | DO_DeviceInfo \<Rightarrow> (s1, c, True)
           | DO_Disconnect \<Rightarrow>
               (case take_batch (cancel_held_before_close env x bi s1) of (s2, batch) \<Rightarrow>
                  (s2, fst (send_batch env ce False batch c), False))
           | DO_Error _ \<Rightarrow> (s1, c, False)))"

definition on_outgoing ::
  "session_env \<Rightarrow> ('t, 'w) conn_env \<Rightarrow> 'k branch_input \<Rightarrow> outgoing \<Rightarrow> outgoing list \<Rightarrow>
     ('h, 'q, 'k) session \<Rightarrow> ('t, 'w) conn \<Rightarrow> ('h, 'q, 'k) session \<times> ('t, 'w) conn \<times> bool" where
  "on_outgoing env ce bi first rest s c =
     (case send_batch env ce True (drain_outgoing first rest) c of
        (c1, False) \<Rightarrow> (s\<lparr>sn_out := []\<rparr>, c1, False)
      | (c1, True) \<Rightarrow> (touch_session env bi (s\<lparr>sn_out := []\<rparr>), c1, True))"

definition revoked_error :: app_message where
  "revoked_error = M_Error \<lparr>em_code = E_Revoked, em_message = ''This device has been revoked.'', em_fatal = True\<rparr>"

text \<open>The close signal of the registry: \<open>SignalRevoked\<close>, or the sender is gone. The results of the sends are
  dropped; the last component keeps them for the theorems. The wait for the cancel, the drain and the sends are one
  step here: what the thread queues after the drain is not sent, as in the code.\<close>

definition on_close ::
  "session_env \<Rightarrow> 'h session_calls \<Rightarrow> ('t, 'w) conn_env \<Rightarrow> 'k branch_input \<Rightarrow> close_signal \<Rightarrow>
     ('h, 'q, 'k) session \<Rightarrow> ('t, 'w) conn \<Rightarrow> ('h, 'q, 'k) session \<times> ('t, 'w) conn \<times> bool" where
  "on_close env x ce bi reason s c =
     (case take_batch (cancel_held_before_close env x bi s) of (s1, batch) \<Rightarrow>
      case send_batch env ce True batch c of (c1, sent) \<Rightarrow>
      case (if reason = SignalRevoked then send_message env ce revoked_error None c1 else (c1, Ok ())) of (c2, told) \<Rightarrow>
      case close_socket ce Revoked c2 of (c3, closed) \<Rightarrow> (s1, c3, sent \<and> is_ok told \<and> closed))"

definition on_stop ::
  "session_env \<Rightarrow> 'h session_calls \<Rightarrow> ('t, 'w) conn_env \<Rightarrow> 'k branch_input \<Rightarrow>
     ('h, 'q, 'k) session \<Rightarrow> ('t, 'w) conn \<Rightarrow> ('h, 'q, 'k) session \<times> ('t, 'w) conn \<times> bool" where
  "on_stop env x ce bi s c =
     (case take_batch (cancel_held_before_close env x bi s) of (s1, batch) \<Rightarrow>
      case send_batch env ce False batch c of (c1, sent) \<Rightarrow>
      case close_socket ce Normal c1 of (c2, closed) \<Rightarrow> (s1, c2, sent \<and> closed))"

section \<open>What the peer receives\<close>

text \<open>The receiving loop of the other end: \<open>receive_frame\<close> until it fails.\<close>

lemma receive_frame_shorter:
  "receive_frame reads decrypt r t ws = (Ok e, r', t', rest) \<Longrightarrow> length rest < length ws"
  by (induction reads decrypt r t ws rule: receive_frame.induct)
     (fastforce intro: less_SucI split: message.splits prod.splits sum.splits option.splits)+

function receive_all ::
  "(bytes \<Rightarrow> zread list) \<Rightarrow> ('r \<Rightarrow> bytes \<Rightarrow> 'r \<times> bytes option) \<Rightarrow> reassembler \<Rightarrow> 'r \<Rightarrow> (ws_item \<times> instant) list \<Rightarrow>
     bytes list \<times> session_error \<times> (ws_item \<times> instant) list" where
  "receive_all reads decrypt r t ws =
     (case receive_frame reads decrypt r t ws of
        (Err e, r1, t1, rest) \<Rightarrow> ([], e, rest)
      | (Ok envelope, r1, t1, rest) \<Rightarrow>
          (case receive_all reads decrypt r1 t1 rest of (es, end) \<Rightarrow> (envelope # es, end)))"
  by pat_completeness auto
termination
  by (relation "measure (\<lambda>(reads, decrypt, r, t, ws). length ws)") (auto dest: receive_frame_shorter [OF sym])

declare receive_all.simps [simp del]

definition also_received :: "bytes list \<Rightarrow> bytes list \<times> 'a \<Rightarrow> bytes list \<times> 'a" where
  "also_received es r = (es @ fst r, snd r)"

lemma also_received_simps [simp]:
  "also_received [] r = r" "also_received a (also_received b r) = also_received (a @ b) r"
  "also_received a (es, e) = (a @ es, e)"
  by (simp_all add: also_received_def)

lemma receive_all_text [simp]:
  "receive_all reads decrypt r t ((WsMessage (Text s), now) # ws) = receive_all reads decrypt r t ws"
  by (simp add: receive_all.simps [of reads decrypt r t "(WsMessage (Text s), now) # ws"] receive_all.simps [of reads decrypt r t ws])

lemma receive_all_close [simp]:
  "receive_all reads decrypt r t ((WsMessage (Close f), now) # ws) = ([], SE_Closed, ws)"
  by (simp add: receive_all.simps [of reads decrypt r t "(WsMessage (Close f), now) # ws"])

lemma receive_all_binary:
  "receive_all reads decrypt r t ((WsMessage (Binary b), now) # ws) =
     (case decode_fragment reads decrypt r t b now of
        (r1, t1, Ok (Some e)) \<Rightarrow> also_received [e] (receive_all reads decrypt r1 t1 ws)
      | (r1, t1, Ok None) \<Rightarrow> receive_all reads decrypt r1 t1 ws
      | (r1, t1, Err e) \<Rightarrow> ([], SE_Codec e, ws))"
proof -
  obtain r1 t1 res where d: "decode_fragment reads decrypt r t b now = (r1, t1, res)" by (metis prod_cases3)
  note one = receive_all.simps [of reads decrypt r t "(WsMessage (Binary b), now) # ws"]
  show ?thesis
  proof (cases res)
    case (Inr x)
    then show ?thesis
      by (cases x) (simp_all add: one d receive_all.simps [of reads decrypt r1 t1 ws] also_received_def case_prod_beta)
  qed (simp add: one d)
qed

definition delivered :: "(bytes option, frame_codec_error) result list \<Rightarrow> bytes list" where
  "delivered out = concat (map (\<lambda>r. case r of Ok (Some e) \<Rightarrow> [e] | _ \<Rightarrow> []) out)"

lemma receive_all_fragments:
  assumes "decode_all reads decrypt r t (zip cs ts) = (r', t', out)" "length ts = length cs" "\<forall>x\<in>set out. is_ok x"
  shows "receive_all reads decrypt r t (zip (map (\<lambda>c. WsMessage (Binary c)) cs) ts @ rest) =
     also_received (delivered out) (receive_all reads decrypt r' t' rest)"
  using assms
proof (induction cs arbitrary: r t ts out)
  case Nil
  then show ?case by (simp add: delivered_def)
next
  case (Cons c cs)
  obtain now ts' where ts: "ts = now # ts'" using Cons.prems(2) by (cases ts) auto
  obtain r1 t1 res where d: "decode_fragment reads decrypt r t c now = (r1, t1, res)" by (metis prod_cases3)
  obtain out' where a: "decode_all reads decrypt r1 t1 (zip cs ts') = (r', t', out')" "out = res # out'"
    using Cons.prems(1) by (auto simp: ts d split: prod.splits)
  obtain x where x: "res = Ok x" using Cons.prems(3) a(2) by (cases res) auto
  have "receive_all reads decrypt r1 t1 (zip (map (\<lambda>c. WsMessage (Binary c)) cs) ts' @ rest) =
      also_received (delivered out') (receive_all reads decrypt r' t' rest)"
    using Cons.IH [OF a(1)] Cons.prems a(2) ts by simp
  then show ?case by (cases x) (simp_all add: ts receive_all_binary d x a(2) delivered_def)
qed

lemma gaps_ok_append: "gaps_ok a (xs @ ys) \<longleftrightarrow> gaps_ok a xs \<and> gaps_ok (last (a # xs)) ys"
  by (induction xs arbitrary: a) auto

lemma gaps_ok_hd: "gaps_ok a ys \<Longrightarrow> gaps_ok (hd ys) ys"
  by (cases ys) auto

text \<open>
  \<open>received\<close>: what the peer, in transport state \<open>t0\<close> at the start, gets out of the log of a socket when no two
  messages come more than ten seconds apart is the list \<open>es\<close> of envelopes; it then waits for a new record, and
  its transport is paired with that of the sender.
\<close>

definition received ::
  "(bytes \<Rightarrow> zread list) \<Rightarrow> ('r \<Rightarrow> bytes \<Rightarrow> 'r \<times> bytes option) \<Rightarrow> ('t \<Rightarrow> 'r \<Rightarrow> bool) \<Rightarrow> 'r \<Rightarrow> message list \<Rightarrow> 't \<Rightarrow> bytes list \<Rightarrow> bool" where
  "received reads decrypt paired t0 log t es \<longleftrightarrow>
     (\<forall>ts rest. length ts = length log \<longrightarrow> gaps_ok (hd ts) ts \<longrightarrow>
        (\<exists>t'. paired t t' \<and> receive_all reads decrypt None t0 (zip (map WsMessage log) ts @ rest) =
              also_received es (receive_all reads decrypt None t' rest)))"

lemma received_nil: "paired t t0 \<Longrightarrow> received reads decrypt paired t0 [] t []"
  by (auto simp: received_def)

lemma received_step:
  assumes "received reads decrypt paired t0 log t es"
    and "\<And>t' ts rest. paired t t' \<Longrightarrow> length ts = length new \<Longrightarrow> gaps_ok (hd ts) ts \<Longrightarrow>
      \<exists>u'. paired u u' \<and> receive_all reads decrypt None t' (zip (map WsMessage new) ts @ rest)
        = also_received es' (receive_all reads decrypt None u' rest)"
  shows "received reads decrypt paired t0 (log @ new) u (es @ es')"
  unfolding received_def
proof (intro allI impI)
  fix ts rest
  assume len: "length ts = length (log @ new)" and gaps: "gaps_ok (hd ts) ts"
  define a b where "a = take (length log) ts" and "b = drop (length log) ts"
  have ab: "ts = a @ b" "length a = length log" "length b = length new" using len by (simp_all add: a_def b_def)
  have g: "gaps_ok (hd a) a" "gaps_ok (hd b) b"
    using gaps gaps_ok_hd by (auto simp: ab(1) gaps_ok_append hd_append split: if_splits)
  let ?rest = "zip (map WsMessage new) b @ rest"
  from assms(1) ab(2) g(1) obtain t' where t': "paired t t'"
    "receive_all reads decrypt None t0 (zip (map WsMessage log) a @ ?rest) = also_received es (receive_all reads decrypt None t' ?rest)"
    unfolding received_def by blast
  from assms(2) [OF t'(1) ab(3) g(2)] obtain u' where "paired u u'"
    "receive_all reads decrypt None t' ?rest = also_received es' (receive_all reads decrypt None u' rest)" by blast
  with t' ab show "\<exists>t'. paired u t' \<and> receive_all reads decrypt None t0 (zip (map WsMessage (log @ new)) ts @ rest) =
      also_received (es @ es') (receive_all reads decrypt None t' rest)" by auto
qed

lemma received_text:
  "received reads decrypt paired t0 log t es \<Longrightarrow> received reads decrypt paired t0 (log @ [Text s]) t es"
  by (drule received_step [where new = "[Text s]" and u = t and es' = "[]"]) (auto simp: length_Suc_conv)

lemma received_frame:
  assumes "zlib_ok deflate reads" "noise_channel encrypt decrypt paired" "length envelope \<le> MAX_UNCOMPRESSED_LEN"
    and "encode_frame deflate encrypt t envelope = (u, Ok cs)" "received reads decrypt paired t0 log t es"
  shows "received reads decrypt paired t0 (log @ map Binary cs) u (es @ [envelope])"
proof (rule received_step [OF assms(5)])
  fix t' ts rest
  assume p: "paired t t'" and len: "length ts = length (map Binary cs)" and gaps: "gaps_ok (hd ts) ts"
  from encode_frame_delivers [OF assms(1,2) p assms(3,4)] len gaps obtain u' where u: "paired u u'"
    "decode_all reads decrypt None t' (zip cs ts) = (None, u', replicate (length cs - 1) (Ok None) @ [Ok (Some envelope)])"
    by (auto simp: reassembler_new_def)
  have d: "delivered (replicate n (Ok None) @ [Ok (Some envelope)]) = [envelope]" for n
    by (induction n) (simp_all add: delivered_def)
  have "receive_all reads decrypt None t' (zip (map (\<lambda>c. WsMessage (Binary c)) cs) ts @ rest)
      = also_received [envelope] (receive_all reads decrypt None u' rest)"
    using receive_all_fragments [OF u(2)] len by (simp add: d)
  with u(1) show "\<exists>u'. paired u u' \<and> receive_all reads decrypt None t' (zip (map WsMessage (map Binary cs)) ts @ rest)
      = also_received [envelope] (receive_all reads decrypt None u' rest)" by (auto simp: comp_def)
qed

section \<open>Messages told to the peer\<close>

text \<open>The assumptions on the code outside: zlib inverts itself, the Noise transports of the two ends are in step,
  the socket takes a message whole or not at all, and serde decodes the frames it encoded.\<close>

definition socket_logs :: "(message \<Rightarrow> message list \<Rightarrow> message list \<times> bool) \<Rightarrow> bool" where
  "socket_logs write \<longleftrightarrow> (\<forall>m w. write m w = (w @ [m], True) \<or> write m w = (w, False))"

definition serde_ok :: "session_env \<Rightarrow> bool" where
  "serde_ok env \<longleftrightarrow>
     (\<forall>m seq corr f bs. frame_wrap (se_to_value env) seq corr m = Ok f \<longrightarrow> se_to_vec env f = Some bs \<longrightarrow>
        se_from_slice env bs = Some f \<and> frame_message (se_from_value env) f = Ok m)"

definition link_ok ::
  "session_env \<Rightarrow> ('t, message list) conn_env \<Rightarrow> (bytes \<Rightarrow> zread list) \<Rightarrow> ('r \<Rightarrow> bytes \<Rightarrow> 'r \<times> bytes option) \<Rightarrow> ('t \<Rightarrow> 'r \<Rightarrow> bool) \<Rightarrow> bool" where
  "link_ok env ce reads decrypt paired \<longleftrightarrow>
     zlib_ok (ce_deflate ce) reads \<and> noise_channel (ce_encrypt ce) decrypt paired \<and> socket_logs (ce_write ce) \<and> serde_ok env"

text \<open>What the peer makes of an envelope, and the messages of a session with their sequence numbers.\<close>

definition opened :: "session_env \<Rightarrow> bytes \<Rightarrow> (64 word \<times> outgoing) option" where
  "opened env envelope =
     (case from_json_bytes (se_from_slice env) (string_of envelope) of
        Err _ \<Rightarrow> None
      | Ok f \<Rightarrow> (case frame_message (se_from_value env) f of Err _ \<Rightarrow> None | Ok m \<Rightarrow> Some (fm_seq f, m, fm_corr f)))"

fun numbered :: "64 word \<Rightarrow> outgoing list \<Rightarrow> (64 word \<times> outgoing) list" where
  "numbered n [] = []"
| "numbered n (m # out) = (n + 1, m) # numbered (n + 1) out"

lemma numbered_append: "numbered n (a @ b) = numbered n a @ numbered (n + of_nat (length a)) b"
  by (induction a arbitrary: n) (simp_all add: add.assoc)

lemma numbered_messages [simp]: "map snd (numbered n out) = out"
  by (induction out arbitrary: n) simp_all

definition told ::
  "session_env \<Rightarrow> (bytes \<Rightarrow> zread list) \<Rightarrow> ('r \<Rightarrow> bytes \<Rightarrow> 'r \<times> bytes option) \<Rightarrow> ('t \<Rightarrow> 'r \<Rightarrow> bool) \<Rightarrow> 64 word \<Rightarrow> 'r \<Rightarrow>
     ('t, message list) conn \<Rightarrow> outgoing list \<Rightarrow> bool" where
  "told env reads decrypt paired n0 t0 c out \<longleftrightarrow>
     (\<exists>es. received reads decrypt paired t0 (cn_socket c) (cn_transport c) es
        \<and> map (opened env) es = map Some (numbered n0 out) \<and> cn_seq c = n0 + of_nat (length out))"

lemma told_start:
  "paired t t0 \<Longrightarrow> told env reads decrypt paired n0 t0 \<lparr>cn_seq = n0, cn_transport = t, cn_socket = []\<rparr> []"
  by (auto simp: told_def intro: received_nil)

lemma write_socket_logs:
  "socket_logs (ce_write ce) \<Longrightarrow> write_socket ce m c = (c', b) \<Longrightarrow>
     c' = (if b then c\<lparr>cn_socket := cn_socket c @ [m]\<rparr> else c)"
proof -
  assume "socket_logs (ce_write ce)" and w: "write_socket ce m c = (c', b)"
  then have "ce_write ce m (cn_socket c) = (cn_socket c @ [m], True) \<or> ce_write ce m (cn_socket c) = (cn_socket c, False)"
    by (simp add: socket_logs_def)
  then show ?thesis using w by (cases c) (auto simp: write_socket_def)
qed

lemma send_fragments_logs:
  "socket_logs (ce_write ce) \<Longrightarrow> send_fragments ce cs c = (c', Ok ()) \<Longrightarrow>
     c' = c\<lparr>cn_socket := cn_socket c @ map Binary cs\<rparr>"
proof (induction cs arbitrary: c)
  case (Cons a cs)
  obtain c1 where w: "write_socket ce (Binary a) c = (c1, True)" using Cons.prems(2)
    by (auto split: prod.splits bool.splits)
  have "c' = c1\<lparr>cn_socket := cn_socket c1 @ map Binary cs\<rparr>" using Cons.IH [of c1] Cons.prems w by simp
  then show ?case using write_socket_logs [OF Cons.prems(1) w] by simp
qed simp

lemma send_message_frame:
  "send_message env ce m corr c = (c', Ok ()) \<longleftrightarrow>
     (\<exists>f bs. frame_wrap (se_to_value env) (cn_seq c + 1) corr m = Ok f \<and> to_json_bytes (se_to_vec env) f = Ok bs
        \<and> send_frame ce (bytes_of bs) (c\<lparr>cn_seq := cn_seq c + 1\<rparr>) = (c', Ok ()))"
  by (auto simp: send_message_def advance_def Let_def split: sum.splits prod.splits)

lemma to_json_bytes_ok: "to_json_bytes to_vec f = Ok bs \<longleftrightarrow> to_vec f = Some bs \<and> length bs \<le> MAX_FRAME_SIZE"
  by (auto simp: to_json_bytes_def split: option.splits)

lemma told_send:
  assumes "link_ok env ce reads decrypt paired" "told env reads decrypt paired n0 t0 c out"
    and "send_message env ce m corr c = (c', Ok ())"
  shows "told env reads decrypt paired n0 t0 c' (out @ [(m, corr)])"
proof -
  from assms(1) have z: "zlib_ok (ce_deflate ce) reads" and n: "noise_channel (ce_encrypt ce) decrypt paired"
    and w: "socket_logs (ce_write ce)" and sd: "serde_ok env" by (auto simp: link_ok_def)
  from assms(3) obtain f bs where f: "frame_wrap (se_to_value env) (cn_seq c + 1) corr m = Ok f"
      "to_json_bytes (se_to_vec env) f = Ok bs" "send_frame ce (bytes_of bs) (c\<lparr>cn_seq := cn_seq c + 1\<rparr>) = (c', Ok ())"
    unfolding send_message_frame by blast
  have bs: "se_to_vec env f = Some bs" "length bs \<le> MAX_FRAME_SIZE" using f(2) by (auto simp: to_json_bytes_ok)
  have again: "se_from_slice env bs = Some f" "frame_message (se_from_value env) f = Ok m"
    using sd f(1) bs(1) by (auto simp: serde_ok_def)
  from f(3) obtain u cs where e: "encode_frame (ce_deflate ce) (ce_encrypt ce) (cn_transport c) (bytes_of bs) = (u, Ok cs)"
      "send_fragments ce cs (c\<lparr>cn_seq := cn_seq c + 1, cn_transport := u\<rparr>) = (c', Ok ())"
    by (auto simp: send_frame_def split: prod.splits sum.splits)
  have c': "c' = c\<lparr>cn_seq := cn_seq c + 1, cn_transport := u, cn_socket := cn_socket c @ map Binary cs\<rparr>"
    using send_fragments_logs [OF w e(2)] by simp
  from assms(2) obtain es where es: "received reads decrypt paired t0 (cn_socket c) (cn_transport c) es"
      "map (opened env) es = map Some (numbered n0 out)" "cn_seq c = n0 + of_nat (length out)"
    by (auto simp: told_def)
  have "length (bytes_of bs) \<le> MAX_UNCOMPRESSED_LEN" using bs(2) by (simp add: MAX_FRAME_SIZE_def MAX_UNCOMPRESSED_LEN_def)
  from received_frame [OF z n this e(1) es(1)]
  have "received reads decrypt paired t0 (cn_socket c') (cn_transport c') (es @ [bytes_of bs])" by (simp add: c')
  moreover have "fm_seq f = cn_seq c + 1" "fm_corr f = corr"
    using f(1) by (auto simp: frame_wrap_def split: option.splits json.splits)
  then have "map (opened env) (es @ [bytes_of bs]) = map Some (numbered n0 (out @ [(m, corr)]))"
    using es(2,3) again bs(2) by (simp add: opened_def from_json_bytes_def numbered_append)
  ultimately show ?thesis using es(3) by (auto simp: told_def c' add.assoc)
qed

lemma told_wake:
  assumes "link_ok env ce reads decrypt paired" "told env reads decrypt paired n0 t0 c out"
  shows "told env reads decrypt paired n0 t0 (send_push_wake ce c) out"
proof -
  obtain c' b where w: "write_socket ce (Text ''{\"type\":\"push_wake\"}'') c = (c', b)" by force
  from assms(1) have "socket_logs (ce_write ce)" by (simp add: link_ok_def)
  from write_socket_logs [OF this w] show ?thesis
    using assms(2) by (auto simp: send_push_wake_def w told_def intro: received_text split: if_splits)
qed

lemma told_batch:
  assumes "link_ok env ce reads decrypt paired"
  shows "told env reads decrypt paired n0 t0 c out \<Longrightarrow> send_batch env ce wakes batch c = (c', True) \<Longrightarrow>
     told env reads decrypt paired n0 t0 c' (out @ batch)"
proof (induction batch arbitrary: c out)
  case (Cons mc batch)
  obtain m corr where mc: "mc = (m, corr)" by force
  obtain c1 where s: "send_message env ce m corr c = (c1, Ok ())"
    using Cons.prems(2) by (auto simp: mc split: prod.splits sum.splits)
  let ?c2 = "if wakes \<and> needs_push_wake m then send_push_wake ce c1 else c1"
  have a: "told env reads decrypt paired n0 t0 ?c2 (out @ [(m, corr)])"
    using told_send [OF assms Cons.prems(1) s] told_wake [OF assms] by simp
  have b: "send_batch env ce wakes batch ?c2 = (c', True)" using Cons.prems(2) by (simp add: mc s)
  show ?case using Cons.IH [OF a b] by (simp add: mc)
qed simp

section \<open>A served session\<close>

text \<open>The session with its connection, and for the theorems the requests and pings that arrived and the messages
  that were sent. Between the branches of the serving loop the thread of the session and the rest of the host
  run; a branch that fails to send ends the loop and takes no step here.\<close>

record ('h, 'q, 'k, 't, 'w) serving =
  sg_session :: "('h, 'q, 'k) session"
  sg_conn :: "('t, 'w) conn"
  sg_asked :: "bridge_request list"
  sg_pings :: "string option list"
  sg_sent :: "outgoing list"

fun pings_of :: "dispatch_outcome \<Rightarrow> string option list" where
  "pings_of (DO_Pong corr) = [corr]"
| "pings_of _ = []"

definition pinged :: "string \<Rightarrow> string option list \<Rightarrow> nat" where
  "pinged k ps = length (filter (\<lambda>c. c = Some k) ps)"

inductive serve_step ::
  "session_env \<Rightarrow> 'h session_calls \<Rightarrow> host_env \<Rightarrow> ('t, 'w) conn_env \<Rightarrow> ('h, 'q, 'k, 't, 'w) serving \<Rightarrow> ('h, 'q, 'k, 't, 'w) serving \<Rightarrow> bool"
  for env :: session_env and x :: "'h session_calls" and he :: host_env and ce :: "('t, 'w) conn_env" where
  works: "session_step env x he (sg_session v, sg_asked v, []) (s', sg_asked v, []) \<Longrightarrow>
     serve_step env x he ce v (v\<lparr>sg_session := s'\<rparr>)"
| incoming: "on_incoming env x ce bi (Ok bytes) (sg_session v) (sg_conn v) = (s', c', True) \<Longrightarrow>
     dispatch_incoming env (string_of bytes) = (rs, outcome) \<Longrightarrow>
     serve_step env x he ce v (v\<lparr>sg_session := s', sg_conn := c', sg_asked := sg_asked v @ rs,
       sg_pings := sg_pings v @ pings_of outcome, sg_sent := sg_sent v @ map (Pair M_Pong) (pings_of outcome)\<rparr>)"
| outgoing: "sn_out (sg_session v) = first # rest \<Longrightarrow>
     on_outgoing env ce bi first rest (sg_session v) (sg_conn v) = (s', c', True) \<Longrightarrow>
     serve_step env x he ce v (v\<lparr>sg_session := s', sg_conn := c', sg_sent := sg_sent v @ drain_outgoing first rest\<rparr>)"

inductive_cases session_stepE: "session_step env x he (s, asked, sent) (s', asked', sent')"

definition serve_reaches ::
  "session_env \<Rightarrow> 'h session_calls \<Rightarrow> host_env \<Rightarrow> ('t, 'w) conn_env \<Rightarrow> ('h, 'q, 'k) session \<Rightarrow> ('t, 'w) conn \<Rightarrow>
     ('h, 'q, 'k, 't, 'w) serving \<Rightarrow> bool" where
  "serve_reaches env x he ce s c v =
     (serve_step env x he ce)\<^sup>*\<^sup>* \<lparr>sg_session = s, sg_conn = c, sg_asked = [], sg_pings = [], sg_sent = []\<rparr> v"

subsection \<open>Its books\<close>

lemma drain_not_empty: "drain_outgoing first rest \<noteq> []"
proof
  assume e: "drain_outgoing first rest = []"
  obtain m c where f: "last (first # rest) = (m, c)" by force
  have "rev (first # rest) = (m, c) # rev (butlast (first # rest))"
    using f by (metis append_butlast_last_id list.discI rev_append rev_singleton_conv append_Cons append_Nil)
  then show False using e by (cases m) (simp_all add: drain_outgoing_def)
qed

lemma session_step_frame:
  "session_step env x he (s, asked, []) (s', asked, []) \<Longrightarrow> session_step env x he (s, a, b) (s', a, b)"
  by (erule session_stepE)
     (auto simp: drain_not_empty drain_not_empty [symmetric] intro: session_step.intros dest: session_step.arrives [where asked = a and sent = b])

definition serving_ok :: "string \<Rightarrow> ('h, 'q, 'k, 't, 'w) serving \<Rightarrow> bool" where
  "serving_ok k v \<longleftrightarrow> answers k (sg_sent v) + balance k (sg_session v) = owed k (sg_asked v) + pinged k (sg_pings v)
     \<and> acks (br_replies (sn_bridge (sg_session v)))"

lemma session_step_balance:
  assumes "session_step env x he (s, asked, []) (s', asked, [])" "acks (br_replies (sn_bridge s))"
  shows "balance k s' = balance k s \<and> acks (br_replies (sn_bridge s'))"
proof -
  let ?a = "replicate (balance k s) (BR_TreeRequest (Some k))"
  have o: "owed k (replicate n (BR_TreeRequest (Some k))) = n" for n by (induction n) simp_all
  have "balanced k (s, ?a, [])" using assms(2) by (simp add: balanced_def o)
  from balanced_step [OF session_step_frame [OF assms(1)] this] show ?thesis by (simp add: balanced_def o)
qed

lemma touch_session_simps [simp]:
  "sn_bridge (touch_session env bi s) = sn_bridge s" "sn_requests (touch_session env bi s) = sn_requests s"
  "sn_pending (touch_session env bi s) = sn_pending s" "sn_out (touch_session env bi s) = sn_out s"
  by (simp_all add: touch_session_def)

lemma pinged_simps [simp]: "pinged k [] = 0" "pinged k (a @ b) = pinged k a + pinged k b"
  "pinged k (c # a) = (if c = Some k then 1 else 0) + pinged k a"
  by (simp_all add: pinged_def)

lemma answers_pongs [simp]: "answers k (map (Pair M_Pong) ps) = pinged k ps"
  by (induction ps) simp_all

lemma on_incoming_goes_on:
  assumes "on_incoming env x ce bi (Ok bytes) s c = (s', c', True)" "dispatch_incoming env (string_of bytes) = (rs, outcome)"
  shows "s' = (touch_session env bi s)\<lparr>sn_requests := sn_requests s @ rs\<rparr>"
    and "(pings_of outcome = [] \<and> c' = c) \<or> (\<exists>corr. pings_of outcome = [corr] \<and> send_message env ce M_Pong corr c = (c', Ok ()))"
  using assms by (auto simp: on_incoming_def Let_def elim!: is_okE split: dispatch_outcome.splits prod.splits)

lemma on_outgoing_goes_on:
  assumes "on_outgoing env ce bi first rest s c = (s', c', True)"
  shows "s' = touch_session env bi (s\<lparr>sn_out := []\<rparr>)" and "send_batch env ce True (drain_outgoing first rest) c = (c', True)"
  using assms by (auto simp: on_outgoing_def split: prod.splits bool.splits)

lemma serving_ok_step: "serve_step env x he ce v v' \<Longrightarrow> serving_ok k v \<Longrightarrow> serving_ok k v'"
proof (induction rule: serve_step.induct)
  case (works v s')
  then show ?case using session_step_balance [OF works(1)] by (simp add: serving_ok_def)
next
  case (incoming bi bytes v s' c' rs outcome)
  then show ?case
    by (simp add: serving_ok_def on_incoming_goes_on(1) [OF incoming(1,2)] balance_def waiting_def)
next
  case (outgoing v first rest bi s' c')
  then show ?case by (cases first) (simp add: serving_ok_def on_outgoing_goes_on(1) [OF outgoing(2)] balance_def waiting_def)
qed

lemma serving_told_step:
  assumes "link_ok env ce reads decrypt paired" "serve_step env x he ce v v'"
    and "told env reads decrypt paired n0 t0 (sg_conn v) (sg_sent v)"
  shows "told env reads decrypt paired n0 t0 (sg_conn v') (sg_sent v')"
  using assms(2,3)
proof (induction rule: serve_step.induct)
  case (incoming bi bytes v s' c' rs outcome)
  then show ?case using on_incoming_goes_on(2) [OF incoming(1,2)] told_send [OF assms(1)] by auto
next
  case (outgoing v first rest bi s' c')
  then show ?case using told_batch [OF assms(1) _ on_outgoing_goes_on(2) [OF outgoing(2)]] by simp
qed simp

subsection \<open>The Device gets every answer\<close>

lemma serve_reaches_told:
  assumes "link_ok env ce reads decrypt paired" "paired t t0"
    and "serve_reaches env x he ce s \<lparr>cn_seq = n0, cn_transport = t, cn_socket = []\<rparr> v"
  shows "told env reads decrypt paired n0 t0 (sg_conn v) (sg_sent v)"
  using assms(3) unfolding serve_reaches_def
proof (induction rule: rtranclp_induct)
  case base
  show ?case using told_start [of paired t t0, OF assms(2)] by simp
next
  case (step v v')
  then show ?case using serving_told_step [OF assms(1)] by blast
qed

lemma serve_reaches_ok:
  assumes "serve_reaches env x he ce (session_start env x h host_id hname cfg observed lines host theme device_id) c v"
  shows "serving_ok k v"
  using assms unfolding serve_reaches_def
proof (induction rule: rtranclp_induct)
  case base
  show ?case using balanced_start [of k env x h host_id hname cfg observed lines host theme device_id]
    by (simp add: serving_ok_def balanced_def)
next
  case (step v v')
  then show ?case using serving_ok_step by blast
qed

lemma cancel_settles:
  assumes "acks (br_replies (sn_bridge s))"
  shows "answers k (sn_out (cancel_held_before_close env x bi s)) = balance k s"
proof -
  let ?s = "s\<lparr>sn_requests := sn_requests s @ [BR_CancelPending]\<rparr>"
  let ?s' = "serve_all env x (bi_served bi) ?s"
  have "balance k ?s' = balance k ?s"
    using books_serve_all [of k ?s env x "bi_served bi"] assms by (simp add: books_def)
  moreover have "balance k ?s = balance k s" by (simp add: balance_def waiting_def)
  moreover have "br_pending (sn_bridge ?s') = None \<and> br_replies (sn_bridge ?s') = []"
    by (rule serve_all_last [of _ "waiting s"]) (simp add: waiting_def)
  then have "balance k ?s' = answers k (sn_out ?s')"
    by (simp add: balance_def due_for_def held_for_def serve_all_served)
  ultimately show ?thesis by (simp add: cancel_held_before_close_def)
qed

lemma take_batch_all: "take_batch s = (s', batch) \<Longrightarrow> answers k batch = answers k (sn_out s)"
  by (cases "sn_out s") (auto simp: take_batch_def)

text \<open>The last messages of a session the Host closes for good: the batch, the error and the close frame, in this order.\<close>

lemma on_close_told:
  assumes "link_ok env ce reads decrypt paired" "on_close env x ce bi reason s c = (s', c', True)"
    and "told env reads decrypt paired n0 t0 c out"
  shows "\<exists>c2 batch. take_batch (cancel_held_before_close env x bi s) = (s', batch)
     \<and> told env reads decrypt paired n0 t0 c2 (out @ batch @ (if reason = SignalRevoked then [(revoked_error, None)] else []))
     \<and> cn_socket c' = cn_socket c2 @ [Close (Some (4004, []))]"
proof -
  have w: "socket_logs (ce_write ce)" using assms(1) by (simp add: link_ok_def)
  obtain s1 batch where b: "take_batch (cancel_held_before_close env x bi s) = (s1, batch)" by force
  obtain c1 sent where c1: "send_batch env ce True batch c = (c1, sent)" by force
  obtain c2 r where c2: "(if reason = SignalRevoked then send_message env ce revoked_error None c1 else (c1, Ok ())) = (c2, r)" by force
  obtain c3 closed where c3: "close_socket ce Revoked c2 = (c3, closed)" by force
  have all: "sent" "is_ok r" "closed" "s' = s1" "c' = c3"
    using assms(2) by (auto simp: on_close_def b c1 c2 c3)
  have t1: "told env reads decrypt paired n0 t0 c1 (out @ batch)"
    using told_batch [OF assms(1,3)] c1 all(1) by auto
  have "told env reads decrypt paired n0 t0 c2 (out @ batch @ (if reason = SignalRevoked then [(revoked_error, None)] else []))"
  proof (cases "reason = SignalRevoked")
    case True
    then show ?thesis using told_send [OF assms(1) t1, of revoked_error None c2] c2 all(2) by (auto elim!: is_okE)
  next
    case False
    then show ?thesis using t1 c2 by simp
  qed
  moreover have "cn_socket c3 = cn_socket c2 @ [Close (Some (4004, []))]"
    using write_socket_logs [OF w c3 [unfolded close_socket_def]] all(3) by simp
  ultimately show ?thesis using b all by blast
qed


section \<open>Frames without an answer\<close>


section \<open>Examples\<close>

definition error_frame :: frame where
  "error_frame = \<lparr>fm_v = 1, fm_message_type = ''error'', fm_seq = 1, fm_corr = None, fm_payload = JObj []\<rparr>"

definition error_env :: session_env where
  "error_env = sample_senv\<lparr>
     se_to_value := (\<lambda>m. if m = revoked_error then Some (JObj [(''payload'', JObj [])]) else None),
     se_from_value := (\<lambda>_. Some revoked_error),
     se_to_vec := (\<lambda>f. if f = error_frame then Some ''e'' else None),
     se_from_slice := (\<lambda>_. Some error_frame)\<rparr>"

definition toy_conn_env :: "(nat, message list) conn_env" where
  "toy_conn_env = \<lparr>ce_deflate = toy_deflate, ce_encrypt = toy_cipher, ce_write = (\<lambda>m w. (w @ [m], True)), ce_show = (\<lambda>_. [])\<rparr>"

definition toy_input :: "nat branch_input" where
  "toy_input = \<lparr>bi_served = (\<lambda>_. sample_served), bi_save = SaveWorks, bi_wall = []\<rparr>"

definition idle_session :: "(unit, unit, nat) session" where
  "idle_session = session_start error_env sample_scalls () ''h'' ''n'' sample_config [] [] sample_host (watcher_at 0 None None) ''d''"

lemma toy_link: "link_ok error_env toy_conn_env toy_reads toy_cipher (=)"
proof -
  have "serde_ok error_env"
    by (auto simp: serde_ok_def error_env_def frame_wrap_def frame_message_def split: if_splits)
  then show ?thesis
    using toy_zlib_ok toy_noise_ok by (simp add: link_ok_def toy_conn_env_def socket_logs_def)
qed

lemma toy_write: "write_socket toy_conn_env m c = (c\<lparr>cn_socket := cn_socket c @ [m]\<rparr>, True)"
  by (simp add: write_socket_def toy_conn_env_def)

lemma toy_writes: "send_fragments toy_conn_env cs c = (c\<lparr>cn_socket := cn_socket c @ map Binary cs\<rparr>, Ok ())"
  by (induction cs arbitrary: c) (simp_all add: toy_write)

lemma toy_error_sent: "\<exists>c'. send_message error_env toy_conn_env revoked_error None \<lparr>cn_seq = 0, cn_transport = n, cn_socket = []\<rparr> = (c', Ok ())"
proof -
  have "length (bytes_of ''e'') \<le> MAX_UNCOMPRESSED_LEN" by (simp add: MAX_UNCOMPRESSED_LEN_def)
  from encode_frame_ok [OF toy_zlib_ok toy_noise_ok refl this, of n]
  obtain u cs where e: "encode_frame toy_deflate toy_cipher n (bytes_of ''e'') = (u, Ok cs)"
    by (elim exE conjE) (rule that)
  have "frame_wrap (se_to_value error_env) 1 None revoked_error = Ok error_frame"
    by (simp add: frame_wrap_def error_env_def error_frame_def PROTOCOL_VERSION_def revoked_error_def)
  moreover have "to_json_bytes (se_to_vec error_env) error_frame = Ok ''e''"
    by (simp add: to_json_bytes_def error_env_def MAX_FRAME_SIZE_def)
  moreover have "ce_deflate toy_conn_env = toy_deflate" "ce_encrypt toy_conn_env = toy_cipher" by (simp_all add: toy_conn_env_def)
  ultimately show ?thesis by (simp add: send_message_def advance_def send_frame_def e toy_writes)
qed

lemma idle_quiet: "take_batch (cancel_held_before_close error_env sample_scalls toy_input idle_session)
    = (cancel_held_before_close error_env sample_scalls toy_input idle_session, [])"
proof -
  let ?s = "idle_session\<lparr>sn_requests := sn_requests idle_session @ [BR_CancelPending]\<rparr>"
  have q: "sn_requests idle_session = []" "sn_pending idle_session = None" "sn_out idle_session = []"
    by (simp_all add: idle_session_def session_start_def)
  have b: "br_pending (sn_bridge idle_session) = None \<and> br_replies (sn_bridge idle_session) = []"
    by (simp add: idle_session_def session_start_def reopen_def on_bridge_def open_subscription_def sample_scalls_def on_herdr_def
          current_subscription_entries_def fetch_snapshot_def bridge_new_def split: prod.splits sum.splits)
  have "sn_out (serve_all error_env sample_scalls f ?s) = []" for f
    using q b by (simp add: serve_all.simps [of _ _ f] serve_all.simps [of _ _ "\<lambda>n. f (Suc n)"] next_request_def serve_one_def
        take_replies_def on_bridge_def take_input_replies_def cancel_pending_inputs_def)
  then show ?thesis by (simp add: take_batch_def cancel_held_before_close_def)
qed



end
