(* ===== verification/Control_Plane.thy ===== *)
theory Control_Plane
  imports Host_Core Json Base64_Ref
begin

text \<open>
  \<open>herdr-relay/src/control.rs\<close>, the loopback transport between the bridge and its local clients: the endpoint
  kept in \<open>state.json\<close>, the gate of a request, one served connection, the client's call and the reading of its
  reply; and the handler of \<open>bridge.rs\<close> that maps the commands to the host state. The JSON text codec, the file
  operations, the sockets and the clock are arguments.
\<close>

section \<open>The endpoint file\<close>

definition REQUEST_MAX_BYTES :: nat where "REQUEST_MAX_BYTES = 4096"
definition REPLY_MAX_BYTES :: nat where "REPLY_MAX_BYTES = 65536"
definition IO_TIMEOUT :: duration where "IO_TIMEOUT = secs 2"

record control_endpoint =
  ep_pid :: "32 word"
  ep_port :: "16 word"
  ep_token :: string

datatype control_file_error = CF_Read | CF_Parse | CF_NotAnObject | CF_Write

text \<open>The 32 bytes are those of the random source.\<close>

definition new_token :: "(8 word list \<Rightarrow> string) \<Rightarrow> 8 word list \<Rightarrow> string" where
  "new_token enc bytes = enc (take 32 bytes)"

text \<open>\<open>from_str\<close> is \<open>serde_json::from_str\<close>, \<open>to_str\<close> is \<open>serde_json::to_string\<close> on a value.\<close>

definition read_state :: "(string \<Rightarrow> json option) \<Rightarrow> disk_file \<Rightarrow> ((string \<times> json) list option, control_file_error) result" where
  "read_state from_str file =
     (case file of
        FileMissing \<Rightarrow> Ok None
      | FileUnreadable \<Rightarrow> Err CF_Read
      | FileText tx \<Rightarrow>
          (case from_str tx of
             None \<Rightarrow> Err CF_Parse
           | Some (JObj state) \<Rightarrow> Ok (Some state)
           | Some _ \<Rightarrow> Err CF_NotAnObject))"

text \<open>A write that fails may leave anything behind: the file is written in place.\<close>

datatype file_write = WriteWorks | WriteFails disk_file

definition write_state :: "(json \<Rightarrow> string) \<Rightarrow> file_write \<Rightarrow> (string \<times> json) list \<Rightarrow> disk_file \<times> (unit, control_file_error) result" where
  "write_state to_str w state =
     (case w of WriteWorks \<Rightarrow> (FileText (to_str (JObj state)), Ok ()) | WriteFails file \<Rightarrow> (file, Err CF_Write))"

definition endpoint_json :: "control_endpoint \<Rightarrow> json" where
  "endpoint_json ep = JObj [(''pid'', JNum (PosInt (ucast (ep_pid ep)))), (''port'', JNum (PosInt (ucast (ep_port ep)))), (''token'', JStr (ep_token ep))]"

text \<open>The derived decoding of an endpoint takes an object or the array of its fields; a number out of the range of
  its field is refused.\<close>

fun endpoint_fields :: "json \<Rightarrow> json option \<times> json option \<times> json option" where
  "endpoint_fields (JArr [pid, port, token]) = (Some pid, Some port, Some token)"
| "endpoint_fields v = (jget ''pid'' v, jget ''port'' v, jget ''token'' v)"

definition endpoint_of :: "json \<Rightarrow> control_endpoint option" where
  "endpoint_of v =
     (case (case endpoint_fields v of (p, q, t) \<Rightarrow> (Option.bind p as_u64, Option.bind q as_u64, Option.bind t as_str)) of
        (Some pid, Some port, Some token) \<Rightarrow>
          if unat pid < 2 ^ 32 \<and> unat port < 2 ^ 16 then Some \<lparr>ep_pid = ucast pid, ep_port = ucast port, ep_token = token\<rparr> else None
      | _ \<Rightarrow> None)"

definition write_endpoint ::
  "(string \<Rightarrow> json option) \<Rightarrow> (json \<Rightarrow> string) \<Rightarrow> file_write \<Rightarrow> control_endpoint \<Rightarrow> disk_file \<Rightarrow> disk_file \<times> (unit, control_file_error) result" where
  "write_endpoint from_str to_str w ep file =
     (case read_state from_str file of
        Err e \<Rightarrow> (file, Err e)
      | Ok state \<Rightarrow> write_state to_str w (AList.update ''control'' (endpoint_json ep) (case state of Some s \<Rightarrow> s | None \<Rightarrow> [])))"

definition clear_endpoint ::
  "(string \<Rightarrow> json option) \<Rightarrow> (json \<Rightarrow> string) \<Rightarrow> file_write \<Rightarrow> disk_file \<Rightarrow> disk_file \<times> (unit, control_file_error) result" where
  "clear_endpoint from_str to_str w file =
     (case read_state from_str file of
        Err e \<Rightarrow> (file, Err e)
      | Ok None \<Rightarrow> (file, Ok ())
      | Ok (Some state) \<Rightarrow> write_state to_str w (AList.delete ''control'' state))"

definition read_endpoint :: "(string \<Rightarrow> json option) \<Rightarrow> disk_file \<Rightarrow> (control_endpoint option, control_file_error) result" where
  "read_endpoint from_str file =
     (case read_state from_str file of
        Err e \<Rightarrow> Err e
      | Ok None \<Rightarrow> Ok None
      | Ok (Some state) \<Rightarrow>
          (case map_of state ''control'' of
             None \<Rightarrow> Ok None
           | Some value \<Rightarrow> (case endpoint_of value of None \<Rightarrow> Err CF_Parse | Some ep \<Rightarrow> Ok (Some ep))))"

section \<open>Requests\<close>

datatype control_command =
    CmdStatus
  | CmdOpenPairing
  | CmdClosePairing
  | CmdRevoke string
  | CmdRevokeAll
  | CmdStop

fun control_error_name :: "control_error \<Rightarrow> string" where
  "control_error_name Unauthorized = ''unauthorized''"
| "control_error_name BadRequest = ''bad_request''"
| "control_error_name UnknownCommand = ''unknown_command''"
| "control_error_name NotFound = ''not_found''"

definition control_error_of :: "string \<Rightarrow> control_error option" where
  "control_error_of name = find (\<lambda>e. control_error_name e = name) [Unauthorized, BadRequest, UnknownCommand, NotFound]"

definition KNOWN_COMMANDS :: "string list" where
  "KNOWN_COMMANDS = [''status'', ''open_pairing'', ''close_pairing'', ''revoke'', ''revoke_all'', ''stop'']"

text \<open>The derived JSON of a request: the token, the tag \<open>command\<close> and the fields of the variant.\<close>

fun command_json :: "control_command \<Rightarrow> (string \<times> json) list" where
  "command_json CmdStatus = [(''command'', JStr ''status'')]"
| "command_json CmdOpenPairing = [(''command'', JStr ''open_pairing'')]"
| "command_json CmdClosePairing = [(''command'', JStr ''close_pairing'')]"
| "command_json (CmdRevoke i) = [(''command'', JStr ''revoke''), (''device_id'', JStr i)]"
| "command_json CmdRevokeAll = [(''command'', JStr ''revoke_all'')]"
| "command_json CmdStop = [(''command'', JStr ''stop'')]"

definition request_json :: "string \<Rightarrow> control_command \<Rightarrow> json" where
  "request_json token cmd = JObj ((''token'', JStr token) # command_json cmd)"

definition command_of :: "json \<Rightarrow> control_command option" where
  "command_of v =
     (case Option.bind (jget ''command'' v) as_str of
        None \<Rightarrow> None
      | Some name \<Rightarrow>
          if name = ''status'' then Some CmdStatus
          else if name = ''open_pairing'' then Some CmdOpenPairing
          else if name = ''close_pairing'' then Some CmdClosePairing
          else if name = ''revoke'' then map_option CmdRevoke (Option.bind (jget ''device_id'' v) as_str)
          else if name = ''revoke_all'' then Some CmdRevokeAll
          else if name = ''stop'' then Some CmdStop
          else None)"

definition classify :: "json \<Rightarrow> string \<Rightarrow> (control_command, control_error) result" where
  "classify value token =
     (if Option.bind (jget ''token'' value) as_str \<noteq> Some token then Err Unauthorized
      else case jget ''command'' value of
        Some (JStr name) \<Rightarrow>
          if name \<in> set KNOWN_COMMANDS then ok_or BadRequest (command_of value) else Err UnknownCommand
      | _ \<Rightarrow> Err BadRequest)"

section \<open>One served connection\<close>

text \<open>\<open>take(n).read_line\<close>: the bytes up to and with the first newline among the first \<open>n\<close>.\<close>

definition newline :: char where "newline = CHR 0x0A"

definition line_of :: "nat \<Rightarrow> string \<Rightarrow> string" where
  "line_of n s = (let t = take n s; body = takeWhile (\<lambda>c. c \<noteq> newline) t in take (Suc (length body)) t)"

definition ends_with_newline :: "string \<Rightarrow> bool" where
  "ends_with_newline s \<longleftrightarrow> s \<noteq> [] \<and> last s = newline"

fun reply_json :: "(json, control_error) result \<Rightarrow> json" where
  "reply_json (Ok res) = JObj [(''ok'', JBool True), (''result'', res)]"
| "reply_json (Err code) = JObj [(''ok'', JBool False), (''error'', JStr (control_error_name code))]"

text \<open>What the client wrote before it closed or fell silent, \<open>None\<close> for an I/O error or a timeout; the state the
  handler leaves and the reply line, if one is written.\<close>

definition handle_connection ::
  "(string \<Rightarrow> json option) \<Rightarrow> (json \<Rightarrow> string) \<Rightarrow> string \<Rightarrow> (control_command \<Rightarrow> 's \<Rightarrow> 's \<times> (json, control_error) result) \<Rightarrow>
     string option \<Rightarrow> 's \<Rightarrow> 's \<times> string option" where
  "handle_connection from_str to_str token handle received s =
     (case received of
        None \<Rightarrow> (s, None)
      | Some bytes \<Rightarrow>
          let input = line_of (REQUEST_MAX_BYTES + 1) bytes in
          if \<not> valid_utf8 input then (s, None)
          else if \<not> ends_with_newline input then (s, None)
          else (case from_str input of
             None \<Rightarrow> (s, None)
           | Some value \<Rightarrow>
               if \<not> is_object value then (s, None)
               else (case (case classify value token of Ok cmd \<Rightarrow> handle cmd s | Err code \<Rightarrow> (s, Err code)) of
                  (s1, reply) \<Rightarrow>
                    let body = to_str (reply_json reply) in
                    (s1, if REPLY_MAX_BYTES < length body then None else Some (body @ [newline])))))"

section \<open>The client\<close>

datatype client_error = CL_NotRunning | CL_Io | CL_Protocol string | CL_Rejected control_error

fun control_error_debug :: "control_error \<Rightarrow> string" where
  "control_error_debug Unauthorized = ''Unauthorized''"
| "control_error_debug BadRequest = ''BadRequest''"
| "control_error_debug UnknownCommand = ''UnknownCommand''"
| "control_error_debug NotFound = ''NotFound''"

fun client_error_text :: "client_error \<Rightarrow> string" where
  "client_error_text CL_NotRunning = ''the bridge is not running''"
| "client_error_text CL_Io = ''the control connection failed''"
| "client_error_text (CL_Protocol m) = ''the bridge reply failed the protocol: '' @ m"
| "client_error_text (CL_Rejected code) = ''the bridge rejected the command ('' @ control_error_debug code @ '')''"

text \<open>
  The loop of \<open>read_reply\<close> over the passes it makes: the clock at each pass and what \<open>fill_buf\<close> gives then, \<open>None\<close>
  for an error and the empty string at the end of the stream. A pass that leaves bytes in the buffer is the last
  one, so every pass sees fresh bytes. When nothing more comes the read timeout ends the wait with an error.
\<close>

fun reply_line :: "instant \<Rightarrow> string \<Rightarrow> (instant \<times> string option) list \<Rightarrow> (string, client_error) result" where
  "reply_line deadline acc [] = (if length acc \<le> REPLY_MAX_BYTES \<and> \<not> ends_with_newline acc then Err CL_Io else Ok acc)"
| "reply_line deadline acc ((now, fill) # fills) =
     (if length acc \<le> REPLY_MAX_BYTES \<and> \<not> ends_with_newline acc then
        if deadline \<le> now then Err CL_Io
        else (case fill of
           None \<Rightarrow> Err CL_Io
         | Some available \<Rightarrow>
             if available = [] then Ok acc
             else reply_line deadline (acc @ line_of (REPLY_MAX_BYTES + 1 - length acc) available) fills)
      else Ok acc)"

definition decode_reply :: "(string \<Rightarrow> json option) \<Rightarrow> string \<Rightarrow> (json, client_error) result" where
  "decode_reply from_str input =
     (if input = [] then Err (CL_Protocol ''the bridge closed without a reply'')
      else if \<not> ends_with_newline input then Err (CL_Protocol ''the reply was truncated or over the size cap'')
      else case from_str input of
        None \<Rightarrow> Err (CL_Protocol ''the reply was not one JSON object'')
      | Some reply \<Rightarrow>
          (case Option.bind (jget ''ok'' reply) as_bool of
             Some True \<Rightarrow> ok_or (CL_Protocol ''an ok reply without a result'') (jget ''result'' reply)
           | Some False \<Rightarrow>
               (case Option.bind (jget ''error'' reply) as_str of
                  Some code \<Rightarrow>
                    if code = ''unauthorized'' then Err CL_NotRunning
                    else (case control_error_of code of
                       Some c \<Rightarrow> Err (CL_Rejected c)
                     | None \<Rightarrow> Err (CL_Protocol ''an unknown error code''))
                | None \<Rightarrow> Err (CL_Protocol ''an error reply without a code''))
           | None \<Rightarrow> Err (CL_Protocol ''a reply without an ok flag'')))"

definition read_reply :: "(string \<Rightarrow> json option) \<Rightarrow> instant \<Rightarrow> (instant \<times> string option) list \<Rightarrow> (json, client_error) result" where
  "read_reply from_str started fills = bind_result (reply_line (started + IO_TIMEOUT) [] fills) (decode_reply from_str)"

text \<open>Dialling the port and writing the request: refused, another failure, or the clock when the reading starts
  with the passes that follow.\<close>

datatype dial_result = DialRefused | DialFails | Dialled instant "(instant \<times> string option) list"

definition request ::
  "(string \<Rightarrow> json option) \<Rightarrow> (json \<Rightarrow> string) \<Rightarrow> (16 word \<Rightarrow> string \<Rightarrow> 'w \<Rightarrow> 'w \<times> dial_result) \<Rightarrow> disk_file \<Rightarrow> control_command \<Rightarrow>
     'w \<Rightarrow> 'w \<times> (json, client_error) result" where
  "request from_str to_str dial file cmd w =
     (case read_endpoint from_str file of
        Err _ \<Rightarrow> (w, Err CL_NotRunning)
      | Ok None \<Rightarrow> (w, Err CL_NotRunning)
      | Ok (Some ep) \<Rightarrow>
          (case dial (ep_port ep) (to_str (request_json (ep_token ep) cmd) @ [newline]) w of
             (w1, DialRefused) \<Rightarrow> (w1, Err CL_NotRunning)
           | (w1, DialFails) \<Rightarrow> (w1, Err CL_Io)
           | (w1, Dialled started fills) \<Rightarrow> (w1, read_reply from_str started fills)))"

definition control_status ::
  "(json \<Rightarrow> host_status option) \<Rightarrow> (json, client_error) result \<Rightarrow> (host_status, client_error) result" where
  "control_status status_of r = bind_result r (\<lambda>v. ok_or (CL_Protocol ''the status object was malformed'') (status_of v))"

definition not_running_notice :: string where
  "not_running_notice = ''bridge not running - start herdr-relay first (the service starts it at login)''"

section \<open>The handler of the bridge\<close>

text \<open>Entropy, outcomes of saving and of rotating the key are arguments, as in the operations it calls.\<close>

definition host_handle ::
  "(8 word list \<Rightarrow> string) \<Rightarrow> (8 word list \<Rightarrow> string) \<Rightarrow> (paired_device list \<Rightarrow> string option) \<Rightarrow> (host_status \<Rightarrow> json) \<Rightarrow> instant \<Rightarrow>
     'q entropy \<Rightarrow> save_outcome \<Rightarrow> 'k option \<Rightarrow> control_command \<Rightarrow> ('q, 'k) host_state \<Rightarrow> ('q, 'k) host_state \<times> (json, control_error) result" where
  "host_handle enc fingerprint_of ser status_json now en out rotated cmd s =
     (let status = (\<lambda>s. case build_status enc fingerprint_of now s of (s1, st) \<Rightarrow> (s1, Ok (status_json st)));
          done = (\<lambda>(s1, r). (s1, case r of Ok _ \<Rightarrow> Ok (JObj []) | Err e \<Rightarrow> Err e)) in
      case cmd of
        CmdStatus \<Rightarrow> status s
      | CmdOpenPairing \<Rightarrow> (case open_pairing enc en now s of (s1, Err e) \<Rightarrow> (s1, Err e) | (s1, Ok _) \<Rightarrow> status s1)
      | CmdClosePairing \<Rightarrow> (close_pairing s, Ok (JObj []))
      | CmdRevoke i \<Rightarrow> done (revoke_one ser out i s)
      | CmdRevokeAll \<Rightarrow> done (revoke_all ser out rotated s)
      | CmdStop \<Rightarrow> (stop_command s, Ok (JObj [])))"

section \<open>The endpoint\<close>

lemma token_length: "length bytes = 32 \<Longrightarrow> length (new_token ref_enc bytes) = 43 \<and> list_all b64_char (new_token ref_enc bytes)"
proof -
  assume n: "length bytes = 32"
  have "unat x < 256" for x :: "8 word" using unsigned_less [of x] by simp
  then show ?thesis using b64_enc_facts [of "map unat bytes"] n by (auto simp: new_token_def ref_enc_def)
qed

definition state_key :: "(string \<Rightarrow> json option) \<Rightarrow> disk_file \<Rightarrow> string \<Rightarrow> json option" where
  "state_key from_str file k = (case read_state from_str file of Ok (Some state) \<Rightarrow> map_of state k | _ \<Rightarrow> None)"

lemma endpoint_json_back: "endpoint_of (endpoint_json ep) = Some ep"
proof -
  have "unat (ucast (ep_pid ep) :: 64 word) < 2 ^ 32" "unat (ucast (ep_port ep) :: 64 word) < 2 ^ 16"
    using unsigned_less [of "ep_pid ep", where ?'a = nat] unsigned_less [of "ep_port ep", where ?'a = nat]
      le_less_trans [OF take_bit_nat_less_eq_self [of 64]]
    by (simp_all add: unsigned_ucast_eq)
  moreover have "ucast (ucast (ep_pid ep) :: 64 word) = ep_pid ep" "ucast (ucast (ep_port ep) :: 64 word) = ep_port ep"
    by (rule bit_word_eqI; simp add: bit_simps)+
  ultimately show ?thesis by (simp add: endpoint_of_def endpoint_json_def)
qed

text \<open>Publishing the endpoint and clearing it again, when the file can be read and written and JSON survives its
  text form: clients read exactly the endpoint published, then none, and no other key of the file changes.\<close>

theorem endpoint_roundtrip:
  assumes "read_state from_str file = Ok state" and o: "old = (case state of Some st \<Rightarrow> st | None \<Rightarrow> [])"
    and "\<forall>v\<in>{JObj (AList.update ''control'' (endpoint_json ep) old), JObj (AList.delete ''control'' (AList.update ''control'' (endpoint_json ep) old))}.
           from_str (to_str v) = Some v"
    and "write_endpoint from_str to_str WriteWorks ep file = (file1, r1)" "clear_endpoint from_str to_str WriteWorks file1 = (file2, r2)"
  shows "r1 = Ok () \<and> read_endpoint from_str file1 = Ok (Some ep) \<and> r2 = Ok () \<and> read_endpoint from_str file2 = Ok None
     \<and> (k \<noteq> ''control'' \<longrightarrow> state_key from_str file1 k = state_key from_str file k \<and> state_key from_str file2 k = state_key from_str file k)"
proof -
  have f1: "file1 = FileText (to_str (JObj (AList.update ''control'' (endpoint_json ep) old)))" "r1 = Ok ()"
    using assms(4) by (simp_all add: write_endpoint_def write_state_def assms(1) o)
  have s1: "read_state from_str file1 = Ok (Some (AList.update ''control'' (endpoint_json ep) old))"
    using assms(3) by (simp add: read_state_def f1)
  have f2: "file2 = FileText (to_str (JObj (AList.delete ''control'' (AList.update ''control'' (endpoint_json ep) old))))" "r2 = Ok ()"
    using assms(5) by (simp_all add: clear_endpoint_def write_state_def s1)
  have s2: "read_state from_str file2 = Ok (Some (AList.delete ''control'' (AList.update ''control'' (endpoint_json ep) old)))"
    using assms(3) by (simp add: read_state_def f2)
  have "state_key from_str file k = map_of old k" using assms(1) by (cases state) (simp_all add: state_key_def o)
  then show ?thesis
    using f1(2) f2(2) by (simp add: read_endpoint_def state_key_def s1 s2 endpoint_json_back AList.update_conv' AList.delete_conv')
qed

section \<open>The gate\<close>

lemma line_of_facts:
  "newline \<notin> set (take n s) \<Longrightarrow> line_of n s = take n s"
  "newline \<in> set (take n s) \<Longrightarrow> line_of n s = takeWhile (\<lambda>c. c \<noteq> newline) (take n s) @ [newline]"
proof -
  show "line_of n s = take n s" if "newline \<notin> set (take n s)"
  proof -
    have "takeWhile (\<lambda>c. c \<noteq> newline) (take n s) = take n s" using that by (auto simp: takeWhile_eq_all_conv)
    then have "line_of n s = take (Suc (length (take n s))) (take n s)" by (simp only: line_of_def Let_def)
    then show ?thesis by (simp del: take_take length_take)
  qed
  show "line_of n s = takeWhile (\<lambda>c. c \<noteq> newline) (take n s) @ [newline]" if "newline \<in> set (take n s)"
  proof -
    define b where "b = takeWhile (\<lambda>c. c \<noteq> newline) (take n s)"
    have ne: "dropWhile (\<lambda>c. c \<noteq> newline) (take n s) \<noteq> []" using that by (auto simp: dropWhile_eq_Nil_conv)
    then obtain c rest where cr: "dropWhile (\<lambda>c. c \<noteq> newline) (take n s) = c # rest" by (meson neq_Nil_conv)
    then have r: "dropWhile (\<lambda>c. c \<noteq> newline) (take n s) = newline # rest" using hd_dropWhile [OF ne] by simp
    have t: "take n s = b @ newline # rest" using r takeWhile_dropWhile_id [of "\<lambda>c. c \<noteq> newline" "take n s"] by (simp add: b_def)
    have "line_of n s = take (Suc (length b)) (take n s)" by (simp only: line_of_def Let_def b_def)
    also have "\<dots> = b @ [newline]" unfolding t by simp
    finally show ?thesis by (simp only: b_def)
  qed
qed

lemma length_line_of: "length (line_of n s) \<le> n"
  by (simp add: line_of_def Let_def min_def)


section \<open>Reading a reply\<close>

lemma newline_ends: "ends_with_newline (xs @ [newline])" "newline \<notin> set xs \<Longrightarrow> \<not> ends_with_newline xs"
  by (simp_all add: ends_with_newline_def) (metis last_in_set)

text \<open>However the reply is cut into pieces, the reader gets its first line, or its first 65537 bytes.\<close>

lemma reply_line_pieces:
  assumes "now < deadline" "newline \<notin> set acc" "length acc \<le> REPLY_MAX_BYTES" "[] \<notin> set pieces"
  shows "reply_line deadline acc (map (\<lambda>c. (now, Some c)) pieces @ [(now, Some [])]) = Ok (line_of (REPLY_MAX_BYTES + 1) (acc @ concat pieces))"
  using assms(2-4)
proof (induction pieces arbitrary: acc)
  case Nil
  then have "newline \<notin> set (take (REPLY_MAX_BYTES + 1) acc)" by simp
  from line_of_facts(1) [OF this] show ?case using Nil assms(1) by (simp add: newline_ends)
next
  case (Cons c pieces)
  let ?n = "REPLY_MAX_BYTES + 1 - length acc" and ?rest = "map (\<lambda>c. (now, Some c)) pieces @ [(now, Some [])]"
  have step: "reply_line deadline acc (map (\<lambda>c. (now, Some c)) (c # pieces) @ [(now, Some [])]) = reply_line deadline (acc @ line_of ?n c) ?rest"
    using Cons.prems assms(1) by (cases c) (simp_all add: newline_ends)
  have whole: "take (REPLY_MAX_BYTES + 1) (acc @ x) = acc @ take ?n x" for x using Cons.prems(2) by simp
  show ?case
  proof (cases "newline \<in> set (take ?n c)")
    case True
    note l = line_of_facts(2) [OF True]
    have stops: "reply_line deadline (a @ [newline]) evs = Ok (a @ [newline])" for a evs
      by (cases evs) (auto simp: newline_ends)
    have i: "newline \<in> set (take ?n (c @ concat pieces))" using True by (auto simp: set_take_subset dest: in_set_takeD)
    have "takeWhile (\<lambda>x. x \<noteq> newline) (take ?n (c @ concat pieces)) = takeWhile (\<lambda>x. x \<noteq> newline) (take ?n c)"
      using True by (auto simp: takeWhile_append)
    moreover have "line_of (REPLY_MAX_BYTES + 1) (acc @ concat (c # pieces)) = acc @ takeWhile (\<lambda>x. x \<noteq> newline) (take ?n (c @ concat pieces)) @ [newline]"
      using line_of_facts(2) [of "REPLY_MAX_BYTES + 1" "acc @ concat (c # pieces)"] i Cons.prems(1)
      unfolding whole by (auto simp: takeWhile_append)
    ultimately show ?thesis unfolding step l using stops [of "acc @ takeWhile (\<lambda>x. x \<noteq> newline) (take ?n c)"] by simp
  next
    case False
    note l = line_of_facts(1) [OF False]
    show ?thesis
    proof (cases "length c < ?n")
      case True
      then have "line_of ?n c = c" using l by simp
      then show ?thesis unfolding step using Cons.IH [of "acc @ c"] Cons.prems True False by auto
    next
      case full: False
      then have "length (acc @ take ?n c) = REPLY_MAX_BYTES + 1" using Cons.prems(2) by simp
      then have "\<not> length (acc @ take ?n c) \<le> REPLY_MAX_BYTES" by simp
      then have "reply_line deadline (acc @ take ?n c) evs = Ok (acc @ take ?n c)" for evs
        by (cases evs) (auto simp del: length_append length_take)
      moreover have "take (REPLY_MAX_BYTES + 1) (acc @ concat (c # pieces)) = acc @ take ?n c" using full Cons.prems(2) by (simp add: whole)
      moreover have "line_of (REPLY_MAX_BYTES + 1) (acc @ concat (c # pieces)) = acc @ take ?n c"
        using line_of_facts(1) [of "REPLY_MAX_BYTES + 1" "acc @ concat (c # pieces)", unfolded calculation(2)] False Cons.prems(1)
        by (simp only: set_append Un_iff simp_thms)
      ultimately show ?thesis unfolding step l by simp
    qed
  qed
qed

section \<open>A call over the loopback\<close>

text \<open>JSON on one line: the text of a value has no newline and decodes, with the newline that ends it, to the value.\<close>

definition line_json :: "(string \<Rightarrow> json option) \<Rightarrow> (json \<Rightarrow> string) \<Rightarrow> nat \<Rightarrow> json \<Rightarrow> bool" where
  "line_json from_str to_str n v \<longleftrightarrow> newline \<notin> set (to_str v) \<and> valid_utf8 (to_str v @ [newline])
     \<and> from_str (to_str v @ [newline]) = Some v \<and> length (to_str v) \<le> n"

text \<open>The loopback between a client and the bridge that answers in time; \<open>pieces_of\<close> cuts a reply into the pieces the
  client reads it in.\<close>

definition loopback ::
  "(string \<Rightarrow> json option) \<Rightarrow> (json \<Rightarrow> string) \<Rightarrow> string \<Rightarrow> (control_command \<Rightarrow> 's \<Rightarrow> 's \<times> (json, control_error) result) \<Rightarrow>
     (string \<Rightarrow> string list) \<Rightarrow> instant \<Rightarrow> 16 word \<Rightarrow> string \<Rightarrow> 's \<Rightarrow> 's \<times> dial_result" where
  "loopback from_str to_str token handle pieces_of t port bytes s =
     (case handle_connection from_str to_str token handle (Some bytes) s of
        (s1, reply) \<Rightarrow> (s1, Dialled t (map (\<lambda>c. (t, Some c)) (case reply of Some body \<Rightarrow> pieces_of body | None \<Rightarrow> []) @ [(t, Some [])])))"

fun client_result :: "(json, control_error) result \<Rightarrow> (json, client_error) result" where
  "client_result (Ok v) = Ok v"
| "client_result (Err Unauthorized) = Err CL_NotRunning"
| "client_result (Err code) = Err (CL_Rejected code)"

lemma line_of_line: "newline \<notin> set s \<Longrightarrow> length s < n \<Longrightarrow> line_of n (s @ [newline]) = s @ [newline]"
  by (subst line_of_facts(2)) (auto simp: takeWhile_append)

lemma decode_reply_json:
  "from_str (to_str (reply_json r) @ [newline]) = Some (reply_json r) \<Longrightarrow>
     decode_reply from_str (to_str (reply_json r) @ [newline]) = client_result r"
proof (cases r)
  case (Inl code)
  assume "from_str (to_str (reply_json r) @ [newline]) = Some (reply_json r)"
  with Inl show ?thesis by (cases code) (simp_all add: decode_reply_def newline_ends control_error_of_def)
qed (simp add: decode_reply_def newline_ends)

lemma classify_request: "classify (request_json t cmd) token = (if t = token then Ok cmd else Err Unauthorized)"
  by (cases cmd) (simp_all add: classify_def request_json_def command_of_def KNOWN_COMMANDS_def)

text \<open>C3: Calling the bridge over the transport is calling its handler: with the token of the running bridge the command
  runs once and the client gets its result; with the token of another run nothing happens and the bridge counts
  as not running.\<close>

theorem control_call:
  assumes "read_endpoint from_str file = Ok (Some ep)"
    and "line_json from_str to_str REQUEST_MAX_BYTES (request_json (ep_token ep) cmd)"
    and "handle cmd s = (s1, r)" "line_json from_str to_str REPLY_MAX_BYTES (reply_json r)"
    and "line_json from_str to_str REPLY_MAX_BYTES (reply_json (Err Unauthorized))"
    and "\<forall>x. concat (pieces_of x) = x \<and> [] \<notin> set (pieces_of x)"
  shows "request from_str to_str (loopback from_str to_str token handle pieces_of t) file cmd s =
     (if ep_token ep = token then (s1, client_result r) else (s, Err CL_NotRunning))"
proof -
  let ?req = "to_str (request_json (ep_token ep) cmd) @ [newline]"
  let ?out = "if ep_token ep = token then (s1, r) else (s, Err Unauthorized)"
  have reply: "line_json from_str to_str REPLY_MAX_BYTES (reply_json (snd ?out))" using assms(4,5) by simp
  have line: "line_of (REQUEST_MAX_BYTES + 1) ?req = ?req"
    using assms(2) by (intro line_of_line) (auto simp: line_json_def)
  have obj: "is_object (request_json (ep_token ep) cmd)" by (simp add: request_json_def)
  have served: "handle_connection from_str to_str token handle (Some ?req) s = (fst ?out, Some (to_str (reply_json (snd ?out)) @ [newline]))"
  proof (cases "ep_token ep = token")
    case True
    then show ?thesis using assms(2-4) line obj
      by (simp add: handle_connection_def Let_def line_json_def newline_ends classify_request del: reply_json.simps)
  next
    case False
    then show ?thesis using assms(2,5) line obj
      by (simp add: handle_connection_def Let_def line_json_def newline_ends classify_request del: reply_json.simps)
  qed
  have "reply_line (t + IO_TIMEOUT) [] (map (\<lambda>c. (t, Some c)) (pieces_of (to_str (reply_json (snd ?out)) @ [newline])) @ [(t, Some [])])
      = Ok (line_of (REPLY_MAX_BYTES + 1) (to_str (reply_json (snd ?out)) @ [newline]))"
    using reply_line_pieces [of t "t + IO_TIMEOUT" "[]" "pieces_of (to_str (reply_json (snd ?out)) @ [newline])"] assms(6)
    by (simp add: IO_TIMEOUT_def secs_def)
  also have "line_of (REPLY_MAX_BYTES + 1) (to_str (reply_json (snd ?out)) @ [newline]) = to_str (reply_json (snd ?out)) @ [newline]"
    using reply by (intro line_of_line) (auto simp: line_json_def)
  finally have "read_reply from_str t (map (\<lambda>c. (t, Some c)) (pieces_of (to_str (reply_json (snd ?out)) @ [newline])) @ [(t, Some [])]) = client_result (snd ?out)"
    using reply decode_reply_json [of from_str to_str "snd ?out"] by (simp add: read_reply_def line_json_def del: reply_json.simps)
  then show ?thesis
    using assms(1) served by (simp add: request_def loopback_def split: if_splits)
qed

section \<open>Examples\<close>

definition sample_endpoint :: control_endpoint where
  "sample_endpoint = \<lparr>ep_pid = 7, ep_port = 4000, ep_token = ''t''\<rparr>"

definition sample_reply :: json where "sample_reply = reply_json (Ok (JObj []))"
definition refused_reply :: json where "refused_reply = reply_json (Err Unauthorized)"
definition stop_request :: json where "stop_request = request_json ''t'' CmdStop"

definition sample_to_str :: "json \<Rightarrow> string" where
  "sample_to_str v = (if v = stop_request then ''q'' else if v = sample_reply then ''r'' else ''u'')"

definition sample_from_str :: "string \<Rightarrow> json option" where
  "sample_from_str tx = (if tx = [CHR ''q'', newline] then Some stop_request else if tx = [CHR ''r'', newline] then Some sample_reply
     else if tx = [CHR ''u'', newline] then Some refused_reply else if tx = ''f'' then Some (JObj [(''control'', endpoint_json sample_endpoint)]) else None)"

lemma sample_distinct: "sample_reply \<noteq> stop_request" "refused_reply \<noteq> stop_request" "refused_reply \<noteq> sample_reply"
  by (simp_all add: sample_reply_def stop_request_def refused_reply_def request_json_def)

lemma sample_line_json: "v \<in> {stop_request, sample_reply, refused_reply} \<Longrightarrow> 1 \<le> n \<Longrightarrow> line_json sample_from_str sample_to_str n v"
proof -
  have a: "is_ascii newline" "newline \<notin> set ''qru''" by (simp_all add: newline_def is_ascii_def)
  have u: "valid_utf8 [c, newline]" if "c \<in> set ''qru''" for c
    using that a(1) by (intro valid_utf8_ascii) (auto simp: is_ascii_def)
  assume "v \<in> {stop_request, sample_reply, refused_reply}" "1 \<le> n"
  then show ?thesis
    using a(2) u sample_distinct by (auto simp: line_json_def sample_to_str_def sample_from_str_def)
qed

theorem endpoint_roundtrip_witness:
  "(let a = JObj (AList.update ''control'' (endpoint_json sample_endpoint) []); b = JObj (AList.delete ''control'' (AList.update ''control'' (endpoint_json sample_endpoint) []));
        from_str = (\<lambda>tx. if tx = ''a'' then Some a else if tx = ''b'' then Some b else None); to_str = (\<lambda>v. if v = a then ''a'' else ''b'') in
     read_endpoint from_str (fst (write_endpoint from_str to_str WriteWorks sample_endpoint FileMissing)) = Ok (Some sample_endpoint))"
proof -
  define a where "a = JObj (AList.update ''control'' (endpoint_json sample_endpoint) [])"
  define b where "b = JObj (AList.delete ''control'' (AList.update ''control'' (endpoint_json sample_endpoint) []))"
  define from_str where "from_str = (\<lambda>tx. if tx = ''a'' then Some a else if tx = ''b'' then Some b else None)"
  define to_str where "to_str = (\<lambda>v. if v = a then ''a'' else ''b'')"
  have ab: "b \<noteq> a" by (simp add: a_def b_def)
  have r: "read_state from_str FileMissing = Ok None" by (simp add: read_state_def)
  have c: "\<forall>v\<in>{a, b}. from_str (to_str v) = Some v" using ab by (auto simp: from_str_def to_str_def)
  obtain f1 r1 where w: "write_endpoint from_str to_str WriteWorks sample_endpoint FileMissing = (f1, r1)" by force
  obtain f2 r2 where d: "clear_endpoint from_str to_str WriteWorks f1 = (f2, r2)" by force
  from endpoint_roundtrip [OF r _ _ w d, of "[]"] c have "read_endpoint from_str f1 = Ok (Some sample_endpoint)"
    by (simp add: a_def b_def)
  then show ?thesis using w unfolding Let_def from_str_def to_str_def a_def b_def by simp
qed


theorem control_call_witness:
  "request sample_from_str sample_to_str
     (loopback sample_from_str sample_to_str ''t'' (host_handle (\<lambda>_. []) (\<lambda>_. []) (\<lambda>_. None) (\<lambda>_. JNull) 0 undefined SaveWorks None) (map (\<lambda>c. [c])) 0)
     (FileText ''f'') CmdStop sample_host = (stop_command sample_host, Ok (JObj []))"
proof -
  have e: "read_endpoint sample_from_str (FileText ''f'') = Ok (Some sample_endpoint)"
    by (simp add: read_endpoint_def read_state_def sample_from_str_def endpoint_json_back)
  have h: "host_handle (\<lambda>_. []) (\<lambda>_. []) (\<lambda>_. None) (\<lambda>_. JNull) 0 undefined SaveWorks None CmdStop sample_host = (stop_command sample_host, Ok (JObj []))"
    by (simp add: host_handle_def)
  have q: "line_json sample_from_str sample_to_str REQUEST_MAX_BYTES (request_json (ep_token sample_endpoint) CmdStop)"
    using sample_line_json [of stop_request REQUEST_MAX_BYTES] by (simp add: stop_request_def REQUEST_MAX_BYTES_def sample_endpoint_def)
  have r: "line_json sample_from_str sample_to_str REPLY_MAX_BYTES (reply_json (Ok (JObj [])))"
    using sample_line_json [of sample_reply REPLY_MAX_BYTES] by (simp add: sample_reply_def REPLY_MAX_BYTES_def)
  have u: "line_json sample_from_str sample_to_str REPLY_MAX_BYTES (reply_json (Err Unauthorized))"
    using sample_line_json [of refused_reply REPLY_MAX_BYTES] by (simp add: refused_reply_def REPLY_MAX_BYTES_def)
  note c = control_call [where handle = "host_handle (\<lambda>_. []) (\<lambda>_. []) (\<lambda>_. None) (\<lambda>_. JNull) 0 undefined SaveWorks None"
      and pieces_of = "map (\<lambda>c. [c])" and token = "''t''" and t = 0, OF e q h r u]
  show ?thesis by (subst c) (auto simp: sample_endpoint_def)
qed

end
