(* ===== verification/Popup.thy ===== *)
theory Popup
  imports Control_Plane Rust_Fmt
begin

text \<open>
  \<open>herdr-relay/src/popup.rs\<close>, the state of the pane and everything that changes it: keys, confirmations, the
  status poll and the copying of the pairing link. The bridge behind the control transport, the clipboard, the
  QR encoder and the clock are arguments; the pane talks to them through a world \<open>'w\<close>. What the pane draws is
  in \<open>Popup_View\<close>.
\<close>

section \<open>State\<close>

record qr_grid =
  qg_width :: nat
  qg_modules :: "bool list"

definition is_dark :: "qr_grid \<Rightarrow> nat \<Rightarrow> nat \<Rightarrow> bool" where
  "is_dark qr x y = qg_modules qr ! (y * qg_width qr + x)"

datatype row_state = RowConnected | RowIdle | RowUnknown

definition row_compute :: "link_status \<Rightarrow> bool \<Rightarrow> row_state" where
  "row_compute link connected =
     (if connected then RowConnected
      else case ls_state link of Offline \<Rightarrow> RowUnknown | Stopped \<Rightarrow> RowUnknown | Connected \<Rightarrow> RowIdle | Idle \<Rightarrow> RowIdle)"

datatype pending_action = RemoveOne string string | RemoveAll nat | StopRelay

fun question :: "pending_action \<Rightarrow> string" where
  "question (RemoveOne device_id device_name) = ''remove '' @ device_name @ ''? 1 phone loses access. y/n''"
| "question (RemoveAll n) =
     ''remove every phone? '' @ show_nat n @ '' '' @ (if n = 1 then ''phone'' else ''phones'') @ '' ''
       @ (if n = 1 then ''loses'' else ''lose'') @ '' access at once. y/n''"
| "question StopRelay = ''stop the relay? this phone list is kept, and no phone can connect. y/n''"

record popup_app =
  ap_status :: "host_status option"
  ap_bridge_down :: bool
  ap_status_fetched_at :: instant
  ap_expiry_noticed :: bool
  ap_selected :: nat
  ap_confirm :: "pending_action option"
  ap_notice :: "string option"
  ap_notice_shown :: bool
  ap_loading :: bool
  ap_table_visible :: bool

record 'w popup_io =
  po_status :: "'w \<Rightarrow> 'w \<times> (host_status, client_error) result"
  po_command :: "control_command \<Rightarrow> 'w \<Rightarrow> 'w \<times> (json, client_error) result"
  po_copy :: "string \<Rightarrow> 'w \<Rightarrow> 'w \<times> (unit, string) result"
  po_qr :: "string \<Rightarrow> qr_grid option"

definition popup_new :: "instant \<Rightarrow> popup_app" where
  "popup_new now = \<lparr>ap_status = None, ap_bridge_down = False, ap_status_fetched_at = now, ap_expiry_noticed = False,
     ap_selected = 0, ap_confirm = None, ap_notice = None, ap_notice_shown = False, ap_loading = False, ap_table_visible = False\<rparr>"

section \<open>The open pairing\<close>

record pairing_credential =
  cr_uri :: string
  cr_handle :: string
  cr_words :: string
  cr_qr :: "qr_grid option"

record pairing_view =
  pv_remaining :: duration
  pv_credential :: "pairing_credential option"

definition credential_of :: "(string \<Rightarrow> qr_grid option) \<Rightarrow> pairing_status \<Rightarrow> pairing_credential option" where
  "credential_of qr_of p =
     (if \<not> pst_registered p then None
      else case (pst_uri p, pst_handle p, pst_phrase p) of
        (Some uri, Some handle, Some words) \<Rightarrow>
          Some \<lparr>cr_uri = uri, cr_handle = handle, cr_words = words, cr_qr = qr_of uri\<rparr>
      | _ \<Rightarrow> None)"

definition the_pairing_view :: "(string \<Rightarrow> qr_grid option) \<Rightarrow> instant \<Rightarrow> popup_app \<Rightarrow> pairing_view option" where
  "the_pairing_view qr_of now a =
     (case Option.bind (ap_status a) st_pairing of
        None \<Rightarrow> None
      | Some p \<Rightarrow>
          if secs (pst_expires_in_s p) < now - ap_status_fetched_at a then None
          else Some \<lparr>pv_remaining = secs (pst_expires_in_s p) - (now - ap_status_fetched_at a),
                     pv_credential = credential_of qr_of p\<rparr>)"

definition popup_pairing_open :: "popup_app \<Rightarrow> bool" where
  "popup_pairing_open a \<longleftrightarrow> Option.bind (ap_status a) st_pairing \<noteq> None"

definition devices :: "popup_app \<Rightarrow> device_row list" where
  "devices a = (case ap_status a of Some st \<Rightarrow> st_devices st | None \<Rightarrow> [])"

definition popup_stopped :: "popup_app \<Rightarrow> bool" where
  "popup_stopped a \<longleftrightarrow> (case ap_status a of Some st \<Rightarrow> ls_state (st_link st) = Stopped | None \<Rightarrow> False)"

definition set_notice :: "string \<Rightarrow> popup_app \<Rightarrow> popup_app" where
  "set_notice tx a = a\<lparr>ap_notice := Some tx, ap_notice_shown := False\<rparr>"

definition selected_device :: "popup_app \<Rightarrow> device_row option" where
  "selected_device a = (if ap_selected a < length (devices a) then Some (devices a ! ap_selected a) else None)"

definition clamp_selection :: "popup_app \<Rightarrow> popup_app" where
  "clamp_selection a =
     (let len = length (devices a) in
      if len = 0 then a\<lparr>ap_selected := 0\<rparr>
      else if len \<le> ap_selected a then a\<lparr>ap_selected := len - 1\<rparr> else a)"

section \<open>Talking to the bridge\<close>

definition spent_notice :: string where "spent_notice = ''phrase spent - press p for a new one''"
definition expired_notice :: string where "expired_notice = ''phrase expired - press p for a new one''"

definition bridge_gone :: "popup_app \<Rightarrow> popup_app" where
  "bridge_gone a = a\<lparr>ap_status := None, ap_bridge_down := True\<rparr>"

text \<open>Whether an answer without a pairing means that the phrase was spent.\<close>

definition looks_spent :: "(string \<Rightarrow> qr_grid option) \<Rightarrow> instant \<Rightarrow> popup_app \<Rightarrow> host_status \<Rightarrow> bool" where
  "looks_spent qr_of now a status \<longleftrightarrow>
     (case ap_status a of
        None \<Rightarrow> False
      | Some old \<Rightarrow> st_pairing old \<noteq> None \<and> the_pairing_view qr_of now a \<noteq> None \<and> st_pairing status = None
          \<and> length (st_devices status) = length (st_devices old))"

definition take_status :: "(string \<Rightarrow> qr_grid option) \<Rightarrow> instant \<Rightarrow> (host_status, client_error) result \<Rightarrow> popup_app \<Rightarrow> popup_app" where
  "take_status qr_of now answer a =
     (case answer of
        Ok status \<Rightarrow>
          let a1 = clamp_selection (a\<lparr>ap_status_fetched_at := now, ap_status := Some status, ap_bridge_down := False\<rparr>) in
          if looks_spent qr_of now a status then set_notice spent_notice a1 else a1
      | Err e \<Rightarrow> if e = CL_NotRunning then bridge_gone a else set_notice (client_error_text e) a)"

definition refresh_at :: "'w popup_io \<Rightarrow> instant \<Rightarrow> popup_app \<times> 'w \<Rightarrow> popup_app \<times> 'w" where
  "refresh_at io now aw = (case po_status io (snd aw) of (w, answer) \<Rightarrow> (take_status (po_qr io) now answer (fst aw), w))"

definition send_command :: "'w popup_io \<Rightarrow> control_command \<Rightarrow> popup_app \<times> 'w \<Rightarrow> (popup_app \<times> 'w) \<times> bool" where
  "send_command io cmd aw =
     (case po_command io cmd (snd aw) of
        (w, Ok _) \<Rightarrow> ((fst aw, w), True)
      | (w, Err e) \<Rightarrow>
          ((if e = CL_NotRunning then bridge_gone (fst aw) else set_notice (client_error_text e) (fst aw), w), False))"

definition popup_open_pairing :: "'w popup_io \<Rightarrow> instant \<Rightarrow> popup_app \<times> 'w \<Rightarrow> popup_app \<times> 'w" where
  "popup_open_pairing io now aw = refresh_at io now (fst (send_command io CmdOpenPairing aw))"

definition pairing_uri :: "(string \<Rightarrow> qr_grid option) \<Rightarrow> instant \<Rightarrow> popup_app \<Rightarrow> string option" where
  "pairing_uri qr_of now a = map_option cr_uri (Option.bind (the_pairing_view qr_of now a) pv_credential)"

definition qr_width :: "(string \<Rightarrow> qr_grid option) \<Rightarrow> instant \<Rightarrow> popup_app \<Rightarrow> nat option" where
  "qr_width qr_of now a =
     map_option qg_width (Option.bind (Option.bind (the_pairing_view qr_of now a) pv_credential) cr_qr)"

definition copy_pairing :: "'w popup_io \<Rightarrow> instant \<Rightarrow> popup_app \<times> 'w \<Rightarrow> popup_app \<times> 'w" where
  "copy_pairing io now aw =
     (case pairing_uri (po_qr io) now (fst aw) of
        None \<Rightarrow> (set_notice ''press p first - there is nothing to copy yet'' (fst aw), snd aw)
      | Some uri \<Rightarrow>
          (case po_copy io uri (snd aw) of
             (w, Ok _) \<Rightarrow> (set_notice ''copied - paste it into the phone app with Paste from clipboard'' (fst aw), w)
           | (w, Err message) \<Rightarrow> (set_notice (''copy failed: '' @ message) (fst aw), w)))"

text \<open>The clipboard tools in order of preference; the first one that exists owns the copy.\<close>

datatype copy_error = SpawnFailed | ToolFailed

definition CLIPBOARD_COPY_FAILED :: string where "CLIPBOARD_COPY_FAILED = ''no clipboard tool found''"

fun copy_first_success :: "('c \<Rightarrow> string \<Rightarrow> (unit, copy_error) result) \<Rightarrow> 'c list \<Rightarrow> string \<Rightarrow> (unit, string) result" where
  "copy_first_success copy_with [] tx = Err CLIPBOARD_COPY_FAILED"
| "copy_first_success copy_with (c # candidates) tx =
     (case copy_with c tx of
        Ok _ \<Rightarrow> Ok ()
      | Err ToolFailed \<Rightarrow> Err CLIPBOARD_COPY_FAILED
      | Err SpawnFailed \<Rightarrow> copy_first_success copy_with candidates tx)"

section \<open>Keys\<close>

datatype key_code = KeyUp | KeyDown | KeyEsc | KeyChar string | KeyOther

datatype key_outcome = KeyContinue | KeyQuit

definition move_selection :: "int \<Rightarrow> popup_app \<Rightarrow> popup_app" where
  "move_selection delta a =
     (if \<not> ap_table_visible a \<or> devices a = [] then a
      else a\<lparr>ap_selected := nat (max 0 (min (int (ap_selected a) + delta) (int (length (devices a)) - 1)))\<rparr>)"

fun confirm_action :: "'w popup_io \<Rightarrow> instant \<Rightarrow> pending_action \<Rightarrow> popup_app \<times> 'w \<Rightarrow> popup_app \<times> 'w" where
  "confirm_action io now (RemoveOne device_id device_name) aw =
     (case send_command io (CmdRevoke device_id) aw of
        (aw1, True) \<Rightarrow> (case refresh_at io now aw1 of (a, w) \<Rightarrow> (set_notice (device_name @ '' lost access'') a, w))
      | (aw1, False) \<Rightarrow> aw1)"
| "confirm_action io now (RemoveAll n) aw =
     (case send_command io CmdRevokeAll aw of
        (aw1, True) \<Rightarrow> (case refresh_at io now aw1 of (a, w) \<Rightarrow> (set_notice ''every phone lost access'' a, w))
      | (aw1, False) \<Rightarrow> aw1)"
| "confirm_action io now StopRelay aw = refresh_at io now (fst (send_command io CmdStop aw))"

definition hide_pairing :: "popup_app \<Rightarrow> popup_app" where
  "hide_pairing a = a\<lparr>ap_status := map_option (\<lambda>st. st\<lparr>st_pairing := None\<rparr>) (ap_status a)\<rparr>"

definition quit_popup :: "'w popup_io \<Rightarrow> popup_app \<times> 'w \<Rightarrow> popup_app \<times> 'w" where
  "quit_popup io aw =
     (if popup_pairing_open (fst aw)
      then (case send_command io CmdClosePairing aw of ((a, w), _) \<Rightarrow> (hide_pairing a, w))
      else aw)"

text \<open>\<open>now\<close> is the clock of the key, \<open>now'\<close> that of the reload a key may cause.\<close>

definition handle_key :: "'w popup_io \<Rightarrow> key_code \<Rightarrow> instant \<Rightarrow> instant \<Rightarrow> popup_app \<times> 'w \<Rightarrow> (popup_app \<times> 'w) \<times> key_outcome" where
  "handle_key io key now now' aw =
     (case aw of (a, w) \<Rightarrow>
      case ap_confirm a of
        Some pending \<Rightarrow>
          (let aw1 = (a\<lparr>ap_confirm := None\<rparr>, w) in
           (if key = KeyChar ''y'' then confirm_action io now' pending aw1 else aw1, KeyContinue))
      | None \<Rightarrow>
          if key = KeyUp \<or> key = KeyChar ''k'' then ((move_selection (- 1) a, w), KeyContinue)
          else if key = KeyDown \<or> key = KeyChar ''j'' then ((move_selection 1 a, w), KeyContinue)
          else if key = KeyChar ''p'' then (popup_open_pairing io now' aw, KeyContinue)
          else if key = KeyChar ''c'' then (copy_pairing io now aw, KeyContinue)
          else if key = KeyChar ''d'' then
            ((case selected_device a of
                Some d \<Rightarrow> if ap_table_visible a then a\<lparr>ap_confirm := Some (RemoveOne (dr_device_id d) (dr_device_name d))\<rparr> else a
              | None \<Rightarrow> a, w), KeyContinue)
          else if key = KeyChar ''r'' then
            ((if 0 < length (devices a) then a\<lparr>ap_confirm := Some (RemoveAll (length (devices a)))\<rparr> else a, w), KeyContinue)
          else if key = KeyChar ''s'' then ((if \<not> popup_stopped a then a\<lparr>ap_confirm := Some StopRelay\<rparr> else a, w), KeyContinue)
          else if key = KeyChar ''f'' then
            ((case refresh_at io now' (a\<lparr>ap_loading := True\<rparr>, w) of (a1, w1) \<Rightarrow> (a1\<lparr>ap_loading := False\<rparr>, w1)), KeyContinue)
          else if key = KeyChar ''q'' \<or> key = KeyEsc then (quit_popup io aw, KeyQuit)
          else (aw, KeyContinue))"

section \<open>A spent phrase\<close>

lemma expired_stays: "session_live (apply_expiry now p) = None \<Longrightarrow> session_live (apply_expiry now' (apply_expiry now p)) = None"
  by (auto simp: apply_expiry_def session_live_def split: session_state.splits if_splits)

lemma expiry_keeps_live: "session_live (apply_expiry now p) = Some l \<Longrightarrow> apply_expiry now p = p"
  by (auto simp: apply_expiry_def session_live_def split: session_state.splits if_splits)

lemma length_add_present:
  assumes "ids_distinct st" "store_find (pd_device_id d) st \<noteq> None" "store_add ser out d st = (st', Ok u)"
  shows "length (ds_devices st') = length (ds_devices st)"
proof -
  let ?P = "\<lambda>d'. pd_device_id d' \<noteq> pd_device_id d"
  obtain e where "find (\<lambda>d'. pd_device_id d' = pd_device_id d) (ds_devices st) = Some e"
    using assms(2) by (auto simp: store_find_def)
  then obtain xs ys where st: "ds_devices st = xs @ e # ys" and e: "pd_device_id e = pd_device_id d"
    by (auto simp: find_Some_iff dest: id_take_nth_drop)
  have "\<forall>d' \<in> set xs \<union> set ys. pd_device_id d' \<noteq> pd_device_id d"
    using assms(1) e by (auto simp: ids_distinct_def st image_iff)
  then have "filter ?P xs = xs" "filter ?P ys = ys" by auto
  then show ?thesis using add_Ok [OF assms(3)] e by (auto simp: st)
qed

lemma status_devices_length: "length (st_devices (snd (build_status enc f now s))) = length (ds_devices (hs_store s))"
  by (simp add: build_status_def pairing_is_live_eq Let_def)

lemma status_no_pairing:
  assumes "map_option (\<lambda>p. session_live (op_session p)) (hs_pairing s) \<in> {None, Some None}"
    "\<And>p. hs_pairing s = Some p \<Longrightarrow> \<exists>q t. op_session p = apply_expiry t q"
  shows "st_pairing (snd (build_status enc f now s)) = None"
proof (cases "hs_pairing s")
  case (Some p)
  then obtain q t where q: "op_session p = apply_expiry t q" using assms(2) by blast
  have "session_live (apply_expiry now (op_session p)) = None"
    unfolding q by (rule expired_stays) (use assms(1) Some q in auto)
  then have "live_now now s = None" by (simp add: live_now_def expired_pairing_def Some)
  then show ?thesis by (simp add: build_status_def pairing_is_live_eq Let_def)
qed (simp add: build_status_def pairing_is_live_eq expired_pairing_def live_now_def Let_def)

lemma enrolled_state:
  assumes "enrol enc ser out now now' deadline rh d s = (s', Enrolled_as i)"
  shows "\<exists>u st. store_add ser out (d\<lparr>pd_handle := handle_encode enc rh\<rparr>) (hs_store s) = (st, Ok u) \<and> hs_store s' = st"
    "st_pairing (snd (build_status enc' f t s')) = None"
proof -
  let ?s1 = "forget_registration (pd_device_id d) (s\<lparr>hs_pairing := expired_pairing now s\<rparr>)"
  obtain st q where q: "store_add ser out (d\<lparr>pd_handle := handle_encode enc rh\<rparr>) (hs_store s) = (st, q)" by force
  have l: "map_option lp_handle (live_now now s) = Some rh"
    using assms by (auto simp: enrol_eq Let_def split: if_splits prod.splits sum.splits)
  have "\<exists>u. q = Ok u" using assms q by (cases q) (auto simp: enrol_eq Let_def split: if_splits)
  then show "\<exists>u st. store_add ser out (d\<lparr>pd_handle := handle_encode enc rh\<rparr>) (hs_store s) = (st, Ok u) \<and> hs_store s' = st"
    using assms q by (auto simp: enrol_eq Let_def split: if_splits)
  obtain p lv where p: "hs_pairing s = Some p" "session_live (apply_expiry now (op_session p)) = Some lv" "lp_handle lv = rh"
    using l by (auto simp: live_now_def expired_pairing_def bind_eq_Some_conv)
  have ex: "expired_pairing now s = Some p"
    using p by (simp add: expired_pairing_def expiry_keeps_live)
  have "hs_pairing s' = (if map_option lp_handle (live_now now' ?s1) = Some rh then None else expired_pairing now' ?s1)"
    using assms q \<open>\<exists>u. q = Ok u\<close> l by (auto simp: enrol_eq Let_def split: if_splits)
  moreover have "expired_pairing now' ?s1 = Some (p\<lparr>op_session := apply_expiry now' (op_session p)\<rparr>)"
    "live_now now' ?s1 = session_live (apply_expiry now' (op_session p))"
    by (simp_all add: live_now_def expired_pairing_def [of now'] ex)
  moreover have "session_live (apply_expiry now' (op_session p)) = None \<or>
      map_option lp_handle (session_live (apply_expiry now' (op_session p))) = Some rh"
    using p by (auto simp: apply_expiry_def session_live_def split: session_state.splits if_splits)
  ultimately have h: "hs_pairing s' = None \<or> hs_pairing s' = Some (p\<lparr>op_session := apply_expiry now' (op_session p)\<rparr>)
      \<and> session_live (apply_expiry now' (op_session p)) = None"
    by auto
  show "st_pairing (snd (build_status enc' f t s')) = None"
    by (rule status_no_pairing) (use h in auto)
qed

text \<open>A phone that pairs again is reported as a spent phrase. The entry of a phone whose id is in the list is
  replaced, so the list does not grow; an answer of the bridge after such an enrolment, however the clocks run,
  makes a pane that shows the open pairing say that the phrase was spent, although the pairing succeeded.\<close>

theorem repaired_phone_reads_spent:
  assumes "host_ok s" "store_find (pd_device_id d) (hs_store s) \<noteq> None"
    and "enrol enc ser out now now' deadline rh d s = (s', Enrolled_as i)"
    and "ap_status a = Some (snd (build_status enc' f t s))" "the_pairing_view qr_of t' a \<noteq> None"
  shows "ap_notice (take_status qr_of t' (Ok (snd (build_status enc' f t'' s'))) a) = Some spent_notice
    \<and> length (st_devices (snd (build_status enc' f t'' s'))) = length (devices a)"
proof -
  obtain u st where st: "store_add ser out (d\<lparr>pd_handle := handle_encode enc rh\<rparr>) (hs_store s) = (st, Ok u)" "hs_store s' = st"
    using enrolled_state(1) [OF assms(3)] by blast
  have "length (ds_devices st) = length (ds_devices (hs_store s))"
    by (rule length_add_present [OF _ _ st(1)]) (use assms(1,2) in \<open>simp_all add: host_ok_def\<close>)
  then have len: "length (st_devices (snd (build_status enc' f t'' s'))) = length (st_devices (snd (build_status enc' f t s)))"
    by (simp add: status_devices_length st(2))
  have "looks_spent qr_of t' a (snd (build_status enc' f t'' s'))"
    using assms(4,5) len enrolled_state(2) [OF assms(3)]
    by (auto simp: looks_spent_def the_pairing_view_def split: option.splits)
  then show ?thesis
    by (simp add: take_status_def set_notice_def Let_def len devices_def assms(4))
qed

section \<open>Witness\<close>

definition sample_pane :: popup_app where
  "sample_pane = (popup_new 0)\<lparr>ap_status := Some (snd (build_status (he_enc sample_env) (\<lambda>_. []) (secs 5) paired_host)),
     ap_status_fetched_at := secs 5\<rparr>"

lemma sample_pane_view: "the_pairing_view (\<lambda>_. None) (secs 6) sample_pane \<noteq> None"
proof -
  have "expired_pairing (secs 5) paired_host = hs_pairing paired_host" "live_now (secs 5) paired_host \<noteq> None"
    by (simp_all add: paired_live) (simp add: expired_pairing_def paired_host_def sample_pairing_def apply_expiry_def PHRASE_LIFETIME_def secs_def)
  then have "map_option pst_expires_in_s (st_pairing (snd (build_status (he_enc sample_env) (\<lambda>_. []) (secs 5) paired_host))) = Some 595"
    by (simp add: build_status_def pairing_is_live_eq Let_def paired_host_def PHRASE_LIFETIME_def secs_def)
  then show ?thesis by (auto simp: sample_pane_def the_pairing_view_def secs_def)
qed

theorem repaired_phone_reads_spent_witness:
  "\<exists>s' i. enrol (he_enc sample_env) (he_ser sample_env) SaveWorks (secs 5) (secs 5) (secs 600) (Handle (replicate 16 0))
      (sample_device ''a'') paired_host = (s', Enrolled_as i)
    \<and> ap_notice (take_status (\<lambda>_. None) (secs 6) (Ok (snd (build_status (he_enc sample_env) (\<lambda>_. []) (secs 6) s'))) sample_pane)
        = Some spent_notice"
proof -
  have ok: "host_ok paired_host" using sample_host_ok by (simp add: host_ok_def paired_host_def)
  have d: "pd_device_id (sample_device ''a'') = ''a''" by (simp add: sample_device_def new_entry_def)
  have h: "sample_device ''a''\<lparr>pd_handle := handle_encode (he_enc sample_env) (Handle (replicate 16 0))\<rparr> = sample_device ''a''"
    by (simp add: sample_device_def new_entry_def sample_env_def handle_encode_def)
  have f: "store_find (pd_device_id (sample_device ''a'')) (hs_store paired_host) \<noteq> None"
    by (simp add: store_find_def d paired_host_def sample_host_def host_init_def sample_store_def)
  have "\<exists>s'. enrol (he_enc sample_env) (he_ser sample_env) SaveWorks (secs 5) (secs 5) (secs 600) (Handle (replicate 16 0))
      (sample_device ''a'') paired_host = (s', Enrolled_as ''a'')"
    by (simp add: enrol_eq paired_live h d Let_def store_add_def store_save_def)
       (simp add: paired_host_def sample_host_def host_init_def sample_env_def sample_ser_def sample_store_def d)
  then obtain s' where s': "enrol (he_enc sample_env) (he_ser sample_env) SaveWorks (secs 5) (secs 5) (secs 600) (Handle (replicate 16 0))
      (sample_device ''a'') paired_host = (s', Enrolled_as ''a'')" ..
  have "ap_status sample_pane = Some (snd (build_status (he_enc sample_env) (\<lambda>_. []) (secs 5) paired_host))" by (simp add: sample_pane_def)
  from repaired_phone_reads_spent [OF ok f s' this sample_pane_view, of "secs 6"] s' show ?thesis by blast
qed

end
