(* ===== verification/Popup_View.thy ===== *)
theory Popup_View
  imports Popup
begin

text \<open>
  \<open>herdr-relay/src/popup.rs\<close>, what the pane draws: the measuring and cutting of text, the credential block, the
  QR symbol, the phone table, the footer, and \<open>draw\<close> with its choice of regions. The widths of characters, the
  parsing of timestamps and the solver of the layout library are arguments; a frame is described by the lines
  of its regions, before the library wraps and clips them.
\<close>

section \<open>Text\<close>

datatype color = Green | Yellow | Cyan | Red | DarkGray

record style =
  sy_fg :: "color option"
  sy_reversed :: bool

definition default_style :: style where "default_style = \<lparr>sy_fg = None, sy_reversed = False\<rparr>"
definition fg :: "color \<Rightarrow> style" where "fg c = \<lparr>sy_fg = Some c, sy_reversed = False\<rparr>"
definition meta_style :: style where "meta_style = fg DarkGray"
definition reversed :: "style \<Rightarrow> style" where "reversed st = st\<lparr>sy_reversed := True\<rparr>"

type_synonym tline = "(string \<times> style) list"

definition styled :: "string \<Rightarrow> style \<Rightarrow> tline" where "styled tx st = [(tx, st)]"

definition line_text :: "tline \<Rightarrow> string" where "line_text l = concat (map fst l)"

record date_time =
  dt_month :: nat
  dt_day :: nat
  dt_hour :: nat
  dt_minute :: nat
  dt_unix_nanos :: int

record text_env =
  te_width :: "string \<Rightarrow> nat"
  te_char_width :: "string \<Rightarrow> nat option"
  te_parse :: "string \<Rightarrow> date_time option"

definition spaces :: "nat \<Rightarrow> string" where "spaces n = replicate n CHR '' ''"

definition pad :: "text_env \<Rightarrow> string \<Rightarrow> nat \<Rightarrow> string" where
  "pad te tx width = (if width \<le> te_width te tx then tx else tx @ spaces (width - te_width te tx))"

definition ellipsis :: string where "ellipsis = [CHR 0xE2, CHR 0x80, CHR 0xA6]"

fun elide_loop :: "text_env \<Rightarrow> nat \<Rightarrow> nat \<Rightarrow> string list \<Rightarrow> string" where
  "elide_loop te budget used [] = []"
| "elide_loop te budget used (ch # chs) =
     (let w = (case te_char_width te ch of Some w \<Rightarrow> w | None \<Rightarrow> 0) in
      if budget < used + w then [] else ch @ elide_loop te budget (used + w) chs)"

definition elide :: "text_env \<Rightarrow> string \<Rightarrow> nat \<Rightarrow> string" where
  "elide te tx width =
     (if te_width te tx \<le> width then tx
      else if width = 0 then []
      else elide_loop te (width - 1) 0 (chars tx) @ ellipsis)"

section \<open>The credential block\<close>

definition CRED_INDENT :: nat where "CRED_INDENT = 4"
definition CRED_LABEL_FIELD :: nat where "CRED_LABEL_FIELD = 10"
definition CRED_CONT_INDENT :: nat where "CRED_CONT_INDENT = 6"

fun wrap_words :: "text_env \<Rightarrow> nat \<Rightarrow> string list \<Rightarrow> string \<Rightarrow> string list \<Rightarrow> string list" where
  "wrap_words te width done current [] = (if current \<noteq> [] \<or> done = [] then done @ [current] else done)"
| "wrap_words te width done current (word # rest) =
     (let candidate_width = (if current = [] then te_width te word else te_width te current + 1 + te_width te word);
          breaks = (current \<noteq> [] \<and> width < candidate_width);
          done1 = (if breaks then done @ [current] else done);
          current1 = (if breaks then [] else current)
      in wrap_words te width done1 ((if current1 \<noteq> [] then current1 @ '' '' else []) @ word) rest)"

definition wrap_at_spaces :: "text_env \<Rightarrow> string \<Rightarrow> nat \<Rightarrow> string list" where
  "wrap_at_spaces te tx width = wrap_words te width [] [] (split_on CHR '' '' tx)"

definition trim_spaces_end :: "string \<Rightarrow> string" where
  "trim_spaces_end tx = rev (dropWhile (\<lambda>c. c = CHR '' '') (rev tx))"

text \<open>The labels are literals, so trimming the prefix drops the blanks of its padding only.\<close>

definition credential_lines :: "text_env \<Rightarrow> string \<Rightarrow> string \<Rightarrow> nat \<Rightarrow> tline list" where
  "credential_lines te label val width =
     (let prefix = spaces CRED_INDENT @ pad te (label @ '':'') CRED_LABEL_FIELD in
      if te_width te (prefix @ val) \<le> width then [styled (prefix @ val) default_style]
      else styled (trim_spaces_end prefix) default_style #
           map (\<lambda>row. styled (spaces CRED_CONT_INDENT @ row) default_style)
             (wrap_at_spaces te val (max 1 (width - CRED_CONT_INDENT))))"

section \<open>The QR symbol\<close>

definition QUIET_ZONE :: nat where "QUIET_ZONE = 4"

definition div_ceil2 :: "nat \<Rightarrow> nat" where "div_ceil2 n = (n + 1) div 2"

definition qr_region_size :: "nat \<Rightarrow> nat \<times> nat" where
  "qr_region_size width = (let padded = width + 2 * QUIET_ZONE in (padded + 2, div_ceil2 padded))"

definition qr_module_dark :: "qr_grid \<Rightarrow> nat \<Rightarrow> nat \<Rightarrow> bool" where
  "qr_module_dark qr padded_x padded_y =
     (if padded_x < QUIET_ZONE \<or> padded_y < QUIET_ZONE then False
      else let x = padded_x - QUIET_ZONE; y = padded_y - QUIET_ZONE in
        if qg_width qr \<le> x \<or> qg_width qr \<le> y then False else is_dark qr x y)"

definition glyph :: "bool \<Rightarrow> bool \<Rightarrow> string" where
  "glyph upper lower =
     (if upper then if lower then [CHR 0xE2, CHR 0x96, CHR 0x88] else [CHR 0xE2, CHR 0x96, CHR 0x80]
      else if lower then [CHR 0xE2, CHR 0x96, CHR 0x84] else '' '')"

definition qr_row :: "qr_grid \<Rightarrow> nat \<Rightarrow> string list" where
  "qr_row qr row =
     (let padded = qg_width qr + 2 * QUIET_ZONE in
      map (\<lambda>x. glyph (qr_module_dark qr x (row * 2)) (row * 2 + 1 < padded \<and> qr_module_dark qr x (row * 2 + 1))) [0..<padded])"

definition qr_lines :: "qr_grid \<Rightarrow> tline list" where
  "qr_lines qr =
     map (\<lambda>row. styled (''  '' @ concat (qr_row qr row)) default_style) [0..<div_ceil2 (qg_width qr + 2 * QUIET_ZONE)]"

section \<open>Timestamps\<close>

definition MONTH_ABBR :: "string list" where
  "MONTH_ABBR = [''Jan'', ''Feb'', ''Mar'', ''Apr'', ''May'', ''Jun'', ''Jul'', ''Aug'', ''Sep'', ''Oct'', ''Nov'', ''Dec'']"

definition format_paired_column :: "text_env \<Rightarrow> string \<Rightarrow> string" where
  "format_paired_column te timestamp =
     (case te_parse te timestamp of
        Some dt \<Rightarrow> pad_zero 2 (int (dt_month dt)) @ ''-'' @ pad_zero 2 (int (dt_day dt)) @ '' '' @ pad_zero 2 (int (dt_hour dt)) @ '':'' @ pad_zero 2 (int (dt_minute dt))
      | None \<Rightarrow> ''unknown'')"

definition format_paired_detail :: "text_env \<Rightarrow> string \<Rightarrow> string" where
  "format_paired_detail te timestamp =
     (case te_parse te timestamp of
        Some dt \<Rightarrow> show_nat (dt_day dt) @ '' '' @ MONTH_ABBR ! (dt_month dt - 1) @ '' '' @ pad_zero 2 (int (dt_hour dt)) @ '':'' @ pad_zero 2 (int (dt_minute dt))
      | None \<Rightarrow> ''unknown'')"

text \<open>The whole units of a duration; what is negative counts as less than a minute.\<close>

definition format_relative :: "text_env \<Rightarrow> string \<Rightarrow> int \<Rightarrow> string" where
  "format_relative te timestamp wall_now =
     (case te_parse te timestamp of
        None \<Rightarrow> ''unknown''
      | Some dt \<Rightarrow>
          let s = nat (wall_now - dt_unix_nanos dt) div 1000000000 in
          if s < 60 then ''now''
          else if s div 60 < 60 then show_nat (s div 60) @ ''m ago''
          else if s div 3600 < 24 then show_nat (s div 3600) @ ''h ago''
          else show_nat (s div 86400) @ ''d ago'')"

section \<open>The phone table\<close>

record table_cols =
  tc_platform :: bool
  tc_paired :: bool
  tc_last_seen :: bool

definition table_columns :: "nat \<Rightarrow> table_cols" where
  "table_columns width =
     (if 70 \<le> width then \<lparr>tc_platform = True, tc_paired = True, tc_last_seen = True\<rparr>
      else if 57 \<le> width then \<lparr>tc_platform = True, tc_paired = True, tc_last_seen = False\<rparr>
      else if 39 \<le> width then \<lparr>tc_platform = True, tc_paired = False, tc_last_seen = False\<rparr>
      else \<lparr>tc_platform = False, tc_paired = False, tc_last_seen = False\<rparr>)"

definition table_header_line :: "text_env \<Rightarrow> nat \<Rightarrow> tline" where
  "table_header_line te width =
     (let cols = table_columns width in
      styled (pad te ''Phone'' 16 @ ''  '' @ (if tc_platform cols then pad te ''Platform'' 12 @ ''  '' else [])
        @ (if tc_paired cols then pad te ''Paired'' 17 @ ''  '' else [])
        @ (if tc_last_seen cols then pad te ''Last seen'' 12 @ ''  '' else []) @ ''State'') meta_style)"

fun row_word :: "row_state \<Rightarrow> string" where
  "row_word RowConnected = ''connected''"
| "row_word RowIdle = ''idle''"
| "row_word RowUnknown = ''unknown''"

fun row_style :: "row_state \<Rightarrow> style" where
  "row_style RowConnected = fg Green"
| "row_style RowIdle = default_style"
| "row_style RowUnknown = fg Yellow"

fun platform_label :: "platform \<Rightarrow> string" where
  "platform_label Ios = ''ios''"
| "platform_label Android = ''android''"

definition row_line :: "text_env \<Rightarrow> device_row \<Rightarrow> row_state \<Rightarrow> bool \<Rightarrow> nat \<Rightarrow> int \<Rightarrow> tline" where
  "row_line te d row_state selected width wall_now =
     (let cols = table_columns width;
          base = (if selected then reversed default_style else default_style);
          state_style = (if selected then reversed (row_style row_state) else row_style row_state)
      in [(pad te (elide te (dr_device_name d) 16) 16 @ ''  '', base)]
         @ (if tc_platform cols then [(pad te (elide te (platform_label (dr_platform d) @ '' '' @ dr_os_version d) 12) 12 @ ''  '', base)] else [])
         @ (if tc_paired cols then [(pad te (format_paired_column te (dr_paired_at d)) 17 @ ''  '', base)] else [])
         @ (if tc_last_seen cols then [(pad te (format_relative te (dr_last_seen d) wall_now) 12 @ ''  '', base)] else [])
         @ [(row_word row_state, state_style)])"

definition visible_window :: "nat \<Rightarrow> nat \<Rightarrow> nat \<Rightarrow> nat \<times> nat" where
  "visible_window n visible selected =
     (if n = 0 \<or> visible = 0 then (0, 0)
      else let visible = min visible n; start = min (selected - (visible - 1)) (n - visible) in (start, start + visible))"

section \<open>Detail, footer and title\<close>

datatype detail_kind = DetailSelected device_row | DetailOffline string "32 word" | DetailStopped

fun detail_lines :: "text_env \<Rightarrow> int \<Rightarrow> detail_kind \<Rightarrow> tline list" where
  "detail_lines te wall_now (DetailSelected d) =
     [styled (''paired '' @ format_paired_detail te (dr_paired_at d) @ ''  -  last seen '' @ format_relative te (dr_last_seen d) wall_now
        @ ''  -  '' @ platform_label (dr_platform d) @ '' '' @ dr_os_version d) default_style,
      styled (''key '' @ dr_fingerprint d) default_style]"
| "detail_lines te wall_now (DetailOffline error attempt) =
     [styled (''relay unreachable - connect: '' @ error) (fg Red),
      styled (''retrying, attempt '' @ show_nat (unat attempt)) default_style]"
| "detail_lines te wall_now DetailStopped =
     [styled ''relay stopped'' default_style, styled ''press p to start it again'' default_style]"

record footer_availability =
  fa_scroll :: bool
  fa_copy :: bool
  fa_remove_one :: bool
  fa_remove_all :: bool

definition footer_line :: "text_env \<Rightarrow> footer_availability \<Rightarrow> nat \<Rightarrow> tline" where
  "footer_line te av width =
     (let labelled = join ''  '' ((if fa_scroll av then [''up/down select''] else []) @ [''p pair''] @ (if fa_copy av then [''c copy''] else [])
            @ (if fa_remove_one av then [''d remove''] else []) @ (if fa_remove_all av then [''r remove all''] else []) @ [''s stop'', ''f reload'', ''q quit'']);
          short = join ''  '' ([''p pair''] @ (if fa_copy av then [''c copy''] else [])
            @ (if fa_remove_one av then [''d remove''] else []) @ (if fa_remove_all av then [''r all''] else []) @ [''s stop'', ''f reload'', ''q quit'']);
          compact = join '' '' ([''p''] @ (if fa_copy av then [''c''] else [])
            @ (if fa_remove_one av then [''d''] else []) @ (if fa_remove_all av then [''r''] else []) @ [''s'', ''f'', ''q''])
      in styled (if te_width te labelled \<le> width then labelled else if te_width te short \<le> width then short else compact) meta_style)"

definition shown_origin :: "popup_app \<Rightarrow> string" where
  "shown_origin a =
     (case ap_status a of
        Some st \<Rightarrow> if trim (st_relay_origin st) = [] then ''(not configured)'' else st_relay_origin st
      | None \<Rightarrow> ''(not configured)'')"

definition title_lines :: "popup_app \<Rightarrow> tline list" where
  "title_lines a =
     (let n = length (devices a);
          (state, color) = (case (case ap_status a of Some st \<Rightarrow> ls_state (st_link st) | None \<Rightarrow> Offline) of
             Connected \<Rightarrow> (''connected'', DarkGray) | Idle \<Rightarrow> (''idle'', DarkGray) | Offline \<Rightarrow> (''offline'', Red) | Stopped \<Rightarrow> (''stopped'', DarkGray))
      in [styled (''herdr relay ('' @ show_nat n @ '' phone'' @ (if n = 1 then [] else ''s'') @ '')'') (fg Cyan),
          styled (''relay: '' @ shown_origin a @ ''   '' @ state) (fg color)])"

definition pair_header_line :: "text_env \<Rightarrow> duration \<Rightarrow> nat \<Rightarrow> tline" where
  "pair_header_line te remaining width =
     (let s = remaining div secs 1;
          countdown = ''expires in '' @ show_nat (s div 60) @ '':'' @ pad_zero 2 (int (s mod 60));
          left = ''pair a phone'';
          pad_len = max 1 (width - te_width te left - te_width te countdown)
      in [(left, default_style), (spaces pad_len, default_style), (countdown, fg (if s \<le> 60 then Yellow else DarkGray))])"

section \<open>Drawing\<close>

definition FLOOR_COLS :: nat where "FLOOR_COLS = 28"
definition PAIRING_FLOOR_ROWS :: nat where "PAIRING_FLOOR_ROWS = 12"
definition IDLE_FLOOR_ROWS :: nat where "IDLE_FLOOR_ROWS = 6"

definition floor_rows :: "bool \<Rightarrow> nat" where
  "floor_rows is_open = (if is_open then PAIRING_FLOOR_ROWS else IDLE_FLOOR_ROWS)"

text \<open>A normal frame: the lines above the table, the rows of the table, the lines below and the heights the layout
  library gives the three.\<close>

record pane =
  pn_top :: "tline list"
  pn_rows :: "tline list"
  pn_bottom :: "tline list"
  pn_heights :: "nat \<times> nat \<times> nat"
  pn_loading :: bool

datatype drawn = DrawnTooSmall "tline list" | DrawnQuestion string | DrawnBridgeDown "tline list" nat "tline list" | DrawnPane pane

definition too_small_lines :: "nat \<Rightarrow> tline list" where
  "too_small_lines height =
     map (\<lambda>l. styled l default_style) (take height [''pane too small'', ''enlarge the terminal'', ''q quit''])"

definition mark_notice_shown :: "popup_app \<Rightarrow> popup_app" where
  "mark_notice_shown a = (if ap_notice a \<noteq> None then a\<lparr>ap_notice_shown := True\<rparr> else a)"

definition drop_shown_notice :: "popup_app \<Rightarrow> popup_app" where
  "drop_shown_notice a = (if ap_notice_shown a then a\<lparr>ap_notice := None, ap_notice_shown := False\<rparr> else a)"

text \<open>The height \<open>draw\<close> counts for a choice of regions.\<close>

record regions =
  rg_pairing_open :: bool
  rg_credential :: bool
  rg_qr_rows :: nat
  rg_empty_message :: bool
  rg_notice :: bool

definition total_height :: "regions \<Rightarrow> bool \<Rightarrow> bool \<Rightarrow> bool \<Rightarrow> nat" where
  "total_height rg include_qr include_detail include_table =
     2 + (if rg_pairing_open rg then 2 else 0) + (if include_qr then rg_qr_rows rg else 0)
       + (if rg_pairing_open rg then if rg_credential rg then 5 + (if include_qr then 0 else 1) else 1 else 0)
       + (if rg_empty_message rg then 2 else 0) + (if include_table then 2 else 0) + (if include_detail then 3 else 0)
       + 2 + (if rg_notice rg then 1 else 0)"

text \<open>The loop that drops the QR symbol, then the detail, then the table until the rest fits.\<close>

function choose_regions :: "regions \<Rightarrow> nat \<Rightarrow> bool \<Rightarrow> bool \<Rightarrow> bool \<Rightarrow> bool \<times> bool \<times> bool" where
  "choose_regions rg height include_qr include_detail include_table =
     (if total_height rg include_qr include_detail include_table \<le> height then (include_qr, include_detail, include_table)
      else if include_qr then choose_regions rg height False include_detail include_table
      else if include_detail then choose_regions rg height include_qr False include_table
      else if include_table then choose_regions rg height include_qr include_detail False
      else (include_qr, include_detail, include_table))"
  by pat_completeness auto
termination
  by (relation "measure (\<lambda>(rg, height, q, d, t). of_bool q + of_bool d + of_bool t)") auto

declare choose_regions.simps [simp del]

definition credential_block :: "text_env \<Rightarrow> popup_app \<Rightarrow> pairing_credential \<Rightarrow> bool \<Rightarrow> nat \<Rightarrow> tline list" where
  "credential_block te a cr include_qr width =
     (case (include_qr, cr_qr cr) of (True, Some qr) \<Rightarrow> qr_lines qr | _ \<Rightarrow> [[]])
     @ [styled (''  '' @ (if include_qr then ''or type these in on the phone:''
          else if cr_qr cr = None then ''no qr for this address - type the words in instead''
          else ''no room for the qr code. type these in on the phone:'')) default_style]
     @ credential_lines te ''relay'' (shown_origin a) width
     @ credential_lines te ''computer'' (cr_handle cr) width
     @ credential_lines te ''phrase'' (cr_words cr) width
     @ [styled ''press c to copy the pairing link'' meta_style]"

definition top_lines :: "text_env \<Rightarrow> popup_app \<Rightarrow> pairing_view option \<Rightarrow> bool \<Rightarrow> bool \<Rightarrow> bool \<Rightarrow> nat \<Rightarrow> tline list" where
  "top_lines te a view include_qr use_empty_message include_table width =
     title_lines a
     @ (case view of
          None \<Rightarrow> []
        | Some v \<Rightarrow> [[], pair_header_line te (pv_remaining v) width]
            @ (case pv_credential v of
                 None \<Rightarrow> [styled ''  registering...'' meta_style]
               | Some cr \<Rightarrow> credential_block te a cr include_qr width))
     @ (if use_empty_message then [[], styled ''no phones yet - press p to pair one.'' default_style] else [])
     @ (if include_table then [[], table_header_line te width] else [])"

definition bottom_lines :: "text_env \<Rightarrow> popup_app \<Rightarrow> detail_kind option \<Rightarrow> bool \<Rightarrow> footer_availability \<Rightarrow> bool \<Rightarrow> nat \<Rightarrow> int \<Rightarrow> tline list" where
  "bottom_lines te a kind include_detail av idle_hint width wall_now =
     (case kind of Some k \<Rightarrow> if include_detail then [] # detail_lines te wall_now k else [] | None \<Rightarrow> [])
     @ [[], footer_line te av width]
     @ (case ap_notice a of
          Some notice \<Rightarrow> [styled notice (fg Yellow)]
        | None \<Rightarrow> if idle_hint then [styled ''press p to pair another phone'' default_style] else [])"

definition detail_of :: "popup_app \<Rightarrow> host_status \<Rightarrow> bool \<Rightarrow> detail_kind option" where
  "detail_of a st use_empty_message =
     (if ls_state (st_link st) = Stopped then Some DetailStopped
      else if ls_state (st_link st) = Offline then
        Some (DetailOffline (case ls_error (st_link st) of Some e \<Rightarrow> e | None \<Rightarrow> ''connect failed'') (ls_attempt (st_link st)))
      else if \<not> use_empty_message then map_option DetailSelected (selected_device a)
      else None)"

definition table_rows :: "text_env \<Rightarrow> popup_app \<Rightarrow> host_status \<Rightarrow> nat \<Rightarrow> nat \<Rightarrow> int \<Rightarrow> tline list" where
  "table_rows te a st visible width wall_now =
     (case visible_window (length (devices a)) visible (ap_selected a) of (start, stop) \<Rightarrow>
        map (\<lambda>i. row_line te (devices a ! i) (row_compute (st_link st) (dr_connected (devices a ! i))) (i = ap_selected a) width wall_now) [start..<stop])"

text \<open>What \<open>draw\<close> decides before it lays anything out: the notice of an expired pairing, the empty message and the
  hint, the regions there are and those that are wanted. \<open>a\<close> is the pane after the first of these.\<close>

definition notice_expiry :: "(string \<Rightarrow> qr_grid option) \<Rightarrow> instant \<Rightarrow> popup_app \<Rightarrow> popup_app" where
  "notice_expiry qr_of now a =
     (if popup_pairing_open a \<and> the_pairing_view qr_of now a = None \<and> \<not> ap_expiry_noticed a
      then set_notice expired_notice (a\<lparr>ap_expiry_noticed := True\<rparr>) else a)"

definition use_empty_message :: "pairing_view option \<Rightarrow> host_status \<Rightarrow> popup_app \<Rightarrow> bool" where
  "use_empty_message view st a \<longleftrightarrow> devices a = [] \<and> view = None \<and> ls_state (st_link st) = Idle"

definition idle_hint :: "pairing_view option \<Rightarrow> host_status \<Rightarrow> popup_app \<Rightarrow> bool" where
  "idle_hint view st a \<longleftrightarrow> view = None \<and> \<not> use_empty_message view st a \<and> devices a \<noteq> [] \<and> ls_state (st_link st) = Idle"

definition qr_dims :: "pairing_view option \<Rightarrow> (nat \<times> nat) option" where
  "qr_dims view = map_option (\<lambda>qr. qr_region_size (qg_width qr)) (Option.bind (Option.bind view pv_credential) cr_qr)"

definition regions_of :: "pairing_view option \<Rightarrow> host_status \<Rightarrow> popup_app \<Rightarrow> regions" where
  "regions_of view st a =
     \<lparr>rg_pairing_open = (view \<noteq> None), rg_credential = (Option.bind view pv_credential \<noteq> None),
      rg_qr_rows = (case qr_dims view of Some (_, rows) \<Rightarrow> rows | None \<Rightarrow> 0),
      rg_empty_message = use_empty_message view st a, rg_notice = (ap_notice a \<noteq> None \<or> idle_hint view st a)\<rparr>"

definition chosen_regions :: "pairing_view option \<Rightarrow> host_status \<Rightarrow> popup_app \<Rightarrow> nat \<Rightarrow> nat \<Rightarrow> bool \<times> bool \<times> bool" where
  "chosen_regions view st a width height =
     choose_regions (regions_of view st a) height
       (view \<noteq> None \<and> (case qr_dims view of Some (cols, _) \<Rightarrow> cols \<le> width | None \<Rightarrow> False))
       (detail_of a st (use_empty_message view st a) \<noteq> None) (devices a \<noteq> [] \<and> \<not> use_empty_message view st a)"

text \<open>The normal screen, for a status \<open>st\<close>; \<open>split\<close> is the layout library's answer for a top region, a bottom
  region and the height to divide.\<close>

definition draw_pane ::
  "text_env \<Rightarrow> (string \<Rightarrow> qr_grid option) \<Rightarrow> (nat \<Rightarrow> nat \<Rightarrow> nat \<Rightarrow> nat \<times> nat \<times> nat) \<Rightarrow> nat \<Rightarrow> nat \<Rightarrow> instant \<Rightarrow> int \<Rightarrow> host_status \<Rightarrow>
     popup_app \<Rightarrow> popup_app \<times> pane" where
  "draw_pane te qr_of split width height now wall_now st a0 =
     (let view = the_pairing_view qr_of now a0;
          a = notice_expiry qr_of now a0;
          empty = use_empty_message view st a;
          (include_qr, include_detail, include_table) = chosen_regions view st a width height;
          av = \<lparr>fa_scroll = (include_table \<and> 1 < length (devices a)), fa_copy = (Option.bind view pv_credential \<noteq> None),
                fa_remove_one = (include_table \<and> devices a \<noteq> []), fa_remove_all = (devices a \<noteq> [])\<rparr>;
          above = top_lines te a view include_qr empty include_table width;
          below = bottom_lines te a (detail_of a st empty) include_detail av (idle_hint view st a) width wall_now;
          heights = split (length above) (length below) height
      in (a\<lparr>ap_table_visible := include_table\<rparr>,
          \<lparr>pn_top = above, pn_rows = (if include_table then table_rows te a st (fst (snd heights)) width wall_now else []),
           pn_bottom = below, pn_heights = heights, pn_loading = ap_loading a\<rparr>))"

definition draw ::
  "text_env \<Rightarrow> (string \<Rightarrow> qr_grid option) \<Rightarrow> (nat \<Rightarrow> nat \<Rightarrow> nat \<Rightarrow> nat \<times> nat \<times> nat) \<Rightarrow> nat \<Rightarrow> nat \<Rightarrow> instant \<Rightarrow> int \<Rightarrow>
     popup_app \<Rightarrow> popup_app \<times> drawn" where
  "draw te qr_of split width height now wall_now app =
     (let a = drop_shown_notice app in
      if width < FLOOR_COLS \<or> height < floor_rows (popup_pairing_open a)
      then (mark_notice_shown (a\<lparr>ap_table_visible := False\<rparr>), DrawnTooSmall (too_small_lines height))
      else case ap_confirm a of
        Some pending \<Rightarrow> (mark_notice_shown a, DrawnQuestion (question pending))
      | None \<Rightarrow>
          (case (ap_bridge_down a, ap_status a) of
             (False, Some st) \<Rightarrow>
               (case draw_pane te qr_of split width height now wall_now st a of (a1, p) \<Rightarrow> (mark_notice_shown a1, DrawnPane p))
           | _ \<Rightarrow>
               (mark_notice_shown (a\<lparr>ap_table_visible := False\<rparr>),
                DrawnBridgeDown [styled ''herdr relay'' (fg Cyan), [], styled not_running_notice (fg Yellow)]
                  (2 + max 1 (length (wrap_at_spaces te not_running_notice width))) [[], styled ''q quit'' meta_style])))"

section \<open>Measured text\<close>

definition printable :: "char \<Rightarrow> bool" where
  "printable c \<longleftrightarrow> 32 \<le> (of_char c :: nat) \<and> (of_char c :: nat) < 127"

text \<open>What \<open>unicode-width\<close> documents of printable ASCII and of the ellipsis: one cell each.\<close>

definition ascii_measure :: "text_env \<Rightarrow> bool" where
  "ascii_measure te \<longleftrightarrow>
     (\<forall>s. list_all printable s \<longrightarrow> te_width te s = length s) \<and>
     (\<forall>s s'. list_all printable s \<longrightarrow> list_all printable s' \<longrightarrow> te_width te (s @ ellipsis @ s') = length s + 1 + length s') \<and>
     (\<forall>c. printable c \<longrightarrow> te_char_width te [c] = Some 1)"

lemma ascii_measureD:
  assumes "ascii_measure te"
  shows "list_all printable s \<Longrightarrow> te_width te s = length s"
    "list_all printable s \<Longrightarrow> list_all printable s' \<Longrightarrow> te_width te (s @ ellipsis @ s') = length s + 1 + length s'"
    "printable c \<Longrightarrow> te_char_width te [c] = Some 1"
  using assms by (auto simp: ascii_measure_def)

lemma printable_space [simp]: "printable CHR '' ''" by (simp add: printable_def)

lemma printable_not_cont [simp]: "printable c \<Longrightarrow> \<not> is_cont c"
  by (rule is_ascii_not_cont) (simp add: printable_def is_ascii_def)

lemma printable_chars: "list_all printable s \<Longrightarrow> chars s = map (\<lambda>c. [c]) s"
  by (rule chars_ascii) (auto simp: list_all_iff)

lemma printable_spaces [simp]: "list_all printable (spaces n)" "length (spaces n) = n"
  by (simp_all add: spaces_def list_all_iff)

lemma elide_loop_printable:
  assumes "ascii_measure te" "list_all printable s"
  shows "elide_loop te budget used (map (\<lambda>c. [c]) s) = take (budget - used) s"
  using assms(2)
proof (induction s arbitrary: used)
  case (Cons c s)
  have "elide_loop te budget (Suc used) (map (\<lambda>c. [c]) s) = take (budget - Suc used) s"
    by (rule Cons.IH) (use Cons.prems in simp)
  moreover have "te_char_width te [c] = Some 1" using Cons.prems ascii_measureD(3) [OF assms(1)] by simp
  moreover have "take (budget - used) (c # s) = (if budget < Suc used then [] else c # take (budget - Suc used) s)"
    by (simp add: take_Cons')
  ultimately show ?case by (simp add: Let_def)
qed simp

lemma elide_printable:
  assumes "ascii_measure te" "list_all printable tx"
  shows "elide te tx width = (if length tx \<le> width then tx else if width = 0 then [] else take (width - 1) tx @ ellipsis)"
  using assms by (simp add: elide_def ascii_measureD printable_chars elide_loop_printable)

lemma printable_take: "list_all printable s \<Longrightarrow> list_all printable (take n s)"
  by (auto simp: list_all_iff dest: in_set_takeD)

text \<open>A padded and elided column has exactly its width.\<close>

lemma column_width:
  assumes "ascii_measure te" "list_all printable tx" "0 < width"
  shows "te_width te (pad te (elide te tx width) width @ ''  '') = width + 2"
proof (cases "length tx \<le> width")
  case True
  then show ?thesis using assms ascii_measureD(1) [OF assms(1), of "tx @ spaces (width - length tx) @ ''  ''"]
    ascii_measureD(1) [OF assms(1), of "tx @ ''  ''"]
    by (auto simp: elide_printable pad_def ascii_measureD(1) [OF assms(1)])
next
  case False
  then have "list_all printable (take (width - 1) tx)" "length (take (width - 1) tx) = width - 1"
    using assms(2) by (simp_all add: printable_take)
  then show ?thesis using False assms(3) ascii_measureD(2) [OF assms(1), of "take (width - 1) tx" "''  ''"]
      ascii_measureD(2) [OF assms(1), of "take (width - 1) tx" "[]"]
    by (simp add: elide_printable [OF assms(1,2)] pad_def)
qed

lemma pad_width:
  assumes "ascii_measure te" "list_all printable tx" "length tx \<le> width"
  shows "te_width te (pad te tx width @ ''  '') = width + 2"
  using assms ascii_measureD(1) [OF assms(1), of "tx @ spaces (width - length tx) @ ''  ''"]
    ascii_measureD(1) [OF assms(1), of "tx @ ''  ''"]
  by (auto simp: pad_def ascii_measureD(1) [OF assms(1)])

definition line_width :: "text_env \<Rightarrow> tline \<Rightarrow> nat" where
  "line_width te l = sum_list (map (te_width te \<circ> fst) l)"

text \<open>The timestamps of a phone whose dates are months and days, hours and minutes, and less than ten thousand days away.\<close>

definition sane_dates :: "text_env \<Rightarrow> int \<Rightarrow> device_row \<Rightarrow> bool" where
  "sane_dates te wall_now d \<longleftrightarrow>
     list_all printable (format_paired_column te (dr_paired_at d)) \<and> length (format_paired_column te (dr_paired_at d)) \<le> 17 \<and>
     list_all printable (format_relative te (dr_last_seen d) wall_now) \<and> length (format_relative te (dr_last_seen d) wall_now) \<le> 12"

fun columns_width :: "nat \<Rightarrow> nat" where
  "columns_width width = (if 70 \<le> width then 65 else if 57 \<le> width then 51 else if 39 \<le> width then 32 else 18)"

lemma row_width:
  assumes "ascii_measure te" "list_all printable (dr_device_name d)" "list_all printable (dr_os_version d)" "sane_dates te wall_now d"
  shows "line_width te (row_line te d rs selected width wall_now) = columns_width width + length (row_word rs)"
proof -
  have p: "list_all printable (platform_label (dr_platform d) @ '' '' @ dr_os_version d)"
    using assms(3) by (cases "dr_platform d") (simp_all add: printable_def)
  have w: "te_width te (row_word rs) = length (row_word rs)"
    by (rule ascii_measureD(1) [OF assms(1)]) (cases rs; simp add: printable_def)
  note c = column_width [OF assms(1,2), of 16] column_width [OF assms(1) p, of 12]
    pad_width [OF assms(1), of "format_paired_column te (dr_paired_at d)" 17]
    pad_width [OF assms(1), of "format_relative te (dr_last_seen d) wall_now" 12]
  show ?thesis using c assms(4) by (simp add: line_width_def row_line_def table_columns_def Let_def sane_dates_def w)
qed

text \<open>The columns of the table are chosen by widths that are too small for them. A row of a connected phone is
  74 cells when all five columns are drawn, 60 with four and 41 with three, but the choices are made from 70, 57
  and 39 cells: the rows fit the pane they are drawn for exactly when its width is outside 70 to 73, 57 to 59, and
  39 to 40, and the frame of 72 cells the program documents cuts the state of a connected phone.\<close>

theorem connected_row_fits:
  assumes "ascii_measure te" "list_all printable (dr_device_name d)" "list_all printable (dr_os_version d)" "sane_dates te wall_now d"
    and "FLOOR_COLS \<le> width"
  shows "line_width te (row_line te d RowConnected selected width wall_now) \<le> width
    \<longleftrightarrow> width \<notin> {39, 40} \<union> {57..59} \<union> {70..73}"
proof -
  have "line_width te (row_line te d RowConnected selected width wall_now) = columns_width width + 9"
    using row_width [OF assms(1-4), of RowConnected selected width] by simp
  then show ?thesis using assms(5) by (auto simp: FLOOR_COLS_def)
qed

section \<open>Wrapped credentials\<close>

definition rows_join :: "string list \<Rightarrow> string \<Rightarrow> string list \<Rightarrow> string list" where
  "rows_join done current ws = done @ (if current \<noteq> [] then [current] else []) @ ws"

lemma join_append: "xs \<noteq> [] \<Longrightarrow> ys \<noteq> [] \<Longrightarrow> join sep (xs @ ys) = join sep xs @ sep @ join sep ys"
proof (induction xs)
  case (Cons x xs)
  then show ?case by (cases "xs = []") (simp_all add: join_Cons)
qed simp

lemma join_merge: "join sep (done @ (a @ sep @ b) # ws) = join sep (done @ a # b # ws)"
proof -
  have "join sep ((a @ sep @ b) # ws) = join sep (a # b # ws)" by (cases ws) simp_all
  then show ?thesis by (cases "done = []") (simp_all add: join_append)
qed

lemma wrap_words_join:
  assumes "[] \<notin> set ws" "current \<noteq> [] \<or> ws \<noteq> []"
  shows "join '' '' (wrap_words te width done current ws) = join '' '' (rows_join done current ws)"
  using assms
proof (induction ws arbitrary: "done" current)
  case Nil
  then show ?case by (simp add: rows_join_def)
next
  case (Cons word ws)
  then have ws: "[] \<notin> set ws" "word \<noteq> []" by auto
  consider "current = []" | "current \<noteq> []" "width < te_width te current + 1 + te_width te word"
    | "current \<noteq> []" "\<not> width < te_width te current + 1 + te_width te word" by blast
  then show ?case
  proof cases
    case 1
    then show ?thesis using Cons.IH [OF ws(1), of word "done"] ws(2) by (simp add: rows_join_def)
  next
    case 2
    then show ?thesis using Cons.IH [OF ws(1), of word "done @ [current]"] ws(2) by (simp add: rows_join_def)
  next
    case 3
    then show ?thesis using Cons.IH [OF ws(1), of "current @ '' '' @ word" "done"] ws(2)
      by (simp add: rows_join_def join_merge [of "'' ''", simplified])
  qed
qed

definition fits_row :: "nat \<Rightarrow> string \<Rightarrow> bool" where
  "fits_row width row \<longleftrightarrow> length row \<le> width \<or> CHR '' '' \<notin> set row"

lemma wrap_words_fit:
  assumes "ascii_measure te" "list_all (list_all printable) ws" "list_all printable current"
    "\<forall>word \<in> set ws. CHR '' '' \<notin> set word" "\<forall>row \<in> set done. fits_row width row" "fits_row width current"
  shows "\<forall>row \<in> set (wrap_words te width done current ws). fits_row width row"
  using assms(2-6)
proof (induction ws arbitrary: "done" current)
  case (Cons word ws)
  have w: "te_width te word = length word" "te_width te current = length current"
    using Cons.prems(1,2) by (simp_all add: ascii_measureD(1) [OF assms(1)])
  have p: "list_all (list_all printable) ws" "list_all printable word" "\<forall>word \<in> set ws. CHR '' '' \<notin> set word" "fits_row width word"
    using Cons.prems(1,3) by (simp_all add: fits_row_def)
  consider "current = []" | "current \<noteq> []" "width < length current + 1 + length word"
    | "current \<noteq> []" "length current + 1 + length word \<le> width" by linarith
  then show ?case
  proof cases
    case 1
    have "\<forall>row \<in> set (wrap_words te width done word ws). fits_row width row"
      by (rule Cons.IH [OF p(1,2,3) Cons.prems(4) p(4)])
    with 1 show ?thesis by simp
  next
    case 2
    have "\<forall>row \<in> set (done @ [current]). fits_row width row" using Cons.prems(4,5) by auto
    then have "\<forall>row \<in> set (wrap_words te width (done @ [current]) word ws). fits_row width row"
      by (rule Cons.IH [OF p(1,2,3) _ p(4)])
    with 2 show ?thesis by (simp add: w)
  next
    case 3
    have "list_all printable (current @ '' '' @ word)" "fits_row width (current @ '' '' @ word)"
      using 3 p(2) Cons.prems(2) by (simp_all add: fits_row_def)
    then have "\<forall>row \<in> set (wrap_words te width done (current @ '' '' @ word) ws). fits_row width row"
      using Cons.IH [OF p(1) _ p(3) Cons.prems(4)] by blast
    with 3 show ?thesis by (simp add: w)
  qed
qed auto

text \<open>Wrapping a credential loses nothing and breaks no word: the rows joined by blanks are the text, and a row
  that is wider than the pane holds a single word.\<close>

theorem wrapped_credential_complete:
  assumes "ascii_measure te" "list_all printable tx" "[] \<notin> set (split_on CHR '' '' tx)"
  shows "join '' '' (wrap_at_spaces te tx width) = tx \<and>
    (\<forall>row \<in> set (wrap_at_spaces te tx width). length row \<le> width \<or> CHR '' '' \<notin> set row)"
proof
  show "join '' '' (wrap_at_spaces te tx width) = tx"
    unfolding wrap_at_spaces_def using wrap_words_join [OF assms(3), of "[]" te width "[]"] by (simp add: rows_join_def)
  have "list_all (list_all printable) (split_on CHR '' '' tx)" using assms(2)
  proof (induction tx)
    case (Cons c tx)
    then show ?case by (cases "split_on CHR '' '' tx") auto
  qed simp
  moreover have "\<forall>word \<in> set (split_on CHR '' '' tx). CHR '' '' \<notin> set word" by (blast dest: split_on_pieces)
  ultimately show "\<forall>row \<in> set (wrap_at_spaces te tx width). length row \<le> width \<or> CHR '' '' \<notin> set row"
    using wrap_words_fit [OF assms(1), of "split_on CHR '' '' tx" "[]" "[]" width]
    by (simp add: wrap_at_spaces_def fits_row_def)
qed

section \<open>Reading the symbol off the screen\<close>

definition one_char :: "string \<Rightarrow> bool" where
  "one_char g \<longleftrightarrow> g \<noteq> [] \<and> \<not> is_cont (hd g) \<and> list_all is_cont (tl g)"

lemma chars_append_char:
  assumes "one_char g" "s = [] \<or> \<not> is_cont (hd s)"
  shows "chars (g @ s) = g # chars s"
proof -
  obtain c cs where g: "g = c # cs" "list_all is_cont cs" using assms(1) by (cases g) (auto simp: one_char_def)
  have "takeWhile is_cont (cs @ s) = cs" "dropWhile is_cont (cs @ s) = s"
    using g(2) assms(2) by (induction cs) (cases s; auto)+
  then show ?thesis by (simp add: g(1))
qed

lemma chars_concat: "list_all one_char gs \<Longrightarrow> chars (concat gs) = gs"
proof (induction gs)
  case (Cons g gs)
  have "concat gs = [] \<or> \<not> is_cont (hd (concat gs))"
    using Cons.prems by (cases gs) (auto simp: one_char_def)
  then show ?case using Cons by (simp add: chars_append_char)
qed simp

lemma glyph_one_char [simp]: "one_char (glyph u l)" "one_char '' ''"
  by (simp_all add: glyph_def one_char_def is_cont_def)

text \<open>A scanner's view of a printed symbol: the upper and the lower half of the cell that holds a module.\<close>

definition glyph_halves :: "string \<Rightarrow> bool \<times> bool" where
  "glyph_halves g = (g = glyph True True \<or> g = glyph True False, g = glyph True True \<or> g = glyph False True)"

definition scan_module :: "tline list \<Rightarrow> nat \<Rightarrow> nat \<Rightarrow> bool" where
  "scan_module ls x y =
     (let halves = glyph_halves (chars (line_text (ls ! (y div 2))) ! (x + 2))
      in if even y then fst halves else snd halves)"

lemma glyph_halves_glyph [simp]: "glyph_halves (glyph u l) = (u, l)"
  by (cases u; cases l) (simp_all add: glyph_halves_def glyph_def)

lemma chars_qr_line:
  "row < div_ceil2 (qg_width qr + 2 * QUIET_ZONE) \<Longrightarrow> chars (line_text (qr_lines qr ! row)) = '' '' # '' '' # qr_row qr row"
proof -
  assume r: "row < div_ceil2 (qg_width qr + 2 * QUIET_ZONE)"
  have "chars (concat ('' '' # '' '' # qr_row qr row)) = '' '' # '' '' # qr_row qr row"
    by (rule chars_concat) (simp add: list_all_iff qr_row_def Let_def)
  then show ?thesis using r by (simp add: qr_lines_def line_text_def styled_def)
qed

lemma length_qr_lines: "length (qr_lines qr) = snd (qr_region_size (qg_width qr))"
  by (simp add: qr_lines_def qr_region_size_def Let_def)


section \<open>The rows on screen\<close>

lemma visible_window_holds:
  assumes "selected < n" "0 < visible"
  shows "\<exists>start. visible_window n visible selected = (start, start + min visible n) \<and> start \<le> selected \<and> selected < start + min visible n
    \<and> start + min visible n \<le> n"
  using assms by (auto simp: visible_window_def Let_def)

text \<open>The table scrolls with the selection: as many consecutive phones as fit are drawn, in their order, and
  the selected phone is among them and is the one row drawn as selected.\<close>

theorem selected_row_drawn:
  assumes "ap_selected a < length (devices a)" "0 < visible"
  shows "\<exists>start. start \<le> ap_selected a \<and> ap_selected a < start + min visible (length (devices a))
    \<and> table_rows te a st visible width wall_now =
        map (\<lambda>i. row_line te (devices a ! i) (row_compute (st_link st) (dr_connected (devices a ! i))) (i = ap_selected a) width wall_now)
          [start..<start + min visible (length (devices a))]"
  using visible_window_holds [OF assms] by (auto simp: table_rows_def)

section \<open>Witnesses\<close>

definition sample_text_env :: text_env where
  "sample_text_env = \<lparr>te_width = (\<lambda>s. length (filter (\<lambda>c. \<not> is_cont c) s)), te_char_width = (\<lambda>_. Some 1), te_parse = (\<lambda>_. None)\<rparr>"

lemma printable_filter: "list_all printable s \<Longrightarrow> filter (\<lambda>c. \<not> is_cont c) s = s"
  by (auto simp: list_all_iff filter_id_conv)

lemma sample_measure: "ascii_measure sample_text_env"
  by (simp add: ascii_measure_def sample_text_env_def printable_filter ellipsis_def) (simp add: is_cont_def)

definition sample_row :: device_row where
  "sample_row = \<lparr>dr_device_id = ''a'', dr_device_name = ''pixel-8-pat'', dr_platform = Android, dr_os_version = ''15'',
     dr_fingerprint = [], dr_paired_at = [], dr_last_seen = [], dr_connected = True\<rparr>"

theorem connected_row_fits_witness:
  "\<not> line_width sample_text_env (row_line sample_text_env sample_row RowConnected False 72 0) \<le> 72"
proof -
  have "sane_dates sample_text_env 0 sample_row"
    by (simp add: sane_dates_def sample_text_env_def format_paired_column_def format_relative_def printable_def)
  moreover have "list_all printable (dr_device_name sample_row)" "list_all printable (dr_os_version sample_row)"
    by (simp_all add: sample_row_def printable_def)
  ultimately show ?thesis
    using connected_row_fits [OF sample_measure, of sample_row 0 72 False] by (simp add: FLOOR_COLS_def)
qed

theorem wrapped_credential_complete_witness:
  "join '' '' (wrap_at_spaces sample_text_env ''remedy tapestry hubcap'' 15) = ''remedy tapestry hubcap''
    \<and> length (wrap_at_spaces sample_text_env ''remedy tapestry hubcap'' 15) = 2"
proof -
  have "list_all printable ''remedy tapestry hubcap''" by (simp add: printable_def)
  moreover have "[] \<notin> set (split_on CHR '' '' ''remedy tapestry hubcap'')" by simp
  ultimately have "join '' '' (wrap_at_spaces sample_text_env ''remedy tapestry hubcap'' 15) = ''remedy tapestry hubcap''"
    using wrapped_credential_complete [OF sample_measure, of "''remedy tapestry hubcap''" 15] by blast
  moreover have "wrap_at_spaces sample_text_env ''remedy tapestry hubcap'' 15 = [''remedy tapestry'', ''hubcap'']" by code_simp
  ultimately show ?thesis by simp
qed


end
