(* ===== verification/Popup_Frame.thy ===== *)
theory Popup_Frame
  imports Popup_View
begin

text \<open>
  What a frame of the pane is as a whole: whether its regions fit the rectangle, which phones it shows and what of
  a pairing it can tell.
\<close>

section \<open>The height of a frame\<close>

lemma choose_regions_fits:
  "choose_regions rg height q d t = (q', d', t') \<Longrightarrow> total_height rg q' d' t' \<le> height \<or> \<not> q' \<and> \<not> d' \<and> \<not> t'"
proof (induction rg height q d t rule: choose_regions.induct)
  case (1 rg height q d t)
  show ?case
  proof (cases "total_height rg q d t \<le> height")
    case True
    then show ?thesis using "1.prems" by (simp add: choose_regions.simps [of rg height q d t])
  next
    case False
    then show ?thesis using 1 by (subst (asm) choose_regions.simps [of rg height q d t]) (auto split: if_splits)
  qed
qed

lemma choose_regions_sub:
  "choose_regions rg height q d t = (q', d', t') \<Longrightarrow> (q' \<longrightarrow> q) \<and> (d' \<longrightarrow> d) \<and> (t' \<longrightarrow> t)"
proof (induction rg height q d t rule: choose_regions.induct)
  case (1 rg height q d t)
  then show ?case
    by (cases "total_height rg q d t \<le> height")
       (use "1.prems" in \<open>simp add: choose_regions.simps [of rg height q d t]\<close>,
        subst (asm) choose_regions.simps [of rg height q d t], auto split: if_splits)
qed

lemma notice_expiry_simps [simp]:
  "devices (notice_expiry qr_of now a) = devices a" "ap_status (notice_expiry qr_of now a) = ap_status a"
  "ap_selected (notice_expiry qr_of now a) = ap_selected a" "ap_confirm (notice_expiry qr_of now a) = ap_confirm a"
  "shown_origin (notice_expiry qr_of now a) = shown_origin a" "ap_bridge_down (notice_expiry qr_of now a) = ap_bridge_down a"
  by (simp_all add: notice_expiry_def set_notice_def devices_def shown_origin_def)

definition wrapped_rows :: "text_env \<Rightarrow> popup_app \<Rightarrow> pairing_view option \<Rightarrow> nat \<Rightarrow> nat" where
  "wrapped_rows te a view width =
     (case Option.bind view pv_credential of
        None \<Rightarrow> 0
      | Some cr \<Rightarrow> (length (credential_lines te ''relay'' (shown_origin a) width) - 1)
          + (length (credential_lines te ''computer'' (cr_handle cr) width) - 1)
          + (length (credential_lines te ''phrase'' (cr_words cr) width) - 1))"

lemma credential_lines_pos: "Suc (length (credential_lines te label val width) - 1) = length (credential_lines te label val width)"
  by (simp add: credential_lines_def Let_def)

lemma length_detail [simp]: "length (detail_lines te wall_now k) = 2"
  by (cases k) simp_all

lemma length_credential_block:
  assumes "include_qr \<Longrightarrow> cr_qr cr \<noteq> None" "Option.bind view pv_credential = Some cr"
  shows "length (credential_block te a cr include_qr width) =
    (if include_qr then case qr_dims view of Some (_, rows) \<Rightarrow> rows | None \<Rightarrow> 0 else 1) + 5 + wrapped_rows te a view width"
proof -
  have "length (credential_lines te ''relay'' (shown_origin a) width) + length (credential_lines te ''computer'' (cr_handle cr) width)
      + length (credential_lines te ''phrase'' (cr_words cr) width) = 3 + wrapped_rows te a view width"
    using credential_lines_pos [of te "''relay''" "shown_origin a" width] credential_lines_pos [of te "''computer''" "cr_handle cr" width]
      credential_lines_pos [of te "''phrase''" "cr_words cr" width] assms(2)
    by (simp add: wrapped_rows_def)
  then show ?thesis using assms
    by (cases include_qr; cases "cr_qr cr") (auto simp: credential_block_def qr_dims_def length_qr_lines split: prod.split)
qed

text \<open>The height \<open>draw\<close> counted for the regions it chose is the height of their lines, but for the rows that a
  wrapped credential takes.\<close>

lemma drawn_height:
  assumes "draw_pane te qr_of split width height now wall_now st a0 = (a', p)"
    and "view = the_pairing_view qr_of now a0" "a = notice_expiry qr_of now a0" "chosen_regions view st a width height = (q, d, t)"
  shows "length (pn_top p) + length (pn_bottom p) = total_height (regions_of view st a) q d t + wrapped_rows te a0 view width"
proof -
  let ?e = "use_empty_message view st a"
  have q: "q \<Longrightarrow> view \<noteq> None \<and> qr_dims view \<noteq> None"
    and d: "d \<Longrightarrow> detail_of a st ?e \<noteq> None"
    using choose_regions_sub [of "regions_of view st a" height _ _ _ q d t] assms(4)
    by (auto simp: chosen_regions_def split: option.splits)
  have w: "wrapped_rows te a view width = wrapped_rows te a0 view width"
    by (simp add: wrapped_rows_def assms(3) split: option.split)
  have above: "length (top_lines te a view q ?e t width) =
      2 + (if rg_pairing_open (regions_of view st a) then 2 else 0) + (if q then rg_qr_rows (regions_of view st a) else 0)
      + (if rg_pairing_open (regions_of view st a) then if rg_credential (regions_of view st a) then 5 + (if q then 0 else 1) else 1 else 0)
      + (if ?e then 2 else 0) + (if t then 2 else 0) + wrapped_rows te a view width"
  proof (cases "Option.bind view pv_credential")
    case None
    then have "\<not> q" using q by (auto simp: qr_dims_def)
    then show ?thesis using None
      by (cases view) (auto simp: top_lines_def title_lines_def regions_of_def wrapped_rows_def Let_def split: prod.split)
  next
    case (Some cr)
    then obtain v where v: "view = Some v" "pv_credential v = Some cr" by (cases view) auto
    have "q \<Longrightarrow> cr_qr cr \<noteq> None" using q Some by (auto simp: qr_dims_def)
    then have "length (credential_block te a cr q width) =
        (if q then case qr_dims view of Some (_, rows) \<Rightarrow> rows | None \<Rightarrow> 0 else 1) + 5 + wrapped_rows te a view width"
      using Some by (rule length_credential_block)
    then show ?thesis using v
      by (auto simp: top_lines_def title_lines_def regions_of_def Let_def split: prod.split)
  qed
  have below: "length (bottom_lines te a (detail_of a st ?e) d av (idle_hint view st a) width wall_now) =
      (if d then 3 else 0) + 2 + (if rg_notice (regions_of view st a) then 1 else 0)" for av
    using d by (auto simp: bottom_lines_def regions_of_def split: option.splits)
  have "pn_top p = top_lines te a view q ?e t width \<and>
      (\<exists>av. pn_bottom p = bottom_lines te a (detail_of a st ?e) d av (idle_hint view st a) width wall_now)"
    using assms(1) unfolding draw_pane_def Let_def assms(2,3) [symmetric] assms(4) by auto
  then show ?thesis using above below w by (auto simp: total_height_def regions_of_def)
qed

lemma draw_PaneD:
  assumes "snd (draw te qr_of split width height now wall_now app) = DrawnPane p"
  shows "\<exists>st a'. ap_status app = Some st \<and> draw_pane te qr_of split width height now wall_now st (drop_shown_notice app) = (a', p)
    \<and> FLOOR_COLS \<le> width \<and> floor_rows (popup_pairing_open app) \<le> height"
proof -
  have s: "ap_status (drop_shown_notice app) = ap_status app" "popup_pairing_open (drop_shown_notice app) = popup_pairing_open app"
    by (simp_all add: drop_shown_notice_def popup_pairing_open_def)
  show ?thesis
    using assms by (auto simp: draw_def Let_def s split: if_splits option.splits bool.splits prod.splits)
qed

lemma view_drop [simp]: "the_pairing_view qr_of now (drop_shown_notice app) = the_pairing_view qr_of now app"
  by (simp add: drop_shown_notice_def the_pairing_view_def split: option.split)

lemma view_open: "the_pairing_view qr_of now a \<noteq> None \<Longrightarrow> popup_pairing_open a"
  by (auto simp: the_pairing_view_def popup_pairing_open_def split: option.splits)

lemma wrapped_drop [simp]: "wrapped_rows te (drop_shown_notice app) = wrapped_rows te app"
  by (intro ext) (simp add: wrapped_rows_def shown_origin_def drop_shown_notice_def split: option.split)

text \<open>Unless a credential wraps, or a notice comes on at exactly the smallest height, the lines of a frame fit the
  pane: what is too high is left out before anything is laid out.\<close>

theorem pane_fits:
  assumes "snd (draw te qr_of split width height now wall_now app) = DrawnPane p"
    and "wrapped_rows te app (the_pairing_view qr_of now app) width = 0"
    and "ap_notice (notice_expiry qr_of now (drop_shown_notice app)) = None \<or> floor_rows (popup_pairing_open app) < height"
  shows "length (pn_top p) + length (pn_bottom p) \<le> height"
proof -
  let ?v = "the_pairing_view qr_of now app" and ?a = "notice_expiry qr_of now (drop_shown_notice app)"
  obtain st a' where d: "draw_pane te qr_of split width height now wall_now st (drop_shown_notice app) = (a', p)"
      "floor_rows (popup_pairing_open app) \<le> height"
    using draw_PaneD [OF assms(1)] by blast
  obtain q dt t where c: "chosen_regions ?v st ?a width height = (q, dt, t)" by (cases "chosen_regions ?v st ?a width height")
  have h: "length (pn_top p) + length (pn_bottom p) = total_height (regions_of ?v st ?a) q dt t"
    using drawn_height [OF d(1) _ refl, of ?v q dt t] c assms(2) by simp
  have least: "total_height (regions_of ?v st ?a) False False False \<le> height"
    using assms(3) d(2) view_open [of qr_of now app]
    by (auto simp: total_height_def regions_of_def idle_hint_def use_empty_message_def floor_rows_def PAIRING_FLOOR_ROWS_def
        IDLE_FLOOR_ROWS_def split: if_splits)
  have "total_height (regions_of ?v st ?a) q dt t \<le> height \<or> \<not> q \<and> \<not> dt \<and> \<not> t"
    using c unfolding chosen_regions_def by (rule choose_regions_fits)
  then show ?thesis using h least by auto
qed

lemma code_wraps:
  assumes "ascii_measure te" "list_all printable (cr_handle cr)" "length (cr_handle cr) = 22" "width < 36"
    "CHR '' '' \<notin> set (cr_handle cr)"
  shows "length (credential_lines te ''computer'' (cr_handle cr) width) = 2"
proof -
  let ?p = "spaces CRED_INDENT @ pad te (''computer'' @ '':'') CRED_LABEL_FIELD"
  have p: "te_width te (''computer'' @ '':'') = 9" using ascii_measureD(1) [OF assms(1), of "''computer:''"] by (simp add: printable_def)
  have "list_all printable (?p @ cr_handle cr)" "length (?p @ cr_handle cr) = 36"
    using assms(2,3) p by (simp_all add: pad_def CRED_INDENT_def CRED_LABEL_FIELD_def printable_def)
  then have "te_width te (?p @ cr_handle cr) = 36" using ascii_measureD(1) [OF assms(1)] by simp
  then have w: "width < te_width te (?p @ cr_handle cr)" using assms(4) by simp
  have "split_on CHR '' '' (cr_handle cr) = [cr_handle cr]" by (rule split_on_absent [OF assms(5)])
  then have "wrap_at_spaces te (cr_handle cr) n = [cr_handle cr]" for n using assms(3) by (auto simp: wrap_at_spaces_def)
  then show ?thesis using w by (simp add: credential_lines_def Let_def)
qed

text \<open>At the smallest pane an open pairing may use, twelve rows, the frame does not fit as soon as the pane is too
  narrow for the computer code beside its label, or a notice is to be shown: the wrapped rows are not counted and
  nothing is left to drop, so the layout library is given more rows than there are.\<close>

theorem pairing_floor_overflows:
  assumes "snd (draw te qr_of split width PAIRING_FLOOR_ROWS now wall_now app) = DrawnPane p"
    and "Option.bind (the_pairing_view qr_of now app) pv_credential = Some cr"
    and "ascii_measure te" "list_all printable (cr_handle cr)" "length (cr_handle cr) = 22" "CHR '' '' \<notin> set (cr_handle cr)"
    and "width < 36 \<or> ap_notice (drop_shown_notice app) \<noteq> None"
  shows "PAIRING_FLOOR_ROWS < length (pn_top p) + length (pn_bottom p)"
proof -
  let ?v = "the_pairing_view qr_of now app" and ?a = "notice_expiry qr_of now (drop_shown_notice app)"
  obtain st a' where d: "draw_pane te qr_of split width PAIRING_FLOOR_ROWS now wall_now st (drop_shown_notice app) = (a', p)"
    using draw_PaneD [OF assms(1)] by blast
  obtain q dt t where c: "chosen_regions ?v st ?a width PAIRING_FLOOR_ROWS = (q, dt, t)"
    by (cases "chosen_regions ?v st ?a width PAIRING_FLOOR_ROWS")
  have h: "length (pn_top p) + length (pn_bottom p) = total_height (regions_of ?v st ?a) q dt t + wrapped_rows te app ?v width"
    using drawn_height [OF d _ refl, of ?v q dt t] c by simp
  have n: "?a = drop_shown_notice app" using assms(2) by (auto simp: notice_expiry_def)
  have "width < 36 \<Longrightarrow> 1 \<le> wrapped_rows te app ?v width"
    using code_wraps [OF assms(3-5) _ assms(6)] by (simp add: wrapped_rows_def assms(2))
  moreover have "q \<Longrightarrow> 1 \<le> rg_qr_rows (regions_of ?v st ?a)"
  proof -
    assume q
    then have "qr_dims ?v \<noteq> None" using choose_regions_sub [OF c [unfolded chosen_regions_def]] by (auto split: option.splits)
    then show ?thesis by (auto simp: regions_of_def qr_dims_def qr_region_size_def div_ceil2_def QUIET_ZONE_def Let_def)
  qed
  then have "12 + (if ap_notice (drop_shown_notice app) \<noteq> None then 1 else 0) \<le> total_height (regions_of ?v st ?a) q dt t"
    using assms(2) by (auto simp: total_height_def regions_of_def n bind_eq_Some_conv)
  ultimately show ?thesis using h assms(7) by (auto simp: PAIRING_FLOOR_ROWS_def)
qed

text \<open>A layout that gives both fixed regions their lengths when they fit, and the rest to the middle.\<close>

definition honours :: "(nat \<Rightarrow> nat \<Rightarrow> nat \<Rightarrow> nat \<times> nat \<times> nat) \<Rightarrow> bool" where
  "honours split \<longleftrightarrow> (\<forall>t b h. t + b \<le> h \<longrightarrow> split t b h = (t, h - (t + b), b))"

text \<open>The table counts as drawn when only its header fits: in a pane of seven rows a phone list shows no phone
  at all, and \<open>d\<close> still asks whether to remove the phone of the selection nobody sees.\<close>

theorem undrawn_phone_removable:
  assumes "ap_status a = Some st" "st_pairing st = None" "ls_state (st_link st) = Idle" "ap_confirm a = None" "\<not> ap_bridge_down a"
    and "ap_notice a = None \<or> ap_notice_shown a" "ap_selected a < length (st_devices st)" "FLOOR_COLS \<le> width" "honours split"
  shows "\<exists>a' p. draw te qr_of split width 7 now wall_now a = (a', DrawnPane p) \<and> pn_rows p = []
    \<and> ap_confirm (fst (fst (handle_key io (KeyChar ''d'') t t' (a', w)))) =
        Some (RemoveOne (dr_device_id (st_devices st ! ap_selected a)) (dr_device_name (st_devices st ! ap_selected a)))"
proof -
  define b where "b = a\<lparr>ap_notice := None, ap_notice_shown := ap_notice_shown (drop_shown_notice a)\<rparr>"
  have b: "drop_shown_notice a = b" using assms(6) by (auto simp: b_def drop_shown_notice_def)
  have v: "the_pairing_view qr_of now b = None" "popup_pairing_open b = False"
    using assms(1,2) by (simp_all add: b_def the_pairing_view_def popup_pairing_open_def)
  have e: "notice_expiry qr_of now b = b" by (simp add: notice_expiry_def v)
  have dv: "devices b = st_devices st" "st_devices st \<noteq> []" using assms(1,7) by (auto simp: b_def devices_def)
  have u: "\<not> use_empty_message None st b" "idle_hint None st b"
    using dv assms(3) by (simp_all add: use_empty_message_def idle_hint_def)
  have k: "detail_of b st False \<noteq> None" using dv assms(3,7) by (simp add: detail_of_def selected_device_def b_def)
  have "ap_notice b = None" by (simp add: b_def)
  then have c: "chosen_regions None st b width 7 = (False, False, True)"
    using k by (simp add: chosen_regions_def u dv regions_of_def qr_dims_def choose_regions.simps total_height_def)
  obtain q where q: "draw_pane te qr_of split width 7 now wall_now st b = (b\<lparr>ap_table_visible := True\<rparr>, q)"
    by (simp add: draw_pane_def Let_def v e c)
  have "length (pn_top q) = 4 \<and> length (pn_bottom q) = 3 \<and>
     pn_rows q = table_rows te b st (fst (snd (split (length (pn_top q)) (length (pn_bottom q)) 7))) width wall_now"
    using q \<open>ap_notice b = None\<close>
    by (auto simp: draw_pane_def Let_def v e c u top_lines_def title_lines_def bottom_lines_def split: option.split prod.split)
  moreover have "split 4 3 7 = (4, 0, 3)" using assms(9) by (simp add: honours_def)
  ultimately have "pn_rows q = []" by (simp add: table_rows_def visible_window_def)
  moreover have "draw te qr_of split width 7 now wall_now a = (mark_notice_shown (b\<lparr>ap_table_visible := True\<rparr>), DrawnPane q)"
    using assms(1,4,5,8) v(2) q by (simp add: draw_def b Let_def floor_rows_def IDLE_FLOOR_ROWS_def) (simp add: b_def)
  moreover have "ap_confirm (fst (fst (handle_key io (KeyChar ''d'') t t' (mark_notice_shown (b\<lparr>ap_table_visible := True\<rparr>), w)))) =
      Some (RemoveOne (dr_device_id (st_devices st ! ap_selected a)) (dr_device_name (st_devices st ! ap_selected a)))"
    using assms(1,4,7) by (simp add: handle_key_def mark_notice_shown_def b_def selected_device_def devices_def)
  ultimately show ?thesis by blast
qed

section \<open>The footer\<close>

text \<open>The footer is one line: whatever keys it lists, it is no wider than a pane of thirteen cells or more.\<close>

theorem footer_fits:
  assumes "ascii_measure te" "13 \<le> width"
  shows "te_width te (line_text (footer_line te av width)) \<le> width"
proof -
  have c: "te_width te (join '' '' ([''p''] @ (if fa_copy av then [''c''] else []) @ (if fa_remove_one av then [''d''] else [])
      @ (if fa_remove_all av then [''r''] else []) @ [''s'', ''f'', ''q''])) \<le> 13"
    by (cases "fa_copy av"; cases "fa_remove_one av"; cases "fa_remove_all av";
        simp add: ascii_measureD(1) [OF assms(1)] printable_def)
  then show ?thesis using assms(2) by (auto simp: footer_line_def Let_def line_text_def styled_def)
qed

section \<open>Nothing of a hidden credential\<close>

text \<open>The pane with other credential fields in the pairing of its status.\<close>

definition with_credential :: "string option \<Rightarrow> string option \<Rightarrow> string option \<Rightarrow> popup_app \<Rightarrow> popup_app" where
  "with_credential u h ph a =
     a\<lparr>ap_status := map_option (\<lambda>st. st\<lparr>st_pairing :=
         map_option (\<lambda>p. p\<lparr>pst_uri := u, pst_handle := h, pst_phrase := ph\<rparr>) (st_pairing st)\<rparr>) (ap_status a)\<rparr>"

definition credential_withheld :: "instant \<Rightarrow> nat \<Rightarrow> nat \<Rightarrow> popup_app \<Rightarrow> bool" where
  "credential_withheld now width height a \<longleftrightarrow>
     width < FLOOR_COLS \<or> height < floor_rows (popup_pairing_open a) \<or> ap_confirm a \<noteq> None \<or> ap_bridge_down a
     \<or> (case Option.bind (ap_status a) st_pairing of None \<Rightarrow> True
        | Some p \<Rightarrow> \<not> pst_registered p \<or> secs (pst_expires_in_s p) < now - ap_status_fetched_at a)"

lemma with_credential_simps [simp]:
  "devices (with_credential u h ph a) = devices a" "ap_confirm (with_credential u h ph a) = ap_confirm a"
  "ap_bridge_down (with_credential u h ph a) = ap_bridge_down a" "popup_pairing_open (with_credential u h ph a) = popup_pairing_open a"
  "shown_origin (with_credential u h ph a) = shown_origin a" "ap_notice (with_credential u h ph a) = ap_notice a"
  "ap_selected (with_credential u h ph a) = ap_selected a" "ap_loading (with_credential u h ph a) = ap_loading a"
  "drop_shown_notice (with_credential u h ph a) = with_credential u h ph (drop_shown_notice a)"
  "title_lines (with_credential u h ph a) = title_lines a"
  by (cases "ap_status a"; simp add: with_credential_def devices_def popup_pairing_open_def shown_origin_def drop_shown_notice_def
      title_lines_def Let_def)+

lemma with_credential_None [simp]: "ap_status a = None \<Longrightarrow> ap_status (with_credential u h ph a) = None"
  by (simp add: with_credential_def)

lemma with_credential_view:
  assumes "case Option.bind (ap_status a) st_pairing of None \<Rightarrow> True
    | Some p \<Rightarrow> \<not> pst_registered p \<or> secs (pst_expires_in_s p) < now - ap_status_fetched_at a"
  shows "the_pairing_view qr_of now (with_credential u h ph a) = the_pairing_view qr_of now a"
    "Option.bind (the_pairing_view qr_of now a) pv_credential = None"
proof -
  have f: "ap_status_fetched_at (with_credential u h ph a) = ap_status_fetched_at a" by (simp add: with_credential_def)
  have p: "Option.bind (ap_status (with_credential u h ph a)) st_pairing =
      map_option (\<lambda>p. p\<lparr>pst_uri := u, pst_handle := h, pst_phrase := ph\<rparr>) (Option.bind (ap_status a) st_pairing)"
    by (cases "ap_status a") (simp_all add: with_credential_def)
  have "the_pairing_view qr_of now (with_credential u h ph a) = the_pairing_view qr_of now a
    \<and> Option.bind (the_pairing_view qr_of now a) pv_credential = None"
  proof (cases "Option.bind (ap_status a) st_pairing")
    case None
    then show ?thesis by (simp add: the_pairing_view_def p)
  next
    case (Some ps)
    then show ?thesis using assms by (simp add: the_pairing_view_def p f credential_of_def)
  qed
  then show "the_pairing_view qr_of now (with_credential u h ph a) = the_pairing_view qr_of now a"
    "Option.bind (the_pairing_view qr_of now a) pv_credential = None" by simp_all
qed

lemma with_credential_pane:
  assumes "the_pairing_view qr_of now (with_credential u h ph a) = the_pairing_view qr_of now a"
    "Option.bind (the_pairing_view qr_of now a) pv_credential = None"
  shows "snd (draw_pane te qr_of split width height now wall_now (st\<lparr>st_pairing := p\<rparr>) (with_credential u h ph a)) =
    snd (draw_pane te qr_of split width height now wall_now st a)"
proof -
  let ?v = "the_pairing_view qr_of now a" and ?st = "st\<lparr>st_pairing := p\<rparr>"
  define b where "b = notice_expiry qr_of now a"
  have e: "notice_expiry qr_of now (with_credential u h ph a) = with_credential u h ph b"
    by (auto simp: b_def notice_expiry_def assms(1)) (auto simp: with_credential_def set_notice_def)
  have u: "use_empty_message v ?st (with_credential u h ph b) = use_empty_message v st b"
    "idle_hint v ?st (with_credential u h ph b) = idle_hint v st b"
    "detail_of (with_credential u h ph b) ?st f = detail_of b st f" for v f
    by (simp_all add: use_empty_message_def idle_hint_def detail_of_def selected_device_def)
  have c: "chosen_regions v ?st (with_credential u h ph b) width height = chosen_regions v st b width height" for v
    by (simp add: chosen_regions_def regions_of_def u)
  have t: "top_lines te (with_credential u h ph b) ?v q f t width = top_lines te b ?v q f t width" for q f t
    using assms(2) by (auto simp: top_lines_def bind_eq_None_conv split: option.split)
  have l: "bottom_lines te (with_credential u h ph b) = bottom_lines te b"
    by (intro ext) (simp add: bottom_lines_def)
  have r: "table_rows te (with_credential u h ph b) ?st = table_rows te b st"
    by (intro ext) (simp add: table_rows_def)
  show ?thesis
    by (simp add: draw_pane_def Let_def e assms(1) u c t l r b_def [symmetric] split: prod.split)
qed

text \<open>C6: while the pairing is still registering or its time is over, while a question is open, the pane is too small
  or the bridge is gone, the frame does not depend on the address, the code or the phrase of the pairing: with any
  other values in their place the same frame is drawn.\<close>

theorem credential_hidden:
  assumes "credential_withheld now width height a"
  shows "snd (draw te qr_of split width height now wall_now (with_credential u h ph a)) =
    snd (draw te qr_of split width height now wall_now a)"
proof -
  let ?b = "drop_shown_notice a"
  have s: "ap_status ?b = ap_status a" "ap_confirm ?b = ap_confirm a" "ap_bridge_down ?b = ap_bridge_down a"
    "ap_status_fetched_at ?b = ap_status_fetched_at a" "popup_pairing_open ?b = popup_pairing_open a"
    by (simp_all add: drop_shown_notice_def popup_pairing_open_def)
  show ?thesis
  proof (cases "width < FLOOR_COLS \<or> height < floor_rows (popup_pairing_open a) \<or> ap_confirm a \<noteq> None \<or> ap_bridge_down a \<or> ap_status a = None")
    case True
    then show ?thesis
      by (auto simp: draw_def Let_def s split: option.split bool.split)
  next
    case False
    then obtain st where st: "ap_status a = Some st" by blast
    have v: "case Option.bind (ap_status ?b) st_pairing of None \<Rightarrow> True
        | Some p \<Rightarrow> \<not> pst_registered p \<or> secs (pst_expires_in_s p) < now - ap_status_fetched_at ?b"
      using assms False unfolding credential_withheld_def s by simp
    have p: "snd (draw_pane te qr_of split width height now wall_now (st\<lparr>st_pairing := p\<rparr>) (with_credential u h ph ?b)) =
        snd (draw_pane te qr_of split width height now wall_now st ?b)" for p
      by (rule with_credential_pane) (rule with_credential_view [OF v])+
    have "ap_status (with_credential u h ph ?b) =
        Some (st\<lparr>st_pairing := map_option (\<lambda>p. p\<lparr>pst_uri := u, pst_handle := h, pst_phrase := ph\<rparr>) (st_pairing st)\<rparr>)"
      using st s by (simp add: with_credential_def)
    then show ?thesis using False st p by (simp add: draw_def Let_def s case_prod_beta)
  qed
qed

section \<open>Witnesses\<close>

definition sample_status :: host_status where
  "sample_status = \<lparr>st_relay_origin = ''https://x'', st_link = \<lparr>ls_state = Idle, ls_attempt = 0, ls_error = None\<rparr>,
     st_pairing = Some \<lparr>pst_registered = False, pst_uri = None, pst_phrase = None, pst_handle = None, pst_expires_in_s = 600\<rparr>,
     st_devices = [sample_row]\<rparr>"

definition sample_app :: popup_app where
  "sample_app = (popup_new 0)\<lparr>ap_status := Some sample_status\<rparr>"

definition thirds :: "nat \<Rightarrow> nat \<Rightarrow> nat \<Rightarrow> nat \<times> nat \<times> nat" where "thirds t b h = (t, h - (t + b), b)"

theorem pane_fits_witness:
  "\<exists>p. snd (draw sample_text_env (\<lambda>_. None) thirds 80 24 0 0 sample_app) = DrawnPane p \<and> length (pn_top p) + length (pn_bottom p) \<le> 24"
proof -
  have d: "drop_shown_notice sample_app = sample_app" by (simp add: drop_shown_notice_def sample_app_def popup_new_def)
  have "\<exists>p. snd (draw sample_text_env (\<lambda>_. None) thirds 80 24 0 0 sample_app) = DrawnPane p"
    by (simp add: draw_def d Let_def case_prod_beta FLOOR_COLS_def floor_rows_def PAIRING_FLOOR_ROWS_def IDLE_FLOOR_ROWS_def)
       (simp add: sample_app_def popup_new_def case_prod_beta)
  then obtain p where p: "snd (draw sample_text_env (\<lambda>_. None) thirds 80 24 0 0 sample_app) = DrawnPane p" ..
  have "Option.bind (the_pairing_view (\<lambda>_. None) 0 sample_app) pv_credential = None"
    by (simp add: the_pairing_view_def sample_app_def sample_status_def popup_new_def credential_of_def)
  then have "wrapped_rows sample_text_env sample_app (the_pairing_view (\<lambda>_. None) 0 sample_app) 80 = 0"
    by (simp add: wrapped_rows_def)
  from pane_fits [OF p this] p show ?thesis
    by (auto simp: floor_rows_def PAIRING_FLOOR_ROWS_def IDLE_FLOOR_ROWS_def)
qed

theorem credential_hidden_witness:
  "snd (draw sample_text_env (\<lambda>_. None) thirds 80 24 0 0 (with_credential (Some ''secret'') None None sample_app)) =
    snd (draw sample_text_env (\<lambda>_. None) thirds 80 24 0 0 sample_app)"
proof -
  have "credential_withheld 0 80 24 sample_app" by (simp add: credential_withheld_def sample_app_def sample_status_def)
  then show ?thesis by (rule credential_hidden)
qed

end
