(* ===== verification/Popup_Loop.thy ===== *)
theory Popup_Loop
  imports Popup_Frame
begin

text \<open>
  \<open>herdr-relay/src/popup.rs\<close>, the interactive loop: every pass draws a frame, reloads when the cadence is due and
  handles at most one key. A run of the loop is a sequence of passes; the keys pressed, each with the state of the
  pane it met, are its history.
\<close>

section \<open>Passes\<close>

text \<open>What one pass reads: the size of the terminal, the clocks in the order they are read, and a key press if there
  was one.\<close>

record pass_input =
  pi_width :: nat
  pi_height :: nat
  pi_now :: instant
  pi_wall :: int
  pi_elapsed :: instant
  pi_refresh :: instant
  pi_refreshed :: instant
  pi_key :: "key_code option"
  pi_key_now :: instant
  pi_key_reload :: instant

definition cadence :: "popup_app \<Rightarrow> duration" where
  "cadence a = (if popup_pairing_open a then secs 1 div 2 else secs 2)"

definition refresh_due :: "pass_input \<Rightarrow> instant \<Rightarrow> popup_app \<Rightarrow> bool" where
  "refresh_due inp last_refresh a \<longleftrightarrow> cadence a \<le> pi_elapsed inp - last_refresh"

definition draw_and_poll ::
  "text_env \<Rightarrow> (nat \<Rightarrow> nat \<Rightarrow> nat \<Rightarrow> nat \<times> nat \<times> nat) \<Rightarrow> 'w popup_io \<Rightarrow> pass_input \<Rightarrow> popup_app \<times> instant \<times> 'w \<Rightarrow>
     (popup_app \<times> instant \<times> 'w) \<times> drawn" where
  "draw_and_poll te split io inp s =
     (case s of (a, last_refresh, w) \<Rightarrow>
      case draw te (po_qr io) split (pi_width inp) (pi_height inp) (pi_now inp) (pi_wall inp) a of (a1, d) \<Rightarrow>
        (if refresh_due inp last_refresh a1
         then case refresh_at io (pi_refresh inp) (a1, w) of (a2, w2) \<Rightarrow> ((a2, pi_refreshed inp, w2), d)
         else ((a1, last_refresh, w), d)))"

definition popup_pass ::
  "text_env \<Rightarrow> (nat \<Rightarrow> nat \<Rightarrow> nat \<Rightarrow> nat \<times> nat \<times> nat) \<Rightarrow> 'w popup_io \<Rightarrow> pass_input \<Rightarrow> popup_app \<times> instant \<times> 'w \<Rightarrow>
     (popup_app \<times> instant \<times> 'w) \<times> key_outcome \<times> drawn" where
  "popup_pass te split io inp s =
     (case draw_and_poll te split io inp s of ((a, last_refresh, w), d) \<Rightarrow>
      case pi_key inp of
        None \<Rightarrow> ((a, last_refresh, w), KeyContinue, d)
      | Some key \<Rightarrow>
          (case handle_key io key (pi_key_now inp) (pi_key_reload inp) (a, w) of
             ((a1, w1), outcome) \<Rightarrow> ((a1, last_refresh, w1), outcome, d)))"

text \<open>The loop over the passes it makes; the flag says that a key ended it.\<close>

fun run_loop ::
  "text_env \<Rightarrow> (nat \<Rightarrow> nat \<Rightarrow> nat \<Rightarrow> nat \<times> nat \<times> nat) \<Rightarrow> 'w popup_io \<Rightarrow> pass_input list \<Rightarrow> popup_app \<times> instant \<times> 'w \<Rightarrow>
     (popup_app \<times> instant \<times> 'w) \<times> bool" where
  "run_loop te split io [] s = (s, False)"
| "run_loop te split io (inp # inps) s =
     (case popup_pass te split io inp s of
        (s1, KeyQuit, d) \<Rightarrow> (s1, True)
      | (s1, KeyContinue, d) \<Rightarrow> run_loop te split io inps s1)"

definition load_live :: "'w popup_io \<Rightarrow> instant \<Rightarrow> instant \<Rightarrow> 'w \<Rightarrow> popup_app \<times> 'w" where
  "load_live io now now' w = refresh_at io now' (popup_new now, w)"

section \<open>Runs and their history\<close>

text \<open>The keys of a run, each with the pane it was pressed in.\<close>

definition keyed ::
  "text_env \<Rightarrow> (nat \<Rightarrow> nat \<Rightarrow> nat \<Rightarrow> nat \<times> nat \<times> nat) \<Rightarrow> 'w popup_io \<Rightarrow> pass_input \<Rightarrow> popup_app \<times> instant \<times> 'w \<Rightarrow>
     (popup_app \<times> key_code) list" where
  "keyed te split io inp s =
     (case pi_key inp of None \<Rightarrow> [] | Some key \<Rightarrow> [(fst (fst (draw_and_poll te split io inp s)), key)])"

inductive popup_reaches ::
  "text_env \<Rightarrow> (nat \<Rightarrow> nat \<Rightarrow> nat \<Rightarrow> nat \<times> nat \<times> nat) \<Rightarrow> 'w popup_io \<Rightarrow> 'w \<Rightarrow> (popup_app \<times> key_code) list \<Rightarrow>
     popup_app \<times> instant \<times> 'w \<Rightarrow> key_outcome \<Rightarrow> bool"
  for te split io w0 where
  loaded: "load_live io now now' w0 = (a, w) \<Longrightarrow> popup_reaches te split io w0 [] (a, last_refresh, w) KeyContinue"
| passed: "popup_reaches te split io w0 h s KeyContinue \<Longrightarrow> popup_pass te split io inp s = (s', outcome, d) \<Longrightarrow>
    popup_reaches te split io w0 (h @ keyed te split io inp s) s' outcome"

text \<open>Every run of the loop from a loaded pane is such a run.\<close>

lemma run_loop_reaches:
  "popup_reaches te split io w0 h s KeyContinue \<Longrightarrow> run_loop te split io inps s = (s', q) \<Longrightarrow>
    \<exists>h'. popup_reaches te split io w0 (h @ h') s' (if q then KeyQuit else KeyContinue)"
proof (induction inps arbitrary: h s)
  case Nil
  then show ?case by (intro exI [of _ "[]"]) auto
next
  case (Cons inp inps)
  obtain s1 outcome d where p: "popup_pass te split io inp s = (s1, outcome, d)" by (cases "popup_pass te split io inp s") auto
  note r = passed [OF Cons.prems(1) p]
  show ?case
  proof (cases outcome)
    case KeyContinue
    then show ?thesis using Cons.IH [of "h @ keyed te split io inp s" s1] Cons.prems(2) r p by auto
  next
    case KeyQuit
    then show ?thesis using Cons.prems(2) r p by auto
  qed
qed

section \<open>What drawing and polling leave alone\<close>

lemma draw_result:
  "\<exists>b t. fst (draw te qr_of split width height now wall_now a) = mark_notice_shown (b\<lparr>ap_table_visible := t\<rparr>)
    \<and> (b = drop_shown_notice a \<or> b = notice_expiry qr_of now (drop_shown_notice a))"
proof -
  let ?b = "drop_shown_notice a"
  have self: "?b = ?b\<lparr>ap_table_visible := ap_table_visible ?b\<rparr>" by simp
  have pane: "\<exists>t. fst (draw_pane te qr_of split width height now wall_now st ?b) = (notice_expiry qr_of now ?b)\<lparr>ap_table_visible := t\<rparr>" for st
    by (simp add: draw_pane_def Let_def case_prod_beta) blast
  consider "width < FLOOR_COLS \<or> height < floor_rows (popup_pairing_open ?b)"
    | pending where "\<not> (width < FLOOR_COLS \<or> height < floor_rows (popup_pairing_open ?b))" "ap_confirm ?b = Some pending"
    | "\<not> (width < FLOOR_COLS \<or> height < floor_rows (popup_pairing_open ?b))" "ap_confirm ?b = None" "ap_bridge_down ?b \<or> ap_status ?b = None"
    | st where "\<not> (width < FLOOR_COLS \<or> height < floor_rows (popup_pairing_open ?b))" "ap_confirm ?b = None" "\<not> ap_bridge_down ?b"
        "ap_status ?b = Some st"
    by (cases "ap_confirm ?b"; cases "ap_status ?b") blast+
  then show ?thesis
  proof cases
    case 1
    then have "fst (draw te qr_of split width height now wall_now a) = mark_notice_shown (?b\<lparr>ap_table_visible := False\<rparr>)"
      by (simp add: draw_def Let_def)
    then show ?thesis by blast
  next
    case 2
    then have "fst (draw te qr_of split width height now wall_now a) = mark_notice_shown ?b" by (simp add: draw_def Let_def)
    then show ?thesis using self by metis
  next
    case 3
    then have "fst (draw te qr_of split width height now wall_now a) = mark_notice_shown (?b\<lparr>ap_table_visible := False\<rparr>)"
      by (cases "ap_status ?b"; cases "ap_bridge_down ?b"; simp add: draw_def Let_def)
    then show ?thesis by blast
  next
    case (4 st)
    then have "fst (draw te qr_of split width height now wall_now a) =
        mark_notice_shown (fst (draw_pane te qr_of split width height now wall_now st ?b))"
      by (simp add: draw_def Let_def case_prod_beta)
    then show ?thesis using pane [of st] by metis
  qed
qed

lemma drop_keeps [simp]:
  "ap_confirm (drop_shown_notice a) = ap_confirm a" "ap_status (drop_shown_notice a) = ap_status a"
  "ap_selected (drop_shown_notice a) = ap_selected a" "ap_expiry_noticed (drop_shown_notice a) = ap_expiry_noticed a"
  by (simp_all add: drop_shown_notice_def)

lemma mark_keeps [simp]:
  "ap_confirm (mark_notice_shown a) = ap_confirm a" "ap_status (mark_notice_shown a) = ap_status a"
  "ap_selected (mark_notice_shown a) = ap_selected a" "ap_expiry_noticed (mark_notice_shown a) = ap_expiry_noticed a"
  "ap_notice (mark_notice_shown a) = ap_notice a"
  by (simp_all add: mark_notice_shown_def)

lemma draw_keeps [simp]:
  "ap_confirm (fst (draw te qr_of split width height now wall_now a)) = ap_confirm a"
  "ap_status (fst (draw te qr_of split width height now wall_now a)) = ap_status a"
  "ap_selected (fst (draw te qr_of split width height now wall_now a)) = ap_selected a"
  using draw_result [of te qr_of split width height now wall_now a] by auto

lemma take_status_keeps [simp]: "ap_confirm (take_status qr_of now answer a) = ap_confirm a"
  "ap_expiry_noticed (take_status qr_of now answer a) = ap_expiry_noticed a"
  by (auto simp: take_status_def bridge_gone_def set_notice_def clamp_selection_def Let_def split: sum.split)

lemma refresh_keeps [simp]:
  "ap_confirm (fst (refresh_at io now aw)) = ap_confirm (fst aw)"
  "ap_expiry_noticed (fst (refresh_at io now aw)) = ap_expiry_noticed (fst aw)"
  by (simp_all add: refresh_at_def case_prod_beta)

lemma send_keeps [simp]:
  "ap_confirm (fst (fst (send_command io cmd aw))) = ap_confirm (fst aw)"
  "ap_expiry_noticed (fst (fst (send_command io cmd aw))) = ap_expiry_noticed (fst aw)"
  "ap_selected (fst (fst (send_command io cmd aw))) = ap_selected (fst aw)"
  by (auto simp: send_command_def bridge_gone_def set_notice_def split: prod.split sum.split)

lemma send_devices: "devices (fst (fst (send_command io cmd aw))) = devices (fst aw) \<or> devices (fst (fst (send_command io cmd aw))) = []"
  by (auto simp: send_command_def bridge_gone_def set_notice_def devices_def split: prod.split sum.split)

lemma set_notice_keeps [simp]:
  "ap_confirm (set_notice tx a) = ap_confirm a" "ap_expiry_noticed (set_notice tx a) = ap_expiry_noticed a"
  by (simp_all add: set_notice_def)

lemma draw_and_poll_eq:
  "draw_and_poll te split io inp (a, l, w) =
     (let r = draw te (po_qr io) split (pi_width inp) (pi_height inp) (pi_now inp) (pi_wall inp) a
      in (if refresh_due inp l (fst r)
          then (case refresh_at io (pi_refresh inp) (fst r, w) of (a2, w2) \<Rightarrow> (a2, pi_refreshed inp, w2)) else (fst r, l, w), snd r))"
  by (simp add: draw_and_poll_def Let_def case_prod_beta)

lemma pass_cases:
  "popup_pass te split io inp s =
     (case draw_and_poll te split io inp s of ((a, l, w), d) \<Rightarrow>
        (case pi_key inp of
           None \<Rightarrow> ((a, l, w), KeyContinue, d)
         | Some key \<Rightarrow>
             (case handle_key io key (pi_key_now inp) (pi_key_reload inp) (a, w) of ((a1, w1), outcome) \<Rightarrow> ((a1, l, w1), outcome, d))))"
  by (simp add: popup_pass_def)

section \<open>What a key does\<close>

text \<open>The question a key opens, the command a key sends.\<close>

definition asked :: "popup_app \<Rightarrow> key_code \<Rightarrow> pending_action option" where
  "asked a key =
     (if ap_confirm a \<noteq> None then None
      else if key = KeyChar ''d'' then
        (if ap_table_visible a then map_option (\<lambda>d. RemoveOne (dr_device_id d) (dr_device_name d)) (selected_device a) else None)
      else if key = KeyChar ''r'' then if devices a \<noteq> [] then Some (RemoveAll (length (devices a))) else None
      else if key = KeyChar ''s'' then if popup_stopped a then None else Some StopRelay
      else None)"

fun action_command :: "pending_action \<Rightarrow> control_command" where
  "action_command (RemoveOne device_id device_name) = CmdRevoke device_id"
| "action_command (RemoveAll n) = CmdRevokeAll"
| "action_command StopRelay = CmdStop"

definition commanded :: "popup_app \<Rightarrow> key_code \<Rightarrow> control_command list" where
  "commanded a key =
     (case ap_confirm a of
        Some pending \<Rightarrow> if key = KeyChar ''y'' then [action_command pending] else []
      | None \<Rightarrow>
          if key = KeyChar ''p'' then [CmdOpenPairing]
          else if (key = KeyChar ''q'' \<or> key = KeyEsc) \<and> popup_pairing_open a then [CmdClosePairing]
          else [])"

text \<open>A bridge that also keeps the commands it was sent.\<close>

definition logging :: "'v popup_io \<Rightarrow> ('v \<times> control_command list) popup_io" where
  "logging io =
     \<lparr>po_status = (\<lambda>(v, log). case po_status io v of (v', r) \<Rightarrow> ((v', log), r)),
      po_command = (\<lambda>cmd (v, log). case po_command io cmd v of (v', r) \<Rightarrow> ((v', log @ [cmd]), r)),
      po_copy = (\<lambda>tx (v, log). case po_copy io tx v of (v', r) \<Rightarrow> ((v', log), r)),
      po_qr = po_qr io\<rparr>"

definition log_of :: "popup_app \<times> ('v \<times> control_command list) \<Rightarrow> control_command list" where
  "log_of aw = snd (snd aw)"

lemma log_Pair [simp]: "log_of (a, v, log) = log" by (simp add: log_of_def)

lemma log_refresh [simp]: "log_of (refresh_at (logging io) now aw) = log_of aw"
  by (cases aw) (simp add: refresh_at_def logging_def log_of_def case_prod_beta)

lemma log_send [simp]: "log_of (fst (send_command (logging io) cmd aw)) = log_of aw @ [cmd]"
  by (cases aw) (auto simp: send_command_def logging_def log_of_def case_prod_beta split: sum.split)

lemma log_copy [simp]: "log_of (copy_pairing (logging io) now aw) = log_of aw"
  by (cases aw) (auto simp: copy_pairing_def logging_def log_of_def case_prod_beta split: option.split sum.split)

lemma log_update: "log_of (case aw of (a, w) \<Rightarrow> (f a, w)) = log_of aw"
  by (simp add: log_of_def case_prod_beta)

lemma log_confirm: "log_of (confirm_action (logging io) now pending aw) = log_of aw @ [action_command pending]"
proof -
  have "log_of (case send_command (logging io) cmd aw of
      (aw1, True) \<Rightarrow> (case refresh_at (logging io) now aw1 of (a, w) \<Rightarrow> (set_notice tx a, w)) | (aw1, False) \<Rightarrow> aw1) = log_of aw @ [cmd]" for cmd tx
    by (cases "send_command (logging io) cmd aw"; cases "snd (send_command (logging io) cmd aw)")
       (use log_send [of io cmd aw] in \<open>simp_all add: log_update [of "set_notice tx"]\<close>)
  then show ?thesis by (cases pending) simp_all
qed

lemma log_quit: "log_of (quit_popup (logging io) aw) = log_of aw @ (if popup_pairing_open (fst aw) then [CmdClosePairing] else [])"
  using log_send [of io CmdClosePairing aw] by (auto simp: quit_popup_def log_of_def split: prod.split)

text \<open>Every key sends the commands \<open>commanded\<close> names and no other, and opens the question \<open>asked\<close> names.\<close>

lemma key_log: "log_of (fst (handle_key (logging io) key now now' aw)) = log_of aw @ commanded (fst aw) key"
proof -
  obtain a w where aw: "aw = (a, w)" by (cases aw)
  show ?thesis
  proof (cases "ap_confirm a")
    case (Some pending)
    then show ?thesis by (auto simp: aw handle_key_def commanded_def Let_def log_confirm) (simp_all add: log_of_def)
  next
    case None
    have r: "log_of (case refresh_at (logging io) now' (a\<lparr>ap_loading := True\<rparr>, w) of (a1, w1) \<Rightarrow> (a1\<lparr>ap_loading := False\<rparr>, w1)) = log_of (a, w)"
      using log_refresh [of io now' "(a\<lparr>ap_loading := True\<rparr>, w)"] by (simp add: log_of_def case_prod_beta)
    have x: "log_of (b, w) = log_of (a, w)" for b :: popup_app by (simp add: log_of_def)
    have k: "log_of (fst (handle_key (logging io) key now now' (a, w))) = log_of (a, w) @ commanded a key"
      unfolding handle_key_def commanded_def prod.case None option.case
      by (simp add: r log_quit popup_open_pairing_def x [of "move_selection d a" for d])
         (auto simp: log_of_def)
    then show ?thesis by (simp add: aw)
  qed
qed

lemma key_confirm: "ap_confirm (fst (fst (handle_key io key now now' aw))) = asked (fst aw) key"
proof -
  obtain a w where aw: "aw = (a, w)" by (cases aw)
  have h: "ap_confirm (hide_pairing b) = ap_confirm b" "ap_confirm (move_selection d b) = ap_confirm b" for b d
    by (simp_all add: hide_pairing_def move_selection_def)
  have c: "ap_confirm (fst (confirm_action io now' pending bw)) = ap_confirm (fst bw)" for pending bw
    by (cases pending; cases "send_command io (action_command pending) bw"; cases "snd (send_command io (action_command pending) bw)")
       (use send_keeps(1) [of io "action_command pending" bw] in \<open>simp_all add: case_prod_beta\<close>)
  have q: "ap_confirm (fst (quit_popup io aw)) = ap_confirm a"
    using send_keeps(1) [of io CmdClosePairing aw] by (simp add: quit_popup_def case_prod_beta h aw)
  have cp: "ap_confirm (fst (copy_pairing io now aw)) = ap_confirm a"
    by (auto simp: copy_pairing_def aw split: option.split prod.split sum.split)
  show ?thesis
  proof (cases "ap_confirm a")
    case (Some pending)
    then show ?thesis by (simp add: aw handle_key_def asked_def Let_def c)
  next
    case None
    then show ?thesis using q cp
      by (auto simp: aw handle_key_def asked_def popup_open_pairing_def h case_prod_beta split: option.split)
  qed
qed

section \<open>Questions\<close>

definition destructive :: "control_command \<Rightarrow> bool" where
  "destructive cmd \<longleftrightarrow> (case cmd of CmdRevoke i \<Rightarrow> True | CmdRevokeAll \<Rightarrow> True | CmdStop \<Rightarrow> True | _ \<Rightarrow> False)"

definition consented :: "(popup_app \<times> key_code) list \<Rightarrow> control_command \<Rightarrow> bool" where
  "consented h cmd \<longleftrightarrow>
     (\<exists>h1 b key b' h2 pending. h = h1 @ [(b, key), (b', KeyChar ''y'')] @ h2 \<and> asked b key = Some pending \<and> action_command pending = cmd)"

lemma consented_append: "consented h cmd \<Longrightarrow> consented (h @ h') cmd"
  by (auto simp: consented_def) (metis append.assoc append_Cons)

definition question_ok :: "(popup_app \<times> key_code) list \<Rightarrow> popup_app \<Rightarrow> bool" where
  "question_ok h a \<longleftrightarrow> (case ap_confirm a of None \<Rightarrow> True | Some pending \<Rightarrow> h \<noteq> [] \<and> asked (fst (last h)) (snd (last h)) = Some pending)"

definition log_ok :: "(popup_app \<times> key_code) list \<Rightarrow> control_command list \<Rightarrow> bool" where
  "log_ok h log \<longleftrightarrow> (\<forall>cmd \<in> set log. destructive cmd \<longrightarrow> consented h cmd)"

lemma drawn_and_polled:
  assumes "draw_and_poll te split (logging io) inp (a, l, v, log) = ((a', l', v', log'), d)"
  shows "log' = log" "ap_confirm a' = ap_confirm a"
proof -
  let ?r = "draw te (po_qr (logging io)) split (pi_width inp) (pi_height inp) (pi_now inp) (pi_wall inp) a"
  have e: "(a', v', log') = (if refresh_due inp l (fst ?r) then refresh_at (logging io) (pi_refresh inp) (fst ?r, v, log) else (fst ?r, v, log))"
    using assms by (auto simp: draw_and_poll_eq Let_def case_prod_beta split: if_splits intro: prod_eqI)
  have "log_of (a', v', log') = log" "ap_confirm (fst (a', v', log')) = ap_confirm a"
    unfolding e by simp_all
  then show "log' = log" "ap_confirm a' = ap_confirm a" by simp_all
qed

lemma question_key:
  assumes "question_ok h a" "log_ok h log"
    and "handle_key (logging io) key now now' (a, v, log) = ((a', v', log'), outcome)"
  shows "question_ok (h @ [(a, key)]) a'" "log_ok (h @ [(a, key)]) log'"
proof -
  have c: "ap_confirm a' = asked a key" using key_confirm [of "logging io" key now now' "(a, v, log)"] assms(3) by simp
  then show "question_ok (h @ [(a, key)]) a'" by (simp add: question_ok_def split: option.split)
  have l: "log' = log @ commanded a key" using key_log [of io key now now' "(a, v, log)"] assms(3) by simp
  have "consented (h @ [(a, key)]) cmd" if cmd: "cmd \<in> set (commanded a key)" "destructive cmd" for cmd
  proof -
    obtain pending where p: "ap_confirm a = Some pending" "key = KeyChar ''y''" "cmd = action_command pending"
      using cmd by (cases "ap_confirm a") (auto simp: commanded_def destructive_def split: if_splits)
    then obtain h1 b k where "h = h1 @ [(b, k)]" "asked b k = Some pending"
      using assms(1) by (cases h rule: rev_cases) (auto simp: question_ok_def)
    then show ?thesis using p unfolding consented_def
      by (intro exI [of _ h1] exI [of _ b] exI [of _ k] exI [of _ a] exI [of _ "[]"] exI [of _ pending]) simp
  qed
  then show "log_ok (h @ [(a, key)]) log'" using assms(2) l by (auto simp: log_ok_def intro: consented_append)
qed

lemma question_pass:
  assumes "question_ok h a" "log_ok h log"
    and "popup_pass te split (logging io) inp (a, l, v, log) = ((a', l', v', log'), outcome, d)"
  shows "question_ok (h @ keyed te split (logging io) inp (a, l, v, log)) a' \<and> log_ok (h @ keyed te split (logging io) inp (a, l, v, log)) log'"
proof -
  obtain b lb vb logb db where b: "draw_and_poll te split (logging io) inp (a, l, v, log) = ((b, lb, vb, logb), db)"
    by (cases "draw_and_poll te split (logging io) inp (a, l, v, log)") auto
  note p = drawn_and_polled [OF b]
  have qb: "question_ok h b" "log_ok h logb" using assms(1,2) p by (simp_all add: question_ok_def)
  show ?thesis
  proof (cases "pi_key inp")
    case None
    then show ?thesis using assms(3) b qb by (simp add: popup_pass_def keyed_def)
  next
    case (Some key)
    obtain r where r: "handle_key (logging io) key (pi_key_now inp) (pi_key_reload inp) (b, vb, logb) = ((a', v', log'), r)"
      using assms(3) b Some by (auto simp: popup_pass_def split: prod.splits)
    show ?thesis using question_key [OF qb r] by (simp add: keyed_def Some b)
  qed
qed


section \<open>The selection\<close>

definition selection_ok :: "popup_app \<Rightarrow> bool" where
  "selection_ok a \<longleftrightarrow> (devices a \<noteq> [] \<longrightarrow> ap_selected a < length (devices a))"

lemma devices_draw [simp]: "devices (fst (draw te qr_of split width height now wall_now a)) = devices a"
  by (simp add: devices_def)

lemma selection_upd [simp]:
  "selection_ok (set_notice tx a) = selection_ok a" "selection_ok (a\<lparr>ap_confirm := c\<rparr>) = selection_ok a"
  "selection_ok (a\<lparr>ap_loading := f\<rparr>) = selection_ok a" "selection_ok (hide_pairing a) = selection_ok a"
  "selection_ok (fst (draw te qr_of split width height now wall_now a)) = selection_ok a"
  by (auto simp: selection_ok_def set_notice_def devices_def hide_pairing_def split: option.split)

lemma selection_refresh [intro]: "selection_ok (fst aw) \<Longrightarrow> selection_ok (fst (refresh_at io now aw))"
  by (auto simp: selection_ok_def refresh_at_def take_status_def bridge_gone_def set_notice_def clamp_selection_def devices_def
      Let_def case_prod_beta split: sum.split)

lemma selection_send [intro]: "selection_ok (fst aw) \<Longrightarrow> selection_ok (fst (fst (send_command io cmd aw)))"
  using send_devices [of io cmd aw] by (auto simp: selection_ok_def)

lemma selection_move [intro]: "selection_ok a \<Longrightarrow> selection_ok (move_selection d a)"
  by (auto simp: selection_ok_def move_selection_def devices_def split: option.splits)

lemma selection_confirm [intro]: "selection_ok (fst aw) \<Longrightarrow> selection_ok (fst (confirm_action io now pending aw))"
proof -
  assume a: "selection_ok (fst aw)"
  have "selection_ok (fst (case send_command io cmd aw of
      (aw1, True) \<Rightarrow> (case refresh_at io now aw1 of (a, w) \<Rightarrow> (set_notice tx a, w)) | (aw1, False) \<Rightarrow> aw1))" for cmd tx
    using selection_send [OF a, of io cmd] selection_refresh [OF selection_send [OF a, of io cmd], of io now]
    by (cases "send_command io cmd aw"; cases "snd (send_command io cmd aw)") (simp_all add: case_prod_beta)
  then show ?thesis using a by (cases pending) auto
qed

lemma selection_key:
  assumes "selection_ok (fst aw)"
  shows "selection_ok (fst (fst (handle_key io key now now' aw)))"
proof -
  obtain a w where aw: "aw = (a, w)" by (cases aw)
  have q: "selection_ok (fst (quit_popup io aw))"
    using assms selection_send [OF assms, of io CmdClosePairing] by (simp add: quit_popup_def case_prod_beta)
  have cp: "selection_ok (fst (copy_pairing io now aw))"
    using assms by (auto simp: copy_pairing_def split: option.split prod.split sum.split)
  have f: "selection_ok (fst (refresh_at io now' (a\<lparr>ap_loading := True\<rparr>, w)))" using assms by (auto simp: aw)
  have m: "selection_ok (move_selection d a)" for d using assms by (auto simp: aw)
  have p: "selection_ok (fst (popup_open_pairing io now' aw))" using assms by (auto simp: popup_open_pairing_def)
  have y: "selection_ok (fst (confirm_action io now' pending (a\<lparr>ap_confirm := None\<rparr>, w)))" for pending
    using assms by (auto simp: aw)
  show ?thesis
  proof (cases "ap_confirm a")
    case (Some pending)
    then show ?thesis using assms y by (simp add: aw handle_key_def Let_def)
  next
    case None
    then show ?thesis using assms q cp f m p
      by (auto simp: aw handle_key_def case_prod_beta split: option.split)
  qed
qed

lemma selection_pass:
  assumes "selection_ok (fst s)"
  shows "selection_ok (fst (fst (popup_pass te split io inp s)))"
proof -
  obtain a l w where s: "s = (a, l, w)" by (cases s) auto
  have "selection_ok (fst (fst (draw_and_poll te split io inp s)))"
    using assms selection_refresh [of "(fst (draw te (po_qr io) split (pi_width inp) (pi_height inp) (pi_now inp) (pi_wall inp) a), w)" io "pi_refresh inp"]
    by (simp add: s draw_and_poll_eq Let_def case_prod_beta)
  then show ?thesis
    using selection_key [of "(fst (fst (draw_and_poll te split io inp s)), snd (snd (fst (draw_and_poll te split io inp s))))" io]
    by (auto simp: popup_pass_def case_prod_beta split: option.split)
qed

text \<open>However the loop runs, the selection is one of the phones whenever there are any, so the phone \<open>d\<close> asks
  about is the one the table draws as selected.\<close>

theorem selection_in_range:
  assumes "popup_reaches te split io w0 h (a, l, w) outcome" "devices a \<noteq> []"
  shows "ap_selected a < length (devices a)"
proof -
  have "selection_ok (fst (a, l, w))"
    using assms(1)
  proof (induction h "(a, l, w)" outcome arbitrary: a l w rule: popup_reaches.induct)
    case (loaded now now' a w last_refresh)
    have "selection_ok (popup_new now)" by (simp add: selection_ok_def popup_new_def devices_def)
    then show ?case using selection_refresh [of "(popup_new now, w0)" io now'] loaded by (simp add: load_live_def)
  next
    case (passed h s inp outcome d a l w)
    then show ?case using selection_pass [of s te split io inp] by (cases s) simp
  qed
  then show ?thesis using assms(2) by (simp add: selection_ok_def)
qed

section \<open>Notices\<close>

lemma drop_mark: "ap_notice (drop_shown_notice (mark_notice_shown a)) = None"
  by (simp add: drop_shown_notice_def mark_notice_shown_def)

lemma notice_drawn_once: "ap_notice (drop_shown_notice (fst (draw te qr_of split width height now wall_now a))) = None"
  using draw_result [of te qr_of split width height now wall_now a] by (auto simp: drop_mark)

lemma refused_key_keeps_notice:
  assumes "ap_confirm a = Some pending" "key \<noteq> KeyChar ''y''"
  shows "handle_key io key now now' (a, w) = ((a\<lparr>ap_confirm := None\<rparr>, w), KeyContinue)"
  using assms by (simp add: handle_key_def Let_def)

lemma drop_confirm [simp]: "ap_notice (drop_shown_notice (a\<lparr>ap_confirm := c\<rparr>)) = ap_notice (drop_shown_notice a)"
  by (simp add: drop_shown_notice_def)

text \<open>A notice that is set when a question opens is lost: the pass that shows the question counts as the showing
  of the notice, and in the frame after the refusal there is none.\<close>

theorem notice_lost_behind_question:
  assumes "ap_confirm a = Some pending" "popup_pass te split io inp (a, l, w) = ((a', l', w'), outcome, d)"
    and "\<not> refresh_due inp l (fst (draw te (po_qr io) split (pi_width inp) (pi_height inp) (pi_now inp) (pi_wall inp) a))"
    and "pi_key inp \<noteq> Some (KeyChar ''y'')"
  shows "((\<exists>ls. d = DrawnTooSmall ls) \<or> d = DrawnQuestion (question pending)) \<and> ap_notice (drop_shown_notice a') = None"
proof -
  let ?r = "draw te (po_qr io) split (pi_width inp) (pi_height inp) (pi_now inp) (pi_wall inp) a"
  have p: "draw_and_poll te split io inp (a, l, w) = ((fst ?r, l, w), snd ?r)" using assms(3) by (simp add: draw_and_poll_eq Let_def)
  have c: "ap_confirm (fst ?r) = Some pending" using assms(1) by simp
  have "(a', w') = (fst ?r, w) \<or> (a', w') = ((fst ?r)\<lparr>ap_confirm := None\<rparr>, w)" and d: "d = snd ?r"
    using assms(2,4) refused_key_keeps_notice [OF c, of _ io "pi_key_now inp" "pi_key_reload inp" w]
    by (auto simp: popup_pass_def p split: option.splits)
  then have "ap_notice (drop_shown_notice a') = None" using notice_drawn_once [of te "po_qr io" split _ _ _ _ a] by auto
  moreover have "(\<exists>ls. d = DrawnTooSmall ls) \<or> d = DrawnQuestion (question pending)"
    using assms(1) by (auto simp: d draw_def Let_def)
  ultimately show ?thesis by blast
qed

lemma key_expiry: "ap_expiry_noticed (fst (fst (handle_key io key now now' aw))) = ap_expiry_noticed (fst aw)"
proof -
  obtain a w where aw: "aw = (a, w)" by (cases aw)
  have h: "ap_expiry_noticed (hide_pairing b) = ap_expiry_noticed b" "ap_expiry_noticed (move_selection d b) = ap_expiry_noticed b" for b d
    by (simp_all add: hide_pairing_def move_selection_def)
  have c: "ap_expiry_noticed (fst (confirm_action io now' pending bw)) = ap_expiry_noticed (fst bw)" for pending bw
    by (cases pending; cases "send_command io (action_command pending) bw"; cases "snd (send_command io (action_command pending) bw)")
       (use send_keeps(2) [of io "action_command pending" bw] in \<open>simp_all add: case_prod_beta\<close>)
  have q: "ap_expiry_noticed (fst (quit_popup io aw)) = ap_expiry_noticed a"
    using send_keeps(2) [of io CmdClosePairing aw] by (simp add: quit_popup_def case_prod_beta h aw)
  have cp: "ap_expiry_noticed (fst (copy_pairing io now aw)) = ap_expiry_noticed a"
    by (auto simp: copy_pairing_def aw split: option.split prod.split sum.split)
  show ?thesis
  proof (cases "ap_confirm a")
    case (Some pending)
    then show ?thesis by (simp add: aw handle_key_def Let_def c)
  next
    case None
    then show ?thesis using q cp
      by (auto simp: aw handle_key_def popup_open_pairing_def h case_prod_beta split: option.split)
  qed
qed

lemma draw_expiry:
  "ap_expiry_noticed a \<Longrightarrow> ap_expiry_noticed (fst (draw te qr_of split width height now wall_now a))"
  using draw_result [of te qr_of split width height now wall_now a] by (auto simp: notice_expiry_def)

lemma pass_expiry:
  assumes "ap_expiry_noticed (fst s)"
  shows "ap_expiry_noticed (fst (fst (popup_pass te split io inp s)))"
proof -
  obtain a l w where s: "s = (a, l, w)" by (cases s) auto
  have "ap_expiry_noticed (fst (fst (draw_and_poll te split io inp s)))"
    using assms by (simp add: s draw_and_poll_eq Let_def case_prod_beta draw_expiry)
  then show ?thesis
    using key_expiry [of io _ "pi_key_now inp" "pi_key_reload inp"]
    by (auto simp: popup_pass_def case_prod_beta split: option.split)
qed

lemma run_expiry: "ap_expiry_noticed (fst s) \<Longrightarrow> ap_expiry_noticed (fst (fst (run_loop te split io inps s)))"
proof (induction inps arbitrary: s)
  case (Cons inp inps)
  obtain s1 r d where p: "popup_pass te split io inp s = (s1, r, d)" by (cases "popup_pass te split io inp s") auto
  then have "ap_expiry_noticed (fst s1)" using pass_expiry [OF Cons.prems, of te split io inp] by simp
  then show ?case using Cons.IH by (simp add: p split: key_outcome.split)
qed simp

text \<open>A pane tells of one expired pairing in its life: once it has given the notice, then after every further
  run, whatever was paired in between, a frame of a pane with nothing else to say has no notice line, also when the
  pairing it showed has just expired.\<close>

theorem expiry_told_once:
  assumes "ap_expiry_noticed (fst s)" "run_loop te split io inps s = ((a, l, w), q)"
    and "ap_notice a = None \<or> ap_notice_shown a"
  shows "ap_notice (fst (draw te (po_qr io) split width height now wall_now a)) = None"
proof -
  have "ap_expiry_noticed a" using run_expiry [OF assms(1), of te split io inps] assms(2) by simp
  then have "notice_expiry (po_qr io) now (drop_shown_notice a) = drop_shown_notice a" by (simp add: notice_expiry_def)
  moreover have "ap_notice (drop_shown_notice a) = None" using assms(3) by (auto simp: drop_shown_notice_def)
  ultimately show ?thesis using draw_result [of te "po_qr io" split width height now wall_now a] by auto
qed

section \<open>Witnesses\<close>

definition sample_io :: "unit popup_io" where
  "sample_io = \<lparr>po_status = (\<lambda>v. (v, Ok sample_status)), po_command = (\<lambda>cmd v. (v, Ok JNull)),
     po_copy = (\<lambda>tx v. (v, Ok ())), po_qr = (\<lambda>_. None)\<rparr>"

definition sample_pass :: "string \<Rightarrow> pass_input" where
  "sample_pass key = \<lparr>pi_width = 0, pi_height = 0, pi_now = 0, pi_wall = 0, pi_elapsed = 0, pi_refresh = 0, pi_refreshed = 0,
     pi_key = Some (KeyChar key), pi_key_now = 0, pi_key_reload = 0\<rparr>"

definition sample_start :: "popup_app \<times> instant \<times> (unit \<times> control_command list)" where
  "sample_start = (fst (load_live (logging sample_io) 0 0 ((), [])), 0, (), [])"

lemma sample_start_reached: "popup_reaches te split (logging sample_io) ((), []) [] sample_start KeyContinue"
  unfolding sample_start_def
  by (rule popup_reaches.loaded [of _ 0 0])
     (simp add: load_live_def refresh_at_def logging_def sample_io_def)

lemma sample_start_app: "fst sample_start = sample_app\<lparr>ap_status_fetched_at := 0\<rparr>"
  by (simp add: sample_start_def load_live_def refresh_at_def logging_def sample_io_def take_status_def looks_spent_def
      clamp_selection_def devices_def popup_new_def sample_app_def sample_status_def Let_def)

lemma sample_question:
  "popup_pass te split (logging sample_io) (sample_pass ''s'') sample_start =
    ((sample_app\<lparr>ap_confirm := Some StopRelay\<rparr>, 0, (), []), KeyContinue, DrawnTooSmall [])"
  "keyed te split (logging sample_io) (sample_pass ''s'') sample_start = [(sample_app, KeyChar ''s'')]"
proof -
  have s: "sample_start = (sample_app, 0, (), [])"
    using sample_start_app by (simp add: sample_start_def sample_app_def popup_new_def)
  have d: "draw te q split 0 0 0 0 sample_app = (sample_app, DrawnTooSmall [])" for q
    by (simp add: draw_def drop_shown_notice_def mark_notice_shown_def too_small_lines_def sample_app_def popup_new_def FLOOR_COLS_def Let_def)
  have p: "draw_and_poll te split (logging sample_io) (sample_pass ''s'') (sample_app, 0, (), []) = ((sample_app, 0, (), []), DrawnTooSmall [])"
    by (simp add: draw_and_poll_def sample_pass_def d refresh_due_def cadence_def secs_def)
  have k: "pi_key (sample_pass ''s'') = Some (KeyChar ''s'')" by (simp add: sample_pass_def)
  have "ap_confirm sample_app = None" "\<not> popup_stopped sample_app"
    by (simp_all add: sample_app_def popup_new_def popup_stopped_def sample_status_def)
  then have hk: "handle_key (logging sample_io) (KeyChar ''s'') n n' (sample_app, w) =
      ((sample_app\<lparr>ap_confirm := Some StopRelay\<rparr>, w), KeyContinue)" for n n' w
    by (simp add: handle_key_def)
  show "popup_pass te split (logging sample_io) (sample_pass ''s'') sample_start =
    ((sample_app\<lparr>ap_confirm := Some StopRelay\<rparr>, 0, (), []), KeyContinue, DrawnTooSmall [])"
    by (simp add: popup_pass_def s p k hk)
  show "keyed te split (logging sample_io) (sample_pass ''s'') sample_start = [(sample_app, KeyChar ''s'')]"
    by (simp add: keyed_def s p k)
qed

lemma answering_continues: "ap_confirm a \<noteq> None \<Longrightarrow> snd (handle_key io key now now' (a, w)) = KeyContinue"
  by (cases "ap_confirm a") (simp_all add: handle_key_def Let_def)


theorem selection_in_range_witness:
  "devices sample_app \<noteq> [] \<and> ap_selected sample_app < length (devices sample_app)"
proof -
  have s: "sample_start = (sample_app, 0, (), [])"
    using sample_start_app by (simp add: sample_start_def sample_app_def popup_new_def)
  have "devices sample_app \<noteq> []" by (simp add: devices_def sample_app_def sample_status_def)
  with selection_in_range [OF sample_start_reached [of sample_text_env thirds, unfolded s]] show ?thesis by blast
qed

end
