(* ===== verification/Host_Loops.thy ===== *)
theory Host_Loops
  imports Host_Core
begin

text \<open>
  \<open>herdr-relay/src/bridge.rs\<close>: \<open>registration_loop\<close> of a paired entry and \<open>pairing_loop\<close> with
  \<open>serve_new_pairing\<close>, as state machines over the shared state of the Host. A step runs from one await to the next;
  what the await gives is the event, and between two steps any other section may run. The relay, the handshake and
  the established session are events; the session itself is in \<open>Session_Serve\<close>.
\<close>

section \<open>The registration loop\<close>

datatype reg_pc = RegTop | RegParked | RegRegistering | RegShaking | RegSleeping duration | RegGreeting | RegServing | RegEnded

record ('f, 'k) reg_loop =
  rl_task :: nat
  rl_device :: string
  rl_handle :: handle
  rl_host_id :: string
  rl_private :: 'k
  rl_remote :: "8 word list"
  rl_backoff :: "'f backoff"
  rl_seen :: nat
  rl_pc :: reg_pc

text \<open>What the loop reads before its first pass; a missing entry or an unusable handle ends the task at once.\<close>

definition reg_setup ::
  "(string \<Rightarrow> 8 word list option) \<Rightarrow> 'f relay_config \<Rightarrow> nat \<Rightarrow> string \<Rightarrow> ('q, 'k) host_state \<Rightarrow>
     (('q, 'k) host_state \<times> ('f, 'k) reg_loop) option" where
  "reg_setup dec cfg task device_id s =
     (case store_find device_id (hs_store s) of
        None \<Rightarrow> None
      | Some entry \<Rightarrow>
          (case handle_from_str dec (pd_handle entry) of
             Err _ \<Rightarrow> None
           | Ok rh \<Rightarrow>
               Some (stop_subscribe task s,
                 \<lparr>rl_task = task, rl_device = device_id, rl_handle = rh, rl_host_id = pd_host_id entry, rl_private = hs_keypair s,
                  rl_remote = pd_static_public_key entry, rl_backoff = backoff_new cfg, rl_seen = wc_version (hs_stop_tx s),
                  rl_pc = RegTop\<rparr>)))"

text \<open>The events; \<open>j\<close> is the jitter drawn for a wait, \<open>out\<close> and \<open>wall\<close> are a save of the list and its time.\<close>

datatype 'f reg_event =
    RV_Pass
  | RV_StopChanged
  | RV_Shutdown
  | RV_Registered
  | RV_RegisterFails connect_error "'f \<Rightarrow> nat \<Rightarrow> nat"
  | RV_Handshaken instant save_outcome string "'f \<Rightarrow> nat \<Rightarrow> nat"
  | RV_HandshakeFails connect_error "'f \<Rightarrow> nat \<Rightarrow> nat"
  | RV_Slept
  | RV_Greeted save_outcome string
  | RV_GreetFails instant
  | RV_SessionEnds instant
  | RV_Aborted

definition reg_wait :: "('f \<Rightarrow> nat \<Rightarrow> nat) \<Rightarrow> ('f, 'k) reg_loop \<Rightarrow> ('f, 'k) reg_loop" where
  "reg_wait j l = (case next_wait j (rl_backoff l) of (b, w) \<Rightarrow> l\<lparr>rl_backoff := b, rl_pc := RegSleeping w\<rparr>)"

definition reg_fail ::
  "connect_error \<Rightarrow> ('f \<Rightarrow> nat \<Rightarrow> nat) \<Rightarrow> ('q, 'k) host_state \<times> ('f, 'k) reg_loop \<Rightarrow> ('q, 'k) host_state \<times> ('f, 'k) reg_loop" where
  "reg_fail e j sl =
     (case sl of (s, l) \<Rightarrow> (set_offline (attempt_number (rl_backoff l)) (link_error_class e) s, reg_wait j l))"

text \<open>The end of an iteration that held the claim: the connection is recorded, then the claim dropped.\<close>

definition reg_leave :: "instant \<Rightarrow> ('q, 'k) host_state \<times> ('f, 'k) reg_loop \<Rightarrow> ('q, 'k) host_state \<times> ('f, 'k) reg_loop" where
  "reg_leave now sl =
     (case sl of (s, l) \<Rightarrow>
        (release_active (rl_handle l) s, l\<lparr>rl_backoff := record_disconnected now (rl_backoff l), rl_pc := RegTop\<rparr>))"

definition stop_news :: "nat \<Rightarrow> ('q, 'k) host_state \<Rightarrow> bool" where
  "stop_news seen s \<longleftrightarrow> seen < wc_version (hs_stop_tx s)"

definition reg_step ::
  "(paired_device list \<Rightarrow> string option) \<Rightarrow> 'f reg_event \<Rightarrow> ('q, 'k) host_state \<times> ('f, 'k) reg_loop \<Rightarrow>
     (('q, 'k) host_state \<times> ('f, 'k) reg_loop) option" where
  "reg_step ser ev sl =
     (case sl of (s, l) \<Rightarrow>
      case (ev, rl_pc l) of
        (RV_Pass, RegTop) \<Rightarrow>
          Some (s, l\<lparr>rl_pc := (if store_find (rl_device l) (hs_store s) = None then RegEnded
                               else if may_run s then RegRegistering else RegParked)\<rparr>)
      | (RV_StopChanged, pc) \<Rightarrow>
          if \<not> stop_news (rl_seen l) s then None
          else
            let l1 = l\<lparr>rl_seen := wc_version (hs_stop_tx s)\<rparr> in
            (case pc of
               RegParked \<Rightarrow> Some (s, if may_run s then l1\<lparr>rl_pc := RegRegistering\<rparr> else l1)
             | RegRegistering \<Rightarrow> Some (s, l1\<lparr>rl_pc := RegTop\<rparr>)
             | RegShaking \<Rightarrow> Some (s, l1\<lparr>rl_pc := RegTop\<rparr>)
             | RegSleeping w \<Rightarrow> Some (s, l1\<lparr>rl_pc := RegTop\<rparr>)
             | _ \<Rightarrow> None)
      | (RV_Shutdown, RegParked) \<Rightarrow> Some (s, l\<lparr>rl_pc := RegEnded\<rparr>)
      | (RV_Registered, RegRegistering) \<Rightarrow> Some (set_idle s, l\<lparr>rl_pc := RegShaking\<rparr>)
      | (RV_RegisterFails e j, RegRegistering) \<Rightarrow> Some (reg_fail e j (s, l))
      | (RV_Handshaken now out wall j, RegShaking) \<Rightarrow>
          Some (case claim_active (Some (rl_device l)) (rl_handle l) s of
                  None \<Rightarrow> (s, reg_wait j l)
                | Some s1 \<Rightarrow> (touch_device ser out wall (rl_device l) s1,
                             l\<lparr>rl_backoff := record_connected now (rl_backoff l), rl_pc := RegGreeting\<rparr>))
      | (RV_HandshakeFails e j, RegShaking) \<Rightarrow> Some (reg_fail e j (s, l))
      | (RV_Slept, RegSleeping w) \<Rightarrow> Some (s, l\<lparr>rl_pc := RegTop\<rparr>)
      | (RV_Greeted out wall, RegGreeting) \<Rightarrow> Some (touch_device ser out wall (rl_device l) s, l\<lparr>rl_pc := RegServing\<rparr>)
      | (RV_GreetFails now, RegGreeting) \<Rightarrow> Some (reg_leave now (s, l))
      | (RV_SessionEnds now, RegServing) \<Rightarrow> Some (reg_leave now (s, l))
      | (RV_Aborted, pc) \<Rightarrow>
          if rl_task l \<notin> set (hs_aborted s) \<or> pc = RegEnded then None
          else Some (if pc = RegGreeting \<or> pc = RegServing then release_active (rl_handle l) s else s, l\<lparr>rl_pc := RegEnded\<rparr>)
      | _ \<Rightarrow> None)"

fun reg_run ::
  "(paired_device list \<Rightarrow> string option) \<Rightarrow> 'f reg_event list \<Rightarrow> ('q, 'k) host_state \<times> ('f, 'k) reg_loop \<Rightarrow>
     (('q, 'k) host_state \<times> ('f, 'k) reg_loop) option" where
  "reg_run ser [] sl = Some sl"
| "reg_run ser (ev # evs) sl = Option.bind (reg_step ser ev sl) (reg_run ser evs)"

section \<open>The pairing loop\<close>

text \<open>What a pass carries: its clock at the top, the handle and the key of the phrase, the time it was minted.\<close>

record 'p pair_pass =
  pp_now :: instant
  pp_handle :: handle
  pp_psk :: 'p
  pp_minted :: instant

datatype 'p pair_pc =
    PairTop
  | PairParked "'p pair_pass"
  | PairRegistering "'p pair_pass"
  | PairSleeping duration
  | PairShaking "'p pair_pass"
  | PairEnrolling "'p pair_pass"
  | PairServing handle string
  | PairEnded

record ('f, 'p) pair_loop =
  pl_task :: nat
  pl_backoff :: "'f backoff"
  pl_seen :: nat
  pl_pc :: "'p pair_pc"

text \<open>What the wait for the first frame of \<open>serve_new_pairing\<close> gives: the stop signal, the deadline, a failure of the
  greeting or of the receiving, another message, or the information about the Device that makes the new entry, with
  the two clocks and the save of the enrolment.\<close>

datatype first_frame = FF_Stop | FF_Deadline | FF_Fails | FF_Other | FF_Device paired_device instant instant save_outcome

datatype 'f pair_event =
    PV_Pass instant
  | PV_StopChanged
  | PV_Shutdown
  | PV_Registered instant
  | PV_RegisterFails connect_error "'f \<Rightarrow> nat \<Rightarrow> nat"
  | PV_Slept
  | PV_Handshaken
  | PV_HandshakeFails connect_error
  | PV_WindowElapsed
  | PV_First first_frame
  | PV_SessionEnds
  | PV_Aborted

definition pair_setup ::
  "'f relay_config \<Rightarrow> nat \<Rightarrow> ('q, 'k) host_state \<Rightarrow> ('q, 'k) host_state \<times> ('f, 'p) pair_loop" where
  "pair_setup cfg task s =
     (stop_subscribe task s, \<lparr>pl_task = task, pl_backoff = backoff_new cfg, pl_seen = wc_version (hs_stop_tx s), pl_pc = PairTop\<rparr>)"

text \<open>\<open>claim_active\<close> and the start of \<open>serve_new_pairing\<close>, which gives up when the stop value is set.\<close>

definition pair_claim ::
  "'p pair_pass \<Rightarrow> ('q, 'k) host_state \<Rightarrow> ('q, 'k) host_state \<times> 'p pair_pc" where
  "pair_claim p s =
     (case claim_active None (pp_handle p) s of
        None \<Rightarrow> (s, PairTop)
      | Some s1 \<Rightarrow> if may_run s1 then (s1, PairEnrolling p) else (release_active (pp_handle p) s1, PairTop))"

definition pair_first ::
  "host_env \<Rightarrow> first_frame \<Rightarrow> 'p pair_pass \<Rightarrow> ('q, 'k) host_state \<Rightarrow> ('q, 'k) host_state \<times> 'p pair_pc" where
  "pair_first he ff p s =
     (let deadline = pp_minted p + PHRASE_LIFETIME; give_up = (\<lambda>s. (release_active (pp_handle p) s, PairTop)) in
      case ff of
        FF_Deadline \<Rightarrow> give_up (enrol_deadline deadline s)
      | FF_Device d now now' out \<Rightarrow>
          (case enrol (he_enc he) (he_ser he) out now now' deadline (pp_handle p) d s of
             (s1, EnrolRefused) \<Rightarrow> give_up s1
           | (s1, EnrolFailed) \<Rightarrow> give_up (fst (spawn_registration (he_dec he) (pd_device_id d) s1))
           | (s1, Enrolled_as i) \<Rightarrow> (s1, PairServing (pp_handle p) i))
      | _ \<Rightarrow> give_up s)"

definition pair_step ::
  "host_env \<Rightarrow> (string \<Rightarrow> 'p) \<Rightarrow> 'f pair_event \<Rightarrow> ('q, 'k) host_state \<times> ('f, 'p) pair_loop \<Rightarrow>
     (('q, 'k) host_state \<times> ('f, 'p) pair_loop) option" where
  "pair_step he psk ev sl =
     (case sl of (s, l) \<Rightarrow>
      case (ev, pl_pc l) of
        (PV_Pass now, PairTop) \<Rightarrow>
          Some (case pairing_pass psk now s of
                  (s1, PassEnds) \<Rightarrow> (s1, l\<lparr>pl_pc := PairEnded\<rparr>)
                | (s1, PassRuns rh k minted) \<Rightarrow>
                    let p = \<lparr>pp_now = now, pp_handle = rh, pp_psk = k, pp_minted = minted\<rparr> in
                    (s1, l\<lparr>pl_pc := (if may_run s1 then PairRegistering p else PairParked p)\<rparr>))
      | (PV_StopChanged, pc) \<Rightarrow>
          if \<not> stop_news (pl_seen l) s then None
          else
            let l1 = l\<lparr>pl_seen := wc_version (hs_stop_tx s)\<rparr> in
            (case pc of
               PairParked p \<Rightarrow> Some (s, if may_run s then l1\<lparr>pl_pc := PairRegistering p\<rparr> else l1)
             | PairRegistering p \<Rightarrow> Some (s, l1\<lparr>pl_pc := PairTop\<rparr>)
             | PairSleeping w \<Rightarrow> Some (s, l1\<lparr>pl_pc := PairTop\<rparr>)
             | PairShaking p \<Rightarrow> Some (s, l1\<lparr>pl_pc := PairTop\<rparr>)
             | _ \<Rightarrow> None)
      | (PV_Shutdown, PairParked p) \<Rightarrow> Some (s, l\<lparr>pl_pc := PairEnded\<rparr>)
      | (PV_Registered now, PairRegistering p) \<Rightarrow>
          Some (pairing_registered (pp_now p) (pp_handle p) s, l\<lparr>pl_backoff := record_connected now (pl_backoff l), pl_pc := PairShaking p\<rparr>)
      | (PV_RegisterFails e j, PairRegistering p) \<Rightarrow>
          Some (case next_wait j (pl_backoff l) of (b, w) \<Rightarrow>
                  (set_offline (attempt_number (pl_backoff l)) (link_error_class e) s, l\<lparr>pl_backoff := b, pl_pc := PairSleeping w\<rparr>))
      | (PV_Slept, PairSleeping w) \<Rightarrow> Some (s, l\<lparr>pl_pc := PairTop\<rparr>)
      | (PV_Handshaken, PairShaking p) \<Rightarrow> Some (case pair_claim p s of (s1, pc) \<Rightarrow> (s1, l\<lparr>pl_pc := pc\<rparr>))
      | (PV_HandshakeFails e, PairShaking p) \<Rightarrow> Some (pairing_handshake_failed (pp_now p) (pp_handle p) s, l\<lparr>pl_pc := PairTop\<rparr>)
      | (PV_WindowElapsed, PairShaking p) \<Rightarrow> Some (pairing_window_elapsed (pp_now p) (pp_handle p) s, l\<lparr>pl_pc := PairEnded\<rparr>)
      | (PV_First ff, PairEnrolling p) \<Rightarrow> Some (case pair_first he ff p s of (s1, pc) \<Rightarrow> (s1, l\<lparr>pl_pc := pc\<rparr>))
      | (PV_SessionEnds, PairServing rh i) \<Rightarrow>
          Some (release_active rh (fst (spawn_registration (he_dec he) i s)), l\<lparr>pl_pc := PairEnded\<rparr>)
      | (PV_Aborted, pc) \<Rightarrow>
          if pl_task l \<notin> set (hs_aborted s) \<or> pc = PairEnded then None
          else Some (case pc of PairEnrolling p \<Rightarrow> release_active (pp_handle p) s | PairServing rh i \<Rightarrow> release_active rh s | _ \<Rightarrow> s,
                     l\<lparr>pl_pc := PairEnded\<rparr>)
      | _ \<Rightarrow> None)"

fun pair_run ::
  "host_env \<Rightarrow> (string \<Rightarrow> 'p) \<Rightarrow> 'f pair_event list \<Rightarrow> ('q, 'k) host_state \<times> ('f, 'p) pair_loop \<Rightarrow>
     (('q, 'k) host_state \<times> ('f, 'p) pair_loop) option" where
  "pair_run he psk [] sl = Some sl"
| "pair_run he psk (ev # evs) sl = Option.bind (pair_step he psk ev sl) (pair_run he psk evs)"

section \<open>A loop among the other sections of the Host\<close>

text \<open>The steps of one registration loop, interleaved with sections of everything else that \<open>allowed\<close> admits.\<close>

inductive reg_reaches ::
  "host_env \<Rightarrow> (('q, 'k) host_op \<Rightarrow> bool) \<Rightarrow> ('q, 'k) host_state \<times> ('f, 'k) reg_loop \<Rightarrow> ('q, 'k) host_state \<times> ('f, 'k) reg_loop \<Rightarrow> bool"
  for he allowed sl0 where
  reg_here: "reg_reaches he allowed sl0 sl0"
| reg_own: "reg_reaches he allowed sl0 sl \<Longrightarrow> reg_step (he_ser he) ev sl = Some sl' \<Longrightarrow> reg_reaches he allowed sl0 sl'"
| reg_other: "reg_reaches he allowed sl0 (s, l) \<Longrightarrow> allowed op \<Longrightarrow> reg_reaches he allowed sl0 (host_exec he op s, l)"

inductive pair_reaches ::
  "host_env \<Rightarrow> (string \<Rightarrow> 'p) \<Rightarrow> (('q, 'k) host_op \<Rightarrow> bool) \<Rightarrow> ('q, 'k) host_state \<times> ('f, 'p) pair_loop \<Rightarrow>
     ('q, 'k) host_state \<times> ('f, 'p) pair_loop \<Rightarrow> bool"
  for he psk allowed sl0 where
  pair_here: "pair_reaches he psk allowed sl0 sl0"
| pair_own: "pair_reaches he psk allowed sl0 sl \<Longrightarrow> pair_step he psk ev sl = Some sl' \<Longrightarrow> pair_reaches he psk allowed sl0 sl'"
| pair_other: "pair_reaches he psk allowed sl0 (s, l) \<Longrightarrow> allowed op \<Longrightarrow> pair_reaches he psk allowed sl0 (host_exec he op s, l)"

section \<open>Every step is a sequence of sections\<close>

definition sections :: "host_env \<Rightarrow> ('q, 'k) host_op list \<Rightarrow> ('q, 'k) host_state \<Rightarrow> ('q, 'k) host_state \<Rightarrow> bool" where
  "sections he ops s s' \<longleftrightarrow> s' = fold (host_exec he) ops s"

lemma reg_step_sections:
  assumes "reg_step (he_ser he) ev (s, l) = Some (s', l')"
  shows "\<exists>ops. s' = fold (host_exec he) ops s \<and> list_all (\<lambda>op. \<not> enrols i op) ops"
proof -
  have none: ?thesis if "s' = s" using that by (intro exI [of _ "[]"]) simp
  have one: ?thesis if "s' = host_exec he op s" "\<not> enrols i op" for op using that by (intro exI [of _ "[op]"]) simp
  have two: ?thesis if "s' = host_exec he op2 (host_exec he op1 s)" "\<not> enrols i op1" "\<not> enrols i op2" for op1 op2
    using that by (intro exI [of _ "[op1, op2]"]) simp
  have offline: ?thesis if "s' = set_offline n c s" for n c using one [of "HO_SetOffline n c"] that by simp
  have idle: ?thesis if "s' = set_idle s" using one [of HO_SetIdle] that by simp
  have touch: ?thesis if "s' = touch_device (he_ser he) out w d s" for out w d using one [of "HO_Touch out w d"] that by simp
  have release: ?thesis if "s' = release_active rh s" for rh using one [of "HO_Release rh"] that by simp
  have claim: ?thesis if "claim_active d rh s = Some s1" "s' = touch_device (he_ser he) out w e s1" for d rh s1 out w e
    using two [of "HO_Touch out w e" "HO_Claim d rh"] that by simp
  show ?thesis
  proof (cases ev)
    case (RV_Handshaken now out wall j)
    then show ?thesis using assms none claim
      by (cases "rl_pc l"; cases "claim_active (Some (rl_device l)) (rl_handle l) s") (auto simp: reg_step_def)
  next
    case RV_Aborted
    then show ?thesis using assms none release by (auto simp: reg_step_def split: if_splits)
  next
    case RV_StopChanged
    then show ?thesis using assms none by (auto simp: reg_step_def Let_def split: if_splits reg_pc.splits)
  qed (use assms none offline idle touch release in \<open>auto simp: reg_step_def reg_fail_def reg_leave_def split: reg_pc.splits\<close>)
qed

lemma reg_step_keeps:
  "reg_step ser ev (s, l) = Some (s', l') \<Longrightarrow> rl_device l' = rl_device l \<and> rl_handle l' = rl_handle l \<and> rl_host_id l' = rl_host_id l \<and> rl_task l' = rl_task l"
  by (auto simp: reg_step_def reg_fail_def reg_leave_def reg_wait_def Let_def
      split: reg_event.splits reg_pc.splits if_splits option.splits prod.splits)

lemma pairing_pass_section: "fst (pairing_pass psk now s) = host_exec he (HO_PairingPass now) s"
  by (auto simp: pairing_pass_eq split: option.split)

lemma pair_step_sections:
  assumes "pair_step he psk ev (s, l) = Some (s', l')"
  shows "\<exists>ops. s' = fold (host_exec he) ops s"
proof -
  have none: ?thesis if "s' = s" using that by (intro exI [of _ "[]"]) simp
  have one: ?thesis if "s' = host_exec he op s" for op using that by (intro exI [of _ "[op]"]) simp
  have two: ?thesis if "s' = host_exec he op2 (host_exec he op1 s)" for op1 op2 using that by (intro exI [of _ "[op1, op2]"]) simp
  have three: ?thesis if "s' = host_exec he op3 (host_exec he op2 (host_exec he op1 s))" for op1 op2 op3
    using that by (intro exI [of _ "[op1, op2, op3]"]) simp
  have claim: ?thesis if "pair_claim p s = (s', pc)" for p pc
    using that none one [of "HO_Claim None (pp_handle p)"] two [of "HO_Release (pp_handle p)" "HO_Claim None (pp_handle p)"]
    by (auto simp: pair_claim_def split: option.splits if_splits)
  have first: ?thesis if f: "pair_first he ff p s = (s', pc)" for ff p pc
  proof (cases ff)
    case FF_Deadline
    then show ?thesis
      using f two [of "HO_Release (pp_handle p)" "HO_EnrolDeadline (pp_minted p + PHRASE_LIFETIME)"] by (simp add: pair_first_def Let_def)
  next
    case (FF_Device d now now' out)
    let ?op = "HO_Enrol out now now' (pp_minted p + PHRASE_LIFETIME) (pp_handle p) d"
    show ?thesis
      using f FF_Device one [of ?op] two [of "HO_Release (pp_handle p)" ?op]
        three [of "HO_Release (pp_handle p)" "HO_SpawnRegistration (pd_device_id d)" ?op]
      by (auto simp: pair_first_def Let_def split: prod.splits enrol_outcome.splits)
  qed (use f one [of "HO_Release (pp_handle p)"] in \<open>simp_all add: pair_first_def Let_def\<close>)
  have offline: ?thesis if "s' = set_offline n c s" for n c using one [of "HO_SetOffline n c"] that by simp
  have release: ?thesis if "s' = release_active rh s" for rh using one [of "HO_Release rh"] that by simp
  show ?thesis
  proof (cases ev)
    case (PV_Pass now)
    then have "s' = fst (pairing_pass psk now s)" using assms
      by (cases "pl_pc l"; cases "pairing_pass psk now s"; cases "snd (pairing_pass psk now s)") (auto simp: pair_step_def Let_def)
    then show ?thesis using one [of "HO_PairingPass now"] by (simp only: pairing_pass_section [of psk now s he])
  next
    case (PV_Registered now)
    then obtain p where "pl_pc l = PairRegistering p" using assms by (cases "pl_pc l") (auto simp: pair_step_def)
    then have "s' = pairing_registered (pp_now p) (pp_handle p) s" using assms PV_Registered by (simp add: pair_step_def)
    then show ?thesis using one [of "HO_PairingRegistered (pp_now p) (pp_handle p)"] by simp
  next
    case (PV_HandshakeFails e)
    then obtain p where "pl_pc l = PairShaking p" using assms by (cases "pl_pc l") (auto simp: pair_step_def)
    then have "s' = pairing_handshake_failed (pp_now p) (pp_handle p) s" using assms PV_HandshakeFails by (simp add: pair_step_def)
    then show ?thesis using one [of "HO_HandshakeFailed (pp_now p) (pp_handle p)"] by simp
  next
    case PV_WindowElapsed
    then obtain p where "pl_pc l = PairShaking p" using assms by (cases "pl_pc l") (auto simp: pair_step_def)
    then have "s' = pairing_window_elapsed (pp_now p) (pp_handle p) s" using assms PV_WindowElapsed by (simp add: pair_step_def)
    then show ?thesis using one [of "HO_WindowElapsed (pp_now p) (pp_handle p)"] by simp
  next
    case PV_Handshaken
    then show ?thesis using assms claim by (cases "pl_pc l") (auto simp: pair_step_def split: prod.splits)
  next
    case (PV_First ff)
    then show ?thesis using assms first by (cases "pl_pc l") (auto simp: pair_step_def split: prod.splits)
  next
    case PV_SessionEnds
    then obtain rh j where "s' = release_active rh (fst (spawn_registration (he_dec he) j s))"
      using assms by (cases "pl_pc l") (auto simp: pair_step_def intro: that)
    then show ?thesis using two [of "HO_Release rh" "HO_SpawnRegistration j"] by simp
  next
    case (PV_RegisterFails e j)
    then show ?thesis using assms offline by (cases "pl_pc l") (auto simp: pair_step_def split: prod.splits)
  next
    case PV_StopChanged
    then show ?thesis using assms none by (auto simp: pair_step_def Let_def split: if_splits pair_pc.splits)
  next
    case PV_Aborted
    then show ?thesis using assms none release by (cases "pl_pc l") (auto simp: pair_step_def split: if_splits)
  qed (use assms none in \<open>auto simp: pair_step_def split: pair_pc.splits\<close>)
qed

text \<open>The loops add no behaviour of their own: whatever a registration loop does among the other sections of the
  Host, the state it leaves is one that a sequence of sections leaves.\<close>

theorem loops_are_sections:
  assumes "reg_reaches he allowed (s0, l0) (s, l)"
  shows "\<exists>ops. s = fold (host_exec he) ops s0"
  using assms
proof (induction "(s, l)" arbitrary: s l rule: reg_reaches.induct)
  case reg_here
  show ?case by (rule exI [of _ "[]"]) simp
next
  case (reg_own sl ev s' l')
  obtain s l where sl: "sl = (s, l)" by (cases sl)
  obtain ops where "s = fold (host_exec he) ops s0" using reg_own.hyps(2) [OF sl] by blast
  moreover obtain ops' where "s' = fold (host_exec he) ops' s" using reg_step_sections [OF reg_own.hyps(3) [unfolded sl]] by blast
  ultimately show ?case by (intro exI [of _ "ops @ ops'"]) simp
next
  case (reg_other s l op)
  then obtain ops where "s = fold (host_exec he) ops s0" by blast
  then show ?case by (intro exI [of _ "ops @ [op]"]) simp
qed

section \<open>The claim of a loop\<close>

fun claims :: "handle \<Rightarrow> ('q, 'k) host_op \<Rightarrow> bool" where
  "claims rh (HO_Claim _ rh') = (rh' = rh)"
| "claims rh _ = False"

lemma unclaimed_exec: "\<not> claimed_by rh s \<Longrightarrow> \<not> claims rh op \<Longrightarrow> \<not> claimed_by rh (host_exec he op s)"
proof (cases op)
  case (HO_Enrol out now now' deadline rh' d)
  then show "\<not> claimed_by rh s \<Longrightarrow> ?thesis"
    by (auto simp: claimed_by_def enrol_eq set_active_id_def Let_def split: prod.split sum.split option.splits)
next
  case (HO_WireRevoke out rotate_ok reloaded req)
  then show "\<not> claimed_by rh s \<Longrightarrow> ?thesis"
    by (auto simp: claimed_by_def wire_revoke_def close_sessions_def split: prod.split sum.split)
next
  case (HO_Revoke out i)
  then show "\<not> claimed_by rh s \<Longrightarrow> ?thesis"
    by (auto simp: claimed_by_def revoke_one_def close_sessions_def Let_def split: prod.split sum.split option.split)
next
  case (HO_RevokeAll out k)
  then show "\<not> claimed_by rh s \<Longrightarrow> ?thesis"
    by (auto simp: claimed_by_def revoke_all_def close_sessions_def Let_def split: prod.split sum.split option.split)
qed (auto simp: claimed_by_def build_status_def open_pairing_def close_pairing_def stop_command_def spawn_registration_def spawn_task_def
    set_offline_def set_idle_def claim_active_def release_active_def register_session_def pairing_pass_eq touch_device_def
    pairing_registered_def pairing_handshake_failed_def pairing_window_elapsed_def enrol_deadline_def stop_subscribe_def
    task_ends_def pairing_eqs Let_def split: option.split sum.split bool.split prod.split)

interpretation unclaimed: preserved "host_exec he" "\<lambda>op. \<not> claims rh op" "\<lambda>s. \<not> claimed_by rh s" for he rh
  by unfold_locales (rule unclaimed_exec)

lemma claimed_simps [simp]:
  "claimed_by rh (set_offline n c s) = claimed_by rh s" "claimed_by rh (set_idle s) = claimed_by rh s"
  "claimed_by rh (touch_device ser out w d s) = claimed_by rh s" "\<not> claimed_by rh (release_active rh s)"
  by (auto simp: claimed_by_def set_offline_def set_idle_def touch_device_def release_active_def Let_def split: option.splits)

lemma claimed_claim: "claim_active d rh s = Some s1 \<Longrightarrow> claimed_by rh' s1 = (rh' = rh)"
  by (auto simp: claimed_by_def claim_active_def split: if_splits)

definition reg_holds :: "('f, 'k) reg_loop \<Rightarrow> bool" where
  "reg_holds l \<longleftrightarrow> rl_pc l = RegGreeting \<or> rl_pc l = RegServing"

lemma reg_step_claim:
  assumes "claimed_by (rl_handle l) s \<Longrightarrow> reg_holds l" "reg_step ser ev (s, l) = Some (s', l')" "claimed_by (rl_handle l) s'"
  shows "reg_holds l'"
  using assms
  by (cases ev; cases "rl_pc l")
     (auto simp: reg_step_def reg_fail_def reg_leave_def reg_wait_def reg_holds_def Let_def claimed_claim
        split: if_splits option.splits prod.splits)


text \<open>C34: a revoked entry is not served: once it has left the list, then as long as it is not enrolled again, no session
  of the loop can register for dispatch, and the next pass of the loop ends it.\<close>

theorem revoked_loop_never_serves:
  assumes "reg_reaches he (\<lambda>op. \<not> enrols (rl_device l0) op) (s0, l0) (s, l)"
    and "ids_distinct (hs_store s0)" "store_find (rl_device l0) (hs_store s0) = None"
  shows "snd (register_session (he_dec he) (rl_host_id l) rh (rl_device l) s) = None
    \<and> (rl_pc l = RegTop \<longrightarrow> reg_step (he_ser he) RV_Pass (s, l) = Some (s, l\<lparr>rl_pc := RegEnded\<rparr>))"
proof -
  have "rl_device l = rl_device l0 \<and> ids_distinct (hs_store s) \<and> store_find (rl_device l0) (hs_store s) = None"
    using assms(1)
  proof (induction "(s, l)" arbitrary: s l rule: reg_reaches.induct)
    case reg_here
    then show ?case using assms(2,3) by simp
  next
    case (reg_own sl ev s' l')
    obtain s l where sl: "sl = (s, l)" by (cases sl)
    note st = reg_own.hyps(3) [unfolded sl]
    obtain ops where ops: "s' = fold (host_exec he) ops s" "list_all (\<lambda>op. \<not> enrols (rl_device l0) op) ops"
      using reg_step_sections [OF st] by blast
    show ?case using reg_own.hyps(2) [OF sl] reg_step_keeps [OF st] locked_out.keep_run [where i = "rl_device l0" and s = s and ops = ops and he = he] ops by auto
  next
    case (reg_other s l op)
    then show ?case using locked_out.keep [where i = "rl_device l0" and s = s and op = op and he = he] by blast
  qed
  then show ?thesis by (simp add: register_session_def reg_step_def)
qed

section \<open>What counts as a failed attempt\<close>

lemma live_failed:
  assumes "hs_pairing s = Some p" "ps_state (op_session p) = Live l" "now - lp_generated_at l \<le> PHRASE_LIFETIME"
  shows "hs_pairing (pairing_handshake_failed now (lp_handle l) s) =
    Some (p\<lparr>op_session := (op_session p)\<lparr>ps_state :=
      (if MAX_ATTEMPTS \<le> lp_failed_attempts l + 1 then Spent else Live (l\<lparr>lp_failed_attempts := lp_failed_attempts l + 1\<rparr>))\<rparr>\<rparr>)"
  using assms
  by (simp add: pairing_handshake_failed_def pairing_has_handle_def session_handle_def access_def apply_expiry_def session_live_def
      record_failed_attempt_def Let_def)


lemma live_registered:
  assumes "hs_pairing s = Some p" "ps_state (op_session p) = Live l" "now - lp_generated_at l \<le> PHRASE_LIFETIME"
  shows "pairing_registered now (lp_handle l) s = s\<lparr>hs_pairing := Some (p\<lparr>op_registered := True\<rparr>)\<rparr>"
  using assms
  by (simp add: pairing_registered_def pairing_has_handle_def session_handle_def access_def apply_expiry_def session_live_def Let_def)

lemma live_pass:
  assumes "hs_pairing s = Some p" "ps_state (op_session p) = Live l" "now - lp_generated_at l \<le> PHRASE_LIFETIME"
  shows "pairing_pass psk now s = (s, PassRuns (lp_handle l) (psk (ph_canonical (lp_phrase l))) (op_minted_at p))"
  using assms
  by (simp add: pairing_pass_def session_handle_def psk_for_def access_def apply_expiry_def session_live_def Let_def)

text \<open>A pass that registers and then fails in the handshake, for whatever error.\<close>

definition failed_pass :: "instant \<times> connect_error \<Rightarrow> 'f pair_event list" where
  "failed_pass te = [PV_Pass (fst te), PV_Registered (fst te), PV_HandshakeFails (snd te)]"

lemma pair_run_append: "pair_run he psk (evs @ evs') sl = Option.bind (pair_run he psk evs sl) (pair_run he psk evs')"
  by (induction evs arbitrary: sl) (auto split: bind_split)

definition pairing_live :: "nat \<Rightarrow> instant \<Rightarrow> ('q, 'k) host_state \<Rightarrow> bool" where
  "pairing_live n t s \<longleftrightarrow> (\<exists>p l. hs_pairing s = Some p \<and> ps_state (op_session p) = Live l \<and> lp_failed_attempts l = n \<and> lp_generated_at l = t)"

lemma failed_pass_run:
  assumes "pairing_live n t s" "fst te - t \<le> PHRASE_LIFETIME" "may_run s" "pl_pc l = PairTop" "n + 1 < MAX_ATTEMPTS"
  shows "\<exists>s' l'. pair_run he psk (failed_pass te) (s, l) = Some (s', l') \<and> pairing_live (n + 1) t s' \<and> may_run s' \<and> pl_pc l' = PairTop"
proof -
  obtain p lv where p: "hs_pairing s = Some p" "ps_state (op_session p) = Live lv" "lp_failed_attempts lv = n" "lp_generated_at lv = t"
    using assms(1) by (auto simp: pairing_live_def)
  let ?p = "p\<lparr>op_registered := True\<rparr>"
  have r: "pairing_registered (fst te) (lp_handle lv) s = s\<lparr>hs_pairing := Some ?p\<rparr>" using live_registered [OF p(1,2)] p(4) assms(2) by simp
  have f: "hs_pairing (pairing_handshake_failed (fst te) (lp_handle lv) (s\<lparr>hs_pairing := Some ?p\<rparr>)) =
      Some (?p\<lparr>op_session := (op_session ?p)\<lparr>ps_state := Live (lv\<lparr>lp_failed_attempts := n + 1\<rparr>)\<rparr>\<rparr>)"
    using live_failed [of "s\<lparr>hs_pairing := Some ?p\<rparr>" ?p lv "fst te"] p assms(2,5) by simp
  have m: "may_run (pairing_handshake_failed now rh u) = may_run u" for now rh and u :: "('a, 'b) host_state"
    by (simp add: may_run_def pairing_handshake_failed_def pairing_has_handle_def Let_def split: option.split prod.split bool.split)
  have c: "may_run (s\<lparr>hs_pairing := Some ?p\<rparr>)" using assms(3) by (simp add: may_run_def)
  have g: "pairing_live (n + 1) t (pairing_handshake_failed (fst te) (lp_handle lv) (s\<lparr>hs_pairing := Some ?p\<rparr>))"
    using f p(4) by (simp add: pairing_live_def)
  show ?thesis
    using assms(3,4) live_pass [OF p(1,2), of "fst te" psk] p(4) assms(2) r g m c by (simp add: failed_pass_def pair_step_def)
qed

lemma last_pass_run:
  assumes "pairing_live 2 t s" "fst te - t \<le> PHRASE_LIFETIME" "may_run s" "pl_pc l = PairTop"
  shows "\<exists>s' l'. pair_run he psk (failed_pass te @ [PV_Pass now]) (s, l) = Some (s', l') \<and> hs_pairing s' = None \<and> pl_pc l' = PairEnded"
proof -
  obtain p lv where p: "hs_pairing s = Some p" "ps_state (op_session p) = Live lv" "lp_failed_attempts lv = 2" "lp_generated_at lv = t"
    using assms(1) by (auto simp: pairing_live_def)
  let ?p = "p\<lparr>op_registered := True\<rparr>"
  let ?s = "pairing_handshake_failed (fst te) (lp_handle lv) (s\<lparr>hs_pairing := Some ?p\<rparr>)"
  have r: "pairing_registered (fst te) (lp_handle lv) s = s\<lparr>hs_pairing := Some ?p\<rparr>" using live_registered [OF p(1,2)] p(4) assms(2) by simp
  have f: "hs_pairing ?s = Some (?p\<lparr>op_session := (op_session ?p)\<lparr>ps_state := Spent\<rparr>\<rparr>)"
    using live_failed [of "s\<lparr>hs_pairing := Some ?p\<rparr>" ?p lv "fst te"] p assms(2) by (simp add: MAX_ATTEMPTS_def)
  then have d: "\<exists>s'. pairing_pass psk now ?s = (s', PassEnds) \<and> hs_pairing s' = None"
    by (simp add: pairing_pass_def session_handle_def psk_for_def access_def apply_expiry_def session_live_def Let_def)
  then show ?thesis
    using assms(3,4) live_pass [OF p(1,2), of "fst te" psk] p(4) assms(2) r
    by (auto simp: failed_pass_def pair_step_def)
qed


section \<open>A session that ends at once\<close>

lemma touch_find: "store_find i (fst (touch_last_seen ser out w i st)) = None \<longleftrightarrow> store_find i st = None"
proof (cases "position (\<lambda>d. pd_device_id d = i) (ds_devices st)")
  case None
  then show ?thesis by (simp add: touch_last_seen_def)
next
  case (Some n)
  obtain st' r where r: "touch_last_seen ser out w i st = (st', r)" by force
  have n: "n < length (ds_devices st)" "pd_device_id (ds_devices st ! n) = i"
    using position_Some [OF Some] by auto
  show ?thesis
  proof (cases r)
    case (Inl e)
    then show ?thesis using r touch_Err by fastforce
  next
    case (Inr b)
    then have "ds_devices st' = (ds_devices st)[n := (ds_devices st ! n)\<lparr>pd_last_seen := w\<rparr>]" using touch_Ok [of ser out w i st st' b] r Some by auto
    moreover have "(ds_devices st ! n)\<lparr>pd_last_seen := w\<rparr> \<in> set ((ds_devices st)[n := (ds_devices st ! n)\<lparr>pd_last_seen := w\<rparr>])"
      using n(1) by (rule set_update_memI)
    ultimately have "\<exists>x. x \<in> set (ds_devices st') \<and> pd_device_id x = i" using n(2) by (intro exI [of _ "(ds_devices st ! n)\<lparr>pd_last_seen := w\<rparr>"]) simp
    moreover have "\<exists>x. x \<in> set (ds_devices st) \<and> pd_device_id x = i" using nth_mem [OF n(1)] n(2) by blast
    ultimately show ?thesis using r by (simp add: store_find_def find_None_iff)
  qed
qed

lemma reg_run_append: "reg_run ser (evs @ evs') sl = Option.bind (reg_run ser evs sl) (reg_run ser evs')"
  by (induction evs arbitrary: sl) (auto split: bind_split)

definition hangup :: "instant \<times> instant \<times> save_outcome \<times> string \<Rightarrow> ('f \<Rightarrow> nat \<Rightarrow> nat) \<Rightarrow> 'f reg_event list" where
  "hangup x j = (case x of (now, now', out, wall) \<Rightarrow> [RV_Handshaken now out wall j, RV_GreetFails now', RV_Pass, RV_Registered])"

definition ready :: "('q, 'k) host_state \<times> ('f, 'k) reg_loop \<Rightarrow> bool" where
  "ready sl \<longleftrightarrow> (case sl of (s, l) \<Rightarrow> rl_pc l = RegShaking \<and> hs_active s = None \<and> \<not> hs_stopped s \<and> may_run s
     \<and> store_find (rl_device l) (hs_store s) \<noteq> None)"

lemma hangup_run:
  assumes "ready (s, l)"
  shows "\<exists>sl'. reg_run ser (hangup x j) (s, l) = Some sl' \<and> ready sl'"
proof -
  obtain now now' out wall where x: "x = (now, now', out, wall)" by (cases x) auto
  have r: "rl_pc l = RegShaking" "hs_active s = None" "\<not> hs_stopped s" "may_run s" "store_find (rl_device l) (hs_store s) \<noteq> None"
    using assms by (simp_all add: ready_def)
  have "store_find (rl_device l) (fst (touch_last_seen ser out wall (rl_device l) (hs_store s))) \<noteq> None"
    using r(5) touch_find by metis
  then show ?thesis
    using r
    by (simp add: x hangup_def reg_step_def claim_active_def reg_leave_def touch_device_def release_active_def may_run_def
        ready_def set_idle_def Let_def)
qed

text \<open>Nothing slows a peer that hangs up: after a session that ended, or a Device that left before it was greeted,
  the loop registers again at once, so any number of such rounds runs without a single wait.\<close>

theorem hangups_never_wait:
  assumes "ready sl"
  shows "\<exists>sl'. reg_run ser (concat (map (\<lambda>x. hangup x j) xs)) sl = Some sl' \<and> ready sl'"
  using assms
proof (induction xs arbitrary: sl)
  case (Cons x xs)
  obtain s l where sl: "sl = (s, l)" by (cases sl)
  obtain sl1 where "reg_run ser (hangup x j) sl = Some sl1" "ready sl1" using hangup_run [of s l ser x j] Cons.prems sl by blast
  then show ?case using Cons.IH by (simp add: reg_run_append)
qed simp


section \<open>The claim of the pairing loop\<close>

definition pair_holds :: "handle \<Rightarrow> ('f, 'p) pair_loop \<Rightarrow> bool" where
  "pair_holds rh l \<longleftrightarrow> (case pl_pc l of PairEnrolling p \<Rightarrow> pp_handle p = rh | PairServing rh' i \<Rightarrow> rh' = rh | _ \<Rightarrow> False)"

lemma claimed_pairing [simp]:
  "claimed_by rh (fst (pairing_pass psk now s)) = claimed_by rh s"
  "claimed_by rh (pairing_registered now rh' s) = claimed_by rh s" "claimed_by rh (pairing_handshake_failed now rh' s) = claimed_by rh s"
  "claimed_by rh (pairing_window_elapsed now rh' s) = claimed_by rh s" "claimed_by rh (fst (spawn_registration dec i s)) = claimed_by rh s"
  by (auto simp: claimed_by_def pairing_pass_eq pairing_registered_def pairing_handshake_failed_def pairing_window_elapsed_def
      pairing_has_handle_eq spawn_registration_def spawn_task_def Let_def split: option.split bool.split)

lemma claimed_release: "claimed_by rh (release_active rh' s) \<Longrightarrow> claimed_by rh s \<and> rh \<noteq> rh'"
  by (auto simp: claimed_by_def release_active_def Let_def split: option.splits if_splits)

lemma claimed_enrol: "enrol enc ser out now now' deadline rh' d s = (s', r) \<Longrightarrow> claimed_by rh s' = claimed_by rh s"
  by (auto simp: claimed_by_def enrol_eq set_active_id_def Let_def split: if_splits prod.splits sum.splits option.splits)

lemma claimed_deadline [simp]: "claimed_by rh (enrol_deadline deadline s) = claimed_by rh s"
  by (auto simp: claimed_by_def enrol_deadline_def)

lemma pair_first_claim:
  assumes "pair_first he ff p s = (s', pc)" "claimed_by rh s'" "claimed_by rh s \<Longrightarrow> pp_handle p = rh"
  shows "\<exists>i. pc = PairServing rh i"
proof (cases ff)
  case (FF_Device d now now' out)
  obtain s1 r where r: "enrol (he_enc he) (he_ser he) out now now' (pp_minted p + PHRASE_LIFETIME) (pp_handle p) d s = (s1, r)" by force
  have c: "claimed_by rh s1 = claimed_by rh s" by (rule claimed_enrol [OF r])
  show ?thesis
    using assms FF_Device r c by (cases r) (auto simp: pair_first_def Let_def dest!: claimed_release)
qed (use assms in \<open>auto simp: pair_first_def Let_def dest!: claimed_release\<close>)

lemma pair_claim_claim:
  assumes "pair_claim p s = (s', pc)" "claimed_by rh s'" "\<not> claimed_by rh s"
  shows "pc = PairEnrolling p \<and> pp_handle p = rh"
  using assms by (auto simp: pair_claim_def claimed_claim split: option.splits if_splits dest!: claimed_release)

lemma pair_step_claim:
  assumes "claimed_by rh s \<Longrightarrow> pair_holds rh l" "pair_step he psk ev (s, l) = Some (s', l')" "claimed_by rh s'"
  shows "pair_holds rh l'"
proof (cases ev)
  case (PV_Pass now)
  then have "pl_pc l = PairTop" using assms(2) by (cases "pl_pc l") (auto simp: pair_step_def)
  then have "\<not> claimed_by rh s" using assms(1) by (auto simp: pair_holds_def)
  moreover have "s' = fst (pairing_pass psk now s)" using assms(2) PV_Pass \<open>pl_pc l = PairTop\<close>
    by (cases "pairing_pass psk now s"; cases "snd (pairing_pass psk now s)") (auto simp: pair_step_def Let_def)
  ultimately show ?thesis using assms(3) by simp
next
  case (PV_First ff)
  then obtain p where p: "pl_pc l = PairEnrolling p" using assms(2) by (cases "pl_pc l") (auto simp: pair_step_def)
  obtain s1 pc where f: "pair_first he ff p s = (s1, pc)" by force
  then have "s' = s1" "pl_pc l' = pc" using assms(2) PV_First p by (auto simp: pair_step_def)
  then show ?thesis using pair_first_claim [OF f, of rh] assms(1,3) p by (auto simp: pair_holds_def)
next
  case PV_Handshaken
  then obtain p where p: "pl_pc l = PairShaking p" using assms(2) by (cases "pl_pc l") (auto simp: pair_step_def)
  obtain s1 pc where f: "pair_claim p s = (s1, pc)" by force
  then have "s' = s1" "pl_pc l' = pc" using assms(2) PV_Handshaken p by (auto simp: pair_step_def)
  moreover have "\<not> claimed_by rh s" using assms(1) p by (auto simp: pair_holds_def)
  ultimately have "pc = PairEnrolling p \<and> pp_handle p = rh" using pair_claim_claim [OF f] assms(3) by simp
  with \<open>pl_pc l' = pc\<close> show ?thesis by (simp add: pair_holds_def)
next
  case PV_StopChanged
  then show ?thesis using assms by (cases "pl_pc l") (auto simp: pair_step_def pair_holds_def Let_def split: if_splits)
next
  case PV_Aborted
  then show ?thesis using assms by (cases "pl_pc l") (auto simp: pair_step_def pair_holds_def split: if_splits dest!: claimed_release)
next
  case PV_SessionEnds
  then show ?thesis using assms by (cases "pl_pc l") (auto simp: pair_step_def pair_holds_def dest!: claimed_release)
next
  case (PV_RegisterFails e j)
  then show ?thesis using assms by (cases "pl_pc l") (auto simp: pair_step_def pair_holds_def split: prod.splits)
qed (use assms in \<open>auto simp: pair_step_def pair_holds_def split: pair_pc.splits\<close>)

text \<open>The pairing loop does not leak the slot either: the handle of a pairing holds it only while a Device of this
  pairing enrols or is served.\<close>

theorem pair_claim_never_leaks:
  assumes "pair_reaches he psk (\<lambda>op. \<not> claims rh op) (s0, l0) (s, l)" "\<not> claimed_by rh s0" "claimed_by rh s"
  shows "(\<exists>p. pl_pc l = PairEnrolling p \<and> pp_handle p = rh) \<or> (\<exists>i. pl_pc l = PairServing rh i)"
proof -
  have "claimed_by rh s \<longrightarrow> pair_holds rh l"
    using assms(1)
  proof (induction "(s, l)" arbitrary: s l rule: pair_reaches.induct)
    case pair_here
    then show ?case using assms(2) by simp
  next
    case (pair_own sl ev s' l')
    obtain s l where sl: "sl = (s, l)" by (cases sl)
    show ?case using pair_own.hyps(2) [OF sl] pair_step_claim [OF _ pair_own.hyps(3) [unfolded sl]] by blast
  next
    case (pair_other s l op)
    then show ?case using unclaimed_exec [of rh s op he] by blast
  qed
  then show ?thesis using assms(3) by (auto simp: pair_holds_def split: pair_pc.splits)
qed

section \<open>Witnesses\<close>

definition sample_loop :: "(nat, nat) reg_loop" where
  "sample_loop = \<lparr>rl_task = 0, rl_device = ''a'', rl_handle = Handle (replicate 16 0), rl_host_id = ''host'', rl_private = 7,
     rl_remote = [], rl_backoff = backoff_new (relay_config_default 20), rl_seen = 0, rl_pc = RegTop\<rparr>"

lemma sample_present: "store_find ''a'' (hs_store sample_host) \<noteq> None"
  by (simp add: store_find_def sample_host_def host_init_def sample_store_def sample_device_def new_entry_def)

lemma sample_free: "hs_active sample_host = None" "\<not> hs_stopped sample_host" "may_run sample_host"
  by (simp_all add: sample_host_def host_init_def may_run_def)

lemma sample_handshake:
  "\<exists>s l. reg_reaches sample_env (\<lambda>op. \<not> claims (rl_handle sample_loop) op) (sample_host, sample_loop) (s, l)
    \<and> claimed_by (rl_handle sample_loop) s"
proof -
  let ?R = "reg_reaches sample_env (\<lambda>op. \<not> claims (rl_handle sample_loop) op) (sample_host, sample_loop)"
  have d: "rl_device sample_loop = ''a''" "rl_pc sample_loop = RegTop" by (simp_all add: sample_loop_def)
  have 1: "?R (sample_host, sample_loop\<lparr>rl_pc := RegRegistering\<rparr>)"
    by (rule reg_own [OF reg_here, where ev = RV_Pass]) (use sample_present sample_free in \<open>simp add: reg_step_def d\<close>)
  have 2: "?R (set_idle sample_host, sample_loop\<lparr>rl_pc := RegShaking\<rparr>)"
    by (rule reg_own [OF 1, where ev = RV_Registered]) (simp add: reg_step_def)
  let ?s = "(set_idle sample_host)\<lparr>hs_active := Some \<lparr>ac_device_id = Some ''a'', ac_handle = rl_handle sample_loop\<rparr>, hs_link := link_connected\<rparr>"
  have c: "claim_active (Some ''a'') (rl_handle sample_loop) (set_idle sample_host) = Some ?s"
    using sample_free by (simp add: claim_active_def set_idle_def)
  have 3: "?R (touch_device (he_ser sample_env) SaveWorks ''t'' ''a'' ?s,
      sample_loop\<lparr>rl_backoff := record_connected 0 (rl_backoff sample_loop), rl_pc := RegGreeting\<rparr>)"
    by (rule reg_own [OF 2, where ev = "RV_Handshaken 0 SaveWorks ''t'' (\<lambda>_ n. n)"]) (simp add: reg_step_def d c)
  moreover have "claimed_by (rl_handle sample_loop) (touch_device (he_ser sample_env) SaveWorks ''t'' ''a'' ?s)"
    by (simp add: claimed_by_def touch_device_def)
  ultimately show ?thesis by blast
qed


definition empty_host :: "(unit, nat) host_state" where
  "empty_host = sample_host\<lparr>hs_store := \<lparr>ds_file = FileMissing, ds_devices = []\<rparr>\<rparr>"

theorem revoked_loop_never_serves_witness:
  "reg_step (he_ser sample_env) RV_Pass (empty_host, sample_loop) = Some (empty_host, sample_loop\<lparr>rl_pc := RegEnded\<rparr>)"
proof -
  have "ids_distinct (hs_store empty_host)" "store_find (rl_device sample_loop) (hs_store empty_host) = None"
    by (simp_all add: empty_host_def ids_distinct_def store_find_def)
  from revoked_loop_never_serves [OF reg_here this, of sample_env] show ?thesis by (simp add: sample_loop_def)
qed

definition sample_pair_loop :: "(nat, unit) pair_loop" where
  "sample_pair_loop = \<lparr>pl_task = 0, pl_backoff = backoff_new (relay_config_default 20), pl_seen = 0, pl_pc = PairTop\<rparr>"


end
