(* ===== verification/Keybind.thy ===== *)
theory Keybind
  imports Rust_Str
begin

text \<open>
  \<open>herdr-relay/src/keybind.rs\<close>: the default key binding that the startup hook adds to the configuration of
  Herdr. The TOML parser, the file system and the \<open>herdr\<close> child processes are arguments; \<open>files\<close> is what the
  installer relies on of a file system, and a map of paths with a script of faults provides it.
\<close>

section \<open>The binding\<close>

definition DEFAULT_KEY :: string where "DEFAULT_KEY = ''prefix+shift+m''"
definition MARKER_FILE :: string where "MARKER_FILE = ''keybind.installed''"

definition MARKER_COMMENT :: string where
  "MARKER_COMMENT = ''# herdr-relay: default pairing binding. Change the key here; the plugin never rewrites this block.''"

datatype plan = PlanAlreadyBound string | PlanKeyOccupied string | PlanAppend string

datatype outcome =
    OutSkippedMarker
  | OutPathUnresolved
  | OutAlreadyBound string
  | OutKeyOccupied string
  | OutCreated string
  | OutAppended string

fun outcome_kind_name :: "outcome \<Rightarrow> string" where
  "outcome_kind_name OutSkippedMarker = ''skipped''"
| "outcome_kind_name OutPathUnresolved = ''path-unresolved''"
| "outcome_kind_name (OutAlreadyBound key) = ''already-bound''"
| "outcome_kind_name (OutKeyOccupied command) = ''key-occupied''"
| "outcome_kind_name (OutCreated path) = ''created''"
| "outcome_kind_name (OutAppended path) = ''appended''"

datatype keybind_error =
    KB_UnknownAction string
  | KB_Spawn string
  | KB_Parse string
  | KB_Io string string
  | KB_CheckFailed string

fun keybind_error_kind_name :: "keybind_error \<Rightarrow> string" where
  "keybind_error_kind_name (KB_UnknownAction a) = ''unknown action id''"
| "keybind_error_kind_name (KB_Spawn args) = ''could not run herdr''"
| "keybind_error_kind_name (KB_Parse path) = ''config.toml is not valid TOML''"
| "keybind_error_kind_name (KB_Io op path) = op"
| "keybind_error_kind_name (KB_CheckFailed path) = ''herdr config check rejected the write; original restored''"

fun outcome_describe :: "outcome \<Rightarrow> string" where
  "outcome_describe OutSkippedMarker = ''already decided on an earlier run; nothing written''"
| "outcome_describe OutPathUnresolved = ''config path not resolved; nothing written''"
| "outcome_describe (OutAlreadyBound key) = ''already bound by the user to '' @ key @ ''; nothing written''"
| "outcome_describe (OutKeyOccupied command) = DEFAULT_KEY @ '' is taken by another command; nothing written''"
| "outcome_describe (OutCreated path) = ''created config.toml with '' @ DEFAULT_KEY"
| "outcome_describe (OutAppended path) = ''appended '' @ DEFAULT_KEY @ '' to config.toml''"

definition nl :: string where "nl = [CHR 0x0A]"
definition quote :: "string \<Rightarrow> string" where "quote s = [CHR 0x22] @ s @ [CHR 0x22]"

definition block :: "string \<Rightarrow> (string, keybind_error) result" where
  "block action_id =
     (if action_id \<noteq> ''pair'' \<and> action_id \<noteq> ''pair-windows'' then Err (KB_UnknownAction action_id)
      else Ok (MARKER_COMMENT @ nl @ ''[[keys.command]]'' @ nl @ ''key = '' @ quote DEFAULT_KEY @ nl @ ''type = '' @ quote ''plugin_action'' @ nl
        @ ''command = '' @ quote (''herdr-relay.'' @ action_id) @ nl @ ''description = '' @ quote ''pair a phone'' @ nl))"

section \<open>The decision\<close>

text \<open>\<open>toml::Value\<close> as far as the installer looks into it.\<close>

datatype toml = TomlString string | TomlArray "toml list" | TomlTable "(string \<times> toml) list" | TomlOther

fun toml_get :: "string \<Rightarrow> toml \<Rightarrow> toml option" where
  "toml_get k (TomlTable kvs) = map_of kvs k"
| "toml_get k _ = None"

definition toml_str :: "string \<Rightarrow> toml \<Rightarrow> string" where
  "toml_str k v = (case toml_get k v of Some (TomlString s) \<Rightarrow> s | _ \<Rightarrow> [])"

definition commands_of :: "toml \<Rightarrow> toml list" where
  "commands_of doc = (case Option.bind (toml_get ''keys'' doc) (toml_get ''command'') of Some (TomlArray es) \<Rightarrow> es | _ \<Rightarrow> [])"

definition our_command :: "toml \<Rightarrow> bool" where
  "our_command entry \<longleftrightarrow> toml_str ''command'' entry = ''herdr-relay.pair'' \<or> toml_str ''command'' entry = ''herdr-relay.pair-windows''"

definition plan_for :: "(string \<Rightarrow> toml option) \<Rightarrow> string option \<Rightarrow> string \<Rightarrow> (plan, keybind_error) result" where
  "plan_for parse existing action_id =
     bind_result (block action_id) (\<lambda>blk.
       case existing of
         None \<Rightarrow> Ok (PlanAppend blk)
       | Some tx \<Rightarrow>
           (case parse tx of
              None \<Rightarrow> Err (KB_Parse ''config.toml'')
            | Some doc \<Rightarrow>
                (case find our_command (commands_of doc) of
                   Some entry \<Rightarrow> Ok (PlanAlreadyBound (toml_str ''key'' entry))
                 | None \<Rightarrow>
                     (case find (\<lambda>entry. toml_str ''key'' entry = DEFAULT_KEY) (commands_of doc) of
                        Some entry \<Rightarrow> Ok (PlanKeyOccupied (toml_str ''command'' entry))
                      | None \<Rightarrow>
                          Ok (PlanAppend ((if tx = [] \<or> last tx = CHR 0x0A then nl else nl @ nl) @ blk))))))"

definition parse_config_line :: "string \<Rightarrow> string option" where
  "parse_config_line help =
     (case map_option trim (find_map (\<lambda>l. strip_prefix ''Config:'' (trim l)) (str_lines help)) of
        Some path \<Rightarrow> if path = [] then None else Some path
      | None \<Rightarrow> None)"

section \<open>Writing\<close>

text \<open>The file system and the \<open>herdr\<close> children, over a world \<open>'w\<close>: whether a call worked, what a child printed and
  whether it succeeded.\<close>

datatype read_outcome = ReadBytes string | ReadNotFound | ReadFails

record 'w keybind_io =
  kb_mkdir :: "string \<Rightarrow> 'w \<Rightarrow> 'w \<times> bool"
  kb_write :: "string \<Rightarrow> string \<Rightarrow> 'w \<Rightarrow> 'w \<times> bool"
  kb_rename :: "string \<Rightarrow> string \<Rightarrow> 'w \<Rightarrow> 'w \<times> bool"
  kb_remove :: "string \<Rightarrow> 'w \<Rightarrow> 'w \<times> bool"
  kb_read :: "string \<Rightarrow> 'w \<Rightarrow> read_outcome"
  kb_exists :: "string \<Rightarrow> 'w \<Rightarrow> bool"
  kb_run :: "string list \<Rightarrow> 'w \<Rightarrow> 'w \<times> (string \<times> bool) option"
  kb_log :: "string \<Rightarrow> 'w \<Rightarrow> 'w"
  kb_parent :: "string \<Rightarrow> string option"
  kb_temp :: "string \<Rightarrow> string"

definition io_try :: "string \<Rightarrow> string \<Rightarrow> 'w \<times> bool \<Rightarrow> ('w \<Rightarrow> 'w \<times> ('a, keybind_error) result) \<Rightarrow> 'w \<times> ('a, keybind_error) result" where
  "io_try op path r k = (case r of (w, True) \<Rightarrow> k w | (w, False) \<Rightarrow> (w, Err (KB_Io op path)))"

definition write_checked ::
  "'w keybind_io \<Rightarrow> string \<Rightarrow> string option \<Rightarrow> string \<Rightarrow> ('w \<Rightarrow> 'w \<times> bool) \<Rightarrow> 'w \<Rightarrow> 'w \<times> (unit, keybind_error) result" where
  "write_checked io path original candidate check w0 =
     io_try ''create directory'' (case kb_parent io path of Some parent \<Rightarrow> parent | None \<Rightarrow> [])
       (case kb_parent io path of Some parent \<Rightarrow> kb_mkdir io parent w0 | None \<Rightarrow> (w0, True)) (\<lambda>w1.
     io_try ''write'' (kb_temp io path) (kb_write io (kb_temp io path) candidate w1) (\<lambda>w2.
     io_try ''rename'' (kb_temp io path) (kb_rename io (kb_temp io path) path w2) (\<lambda>w3.
       case check w3 of
         (w4, True) \<Rightarrow> (w4, Ok ())
       | (w4, False) \<Rightarrow>
           (case original of
              Some bytes \<Rightarrow> io_try ''restore'' path (kb_write io path bytes w4) (\<lambda>w5. (w5, Err (KB_CheckFailed path)))
            | None \<Rightarrow> io_try ''remove'' path (kb_remove io path w4) (\<lambda>w5. (w5, Err (KB_CheckFailed path)))))))"

definition config_check :: "'w keybind_io \<Rightarrow> 'w \<Rightarrow> 'w \<times> bool" where
  "config_check io w = (case kb_run io [''config'', ''check''] w of (w1, Some (_, success)) \<Rightarrow> (w1, success) | (w1, None) \<Rightarrow> (w1, False))"

definition marker_path :: "string \<Rightarrow> string" where "marker_path state_dir = state_dir @ ''/'' @ MARKER_FILE"

text \<open>The end of \<open>install\<close>: the marker records the kind of the outcome.\<close>

definition write_marker :: "'w keybind_io \<Rightarrow> string \<Rightarrow> outcome \<Rightarrow> 'w \<Rightarrow> 'w \<times> (outcome, keybind_error) result" where
  "write_marker io state_dir outcome w =
     io_try ''create directory'' state_dir (kb_mkdir io state_dir w) (\<lambda>w1.
     io_try ''write'' (marker_path state_dir) (kb_write io (marker_path state_dir) (outcome_kind_name outcome @ nl) w1) (\<lambda>w2.
       (w2, Ok outcome)))"

definition append_binding ::
  "'w keybind_io \<Rightarrow> string \<Rightarrow> string option \<Rightarrow> string \<Rightarrow> 'w \<Rightarrow> 'w \<times> (outcome, keybind_error) result" where
  "append_binding io path original addition w =
     (case write_checked io path original ((case original of Some bytes \<Rightarrow> from_utf8_lossy bytes | None \<Rightarrow> []) @ addition) (config_check io) w of
        (w1, Err e) \<Rightarrow> (w1, Err e)
      | (w1, Ok _) \<Rightarrow>
          (case kb_run io [''server'', ''reload-config''] w1 of
             (w2, None) \<Rightarrow> (w2, Err (KB_Spawn ''server reload-config''))
           | (w2, Some (_, success)) \<Rightarrow>
               (if success then w2
                else kb_log io ''herdr-relay: config written; herdr server reload-config failed, the binding applies on the next reload'' w2,
                Ok (if original \<noteq> None then OutAppended path else OutCreated path))))"

definition install ::
  "(string \<Rightarrow> toml option) \<Rightarrow> 'w keybind_io \<Rightarrow> string \<Rightarrow> string \<Rightarrow> 'w \<Rightarrow> 'w \<times> (outcome, keybind_error) result" where
  "install parse io action_id state_dir w =
     (case block action_id of
        Err e \<Rightarrow> (w, Err e)
      | Ok blk \<Rightarrow>
          if kb_exists io (marker_path state_dir) w then (w, Ok OutSkippedMarker)
          else (case kb_run io [''--help''] w of
             (w1, None) \<Rightarrow> (w1, Err (KB_Spawn ''--help''))
           | (w1, Some (help, _)) \<Rightarrow>
               (case parse_config_line (from_utf8_lossy help) of
                  None \<Rightarrow> (kb_log io (''herdr-relay: could not resolve the Herdr config path; add this to config.toml:'' @ nl @ blk) w1,
                           Ok OutPathUnresolved)
                | Some path \<Rightarrow>
                    (case kb_read io path w1 of
                       ReadFails \<Rightarrow> (w1, Err (KB_Io ''read'' path))
                     | r \<Rightarrow>
                         let original = (case r of ReadBytes b \<Rightarrow> Some b | _ \<Rightarrow> None) in
                         (case plan_for parse (map_option from_utf8_lossy original) action_id of
                            Err (KB_Parse _) \<Rightarrow> (w1, Err (KB_Parse path))
                          | Err e \<Rightarrow> (w1, Err e)
                          | Ok (PlanAlreadyBound key) \<Rightarrow> write_marker io state_dir (OutAlreadyBound key) w1
                          | Ok (PlanKeyOccupied command) \<Rightarrow>
                              write_marker io state_dir (OutKeyOccupied command)
                                (kb_log io (''herdr-relay: '' @ DEFAULT_KEY @ '' is taken by another command; add this to config.toml with another key:'' @ nl @ blk) w1)
                          | Ok (PlanAppend addition) \<Rightarrow>
                              (case append_binding io path original addition w1 of
                                 (w2, Err e) \<Rightarrow> (w2, Err e)
                               | (w2, Ok outcome) \<Rightarrow> write_marker io state_dir outcome w2))))))"

section \<open>What a file system promises\<close>

text \<open>A call that works does what it says, a rename or a removal that fails does nothing, a write that fails leaves
  every other file alone, and making directories, running \<open>herdr\<close> and logging change no file.\<close>

locale files =
  fixes io :: "'w keybind_io" and content :: "'w \<Rightarrow> string \<Rightarrow> string option"
  assumes mkdir_keeps: "content (fst (kb_mkdir io d w)) = content w"
    and write_works: "kb_write io p c w = (w', True) \<Longrightarrow> content w' = (content w)(p \<mapsto> c)"
    and write_fails: "kb_write io p c w = (w', False) \<Longrightarrow> q \<noteq> p \<Longrightarrow> content w' q = content w q"
    and rename_works: "kb_rename io p q w = (w', True) \<Longrightarrow> p \<noteq> q \<Longrightarrow> content w' = (content w)(q := content w p, p := None)"
    and rename_fails: "kb_rename io p q w = (w', False) \<Longrightarrow> content w' = content w"
    and remove_works: "kb_remove io p w = (w', True) \<Longrightarrow> content w' = (content w)(p := None)"
    and remove_fails: "kb_remove io p w = (w', False) \<Longrightarrow> content w' = content w"
    and run_keeps: "content (fst (kb_run io args w)) = content w"
    and log_keeps: "content (kb_log io tx w) = content w"
    and reads: "kb_read io p w = ReadBytes b \<Longrightarrow> content w p = Some b" "kb_read io p w = ReadNotFound \<Longrightarrow> content w p = None"
    and temp_apart: "kb_temp io p \<noteq> p"
begin

text \<open>Only the path and the temporary file are touched. The path holds what it held until the new text was in place; it
  keeps the new text only when the check passed or the way back failed.\<close>

lemma write_checked_outcome:
  assumes "write_checked io path original candidate check w = (w', r)" "content w path = original"
    and check: "\<And>u. content (fst (check u)) = content u"
  shows "q \<noteq> path \<Longrightarrow> q \<noteq> kb_temp io path \<Longrightarrow> content w' q = content w q"
    and "case r of
        Ok _ \<Rightarrow> content w' path = Some candidate
      | Err (KB_Io op p) \<Rightarrow> op = ''restore'' \<or> content w' path = (if op = ''remove'' then Some candidate else original)
      | Err _ \<Rightarrow> content w' path = original"
proof -
  let ?t = "kb_temp io path"
  note apart = temp_apart [of path]
  obtain w1 b1 where w1: "(case kb_parent io path of Some parent \<Rightarrow> kb_mkdir io parent w | None \<Rightarrow> (w, True)) = (w1, b1)" by force
  have c1: "content w1 = content w"
  proof (cases "kb_parent io path")
    case (Some a)
    then show ?thesis using w1 mkdir_keeps [of a w] by simp
  qed (use w1 in simp)
  obtain w2 b2 where w2: "kb_write io ?t candidate w1 = (w2, b2)" by force
  obtain w3 b3 where w3: "kb_rename io ?t path w2 = (w3, b3)" by force
  obtain w4 b4 where w4: "check w3 = (w4, b4)" by force
  have c4: "content w4 = content w3" using check [of w3] w4 by simp
  obtain w5 b5 where w5: "(case original of Some bytes \<Rightarrow> kb_write io path bytes w4 | None \<Rightarrow> kb_remove io path w4) = (w5, b5)" by force
  have run: "write_checked io path original candidate check w =
      (if \<not> b1 then (w1, Err (KB_Io ''create directory'' (case kb_parent io path of Some parent \<Rightarrow> parent | None \<Rightarrow> [])))
       else if \<not> b2 then (w2, Err (KB_Io ''write'' ?t))
       else if \<not> b3 then (w3, Err (KB_Io ''rename'' ?t))
       else if b4 then (w4, Ok ())
       else if b5 then (w5, Err (KB_CheckFailed path))
       else (w5, Err (KB_Io (if original = None then ''remove'' else ''restore'') path)))"
    using w1 w2 w3 w4 w5 by (auto simp: write_checked_def io_try_def split: option.splits)
  consider "\<not> b1" | "b1" "\<not> b2" | "b1" "b2" "\<not> b3" | "b1" "b2" "b3" "b4" | "b1" "b2" "b3" "\<not> b4" by blast
  then have "(\<forall>q. q \<noteq> path \<longrightarrow> q \<noteq> ?t \<longrightarrow> content w' q = content w q) \<and> (case r of
        Ok _ \<Rightarrow> content w' path = Some candidate
      | Err (KB_Io op p) \<Rightarrow> op = ''restore'' \<or> content w' path = (if op = ''remove'' then Some candidate else original)
      | Err _ \<Rightarrow> content w' path = original)"
  proof cases
    case 1
    then show ?thesis using assms(1,2) run c1 by auto
  next
    case 2
    then have "content w2 q = content w q" if "q \<noteq> ?t" for q using write_fails [of ?t candidate w1 w2 q] w2 c1 that by simp
    then show ?thesis using 2 assms(1,2) run apart by auto
  next
    case 3
    then have "content w3 = (content w)(?t \<mapsto> candidate)" using write_works [of ?t candidate w1 w2] rename_fails [of ?t path w2 w3] w2 w3 c1 by simp
    then show ?thesis using 3 assms(1,2) run apart by auto
  next
    case 4
    then have "content w4 = (content w)(path \<mapsto> candidate, ?t := None)"
      using write_works [of ?t candidate w1 w2] rename_works [of ?t path w2 w3] w2 w3 c1 c4 apart by (simp add: fun_upd_twist)
    then show ?thesis using 4 assms(1) run apart by auto
  next
    case 5
    then have c: "content w4 = (content w)(path \<mapsto> candidate, ?t := None)"
      using write_works [of ?t candidate w1 w2] rename_works [of ?t path w2 w3] w2 w3 c1 c4 apart by (simp add: fun_upd_twist)
    show ?thesis
    proof (cases original)
      case None
      then have "content w5 = (if b5 then (content w4)(path := None) else content w4)"
        using w5 remove_works [of path w4 w5] remove_fails [of path w4 w5] by auto
      then show ?thesis using 5 assms(1) run apart None c by (cases b5) auto
    next
      case (Some bytes)
      have "b5 \<Longrightarrow> content w5 = (content w4)(path \<mapsto> bytes)" "\<not> b5 \<Longrightarrow> q \<noteq> path \<Longrightarrow> content w5 q = content w4 q" for q
        using w5 Some write_works [of path bytes w4 w5] write_fails [of path bytes w4 w5 q] by auto
      then show ?thesis using 5 assms(1) run apart Some c by (cases b5) auto
    qed
  qed
  then show "q \<noteq> path \<Longrightarrow> q \<noteq> ?t \<Longrightarrow> content w' q = content w q"
    and "case r of
        Ok _ \<Rightarrow> content w' path = Some candidate
      | Err (KB_Io op p) \<Rightarrow> op = ''restore'' \<or> content w' path = (if op = ''remove'' then Some candidate else original)
      | Err _ \<Rightarrow> content w' path = original" by blast+
qed

lemma write_marker_Ok: "write_marker io dir out w = (w', Ok out') \<Longrightarrow> content w' (marker_path dir) \<noteq> None"
  by (auto simp: write_marker_def io_try_def split: prod.splits bool.splits dest!: write_works)

lemma check_keeps: "content (fst (config_check io u)) = content u"
  using run_keeps [of "[''config'', ''check'']" u] by (auto simp: config_check_def split: prod.split option.split)

end

section \<open>A disk\<close>

text \<open>A map of paths and a script that says of each call whether it works; a write that fails leaves an empty file.\<close>

type_synonym disk = "(string \<Rightarrow> string option) \<times> bool list"

definition scripted :: "(disk \<Rightarrow> disk) \<Rightarrow> disk \<Rightarrow> disk \<Rightarrow> disk \<times> bool" where
  "scripted works fails d =
     (case snd d of
        [] \<Rightarrow> (works d, True)
      | True # script \<Rightarrow> ((fst (works d), script), True)
      | False # script \<Rightarrow> ((fst fails, script), False))"

definition disk_io :: "(string list \<Rightarrow> (string \<times> bool) option) \<Rightarrow> disk keybind_io" where
  "disk_io herdr =
     \<lparr>kb_mkdir = (\<lambda>p d. scripted id d d),
      kb_write = (\<lambda>p c d. scripted (\<lambda>(m, script). (m(p \<mapsto> c), script)) ((fst d)(p \<mapsto> []), snd d) d),
      kb_rename = (\<lambda>p q d. scripted (\<lambda>(m, script). (if p = q then m else m(q := m p, p := None), script)) d d),
      kb_remove = (\<lambda>p d. scripted (\<lambda>(m, script). (m(p := None), script)) d d),
      kb_read = (\<lambda>p (m, script). case m p of Some b \<Rightarrow> ReadBytes b | None \<Rightarrow> ReadNotFound),
      kb_exists = (\<lambda>p (m, script). m p \<noteq> None),
      kb_run = (\<lambda>args d. (d, herdr args)),
      kb_log = (\<lambda>tx d. d),
      kb_parent = (\<lambda>p. None),
      kb_temp = (\<lambda>p. p @ ''.herdr-relay-tmp'')\<rparr>"

lemma scripted_True: "scripted works fails d = (d', True) \<Longrightarrow> fst d' = fst (works d)"
  by (auto simp: scripted_def split: list.splits bool.splits)

lemma scripted_False: "scripted works fails d = (d', False) \<Longrightarrow> fst d' = fst fails"
  by (auto simp: scripted_def split: list.splits bool.splits)

interpretation disk: files "disk_io herdr" fst for herdr
proof (unfold_locales, goal_cases)
  case (1 d w)
  have "fst (fst (scripted id w w)) = fst w" by (simp add: scripted_def split: list.split bool.split)
  then show ?case by (simp add: disk_io_def)
next
  case (2 p c w w')
  then have "scripted (\<lambda>(m, script). (m(p \<mapsto> c), script)) ((fst w)(p \<mapsto> []), snd w) w = (w', True)" by (simp add: disk_io_def)
  from scripted_True [OF this] show ?case by (cases w) simp
next
  case (3 p c w w' q)
  then have "fst w' = (fst w)(p \<mapsto> [])" using scripted_False [of _ "((fst w)(p \<mapsto> []), snd w)" w w'] by (simp add: disk_io_def)
  then show ?case using 3 by simp
next
  case (4 p q w w')
  then have "scripted (\<lambda>(m, script). (if p = q then m else m(q := m p, p := None), script)) w w = (w', True)" by (simp add: disk_io_def)
  from scripted_True [OF this] show ?case using 4(2) by (cases w) simp
next
  case (5 p q w w') then show ?case using scripted_False by (fastforce simp: disk_io_def)
next
  case (6 p w w')
  then have "scripted (\<lambda>(m, script). (m(p := None), script)) w w = (w', True)" by (simp add: disk_io_def)
  from scripted_True [OF this] show ?case by (cases w) simp
next
  case (7 p w w') then show ?case using scripted_False by (fastforce simp: disk_io_def)
next
  case (10 p w b) then show ?case by (cases w) (auto simp: disk_io_def split: option.splits)
next
  case (11 p w) then show ?case by (cases w) (auto simp: disk_io_def split: option.splits)
qed (simp_all add: disk_io_def)


section \<open>Which bindings are left alone\<close>

lemma block_Ok: "block action_id = Ok blk \<longleftrightarrow> (action_id = ''pair'' \<or> action_id = ''pair-windows'') \<and> blk = (case block action_id of Ok b \<Rightarrow> b | Err _ \<Rightarrow> [])"
  by (auto simp: block_def)

text \<open>A binding of the user is never overridden: something is appended only when no entry runs the pairing action
  and none uses the key. What is appended follows the text there was on a line of its own; and when the parser reads
  it as one more entry, planning again finds the action bound to the default key.\<close>

theorem plan_leaves_user_bindings:
  assumes "parse tx = Some doc" "plan_for parse (Some tx) action_id = Ok (PlanAppend addition)"
    and "parse (tx @ addition) = Some doc'" "commands_of doc' = commands_of doc @ [entry]"
    and "toml_str ''command'' entry = ''herdr-relay.'' @ action_id" "toml_str ''key'' entry = DEFAULT_KEY"
  shows "(\<forall>e \<in> set (commands_of doc). \<not> our_command e \<and> toml_str ''key'' e \<noteq> DEFAULT_KEY)
    \<and> (\<exists>blk. block action_id = Ok blk \<and> addition = (if tx = [] \<or> last tx = CHR 0x0A then nl else nl @ nl) @ blk)
    \<and> plan_for parse (Some (tx @ addition)) action_id = Ok (PlanAlreadyBound DEFAULT_KEY)"
proof -
  obtain blk where b: "block action_id = Ok blk" using assms(2) by (cases "block action_id") (auto simp: plan_for_def bind_result_def)
  have n: "find our_command (commands_of doc) = None" "find (\<lambda>e. toml_str ''key'' e = DEFAULT_KEY) (commands_of doc) = None"
    "addition = (if tx = [] \<or> last tx = CHR 0x0A then nl else nl @ nl) @ blk"
    using assms(1,2) b by (auto simp: plan_for_def bind_result_def split: option.splits)
  have a: "action_id = ''pair'' \<or> action_id = ''pair-windows''" using b by (auto simp: block_def split: if_splits)
  then have o1: "our_command entry" using assms(5) by (auto simp: our_command_def)
  have f: "find our_command (xs @ [entry]) = Some entry" if "find our_command xs = None" for xs
    using that o1 by (induction xs) (auto split: if_splits)
  have "plan_for parse (Some (tx @ addition)) action_id = Ok (PlanAlreadyBound DEFAULT_KEY)"
    using assms(3,4,6) b f [OF n(1)] by (simp add: plan_for_def bind_result_def)
  moreover have "\<forall>e \<in> set (commands_of doc). \<not> our_command e \<and> toml_str ''key'' e \<noteq> DEFAULT_KEY"
    using n(1,2) by (auto simp: find_None_iff)
  ultimately show ?thesis using b n(3) by blast
qed


section \<open>One decision\<close>

text \<open>The installer decides once: after a run that came to a decision every later run, whatever \<open>herdr\<close> then says
  and whatever the user made of the configuration, does nothing.\<close>

theorem install_runs_once:
  assumes "install parse (disk_io herdr) action_id dir d = (d', Ok out)" "out \<noteq> OutPathUnresolved"
    and "action_id' = ''pair'' \<or> action_id' = ''pair-windows''"
  shows "install parse' (disk_io herdr') action_id' dir d' = (d', Ok OutSkippedMarker)"
proof -
  have "fst d' (marker_path dir) \<noteq> None"
  proof (cases "kb_exists (disk_io herdr) (marker_path dir) d")
    case True
    then have "d' = d" using assms(1) by (auto simp: install_def split: sum.splits)
    then show ?thesis using True by (cases d) (simp add: disk_io_def)
  next
    case False
    then obtain w1 out' where "write_marker (disk_io herdr) dir out' w1 = (d', Ok out)"
      using assms(1,2)
      by (auto simp: install_def Let_def split: sum.splits prod.splits option.splits read_outcome.splits keybind_error.splits plan.splits)
    from disk.write_marker_Ok [OF this] show ?thesis .
  qed
  then have "kb_exists (disk_io herdr') (marker_path dir) d'" by (cases d') (simp add: disk_io_def)
  moreover have "\<exists>blk. block action_id' = Ok blk" using assms(3) by (auto simp: block_def)
  ultimately show ?thesis by (auto simp: install_def)
qed

text \<open>A configuration that is not valid UTF-8 is not only appended to: its bytes are replaced as well.\<close>

theorem invalid_bytes_rewritten:
  "fst (fst (append_binding (disk_io (\<lambda>_. Some ([], True))) path (Some [CHR 0xFF]) addition (m(path \<mapsto> [CHR 0xFF]), []))) path
    = Some (replacement_char @ addition)"
proof -
  have "from_utf8_lossy [CHR 0xFF] = replacement_char" by code_simp
  then show ?thesis
    by (simp add: append_binding_def write_checked_def io_try_def config_check_def disk_io_def scripted_def)
qed

section \<open>Witnesses\<close>


definition sample_parse :: "string \<Rightarrow> toml option" where
  "sample_parse tx =
     (if tx = [] then Some (TomlTable [])
      else Some (TomlTable [(''keys'', TomlTable [(''command'', TomlArray [TomlTable
        [(''command'', TomlString ''herdr-relay.pair''), (''key'', TomlString DEFAULT_KEY)]])])]))"

theorem plan_leaves_user_bindings_witness:
  "\<exists>addition. plan_for sample_parse (Some []) ''pair'' = Ok (PlanAppend addition)
    \<and> plan_for sample_parse (Some addition) ''pair'' = Ok (PlanAlreadyBound DEFAULT_KEY)"
proof -
  obtain blk where b: "block ''pair'' = Ok blk" by (simp add: block_def)
  have p: "sample_parse [] = Some (TomlTable [])" by (simp add: sample_parse_def)
  have a: "plan_for sample_parse (Some []) ''pair'' = Ok (PlanAppend (nl @ blk))"
    by (simp add: plan_for_def b p commands_of_def)
  let ?e = "TomlTable [(''command'', TomlString ''herdr-relay.pair''), (''key'', TomlString DEFAULT_KEY)]"
  have q: "sample_parse ([] @ (nl @ blk)) = Some (TomlTable [(''keys'', TomlTable [(''command'', TomlArray [?e])])])"
    by (simp add: sample_parse_def nl_def)
  have "commands_of (TomlTable [(''keys'', TomlTable [(''command'', TomlArray [?e])])]) = commands_of (TomlTable []) @ [?e]"
    "toml_str ''command'' ?e = ''herdr-relay.'' @ ''pair''" "toml_str ''key'' ?e = DEFAULT_KEY"
    by (simp_all add: commands_of_def toml_str_def)
  from plan_leaves_user_bindings [OF p a q this] a show ?thesis by auto
qed

theorem install_runs_once_witness:
  "install sample_parse (disk_io (\<lambda>_. None)) ''pair'' ''d'' ([marker_path ''d'' \<mapsto> []], []) = (([marker_path ''d'' \<mapsto> []], []), Ok OutSkippedMarker)"
proof -
  have "install sample_parse (disk_io (\<lambda>_. None)) ''pair'' ''d'' ([marker_path ''d'' \<mapsto> []], []) = (([marker_path ''d'' \<mapsto> []], []), Ok OutSkippedMarker)"
    by (simp add: install_def block_def disk_io_def)
  from install_runs_once [OF this, of "''pair''"] show ?thesis by simp
qed

end
