(* ===== verification/Key_Storage.thy ===== *)
theory Key_Storage
  imports Host_Config Base64_Ref
begin

text \<open>
  \<open>herdr-relay/src/config.rs\<close>, the files of the Host and how they are written, and \<open>herdr-relay/src/keys.rs\<close>, its
  static key. The file system is that of Unix, dirs and files with their modes. Key generation, base64, the JSON of
  the fallback file, BLAKE2s and the outcome of every call of the system and of the credential store are arguments.
\<close>

section \<open>The files of the Host\<close>

record config_paths =
  cp_dir :: string
  cp_os_keyring :: bool

definition paths_new :: "string \<Rightarrow> config_paths" where
  "paths_new dir = \<lparr>cp_dir = dir, cp_os_keyring = False\<rparr>"

definition paths_with_os_keyring :: "string \<Rightarrow> config_paths" where
  "paths_with_os_keyring dir = \<lparr>cp_dir = dir, cp_os_keyring = True\<rparr>"

text \<open>\<open>Path::join\<close> with a relative name.\<close>

definition path_join :: "string \<Rightarrow> string \<Rightarrow> string" where
  "path_join dir name = (if dir = [] \<or> last dir = CHR ''/'' then dir @ name else dir @ ''/'' @ name)"

definition config_file_path :: "config_paths \<Rightarrow> string" where
  "config_file_path p = path_join (cp_dir p) ''config.toml''"

definition state_file_path :: "config_paths \<Rightarrow> string" where
  "state_file_path p = path_join (cp_dir p) ''state.json''"

definition log_file_path :: "config_paths \<Rightarrow> string" where
  "log_file_path p = path_join (cp_dir p) ''relay.log''"

definition keypair_fallback_file :: "config_paths \<Rightarrow> string" where
  "keypair_fallback_file p = path_join (cp_dir p) ''host-keypair.json''"

definition paired_devices_file :: "config_paths \<Rightarrow> string" where
  "paired_devices_file p = path_join (cp_dir p) ''paired-devices.json''"

definition wordlist_cache_file :: "config_paths \<Rightarrow> string" where
  "wordlist_cache_file p = path_join (cp_dir p) ''wordlist-cache.txt''"

datatype config_dir_error = ConfigDirSpawn | ConfigDirStatus | ConfigDirEmpty

text \<open>The argument is what \<open>herdr plugin config-dir herdr-relay\<close> printed and whether it succeeded, if it ran.\<close>

definition resolve_config_dir :: "(string \<times> bool) option \<Rightarrow> (string, config_dir_error) result" where
  "resolve_config_dir output =
     (case output of
        None \<Rightarrow> Err ConfigDirSpawn
      | Some (stdout, success) \<Rightarrow>
          if \<not> success then Err ConfigDirStatus
          else let trimmed = trim (from_utf8_lossy stdout) in
            if trimmed = [] then Err ConfigDirEmpty else Ok trimmed)"

text \<open>\<open>call_bounded\<close>: \<open>finished\<close> is what the thread sent before the timeout, if it did.\<close>

datatype io_kind = NotFound | TimedOut | OtherIo

definition FILE_READ_TIMEOUT :: duration where "FILE_READ_TIMEOUT = ms 5000"

definition call_bounded :: "io_kind option \<Rightarrow> ('a, io_kind) result option \<Rightarrow> ('a, io_kind) result" where
  "call_bounded spawn_error finished =
     (case spawn_error of
        Some e \<Rightarrow> Err e
      | None \<Rightarrow> (case finished of Some r \<Rightarrow> r | None \<Rightarrow> Err TimedOut))"

section \<open>Writing a file only its owner can read\<close>

text \<open>Directories and files with their modes; \<open>umask_dir\<close> and \<open>umask_file\<close> are the modes of new ones.\<close>

record unix_fs =
  fs_dirs :: "string \<Rightarrow> nat option"
  fs_files :: "string \<Rightarrow> (string \<times> nat) option"

datatype fs_op = CreateDirAll string | SetDirMode string | WriteFile string string | SetFileMode string

datatype write_error = CreateDirFails string | RestrictFails string | WriteFails string

definition PRIVATE_DIR :: nat where "PRIVATE_DIR = 7 * 64"
definition PRIVATE_FILE :: nat where "PRIVATE_FILE = 6 * 64"

fun fs_apply :: "nat \<Rightarrow> nat \<Rightarrow> fs_op \<Rightarrow> unix_fs \<Rightarrow> unix_fs" where
  "fs_apply umask_dir umask_file (CreateDirAll d) fs =
     (if fs_dirs fs d = None then fs\<lparr>fs_dirs := (fs_dirs fs)(d \<mapsto> umask_dir)\<rparr> else fs)"
| "fs_apply umask_dir umask_file (SetDirMode d) fs =
     (if fs_dirs fs d = None then fs else fs\<lparr>fs_dirs := (fs_dirs fs)(d \<mapsto> PRIVATE_DIR)\<rparr>)"
| "fs_apply umask_dir umask_file (WriteFile p c) fs =
     fs\<lparr>fs_files := (fs_files fs)(p \<mapsto> (c, case fs_files fs p of Some (_, m) \<Rightarrow> m | None \<Rightarrow> umask_file))\<rparr>"
| "fs_apply umask_dir umask_file (SetFileMode p) fs =
     (case fs_files fs p of Some (c, _) \<Rightarrow> fs\<lparr>fs_files := (fs_files fs)(p \<mapsto> (c, PRIVATE_FILE))\<rparr> | None \<Rightarrow> fs)"

fun op_error :: "fs_op \<Rightarrow> write_error" where
  "op_error (CreateDirAll d) = CreateDirFails d"
| "op_error (SetDirMode d) = RestrictFails d"
| "op_error (WriteFile p c) = WriteFails p"
| "op_error (SetFileMode p) = RestrictFails p"

definition create_restricted_dir :: "string \<Rightarrow> fs_op list" where
  "create_restricted_dir dir = [CreateDirAll dir, SetDirMode dir]"

definition restrict_file :: "string \<Rightarrow> fs_op list" where
  "restrict_file path = [SetFileMode path]"

definition write_restricted_file :: "string option \<Rightarrow> string \<Rightarrow> string \<Rightarrow> fs_op list" where
  "write_restricted_file parent path contents =
     (case parent of Some dir \<Rightarrow> create_restricted_dir dir | None \<Rightarrow> []) @ [WriteFile path contents] @ restrict_file path"

text \<open>
  A run stops at the first call that fails; a write that fails leaves a part of its text. The list holds every state
  the run passes, so a process that dies in between leaves one of them. Calls beyond the script work.
\<close>

datatype step_outcome = StepWorks | StepFails "string option"

fun fs_fail :: "nat \<Rightarrow> string option \<Rightarrow> fs_op \<Rightarrow> unix_fs \<Rightarrow> unix_fs" where
  "fs_fail umask_file (Some part) (WriteFile p c) fs = fs_apply 0 umask_file (WriteFile p part) fs"
| "fs_fail umask_file part op fs = fs"

fun fs_run :: "nat \<Rightarrow> nat \<Rightarrow> fs_op list \<Rightarrow> step_outcome list \<Rightarrow> unix_fs \<Rightarrow> unix_fs list \<times> (unit, write_error) result" where
  "fs_run umask_dir umask_file [] script fs = ([fs], Ok ())"
| "fs_run umask_dir umask_file (op # ops) script fs =
     (case script of
        StepFails part # _ \<Rightarrow> ([fs, fs_fail umask_file part op fs], Err (op_error op))
      | _ \<Rightarrow>
          (case fs_run umask_dir umask_file ops (drop 1 script) (fs_apply umask_dir umask_file op fs) of
             (states, r) \<Rightarrow> (fs # states, r)))"

text \<open>The arguments of \<open>icacls\<close> on Windows; \<open>username\<close> is the environment variable.\<close>

definition icacls_args :: "string option \<Rightarrow> string \<Rightarrow> bool \<Rightarrow> string list" where
  "icacls_args username path is_container =
     (let user = (case username of Some u \<Rightarrow> u | None \<Rightarrow> ''%USERNAME%'');
          perm = (if is_container then ''(OI)(CI)F'' else ''F'')
      in [path, ''/inheritance:r'', ''/grant:r'', user @ '':'' @ perm, ''/grant:r'', ''SYSTEM:'' @ perm])"

section \<open>The key of the Host\<close>

definition KEYRING_SERVICE :: string where "KEYRING_SERVICE = ''herdr-relay''"
definition KEYRING_USERNAME :: string where "KEYRING_USERNAME = ''host-keypair''"

type_synonym key_bytes = "8 word list"

record host_keypair =
  kp_private :: key_bytes
  kp_public :: key_bytes

definition keypair_ok :: "host_keypair \<Rightarrow> bool" where
  "keypair_ok kp \<longleftrightarrow> length (kp_private kp) = 32 \<and> length (kp_public kp) = 32"

datatype keys_error =
    GenerateFails
  | FallbackLength
  | FallbackDecode
  | FallbackRead
  | FallbackParse
  | FallbackWrite write_error
  | KeyringLength

record fallback_file =
  ff_private :: string
  ff_public :: string

definition to_keyring_bytes :: "host_keypair \<Rightarrow> key_bytes" where
  "to_keyring_bytes kp = kp_private kp @ kp_public kp"

definition split_64 :: "key_bytes \<Rightarrow> (key_bytes \<times> key_bytes) option" where
  "split_64 bytes = (if length bytes \<noteq> 64 then None else Some (take 32 bytes, drop 32 bytes))"

definition from_keyring_bytes :: "key_bytes \<Rightarrow> (host_keypair, keys_error) result" where
  "from_keyring_bytes bytes =
     (case split_64 bytes of
        None \<Rightarrow> Err KeyringLength
      | Some (private, public) \<Rightarrow> Ok \<lparr>kp_private = private, kp_public = public\<rparr>)"

text \<open>The base64 engine and the JSON of a \<open>FallbackFile\<close>.\<close>

record key_codec =
  kc_encode :: "key_bytes \<Rightarrow> string"
  kc_decode :: "string \<Rightarrow> key_bytes option"
  kc_to_json :: "fallback_file \<Rightarrow> string"
  kc_of_json :: "string \<Rightarrow> fallback_file option"

definition to_fallback_file :: "key_codec \<Rightarrow> host_keypair \<Rightarrow> fallback_file" where
  "to_fallback_file c kp = \<lparr>ff_private = kc_encode c (kp_private kp), ff_public = kc_encode c (kp_public kp)\<rparr>"

definition from_fallback_file :: "key_codec \<Rightarrow> fallback_file \<Rightarrow> (host_keypair, keys_error) result" where
  "from_fallback_file c f =
     (case (kc_decode c (ff_private f), kc_decode c (ff_public f)) of
        (Some private, Some public) \<Rightarrow>
          if length private = 32 \<and> length public = 32 then Ok \<lparr>kp_private = private, kp_public = public\<rparr>
          else Err FallbackLength
      | _ \<Rightarrow> Err FallbackDecode)"

definition hex_lower :: "nat \<Rightarrow> char" where
  "hex_lower n = (if n < 10 then char_of (48 + n) else char_of (87 + n))"

definition fingerprint_of :: "(key_bytes \<Rightarrow> key_bytes) \<Rightarrow> key_bytes \<Rightarrow> string" where
  "fingerprint_of digest public_key =
     (let hex = concat (map (\<lambda>b. [hex_lower (unat b div 16), hex_lower (unat b mod 16)]) (take 8 (digest public_key)))
      in take 4 hex @ ''-'' @ take 4 (drop 4 hex) @ ''-'' @ take 4 (drop 8 hex) @ ''-'' @ take 4 (drop 12 hex))"

section \<open>Where the key is kept\<close>

text \<open>What the two stores hold, and what the world does to one call of \<open>load_or_generate\<close> or \<open>rotate\<close>.\<close>

record key_store =
  ks_secret :: "key_bytes option"
  ks_fs :: unix_fs

record key_env =
  ke_entry :: bool
  ke_get :: bool
  ke_set :: bool
  ke_read :: bool
  ke_parent :: "string option"
  ke_umask_dir :: nat
  ke_umask_file :: nat
  ke_write :: "step_outcome list"
  ke_generated :: "host_keypair option"

definition generate_keypair :: "key_env \<Rightarrow> (host_keypair, keys_error) result" where
  "generate_keypair e = ok_or GenerateFails (ke_generated e)"

definition fallback_read :: "key_codec \<Rightarrow> config_paths \<Rightarrow> key_env \<Rightarrow> key_store \<Rightarrow> (host_keypair option, keys_error) result" where
  "fallback_read c p e st =
     (if \<not> ke_read e then Err FallbackRead
      else case fs_files (ks_fs st) (keypair_fallback_file p) of
        None \<Rightarrow> Ok None
      | Some (tx, _) \<Rightarrow>
          if \<not> valid_utf8 tx then Err FallbackRead
          else (case kc_of_json c tx of
                  None \<Rightarrow> Err FallbackParse
                | Some f \<Rightarrow> (case from_fallback_file c f of Ok kp \<Rightarrow> Ok (Some kp) | Err x \<Rightarrow> Err x)))"

definition fallback_write :: "key_codec \<Rightarrow> config_paths \<Rightarrow> key_env \<Rightarrow> host_keypair \<Rightarrow> key_store \<Rightarrow> key_store \<times> (unit, keys_error) result" where
  "fallback_write c p e kp st =
     (case fs_run (ke_umask_dir e) (ke_umask_file e)
             (write_restricted_file (ke_parent e) (keypair_fallback_file p) (kc_to_json c (to_fallback_file c kp)))
             (ke_write e) (ks_fs st) of
        (states, r) \<Rightarrow>
          (st\<lparr>ks_fs := last states\<rparr>, case r of Ok _ \<Rightarrow> Ok () | Err x \<Rightarrow> Err (FallbackWrite x)))"

text \<open>A generated key that goes to the fallback file.\<close>

definition keep_in_file :: "key_codec \<Rightarrow> config_paths \<Rightarrow> key_env \<Rightarrow> host_keypair \<Rightarrow> key_store \<Rightarrow> key_store \<times> (host_keypair, keys_error) result" where
  "keep_in_file c p e kp st =
     (case fallback_write c p e kp st of (st1, Ok _) \<Rightarrow> (st1, Ok kp) | (st1, Err x) \<Rightarrow> (st1, Err x))"

definition fallback_load_or_generate ::
  "key_codec \<Rightarrow> config_paths \<Rightarrow> key_env \<Rightarrow> key_store \<Rightarrow> key_store \<times> (host_keypair, keys_error) result" where
  "fallback_load_or_generate c p e st =
     (case fallback_read c p e st of
        Err x \<Rightarrow> (st, Err x)
      | Ok (Some kp) \<Rightarrow> (st, Ok kp)
      | Ok None \<Rightarrow>
          (case generate_keypair e of
             Err x \<Rightarrow> (st, Err x)
           | Ok kp \<Rightarrow> keep_in_file c p e kp st))"

definition load_or_generate ::
  "key_codec \<Rightarrow> config_paths \<Rightarrow> key_env \<Rightarrow> key_store \<Rightarrow> key_store \<times> (host_keypair, keys_error) result" where
  "load_or_generate c p e st =
     (if \<not> cp_os_keyring p \<or> \<not> ke_entry e \<or> \<not> ke_get e then fallback_load_or_generate c p e st
      else case ks_secret st of
        Some bytes \<Rightarrow> (st, from_keyring_bytes bytes)
      | None \<Rightarrow>
          (case generate_keypair e of
             Err x \<Rightarrow> (st, Err x)
           | Ok kp \<Rightarrow>
               if ke_set e then (st\<lparr>ks_secret := Some (to_keyring_bytes kp)\<rparr>, Ok kp)
               else keep_in_file c p e kp st))"

definition rotate_keypair ::
  "key_codec \<Rightarrow> config_paths \<Rightarrow> key_env \<Rightarrow> key_store \<Rightarrow> key_store \<times> (host_keypair, keys_error) result" where
  "rotate_keypair c p e st =
     (case generate_keypair e of
        Err x \<Rightarrow> (st, Err x)
      | Ok kp \<Rightarrow>
          if cp_os_keyring p \<and> ke_entry e \<and> ke_set e then (st\<lparr>ks_secret := Some (to_keyring_bytes kp)\<rparr>, Ok kp)
          else keep_in_file c p e kp st)"

section \<open>The file is private while it is written\<close>

lemma fs_fail_sel [simp]:
  "fs_dirs (fs_fail uf part op fs) = fs_dirs fs" "q \<noteq> p \<Longrightarrow> fs_files (fs_fail uf part (WriteFile p c) fs) q = fs_files fs q"
  by (cases op; cases part; simp) (cases part; simp)

lemma fs_run_Ok:
  assumes "fs_run ud uf (write_restricted_file parent path contents) script fs = (states, Ok ())"
  shows "fs_files (last states) path = Some (contents, PRIVATE_FILE)"
  using assms
  by (cases parent)
     (auto simp: write_restricted_file_def create_restricted_dir_def restrict_file_def
        split: list.splits step_outcome.splits prod.splits option.splits if_splits)


section \<open>Which key the next start finds\<close>

lemma keyring_roundtrip: "keypair_ok kp \<Longrightarrow> from_keyring_bytes (to_keyring_bytes kp) = Ok kp"
  by (simp add: from_keyring_bytes_def to_keyring_bytes_def split_64_def keypair_ok_def)

text \<open>What the file relies on of base64 and of the JSON writer.\<close>

definition key_codec_ok :: "key_codec \<Rightarrow> bool" where
  "key_codec_ok c \<longleftrightarrow> (\<forall>k. kc_decode c (kc_encode c k) = Some k)
     \<and> (\<forall>kp. kc_of_json c (kc_to_json c (to_fallback_file c kp)) = Some (to_fallback_file c kp) \<and> valid_utf8 (kc_to_json c (to_fallback_file c kp)))"

lemma fallback_roundtrip: "key_codec_ok c \<Longrightarrow> keypair_ok kp \<Longrightarrow> from_fallback_file c (to_fallback_file c kp) = Ok kp"
  by (simp add: from_fallback_file_def to_fallback_file_def keypair_ok_def key_codec_ok_def)

definition reads_keyring :: "config_paths \<Rightarrow> key_env \<Rightarrow> bool" where
  "reads_keyring p e \<longleftrightarrow> cp_os_keyring p \<and> ke_entry e \<and> ke_get e"

lemma load_from_file: "\<not> reads_keyring p e \<Longrightarrow> load_or_generate c p e st = fallback_load_or_generate c p e st"
  by (auto simp: load_or_generate_def reads_keyring_def)

lemma load_from_keyring:
  "reads_keyring p e \<Longrightarrow> ks_secret st = Some bytes \<Longrightarrow> load_or_generate c p e st = (st, from_keyring_bytes bytes)"
  by (simp add: load_or_generate_def reads_keyring_def)

lemma keep_in_file_Ok:
  assumes "keep_in_file c p e kp st = (st1, Ok kp1)" "key_codec_ok c" "keypair_ok kp"
  shows "kp1 = kp \<and> ks_secret st1 = ks_secret st \<and> (ke_read e2 \<longrightarrow> fallback_read c p e2 st1 = Ok (Some kp))"
proof -
  obtain states r where run: "fs_run (ke_umask_dir e) (ke_umask_file e)
      (write_restricted_file (ke_parent e) (keypair_fallback_file p) (kc_to_json c (to_fallback_file c kp))) (ke_write e) (ks_fs st) = (states, r)" by force
  then have r: "r = Ok ()" "kp1 = kp" "st1 = st\<lparr>ks_fs := last states\<rparr>"
    using assms(1) by (auto simp: keep_in_file_def fallback_write_def split: sum.splits)
  have "fs_files (last states) (keypair_fallback_file p) = Some (kc_to_json c (to_fallback_file c kp), PRIVATE_FILE)"
    using fs_run_Ok run r(1) by blast
  then show ?thesis
    using r assms(2) fallback_roundtrip [OF assms(2,3)] by (auto simp: fallback_read_def key_codec_ok_def)
qed

lemma fallback_load_Ok:
  assumes "fallback_load_or_generate c p e st = (st1, Ok kp)" "key_codec_ok c" "\<And>kp. ke_generated e = Some kp \<Longrightarrow> keypair_ok kp" "ke_read e2"
  shows "fallback_read c p e2 st1 = Ok (Some kp)"
proof (cases "fallback_read c p e st")
  case (Inl x)
  then show ?thesis using assms(1) by (simp add: fallback_load_or_generate_def)
next
  case (Inr found)
  show ?thesis
  proof (cases found)
    case (Some k)
    then have "st1 = st" "k = kp" "ke_read e" using assms(1) Inr by (auto simp: fallback_load_or_generate_def fallback_read_def split: if_splits)
    then show ?thesis using Inr Some assms(4) by (simp add: fallback_read_def)
  next
    case None
    then obtain k where k: "ke_generated e = Some k" "keep_in_file c p e k st = (st1, Ok kp)"
      using assms(1) Inr by (auto simp: fallback_load_or_generate_def generate_keypair_def ok_or_def split: option.splits)
    then show ?thesis using keep_in_file_Ok [OF k(2) assms(2), of e2] assms(3,4) by auto
  qed
qed

text \<open>C37: the identity of the Host is kept: when two starts read the same of the two stores and the credential store did not
  refuse the new key, the second start has the key of the first, whatever it could have generated.\<close>

theorem loaded_key_stays:
  assumes "load_or_generate c p e1 st = (st1, Ok kp)" "key_codec_ok c" "\<And>kp. ke_generated e1 = Some kp \<Longrightarrow> keypair_ok kp"
    and "reads_keyring p e2 = reads_keyring p e1" "if reads_keyring p e1 then ks_secret st \<noteq> None \<or> ke_set e1 else ke_read e2"
  shows "load_or_generate c p e2 st1 = (st1, Ok kp)"
proof (cases "reads_keyring p e1")
  case False
  then have "fallback_read c p e2 st1 = Ok (Some kp)" using fallback_load_Ok [OF _ assms(2,3)] assms(1,5) load_from_file [OF False] by simp
  then show ?thesis using False assms(4) load_from_file [of p e2] by (simp add: fallback_load_or_generate_def)
next
  case True
  then have r2: "reads_keyring p e2" using assms(4) by simp
  show ?thesis
  proof (cases "ks_secret st")
    case (Some bytes)
    then show ?thesis using load_from_keyring [OF True Some] load_from_keyring [OF r2] assms(1) by auto
  next
    case None
    then have k: "ke_generated e1 = Some kp" "st1 = st\<lparr>ks_secret := Some (to_keyring_bytes kp)\<rparr>"
      using assms(1,5) True by (auto simp: load_or_generate_def reads_keyring_def generate_keypair_def ok_or_def split: option.splits)
    have "keypair_ok kp" using assms(3) k(1) by blast
    then show ?thesis using k(2) load_from_keyring [OF r2, of st1] keyring_roundtrip by simp
  qed
qed

text \<open>A key the credential store refuses is lost: the first start writes it to the fallback file, but the next start asks
  the store first, finds no entry and takes another new key, although the file holds the first one.\<close>

theorem refused_key_forgotten:
  assumes "reads_keyring p e1" "reads_keyring p e2" "\<not> ke_set e1" "\<not> ke_set e2" "ks_secret st = None"
    and "ke_generated e1 = Some kp1" "ke_generated e2 = Some kp2" "key_codec_ok c" "keypair_ok kp1" "ke_read e2"
    and "ke_write e1 = []" "ke_write e2 = []"
  shows "\<exists>st1 st2. load_or_generate c p e1 st = (st1, Ok kp1) \<and> fallback_read c p e2 st1 = Ok (Some kp1)
    \<and> load_or_generate c p e2 st1 = (st2, Ok kp2)"
proof -
  have works: "\<exists>st1. keep_in_file c p e kp s = (st1, Ok kp)" if "ke_write e = []" for e kp s
    using that by (cases "ke_parent e")
      (simp_all add: keep_in_file_def fallback_write_def write_restricted_file_def create_restricted_dir_def restrict_file_def)
  obtain st1 where st1: "keep_in_file c p e1 kp1 st = (st1, Ok kp1)" using works [OF assms(11)] by blast
  obtain st2 where st2: "keep_in_file c p e2 kp2 st1 = (st2, Ok kp2)" using works [OF assms(12)] by blast
  note k = keep_in_file_Ok [OF st1 assms(8,9), of e2]
  have "load_or_generate c p e1 st = (st1, Ok kp1)"
    using assms(1,3,5,6) st1 by (simp add: load_or_generate_def reads_keyring_def generate_keypair_def ok_or_def)
  moreover have "load_or_generate c p e2 st1 = (st2, Ok kp2)"
    using assms(2,4,5,7) st2 k by (simp add: load_or_generate_def reads_keyring_def generate_keypair_def ok_or_def)
  ultimately show ?thesis using k assms(10) by blast
qed

text \<open>A rotation that succeeds can be undone by a restart: when the credential store refuses the new key, the rotation
  reports success with the new key in the fallback file, and the next start reads the old key from the store.\<close>

theorem rotation_undone_by_restart:
  assumes "ks_secret st = Some (to_keyring_bytes old)" "keypair_ok old" "reads_keyring p e2"
    and "\<not> ke_set e1" "ke_generated e1 = Some new" "ke_write e1 = []"
  shows "\<exists>st1. rotate_keypair c p e1 st = (st1, Ok new) \<and> load_or_generate c p e2 st1 = (st1, Ok old)"
proof -
  obtain st1 where st1: "keep_in_file c p e1 new st = (st1, Ok new)" "ks_secret st1 = ks_secret st"
    using assms(6) by (cases "ke_parent e1")
      (simp_all add: keep_in_file_def fallback_write_def write_restricted_file_def create_restricted_dir_def restrict_file_def)
  have "rotate_keypair c p e1 st = (st1, Ok new)" using assms(4,5) st1 by (simp add: rotate_keypair_def generate_keypair_def ok_or_def)
  moreover have "load_or_generate c p e2 st1 = (st1, Ok old)"
    using load_from_keyring [OF assms(3), of st1] st1(2) assms(1) keyring_roundtrip [OF assms(2)] by simp
  ultimately show ?thesis by blast
qed

text \<open>Otherwise a rotation lasts: when the next start reads the store the new key went to, it has the new key.\<close>

theorem rotated_key_stays:
  assumes "rotate_keypair c p e1 st = (st1, Ok new)" "key_codec_ok c" "\<And>kp. ke_generated e1 = Some kp \<Longrightarrow> keypair_ok kp"
    and "if cp_os_keyring p \<and> ke_entry e1 \<and> ke_set e1 then reads_keyring p e2 else \<not> reads_keyring p e2 \<and> ke_read e2"
  shows "load_or_generate c p e2 st1 = (st1, Ok new)"
proof -
  obtain kp where kp: "ke_generated e1 = Some kp" using assms(1) by (auto simp: rotate_keypair_def generate_keypair_def ok_or_def split: option.splits)
  have ok: "keypair_ok kp" using assms(3) kp by blast
  show ?thesis
  proof (cases "cp_os_keyring p \<and> ke_entry e1 \<and> ke_set e1")
    case True
    then have "new = kp" "ks_secret st1 = Some (to_keyring_bytes kp)"
      using assms(1) kp by (auto simp: rotate_keypair_def generate_keypair_def ok_or_def)
    then show ?thesis using load_from_keyring [of p e2 st1] True assms(4) keyring_roundtrip [OF ok] by simp
  next
    case False
    then have "keep_in_file c p e1 kp st = (st1, Ok new)"
      using assms(1) kp by (auto simp: rotate_keypair_def generate_keypair_def ok_or_def)
    from keep_in_file_Ok [OF this assms(2) ok, of e2] False assms(4) load_from_file [of p e2]
    show ?thesis by (auto simp: fallback_load_or_generate_def)
  qed
qed

section \<open>Witnesses\<close>

definition sample_codec :: key_codec where
  "sample_codec = \<lparr>kc_encode = ref_enc, kc_decode = ref_dec, kc_to_json = (\<lambda>f. ff_private f @ ''|'' @ ff_public f),
     kc_of_json = (\<lambda>tx. map_option (\<lambda>(a, b). \<lparr>ff_private = a, ff_public = b\<rparr>) (split_once ''|'' tx))\<rparr>"

lemma b64_plain: "list_all b64_char s \<Longrightarrow> list_all is_ascii s \<and> CHR ''|'' \<notin> set s"
proof -
  have "b64_char ch \<Longrightarrow> is_ascii ch" for ch
    by (auto simp: b64_char_def is_upper_def is_lower_def is_digit_def is_ascii_def)
  moreover have "\<not> b64_char CHR ''|''" by (simp add: b64_char_def is_upper_def is_lower_def is_digit_def)
  ultimately show "list_all b64_char s \<Longrightarrow> list_all is_ascii s \<and> CHR ''|'' \<notin> set s"
    unfolding list_all_iff by blast
qed

lemma sample_codec_ok: "key_codec_ok sample_codec"
proof -
  have enc: "list_all is_ascii (ref_enc k)" "CHR ''|'' \<notin> set (ref_enc k)" for k
    using b64_plain [OF url_safe_no_padD(4) [OF ref_codec]] by auto
  have dec: "ref_dec (ref_enc k) = Some k" for k by (rule url_safe_no_padD(1) [OF ref_codec])
  have a: "is_ascii CHR ''|''" by code_simp
  show ?thesis
    using enc dec a split_once_char [OF enc(2)]
    by (auto simp: key_codec_ok_def sample_codec_def to_fallback_file_def intro!: valid_utf8_ascii)
qed

definition sample_key :: "nat \<Rightarrow> host_keypair" where
  "sample_key n = \<lparr>kp_private = replicate 32 (of_nat n), kp_public = replicate 32 0\<rparr>"

definition sample_key_env :: "bool \<Rightarrow> nat \<Rightarrow> key_env" where
  "sample_key_env sets n = \<lparr>ke_entry = True, ke_get = True, ke_set = sets, ke_read = True, ke_parent = Some ''d'', ke_umask_dir = 493,
     ke_umask_file = 420, ke_write = [], ke_generated = Some (sample_key n)\<rparr>"

definition empty_keys :: key_store where
  "empty_keys = \<lparr>ks_secret = None, ks_fs = \<lparr>fs_dirs = (\<lambda>_. None), fs_files = (\<lambda>_. None)\<rparr>\<rparr>"

lemma sample_key_ok [simp]: "keypair_ok (sample_key n)"
  by (simp add: keypair_ok_def sample_key_def)


theorem loaded_key_stays_witness:
  "\<exists>st1. load_or_generate sample_codec (paths_with_os_keyring ''d'') (sample_key_env True 1) empty_keys = (st1, Ok (sample_key 1))
    \<and> load_or_generate sample_codec (paths_with_os_keyring ''d'') (sample_key_env True 2) st1 = (st1, Ok (sample_key 1))"
proof -
  obtain st1 where st1: "load_or_generate sample_codec (paths_with_os_keyring ''d'') (sample_key_env True 1) empty_keys = (st1, Ok (sample_key 1))"
    by (simp add: load_or_generate_def paths_with_os_keyring_def sample_key_env_def empty_keys_def generate_keypair_def ok_or_def)
  have "load_or_generate sample_codec (paths_with_os_keyring ''d'') (sample_key_env True 2) st1 = (st1, Ok (sample_key 1))"
    by (rule loaded_key_stays [OF st1 sample_codec_ok]) (auto simp: sample_key_env_def reads_keyring_def)
  with st1 show ?thesis by blast
qed

theorem refused_key_forgotten_witness:
  "\<exists>st1 st2. load_or_generate sample_codec (paths_with_os_keyring ''d'') (sample_key_env False 1) empty_keys = (st1, Ok (sample_key 1))
    \<and> load_or_generate sample_codec (paths_with_os_keyring ''d'') (sample_key_env False 2) st1 = (st2, Ok (sample_key 2))"
proof -
  have r: "reads_keyring (paths_with_os_keyring ''d'') (sample_key_env False n)" for n
    by (simp add: reads_keyring_def paths_with_os_keyring_def sample_key_env_def)
  have e: "\<not> ke_set (sample_key_env False n)" "ke_generated (sample_key_env False n) = Some (sample_key n)" "ke_write (sample_key_env False n) = []"
    "ke_read (sample_key_env False n)" for n by (simp_all add: sample_key_env_def)
  have "ks_secret empty_keys = None" by (simp add: empty_keys_def)
  from refused_key_forgotten [OF r r e(1) e(1) this e(2) e(2) sample_codec_ok sample_key_ok e(4) e(3) e(3), of 1 2]
  show ?thesis by blast
qed

theorem rotation_undone_by_restart_witness:
  "\<exists>st1. rotate_keypair sample_codec (paths_with_os_keyring ''d'') (sample_key_env False 2) (empty_keys\<lparr>ks_secret := Some (to_keyring_bytes (sample_key 1))\<rparr>)
      = (st1, Ok (sample_key 2))
    \<and> load_or_generate sample_codec (paths_with_os_keyring ''d'') (sample_key_env True 3) st1 = (st1, Ok (sample_key 1))"
  by (rule rotation_undone_by_restart) (simp_all add: reads_keyring_def paths_with_os_keyring_def sample_key_env_def)

theorem rotated_key_stays_witness:
  "\<exists>st1. rotate_keypair sample_codec (paths_with_os_keyring ''d'') (sample_key_env True 2) empty_keys = (st1, Ok (sample_key 2))
    \<and> load_or_generate sample_codec (paths_with_os_keyring ''d'') (sample_key_env True 3) st1 = (st1, Ok (sample_key 2))"
proof -
  obtain st1 where st1: "rotate_keypair sample_codec (paths_with_os_keyring ''d'') (sample_key_env True 2) empty_keys = (st1, Ok (sample_key 2))"
    by (simp add: rotate_keypair_def paths_with_os_keyring_def sample_key_env_def generate_keypair_def ok_or_def)
  have "load_or_generate sample_codec (paths_with_os_keyring ''d'') (sample_key_env True 3) st1 = (st1, Ok (sample_key 2))"
    by (rule rotated_key_stays [OF st1 sample_codec_ok]) (auto simp: sample_key_env_def reads_keyring_def paths_with_os_keyring_def)
  with st1 show ?thesis by blast
qed

end
