(* ===== verification/Herdr_Client.thy ===== *)
theory Herdr_Client
  imports Watch_Core
begin

text \<open>
  \<open>herdr-relay/src/ipc/\<close>, the client of the Herdr socket, and its implementation of the trait of
  \<open>watch/herdr_calls.rs\<close>: where the socket is found, one connection per request with one retry, the bounded line
  reader and the subscription. Herdr at the other end is a list of attempts, what each connection does in turn.
\<close>

section \<open>Where the socket is\<close>

definition parse_socket_line :: "string \<Rightarrow> string option" where
  "parse_socket_line status_output =
     find_map (\<lambda>l. map_option trim (strip_prefix ''socket:'' (trim l))) (str_lines status_output)"

text \<open>On Unix; \<open>env\<close> is \<open>HERDR_SOCKET_PATH\<close>, \<open>status\<close> what \<open>herdr status\<close> printed, if it ran.\<close>

definition discover_socket_path :: "string option \<Rightarrow> string option \<Rightarrow> (string, ipc_error) result" where
  "discover_socket_path env status =
     (case env of
        Some path \<Rightarrow> Ok path
      | None \<Rightarrow> ok_or IpcDiscover (Option.bind status (\<lambda>stdout. parse_socket_line (from_utf8_lossy stdout))))"

section \<open>The line reader\<close>

text \<open>What a connection sends: its bytes, and what a read past them meets, the half-closed end or an error, a timeout
  among them.\<close>

datatype stream_end = EndOfStream | ReadFails

type_synonym incoming = "string \<times> stream_end"

definition line_feed :: char where "line_feed = CHR 0x0A"

text \<open>\<open>read_line\<close> on \<open>take(max_bytes)\<close>: up to the line feed, the bound or the end; the text must be UTF-8.\<close>

definition line_within :: "nat \<Rightarrow> string \<Rightarrow> string" where
  "line_within max_bytes bytes =
     (let w = take max_bytes bytes in if line_feed \<in> set w then takeWhile (\<lambda>ch. ch \<noteq> line_feed) w @ [line_feed] else w)"

definition read_bounded_line :: "nat \<Rightarrow> incoming \<Rightarrow> incoming \<times> (string, unit) result" where
  "read_bounded_line max_bytes stream =
     (case stream of (bytes, ending) \<Rightarrow>
      let l = line_within max_bytes bytes; rest = (drop (length l) bytes, ending) in
      if ending = ReadFails \<and> line_feed \<notin> set l \<and> length bytes < max_bytes then (rest, Err ())
      else if \<not> valid_utf8 l then (rest, Err ())
      else (rest, Ok l))"

definition subscription_read_line :: "nat \<Rightarrow> incoming \<Rightarrow> incoming \<times> (string option, unit) result" where
  "subscription_read_line max_bytes stream =
     (case read_bounded_line max_bytes stream of
        (rest, Err e) \<Rightarrow> (rest, Err e)
      | (rest, Ok l) \<Rightarrow> (rest, Ok (if l = [] then None else Some l)))"

lemma line_within_length [simp]: "length (line_within max_bytes bytes) \<le> length bytes"
proof -
  let ?w = "take max_bytes bytes"
  have "length (takeWhile (\<lambda>ch. ch \<noteq> line_feed) ?w) < length ?w" if "line_feed \<in> set ?w"
    using that takeWhile_eq_all_conv [of "\<lambda>ch. ch \<noteq> line_feed" ?w] length_takeWhile_le [of "\<lambda>ch. ch \<noteq> line_feed" ?w]
      takeWhile_eq_take [of "\<lambda>ch. ch \<noteq> line_feed" ?w] by (metis le_neq_implies_less take_all_iff order.refl)
  then show ?thesis by (auto simp: line_within_def Let_def Suc_le_eq)
qed

lemma read_line_shorter:
  assumes "subscription_read_line max_bytes stream = (rest, Ok (Some l))"
  shows "length (fst rest) < length (fst stream)"
proof -
  let ?l = "line_within max_bytes (fst stream)"
  have "?l \<noteq> []" "fst rest = drop (length ?l) (fst stream)"
    using assms by (auto simp: subscription_read_line_def read_bounded_line_def Let_def split: if_splits prod.splits)
  then show ?thesis using line_within_length [of max_bytes "fst stream"] by (cases "fst stream") auto
qed

text \<open>\<open>spawn_reader\<close>: what the thread sends, as long as someone listens.\<close>

function spawn_reader :: "nat \<Rightarrow> incoming \<Rightarrow> (string, unit) result list" where
  "spawn_reader max_bytes stream =
     (case subscription_read_line max_bytes stream of
        (rest, Ok (Some l)) \<Rightarrow> Ok l # spawn_reader max_bytes rest
      | (rest, Ok None) \<Rightarrow> []
      | (rest, Err e) \<Rightarrow> [Err e])"
  by pat_completeness auto
termination by (relation "measure (\<lambda>(max_bytes, stream). length (fst stream))") (auto dest: read_line_shorter [OF sym])

declare spawn_reader.simps [simp del]

section \<open>One request, one connection\<close>

text \<open>A connection: whether it opens, whether the request can be written, and what comes back.\<close>

record attempt =
  at_open :: bool
  at_write :: bool
  at_incoming :: incoming

text \<open>The client with the connections to come, and the requests that were written, each with its id.\<close>

record herdr_client =
  hc_max_response_bytes :: nat
  hc_counter :: "64 word"
  hc_attempts :: "attempt list"
  hc_written :: "(string \<times> string) list"

text \<open>The JSON printer and parser.\<close>

record json_text =
  jt_print :: "json \<Rightarrow> string"
  jt_parse :: "string \<Rightarrow> json option"

definition EXPECTED_PROTOCOL :: "64 word" where "EXPECTED_PROTOCOL = 22"

fun is_retryable :: "ipc_error \<Rightarrow> bool" where
  "is_retryable IpcConnect = True"
| "is_retryable IpcIo = True"
| "is_retryable _ = False"

definition with_path :: "'f relay_config \<Rightarrow> attempt list \<Rightarrow> herdr_client" where
  "with_path cfg attempts =
     \<lparr>hc_max_response_bytes = rc_max_response_bytes cfg, hc_counter = 0, hc_attempts = attempts, hc_written = []\<rparr>"

definition next_id :: "string \<Rightarrow> herdr_client \<Rightarrow> herdr_client \<times> string" where
  "next_id meth h = (h\<lparr>hc_counter := hc_counter h + 1\<rparr>, ''herdr-relay:'' @ meth @ '':'' @ show_nat (unat (hc_counter h)))"

text \<open>Opening the next connection; when the list is empty nobody listens any more.\<close>

definition open_platform :: "herdr_client \<Rightarrow> herdr_client \<times> attempt option" where
  "open_platform h =
     (case hc_attempts h of
        [] \<Rightarrow> (h, None)
      | a # as \<Rightarrow> (h\<lparr>hc_attempts := as\<rparr>, if at_open a then Some a else None))"

definition write_request :: "string \<Rightarrow> string \<Rightarrow> attempt \<Rightarrow> herdr_client \<Rightarrow> herdr_client \<times> bool" where
  "write_request rid request a h = (if at_write a then (h\<lparr>hc_written := hc_written h @ [(rid, request)]\<rparr>, True) else (h, False))"

definition exchange :: "string \<Rightarrow> string \<Rightarrow> attempt \<Rightarrow> herdr_client \<Rightarrow> herdr_client \<times> (string, unit) result" where
  "exchange rid request a h =
     (case write_request rid request a h of
        (h1, False) \<Rightarrow> (h1, Err ())
      | (h1, True) \<Rightarrow> (h1, snd (read_bounded_line (hc_max_response_bytes h1) (at_incoming a))))"

text \<open>The answer as an error, if it carries one.\<close>

definition rejection :: "string \<Rightarrow> json \<Rightarrow> ipc_error option" where
  "rejection meth parsed =
     map_option (\<lambda>error. IpcRejected meth
         (case Option.bind (jget ''code'' error) as_str of Some code \<Rightarrow> code | None \<Rightarrow> ''unknown'')
         (case Option.bind (jget ''message'' error) as_str of Some message \<Rightarrow> message | None \<Rightarrow> []))
       (jget ''error'' parsed)"

definition request_text :: "json_text \<Rightarrow> string \<Rightarrow> string \<Rightarrow> json \<Rightarrow> string" where
  "request_text j rid meth params = jt_print j (JObj [(''id'', JStr rid), (''method'', JStr meth), (''params'', params)])"

definition parse_answer :: "json_text \<Rightarrow> string \<Rightarrow> string \<Rightarrow> (json, ipc_error) result" where
  "parse_answer j meth l =
     (case jt_parse j (trim_end l) of
        None \<Rightarrow> Err (IpcMalformed meth)
      | Some parsed \<Rightarrow> (case rejection meth parsed of Some e \<Rightarrow> Err e | None \<Rightarrow> Ok parsed))"

definition call_once :: "json_text \<Rightarrow> string \<Rightarrow> json \<Rightarrow> herdr_client \<Rightarrow> herdr_client \<times> (json, ipc_error) result" where
  "call_once j meth params h0 =
     (case next_id meth h0 of (h1, rid) \<Rightarrow>
      case open_platform h1 of
        (h2, None) \<Rightarrow> (h2, Err IpcConnect)
      | (h2, Some a) \<Rightarrow>
          (case exchange rid (request_text j rid meth params) a h2 of
             (h3, Err _) \<Rightarrow> (h3, Err IpcIo)
           | (h3, Ok l) \<Rightarrow> (h3, parse_answer j meth l)))"

definition herdr_call :: "json_text \<Rightarrow> string \<Rightarrow> json \<Rightarrow> herdr_client \<Rightarrow> herdr_client \<times> (json, ipc_error) result" where
  "herdr_call j meth params h =
     (case call_once j meth params h of
        (h1, Err e) \<Rightarrow> if is_retryable e then call_once j meth params h1 else (h1, Err e)
      | (h1, Ok v) \<Rightarrow> (h1, Ok v))"

definition call_result :: "json_text \<Rightarrow> string \<Rightarrow> json \<Rightarrow> string \<Rightarrow> herdr_client \<Rightarrow> herdr_client \<times> (json, ipc_error) result" where
  "call_result j meth params key h =
     (case herdr_call j meth params h of
        (h1, Err e) \<Rightarrow> (h1, Err e)
      | (h1, Ok envelope) \<Rightarrow> (h1, ok_or (IpcMissingPayload meth key) (Option.bind (jget ''result'' envelope) (jget key))))"

definition ping :: "json_text \<Rightarrow> herdr_client \<Rightarrow> herdr_client \<times> (json, ipc_error) result" where
  "ping j h =
     (case herdr_call j ''ping'' (JObj []) h of
        (h1, Err e) \<Rightarrow> (h1, Err e)
      | (h1, Ok envelope) \<Rightarrow>
          let protocol = (case Option.bind (Option.bind (jget ''result'' envelope) (jget ''protocol'')) as_u64 of Some n \<Rightarrow> n | None \<Rightarrow> 0) in
          (h1, if protocol \<noteq> EXPECTED_PROTOCOL then Err (IpcProtocolMismatch protocol) else Ok envelope))"

text \<open>\<open>subscribe\<close> gives what is left to read of the one long-lived connection.\<close>

definition subscribe :: "json_text \<Rightarrow> json list \<Rightarrow> herdr_client \<Rightarrow> herdr_client \<times> (incoming, ipc_error) result" where
  "subscribe j subscriptions h0 =
     (case next_id ''events.subscribe'' h0 of (h1, rid) \<Rightarrow>
      case open_platform h1 of
        (h2, None) \<Rightarrow> (h2, Err IpcConnect)
      | (h2, Some a) \<Rightarrow>
          (case write_request rid (request_text j rid ''events.subscribe'' (JObj [(''subscriptions'', JArr subscriptions)])) a h2 of
             (h3, False) \<Rightarrow> (h3, Err IpcIo)
           | (h3, True) \<Rightarrow>
               (case read_bounded_line (hc_max_response_bytes h3) (at_incoming a) of
                  (rest, Err _) \<Rightarrow> (h3, Err IpcIo)
                | (rest, Ok l) \<Rightarrow>
                    (case parse_answer j ''events.subscribe'' l of Err e \<Rightarrow> (h3, Err e) | Ok _ \<Rightarrow> (h3, Ok rest)))))"

section \<open>The calls of the bridge\<close>

definition herdr_unit :: "json_text \<Rightarrow> string \<Rightarrow> json \<Rightarrow> (herdr_client, unit) call" where
  "herdr_unit j meth params h = (case herdr_call j meth params h of (h1, Err e) \<Rightarrow> (h1, Err e) | (h1, Ok _) \<Rightarrow> (h1, Ok ()))"

text \<open>The member at a path below \<open>result\<close>.\<close>

fun json_at :: "string list \<Rightarrow> json \<Rightarrow> json option" where
  "json_at [] v = Some v"
| "json_at (k # ks) v = Option.bind (jget k v) (json_at ks)"

definition nested_id :: "json \<Rightarrow> string \<Rightarrow> string list \<Rightarrow> (string, ipc_error) result" where
  "nested_id envelope meth path =
     (case jget ''result'' envelope of
        None \<Rightarrow> Err (IpcMissingPayload meth ''result'')
      | Some result \<Rightarrow> ok_or (IpcMissingPayload meth (join ''.'' path)) (Option.bind (json_at path result) as_str))"

definition herdr_created :: "json_text \<Rightarrow> string \<Rightarrow> json \<Rightarrow> string list \<Rightarrow> (herdr_client, string) call" where
  "herdr_created j meth params path h =
     (case herdr_call j meth params h of (h1, Err e) \<Rightarrow> (h1, Err e) | (h1, Ok envelope) \<Rightarrow> (h1, nested_id envelope meth path))"

definition with_member :: "string \<Rightarrow> json option \<Rightarrow> json \<Rightarrow> json" where
  "with_member k v params = (case v of Some x \<Rightarrow> jset k x params | None \<Rightarrow> params)"

definition plugin_action_invoke :: "json_text \<Rightarrow> json \<Rightarrow> (herdr_client, json) call" where
  "plugin_action_invoke j params h =
     (case herdr_call j ''plugin.action.invoke'' params h of
        (h1, Err e) \<Rightarrow> (h1, Err e)
      | (h1, Ok envelope) \<Rightarrow> (h1, ok_or (IpcMissingPayload ''plugin.action.invoke'' ''result'') (jget ''result'' envelope)))"

definition pane_read_params :: "string \<Rightarrow> string \<Rightarrow> (string \<times> json) list" where
  "pane_read_params pane_id source =
     [(''pane_id'', JStr pane_id), (''source'', JStr source), (''format'', JStr ''ansi''), (''strip_ansi'', JBool False)]"

definition client_calls :: "json_text \<Rightarrow> herdr_client herdr_calls" where
  "client_calls j =
     \<lparr>c_pane_send_text = (\<lambda>pane_id text. herdr_unit j ''pane.send_text'' (JObj [(''pane_id'', JStr pane_id), (''text'', JStr text)])),
      c_session_snapshot = call_result j ''session.snapshot'' (JObj []) ''snapshot'',
      c_pane_layout = (\<lambda>pane_id. call_result j ''pane.layout'' (JObj [(''pane_id'', JStr pane_id)]) ''layout''),
      c_pane_read_visible = (\<lambda>pane_id. call_result j ''pane.read'' (JObj (pane_read_params pane_id ''visible'')) ''read''),
      c_pane_read_recent = (\<lambda>pane_id lines. call_result j ''pane.read''
        (JObj (pane_read_params pane_id ''recent'' @ [(''lines'', JNum (PosInt (ucast lines)))])) ''read''),
      c_pane_send_input = (\<lambda>pane_id text keys. herdr_unit j ''pane.send_input''
        (with_member ''keys'' (map_option (\<lambda>ks. JArr (map JStr ks)) keys)
          (with_member ''text'' (map_option JStr text) (JObj [(''pane_id'', JStr pane_id)])))),
      c_agent_prompt = (\<lambda>target text. herdr_unit j ''agent.prompt'' (JObj [(''target'', JStr target), (''text'', JStr text)])),
      c_agent_focus = (\<lambda>target. herdr_unit j ''agent.focus'' (JObj [(''target'', JStr target)])),
      c_workspace_create = (\<lambda>params. herdr_created j ''workspace.create'' params [''workspace'', ''workspace_id'']),
      c_tab_create = (\<lambda>params. herdr_created j ''tab.create'' params [''tab'', ''tab_id'']),
      c_pane_split = (\<lambda>params. herdr_created j ''pane.split'' params [''pane'', ''pane_id'']),
      c_pane_zoom = (\<lambda>pane_id mode. herdr_unit j ''pane.zoom'' (JObj [(''pane_id'', JStr pane_id), (''mode'', JStr mode)])),
      c_pane_close = (\<lambda>pane_id. herdr_unit j ''pane.close'' (JObj [(''pane_id'', JStr pane_id)])),
      c_pane_rename = (\<lambda>pane_id label. herdr_unit j ''pane.rename'' (JObj [(''pane_id'', JStr pane_id), (''label'', jopt label)])),
      c_pane_resize = (\<lambda>pane_id direction amount. herdr_unit j ''pane.resize''
        (with_member ''amount'' (map_option (\<lambda>x. JNum (Float x)) amount)
          (JObj [(''pane_id'', JStr pane_id), (''direction'', JStr direction)]))),
      c_plugin_action_list = call_result j ''plugin.action.list'' (JObj []) ''actions'',
      c_plugin_action_invoke = plugin_action_invoke j\<rparr>"

section \<open>Reading lines\<close>

text \<open>The lines of a stream, each with its line feed; what follows the last one is a line too, if there is anything.\<close>

definition stream_lines :: "string \<Rightarrow> string list" where
  "stream_lines bytes =
     (let ps = split_on line_feed bytes in map (\<lambda>p. p @ [line_feed]) (butlast ps) @ (if last ps = [] then [] else [last ps]))"

lemma stream_lines_Nil [simp]: "stream_lines [] = []"
  by (simp add: stream_lines_def)

lemma stream_lines_line:
  assumes "line_feed \<notin> set l"
  shows "stream_lines (l @ line_feed # rest) = (l @ [line_feed]) # stream_lines rest"
  using assms by (simp add: stream_lines_def split_on_append Let_def)

lemma stream_lines_end: "line_feed \<notin> set l \<Longrightarrow> l \<noteq> [] \<Longrightarrow> stream_lines l = [l]"
  by (simp add: stream_lines_def split_on_absent)

lemma first_line_cases:
  obtains (line) l rest where "bytes = l @ line_feed # rest" "line_feed \<notin> set l" | (tail) "line_feed \<notin> set bytes"
  by (metis split_list_first)

lemma line_within_line:
  "line_feed \<notin> set l \<Longrightarrow> length l < max_bytes \<Longrightarrow> line_within max_bytes (l @ line_feed # rest) = l @ [line_feed]"
proof -
  assume a: "line_feed \<notin> set l" "length l < max_bytes"
  then obtain k where "max_bytes = Suc (length l + k)" using less_iff_Suc_add by auto
  then have "take max_bytes (l @ line_feed # rest) = l @ line_feed # take k rest" by simp
  moreover have "takeWhile (\<lambda>ch. ch \<noteq> line_feed) (l @ line_feed # take k rest) = l"
    using a(1) by (subst takeWhile_append2) auto
  ultimately show ?thesis by (simp add: line_within_def)
qed

lemma line_within_tail: "line_feed \<notin> set bytes \<Longrightarrow> line_within max_bytes bytes = take max_bytes bytes"
  using set_take_subset [of max_bytes bytes] by (auto simp: line_within_def Let_def)

text \<open>C39: the reader of the subscription hands over exactly the lines of the stream, in order, however they arrive, when
  every line fits the bound and is UTF-8.\<close>

theorem subscription_lines_read_whole:
  assumes "\<forall>l \<in> set (stream_lines bytes). length l \<le> max_bytes \<and> valid_utf8 l"
  shows "spawn_reader max_bytes (bytes, EndOfStream) = map Ok (stream_lines bytes)"
  using assms
proof (induction "length bytes" arbitrary: bytes rule: less_induct)
  case less
  show ?case
  proof (cases bytes rule: first_line_cases)
    case (line l rest)
    then have sl: "stream_lines bytes = (l @ [line_feed]) # stream_lines rest" using stream_lines_line by simp
    then have "length l < max_bytes" "valid_utf8 (l @ [line_feed])" using less.prems by auto
    then have "subscription_read_line max_bytes (bytes, EndOfStream) = ((rest, EndOfStream), Ok (Some (l @ [line_feed])))"
      using line line_within_line [of l max_bytes rest] by (simp add: subscription_read_line_def read_bounded_line_def)
    moreover have "spawn_reader max_bytes (rest, EndOfStream) = map Ok (stream_lines rest)"
      using less.hyps [of rest] less.prems sl line by simp
    ultimately show ?thesis using sl by (subst spawn_reader.simps) simp
  next
    case tail
    show ?thesis
    proof (cases "bytes = []")
      case True
      then show ?thesis by (subst spawn_reader.simps) (simp add: subscription_read_line_def read_bounded_line_def line_within_def)
    next
      case False
      then have sl: "stream_lines bytes = [bytes]" using tail stream_lines_end by blast
      then have "length bytes \<le> max_bytes" "valid_utf8 bytes" using less.prems by auto
      then have "subscription_read_line max_bytes (bytes, EndOfStream) = (([], EndOfStream), Ok (Some bytes))"
        using line_within_tail [OF tail] False by (simp add: subscription_read_line_def read_bounded_line_def)
      moreover have "spawn_reader max_bytes ([], EndOfStream) = []"
        by (subst spawn_reader.simps) (simp add: subscription_read_line_def read_bounded_line_def line_within_def)
      ultimately show ?thesis using sl by (subst spawn_reader.simps) simp
    qed
  qed
qed

text \<open>A longer line is not refused: its first bytes are handed over as a line of their own, and the rest as the next.\<close>

theorem long_line_split:
  assumes "line_feed \<notin> set l" "0 < max_bytes" "max_bytes \<le> length l" "valid_utf8 (take max_bytes l)"
  shows "spawn_reader max_bytes (l @ rest, ending) = Ok (take max_bytes l) # spawn_reader max_bytes (drop max_bytes l @ rest, ending)"
proof -
  have "take max_bytes (l @ rest) = take max_bytes l" using assms(3) by simp
  moreover have "line_feed \<notin> set (take max_bytes l)" using assms(1) set_take_subset [of max_bytes l] by blast
  moreover have "take max_bytes l \<noteq> []" using assms(2,3) by (cases l; cases max_bytes) auto
  ultimately have "subscription_read_line max_bytes (l @ rest, ending) = ((drop max_bytes l @ rest, ending), Ok (Some (take max_bytes l)))"
    using assms(3,4) by (simp add: subscription_read_line_def read_bounded_line_def line_within_def Let_def)
  then show ?thesis by (subst spawn_reader.simps) simp
qed

section \<open>The requests of a client\<close>

text \<open>Any sequence of calls and subscriptions.\<close>

datatype client_op = CallOp string json | SubscribeOp "json list"

definition client_exec :: "json_text \<Rightarrow> client_op \<Rightarrow> herdr_client \<Rightarrow> herdr_client" where
  "client_exec j op h = (case op of CallOp meth params \<Rightarrow> fst (herdr_call j meth params h) | SubscribeOp subs \<Rightarrow> fst (subscribe j subs h))"

text \<open>The counter at the end of an id.\<close>

definition id_counter :: "string \<Rightarrow> string" where
  "id_counter rid = rev (takeWhile (\<lambda>ch. ch \<noteq> CHR '':'') (rev rid))"

lemma show_nat_no_colon: "CHR '':'' \<notin> set (show_nat n)"
  using show_nat_digits [of "CHR '':''" n] by (auto simp: is_digit_def)

lemma show_nat_inj: "show_nat m = show_nat n \<Longrightarrow> m = n"
proof -
  assume e: "show_nat m = show_nat n"
  have m: "parse_digits (Suc (m + n)) 0 (show_nat m) = Some m" by (rule parse_digits_show) arith
  have n: "parse_digits (Suc (m + n)) 0 (show_nat n) = Some n" by (rule parse_digits_show) arith
  show "m = n" by (rule option.inject [THEN iffD1]) (rule trans [OF m [unfolded e, symmetric] n])
qed

lemma id_counter_next: "id_counter (snd (next_id meth h)) = show_nat (unat (hc_counter h))"
proof -
  let ?d = "show_nat (unat (hc_counter h))"
  have "rev (snd (next_id meth h)) = rev ?d @ CHR '':'' # rev (''herdr-relay:'' @ meth)" by (simp add: next_id_def)
  moreover have "takeWhile (\<lambda>ch. ch \<noteq> CHR '':'') (rev ?d @ CHR '':'' # rev (''herdr-relay:'' @ meth)) = rev ?d"
    using show_nat_no_colon [of "unat (hc_counter h)"] by (subst takeWhile_append2) auto
  ultimately show ?thesis by (simp only: id_counter_def rev_rev_ident)
qed

text \<open>Every id written so far ends in a counter below the present one; \<open>n\<close> bounds the connections made.\<close>

definition ids_fresh :: "nat \<Rightarrow> herdr_client \<Rightarrow> bool" where
  "ids_fresh n h \<longleftrightarrow> unat (hc_counter h) \<le> n \<and> distinct (map fst (hc_written h))
     \<and> (\<forall>rid \<in> fst ` set (hc_written h). \<exists>k < unat (hc_counter h). id_counter rid = show_nat k)"

lemma ids_fresh_connection:
  assumes "ids_fresh n h" "Suc n < 2 ^ 64" "next_id meth h = (h1, rid)"
    and "hc_counter h2 = hc_counter h1" "hc_written h2 = hc_written h1 \<or> hc_written h2 = hc_written h1 @ [(rid, request)]"
  shows "ids_fresh (Suc n) h2"
proof -
  have c: "hc_counter h1 = hc_counter h + 1" "hc_written h1 = hc_written h" "id_counter rid = show_nat (unat (hc_counter h))"
    using assms(3) id_counter_next [of meth h] by (auto simp: next_id_def)
  have n: "unat (hc_counter h) \<le> n" using assms(1) by (simp add: ids_fresh_def)
  have "unat (hc_counter h + 1) = Suc (unat (hc_counter h))"
    using n assms(2) by (simp add: unat_word_ariths)
  moreover have "rid \<notin> fst ` set (hc_written h)"
  proof
    assume "rid \<in> fst ` set (hc_written h)"
    then obtain k where "k < unat (hc_counter h)" "id_counter rid = show_nat k" using assms(1) by (auto simp: ids_fresh_def)
    then show False using c(3) show_nat_inj [of k "unat (hc_counter h)"] by simp
  qed
  ultimately have u: "unat (hc_counter h2) = Suc (unat (hc_counter h))" "rid \<notin> fst ` set (hc_written h)"
    using assms(4) c(1) by simp_all
  have before: "\<exists>k < unat (hc_counter h2). id_counter x = show_nat k" if old: "x \<in> fst ` set (hc_written h)" for x
  proof -
    obtain k where "k < unat (hc_counter h)" "id_counter x = show_nat k" using assms(1) old unfolding ids_fresh_def by blast
    then show ?thesis using u(1) less_SucI by metis
  qed
  have this_one: "\<exists>k < unat (hc_counter h2). id_counter rid = show_nat k" using c(3) u(1) by auto
  have d: "distinct (map fst (hc_written h))" using assms(1) by (simp add: ids_fresh_def)
  from assms(5) show ?thesis
  proof
    assume w: "hc_written h2 = hc_written h1"
    show ?thesis unfolding ids_fresh_def w c(2) using u(1) n d before by simp
  next
    assume w: "hc_written h2 = hc_written h1 @ [(rid, request)]"
    have "distinct (map fst (hc_written h2))" using w c(2) d u(2) by simp
    moreover have "\<forall>x \<in> fst ` set (hc_written h2). \<exists>k < unat (hc_counter h2). id_counter x = show_nat k"
      using before this_one unfolding w c(2) by (simp only: set_append image_Un list.set image_insert image_empty fst_conv ball_Un ball_simps) blast
    ultimately show ?thesis unfolding ids_fresh_def using u(1) n by simp
  qed
qed

lemma ids_fresh_mono: "ids_fresh n h \<Longrightarrow> n \<le> m \<Longrightarrow> ids_fresh m h"
  by (auto simp: ids_fresh_def)

lemma open_platform_keeps: "open_platform h = (h1, a) \<Longrightarrow> hc_counter h1 = hc_counter h \<and> hc_written h1 = hc_written h"
  by (auto simp: open_platform_def split: list.splits if_splits)

lemma write_request_keeps:
  "write_request rid request a h = (h1, ok) \<Longrightarrow> hc_counter h1 = hc_counter h \<and> (hc_written h1 = hc_written h \<or> hc_written h1 = hc_written h @ [(rid, request)])"
  by (auto simp: write_request_def split: if_splits)

lemma call_once_fresh:
  assumes "ids_fresh n h" "Suc n < 2 ^ 64"
  shows "ids_fresh (Suc n) (fst (call_once j meth params h))"
proof -
  obtain h1 rid where 1: "next_id meth h = (h1, rid)" by force
  obtain h2 a where 2: "open_platform h1 = (h2, a)" by force
  note k = open_platform_keeps [OF 2]
  show ?thesis
  proof (cases a)
    case None
    then show ?thesis using ids_fresh_connection [OF assms 1, of h2] k 1 2 by (simp add: call_once_def)
  next
    case (Some at)
    obtain h3 ok where 3: "write_request rid (request_text j rid meth params) at h2 = (h3, ok)" by force
    have "fst (call_once j meth params h) = h3"
      using 1 2 3 Some by (cases ok) (auto simp: call_once_def exchange_def split: sum.split)
    then show ?thesis using ids_fresh_connection [OF assms 1, of h3 "request_text j rid meth params"] k write_request_keeps [OF 3] by simp
  qed
qed

lemma subscribe_fresh:
  assumes "ids_fresh n h" "Suc n < 2 ^ 64"
  shows "ids_fresh (Suc n) (fst (subscribe j subs h))"
proof -
  obtain h1 rid where 1: "next_id ''events.subscribe'' h = (h1, rid)" by force
  obtain h2 a where 2: "open_platform h1 = (h2, a)" by force
  note k = open_platform_keeps [OF 2]
  show ?thesis
  proof (cases a)
    case None
    then show ?thesis using ids_fresh_connection [OF assms 1, of h2] k 1 2 by (simp add: subscribe_def)
  next
    case (Some at)
    obtain h3 ok where 3: "write_request rid (request_text j rid ''events.subscribe'' (JObj [(''subscriptions'', JArr subs)])) at h2 = (h3, ok)"
      by force
    have "fst (subscribe j subs h) = h3"
      using 1 2 3 Some by (cases ok) (auto simp: subscribe_def split: sum.split prod.split)
    then show ?thesis using ids_fresh_connection [OF assms 1, of h3 "request_text j rid ''events.subscribe'' (JObj [(''subscriptions'', JArr subs)])"] k
        write_request_keeps [OF 3] by simp
  qed
qed

lemma client_exec_fresh:
  assumes "ids_fresh n h" "n + 2 < 2 ^ 64"
  shows "ids_fresh (n + 2) (client_exec j op h)"
proof (cases op)
  case (CallOp meth params)
  obtain h1 r where 1: "call_once j meth params h = (h1, r)" by force
  have f1: "ids_fresh (Suc n) h1" using call_once_fresh [OF assms(1), of j meth params] assms(2) 1 by simp
  have f2: "ids_fresh (Suc (Suc n)) (fst (call_once j meth params h1))" using call_once_fresh [OF f1] assms(2) by simp
  show ?thesis
    using CallOp 1 f2 ids_fresh_mono [OF f1, of "n + 2"] by (auto simp: client_exec_def herdr_call_def split: sum.split)
next
  case (SubscribeOp subs)
  then show ?thesis using ids_fresh_mono [OF subscribe_fresh [OF assms(1)]] assms(2) by (simp add: client_exec_def)
qed

lemma client_run_fresh:
  "ids_fresh n h \<Longrightarrow> n + 2 * length ops < 2 ^ 64 \<Longrightarrow> ids_fresh (n + 2 * length ops) (fold (client_exec j) ops h)"
proof (induction ops arbitrary: n h)
  case (Cons op ops)
  then show ?case using client_exec_fresh [of n h j op] Cons.IH [of "n + 2" "client_exec j op h"] by simp
qed simp

text \<open>No two requests of a process carry the same id, whatever is called, retried and subscribed, as long as the 64-bit
  counter does not come round.\<close>

theorem request_ids_unique:
  assumes "2 * length ops < 2 ^ 64"
  shows "distinct (map fst (hc_written (fold (client_exec j) ops (with_path cfg attempts))))"
proof -
  have "ids_fresh 0 (with_path cfg attempts)" by (simp add: ids_fresh_def with_path_def)
  from client_run_fresh [OF this, of ops j] assms show ?thesis by (simp add: ids_fresh_def)
qed

section \<open>What a call does\<close>

text \<open>What one connection gives for a request, and whether the request reached the other end.\<close>

definition attempt_answer :: "json_text \<Rightarrow> string \<Rightarrow> nat \<Rightarrow> attempt \<Rightarrow> (json, ipc_error) result" where
  "attempt_answer j meth max_bytes a =
     (if \<not> at_open a then Err IpcConnect
      else if \<not> at_write a then Err IpcIo
      else case snd (read_bounded_line max_bytes (at_incoming a)) of Err _ \<Rightarrow> Err IpcIo | Ok l \<Rightarrow> parse_answer j meth l)"

definition reached :: "attempt \<Rightarrow> bool" where
  "reached a \<longleftrightarrow> at_open a \<and> at_write a"

lemma call_once_attempt:
  assumes "hc_attempts h = a # as" "call_once j meth params h = (h1, r)"
  shows "r = attempt_answer j meth (hc_max_response_bytes h) a \<and> hc_attempts h1 = as \<and> hc_max_response_bytes h1 = hc_max_response_bytes h
    \<and> hc_counter h1 = hc_counter h + 1
    \<and> hc_written h1 = hc_written h @ (if reached a then [(snd (next_id meth h), request_text j (snd (next_id meth h)) meth params)] else [])"
  using assms
  by (auto simp: call_once_def next_id_def open_platform_def exchange_def write_request_def attempt_answer_def reached_def
      split: if_splits sum.splits)

text \<open>A call makes one connection, and a second one exactly when the first could not be opened, written or read; an answer
  that was read stands, a rejection and a malformed one included. The request is written once for each connection
  that took it.\<close>

theorem call_outcome:
  assumes "hc_attempts h = a1 # a2 # as" "herdr_call j meth params h = (h', r)"
  shows "(case attempt_answer j meth (hc_max_response_bytes h) a1 of
       Err e \<Rightarrow> if e = IpcConnect \<or> e = IpcIo
                then r = attempt_answer j meth (hc_max_response_bytes h) a2 \<and> hc_attempts h' = as
                  \<and> length (hc_written h') = length (hc_written h) + of_bool (reached a1) + of_bool (reached a2)
                else r = Err e \<and> hc_attempts h' = a2 # as \<and> length (hc_written h') = Suc (length (hc_written h))
     | Ok v \<Rightarrow> r = Ok v \<and> hc_attempts h' = a2 # as \<and> length (hc_written h') = Suc (length (hc_written h)))"
proof -
  obtain h1 r1 where 1: "call_once j meth params h = (h1, r1)" by force
  note f = call_once_attempt [OF assms(1) 1]
  have ans: "attempt_answer j meth (hc_max_response_bytes h) a1 = r1" using f by simp
  have len: "length (hc_written h1) = length (hc_written h) + of_bool (reached a1)" using f by simp
  have at: "hc_attempts h1 = a2 # as" using f by simp
  have mx: "hc_max_response_bytes h1 = hc_max_response_bytes h" using f by simp
  have ret: "is_retryable e \<longleftrightarrow> e = IpcConnect \<or> e = IpcIo" for e by (cases e) auto
  have reach: "reached a1 \<or> r1 = Err IpcConnect \<or> r1 = Err IpcIo"
    unfolding ans [symmetric] by (simp add: attempt_answer_def reached_def)
  obtain h2 r2 where 2: "call_once j meth params h1 = (h2, r2)" by force
  have g: "r2 = attempt_answer j meth (hc_max_response_bytes h) a2" "hc_attempts h2 = as"
      "length (hc_written h2) = length (hc_written h1) + of_bool (reached a2)"
    using call_once_attempt [OF at 2] unfolding mx by simp_all
  show ?thesis
  proof (cases r1)
    case (Inl e)
    show ?thesis
    proof (cases "is_retryable e")
      case True
      then have "h' = h2" "r = r2" using assms(2) 1 2 Inl by (simp_all add: herdr_call_def)
      then show ?thesis using True g len unfolding ans Inl by (simp add: ret)
    next
      case False
      then have "h' = h1" "r = Err e" using assms(2) 1 Inl by (simp_all add: herdr_call_def)
      then show ?thesis using False reach len at Inl unfolding ans by (simp add: ret)
    qed
  next
    case (Inr v)
    then have "h' = h1" "r = Ok v" using assms(2) 1 by (simp_all add: herdr_call_def)
    then show ?thesis using Inr reach len at unfolding ans by simp
  qed
qed

text \<open>Text can be typed twice: when Herdr took the request but its answer does not come in time, the same text is sent
  again under another id, and the call reports success once.\<close>

theorem unanswered_text_typed_twice:
  assumes "hc_attempts h = a1 # a2 # as" "reached a1" "at_incoming a1 = ([], ReadFails)" "0 < hc_max_response_bytes h"
    and "attempt_answer j ''pane.send_text'' (hc_max_response_bytes h) a2 = Ok v" "reached a2"
  shows "\<exists>h' id1 id2. c_pane_send_text (client_calls j) pane text h = (h', Ok ())
    \<and> hc_written h' = hc_written h @
        [(id1, request_text j id1 ''pane.send_text'' (JObj [(''pane_id'', JStr pane), (''text'', JStr text)])),
         (id2, request_text j id2 ''pane.send_text'' (JObj [(''pane_id'', JStr pane), (''text'', JStr text)]))]"
proof -
  let ?p = "JObj [(''pane_id'', JStr pane), (''text'', JStr text)]"
  obtain h1 r1 where 1: "call_once j ''pane.send_text'' ?p h = (h1, r1)" by force
  note f = call_once_attempt [OF assms(1) 1]
  obtain h2 r2 where 2: "call_once j ''pane.send_text'' ?p h1 = (h2, r2)" by force
  note g = call_once_attempt [of h1 a2 as j "''pane.send_text''" ?p h2 r2, OF _ 2]
  have "r1 = Err IpcIo" using f assms(2-4) by (simp add: attempt_answer_def reached_def read_bounded_line_def line_within_def)
  then have "c_pane_send_text (client_calls j) pane text h = (h2, Ok ())"
    using 1 2 f g assms(5) by (simp add: client_calls_def herdr_unit_def herdr_call_def)
  moreover have "hc_written h2 = hc_written h @ [(snd (next_id ''pane.send_text'' h), request_text j (snd (next_id ''pane.send_text'' h)) ''pane.send_text'' ?p),
      (snd (next_id ''pane.send_text'' h1), request_text j (snd (next_id ''pane.send_text'' h1)) ''pane.send_text'' ?p)]"
    using f g assms(2,6) by simp
  ultimately show ?thesis by blast
qed

section \<open>Witnesses\<close>

definition sample_json_text :: json_text where
  "sample_json_text = \<lparr>jt_print = (\<lambda>_. ''request''), jt_parse = (\<lambda>_. Some (JObj [(''result'', JObj [])]))\<rparr>"

definition good_attempt :: attempt where
  "good_attempt = \<lparr>at_open = True, at_write = True, at_incoming = ([line_feed], EndOfStream)\<rparr>"

definition silent_attempt :: attempt where
  "silent_attempt = \<lparr>at_open = True, at_write = True, at_incoming = ([], ReadFails)\<rparr>"

definition sample_client :: "attempt list \<Rightarrow> herdr_client" where
  "sample_client as = with_path (relay_config_default (0 :: nat)) as"

lemma valid_line_feed: "valid_utf8 [line_feed]"
  by (rule valid_utf8_ascii) (simp add: line_feed_def is_ascii_def)

lemma good_answer: "0 < n \<Longrightarrow> attempt_answer sample_json_text meth n good_attempt = Ok (JObj [(''result'', JObj [])])"
  using valid_line_feed line_within_line [of "[]" n "[]"]
  by (simp add: attempt_answer_def good_attempt_def read_bounded_line_def parse_answer_def sample_json_text_def rejection_def)

theorem subscription_lines_read_whole_witness:
  "spawn_reader 3 (''ab'' @ [line_feed] @ ''c'', EndOfStream) = [Ok (''ab'' @ [line_feed]), Ok ''c'']"
proof -
  have s: "stream_lines (''ab'' @ [line_feed] @ ''c'') = [''ab'' @ [line_feed], ''c'']"
    by (simp add: stream_lines_def line_feed_def)
  have "valid_utf8 (''ab'' @ [line_feed])" "valid_utf8 ''c''"
    by (simp_all add: valid_utf8_ascii line_feed_def is_ascii_def)
  then have "\<forall>l \<in> set (stream_lines (''ab'' @ [line_feed] @ ''c'')). length l \<le> 3 \<and> valid_utf8 l" unfolding s by simp
  from subscription_lines_read_whole [OF this] show ?thesis unfolding s by simp
qed

theorem long_line_split_witness:
  "spawn_reader 1 (''ab'' @ [line_feed], EndOfStream) = Ok ''a'' # spawn_reader 1 (''b'' @ [line_feed], EndOfStream)"
proof -
  have "valid_utf8 (take 1 ''ab'')" by (simp add: valid_utf8_ascii is_ascii_def)
  from long_line_split [OF _ _ _ this, of "[line_feed]" EndOfStream] show ?thesis by (simp add: line_feed_def)
qed

theorem request_ids_unique_witness:
  "distinct (map fst (hc_written (fold (client_exec sample_json_text) [CallOp ''ping'' JNull, CallOp ''ping'' JNull] (sample_client [silent_attempt, good_attempt, good_attempt]))))"
  unfolding sample_client_def by (rule request_ids_unique) simp

theorem call_outcome_witness:
  "snd (herdr_call sample_json_text ''ping'' JNull (sample_client [silent_attempt, good_attempt])) = Ok (JObj [(''result'', JObj [])])"
proof -
  obtain h' r where c: "herdr_call sample_json_text ''ping'' JNull (sample_client [silent_attempt, good_attempt]) = (h', r)" by force
  have a: "hc_attempts (sample_client [silent_attempt, good_attempt]) = [silent_attempt, good_attempt]"
    "0 < hc_max_response_bytes (sample_client [silent_attempt, good_attempt])"
    by (simp_all add: sample_client_def with_path_def relay_config_default_def)
  have "attempt_answer sample_json_text ''ping'' (hc_max_response_bytes (sample_client [silent_attempt, good_attempt])) silent_attempt = Err IpcIo"
    using a(2) by (simp add: attempt_answer_def silent_attempt_def read_bounded_line_def line_within_def)
  with call_outcome [OF a(1) c] good_answer [OF a(2)] c show ?thesis by simp
qed

theorem unanswered_text_typed_twice_witness:
  "length (hc_written (fst (c_pane_send_text (client_calls sample_json_text) ''p'' ''rm'' (sample_client [silent_attempt, good_attempt])))) = 2"
proof -
  let ?h = "sample_client [silent_attempt, good_attempt]"
  have a: "hc_attempts ?h = [silent_attempt, good_attempt]" "0 < hc_max_response_bytes ?h" "hc_written ?h = []"
    by (simp_all add: sample_client_def with_path_def relay_config_default_def)
  have r: "reached silent_attempt" "reached good_attempt" "at_incoming silent_attempt = ([], ReadFails)"
    by (simp_all add: reached_def silent_attempt_def good_attempt_def)
  from unanswered_text_typed_twice [OF a(1) r(1,3) a(2) good_answer [OF a(2)] r(2), of "''p''" "''rm''"] a(3)
  show ?thesis by auto
qed

end
