(* ===== verification/Push_Providers.thy ===== *)
theory Push_Providers
  imports Push_Store Json
begin

text \<open>
  \<open>herdr-relay-hub/src/routes/push/providers.rs\<close>: the configuration of APNs and FCM from the environment, their
  cached bearer tokens, and a delivery with its requests. The environment, the files, the key parsers, the signer of
  a token, the clock and JSON are arguments; the providers are the list of what each request meets in turn. A
  request that times out is one that gets no answer.
\<close>

section \<open>Configuration\<close>

definition OAUTH_URL :: string where "OAUTH_URL = ''https://oauth2.googleapis.com/token''"
definition PUSH_TITLE :: string where "PUSH_TITLE = ''Herdr Remote''"
definition PUSH_BODY :: string where "PUSH_BODY = ''An agent needs you.''"

record cached_token =
  ct_value :: string
  ct_expires :: instant

record 'k apns =
  ap_key :: 'k
  ap_key_id :: string
  ap_team_id :: string
  ap_bundle_id :: string
  ap_endpoint :: string
  ap_token :: "cached_token option"

record 'k fcm =
  fc_key :: 'k
  fc_email :: string
  fc_endpoint :: string
  fc_token :: "cached_token option"

record 'k providers =
  pv_client :: bool
  pv_apns :: "'k apns option"
  pv_fcm :: "'k fcm option"

record service_account =
  sa_project_id :: string
  sa_client_email :: string
  sa_private_key :: string

datatype env_value = EnvUnset | EnvText string | EnvNotUnicode

definition env_get :: "(string \<Rightarrow> env_value) \<Rightarrow> string \<Rightarrow> (string option, unit) result" where
  "env_get env name =
     (case env name of
        EnvText v \<Rightarrow> Ok (if trim v = [] then None else Some v)
      | EnvUnset \<Rightarrow> Ok None
      | EnvNotUnicode \<Rightarrow> Err ())"

text \<open>The next value or, when it is not set, no provider.\<close>

definition env_need :: "(string \<Rightarrow> env_value) \<Rightarrow> string \<Rightarrow> (string \<Rightarrow> ('a option, unit) result) \<Rightarrow> ('a option, unit) result" where
  "env_need env name k = bind_result (env_get env name) (\<lambda>v. case v of None \<Rightarrow> Ok None | Some x \<Rightarrow> k x)"

text \<open>The files and the parsers of what they hold.\<close>

record 'k push_files =
  pf_read :: "string \<Rightarrow> string option"
  pf_ec_pem :: "string \<Rightarrow> 'k option"
  pf_rsa_pem :: "string \<Rightarrow> 'k option"
  pf_account :: "string \<Rightarrow> service_account option"

definition apns_endpoint :: "string option \<Rightarrow> (string, unit) result" where
  "apns_endpoint sandbox =
     (if sandbox = Some ''true'' \<or> sandbox = Some ''1'' then Ok ''https://api.sandbox.push.apple.com''
      else if sandbox = None \<or> sandbox = Some ''false'' \<or> sandbox = Some ''0'' then Ok ''https://api.push.apple.com''
      else Err ())"

definition apns_from_env :: "'k push_files \<Rightarrow> (string \<Rightarrow> env_value) \<Rightarrow> ('k apns option, unit) result" where
  "apns_from_env files env =
     env_need env ''HERDR_RELAY_APNS_KEY_FILE'' (\<lambda>path.
     env_need env ''HERDR_RELAY_APNS_KEY_ID'' (\<lambda>key_id.
     env_need env ''HERDR_RELAY_APNS_TEAM_ID'' (\<lambda>team_id.
     env_need env ''HERDR_RELAY_APNS_BUNDLE_ID'' (\<lambda>bundle_id.
     bind_result (env_get env ''HERDR_RELAY_APNS_SANDBOX'') (\<lambda>sandbox.
     bind_result (apns_endpoint sandbox) (\<lambda>endpoint.
     bind_result (ok_or () (pf_read files path)) (\<lambda>pem.
     bind_result (ok_or () (pf_ec_pem files pem)) (\<lambda>key.
       Ok (Some \<lparr>ap_key = key, ap_key_id = key_id, ap_team_id = team_id, ap_bundle_id = bundle_id, ap_endpoint = endpoint,
                 ap_token = None\<rparr>)))))))))"

definition project_char :: "char \<Rightarrow> bool" where
  "project_char ch \<longleftrightarrow> is_upper ch \<or> is_lower ch \<or> is_digit ch \<or> ch = CHR ''-''"

definition fcm_from_env :: "'k push_files \<Rightarrow> (string \<Rightarrow> env_value) \<Rightarrow> ('k fcm option, unit) result" where
  "fcm_from_env files env =
     env_need env ''HERDR_RELAY_FCM_SERVICE_ACCOUNT_FILE'' (\<lambda>path.
     bind_result (ok_or () (pf_read files path)) (\<lambda>bytes.
     bind_result (ok_or () (pf_account files bytes)) (\<lambda>account.
       if sa_project_id account = [] \<or> \<not> list_all project_char (sa_project_id account) \<or> trim (sa_client_email account) = [] then Err ()
       else bind_result (ok_or () (pf_rsa_pem files (sa_private_key account))) (\<lambda>key.
         Ok (Some \<lparr>fc_key = key, fc_email = sa_client_email account,
                   fc_endpoint = ''https://fcm.googleapis.com/v1/projects/'' @ sa_project_id account @ ''/messages:send'',
                   fc_token = None\<rparr>)))))"

definition config_result :: "('a option, unit) result \<Rightarrow> 'a option" where
  "config_result r = (case r of Ok v \<Rightarrow> v | Err _ \<Rightarrow> None)"

text \<open>\<open>builds\<close> says whether the HTTP client can be built.\<close>

definition providers_from_env :: "'k push_files \<Rightarrow> bool \<Rightarrow> (string \<Rightarrow> env_value) \<Rightarrow> 'k providers" where
  "providers_from_env files builds env =
     (let apns = config_result (apns_from_env files env); fcm = config_result (fcm_from_env files env) in
      \<lparr>pv_client = (apns \<noteq> None \<or> fcm \<noteq> None) \<and> builds, pv_apns = apns, pv_fcm = fcm\<rparr>)"

definition providers_enabled :: "'k providers \<Rightarrow> bool" where
  "providers_enabled p \<longleftrightarrow> pv_client p \<and> (pv_apns p \<noteq> None \<or> pv_fcm p \<noteq> None)"

definition providers_supports :: "'k providers \<Rightarrow> string \<Rightarrow> bool" where
  "providers_supports p platform \<longleftrightarrow>
     pv_client p \<and> (if platform = ''ios'' then pv_apns p \<noteq> None else if platform = ''android'' then pv_fcm p \<noteq> None else False)"

section \<open>Requests and answers\<close>

datatype http_body = FormBody "(string \<times> string) list" | JsonBody json

record http_request =
  rq_url :: string
  rq_bearer :: "string option"
  rq_headers :: "(string \<times> string) list"
  rq_body :: http_body

text \<open>The body arrives in chunks and may break off.\<close>

record http_response =
  rs_status :: nat
  rs_chunks :: "string list"
  rs_broken :: bool

text \<open>The requests sent so far, and what the next ones meet; past the list nothing answers.\<close>

record web =
  wb_sent :: "http_request list"
  wb_next :: "http_response option list"

definition http_send :: "http_request \<Rightarrow> web \<Rightarrow> web \<times> http_response option" where
  "http_send rq w =
     (case wb_next w of
        [] \<Rightarrow> (w\<lparr>wb_sent := wb_sent w @ [rq]\<rparr>, None)
      | r # rs \<Rightarrow> (\<lparr>wb_sent = wb_sent w @ [rq], wb_next = rs\<rparr>, r))"

definition is_success :: "http_response \<Rightarrow> bool" where
  "is_success r \<longleftrightarrow> 200 \<le> rs_status r \<and> rs_status r < 300"

definition RESPONSE_LIMIT :: nat where "RESPONSE_LIMIT = 64 * 1024"

fun read_chunks :: "string list \<Rightarrow> bool \<Rightarrow> string \<Rightarrow> (string, bool) result" where
  "read_chunks [] broken bytes = (if broken then Err False else Ok bytes)"
| "read_chunks (chunk # chunks) broken bytes =
     (if RESPONSE_LIMIT - length bytes < length chunk then Err False else read_chunks chunks broken (bytes @ chunk))"

definition response_json :: "(string \<Rightarrow> 'a option) \<Rightarrow> http_response \<Rightarrow> ('a, bool) result" where
  "response_json decode r = bind_result (read_chunks (rs_chunks r) (rs_broken r) []) (\<lambda>bytes. ok_or False (decode bytes))"

section \<open>A delivery\<close>

text \<open>The decoders and the signer (algorithm, key id, claims, key); the last instant there is bounds \<open>checked_add\<close>. Of
  one delivery, the readings of the clocks, and whether another delivery holds the cached token until the 25 s of
  \<open>send\<close> are over.\<close>

record access_token =
  at_access_token :: string
  at_expires_in :: "64 word"

record 'k push_tools =
  pt_json :: "string \<Rightarrow> json option"
  pt_access_token :: "string \<Rightarrow> access_token option"
  pt_sign :: "string \<Rightarrow> string option \<Rightarrow> json \<Rightarrow> 'k \<Rightarrow> string option"
  pt_last_instant :: instant

record push_clock =
  pc_locked :: bool
  pc_check :: instant
  pc_wall :: "64 word option"
  pc_started :: instant

definition cached :: "instant \<Rightarrow> cached_token option \<Rightarrow> string option" where
  "cached now t = (case t of Some c \<Rightarrow> if now < ct_expires c then Some (ct_value c) else None | None \<Rightarrow> None)"

definition apns_signed :: "'k push_tools \<Rightarrow> 'k apns \<Rightarrow> push_clock \<Rightarrow> string option" where
  "apns_signed t a c = Option.bind (pc_wall c) (\<lambda>iat.
     pt_sign t ''ES256'' (Some (ap_key_id a)) (JObj [(''iss'', JStr (ap_team_id a)), (''iat'', JNum (PosInt iat))]) (ap_key a))"

definition apns_bearer :: "'k push_tools \<Rightarrow> push_clock \<Rightarrow> 'k apns \<Rightarrow> 'k apns \<times> (string, bool) result" where
  "apns_bearer t c a =
     (if pc_locked c then (a, Err False)
      else case cached (pc_check c) (ap_token a) of
        Some v \<Rightarrow> (a, Ok v)
      | None \<Rightarrow>
          (case apns_signed t a c of
             None \<Rightarrow> (a, Err False)
           | Some v \<Rightarrow> (a\<lparr>ap_token := Some \<lparr>ct_value = v, ct_expires = pc_started c + secs (50 * 60)\<rparr>\<rparr>, Ok v)))"

definition apns_payload :: json where
  "apns_payload = JObj [(''aps'', JObj
     [(''alert'', JObj [(''title'', JStr PUSH_TITLE), (''body'', JStr PUSH_BODY)]),
      (''sound'', JStr ''default''), (''thread-id'', JStr ''herdr-agent'')])]"

definition fcm_payload :: "string \<Rightarrow> json" where
  "fcm_payload token = JObj [(''message'', JObj
     [(''token'', JStr token),
      (''notification'', JObj [(''title'', JStr PUSH_TITLE), (''body'', JStr PUSH_BODY)]),
      (''android'', JObj [(''notification'', JObj [(''channel_id'', JStr ''herdr_agent_status''), (''tag'', JStr ''herdr-agent'')])])])]"

definition hex_token :: "string \<Rightarrow> bool" where
  "hex_token token \<longleftrightarrow> token \<noteq> [] \<and> list_all (\<lambda>ch. hex_digit ch \<noteq> None) token"

definition apns_request :: "'k apns \<Rightarrow> string \<Rightarrow> string \<Rightarrow> http_request" where
  "apns_request a token bearer =
     \<lparr>rq_url = ap_endpoint a @ ''/3/device/'' @ token, rq_bearer = Some bearer,
      rq_headers = [(''apns-topic'', ap_bundle_id a), (''apns-push-type'', ''alert''), (''apns-priority'', ''10''),
                    (''apns-collapse-id'', ''herdr-agent'')],
      rq_body = JsonBody apns_payload\<rparr>"

definition apns_verdict :: "(string \<Rightarrow> json option) \<Rightarrow> http_response \<Rightarrow> (unit, bool) result" where
  "apns_verdict decode r =
     (if is_success r then Ok ()
      else if rs_status r = 410 then Err True
      else bind_result (response_json decode r) (\<lambda>body.
        Err (Option.bind (jget ''reason'' body) as_str = Some ''BadDeviceToken'')))"

definition apns_send :: "'k push_tools \<Rightarrow> push_clock \<Rightarrow> string \<Rightarrow> 'k apns \<Rightarrow> web \<Rightarrow> ('k apns \<times> web) \<times> (unit, bool) result" where
  "apns_send t c token a w =
     (if \<not> hex_token token then ((a, w), Err True)
      else case apns_bearer t c a of
        (a1, Err e) \<Rightarrow> ((a1, w), Err e)
      | (a1, Ok bearer) \<Rightarrow>
          (case http_send (apns_request a token bearer) w of
             (w1, None) \<Rightarrow> ((a1, w1), Err False)
           | (w1, Some r) \<Rightarrow> ((a1, w1), apns_verdict (pt_json t) r)))"

definition fcm_signed :: "'k push_tools \<Rightarrow> 'k fcm \<Rightarrow> push_clock \<Rightarrow> string option" where
  "fcm_signed t f c = Option.bind (pc_wall c) (\<lambda>issued.
     pt_sign t ''RS256'' None (JObj
       [(''iss'', JStr (fc_email f)), (''scope'', JStr ''https://www.googleapis.com/auth/firebase.messaging''),
        (''aud'', JStr OAUTH_URL), (''iat'', JNum (PosInt issued)), (''exp'', JNum (PosInt (issued + 3600)))]) (fc_key f))"

definition oauth_request :: "string \<Rightarrow> http_request" where
  "oauth_request assertion =
     \<lparr>rq_url = OAUTH_URL, rq_bearer = None, rq_headers = [],
      rq_body = FormBody [(''grant_type'', ''urn:ietf:params:oauth:grant-type:jwt-bearer''), (''assertion'', assertion)]\<rparr>"

definition fcm_bearer :: "'k push_tools \<Rightarrow> push_clock \<Rightarrow> 'k fcm \<Rightarrow> web \<Rightarrow> ('k fcm \<times> web) \<times> (string, bool) result" where
  "fcm_bearer t c f w =
     (if pc_locked c then ((f, w), Err False)
      else case cached (pc_check c) (fc_token f) of
        Some v \<Rightarrow> ((f, w), Ok v)
      | None \<Rightarrow>
          (case fcm_signed t f c of
             None \<Rightarrow> ((f, w), Err False)
           | Some assertion \<Rightarrow>
               (case http_send (oauth_request assertion) w of
                  (w1, None) \<Rightarrow> ((f, w1), Err False)
                | (w1, Some r) \<Rightarrow>
                    if 400 \<le> rs_status r \<and> rs_status r < 600 then ((f, w1), Err False)
                    else (case response_json (pt_access_token t) r of
                       Err e \<Rightarrow> ((f, w1), Err e)
                     | Ok token \<Rightarrow>
                         let expires = pc_started c + secs (unat (at_expires_in token) - 60) in
                         if at_access_token token = [] \<or> pt_last_instant t < expires then ((f, w1), Err False)
                         else ((f\<lparr>fc_token := Some \<lparr>ct_value = at_access_token token, ct_expires = expires\<rparr>\<rparr>, w1),
                               Ok (at_access_token token))))))"

text \<open>\<open>body.pointer("/error/details")\<close>, and an element that says the token is unregistered.\<close>

definition fcm_detail :: "json \<Rightarrow> bool" where
  "fcm_detail detail \<longleftrightarrow>
     jget ''@type'' detail = Some (JStr ''type.googleapis.com/google.firebase.fcm.v1.FcmError'')
     \<and> jget ''errorCode'' detail = Some (JStr ''UNREGISTERED'')"

definition fcm_invalid_token :: "json \<Rightarrow> bool" where
  "fcm_invalid_token body \<longleftrightarrow>
     (case Option.bind (Option.bind (jget ''error'' body) (jget ''details'')) as_array of
        Some details \<Rightarrow> list_ex fcm_detail details
      | None \<Rightarrow> False)"

definition fcm_request :: "'k fcm \<Rightarrow> string \<Rightarrow> string \<Rightarrow> http_request" where
  "fcm_request f token bearer =
     \<lparr>rq_url = fc_endpoint f, rq_bearer = Some bearer, rq_headers = [], rq_body = JsonBody (fcm_payload token)\<rparr>"

definition fcm_verdict :: "(string \<Rightarrow> json option) \<Rightarrow> http_response \<Rightarrow> (unit, bool) result" where
  "fcm_verdict decode r =
     (if is_success r then Ok () else bind_result (response_json decode r) (\<lambda>body. Err (fcm_invalid_token body)))"

definition fcm_send :: "'k push_tools \<Rightarrow> push_clock \<Rightarrow> string \<Rightarrow> 'k fcm \<Rightarrow> web \<Rightarrow> ('k fcm \<times> web) \<times> (unit, bool) result" where
  "fcm_send t c token f w =
     (case fcm_bearer t c f w of
        (s, Err e) \<Rightarrow> (s, Err e)
      | ((f1, w1), Ok bearer) \<Rightarrow>
          (case http_send (fcm_request f token bearer) w1 of
             (w2, None) \<Rightarrow> ((f1, w2), Err False)
           | (w2, Some r) \<Rightarrow> ((f1, w2), fcm_verdict (pt_json t) r)))"

definition providers_send ::
  "'k push_tools \<Rightarrow> push_clock \<Rightarrow> string \<Rightarrow> string \<Rightarrow> 'k providers \<Rightarrow> web \<Rightarrow> ('k providers \<times> web) \<times> (unit, bool) result" where
  "providers_send t c platform token p w =
     (if \<not> pv_client p then ((p, w), Err False)
      else if platform = ''ios'' then
        (case pv_apns p of
           None \<Rightarrow> ((p, w), Err False)
         | Some a \<Rightarrow> (case apns_send t c token a w of ((a1, w1), r) \<Rightarrow> ((p\<lparr>pv_apns := Some a1\<rparr>, w1), r)))
      else if platform = ''android'' then
        (case pv_fcm p of
           None \<Rightarrow> ((p, w), Err False)
         | Some f \<Rightarrow> (case fcm_send t c token f w of ((f1, w1), r) \<Rightarrow> ((p\<lparr>pv_fcm := Some f1\<rparr>, w1), r)))
      else ((p, w), Err False))"

section \<open>Bodies of answers\<close>

lemma read_chunks_Ok:
  "length bytes \<le> RESPONSE_LIMIT \<Longrightarrow>
     read_chunks chunks broken bytes = Ok b \<longleftrightarrow> \<not> broken \<and> b = bytes @ concat chunks \<and> length b \<le> RESPONSE_LIMIT"
  by (induction chunks broken bytes rule: read_chunks.induct) auto

text \<open>The body of an answer is read whole or not at all: it counts only when it came to its end within 64 KiB, however
  it was cut into chunks, and no more than that is ever held.\<close>

theorem response_body_bounded:
  "read_chunks chunks broken [] = Ok b \<longleftrightarrow> \<not> broken \<and> b = concat chunks \<and> length (concat chunks) \<le> RESPONSE_LIMIT"
  using read_chunks_Ok [of "[]" chunks broken b] by auto

section \<open>What ends a registration\<close>

text \<open>The answers of a provider that say a token is dead.\<close>

definition dead_apns :: "(string \<Rightarrow> json option) \<Rightarrow> http_response \<Rightarrow> bool" where
  "dead_apns decode r \<longleftrightarrow> rs_status r = 410
     \<or> (\<not> is_success r \<and> (\<exists>body. response_json decode r = Ok body \<and> jget ''reason'' body = Some (JStr ''BadDeviceToken'')))"

definition dead_fcm :: "(string \<Rightarrow> json option) \<Rightarrow> http_response \<Rightarrow> bool" where
  "dead_fcm decode r \<longleftrightarrow> \<not> is_success r \<and> (\<exists>body. response_json decode r = Ok body \<and> fcm_invalid_token body)"

lemma http_send_next: "http_send rq w = (w1, Some r) \<Longrightarrow> Some r \<in> set (wb_next w) \<and> set (wb_next w1) \<subseteq> set (wb_next w)"
  by (auto simp: http_send_def split: list.splits)

lemma http_send_sent: "http_send rq w = (w1, r) \<Longrightarrow> wb_sent w1 = wb_sent w @ [rq]"
  by (auto simp: http_send_def split: list.splits)

lemma response_json_not_dead: "response_json decode r \<noteq> Err True"
proof -
  have "read_chunks chunks broken bytes \<noteq> Err True" for chunks broken bytes
    by (induction chunks broken bytes rule: read_chunks.induct) auto
  then show ?thesis by (auto simp: response_json_def ok_or_def bind_result_def split: sum.splits option.splits)
qed

lemma apns_verdict_dead: "apns_verdict decode r = Err True \<Longrightarrow> dead_apns decode r"
  using response_json_not_dead [of decode r]
  by (cases "response_json decode r") (auto simp: apns_verdict_def dead_apns_def bind_eq_Some_conv split: if_splits)

lemma fcm_verdict_dead: "fcm_verdict decode r = Err True \<Longrightarrow> dead_fcm decode r"
  using response_json_not_dead [of decode r]
  by (cases "response_json decode r") (auto simp: fcm_verdict_def dead_fcm_def split: if_splits)

lemma apns_bearer_not_dead: "apns_bearer t c a = (a1, r) \<Longrightarrow> r \<noteq> Err True"
  by (auto simp: apns_bearer_def split: option.splits if_splits)

text \<open>What a bearer of FCM costs: nothing, one request that failed, or one that was answered.\<close>

lemma fcm_bearer_cases:
  assumes "fcm_bearer t c f w = ((f1, w1), r)"
  obtains "f1 = f" "w1 = w" "r \<noteq> Err True"
    | assertion x where "http_send (oauth_request assertion) w = (w1, x)" "fc_endpoint f1 = fc_endpoint f" "r \<noteq> Err True"
proof (cases "pc_locked c \<or> cached (pc_check c) (fc_token f) \<noteq> None \<or> fcm_signed t f c = None")
  case True
  then have "f1 = f" "w1 = w" "r \<noteq> Err True" using assms by (auto simp: fcm_bearer_def split: option.splits if_splits)
  then show ?thesis by (rule that(1))
next
  case False
  then obtain assertion where sg: "\<not> pc_locked c" "cached (pc_check c) (fc_token f) = None" "fcm_signed t f c = Some assertion" by auto
  obtain w2 x where x: "http_send (oauth_request assertion) w = (w2, x)" by force
  note e = assms [unfolded fcm_bearer_def sg, unfolded option.case x prod.case, unfolded if_False simp_thms]
  have "w1 = w2 \<and> fc_endpoint f1 = fc_endpoint f \<and> r \<noteq> Err True"
  proof (cases x)
    case None
    then show ?thesis using e sg(1) by auto
  next
    case (Some y)
    show ?thesis
      using e sg(1) response_json_not_dead [of "pt_access_token t" y] unfolding Some
      by (cases "response_json (pt_access_token t) y") (auto simp: Let_def split: if_splits)
  qed
  then show ?thesis using x that(2) by blast
qed

lemma fcm_bearer_next: "fcm_bearer t c f w = ((f1, w1), r) \<Longrightarrow> set (wb_next w1) \<subseteq> set (wb_next w)"
  by (erule fcm_bearer_cases) (auto simp: http_send_def split: list.splits)

lemma fcm_bearer_not_dead: "fcm_bearer t c f w = ((f1, w1), r) \<Longrightarrow> r \<noteq> Err True"
  by (erule fcm_bearer_cases)

lemma apns_send_dead:
  assumes "apns_send t c token a w = (s, Err True)"
  shows "\<not> hex_token token \<or> (\<exists>r. Some r \<in> set (wb_next w) \<and> dead_apns (pt_json t) r)"
proof (cases "hex_token token")
  case True
  obtain a1 b where b: "apns_bearer t c a = (a1, b)" by force
  obtain bearer where bearer: "b = Ok bearer"
    using assms True b apns_bearer_not_dead [OF b] by (cases b) (auto simp: apns_send_def)
  obtain w1 x where x: "http_send (apns_request a token bearer) w = (w1, x)" by force
  note e = assms [unfolded apns_send_def b bearer, unfolded prod.case sum.case x, unfolded prod.case]
  obtain r where r: "x = Some r" using e True by (cases x) auto
  have "dead_apns (pt_json t) r" using e r True by (intro apns_verdict_dead) simp
  then show ?thesis using http_send_next [OF x [unfolded r]] by blast
qed simp

lemma fcm_send_dead:
  assumes "fcm_send t c token f w = (s, Err True)"
  shows "\<exists>r. Some r \<in> set (wb_next w) \<and> dead_fcm (pt_json t) r"
proof -
  obtain f1 w1 b where b: "fcm_bearer t c f w = ((f1, w1), b)" by (metis prod.exhaust)
  obtain bearer where bearer: "b = Ok bearer"
    using assms b fcm_bearer_not_dead [OF b] by (cases b) (auto simp: fcm_send_def)
  obtain w2 x where x: "http_send (fcm_request f token bearer) w1 = (w2, x)" by force
  note e = assms [unfolded fcm_send_def b bearer, unfolded prod.case sum.case x, unfolded prod.case]
  obtain r where r: "x = Some r" using e by (cases x) auto
  have "dead_fcm (pt_json t) r" using e r by (intro fcm_verdict_dead) simp
  then show ?thesis using http_send_next [OF x [unfolded r]] fcm_bearer_next [OF b] by blast
qed

lemma providers_send_dead:
  assumes "providers_send t c platform token p w = (s, Err True)"
  shows "platform = ''ios'' \<and> (\<not> hex_token token \<or> (\<exists>r. Some r \<in> set (wb_next w) \<and> dead_apns (pt_json t) r))
    \<or> platform = ''android'' \<and> (\<exists>r. Some r \<in> set (wb_next w) \<and> dead_fcm (pt_json t) r)"
proof (cases "platform = ''ios''")
  case True
  obtain a q where "pv_apns p = Some a" "apns_send t c token a w = (q, Err True)"
    using assms True by (auto simp: providers_send_def split: if_splits option.splits prod.splits)
  then show ?thesis using True apns_send_dead by metis
next
  case False
  obtain f q where "platform = ''android''" "fcm_send t c token f w = (q, Err True)"
    using assms False by (auto simp: providers_send_def split: if_splits option.splits prod.splits)
  then show ?thesis using fcm_send_dead by metis
qed

text \<open>The task that \<open>receive\<close> spawns: the delivery, then the counters and the store.\<close>

definition outcome_of :: "(unit, bool) result \<Rightarrow> send_outcome" where
  "outcome_of r = (case r of Ok _ \<Rightarrow> Sent | Err dead \<Rightarrow> if dead then TokenGone else SendFailed)"

definition run_delivery :: "'k push_tools \<Rightarrow> push_clock \<Rightarrow> delivery \<Rightarrow> 'k providers \<Rightarrow> web \<Rightarrow> push \<Rightarrow> 'k providers \<times> web \<times> push" where
  "run_delivery t c d p w pu =
     (case providers_send t c (dl_platform d) (dl_token d) p w of
        ((p1, w1), r) \<Rightarrow> (p1, w1, push_delivered d (outcome_of r) pu))"


section \<open>What is told to a provider\<close>

definition apple_url :: "string \<Rightarrow> string \<Rightarrow> bool" where
  "apple_url token url \<longleftrightarrow> hex_token token
     \<and> (url = ''https://api.push.apple.com'' @ ''/3/device/'' @ token \<or> url = ''https://api.sandbox.push.apple.com'' @ ''/3/device/'' @ token)"

definition fcm_url :: "string \<Rightarrow> bool" where
  "fcm_url url \<longleftrightarrow> (\<exists>project. project \<noteq> [] \<and> list_all project_char project
     \<and> url = ''https://fcm.googleapis.com/v1/projects/'' @ project @ ''/messages:send'')"

text \<open>A request that names a device of \<open>tokens\<close> and says nothing else.\<close>

definition says_nothing :: "string set \<Rightarrow> http_request \<Rightarrow> bool" where
  "says_nothing tokens rq \<longleftrightarrow>
     (\<exists>token \<in> tokens. apple_url token (rq_url rq) \<and> rq_body rq = JsonBody apns_payload)
     \<or> (\<exists>token \<in> tokens. fcm_url (rq_url rq) \<and> rq_body rq = JsonBody (fcm_payload token))
     \<or> (rq_url rq = OAUTH_URL \<and> (\<exists>assertion. rq_body rq =
          FormBody [(''grant_type'', ''urn:ietf:params:oauth:grant-type:jwt-bearer''), (''assertion'', assertion)]))"

definition endpoints_ok :: "'k providers \<Rightarrow> bool" where
  "endpoints_ok p \<longleftrightarrow>
     (\<forall>a. pv_apns p = Some a \<longrightarrow> ap_endpoint a = ''https://api.push.apple.com'' \<or> ap_endpoint a = ''https://api.sandbox.push.apple.com'')
     \<and> (\<forall>f. pv_fcm p = Some f \<longrightarrow> fcm_url (fc_endpoint f))"

lemma env_need_Some: "env_need env name k = Ok (Some x) \<Longrightarrow> \<exists>v. k v = Ok (Some x)"
  by (auto simp: env_need_def bind_result_def split: sum.splits option.splits)

lemma apns_from_env_endpoint:
  assumes "apns_from_env files env = Ok (Some a)"
  shows "ap_endpoint a = ''https://api.push.apple.com'' \<or> ap_endpoint a = ''https://api.sandbox.push.apple.com''"
proof -
  obtain sandbox endpoint where "apns_endpoint sandbox = Ok endpoint" "ap_endpoint a = endpoint"
    using assms unfolding apns_from_env_def by (auto dest!: env_need_Some)
  then show ?thesis by (auto simp: apns_endpoint_def split: if_splits)
qed

lemma fcm_from_env_endpoint:
  assumes "fcm_from_env files env = Ok (Some f)"
  shows "fcm_url (fc_endpoint f)"
proof -
  from env_need_Some [OF assms [unfolded fcm_from_env_def]] show ?thesis
    unfolding fcm_url_def by (auto split: if_splits)
qed

lemma config_result_Some: "config_result r = Some a \<Longrightarrow> r = Ok (Some a)"
  by (cases r) (auto simp: config_result_def)

lemma endpoints_from_env: "endpoints_ok (providers_from_env files builds env)"
proof -
  have "pv_apns (providers_from_env files builds env) = Some a \<Longrightarrow> apns_from_env files env = Ok (Some a)" for a
    by (rule config_result_Some) (simp add: providers_from_env_def Let_def)
  moreover have "pv_fcm (providers_from_env files builds env) = Some f \<Longrightarrow> fcm_from_env files env = Ok (Some f)" for f
    by (rule config_result_Some) (simp add: providers_from_env_def Let_def)
  ultimately show ?thesis unfolding endpoints_ok_def using apns_from_env_endpoint fcm_from_env_endpoint by blast
qed

lemma apns_bearer_keeps:
  assumes "apns_bearer t c a = (a1, r)"
  shows "ap_endpoint a1 = ap_endpoint a" "apns_signed t a1 = apns_signed t a"
proof -
  have "a1 = a \<or> (\<exists>ct. a1 = a\<lparr>ap_token := Some ct\<rparr>)"
    using assms by (auto simp: apns_bearer_def split: option.splits if_splits)
  then show "ap_endpoint a1 = ap_endpoint a" "apns_signed t a1 = apns_signed t a"
    by (auto simp: apns_signed_def fun_eq_iff)
qed

lemma oauth_quiet: "says_nothing tokens (oauth_request assertion)"
  by (simp add: says_nothing_def oauth_request_def)

lemma fcm_bearer_keeps:
  assumes "fcm_bearer t c f w = ((f1, w1), r)"
  shows "fc_endpoint f1 = fc_endpoint f" "\<forall>rq \<in> set (wb_sent w1). rq \<in> set (wb_sent w) \<or> says_nothing tokens rq"
  using assms by (auto elim!: fcm_bearer_cases dest!: http_send_sent simp: oauth_quiet)

lemma apns_request_quiet:
  assumes "hex_token token" "token \<in> tokens"
    and "ap_endpoint a = ''https://api.push.apple.com'' \<or> ap_endpoint a = ''https://api.sandbox.push.apple.com''"
  shows "says_nothing tokens (apns_request a token bearer)"
proof -
  have "apple_url token (rq_url (apns_request a token bearer))" "rq_body (apns_request a token bearer) = JsonBody apns_payload"
    using assms(1,3) by (auto simp only: apple_url_def apns_request_def http_request.simps)
  then show ?thesis unfolding says_nothing_def using assms(2) by blast
qed

lemma apns_send_quiet:
  assumes "apns_send t c token a w = ((a1, w1), r)" "token \<in> tokens"
    and "ap_endpoint a = ''https://api.push.apple.com'' \<or> ap_endpoint a = ''https://api.sandbox.push.apple.com''"
  shows "ap_endpoint a1 = ap_endpoint a \<and> (\<forall>rq \<in> set (wb_sent w1). rq \<in> set (wb_sent w) \<or> says_nothing tokens rq)"
proof (cases "hex_token token")
  case True
  obtain a2 b where b: "apns_bearer t c a = (a2, b)" by force
  show ?thesis
  proof (cases b)
    case (Inl e)
    then show ?thesis using assms(1) True b apns_bearer_keeps(1) [OF b] by (simp add: apns_send_def)
  next
    case (Inr bearer)
    obtain w2 x where x: "http_send (apns_request a token bearer) w = (w2, x)" by force
    have "a1 = a2" "w1 = w2"
      using assms(1) unfolding apns_send_def b Inr by (cases x; simp add: True x)+
    then show ?thesis
      using apns_bearer_keeps(1) [OF b] http_send_sent [OF x] apns_request_quiet [OF True assms(2,3)] by simp
  qed
qed (use assms(1) in \<open>simp add: apns_send_def\<close>)

lemma fcm_send_quiet:
  assumes "fcm_send t c token f w = ((f1, w1), r)" "token \<in> tokens" "fcm_url (fc_endpoint f)"
  shows "fc_endpoint f1 = fc_endpoint f \<and> (\<forall>rq \<in> set (wb_sent w1). rq \<in> set (wb_sent w) \<or> says_nothing tokens rq)"
proof -
  obtain f2 w2 b where b: "fcm_bearer t c f w = ((f2, w2), b)" by (metis prod.exhaust)
  note k = fcm_bearer_keeps [OF b]
  show ?thesis
  proof (cases b)
    case (Inl e)
    then show ?thesis using assms(1) b k by (simp add: fcm_send_def)
  next
    case (Inr bearer)
    obtain w3 x where x: "http_send (fcm_request f token bearer) w2 = (w3, x)" by force
    have "f1 = f2" "w1 = w3"
      using assms(1) unfolding fcm_send_def b Inr by (cases x; simp add: x)+
    moreover have "says_nothing tokens (fcm_request f token bearer)"
      unfolding says_nothing_def fcm_request_def using assms(2,3) by auto
    ultimately show ?thesis using k http_send_sent [OF x] by auto
  qed
qed

lemma providers_send_quiet:
  assumes "providers_send t c platform token p w = ((p1, w1), r)" "token \<in> tokens" "endpoints_ok p"
    and "\<forall>rq \<in> set (wb_sent w). says_nothing tokens rq"
  shows "endpoints_ok p1 \<and> (\<forall>rq \<in> set (wb_sent w1). says_nothing tokens rq)"
proof -
  consider "p1 = p" "w1 = w"
    | a a1 where "pv_apns p = Some a" "apns_send t c token a w = ((a1, w1), r)" "p1 = p\<lparr>pv_apns := Some a1\<rparr>"
    | f f1 where "pv_fcm p = Some f" "fcm_send t c token f w = ((f1, w1), r)" "p1 = p\<lparr>pv_fcm := Some f1\<rparr>"
    using assms(1)
    by (cases "pv_apns p"; cases "pv_fcm p"; cases "platform = ''ios''"; cases "platform = ''android''")
      (simp_all add: providers_send_def split: if_splits prod.splits)
  then show ?thesis
  proof cases
    case 1
    then show ?thesis using assms(3,4) by simp
  next
    case 2
    then show ?thesis using apns_send_quiet [OF 2(2) assms(2)] assms(3,4) by (auto simp: endpoints_ok_def)
  next
    case 3
    then show ?thesis using fcm_send_quiet [OF 3(2) assms(2)] assms(3,4) by (auto simp: endpoints_ok_def)
  qed
qed

text \<open>Deliveries one after the other: clocks, platform and token of each.\<close>

fun send_all :: "'k push_tools \<Rightarrow> (push_clock \<times> string \<times> string) list \<Rightarrow> 'k providers \<times> web \<Rightarrow> 'k providers \<times> web" where
  "send_all t [] s = s"
| "send_all t ((c, platform, token) # ds) (p, w) = send_all t ds (fst (providers_send t c platform token p w))"


section \<open>The age of Apple's bearer\<close>

fun apns_bearers :: "'k push_tools \<Rightarrow> push_clock list \<Rightarrow> 'k apns \<Rightarrow> (string, bool) result list" where
  "apns_bearers t [] a = []"
| "apns_bearers t (c # cs) a = (case apns_bearer t c a of (a1, r) \<Rightarrow> r # apns_bearers t cs a1)"

definition token_of_past :: "'k push_tools \<Rightarrow> push_clock set \<Rightarrow> 'k apns \<Rightarrow> bool" where
  "token_of_past t past a \<longleftrightarrow> (\<forall>ct. ap_token a = Some ct \<longrightarrow>
     (\<exists>c \<in> past. apns_signed t a c = Some (ct_value ct) \<and> ct_expires ct = pc_started c + secs (50 * 60)))"

text \<open>A bearer is the cached one, none, or a new one.\<close>

lemma apns_bearer_cases:
  assumes "apns_bearer t c a = (a1, r)"
  obtains (old) ct where "ap_token a = Some ct" "pc_check c < ct_expires ct" "a1 = a" "r = Ok (ct_value ct)"
    | (failed) "a1 = a" "r = Err False"
    | (new) x where "apns_signed t a c = Some x" "r = Ok x" "ap_token a1 = Some \<lparr>ct_value = x, ct_expires = pc_started c + secs (50 * 60)\<rparr>"
  using assms by (auto simp: apns_bearer_def cached_def split: option.splits if_splits)

lemma apns_bearer_past:
  assumes "token_of_past t past a" "apns_bearer t c a = (a1, r)"
  shows "token_of_past t (insert c past) a1"
    and "r = Ok v \<Longrightarrow> \<exists>b \<in> insert c past. apns_signed t a b = Some v \<and> (b = c \<or> pc_check c < pc_started b + secs (50 * 60))"
proof -
  note k = apns_bearer_keeps(2) [OF assms(2)]
  show "token_of_past t (insert c past) a1"
    using assms(2)
  proof (cases rule: apns_bearer_cases)
    case (new x)
    then show ?thesis by (simp add: token_of_past_def k)
  qed (use assms(1) in \<open>auto simp: token_of_past_def\<close>)
  show "r = Ok v \<Longrightarrow> \<exists>b \<in> insert c past. apns_signed t a b = Some v \<and> (b = c \<or> pc_check c < pc_started b + secs (50 * 60))"
    using assms(2)
  proof (cases rule: apns_bearer_cases)
    case (old ct)
    moreover obtain b where "b \<in> past" "apns_signed t a b = Some (ct_value ct)" "ct_expires ct = pc_started b + secs (50 * 60)"
      using assms(1) old(1) unfolding token_of_past_def by blast
    ultimately show "r = Ok v \<Longrightarrow> ?thesis" by auto
  qed auto
qed

text \<open>Apple is never shown an old bearer: over any deliveries each one uses a token that was signed for it, or for an
  earlier delivery less than 50 minutes before, as Apple's limit of one hour asks.\<close>

theorem apns_bearer_young:
  assumes "ap_token a = None" "n < length cs" "apns_bearers t cs a ! n = Ok v"
  shows "\<exists>c \<in> set (take (Suc n) cs). apns_signed t a c = Some v \<and> (c = cs ! n \<or> pc_check (cs ! n) < pc_started c + secs (50 * 60))"
proof -
  have "token_of_past t past b \<Longrightarrow> apns_signed t b = apns_signed t a \<Longrightarrow> n < length cs \<Longrightarrow> apns_bearers t cs b ! n = Ok v
      \<Longrightarrow> \<exists>c \<in> past \<union> set (take (Suc n) cs). apns_signed t a c = Some v \<and> (c = cs ! n \<or> pc_check (cs ! n) < pc_started c + secs (50 * 60))"
    for past b n cs
  proof (induction cs arbitrary: n past b)
    case (Cons c cs)
    obtain b1 r where r: "apns_bearer t c b = (b1, r)" by force
    note p = apns_bearer_past [OF Cons.prems(1) r]
    show ?case
    proof (cases n)
      case 0
      then show ?thesis using p(2) Cons.prems(2,4) r by auto
    next
      case (Suc m)
      have "apns_signed t b1 = apns_signed t a" using apns_bearer_keeps(2) [OF r] Cons.prems(2) by simp
      from Cons.IH [OF p(1) this, of m] Suc Cons.prems(3,4) r show ?thesis by auto
    qed
  qed simp
  from this [of "{}" a n cs] assms show ?thesis by (simp add: token_of_past_def)
qed

section \<open>Witnesses\<close>

definition sample_tools :: "unit push_tools" where
  "sample_tools = \<lparr>pt_json = (\<lambda>_. None), pt_access_token = (\<lambda>_. None), pt_sign = (\<lambda>_ _ _ _. Some ''jwt''), pt_last_instant = secs 1000000\<rparr>"

definition sample_push_clock :: "nat \<Rightarrow> push_clock" where
  "sample_push_clock n = \<lparr>pc_locked = False, pc_check = secs n, pc_wall = Some (of_nat n), pc_started = secs n\<rparr>"

definition sample_push_files :: "unit push_files" where
  "sample_push_files = \<lparr>pf_read = (\<lambda>_. Some ''pem''), pf_ec_pem = (\<lambda>_. Some ()), pf_rsa_pem = (\<lambda>_. Some ()), pf_account = (\<lambda>_. None)\<rparr>"

definition sample_push_env :: "string \<Rightarrow> env_value" where
  "sample_push_env name = (if name = ''HERDR_RELAY_APNS_SANDBOX'' then EnvUnset else EnvText ''x'')"

definition gone_answer :: http_response where
  "gone_answer = \<lparr>rs_status = 410, rs_chunks = [], rs_broken = False\<rparr>"

lemma sample_providers:
  "\<exists>a. providers_from_env sample_push_files True sample_push_env = \<lparr>pv_client = True, pv_apns = Some a, pv_fcm = None\<rparr>
     \<and> ap_endpoint a = ''https://api.push.apple.com'' \<and> ap_token a = None"
proof -
  have "trim ''x'' = ''x''" by code_simp
  then show ?thesis
    by (simp add: providers_from_env_def apns_from_env_def fcm_from_env_def env_need_def env_get_def sample_push_env_def sample_push_files_def
        apns_endpoint_def config_result_def Let_def)
qed

definition sample_push_state :: "handle \<Rightarrow> push" where
  "sample_push_state rh = push_new\<lparr>pu_store := store_register rh ''ios'' ''ab'' store_default\<rparr>"



theorem apns_bearer_young_witness:
  "\<exists>c \<in> set [sample_push_clock 1, sample_push_clock 2]. apns_signed sample_tools
      \<lparr>ap_key = (), ap_key_id = [], ap_team_id = [], ap_bundle_id = [], ap_endpoint = [], ap_token = None\<rparr> c = Some ''jwt''"
proof -
  let ?a = "\<lparr>ap_key = (), ap_key_id = [], ap_team_id = [], ap_bundle_id = [], ap_endpoint = [], ap_token = None\<rparr>"
  have "apns_bearers sample_tools [sample_push_clock 1, sample_push_clock 2] ?a ! 1 = Ok ''jwt''"
    by (simp add: apns_bearer_def apns_signed_def cached_def sample_tools_def sample_push_clock_def secs_def)
  with apns_bearer_young [of ?a 1 "[sample_push_clock 1, sample_push_clock 2]" sample_tools "''jwt''"] show ?thesis by auto
qed

end
