(* ===== verification/Command_Line.thy ===== *)
theory Command_Line
  imports Control_Plane Keybind Key_Storage
begin

text \<open>
  \<open>herdr-relay/src/main.rs\<close>: which part of the program an argument list starts, the \<open>ctl\<close> client of the control
  transport and the report of \<open>install-keybind\<close>, with \<open>control_paths\<close> of \<open>bridge.rs\<close>. What is printed is a list of
  lines. The transport is the client of \<open>Control_Plane\<close>; the escaping of a device name is an argument.
\<close>

section \<open>What is started\<close>

datatype launch =
    LaunchPopup bool
  | LaunchKeybind string
  | LaunchCtl "string list"
  | LaunchVersion
  | LaunchBridge

definition keybind_action :: "bool \<Rightarrow> string list \<Rightarrow> string" where
  "keybind_action windows args =
     (let after = drop 1 (dropWhile (\<lambda>arg. arg \<noteq> ''--action'') args) in
      case after of action # _ \<Rightarrow> action | [] \<Rightarrow> if windows then ''pair-windows'' else ''pair'')"

definition launch_of :: "bool \<Rightarrow> string list \<Rightarrow> launch" where
  "launch_of windows args =
     (case args of
        [] \<Rightarrow> LaunchBridge
      | verb # rest \<Rightarrow>
          if verb = ''popup'' then LaunchPopup (''--once'' \<in> set args)
          else if verb = ''install-keybind'' then LaunchKeybind (keybind_action windows args)
          else if verb = ''ctl'' then LaunchCtl rest
          else if verb = ''--version'' then LaunchVersion
          else LaunchBridge)"

text \<open>The lines printed to the two streams and the exit code.\<close>

record run_report =
  rr_stdout :: "string list"
  rr_stderr :: "string list"
  rr_code :: nat

definition exits :: "string list \<Rightarrow> string list \<Rightarrow> nat \<Rightarrow> run_report" where
  "exits out err code = \<lparr>rr_stdout = out, rr_stderr = err, rr_code = code\<rparr>"

text \<open>The end of \<open>install-keybind\<close>; \<open>log_failed\<close> says that a line could not be written to \<open>relay.log\<close>.\<close>

definition keybind_report :: "(outcome, keybind_error) result \<Rightarrow> bool \<Rightarrow> run_report" where
  "keybind_report r log_failed =
     (let l = (case r of
           Ok out \<Rightarrow> ''herdr-relay: keybind '' @ outcome_describe out
         | Err e \<Rightarrow> ''herdr-relay: keybind install failed: '' @ keybind_error_kind_name e) in
      if log_failed then exits [] [''herdr-relay: writing relay.log failed''] 1
      else case r of Ok _ \<Rightarrow> exits [l] [] 0 | Err _ \<Rightarrow> exits [] [l] 1)"

text \<open>\<open>env\<close> is \<open>HERDR_RELAY_CONFIG_DIR\<close>, \<open>output\<close> what \<open>herdr plugin config-dir\<close> gave.\<close>

definition control_paths :: "string option \<Rightarrow> (string \<times> bool) option \<Rightarrow> (config_paths, config_dir_error) result" where
  "control_paths env output =
     (case env of
        Some dir \<Rightarrow> if dir \<noteq> [] then Ok (paths_new dir)
                    else bind_result (resolve_config_dir output) (\<lambda>d. Ok (paths_with_os_keyring d))
      | None \<Rightarrow> bind_result (resolve_config_dir output) (\<lambda>d. Ok (paths_with_os_keyring d)))"

definition config_dir_error_text :: "config_dir_error \<Rightarrow> string" where
  "config_dir_error_text e =
     (case e of
        ConfigDirSpawn \<Rightarrow> ''run herdr plugin config-dir herdr-relay failed''
      | ConfigDirStatus \<Rightarrow> ''herdr plugin config-dir herdr-relay exited with a failure status''
      | ConfigDirEmpty \<Rightarrow> ''herdr plugin config-dir herdr-relay printed an empty path'')"

section \<open>The client\<close>

fun link_word :: "link_state \<Rightarrow> string" where
  "link_word Connected = ''connected''"
| "link_word Idle = ''idle''"
| "link_word Offline = ''offline''"
| "link_word Stopped = ''stopped''"

definition ctl_status_lines :: "host_status \<Rightarrow> string list" where
  "ctl_status_lines st =
     [''relay: '' @ st_relay_origin st, ''link: '' @ link_word (ls_state (st_link st)), ''devices: '' @ show_nat (length (st_devices st)),
      (case st_pairing st of
         Some pairing \<Rightarrow> ''pairing: open, '' @ show_nat (pst_expires_in_s pairing) @ '' s left''
       | None \<Rightarrow> ''pairing: none'')]"

definition write_client :: "(string \<Rightarrow> string) \<Rightarrow> device_row \<Rightarrow> string" where
  "write_client escape_debug row =
     escape_debug (dr_device_name row) @ '' '' @ (case dr_platform row of Ios \<Rightarrow> ''ios'' | Android \<Rightarrow> ''android'') @ '' '' @ dr_fingerprint row"

text \<open>The rows of \<open>clients\<close>; \<open>room\<close> is how many of them stdout takes, if it breaks.\<close>

definition ctl_clients :: "(string \<Rightarrow> string) \<Rightarrow> nat option \<Rightarrow> host_status \<Rightarrow> string list \<times> (unit, client_error) result" where
  "ctl_clients escape_debug room st =
     (let rows = map (write_client escape_debug) (st_devices st) in
      case room of
        Some n \<Rightarrow> if n < length rows then (take n rows, Err CL_Io) else (rows, Ok ())
      | None \<Rightarrow> (rows, Ok ()))"

definition ctl_usage :: string where
  "ctl_usage = ''usage: herdr-relay ctl <status|clients|refresh|stop|revoke <device_id>>''"

text \<open>\<open>ask\<close> is \<open>control::request\<close> on the endpoint of the paths; \<open>status_of\<close> decodes the status object.\<close>

type_synonym 'w asker = "control_command \<Rightarrow> 'w \<Rightarrow> 'w \<times> (json, client_error) result"

definition ctl_end :: "string list \<Rightarrow> (unit, client_error) result \<Rightarrow> run_report" where
  "ctl_end out r =
     (case r of
        Ok _ \<Rightarrow> exits out [] 0
      | Err CL_NotRunning \<Rightarrow> exits out [not_running_notice] 2
      | Err (CL_Rejected code) \<Rightarrow> exits out [''herdr-relay: the bridge rejected the command ('' @ control_error_debug code @ '')''] 1
      | Err e \<Rightarrow> exits out [''herdr-relay: '' @ client_error_text e] 1)"

definition ctl_send :: "'w asker \<Rightarrow> control_command \<Rightarrow> 'w \<Rightarrow> 'w \<times> run_report" where
  "ctl_send ask cmd w = (case ask cmd w of (w1, r) \<Rightarrow> (w1, ctl_end [] (bind_result r (\<lambda>_. Ok ()))))"

definition ctl ::
  "(config_paths, config_dir_error) result \<Rightarrow> (config_paths \<Rightarrow> 'w asker) \<Rightarrow> (json \<Rightarrow> host_status option) \<Rightarrow> (string \<Rightarrow> string) \<Rightarrow>
     nat option \<Rightarrow> string list \<Rightarrow> 'w \<Rightarrow> 'w \<times> run_report" where
  "ctl paths asker status_of escape_debug room args w =
     (case args of
        [] \<Rightarrow> (w, exits [] [ctl_usage] 1)
      | verb # rest \<Rightarrow>
          (case paths of
             Err e \<Rightarrow> (w, exits [] [''herdr-relay: '' @ config_dir_error_text e] 2)
           | Ok p \<Rightarrow>
               if verb = ''status'' then
                 (case asker p CmdStatus w of
                    (w1, r) \<Rightarrow> (w1, case control_status status_of r of Ok st \<Rightarrow> ctl_end (ctl_status_lines st) (Ok ()) | Err e \<Rightarrow> ctl_end [] (Err e)))
               else if verb = ''clients'' then
                 (case asker p CmdStatus w of
                    (w1, r) \<Rightarrow> (w1, case control_status status_of r of
                       Ok st \<Rightarrow> (case ctl_clients escape_debug room st of (out, res) \<Rightarrow> ctl_end out res)
                     | Err e \<Rightarrow> ctl_end [] (Err e)))
               else if verb = ''refresh'' then ctl_send (asker p) CmdRevokeAll w
               else if verb = ''stop'' then ctl_send (asker p) CmdStop w
               else if verb = ''revoke'' then
                 (case rest of
                    device_id # _ \<Rightarrow> ctl_send (asker p) (CmdRevoke device_id) w
                  | [] \<Rightarrow> (w, exits [] [''usage: herdr-relay ctl revoke <device_id>''] 1))
               else (w, exits [] [ctl_usage] 1)))"

section \<open>What is printed and sent\<close>

text \<open>A status without what a pairing keeps secret.\<close>

definition redacted :: "host_status \<Rightarrow> host_status" where
  "redacted st = st\<lparr>st_pairing := map_option (\<lambda>p. p\<lparr>pst_uri := None, pst_phrase := None, pst_handle := None\<rparr>) (st_pairing st)\<rparr>"

lemma ctl_lines_redacted [simp]:
  "ctl_status_lines (redacted st) = ctl_status_lines st" "ctl_clients escape_debug room (redacted st) = ctl_clients escape_debug room st"
  by (simp_all add: ctl_status_lines_def ctl_clients_def redacted_def split: option.split)

lemma status_redacted:
  "control_status (\<lambda>v. map_option redacted (status_of v)) r = (case control_status status_of r of Ok st \<Rightarrow> Ok (redacted st) | Err e \<Rightarrow> Err e)"
  by (cases r) (auto simp: control_status_def bind_result_def ok_or_def split: option.split)

text \<open>C27: The command line tells no secret: for any arguments, all it prints, its exit code and what it sends are the same
  when the phrase, the pairing address and the handle are blanked out of the status it reads.\<close>

theorem ctl_tells_no_secret:
  "ctl paths asker (\<lambda>v. map_option redacted (status_of v)) escape_debug room args w = ctl paths asker status_of escape_debug room args w"
  by (auto simp: ctl_def status_redacted split: list.split sum.split prod.split)

text \<open>The command a verb stands for.\<close>

definition ctl_command :: "string list \<Rightarrow> control_command option" where
  "ctl_command args =
     (case args of
        [] \<Rightarrow> None
      | verb # rest \<Rightarrow>
          if verb = ''status'' \<or> verb = ''clients'' then Some CmdStatus
          else if verb = ''refresh'' then Some CmdRevokeAll
          else if verb = ''stop'' then Some CmdStop
          else if verb = ''revoke'' then map_option CmdRevoke (case rest of i # _ \<Rightarrow> Some i | [] \<Rightarrow> None)
          else None)"

lemma ctl_end_code: "rr_code (ctl_end out r) = (case r of Ok _ \<Rightarrow> 0 | Err e \<Rightarrow> if e = CL_NotRunning then 2 else 1)"
  by (auto simp: ctl_end_def exits_def split: sum.split client_error.split)

text \<open>\<open>ctl\<close> sends exactly the command of its verb, once, and nothing for any other arguments; it exits with 2 when the
  bridge is not running or the paths are unknown, with 0 only after an answer that was accepted, and with 1 otherwise.\<close>

theorem ctl_outcome:
  assumes "ctl paths asker status_of escape_debug room args w = (w1, report)"
  shows "case (ctl_command args, paths) of
      (None, _) \<Rightarrow> w1 = w \<and> (rr_code report = 1 \<or> args \<noteq> [] \<and> (\<exists>e. paths = Err e) \<and> rr_code report = 2)
    | (Some cmd, Err _) \<Rightarrow> w1 = w \<and> rr_code report = 2
    | (Some cmd, Ok p) \<Rightarrow> w1 = fst (asker p cmd w) \<and> (case snd (asker p cmd w) of
          Err e \<Rightarrow> rr_code report = (if e = CL_NotRunning then 2 else 1)
        | Ok v \<Rightarrow> rr_code report = 0 \<or> cmd = CmdStatus \<and> rr_code report = 1)"
proof (cases args)
  case Nil
  then show ?thesis using assms by (auto simp: ctl_def ctl_command_def exits_def)
next
  case (Cons verb rest)
  show ?thesis
  proof (cases paths)
    case (Inl e)
    then show ?thesis using assms Cons by (auto simp: ctl_def exits_def split: option.split)
  next
    case (Inr p)
    have send: "ctl_send (asker p) cmd w = (w1, report) \<Longrightarrow> w1 = fst (asker p cmd w) \<and> (case snd (asker p cmd w) of
        Err e \<Rightarrow> rr_code report = (if e = CL_NotRunning then 2 else 1) | Ok v \<Rightarrow> rr_code report = 0)" for cmd
      by (cases "asker p cmd w"; cases "snd (asker p cmd w)") (auto simp: ctl_send_def ctl_end_code)
    obtain w2 r where ask: "asker p CmdStatus w = (w2, r)" by force
    have stat: "r = Err e \<Longrightarrow> control_status status_of r = Err e" for e by (simp add: control_status_def)
    have bad: "r = Ok v \<Longrightarrow> control_status status_of r = Err e \<Longrightarrow> e \<noteq> CL_NotRunning" for v e
      by (auto simp: control_status_def ok_or_def split: option.splits)
    consider "verb = ''status''" | "verb = ''clients''" | "verb = ''refresh''" | "verb = ''stop''" | "verb = ''revoke''"
      | (other) "verb \<notin> {''status'', ''clients'', ''refresh'', ''stop'', ''revoke''}" by blast
    then show ?thesis
    proof cases
      case 1
      show ?thesis
      proof (cases "control_status status_of r")
        case (Inl e)
        then show ?thesis using assms Cons Inr ask stat bad 1
          by (cases r) (auto simp: ctl_def ctl_command_def ctl_end_code)
      next
        case (Inr st)
        then show ?thesis using assms Cons \<open>paths = Ok p\<close> ask stat 1
          by (cases r) (auto simp: ctl_def ctl_command_def ctl_end_code)
      qed
    next
      case 2
      show ?thesis
      proof (cases "control_status status_of r")
        case (Inl e)
        then show ?thesis using assms Cons Inr ask stat bad 2
          by (cases r) (auto simp: ctl_def ctl_command_def ctl_end_code)
      next
        case (Inr st)
        then show ?thesis using assms Cons \<open>paths = Ok p\<close> ask stat 2
          by (cases r) (auto simp: ctl_def ctl_command_def ctl_end_code ctl_clients_def Let_def split: option.splits if_splits)
      qed
    next
      case 3
      then show ?thesis using assms Cons Inr send [of CmdRevokeAll] by (auto simp: ctl_def ctl_command_def split: sum.splits)
    next
      case 4
      then show ?thesis using assms Cons Inr send [of CmdStop] by (auto simp: ctl_def ctl_command_def split: sum.splits)
    next
      case 5
      then show ?thesis using assms Cons Inr send [of "CmdRevoke (hd rest)"]
        by (cases rest) (auto simp: ctl_def ctl_command_def exits_def split: sum.splits)
    next
      case other
      then show ?thesis using assms Cons Inr by (auto simp: ctl_def ctl_command_def exits_def)
    qed
  qed
qed

text \<open>A throwaway state directory never touches the identity of the machine: under an override of the directory,
  loading and rotating the key leave the credential store alone and do not depend on what it holds.\<close>

theorem override_leaves_keyring:
  assumes "dir \<noteq> []" "control_paths (Some dir) output = Ok p"
  shows "ks_secret (fst (load_or_generate c p e st)) = ks_secret st
    \<and> ks_secret (fst (rotate_keypair c p e st)) = ks_secret st
    \<and> snd (load_or_generate c p e (st\<lparr>ks_secret := secret\<rparr>)) = snd (load_or_generate c p e st)"
proof -
  have p: "\<not> cp_os_keyring p" using assms by (auto simp: control_paths_def paths_new_def)
  have w: "ks_secret (fst (keep_in_file c p e kp s)) = ks_secret s" for kp s
    by (auto simp: keep_in_file_def fallback_write_def split: prod.split sum.split)
  have i: "snd (keep_in_file c p e kp (st\<lparr>ks_secret := secret\<rparr>)) = snd (keep_in_file c p e kp st)" for kp
    by (auto simp: keep_in_file_def fallback_write_def split: prod.split sum.split)
  have r: "fallback_read c p e (st\<lparr>ks_secret := secret\<rparr>) = fallback_read c p e st" by (simp add: fallback_read_def)
  show ?thesis
    using p w i r
    by (auto simp: load_or_generate_def rotate_keypair_def fallback_load_or_generate_def split: sum.split option.split)
qed

text \<open>A path that cannot be resolved is a failure of this machine, yet it exits as if the bridge were not running.\<close>

theorem local_failure_exits_two:
  "rr_code (snd (ctl (Err ConfigDirSpawn) asker status_of escape_debug room [''stop''] w)) = 2"
  by (simp add: ctl_def exits_def)

section \<open>Witnesses\<close>

theorem ctl_outcome_witness:
  "rr_code (snd (ctl (Ok (paths_new ''d'')) (\<lambda>p cmd w. (w @ [cmd], Ok JNull)) (\<lambda>_. None) (\<lambda>n. n) None [''revoke'', ''a''] [])) = 0
    \<and> fst (ctl (Ok (paths_new ''d'')) (\<lambda>p cmd w. (w @ [cmd], Ok JNull)) (\<lambda>_. None) (\<lambda>n. n) None [''revoke'', ''a''] []) = [CmdRevoke ''a'']"
proof -
  obtain w1 report where run: "ctl (Ok (paths_new ''d'')) (\<lambda>p cmd w. (w @ [cmd], Ok JNull)) (\<lambda>_. None) (\<lambda>n. n) None [''revoke'', ''a''] [] = (w1, report)"
    by force
  from ctl_outcome [OF run] run show ?thesis by (simp add: ctl_command_def)
qed

theorem override_leaves_keyring_witness:
  "\<exists>p. control_paths (Some ''d'') None = Ok p \<and> ks_secret (fst (rotate_keypair sample_codec p (sample_key_env True 1) empty_keys)) = None"
proof -
  have p: "control_paths (Some ''d'') None = Ok (paths_new ''d'')" by (simp add: control_paths_def)
  from override_leaves_keyring [OF _ p] p show ?thesis by (auto simp: empty_keys_def)
qed

end
