(* ===== verification/Host_Handshake.thy ===== *)
theory Host_Handshake
  imports Session_Serve
begin

text \<open>
  \<open>herdr-relay/src/noise.rs\<close>, the handshakes of \<open>relay/connection.rs\<close>, \<open>idle_handshake\<close> of \<open>bridge.rs\<close> and
  \<open>relay/session.rs\<close>: from a registered socket to a transport, and the wait for a Device. The crate \<open>snow\<close> is a
  record of its calls, each with what its documentation lets it do; a panic of an \<open>expect\<close> or of
  \<open>copy_from_slice\<close> is None. A socket is the list of what arrives on it and a writer of what leaves.
\<close>

section \<open>Noise handshakes\<close>

definition XXPSK0_PARAMS :: string where "XXPSK0_PARAMS = ''Noise_XXpsk0_25519_ChaChaPoly_BLAKE2s''"
definition KK_PARAMS :: string where "KK_PARAMS = ''Noise_KK_25519_ChaChaPoly_BLAKE2s''"

datatype noise_role = Initiator | Responder

text \<open>\<open>snow\<close>: parsed parameters \<open>'q\<close>, builders \<open>'b\<close>, handshake states \<open>'h\<close> and transport states \<open>'t\<close>. The
  calls that write into a buffer get its length.\<close>

record ('q, 'b, 'h, 't) snow =
  sw_parse :: "string \<Rightarrow> 'q option"
  sw_builder :: "'q \<Rightarrow> 'b"
  sw_local_private_key :: "bytes \<Rightarrow> 'b \<Rightarrow> 'b option"
  sw_psk :: "nat \<Rightarrow> bytes \<Rightarrow> 'b \<Rightarrow> 'b option"
  sw_remote_public_key :: "bytes \<Rightarrow> 'b \<Rightarrow> 'b option"
  sw_build_initiator :: "'b \<Rightarrow> 'h option"
  sw_build_responder :: "'b \<Rightarrow> 'h option"
  sw_generate_keypair :: "'b \<Rightarrow> (bytes \<times> bytes) option"
  sw_write_message :: "bytes \<Rightarrow> nat \<Rightarrow> 'h \<Rightarrow> 'h \<times> bytes option"
  sw_read_message :: "bytes \<Rightarrow> nat \<Rightarrow> 'h \<Rightarrow> 'h \<times> bytes option"
  sw_is_handshake_finished :: "'h \<Rightarrow> bool"
  sw_get_remote_static :: "'h \<Rightarrow> bytes option"
  sw_into_transport_mode :: "'h \<Rightarrow> 't option"
  sw_encrypt :: "bytes \<Rightarrow> nat \<Rightarrow> 't \<Rightarrow> 't \<times> bytes option"
  sw_decrypt :: "bytes \<Rightarrow> nat \<Rightarrow> 't \<Rightarrow> 't \<times> bytes option"

definition build_role :: "('q, 'b, 'h, 't) snow \<Rightarrow> noise_role \<Rightarrow> 'b \<Rightarrow> 'h option" where
  "build_role sw r b = (case r of Initiator \<Rightarrow> sw_build_initiator sw b | Responder \<Rightarrow> sw_build_responder sw b)"

text \<open>None is the panic of \<open>params\<close>; inside, None is a \<open>NoiseError\<close>.\<close>

definition pairing_handshake :: "('q, 'b, 'h, 't) snow \<Rightarrow> noise_role \<Rightarrow> bytes \<Rightarrow> bytes \<Rightarrow> 'h option option" where
  "pairing_handshake sw r private_key psk =
     map_option (\<lambda>q. Option.bind (sw_local_private_key sw private_key (sw_builder sw q)) (\<lambda>b1.
       Option.bind (sw_psk sw 0 psk b1) (build_role sw r))) (sw_parse sw XXPSK0_PARAMS)"

definition reconnect_handshake :: "('q, 'b, 'h, 't) snow \<Rightarrow> noise_role \<Rightarrow> bytes \<Rightarrow> bytes \<Rightarrow> 'h option option" where
  "reconnect_handshake sw r private_key remote_key =
     map_option (\<lambda>q. Option.bind (sw_local_private_key sw private_key (sw_builder sw q)) (\<lambda>b1.
       Option.bind (sw_remote_public_key sw remote_key b1) (build_role sw r))) (sw_parse sw KK_PARAMS)"

definition write_handshake_message :: "('q, 'b, 'h, 't) snow \<Rightarrow> 'h \<Rightarrow> bytes \<Rightarrow> 'h \<times> bytes option" where
  "write_handshake_message sw h payload = sw_write_message sw payload MAX_MESSAGE_LEN h"

definition read_handshake_message :: "('q, 'b, 'h, 't) snow \<Rightarrow> 'h \<Rightarrow> bytes \<Rightarrow> 'h \<times> bytes option" where
  "read_handshake_message sw h msg = sw_read_message sw msg MAX_MESSAGE_LEN h"

definition transport_encrypt :: "('q, 'b, 'h, 't) snow \<Rightarrow> 't \<Rightarrow> bytes \<Rightarrow> 't \<times> bytes option" where
  "transport_encrypt sw t plaintext = sw_encrypt sw plaintext MAX_MESSAGE_LEN t"

definition transport_decrypt :: "('q, 'b, 'h, 't) snow \<Rightarrow> 't \<Rightarrow> bytes \<Rightarrow> 't \<times> bytes option" where
  "transport_decrypt sw t ciphertext = sw_decrypt sw ciphertext MAX_MESSAGE_LEN t"

definition finish_handshake :: "('q, 'b, 'h, 't) snow \<Rightarrow> 'h \<Rightarrow> ('t \<times> bytes) option option" where
  "finish_handshake sw h =
     (case sw_get_remote_static sw h of
        None \<Rightarrow> None
      | Some key \<Rightarrow> if length key \<noteq> 32 then None else Some (map_option (\<lambda>t. (t, key)) (sw_into_transport_mode sw h)))"

definition noise_generate_keypair :: "('q, 'b, 'h, 't) snow \<Rightarrow> (bytes \<times> bytes) option option" where
  "noise_generate_keypair sw =
     (case sw_parse sw XXPSK0_PARAMS of
        None \<Rightarrow> None
      | Some q \<Rightarrow>
          (case sw_generate_keypair sw (sw_builder sw q) of
             None \<Rightarrow> Some None
           | Some (private, public) \<Rightarrow> if length private \<noteq> 32 \<or> length public \<noteq> 32 then None else Some (Some (private, public))))"

section \<open>The responder over a socket\<close>

datatype handshake_setup =
    SetupPairing (su_private: bytes) (su_psk: bytes)
  | SetupReconnect (su_private: bytes) (su_remote: bytes)

definition setup_state :: "('q, 'b, 'h, 't) snow \<Rightarrow> handshake_setup \<Rightarrow> 'h option option" where
  "setup_state sw hs =
     (case hs of
        SetupPairing private_key psk \<Rightarrow> pairing_handshake sw Responder private_key psk
      | SetupReconnect private_key remote \<Rightarrow> reconnect_handshake sw Responder private_key remote)"

text \<open>The live socket: what has still to arrive, and what \<open>send\<close> makes of the other side. A step gives the
  socket and its result; None is a panic.\<close>

type_synonym ('w, 'a) shake = "((ws_item list \<times> 'w) \<times> ('a, connect_error) result) option"

definition finish_on :: "('q, 'b, 'h, 't) snow \<Rightarrow> 'h \<Rightarrow> ws_item list \<times> 'w \<Rightarrow> ('w, 't \<times> bytes) shake" where
  "finish_on sw h s = map_option (\<lambda>r. (s, ok_or CE_Noise r)) (finish_handshake sw h)"

definition third_message :: "('q, 'b, 'h, 't) snow \<Rightarrow> (message \<Rightarrow> string) \<Rightarrow> 'h \<Rightarrow> ws_item list \<times> 'w \<Rightarrow> ('w, 't \<times> bytes) shake" where
  "third_message sw debug h s =
     (case next_binary debug (fst s) of
        (Err e, rest) \<Rightarrow> Some ((rest, snd s), Err e)
      | (Ok msg3, rest) \<Rightarrow>
          (case read_handshake_message sw h msg3 of
             (h1, None) \<Rightarrow> Some ((rest, snd s), Err CE_Noise)
           | (h1, Some _) \<Rightarrow> finish_on sw h1 (rest, snd s)))"

definition handshake_after_first ::
  "('q, 'b, 'h, 't) snow \<Rightarrow> (message \<Rightarrow> string) \<Rightarrow> (message \<Rightarrow> 'w \<Rightarrow> 'w \<times> bool) \<Rightarrow> handshake_setup \<Rightarrow> bytes \<Rightarrow>
     ws_item list \<times> 'w \<Rightarrow> ('w, 't \<times> bytes) shake" where
  "handshake_after_first sw debug send hs msg1 s =
     (case setup_state sw hs of
        None \<Rightarrow> None
      | Some None \<Rightarrow> Some (s, Err CE_Noise)
      | Some (Some h) \<Rightarrow>
          (case read_handshake_message sw h msg1 of
             (h1, None) \<Rightarrow> Some (s, Err CE_Noise)
           | (h1, Some _) \<Rightarrow>
               (case write_handshake_message sw h1 [] of
                  (h2, None) \<Rightarrow> Some (s, Err CE_Noise)
                | (h2, Some msg2) \<Rightarrow>
                    (case send (Binary msg2) (snd s) of
                       (w1, False) \<Rightarrow> Some ((fst s, w1), Err CE_Io)
                     | (w1, True) \<Rightarrow>
                         if \<not> sw_is_handshake_finished sw h2 then third_message sw debug h2 (fst s, w1)
                         else finish_on sw h2 (fst s, w1)))))"

definition handshake_on ::
  "('q, 'b, 'h, 't) snow \<Rightarrow> (message \<Rightarrow> string) \<Rightarrow> (message \<Rightarrow> 'w \<Rightarrow> 'w \<times> bool) \<Rightarrow> handshake_setup \<Rightarrow>
     ws_item list \<times> 'w \<Rightarrow> ('w, 't \<times> bytes) shake" where
  "handshake_on sw debug send hs s =
     (case next_binary debug (fst s) of
        (Err e, rest) \<Rightarrow> Some ((rest, snd s), Err e)
      | (Ok msg1, rest) \<Rightarrow> handshake_after_first sw debug send hs msg1 (rest, snd s))"

text \<open>\<open>connect_host\<close>: registration and handshake under one timeout; \<open>took\<close> is the time both take.\<close>

definition connect_host ::
  "('q, 'b, 'h, 't) snow \<Rightarrow> (message \<Rightarrow> string) \<Rightarrow> (message \<Rightarrow> 'w \<Rightarrow> 'w \<times> bool) \<Rightarrow> handshake_setup \<Rightarrow> ws_item list option \<Rightarrow> bool \<Rightarrow> duration \<Rightarrow>
     'w \<Rightarrow> ('w, 't \<times> bytes) shake" where
  "connect_host sw debug send hs connected sent took w =
     (case fst (register_host_inner debug False connected sent) of
        Err e \<Rightarrow> Some (([], w), register_host_bounded took (Err e))
      | Ok ws \<Rightarrow> map_option (\<lambda>(s, r). (s, register_host_bounded took r)) (handshake_on sw debug send hs (ws, w)))"

section \<open>The idle wait\<close>

text \<open>What the loop of \<open>idle_handshake\<close> selects on: an item of the socket, with whether the flush that answers a
  ping succeeds, or a wake of the observer. The end of the list is the end of the stream.\<close>

datatype idle_event = IdleSocket ws_item bool | IdleWake

definition push_wake_text :: string where "push_wake_text = ''{\"type\":\"push_wake\"}''"

fun idle_wait :: "(message \<Rightarrow> 'w \<Rightarrow> 'w \<times> bool) \<Rightarrow> idle_event list \<Rightarrow> 'w \<Rightarrow> (bytes, connect_error) result \<times> idle_event list \<times> 'w" where
  "idle_wait send [] w = (Err CE_Io, [], w)"
| "idle_wait send (IdleWake # evs) w = idle_wait send evs (fst (send (Text push_wake_text) w))"
| "idle_wait send (IdleSocket WsIoError flushed # evs) w = (Err CE_Io, evs, w)"
| "idle_wait send (IdleSocket (WsMessage m) flushed # evs) w =
     (case m of
        Binary b \<Rightarrow> (Ok b, evs, w)
      | Ping \<Rightarrow> if flushed then idle_wait send evs w else (Err CE_Io, evs, w)
      | Close _ \<Rightarrow> (Err CE_Io, evs, w)
      | _ \<Rightarrow> idle_wait send evs w)"

text \<open>After the first frame the receiver of wakes is dropped.\<close>

fun socket_items :: "idle_event list \<Rightarrow> ws_item list" where
  "socket_items [] = []"
| "socket_items (IdleSocket i flushed # evs) = i # socket_items evs"
| "socket_items (IdleWake # evs) = socket_items evs"

definition idle_handshake ::
  "('q, 'b, 'h, 't) snow \<Rightarrow> (message \<Rightarrow> string) \<Rightarrow> (message \<Rightarrow> 'w \<Rightarrow> 'w \<times> bool) \<Rightarrow> handshake_setup \<Rightarrow> idle_event list \<Rightarrow> 'w \<Rightarrow>
     ('w, 't \<times> bytes) shake" where
  "idle_handshake sw debug send hs evs w =
     (case idle_wait send evs w of
        (Err e, rest, w1) \<Rightarrow> Some ((socket_items rest, w1), Err e)
      | (Ok msg1, rest, w1) \<Rightarrow> handshake_after_first sw debug send hs msg1 (socket_items rest, w1))"

text \<open>The observer: a bridge of its own that shares the stamps of the host, its subscription, and the wakes it
  sent. A pass is 50 ms of the watch loop, or 200 ms of sleep and a new subscription unless the waiter has gone.\<close>

record 'h observer =
  ob_bridge :: "'h bridge"
  ob_subscription :: "pane_frame latest_slot option"
  ob_wakes :: nat

definition observer_start ::
  "session_env \<Rightarrow> 'h session_calls \<Rightarrow> 'h \<Rightarrow> string \<Rightarrow> string \<Rightarrow> f64 relay_config \<Rightarrow> (string, string) hmap \<Rightarrow> 'h observer" where
  "observer_start env x h host_id hname config observed =
     (case open_subscription env x ((bridge_new h host_id hname config)\<lparr>br_observed := observed\<rparr>) of
        (b, sub) \<Rightarrow> \<lparr>ob_bridge = b, ob_subscription = sub, ob_wakes = 0\<rparr>)"

definition observer_pass ::
  "session_env \<Rightarrow> 'h session_calls \<Rightarrow> instant \<Rightarrow> tick list \<Rightarrow> bool \<Rightarrow> 'h observer \<Rightarrow> 'h observer" where
  "observer_pass env x deadline ticks closed_now ob =
     (case ob_subscription ob of
        Some slot \<Rightarrow>
          (case run_until (se_watch env) (sx_herdr x) deadline ticks (ob_bridge ob) \<lparr>ro_slot = slot, ro_messages = [], ro_resubscribe = False\<rparr> of
             (b1, o1, outcome) \<Rightarrow>
               \<lparr>ob_bridge = b1,
                ob_subscription = (if (case outcome of Some (Err _) \<Rightarrow> True | _ \<Rightarrow> False) \<or> ro_resubscribe o1 then None else Some (ro_slot o1)),
                ob_wakes = ob_wakes ob + length (filter needs_push_wake (ro_messages o1))\<rparr>)
      | None \<Rightarrow>
          if closed_now then ob
          else (case open_subscription env x (ob_bridge ob) of (b1, sub) \<Rightarrow> ob\<lparr>ob_bridge := b1, ob_subscription := sub\<rparr>))"

section \<open>A session without dispatch\<close>

text \<open>\<open>relay/session.rs\<close>: items of the socket with their instants, and the close signal of the registry; the wait
  for a frame is cut only between two items, so it is one item at a time.\<close>

datatype drive_event = DriveItem ws_item instant | DriveSignal close_signal

datatype drive_error = DriveSession session_error | DriveFrame frame_error

definition send_revoked_error :: "session_env \<Rightarrow> ('t, 'w) conn_env \<Rightarrow> ('t, 'w) conn \<Rightarrow> ('t, 'w) conn \<times> (unit, drive_error) result" where
  "send_revoked_error env ce c =
     (case bind_result (frame_wrap (se_to_value env) 1 None revoked_error) (to_json_bytes (se_to_vec env)) of
        Err e \<Rightarrow> (c, Err (DriveFrame e))
      | Ok bytes \<Rightarrow>
          (case send_frame ce (bytes_of bytes) c of
             (c1, Err e) \<Rightarrow> (c1, Err (DriveSession e))
           | (c1, Ok _) \<Rightarrow> (c1, Ok ())))"

definition drive_close :: "session_env \<Rightarrow> ('t, 'w) conn_env \<Rightarrow> close_signal \<Rightarrow> ('t, 'w) conn \<Rightarrow> ('t, 'w) conn \<times> (unit, drive_error) result" where
  "drive_close env ce reason c =
     (case (if reason = SignalRevoked then send_revoked_error env ce c else (c, Ok ())) of
        (c1, Err e) \<Rightarrow> (c1, Err e)
      | (c1, Ok _) \<Rightarrow> (case close_socket ce Revoked c1 of (c2, sent) \<Rightarrow> (c2, if sent then Ok () else Err (DriveSession SE_Io))))"

fun drive_session ::
  "session_env \<Rightarrow> ('t, 'w) conn_env \<Rightarrow> (bytes \<Rightarrow> zread list) \<Rightarrow> ('t \<Rightarrow> bytes \<Rightarrow> 't \<times> bytes option) \<Rightarrow> reassembler \<Rightarrow> drive_event list \<Rightarrow>
     ('t, 'w) conn \<Rightarrow> ('t, 'w) conn \<times> (unit, drive_error) result" where
  "drive_session env ce reads decrypt r [] c = (c, Ok ())"
| "drive_session env ce reads decrypt r (DriveSignal reason # evs) c = drive_close env ce reason c"
| "drive_session env ce reads decrypt r (DriveItem WsIoError now # evs) c = (c, Err (DriveSession SE_Io))"
| "drive_session env ce reads decrypt r (DriveItem (WsMessage m) now # evs) c =
     (case m of
        Binary b \<Rightarrow>
          (case decode_fragment reads decrypt r (cn_transport c) b now of
             (r1, t1, Ok _) \<Rightarrow> drive_session env ce reads decrypt r1 evs (c\<lparr>cn_transport := t1\<rparr>)
           | (r1, t1, Err e) \<Rightarrow> (c\<lparr>cn_transport := t1\<rparr>, Err (DriveSession (SE_Codec e))))
      | Close _ \<Rightarrow> (c, Ok ())
      | _ \<Rightarrow> drive_session env ce reads decrypt r evs c)"

text \<open>The registry before and after; \<open>meanwhile\<close> is what other tasks do to it while the session lasts. The receiver
  of the close signal goes with the driven session.\<close>

definition run_host_session ::
  "session_env \<Rightarrow> ('t, 'w) conn_env \<Rightarrow> (bytes \<Rightarrow> zread list) \<Rightarrow> ('t \<Rightarrow> bytes \<Rightarrow> 't \<times> bytes option) \<Rightarrow> handle \<Rightarrow> string option \<Rightarrow>
     (session_registry \<Rightarrow> session_registry) \<Rightarrow> drive_event list \<Rightarrow> ('t, 'w) conn \<times> session_registry \<Rightarrow>
     (('t, 'w) conn \<times> session_registry) \<times> (unit, drive_error) result" where
  "run_host_session env ce reads decrypt rh device_id meanwhile evs s =
     (case registry_register rh device_id (snd s) of (rg1, chan) \<Rightarrow>
      case drive_session env ce reads decrypt reassembler_new evs (fst s) of (c1, result) \<Rightarrow>
        ((c1, registry_unregister rh (drop_close_receiver chan (meanwhile rg1))), result))"

section \<open>What the handshake needs of \<open>snow\<close>\<close>

text \<open>
  Documented behaviour: \<open>at h hs n\<close> says that \<open>h\<close> is a responder of the setup \<open>hs\<close> after \<open>n\<close> messages. The two parameter
  strings parse; a handshake of KK ends with its second message, one of XXpsk0 with its third; at the end the static
  key of the peer is known, and in KK it is the one the builder was given.
\<close>

definition last_message :: "handshake_setup \<Rightarrow> nat" where
  "last_message hs = (case hs of SetupPairing _ _ \<Rightarrow> 3 | SetupReconnect _ _ \<Rightarrow> 2)"

definition snow_ok :: "('q, 'b, 'h, 't) snow \<Rightarrow> ('h \<Rightarrow> handshake_setup \<Rightarrow> nat \<Rightarrow> bool) \<Rightarrow> bool" where
  "snow_ok sw at \<longleftrightarrow>
     sw_parse sw XXPSK0_PARAMS \<noteq> None \<and> sw_parse sw KK_PARAMS \<noteq> None
     \<and> (\<forall>hs h. setup_state sw hs = Some (Some h) \<longrightarrow> at h hs 0)
     \<and> (\<forall>h hs n m k h' p. at h hs n \<and> sw_read_message sw m k h = (h', Some p) \<longrightarrow> at h' hs (Suc n))
     \<and> (\<forall>h hs n m k h' p. at h hs n \<and> sw_write_message sw m k h = (h', Some p) \<longrightarrow> at h' hs (Suc n))
     \<and> (\<forall>h hs n. at h hs n \<longrightarrow> (sw_is_handshake_finished sw h \<longleftrightarrow> last_message hs \<le> n))
     \<and> (\<forall>h hs n. at h hs n \<and> last_message hs \<le> n \<longrightarrow> (\<exists>key. sw_get_remote_static sw h = Some key \<and> length key = 32))
     \<and> (\<forall>h private_key remote n. at h (SetupReconnect private_key remote) n \<longrightarrow> sw_get_remote_static sw h = Some remote)"

lemma snow_okD:
  assumes "snow_ok sw at"
  shows "sw_parse sw XXPSK0_PARAMS \<noteq> None" "sw_parse sw KK_PARAMS \<noteq> None"
    and "setup_state sw hs = Some (Some h) \<Longrightarrow> at h hs 0"
    and "at h hs n \<Longrightarrow> sw_read_message sw m k h = (h', Some p) \<Longrightarrow> at h' hs (Suc n)"
    and "at h hs n \<Longrightarrow> sw_write_message sw m k h = (h', Some p) \<Longrightarrow> at h' hs (Suc n)"
    and "at h hs n \<Longrightarrow> sw_is_handshake_finished sw h \<longleftrightarrow> last_message hs \<le> n"
    and "at h hs n \<Longrightarrow> last_message hs \<le> n \<Longrightarrow> \<exists>key. sw_get_remote_static sw h = Some key \<and> length key = 32"
    and "at h (SetupReconnect private_key remote) n \<Longrightarrow> sw_get_remote_static sw h = Some remote"
proof -
  have all: "\<forall>h hs n m k h' p. at h hs n \<and> sw_read_message sw m k h = (h', Some p) \<longrightarrow> at h' hs (Suc n)"
    "\<forall>h hs n m k h' p. at h hs n \<and> sw_write_message sw m k h = (h', Some p) \<longrightarrow> at h' hs (Suc n)"
    "\<forall>h hs n. at h hs n \<and> last_message hs \<le> n \<longrightarrow> (\<exists>key. sw_get_remote_static sw h = Some key \<and> length key = 32)"
    "\<forall>h private_key remote n. at h (SetupReconnect private_key remote) n \<longrightarrow> sw_get_remote_static sw h = Some remote"
    using assms unfolding snow_ok_def by - (elim conjE, assumption)+
  show "at h hs n \<Longrightarrow> sw_read_message sw m k h = (h', Some p) \<Longrightarrow> at h' hs (Suc n)" using all(1) by blast
  show "at h hs n \<Longrightarrow> sw_write_message sw m k h = (h', Some p) \<Longrightarrow> at h' hs (Suc n)" using all(2) by blast
  show "at h hs n \<Longrightarrow> last_message hs \<le> n \<Longrightarrow> \<exists>key. sw_get_remote_static sw h = Some key \<and> length key = 32" using all(3) by blast
  show "at h (SetupReconnect private_key remote) n \<Longrightarrow> sw_get_remote_static sw h = Some remote" using all(4) by blast
qed (use assms in \<open>simp_all add: snow_ok_def\<close>)

lemma snow_setup: "snow_ok sw at \<Longrightarrow> \<exists>r. setup_state sw hs = Some r \<and> (\<forall>h. r = Some h \<longrightarrow> at h hs 0)"
  using snow_okD(1,2) snow_okD(3) [of sw at hs]
  by (cases hs) (fastforce simp: setup_state_def pairing_handshake_def reconnect_handshake_def)+

lemma snow_read: "snow_ok sw at \<Longrightarrow> at h hs n \<Longrightarrow> read_handshake_message sw h m = (h', Some p) \<Longrightarrow> at h' hs (Suc n)"
  unfolding read_handshake_message_def by (rule snow_okD(4))

lemma snow_write: "snow_ok sw at \<Longrightarrow> at h hs n \<Longrightarrow> write_handshake_message sw h m = (h', Some p) \<Longrightarrow> at h' hs (Suc n)"
  unfolding write_handshake_message_def by (rule snow_okD(5))

lemma snow_finish:
  assumes "snow_ok sw at" "at h hs n" "last_message hs \<le> n"
  obtains key where "finish_on sw h s = Some (s, ok_or CE_Noise (map_option (\<lambda>t. (t, key)) (sw_into_transport_mode sw h)))"
    and "\<And>private_key remote. hs = SetupReconnect private_key remote \<Longrightarrow> key = remote"
proof -
  obtain key where key: "sw_get_remote_static sw h = Some key" "length key = 32"
    using snow_okD(7) [OF assms] by blast
  have "hs = SetupReconnect private_key remote \<Longrightarrow> key = remote" for private_key remote
    using snow_okD(8) [OF assms(1)] assms(2) key(1) by (metis option.inject)
  then show ?thesis using that key by (simp add: finish_on_def finish_handshake_def)
qed

section \<open>The messages of a handshake\<close>

text \<open>The socket after a handshake that succeeded: one message out; for a pairing one more message in.\<close>

definition read_rest :: "(message \<Rightarrow> string) \<Rightarrow> handshake_setup \<Rightarrow> ws_item list \<Rightarrow> ws_item list \<Rightarrow> bool" where
  "read_rest debug hs ws ws' \<longleftrightarrow>
     (case hs of
        SetupReconnect _ _ \<Rightarrow> ws' = ws
      | SetupPairing _ _ \<Rightarrow> \<exists>msg3. next_binary debug ws = (Ok msg3, ws'))"

definition pinned :: "handshake_setup \<Rightarrow> bytes \<Rightarrow> bool" where
  "pinned hs key \<longleftrightarrow> (case hs of SetupReconnect _ remote \<Rightarrow> key = remote | SetupPairing _ _ \<Rightarrow> True)"

lemma finish_on_result:
  assumes "snow_ok sw at" "at h hs n" "last_message hs \<le> n"
  shows "\<exists>res. finish_on sw h s = Some (s, res) \<and> (\<forall>t key. res = Ok (t, key) \<longrightarrow> pinned hs key)"
proof -
  obtain key where key: "finish_on sw h s = Some (s, ok_or CE_Noise (map_option (\<lambda>t. (t, key)) (sw_into_transport_mode sw h)))"
      "\<And>private_key remote. hs = SetupReconnect private_key remote \<Longrightarrow> key = remote"
    using snow_finish [OF assms, of s] by metis
  have "pinned hs key" using key(2) by (cases hs) (simp_all add: pinned_def)
  then show ?thesis using key(1) by (auto simp: ok_or_def split: option.splits)
qed

lemma third_message_result:
  assumes sw: "snow_ok sw at" "at h (SetupPairing k psk) 2"
  shows "\<exists>ws' res. third_message sw debug h s = Some ((ws', snd s), res)
    \<and> (\<forall>t key. res = Ok (t, key) \<longrightarrow> read_rest debug (SetupPairing k psk) (fst s) ws')"
proof -
  obtain b3 rest where b3: "next_binary debug (fst s) = (b3, rest)" by force
  show ?thesis
  proof (cases b3)
    case (Inl e)
    then show ?thesis using b3 by (simp add: third_message_def)
  next
    case msg3: (Inr msg3)
    obtain h3 p3 where p3: "read_handshake_message sw h msg3 = (h3, p3)" by force
    show ?thesis
    proof (cases p3)
      case None
      then show ?thesis using b3 msg3 p3 by (simp add: third_message_def)
    next
      case (Some q3)
      have "at h3 (SetupPairing k psk) 3" using snow_read [OF sw] p3 Some by (metis eval_nat_numeral(3))
      then obtain res where "finish_on sw h3 (rest, snd s) = Some ((rest, snd s), res)"
        using finish_on_result [OF sw(1), of h3 "SetupPairing k psk" 3 "(rest, snd s)"] by (auto simp: last_message_def)
      then show ?thesis using b3 msg3 p3 Some by (simp add: third_message_def read_rest_def)
    qed
  qed
qed

lemma second_sent_result:
  assumes sw: "snow_ok sw at" "at h hs 2"
  shows "\<exists>ws' res. (if \<not> sw_is_handshake_finished sw h then third_message sw debug h s else finish_on sw h s) = Some ((ws', snd s), res)
    \<and> (\<forall>t key. res = Ok (t, key) \<longrightarrow> read_rest debug hs (fst s) ws' \<and> pinned hs key)"
proof (cases hs)
  case hs: (SetupReconnect k remote)
  obtain res where "finish_on sw h s = Some (s, res)" "\<forall>t key. res = Ok (t, key) \<longrightarrow> pinned hs key"
    using finish_on_result [OF sw, of s] hs by (auto simp: last_message_def)
  moreover have "sw_is_handshake_finished sw h" using snow_okD(6) [OF sw] hs by (simp add: last_message_def)
  moreover have "read_rest debug hs (fst s) (fst s)" by (simp add: hs read_rest_def)
  ultimately show ?thesis by (metis prod.collapse)
next
  case hs: (SetupPairing k psk)
  have "\<not> sw_is_handshake_finished sw h" using snow_okD(6) [OF sw] hs by (simp add: last_message_def)
  moreover have "pinned hs key" for key by (simp add: hs pinned_def)
  ultimately show ?thesis using third_message_result [OF sw(1) sw(2) [unfolded hs], of debug s] hs by simp
qed

lemma handshake_after_first_result:
  assumes sw: "snow_ok sw at" and logs: "socket_logs send"
  shows "\<exists>ws' w' res. handshake_after_first sw debug send hs msg1 (ws, w) = Some ((ws', w'), res)
    \<and> (w' = w \<or> (\<exists>msg2. w' = w @ [Binary msg2]))
    \<and> (\<forall>t key. res = Ok (t, key) \<longrightarrow> w' \<noteq> w \<and> read_rest debug hs ws ws' \<and> pinned hs key)"
proof -
  obtain r where r: "setup_state sw hs = Some r" "\<And>h. r = Some h \<Longrightarrow> at h hs 0"
    using snow_setup [OF sw] by blast
  note unf = handshake_after_first_def
  show ?thesis
  proof (cases r)
    case None
    then show ?thesis by (simp add: unf r(1))
  next
    case h: (Some h)
    obtain h1 p1 where p1: "read_handshake_message sw h msg1 = (h1, p1)" by force
    show ?thesis
    proof (cases p1)
      case None
      then show ?thesis by (simp add: unf r(1) h p1)
    next
      case q1: (Some q1)
      have h1: "at h1 hs 1" using snow_read [OF sw r(2) [OF h]] p1 q1 by force
      obtain h2 p2 where p2: "write_handshake_message sw h1 [] = (h2, p2)" by force
      show ?thesis
      proof (cases p2)
        case None
        then show ?thesis by (simp add: unf r(1) h p1 q1 p2)
      next
        case q2: (Some msg2)
        have h2: "at h2 hs 2" using snow_write [OF sw h1] p2 q2 by (metis One_nat_def Suc_1)
        have w: "send (Binary msg2) w = (w @ [Binary msg2], True) \<or> send (Binary msg2) w = (w, False)"
          using logs unfolding socket_logs_def by blast
        show ?thesis
          using w second_sent_result [OF sw h2, of debug "(ws, w @ [Binary msg2])"]
          by (auto simp: unf r(1) h p1 q1 p2 q2)
      qed
    qed
  qed
qed

section \<open>The idle wait\<close>

text \<open>What the wait passes over: pings that could be answered, pongs, texts and wakes.\<close>

fun passed_over :: "idle_event \<Rightarrow> bool" where
  "passed_over IdleWake = True"
| "passed_over (IdleSocket i flushed) = (case i of WsMessage Ping \<Rightarrow> flushed | WsMessage Pong \<Rightarrow> True | WsMessage (Text _) \<Rightarrow> True | _ \<Rightarrow> False)"

definition wakes_in :: "idle_event list \<Rightarrow> nat" where
  "wakes_in evs = length (filter (\<lambda>e. e = IdleWake) evs)"

text \<open>The socket took \<open>n\<close> of the wakes, and a frame comes after events that were passed over.\<close>

definition first_frame_at :: "idle_event list \<Rightarrow> (bytes, connect_error) result \<Rightarrow> idle_event list \<Rightarrow> nat \<Rightarrow> bool" where
  "first_frame_at evs r rest n \<longleftrightarrow> (\<forall>b. r = Ok b \<longrightarrow>
     (\<exists>pre flushed. evs = pre @ IdleSocket (WsMessage (Binary b)) flushed # rest \<and> list_all passed_over pre \<and> n \<le> wakes_in pre))"

lemma first_frame_at_Cons:
  assumes "first_frame_at evs r rest n" "passed_over e" "m \<le> n + wakes_in [e]"
  shows "first_frame_at (e # evs) r rest m"
  unfolding first_frame_at_def
proof (intro allI impI)
  fix b
  assume "r = Ok b"
  then obtain pre flushed where "evs = pre @ IdleSocket (WsMessage (Binary b)) flushed # rest" "list_all passed_over pre" "n \<le> wakes_in pre"
    using assms(1) unfolding first_frame_at_def by blast
  then show "\<exists>pre flushed. e # evs = pre @ IdleSocket (WsMessage (Binary b)) flushed # rest \<and> list_all passed_over pre \<and> m \<le> wakes_in pre"
    using assms(2,3) by (intro exI [of _ "e # pre"] exI [of _ flushed]) (auto simp: wakes_in_def split: if_splits)
qed

lemma first_frame_at_error: "first_frame_at evs (Err e) rest n" by (simp add: first_frame_at_def)

lemma idle_wait_result:
  assumes "socket_logs send" "idle_wait send evs w = (r, rest, w')"
  shows "\<exists>n. w' = w @ replicate n (Text push_wake_text) \<and> first_frame_at evs r rest n"
  using assms
proof (induction send evs w rule: idle_wait.induct)
  case (2 send evs w)
  have "fst (send (Text push_wake_text) w) = w @ [Text push_wake_text] \<or> fst (send (Text push_wake_text) w) = w"
    using 2(2) unfolding socket_logs_def by (metis fst_conv)
  then obtain m where m: "m \<le> 1" "fst (send (Text push_wake_text) w) = w @ replicate m (Text push_wake_text)"
    by (metis append_Nil2 le0 le_refl replicate_0 One_nat_def replicate_Suc)
  obtain n where n: "w' = (w @ replicate m (Text push_wake_text)) @ replicate n (Text push_wake_text)" "first_frame_at evs r rest n"
    using 2(1) [OF 2(2)] 2(3) m(2) by auto
  have "w' = w @ replicate (m + n) (Text push_wake_text)" using n(1) by (simp add: replicate_add)
  moreover have "first_frame_at (IdleWake # evs) r rest (m + n)"
    by (rule first_frame_at_Cons [OF n(2)]) (use m(1) in \<open>simp_all add: wakes_in_def\<close>)
  ultimately show ?case by blast
next
  case (4 send m flushed evs w)
  have skip: "\<exists>n. w' = w @ replicate n (Text push_wake_text) \<and> first_frame_at (IdleSocket (WsMessage m) flushed # evs) r rest n"
    if "\<exists>n. w' = w @ replicate n (Text push_wake_text) \<and> first_frame_at evs r rest n" "passed_over (IdleSocket (WsMessage m) flushed)"
    using that(1) first_frame_at_Cons [OF _ that(2) le_add1] by blast
  show ?case
  proof (cases m)
    case (Binary b)
    then have "r = Ok b" "rest = evs" "w' = w" using 4(5) by simp_all
    then show ?thesis using Binary by (intro exI [of _ 0]) (auto intro!: exI [of _ "[]"] simp: first_frame_at_def)
  next
    case (Text t)
    then show ?thesis using skip 4(1) [OF Text 4(4)] 4(5) by simp
  next
    case Ping
    show ?thesis
    proof (cases flushed)
      case True
      then show ?thesis using Ping skip 4(2) [OF Ping True 4(4)] 4(5) by simp
    next
      case False
      then show ?thesis using Ping 4(5) by (auto intro: exI [of _ 0] simp: first_frame_at_error)
    qed
  next
    case Pong
    then show ?thesis using skip 4(3) [OF Pong 4(4)] 4(5) by simp
  next
    case (Close f)
    then show ?thesis using 4(5) by (auto intro: exI [of _ 0] simp: first_frame_at_error)
  qed
qed (auto intro: exI [of _ 0] simp: first_frame_at_error)

section \<open>The theorems\<close>

lemma message_after_control:
  "next_message ws = (Ok m, rest) \<Longrightarrow> \<exists>c. ws = c @ WsMessage m # rest \<and> set c \<subseteq> {WsMessage Ping, WsMessage Pong}"
proof (induction ws rule: next_message.induct)
  case (3 m' ws)
  have skip: "\<exists>c. WsMessage m' # ws = c @ WsMessage m # rest \<and> set c \<subseteq> {WsMessage Ping, WsMessage Pong}"
    if control: "m' \<in> {Ping, Pong}" and later: "\<exists>c. ws = c @ WsMessage m # rest \<and> set c \<subseteq> {WsMessage Ping, WsMessage Pong}"
  proof -
    obtain c where "ws = c @ WsMessage m # rest" "set c \<subseteq> {WsMessage Ping, WsMessage Pong}" using later by blast
    then show ?thesis using control by (intro exI [of _ "WsMessage m' # c"]) auto
  qed
  show ?case
    using 3 skip by (cases m') auto
qed simp_all

lemma binary_after_control:
  assumes "next_binary debug ws = (Ok b, rest)"
  shows "\<exists>c. ws = c @ WsMessage (Binary b) # rest \<and> set c \<subseteq> {WsMessage Ping, WsMessage Pong}"
proof -
  obtain r rest' where r: "next_message ws = (r, rest')" by force
  have "r = Ok (Binary b) \<and> rest' = rest"
    using assms r by (cases r) (auto simp: next_binary_def split: message.splits)
  then show ?thesis using message_after_control r by blast
qed


text \<open>A pairing takes three messages: the handshake on a registered socket ends without a panic, and when it
  succeeds two frames were read, with only pings and pongs before and between them, and one message was sent.\<close>

theorem pairing_takes_three:
  assumes "snow_ok sw at" "socket_logs send"
    and "handshake_on sw debug send (SetupPairing private_key psk) (ws, w) = r"
  shows "\<exists>ws' w' res. r = Some ((ws', w'), res) \<and> (\<forall>t key. res = Ok (t, key) \<longrightarrow>
    (\<exists>b1 b3 c1 c3 msg2. ws = c1 @ WsMessage (Binary b1) # c3 @ WsMessage (Binary b3) # ws' \<and> set (c1 @ c3) \<subseteq> {WsMessage Ping, WsMessage Pong}
       \<and> w' = w @ [Binary msg2]))"
proof -
  obtain first rest where first: "next_binary debug ws = (first, rest)" by force
  show ?thesis
  proof (cases first)
    case (Inl e)
    then show ?thesis using assms(3) first by (auto simp: handshake_on_def)
  next
    case (Inr msg1)
    let ?hs = "SetupPairing private_key psk"
    obtain ws' w' res where res: "handshake_after_first sw debug send ?hs msg1 (rest, w) = Some ((ws', w'), res)"
        "w' = w \<or> (\<exists>msg2. w' = w @ [Binary msg2])"
        "\<forall>t key. res = Ok (t, key) \<longrightarrow> w' \<noteq> w \<and> read_rest debug ?hs rest ws' \<and> pinned ?hs key"
      using handshake_after_first_result [OF assms(1,2)] by blast
    have "r = Some ((ws', w'), res)" using assms(3) res(1) first Inr by (simp add: handshake_on_def)
    moreover have "\<exists>b1 b3 c1 c3 msg2. ws = c1 @ WsMessage (Binary b1) # c3 @ WsMessage (Binary b3) # ws'
        \<and> set (c1 @ c3) \<subseteq> {WsMessage Ping, WsMessage Pong} \<and> w' = w @ [Binary msg2]" if ok: "res = Ok (t, key)" for t key
    proof -
      obtain msg2 where msg2: "w' = w @ [Binary msg2]" using res(2,3) ok by blast
      obtain msg3 where "next_binary debug rest = (Ok msg3, ws')" using res(3) ok by (auto simp: read_rest_def)
      then obtain c3 where c3: "rest = c3 @ WsMessage (Binary msg3) # ws'" "set c3 \<subseteq> {WsMessage Ping, WsMessage Pong}"
        using binary_after_control by blast
      obtain c1 where "ws = c1 @ WsMessage (Binary msg1) # rest" "set c1 \<subseteq> {WsMessage Ping, WsMessage Pong}"
        using binary_after_control first Inr by blast
      then show ?thesis using c3 msg2
        by (intro exI [of _ msg1] exI [of _ msg3] exI [of _ c1] exI [of _ c3] exI [of _ msg2]) simp
    qed
    ultimately show ?thesis by blast
  qed
qed

section \<open>The idle observer\<close>

fun observer_run :: "session_env \<Rightarrow> 'h session_calls \<Rightarrow> (instant \<times> tick list \<times> bool) list \<Rightarrow> 'h observer \<Rightarrow> 'h observer" where
  "observer_run env x [] ob = ob"
| "observer_run env x ((deadline, ticks, closed_now) # passes) ob =
     observer_run env x passes (observer_pass env x deadline ticks closed_now ob)"

text \<open>A bridge that watches nothing and holds nothing.\<close>

definition resting :: "'h bridge \<Rightarrow> bool" where
  "resting b \<longleftrightarrow> br_watched b = None \<and> br_scheduler b = None \<and> br_pending b = None"

lemma resting_same: "held_same b b' \<Longrightarrow> resting b \<Longrightarrow> resting b'"
  by (simp add: held_same_def resting_def)

lemma snapshot_cong: "c_session_snapshot c' = c_session_snapshot c \<Longrightarrow> fetch_snapshot env c' = fetch_snapshot env c"
  by (rule ext) (simp add: fetch_snapshot_def)

lemma resting_release: "resting b \<Longrightarrow> release_pending_input env c now p b = b"
  by (simp add: resting_def release_pending_input_def cancel_pending_inputs_def)

lemma resting_updated: "resting b \<Longrightarrow> handle_pane_updated c now data b = b"
  by (simp add: resting_def handle_pane_updated_def Let_def split: option.splits)

lemma resting_unwatch: "resting b \<Longrightarrow> unwatch_pane p b = b"
  by (simp add: resting_def unwatch_pane_def watches_def watched_pane_id_def)

lemma resting_poll: "resting b \<Longrightarrow> poll_scheduler env c now b = (b, None)"
  by (simp add: resting_def poll_scheduler_def)

lemma resting_settle: "settle_agent_status p now b = (b', due) \<Longrightarrow> resting b \<Longrightarrow> resting b'"
  by (auto simp: settle_agent_status_def Let_def resting_def split: if_splits)

lemma resting_status_message: "agent_status_message env c stamp data p status b = (b', out) \<Longrightarrow> resting b \<Longrightarrow> resting b'"
  by (auto simp: agent_status_message_def Let_def dest: fetch_snapshot_same resting_same split: prod.splits sum.splits option.splits)

lemma resting_on_status:
  assumes "resting b" "c_session_snapshot c' = c_session_snapshot c"
  shows "on_agent_status env c' now stamp data p b = on_agent_status env c now stamp data p b"
    and "resting (fst (on_agent_status env c now stamp data p b))"
proof -
  define b1 where "b1 = b\<lparr>br_observed := AList.update p stamp (br_observed b)\<rparr>"
  have b1: "resting b1" using assms(1) by (simp add: b1_def resting_def)
  have rel: "(case get_str ''agent_status'' data of Some s \<Rightarrow> if s \<noteq> ''working'' then release_pending_input env d now p b1 else b1 | None \<Rightarrow> b1) = b1" for d
    by (simp add: resting_release [OF b1] split: option.split)
  have msg: "agent_status_message env c' = agent_status_message env c"
    by (simp add: fun_eq_iff agent_status_message_def snapshot_cong [OF assms(2)])
  obtain b3 due where d: "settle_agent_status p now b1 = (b3, due)" by force
  have m: "resting (fst (agent_status_message env c stamp data p status b3))" for status
    using resting_status_message [OF surjective_pairing resting_settle [OF d b1]] by blast
  show "on_agent_status env c' now stamp data p b = on_agent_status env c now stamp data p b"
    unfolding on_agent_status_def Let_def b1_def [symmetric] rel msg ..
  show "resting (fst (on_agent_status env c now stamp data p b))"
    unfolding on_agent_status_def Let_def b1_def [symmetric] rel d
    using b1 resting_settle [OF d b1] m by (cases due) (auto split: option.splits)
qed

lemma resting_event:
  assumes "resting b" "c_session_snapshot c' = c_session_snapshot c"
  shows "handle_event env c' now stamp event data b = handle_event env c now stamp event data b
    \<and> resting (fst (handle_event env c now stamp event data b))"
proof -
  obtain b1 out1 where a: "(if event = ''pane_agent_status_changed''
      then (case pane_id_of data of Some p \<Rightarrow> on_agent_status env c now stamp data p b | None \<Rightarrow> (b, []))
      else (b, [])) = (b1, out1)" by force
  have a': "(if event = ''pane_agent_status_changed''
      then (case pane_id_of data of Some p \<Rightarrow> on_agent_status env c' now stamp data p b | None \<Rightarrow> (b, []))
      else (b, [])) = (b1, out1)"
    unfolding resting_on_status(1) [OF assms] by (rule a)
  have b1: "resting b1"
  proof (cases "event = ''pane_agent_status_changed''")
    case True
    then show ?thesis
      using a assms resting_on_status(2) [OF assms, of env now stamp data] by (cases "pane_id_of data") (auto simp: prod_eq_iff)
  qed (use a assms in simp)
  obtain b2 out3 where d: "(if event \<in> set refresh_events
      then (case fetch_snapshot env c b1 of (b2, Ok raw) \<Rightarrow> (b2, [M_TreeSnapshot (map_snapshot b2 raw)]) | (b2, Err _) \<Rightarrow> (b2, []))
      else (b1, [])) = (b2, out3)" by force
  obtain b2' r where f: "fetch_snapshot env c b1 = (b2', r)" by force
  have "resting b2'" using resting_same [OF fetch_snapshot_same [OF f] b1] .
  then have b2: "resting b2" using d b1 by (cases "event \<in> set refresh_events"; cases r) (simp_all add: f)
  have same: "handle_event env e now stamp event data b =
      (b2, out1 @ (case tree_event_for event of Some ev \<Rightarrow> [tree_update_for env data ev] | None \<Rightarrow> []) @ out3,
       if event = ''pane_created'' then Resubscribe else NoSubscriptionAction)" if "e \<in> {c, c'}" for e
  proof -
    have ae: "(if event = ''pane_agent_status_changed''
        then (case pane_id_of data of Some p \<Rightarrow> on_agent_status env e now stamp data p b | None \<Rightarrow> (b, []))
        else (b, [])) = (b1, out1)" using a a' that by blast
    have se: "fetch_snapshot env e = fetch_snapshot env c" using snapshot_cong [OF assms(2)] that by blast
    show ?thesis
      unfolding handle_event_def ae se d Let_def prod.case
      by (simp add: resting_updated [OF b2] resting_unwatch [OF b2] split: option.split)
  qed
  show ?thesis using same [of c] same [of c'] b2 by simp
qed

lemma resting_line:
  assumes "resting b" "c_session_snapshot c' = c_session_snapshot c"
  shows "handle_subscription_line env c' now stamp pushed b = handle_subscription_line env c now stamp pushed b
    \<and> resting (fst (handle_subscription_line env c now stamp pushed b))"
proof -
  have "handle_event env c' now stamp e d b = handle_event env c now stamp e d b" for e d using resting_event [OF assms] by blast
  moreover have "resting (fst (handle_event env c now stamp e d b))" for e d using resting_event [OF assms] by blast
  ultimately show ?thesis
    using assms(1) by (auto simp: handle_subscription_line_def case_prod_beta split: option.splits)
qed

lemma resting_run:
  assumes "resting b" "c_session_snapshot c' = c_session_snapshot c"
  shows "run_until env c' deadline ts b w = run_until env c deadline ts b w
    \<and> resting (fst (run_until env c deadline ts b w)) \<and> ro_slot (fst (snd (run_until env c deadline ts b w))) = ro_slot w"
  using assms(1)
proof (induction ts arbitrary: b w)
  case (Cons t ts)
  show ?case
  proof (cases "deadline \<le> tk_now t")
    case True
    then show ?thesis using Cons.prems by (simp add: resting_poll put_frame_def)
  next
    case False
    show ?thesis
    proof (cases "tk_received t")
      case (RLine pushed)
      note line = resting_line [OF Cons.prems assms(2), of env "tk_line_now t" "tk_stamp t" pushed]
      obtain b1 r where l: "handle_subscription_line env c (tk_line_now t) (tk_stamp t) pushed b = (b1, r)" by force
      then show ?thesis
        using False RLine line Cons.IH [of b1] by (cases r) (auto simp: resting_poll put_frame_def)
    qed (use False Cons in \<open>simp_all add: resting_poll put_frame_def\<close>)
  qed
qed simp

definition observing :: "'h observer \<Rightarrow> bool" where
  "observing ob \<longleftrightarrow> resting (ob_bridge ob) \<and> ob_subscription ob \<in> {None, Some None}"

lemma observing_open:
  assumes "resting b" "c_session_snapshot (sx_herdr x') = c_session_snapshot (sx_herdr x)" "sx_subscribe x' = sx_subscribe x"
    and "open_subscription env x b = (b1, sub)"
  shows "open_subscription env x' b = (b1, sub) \<and> resting b1 \<and> sub \<in> {None, Some None}"
proof -
  have "current_subscription_entries env' (sx_herdr x') = current_subscription_entries env' (sx_herdr x)" for env'
    by (simp add: fun_eq_iff current_subscription_entries_def snapshot_cong [OF assms(2)])
  then have same: "open_subscription env x' b = open_subscription env x b" by (simp add: open_subscription_def assms(3))
  obtain b' es where e: "current_subscription_entries (se_watch env) (sx_herdr x) b = (b', es)" by force
  have "resting b'"
    using e assms(1) by (auto simp: current_subscription_entries_def dest!: fetch_snapshot_same intro: resting_same split: prod.splits sum.splits)
  moreover obtain b'' r where o: "on_herdr (sx_subscribe x es) b' = (b'', r)" by force
  ultimately have "resting b''" using resting_same [OF on_herdr_same] by blast
  then show ?thesis using assms(4) e o same by (auto simp: open_subscription_def split: if_splits)
qed

lemma observing_pass:
  assumes "observing ob" "c_session_snapshot (sx_herdr x') = c_session_snapshot (sx_herdr x)" "sx_subscribe x' = sx_subscribe x"
  shows "observer_pass env x' deadline ticks closed_now ob = observer_pass env x deadline ticks closed_now ob
    \<and> observing (observer_pass env x deadline ticks closed_now ob)"
proof (cases "ob_subscription ob")
  case None
  obtain b1 sub where o: "open_subscription env x (ob_bridge ob) = (b1, sub)" by force
  have "open_subscription env x' (ob_bridge ob) = (b1, sub) \<and> resting b1 \<and> sub \<in> {None, Some None}"
    using observing_open [OF _ assms(2,3) o] assms(1) by (simp add: observing_def)
  then show ?thesis using assms(1) None o by (simp add: observer_pass_def observing_def)
next
  case (Some slot)
  then have slot: "slot = None" "resting (ob_bridge ob)" using assms(1) by (auto simp: observing_def)
  let ?w = "\<lparr>ro_slot = slot, ro_messages = [], ro_resubscribe = False\<rparr>"
  note run = resting_run [OF slot(2) assms(2), of "se_watch env" deadline ticks ?w]
  obtain b1 o1 outcome where r: "run_until (se_watch env) (sx_herdr x) deadline ticks (ob_bridge ob) ?w = (b1, o1, outcome)"
    by (metis prod_cases3)
  have "run_until (se_watch env) (sx_herdr x') deadline ticks (ob_bridge ob) ?w = (b1, o1, outcome)" "resting b1" "ro_slot o1 = None"
    using run unfolding r by (simp_all add: slot(1))
  then show ?thesis by (simp add: observer_pass_def Some r observing_def)
qed

text \<open>C17: While it waits the Host looks at no pane: over any passes the observer behaves the same whatever the calls of
  Herdr other than the snapshot and the subscription would do, so it reads no pane and types nothing; it watches no
  pane, holds no input and has no frame for anyone.\<close>

theorem observer_only_listens:
  assumes "c_session_snapshot (sx_herdr x') = c_session_snapshot (sx_herdr x)" "sx_subscribe x' = sx_subscribe x"
  shows "observer_run env x' passes (observer_start env x' h host_id hname config observed) =
      observer_run env x passes (observer_start env x h host_id hname config observed)
    \<and> observing (observer_run env x passes (observer_start env x h host_id hname config observed))"
proof -
  let ?b = "(bridge_new h host_id hname config)\<lparr>br_observed := observed\<rparr>"
  obtain b1 sub where o: "open_subscription env x ?b = (b1, sub)" by force
  have "open_subscription env x' ?b = (b1, sub) \<and> resting b1 \<and> sub \<in> {None, Some None}"
    by (rule observing_open [OF _ assms o]) (simp add: resting_def bridge_new_def)
  then have start: "observer_start env x' h host_id hname config observed = observer_start env x h host_id hname config observed"
      "observing (observer_start env x h host_id hname config observed)"
    using o by (simp_all add: observer_start_def observing_def)
  have "observing ob \<Longrightarrow> observer_run env x' passes ob = observer_run env x passes ob \<and> observing (observer_run env x passes ob)" for ob
  proof (induction passes arbitrary: ob)
    case (Cons p passes)
    obtain deadline ticks closed_now where p: "p = (deadline, ticks, closed_now)" by (metis prod_cases3)
    show ?case using Cons.IH observing_pass [OF Cons.prems assms, of env deadline ticks closed_now] by (simp add: p)
  qed simp
  from this [OF start(2)] show ?thesis by (simp add: start(1))
qed

section \<open>The session without dispatch\<close>

lemma receive_all_others [simp]:
  "receive_all reads decrypt r t [] = ([], SE_Closed, [])"
  "receive_all reads decrypt r t ((WsIoError, now) # ws) = ([], SE_Io, ws)"
  "receive_all reads decrypt r t ((WsMessage Ping, now) # ws) = receive_all reads decrypt r t ws"
  "receive_all reads decrypt r t ((WsMessage Pong, now) # ws) = receive_all reads decrypt r t ws"
  by (simp_all add: receive_all.simps [of reads decrypt r t "[]"] receive_all.simps [of reads decrypt r t "(WsIoError, now) # ws"]
      receive_all.simps [of reads decrypt r t "(WsMessage Ping, now) # ws"] receive_all.simps [of reads decrypt r t "(WsMessage Pong, now) # ws"]
      receive_all.simps [of reads decrypt r t ws])

text \<open>Driving a session is receiving frame after frame: without a close signal, the session that is driven item by
  item ends as the loop over \<open>receive_frame\<close> does on the same items, well when the peer closed and with the error
  of the loop otherwise, and it sends nothing.\<close>

theorem driven_as_received:
  assumes "drive_session env ce reads decrypt r (map (\<lambda>(i, now). DriveItem i now) ws) c = (c', result)"
  shows "result = (case receive_all reads decrypt r (cn_transport c) ws of (frames, ended, rest) \<Rightarrow>
      if ended = SE_Closed then Ok () else Err (DriveSession ended)) \<and> cn_socket c' = cn_socket c"
  using assms
proof (induction ws arbitrary: r c)
  case (Cons iw ws)
  obtain i now where iw: "iw = (i, now)" by force
  show ?case
  proof (cases i)
    case (WsMessage m)
    show ?thesis
    proof (cases m)
      case (Binary b)
      obtain r1 t1 res where d: "decode_fragment reads decrypt r (cn_transport c) b now = (r1, t1, res)" by (metis prod_cases3)
      show ?thesis
      proof (cases res)
        case (Inl e)
        then show ?thesis using Cons.prems by (auto simp: iw WsMessage Binary d receive_all_binary)
      next
        case (Inr x)
        note next_items = Cons.IH [of r1 "c\<lparr>cn_transport := t1\<rparr>"]
        show ?thesis
          using Cons.prems next_items
          by (cases x) (simp_all add: iw WsMessage Binary d Inr receive_all_binary also_received_def case_prod_beta)
      qed
    qed (use Cons in \<open>auto simp: iw WsMessage\<close>)
  qed (use Cons.prems in \<open>simp add: iw\<close>)
qed simp

text \<open>Whatever happened to the registry meanwhile, the handle of a session that was run is not registered afterwards.\<close>

lemma run_host_session_unregistered:
  assumes "run_host_session env ce reads decrypt rh device_id meanwhile evs (c, rg) = ((c', rg'), result)"
  shows "map_of (rg_sessions rg') rh = None"
proof -
  obtain rg1 chan where rg1: "registry_register rh device_id rg = (rg1, chan)" by force
  have "rg' = registry_unregister rh (drop_close_receiver chan (meanwhile rg1))"
    using assms by (auto simp: run_host_session_def rg1 split: prod.splits)
  then show ?thesis
    by (simp add: registry_unregister_def drop_entry_def put_signal_def delete_conv' split: option.splits)
qed

section \<open>Examples\<close>

definition toy_static :: bytes where "toy_static = replicate 32 7"

text \<open>A responder that only counts the messages.\<close>

definition toy_snow :: "(unit, bytes \<times> handshake_setup option, handshake_setup \<times> nat, unit) snow" where
  "toy_snow =
     \<lparr>sw_parse = (\<lambda>_. Some ()), sw_builder = (\<lambda>_. ([], None)), sw_local_private_key = (\<lambda>k b. Some (k, snd b)),
      sw_psk = (\<lambda>n psk b. Some (fst b, Some (SetupPairing (fst b) psk))),
      sw_remote_public_key = (\<lambda>key b. if length key = 32 then Some (fst b, Some (SetupReconnect (fst b) key)) else None),
      sw_build_initiator = (\<lambda>_. None), sw_build_responder = (\<lambda>b. map_option (\<lambda>hs. (hs, 0)) (snd b)),
      sw_generate_keypair = (\<lambda>_. None), sw_write_message = (\<lambda>m n h. ((fst h, Suc (snd h)), Some m)),
      sw_read_message = (\<lambda>m n h. ((fst h, Suc (snd h)), Some m)), sw_is_handshake_finished = (\<lambda>h. last_message (fst h) \<le> snd h),
      sw_get_remote_static = (\<lambda>h. case fst h of SetupPairing _ _ \<Rightarrow> Some toy_static | SetupReconnect _ key \<Rightarrow> Some key),
      sw_into_transport_mode = (\<lambda>_. Some ()), sw_encrypt = (\<lambda>m n t. (t, Some m)), sw_decrypt = (\<lambda>m n t. (t, Some m))\<rparr>"

definition toy_at :: "handshake_setup \<times> nat \<Rightarrow> handshake_setup \<Rightarrow> nat \<Rightarrow> bool" where
  "toy_at h hs n \<longleftrightarrow> h = (hs, n) \<and> (case hs of SetupPairing _ _ \<Rightarrow> True | SetupReconnect _ key \<Rightarrow> length key = 32)"

lemma toy_snow_ok: "snow_ok toy_snow toy_at"
proof -
  have made: "toy_at h hs 0" if "setup_state toy_snow hs = Some (Some h)" for hs h
    using that by (cases hs) (auto simp: setup_state_def pairing_handshake_def reconnect_handshake_def build_role_def toy_snow_def toy_at_def split: if_splits)
  show ?thesis
    unfolding snow_ok_def
    by (intro conjI allI impI made; (erule conjE)?)
       (auto simp: toy_snow_def toy_at_def toy_static_def split: handshake_setup.splits)
qed

definition log_message :: "message \<Rightarrow> message list \<Rightarrow> message list \<times> bool" where
  "log_message m w = (w @ [m], True)"

lemma log_message_ok: "socket_logs log_message" by (simp add: socket_logs_def log_message_def)

lemmas toy_run = handshake_after_first_def setup_state_def pairing_handshake_def reconnect_handshake_def build_role_def toy_snow_def
  read_handshake_message_def write_handshake_message_def log_message_def finish_on_def finish_handshake_def last_message_def
  third_message_def ok_or_def


theorem pairing_takes_three_witness:
  "\<exists>w t key msg2. handshake_on toy_snow (\<lambda>_. []) log_message (SetupPairing [] [])
      ([WsMessage Ping, WsMessage (Binary [1]), WsMessage Pong, WsMessage (Binary [3])], []) = Some (([], w), Ok (t, key)) \<and> w = [Binary msg2]"
proof -
  let ?ws = "[WsMessage Ping, WsMessage (Binary [1]), WsMessage Pong, WsMessage (Binary [3])]"
  have "length toy_static = 32" by (simp add: toy_static_def)
  then obtain w t key where run: "handshake_on toy_snow (\<lambda>_. []) log_message (SetupPairing [] []) (?ws, []) = Some (([], w), Ok (t, key))"
    by (simp add: handshake_on_def next_binary_def toy_run)
  obtain msg2 where "w = [Binary msg2]"
    using pairing_takes_three [OF toy_snow_ok log_message_ok run] by auto
  then show ?thesis using run by blast
qed

theorem observer_only_listens_witness:
  "observing (observer_run sample_senv sample_scalls [(secs 1, [], False)] (observer_start sample_senv sample_scalls () ''h'' ''n'' sample_config []))"
  using observer_only_listens [of "sample_scalls\<lparr>sx_herdr := (sx_herdr sample_scalls)\<lparr>c_pane_read_visible := (\<lambda>p h. (h, Err IpcIo))\<rparr>\<rparr>" sample_scalls
      sample_senv "[(secs 1, [], False)]" "()" "''h''" "''n''" sample_config "[]"]
  by simp

theorem driven_as_received_witness:
  "\<exists>c'. drive_session sample_senv toy_conn_env toy_reads toy_cipher reassembler_new
      (map (\<lambda>(i, now). DriveItem i now) [(WsMessage Ping, 0), (WsMessage (Close None), 0)]) \<lparr>cn_seq = 0, cn_transport = 0, cn_socket = []\<rparr>
    = (c', Ok ()) \<and> cn_socket c' = []"
proof -
  let ?c = "\<lparr>cn_seq = 0, cn_transport = 0, cn_socket = []\<rparr> :: (nat, message list) conn"
  let ?ws = "[(WsMessage Ping, 0), (WsMessage (Close None), 0)] :: (ws_item \<times> instant) list"
  obtain c' result where run: "drive_session sample_senv toy_conn_env toy_reads toy_cipher reassembler_new (map (\<lambda>(i, now). DriveItem i now) ?ws) ?c
      = (c', result)" by force
  show ?thesis using driven_as_received [OF run] run by simp
qed

end
