(* ===== verification/Test_Vectors.thy ===== *)
theory Test_Vectors
  imports Wire_Messages Handle_Codec
begin

text \<open>
  \<open>herdr-relay-proto/src/test_vectors.rs\<close>: the examples that the Rust and the Dart test suites read, as values of
  the model's message type, in the order of the source.
\<close>

definition EXAMPLE_HANDLE :: string where "EXAMPLE_HANDLE = ''n6Loxf94CfyIO6hOxlaHvA''"
definition EXAMPLE_PHRASE :: string where "EXAMPLE_PHRASE = ''remedy-tapestry-hubcap-oversleep-jailbird-kinetic''"
definition EXAMPLE_PAIRING_URI :: string where
  "EXAMPLE_PAIRING_URI = ''herdr-remote://pair?v=1&r=https%3A%2F%2Frelay.example.com&h=n6Loxf94CfyIO6hOxlaHvA&p=remedy-tapestry-hubcap-oversleep-jailbird-kinetic''"

type_synonym vector = "string \<times> 64 word \<times> string option \<times> app_message"

section \<open>The messages\<close>

definition vector_pane :: pane_summary where
  "vector_pane =
     \<lparr>pn_pane_id = ''w3:p2'', pn_workspace_id = ''w3'', pn_tab_id = ''w3:t2'', pn_terminal_id = ''term_abc123'', pn_label = ''claude'',
      pn_title = ''claude'', pn_cwd = ''D:'' @ [CHR 0x5C] @ ''Repositories'' @ [CHR 0x5C] @ ''herdr-mobile'', pn_focused = True, pn_agent = Some ''claude'',
      pn_agent_status = ''working'', pn_revision = 82195,
      pn_scroll = \<lparr>ps_offset_from_bottom = 0, ps_max_offset_from_bottom = 0, ps_viewport_rows = 50\<rparr>\<rparr>"

definition vector_updated_pane :: pane_summary where
  "vector_updated_pane = vector_pane\<lparr>pn_revision := 82196\<rparr>"

definition session_vectors :: "vector list" where
  "session_vectors =
    [(''host_info'', 1, None, M_HostInfo
       \<lparr>hi_protocol = 1, hi_host_id = ''a1b2c3d4-e5f6-7890-abcd-ef1234567890'', hi_host_name = ''patrick-desk'',
        hi_herdr_version = ''0.8.2-preview.2026-08-31-b1ff4582e968'', hi_herdr_protocol = 21, hi_paired = False, hi_theme = None\<rparr>),
     (''device_info'', 1, None, M_DeviceInfo
       \<lparr>di_protocol = 1, di_device_id = ''f9e8d7c6-b5a4-3210-fedc-ba9876543210'', di_device_name = ''Pixel 9 Pro'', di_platform = Android,
        di_os_version = ''15'', di_app_version = ''1.0.0''\<rparr>)]"

definition tree_vectors :: "vector list" where
  "tree_vectors =
    [(''tree_request'', 2, Some ''req-001'', M_TreeRequest),
     (''tree_snapshot'', 2, Some ''req-001'', M_TreeSnapshot
       \<lparr>ts_workspaces = [\<lparr>ws_workspace_id = ''w3'', ws_name = ''herdr-relay'', ws_focused = True, ws_repo_name = Some ''herdr-relay'',
          ws_is_linked_worktree = False, ws_space_id = None\<rparr>],
        ts_tabs = [\<lparr>tb_tab_id = ''w3:t2'', tb_workspace_id = ''w3'', tb_title = ''impl'', tb_focused = True\<rparr>],
        ts_panes = [vector_pane],
        ts_agents = [\<lparr>ag_agent_kind = ''claude'', ag_pane_id = ''w3:p2'', ag_status = ''working'', ag_status_at = None, ag_session = Some ''sess_001''\<rparr>]\<rparr>),
     (''tree_update'', 3, None, M_TreeUpdate
       \<lparr>tu_event = PaneUpdated, tu_pane = Some vector_updated_pane, tu_workspace = None, tu_tab = None\<rparr>)]"

definition watch_vectors :: "vector list" where
  "watch_vectors =
    [(''watch_pane'', 3, Some ''req-002'', M_WatchPane ''w3:p2''),
     (''watch_ack'', 3, Some ''req-002'', M_WatchAck
       \<lparr>wa_pane_id = ''w3:p2'', wa_revision = 82195, wa_viewport_rows = 50, wa_width = 122,
        wa_scroll = \<lparr>so_offset_from_bottom = 0, so_max_offset_from_bottom = 0\<rparr>, wa_line = []\<rparr>),
     (''unwatch_pane'', 5, None, M_UnwatchPane ''w3:p2''),
     (''pane_frame'', 4, None, M_PaneFrame
       \<lparr>pf_pane_id = ''w3:p2'', pf_revision = 82196, pf_viewport_rows = 50, pf_width = 122, pf_text = ''line one'' @ [CHR 0x0A] @ ''line two''\<rparr>),
     (''scroll_request'', 6, Some ''req-003'', M_ScrollRequest ''w3:p2'' 200),
     (''scroll_response'', 6, Some ''req-003'', M_ScrollResponse
       \<lparr>sr_pane_id = ''w3:p2'', sr_text = ''older line one'' @ [CHR 0x0A] @ ''older line two'', sr_lines = 2, sr_truncated = True\<rparr>)]"

definition input_vectors :: "vector list" where
  "input_vectors =
    [(''send_input'', 4, None, M_SendInput
       \<lparr>si_pane_id = ''w3:p2'', si_line = None, si_text = None, si_keys = Some [''ctrl+c''], si_defer = None, si_bypass_line = None\<rparr>),
     (''send_input'', 4, Some ''req-005'', M_SendInput
       \<lparr>si_pane_id = ''w3:p2'', si_line = Some ''hello, world'', si_text = None, si_keys = None, si_defer = None, si_bypass_line = None\<rparr>),
     (''send_input'', 7, Some ''req-007'', M_SendInput
       \<lparr>si_pane_id = ''w3:p2'', si_line = None, si_text = None, si_keys = Some [''Enter''], si_defer = Some UntilIdle, si_bypass_line = None\<rparr>),
     (''send_input'', 8, Some ''req-answer'', M_SendInput
       \<lparr>si_pane_id = ''w3:p2'', si_line = None, si_text = Some ''other answer'', si_keys = Some [''Enter''], si_defer = None, si_bypass_line = Some True\<rparr>),
     (''send_input_ack'', 7, Some ''req-007'', M_SendInputAck \<lparr>sa_pane_id = ''w3:p2'', sa_accepted = True, sa_queued = True\<rparr>),
     (''ping'', 6, Some ''req-006'', M_Ping),
     (''pong'', 6, Some ''req-006'', M_Pong),
     (''send_input_ack'', 4, Some ''req-004'', M_SendInputAck \<lparr>sa_pane_id = ''w3:p2'', sa_accepted = True, sa_queued = False\<rparr>)]"

definition agent_vectors :: "vector list" where
  "agent_vectors =
    [(''agent_status'', 5, None, M_AgentStatus
       \<lparr>as_host_id = ''a1b2c3d4-e5f6-7890-abcd-ef1234567890'', as_pane_id = ''w3:p2'', as_workspace_id = ''w3'', as_tab_id = ''w3:t2'',
        as_tab_title = ''impl'', as_pane_title = ''claude'', as_agent_kind = ''claude'', as_status = AS_Done, as_at = ''2026-08-24T14:32:05Z''\<rparr>),
     (''agent_prompt'', 7, Some ''req-005'', M_AgentPrompt ''w3:p2'' ''run the tests''),
     (''agent_prompt_ack'', 7, Some ''req-005'', M_AgentPromptAck ''w3:p2'' True),
     (''host_action'', 8, Some ''req-006'', M_HostAction
       \<lparr>ha_action = PaneSplit, ha_pane_id = Some ''w3:p2'', ha_workspace_id = None, ha_tab_id = None, ha_plugin_id = None, ha_action_id = None,
        ha_params = Some (JObj [(''direction'', JStr ''right''), (''focus'', JBool False)])\<rparr>),
     (''host_action_ack'', 8, Some ''req-006'', M_HostActionAck
       \<lparr>hk_action = PaneSplit, hk_success = True, hk_pane_id = Some ''w3:p2'', hk_result_id = Some ''w3:p4''\<rparr>)]"

definition device_vectors :: "vector list" where
  "device_vectors =
    [(''device_list_request'', 9, Some ''req-007'', M_DeviceListRequest),
     (''device_list'', 9, Some ''req-007'', M_DeviceList
       [\<lparr>dle_id = ''f9e8d7c6-b5a4-3210-fedc-ba9876543210'', dle_name = ''Pixel 9 Pro'', dle_paired_at = ''2026-08-20T09:00:00Z'',
         dle_last_seen = ''2026-08-24T14:30:00Z'', dle_connected = True, dle_platform = Android, dle_fingerprint = ''3f9a-1c04-be77-20d5''\<rparr>]),
     (''revoke_device'', 10, Some ''req-008'', M_RevokeDevice \<lparr>rr_device_id = Some ''f9e8d7c6-b5a4-3210-fedc-ba9876543210'', rr_all = None\<rparr>),
     (''revoke_result'', 10, Some ''req-008'', M_RevokeResult \<lparr>rv_revoked = [''f9e8d7c6-b5a4-3210-fedc-ba9876543210''], rv_all = False\<rparr>),
     (''error'', 11, Some ''req-009'', M_Error \<lparr>em_code = E_PaneNotFound, em_message = ''pane w3:p9 does not exist'', em_fatal = False\<rparr>),
     (''disconnect'', 5, None, M_Disconnect),
     (''action_list_request'', 12, Some ''req-010'', M_ActionListRequest),
     (''action_list'', 12, Some ''req-010'', M_ActionList
       [\<lparr>al_plugin_id = ''herdr-sidebar'', al_action_id = ''open-git'', al_title = ''Open Git'', al_description = Some ''Opens a git status pane'',
         al_contexts = Some [''global'']\<rparr>])]"

definition message_vectors :: "vector list" where
  "message_vectors = session_vectors @ tree_vectors @ watch_vectors @ input_vectors @ agent_vectors @ device_vectors"

section \<open>What the vectors cover\<close>

lemmas all_vectors = message_vectors_def session_vectors_def tree_vectors_def watch_vectors_def input_vectors_def agent_vectors_def device_vectors_def

lemma vector_names:
  "map fst message_vectors =
    [''host_info'', ''device_info'', ''tree_request'', ''tree_snapshot'', ''tree_update'', ''watch_pane'', ''watch_ack'', ''unwatch_pane'', ''pane_frame'',
     ''scroll_request'', ''scroll_response'', ''send_input'', ''send_input'', ''send_input'', ''send_input'', ''send_input_ack'', ''ping'', ''pong'',
     ''send_input_ack'', ''agent_status'', ''agent_prompt'', ''agent_prompt_ack'', ''host_action'', ''host_action_ack'', ''device_list_request'', ''device_list'',
     ''revoke_device'', ''revoke_result'', ''error'', ''disconnect'', ''action_list_request'', ''action_list'']"
  by (simp add: all_vectors)

text \<open>Every vector carries the wire type of its message, and exactly two types have no vector: the theme of the host
  and the mark-seen request.\<close>

theorem vectors_cover_types:
  "list_all (\<lambda>(name, seq, corr, m). type_name m = name) message_vectors
   \<and> (type_name m \<in> set (map fst message_vectors) \<longleftrightarrow> type_name m \<notin> {''host_theme'', ''mark_seen''})"
proof
  show "list_all (\<lambda>(name, seq, corr, m). type_name m = name) message_vectors" by (simp add: all_vectors)
  show "type_name m \<in> set (map fst message_vectors) \<longleftrightarrow> type_name m \<notin> {''host_theme'', ''mark_seen''}"
    unfolding vector_names by (cases m; simp only: type_name.simps) simp_all
qed

section \<open>The shared document\<close>

text \<open>The messages of the document that \<open>tests/vectors.rs\<close> writes for both test suites: frames by their type, in a map;
  None is the panic on a message that does not wrap.\<close>

definition vectors_messages :: "(app_message \<Rightarrow> json option) \<Rightarrow> vector list \<Rightarrow> (string \<times> frame) list option" where
  "vectors_messages to_value vs =
     fold (\<lambda>(name, seq, corr, message) doc.
       Option.bind doc (\<lambda>d. case frame_wrap to_value seq corr message of Ok f \<Rightarrow> Some (AList.update name f d) | Err _ \<Rightarrow> None)) vs (Some [])"

definition build_vectors_document :: "(app_message \<Rightarrow> json option) \<Rightarrow> (string \<times> frame) list option" where
  "build_vectors_document to_value = vectors_messages to_value message_vectors"

lemma vectors_messages_snoc:
  "vectors_messages to_value (vs @ [(name, seq, corr, m)]) =
     Option.bind (vectors_messages to_value vs) (\<lambda>d. case frame_wrap to_value seq corr m of Ok f \<Rightarrow> Some (AList.update name f d) | Err _ \<Rightarrow> None)"
  by (simp add: vectors_messages_def)

lemma frame_wrap_fields: "frame_wrap to_value seq corr m = Ok f \<Longrightarrow> fm_seq f = seq \<and> fm_corr f = corr \<and> fm_message_type f = type_name m"
  by (auto simp: frame_wrap_def split: option.splits json.splits)

lemma vectors_messages_last:
  "vectors_messages to_value vs = Some doc \<Longrightarrow> find (\<lambda>v. fst v = k) (rev vs) = Some (name, seq, corr, m) \<Longrightarrow>
     \<exists>f. map_of doc k = Some f \<and> fm_seq f = seq \<and> fm_corr f = corr"
proof (induction vs arbitrary: doc rule: rev_induct)
  case (snoc v vs)
  obtain name' seq' corr' m' where v: "v = (name', seq', corr', m')" by (metis prod.exhaust)
  obtain d where d: "vectors_messages to_value vs = Some d"
      "(case frame_wrap to_value seq' corr' m' of Ok f \<Rightarrow> Some (AList.update name' f d) | Err _ \<Rightarrow> None) = Some doc"
    using snoc.prems(1) unfolding v vectors_messages_snoc bind_eq_Some_conv by blast
  obtain f where f: "frame_wrap to_value seq' corr' m' = Ok f" "doc = AList.update name' f d"
    using d(2) by (cases "frame_wrap to_value seq' corr' m'") simp_all
  show ?case
  proof (cases "name' = k")
    case True
    then show ?thesis using snoc.prems(2) f frame_wrap_fields [OF f(1)] by (simp add: v update_conv')
  next
    case False
    then show ?thesis using snoc.IH [OF d(1)] snoc.prems(2) f(2) by (simp add: v update_conv')
  qed
qed simp

text \<open>The shared document holds one vector of a type, the last: of the four examples of input it keeps the answer that
  bypasses the line, and of the two acknowledgements the one that was not queued, so no test that reads it sees a held
  submit or a plain key.\<close>

theorem document_keeps_last:
  assumes "build_vectors_document to_value = Some doc"
  shows "length (filter (\<lambda>v. fst v = ''send_input'') message_vectors) = 4
    \<and> (\<exists>f. map_of doc ''send_input'' = Some f \<and> fm_seq f = 8 \<and> fm_corr f = Some ''req-answer'')
    \<and> (\<exists>f. map_of doc ''send_input_ack'' = Some f \<and> fm_seq f = 4 \<and> fm_corr f = Some ''req-004'')"
proof -
  note doc = vectors_messages_last [OF assms [unfolded build_vectors_document_def]]
  have "\<exists>m. find (\<lambda>v. fst v = ''send_input'') (rev message_vectors) = Some (''send_input'', 8, Some ''req-answer'', m)"
    by (simp add: all_vectors)
  moreover have "\<exists>m. find (\<lambda>v. fst v = ''send_input_ack'') (rev message_vectors) = Some (''send_input_ack'', 4, Some ''req-004'', m)"
    by (simp add: all_vectors)
  moreover have "length (filter (\<lambda>v. fst v = ''send_input'') message_vectors) = 4" by (simp add: all_vectors)
  ultimately show ?thesis using doc by blast
qed

theorem document_keeps_last_witness:
  "\<exists>doc f. build_vectors_document (\<lambda>_. Some (JObj [])) = Some doc \<and> map_of doc ''send_input'' = Some f \<and> fm_seq f = 8"
proof -
  have "\<exists>d. vectors_messages (\<lambda>_. Some (JObj [])) vs = Some d" for vs
    by (induction vs rule: rev_induct) (auto simp: vectors_messages_def frame_wrap_def)
  then obtain doc where doc: "build_vectors_document (\<lambda>_. Some (JObj [])) = Some doc" unfolding build_vectors_document_def by blast
  show ?thesis using document_keeps_last [OF doc] doc by blast
qed

section \<open>The example address\<close>

definition example_handle :: handle where
  "example_handle = Handle [159, 162, 232, 197, 255, 120, 9, 252, 136, 59, 168, 78, 198, 86, 135, 188]"

text \<open>The example address is the one the program builds from the example handle and phrase, and it reads back as
  them.\<close>

theorem example_uri_parses:
  "handle_encode ref_enc example_handle = EXAMPLE_HANDLE
   \<and> pairing_uri_build ref_enc \<lparr>pu_relay_origin = ''https://relay.example.com'', pu_handle = example_handle, pu_phrase = EXAMPLE_PHRASE\<rparr> = EXAMPLE_PAIRING_URI
   \<and> pairing_uri_parse ref_dec EXAMPLE_PAIRING_URI =
       Some (Ok \<lparr>pu_relay_origin = ''https://relay.example.com'', pu_handle = example_handle, pu_phrase = EXAMPLE_PHRASE\<rparr>)"
proof -
  let ?u = "\<lparr>pu_relay_origin = ''https://relay.example.com'', pu_handle = example_handle, pu_phrase = EXAMPLE_PHRASE\<rparr>"
  have handle: "handle_encode ref_enc example_handle = EXAMPLE_HANDLE" by code_simp
  have origin: "percent_encode ''https://relay.example.com'' = ''https%3A%2F%2Frelay.example.com''"
    by (simp add: unreserved_def is_upper_def is_lower_def is_digit_def hex_upper_def char_of_def bit_Suc_0_iff)
  have build: "pairing_uri_build ref_enc ?u = EXAMPLE_PAIRING_URI"
    unfolding pairing_uri_build_def pairing_uri.simps handle origin
    by (simp add: PAIRING_URI_SCHEME_def EXAMPLE_HANDLE_def EXAMPLE_PHRASE_def EXAMPLE_PAIRING_URI_def)
  have "EXAMPLE_PAIRING_URI = ''herdr-remote://pair?'' @ join ''&'' (uri_pieces ref_enc ?u)"
    unfolding uri_pieces_def pairing_uri.simps handle origin
    by (simp add: EXAMPLE_HANDLE_def EXAMPLE_PHRASE_def EXAMPLE_PAIRING_URI_def)
  moreover have "is_absolute_http_origin ''https://relay.example.com''" "valid_utf8 ''https://relay.example.com''"
    by (simp add: is_absolute_http_origin_def, intro valid_utf8_ascii, simp add: is_ascii_def)
  moreover have "handle_ok example_handle" by (simp add: example_handle_def handle_ok_def HANDLE_BYTES_def)
  moreover have "CHR ''&'' \<notin> set EXAMPLE_PHRASE" by (simp add: EXAMPLE_PHRASE_def)
  moreover have "length EXAMPLE_PAIRING_URI \<le> PAIRING_URI_MAX_LEN" by (simp add: EXAMPLE_PAIRING_URI_def PAIRING_URI_MAX_LEN_def)
  ultimately have "pairing_uri_parse ref_dec EXAMPLE_PAIRING_URI = Some (Ok ?u)"
    using pairing_uri_any_order [OF ref_codec, of ?u "uri_pieces ref_enc ?u" EXAMPLE_PAIRING_URI] by simp
  then show ?thesis using handle build by blast
qed

end
