(* ===== verification/Host_Platform.thy ===== *)
theory Host_Platform
  imports Host_Loops Popup Theme Control_Plane
begin

text \<open>
  What the Host takes from its platform and gives back to it: the clipboard tools of \<open>process.rs\<close>, the place of
  Herdr's configuration and the light or dark system of \<open>theme.rs\<close>, \<open>HostHandle::shutdown\<close> of \<open>bridge.rs\<close>, and
  the terminal around the interactive pane with the printed lines of \<open>--once\<close> in \<open>popup.rs\<close>. A child process is the
  outcome of running it.
\<close>

datatype platform_os = OsWindows | OsMac | OsOther

section \<open>The clipboard\<close>

definition clipboard_candidates :: "platform_os \<Rightarrow> (string \<times> string list) list" where
  "clipboard_candidates os =
     (case os of
        OsWindows \<Rightarrow> [(''clip'', [])]
      | OsMac \<Rightarrow> [(''pbcopy'', [])]
      | OsOther \<Rightarrow> [(''wl-copy'', []), (''xclip'', [''-selection'', ''clipboard'']), (''xsel'', [''--clipboard'', ''--input''])])"

text \<open>What becomes of a tool that gets the text: it cannot be started, or it ends, with success or not.\<close>

datatype tool_run = NoSuchTool | ToolEnded bool

definition copy_with :: "(string \<times> string list \<Rightarrow> string \<Rightarrow> tool_run) \<Rightarrow> string \<times> string list \<Rightarrow> string \<Rightarrow> (unit, copy_error) result" where
  "copy_with tool c tx =
     (case tool c tx of NoSuchTool \<Rightarrow> Err SpawnFailed | ToolEnded success \<Rightarrow> if success then Ok () else Err ToolFailed)"

definition copy_to_clipboard :: "platform_os \<Rightarrow> (string \<times> string list \<Rightarrow> string \<Rightarrow> tool_run) \<Rightarrow> string \<Rightarrow> (unit, string) result" where
  "copy_to_clipboard os tool tx = copy_first_success (copy_with tool) (clipboard_candidates os) tx"

lemma copy_first_success_iff:
  "copy_first_success (copy_with tool) cs tx = Ok () \<longleftrightarrow>
     (\<exists>c. find (\<lambda>c. tool c tx \<noteq> NoSuchTool) cs = Some c \<and> tool c tx = ToolEnded True)"
  by (induction cs) (auto simp: copy_with_def split: tool_run.splits)

text \<open>A copy succeeds exactly when the first tool of the platform that can be started takes the text: a tool that
  fails is not followed by another, and the message of a failure is the same for all of them.\<close>

theorem copy_owned_by_first_tool:
  "(copy_to_clipboard os tool tx = Ok () \<longleftrightarrow>
      (\<exists>c. find (\<lambda>c. tool c tx \<noteq> NoSuchTool) (clipboard_candidates os) = Some c \<and> tool c tx = ToolEnded True))
   \<and> copy_to_clipboard os tool tx \<in> {Ok (), Err CLIPBOARD_COPY_FAILED}"
proof -
  have "copy_first_success (copy_with tool) cs tx \<in> {Ok (), Err CLIPBOARD_COPY_FAILED}" for cs
    by (induction cs) (auto simp: copy_with_def split: tool_run.splits)
  then show ?thesis unfolding copy_to_clipboard_def by (auto simp: copy_first_success_iff)
qed

section \<open>The theme of the system\<close>

definition path_sep :: "platform_os \<Rightarrow> string" where "path_sep os = (if os = OsWindows then [CHR 0x5C] else ''/'')"

definition path_under :: "platform_os \<Rightarrow> string \<Rightarrow> string \<Rightarrow> string" where
  "path_under os base name =
     (if base = [] then name else if last base \<in> (if os = OsWindows then {CHR 0x5C, CHR ''/''} else {CHR ''/''}) then base @ name
      else base @ path_sep os @ name)"

definition herdr_config_path :: "platform_os \<Rightarrow> (string \<Rightarrow> string option) \<Rightarrow> string" where
  "herdr_config_path os env =
     (let var = (\<lambda>name. case env name of Some v \<Rightarrow> v | None \<Rightarrow> []);
          base = (case os of
              OsWindows \<Rightarrow> var ''APPDATA''
            | OsMac \<Rightarrow> path_under os (var ''HOME'') ''Library/Application Support''
            | OsOther \<Rightarrow> if var ''XDG_CONFIG_HOME'' \<noteq> [] then var ''XDG_CONFIG_HOME'' else path_under os (var ''HOME'') ''.config'')
      in path_under os (path_under os base ''herdr'') ''config.toml'')"

text \<open>The tool that is asked: \<open>reg query\<close>, \<open>defaults read\<close> or \<open>gsettings get\<close>. The output is None when it cannot be run,
  else its success and its text; \<open>words\<close> splits at white space.\<close>

definition host_is_light :: "(string \<Rightarrow> string list) \<Rightarrow> platform_os \<Rightarrow> (bool \<times> string) option \<Rightarrow> bool" where
  "host_is_light words os output =
     (case output of
        None \<Rightarrow> False
      | Some (success, value) \<Rightarrow>
          (case os of
             OsWindows \<Rightarrow> success \<and> words value \<noteq> [] \<and> last (words value) \<noteq> ''0x0''
           | OsMac \<Rightarrow> \<not> success \<or> trim value \<noteq> ''Dark''
           | OsOther \<Rightarrow> success \<and> contains_str ''prefer-light'' value))"

text \<open>A system that cannot be asked is dark; on a Mac a refusal means light, for the key exists in the dark only.\<close>

lemma unknown_system_dark:
  "\<not> host_is_light words os None" "host_is_light words OsMac (Some (False, value))" "\<not> host_is_light words OsOther (Some (False, value))"
  by (simp_all add: host_is_light_def)

section \<open>Shutdown\<close>

definition host_shutdown :: "('q, 'k) host_state \<Rightarrow> ('q, 'k) host_state" where
  "host_shutdown s =
     (let s1 = s\<lparr>hs_pairing := None, hs_registrations := []\<rparr>;
          s2 = (case hs_pairing s of Some p \<Rightarrow> abort_task (op_task p) s1 | None \<Rightarrow> s1)
      in fold (\<lambda>(device_id, task). abort_task task) (hs_registrations s) s2)"

lemma fold_abort:
  "hs_aborted (fold (\<lambda>(i, t). abort_task t) rs s) = rev (map snd rs) @ hs_aborted s"
  "hs_pairing (fold (\<lambda>(i, t). abort_task t) rs s) = hs_pairing s"
  "hs_registrations (fold (\<lambda>(i, t). abort_task t) rs s) = hs_registrations s"
  "hs_active (fold (\<lambda>(i, t). abort_task t) rs s) = hs_active s"
  by (induction rs arbitrary: s) (auto simp: abort_task_def split: prod.splits)

lemma host_shutdown_facts:
  "hs_pairing (host_shutdown s) = None" "hs_registrations (host_shutdown s) = []" "hs_active (host_shutdown s) = hs_active s"
  "(i, t) \<in> set (hs_registrations s) \<Longrightarrow> t \<in> set (hs_aborted (host_shutdown s))"
  "hs_pairing s = Some p \<Longrightarrow> op_task p \<in> set (hs_aborted (host_shutdown s))"
proof -
  show "hs_pairing (host_shutdown s) = None" "hs_registrations (host_shutdown s) = []" "hs_active (host_shutdown s) = hs_active s"
    "hs_pairing s = Some p \<Longrightarrow> op_task p \<in> set (hs_aborted (host_shutdown s))"
    by (auto simp: host_shutdown_def Let_def fold_abort abort_task_def split: option.splits)
  assume "(i, t) \<in> set (hs_registrations s)"
  then have "t \<in> snd ` set (hs_registrations s)" by force
  then show "t \<in> set (hs_aborted (host_shutdown s))"
    by (simp add: host_shutdown_def Let_def fold_abort)
qed

text \<open>Shutdown stops every loop that is recorded: afterwards no pairing is open and no registration is left, each
  recorded registration loop that had not ended and the pairing loop take their abort as the next step, end, and free
  the claim of a session they held.\<close>

theorem shutdown_ends_loops:
  assumes "(rl_device l, rl_task l) \<in> set (hs_registrations s)" "rl_pc l \<noteq> RegEnded"
    and "hs_pairing s = Some p" "pl_task pl = op_task p" "pl_pc pl \<noteq> PairEnded"
  shows "hs_pairing (host_shutdown s) = None \<and> hs_registrations (host_shutdown s) = []
    \<and> (\<exists>s' l'. reg_step ser RV_Aborted (host_shutdown s, l) = Some (s', l') \<and> rl_pc l' = RegEnded
         \<and> (rl_pc l \<in> {RegGreeting, RegServing} \<longrightarrow> s' = release_active (rl_handle l) (host_shutdown s)))
    \<and> (\<exists>s' pl'. pair_step he psk PV_Aborted (host_shutdown s, pl) = Some (s', pl') \<and> pl_pc pl' = PairEnded
         \<and> (\<forall>rh i. pl_pc pl = PairServing rh i \<longrightarrow> s' = release_active rh (host_shutdown s)))"
proof -
  have "rl_task l \<in> set (hs_aborted (host_shutdown s))" "pl_task pl \<in> set (hs_aborted (host_shutdown s))"
    using host_shutdown_facts(4) [OF assms(1)] host_shutdown_facts(5) [OF assms(3)] assms(4) by simp_all
  then have "\<exists>s' l'. reg_step ser RV_Aborted (host_shutdown s, l) = Some (s', l') \<and> rl_pc l' = RegEnded
         \<and> (rl_pc l \<in> {RegGreeting, RegServing} \<longrightarrow> s' = release_active (rl_handle l) (host_shutdown s))"
    and "\<exists>s' pl'. pair_step he psk PV_Aborted (host_shutdown s, pl) = Some (s', pl') \<and> pl_pc pl' = PairEnded
         \<and> (\<forall>rh i. pl_pc pl = PairServing rh i \<longrightarrow> s' = release_active rh (host_shutdown s))"
    using assms(2,5) by (auto simp: reg_step_def pair_step_def)
  then show ?thesis using host_shutdown_facts(1,2) by blast
qed

section \<open>The terminal of the pane\<close>

record terminal =
  tm_raw :: bool
  tm_alternate :: bool

text \<open>Which of the calls of \<open>run\<close> succeed: loading, raw mode on, the alternate screen, the terminal of the library, raw
  mode off, the alternate screen left; \<open>tr_loop\<close> is the result of the loop.\<close>

record terminal_run =
  tr_load :: bool
  tr_raw :: bool
  tr_enter :: bool
  tr_terminal :: bool
  tr_loop :: bool
  tr_cooked :: bool
  tr_leave :: bool

definition popup_run :: "terminal_run \<Rightarrow> terminal \<Rightarrow> terminal \<times> bool" where
  "popup_run r tm =
     (if \<not> tr_load r then (tm, False)
      else if \<not> tr_raw r then (tm, False)
      else
        let tm1 = tm\<lparr>tm_raw := True\<rparr> in
        if \<not> tr_enter r then (tm1, False)
        else
          let tm2 = tm1\<lparr>tm_alternate := True\<rparr> in
          if \<not> tr_terminal r then (tm2, False)
          else if \<not> tr_cooked r then (tm2, False)
          else
            let tm3 = tm2\<lparr>tm_raw := False\<rparr> in
            if \<not> tr_leave r then (tm3, False) else (tm3\<lparr>tm_alternate := False\<rparr>, tr_loop r))"

definition plain_terminal :: terminal where "plain_terminal = \<lparr>tm_raw = False, tm_alternate = False\<rparr>"

text \<open>Once the loop of the pane has run, whatever its result, the terminal is put back when the two calls that do so
  succeed.\<close>

theorem loop_result_restores:
  assumes "tr_cooked r" "tr_leave r" "tr_enter r" "tr_terminal r"
  shows "fst (popup_run r plain_terminal) = plain_terminal"
  using assms by (simp add: popup_run_def Let_def plain_terminal_def)

text \<open>A start that fails half-way leaves the terminal in raw mode.\<close>

theorem failed_start_leaves_raw:
  "popup_run \<lparr>tr_load = True, tr_raw = True, tr_enter = False, tr_terminal = True, tr_loop = True, tr_cooked = True, tr_leave = True\<rparr> plain_terminal
     = (\<lparr>tm_raw = True, tm_alternate = False\<rparr>, False)"
  by (simp add: popup_run_def plain_terminal_def)

text \<open>The printed lines of \<open>--once\<close>: a row of symbols each, without its trailing white space.\<close>

definition DEFAULT_ONCE_WIDTH :: nat where "DEFAULT_ONCE_WIDTH = 72"
definition DEFAULT_ONCE_HEIGHT :: nat where "DEFAULT_ONCE_HEIGHT = 47"

definition buffer_lines :: "string list list \<Rightarrow> string list" where
  "buffer_lines rows = map (\<lambda>row. trim_end (concat row)) rows"

section \<open>Witnesses\<close>

theorem loop_result_restores_witness:
  "fst (popup_run \<lparr>tr_load = True, tr_raw = True, tr_enter = True, tr_terminal = True, tr_loop = False, tr_cooked = True, tr_leave = True\<rparr> plain_terminal)
     = plain_terminal"
  by (rule loop_result_restores) simp_all

theorem shutdown_ends_loops_witness:
  "\<exists>s' l'. reg_step (he_ser sample_env) RV_Aborted (host_shutdown (paired_host\<lparr>hs_registrations := [(''a'', 0)]\<rparr>), sample_loop) = Some (s', l')
     \<and> rl_pc l' = RegEnded"
proof -
  let ?s = "paired_host\<lparr>hs_registrations := [(''a'', 0)]\<rparr>"
  obtain p where p: "hs_pairing ?s = Some p" by (simp add: paired_host_def)
  have "(rl_device sample_loop, rl_task sample_loop) \<in> set (hs_registrations ?s)" "rl_pc sample_loop \<noteq> RegEnded"
    by (simp_all add: sample_loop_def)
  moreover have "pl_pc (sample_pair_loop\<lparr>pl_task := op_task p\<rparr>) \<noteq> PairEnded" "pl_task (sample_pair_loop\<lparr>pl_task := op_task p\<rparr>) = op_task p"
    by (simp_all add: sample_pair_loop_def)
  ultimately show ?thesis
    using shutdown_ends_loops [OF _ _ p, of sample_loop "sample_pair_loop\<lparr>pl_task := op_task p\<rparr>" "he_ser sample_env"] by blast
qed

end
