(* ===== verification/Hub_Front.thy ===== *)
theory Hub_Front
  imports Hub_Logging Relay_Pump Push_Providers
begin

text \<open>
  The front of the hub: \<open>routes.rs\<close> (the router, the upgrade of a request, the metrics page), \<open>main.rs\<close>, the
  named events of \<open>routes/logging.rs\<close> with the JSON of a line, and every place of the crate that logs. A log
  event is the list of its fields, in the order of the call; serde_json is an argument.
\<close>

type_synonym log_fields = "(string \<times> field_value) list"

section \<open>The named events\<close>

definition log_relay_started :: log_fields where
  "log_relay_started = [(''event'', FV_Str ''relay_started''), (''active_handles'', FV_U64 0)]"

definition log_host_connected :: "string \<Rightarrow> nat \<Rightarrow> log_fields" where
  "log_host_connected h6 active =
     [(''event'', FV_Str ''host_connected''), (''handle_first_6'', FV_Str h6), (''peer'', FV_Str ''host''), (''active_handles'', FV_U64 active)]"

definition log_device_connected :: "string \<Rightarrow> nat \<Rightarrow> log_fields" where
  "log_device_connected h6 active =
     [(''event'', FV_Str ''device_connected''), (''handle_first_6'', FV_Str h6), (''peer'', FV_Str ''device''), (''active_handles'', FV_U64 active)]"

definition log_host_disconnected :: "string \<Rightarrow> nat \<Rightarrow> nat \<Rightarrow> nat \<Rightarrow> nat \<Rightarrow> log_fields" where
  "log_host_disconnected h6 active frames bytes duration_ms =
     [(''event'', FV_Str ''host_disconnected''), (''handle_first_6'', FV_Str h6), (''peer'', FV_Str ''host''), (''active_handles'', FV_U64 active),
      (''frames_forwarded'', FV_U64 frames), (''bytes_forwarded'', FV_U64 bytes), (''duration_ms'', FV_U64 duration_ms)]"

definition log_device_disconnected :: "string \<Rightarrow> nat \<Rightarrow> nat \<Rightarrow> nat \<Rightarrow> nat \<Rightarrow> log_fields" where
  "log_device_disconnected h6 active frames bytes duration_ms =
     [(''event'', FV_Str ''device_disconnected''), (''handle_first_6'', FV_Str h6), (''peer'', FV_Str ''device''), (''active_handles'', FV_U64 active),
      (''frames_forwarded'', FV_U64 frames), (''bytes_forwarded'', FV_U64 bytes), (''duration_ms'', FV_U64 duration_ms)]"

definition log_handle_expired :: "string \<Rightarrow> nat \<Rightarrow> log_fields" where
  "log_handle_expired h6 active =
     [(''event'', FV_Str ''handle_expired''), (''handle_first_6'', FV_Str h6), (''active_handles'', FV_U64 active)]"

definition log_error :: "nat \<Rightarrow> string \<Rightarrow> string \<Rightarrow> log_fields" where
  "log_error active error_code error_message =
     [(''event'', FV_Str ''error''), (''active_handles'', FV_U64 active), (''error_code'', FV_Str error_code), (''error_message'', FV_Str error_message)]"

section \<open>The line of an event\<close>

definition member_str :: "string \<Rightarrow> string option \<Rightarrow> (string \<times> json) list" where
  "member_str name v = (case v of Some s \<Rightarrow> [(name, JStr s)] | None \<Rightarrow> [])"

definition member_u64 :: "string \<Rightarrow> nat option \<Rightarrow> (string \<times> json) list" where
  "member_u64 name v = (case v of Some n \<Rightarrow> [(name, JNum (PosInt (of_nat n)))] | None \<Rightarrow> [])"

definition log_members :: "log_line \<Rightarrow> (string \<times> json) list" where
  "log_members l =
     (let f = ll_fields l in
      [(''ts'', JStr (ll_ts l)), (''event'', JStr (ll_event l))]
      @ member_str ''handle_first_6'' (fc_handle_first_6 f) @ member_str ''peer'' (fc_peer f)
      @ member_u64 ''active_handles'' (fc_active_handles f) @ member_u64 ''frames_forwarded'' (fc_frames_forwarded f)
      @ member_u64 ''bytes_forwarded'' (fc_bytes_forwarded f) @ member_u64 ''duration_ms'' (fc_duration_ms f)
      @ member_str ''error_code'' (fc_error_code f) @ member_str ''error_message'' (fc_error_message f))"

definition log_print :: "(json \<Rightarrow> string option) \<Rightarrow> bool \<Rightarrow> string \<Rightarrow> log_fields \<Rightarrow> string" where
  "log_print to_string enabled ts fs =
     (case log_event enabled ts fs of
        None \<Rightarrow> []
      | Some l \<Rightarrow> (case to_string (JObj (log_members l)) of Some json \<Rightarrow> Hub_Metrics.line json | None \<Rightarrow> []))"

text \<open>\<open>init\<close>: whether logging is on, and whether the subscriber is installed.\<close>

record log_state =
  lg_enabled :: bool
  lg_installed :: bool

definition log_init :: "bool \<Rightarrow> log_state \<Rightarrow> log_state" where
  "log_init enabled g = g\<lparr>lg_enabled := enabled, lg_installed := True\<rparr>"

section \<open>What a connection logs\<close>

definition joined_log :: "(8 word list \<Rightarrow> string) \<Rightarrow> handle \<Rightarrow> role \<Rightarrow> hub \<Rightarrow> log_fields" where
  "joined_log enc rh role h =
     (case role of
        Host \<Rightarrow> log_host_connected (handle_first_6 enc rh) (active_handles h)
      | Device \<Rightarrow> log_device_connected (handle_first_6 enc rh) (active_handles h))"

definition refused_log :: "(8 word list \<Rightarrow> string) \<Rightarrow> handle \<Rightarrow> register_error \<Rightarrow> hub \<Rightarrow> log_fields list" where
  "refused_log enc rh e h =
     (case describe_register_error e of (code, name, message, reason) \<Rightarrow>
        log_error (active_handles h) name message
        # (if e = RE_PairingExpired then [log_handle_expired (handle_first_6 enc rh) (active_handles h)] else []))"

text \<open>The lines of \<open>drive_connection\<close> before the byte pump, with the arguments of that function.\<close>

definition opening_log ::
  "(8 word list \<Rightarrow> string) \<Rightarrow> (string \<Rightarrow> register_frame option) \<Rightarrow> ip_addr \<Rightarrow> bool \<Rightarrow> (handle, handle_error) result \<Rightarrow> role \<Rightarrow>
     instant \<Rightarrow> message option \<Rightarrow> instant \<Rightarrow> app \<Rightarrow> log_fields list" where
  "opening_log enc decode ip protocol_ok raw_handle role now item now' a =
     (let active = active_handles (ap_hub a) in
      if \<not> snd (ip_allow (ap_conn_limiter a) ip now) then [log_error active ''rate_limited'' ''connection rate limit exceeded'']
      else if \<not> protocol_ok then [log_error active ''protocol_error'' ''missing or unsupported subprotocol'']
      else case raw_handle of
        Err _ \<Rightarrow> [log_error active ''protocol_error'' ''malformed routing handle'']
      | Ok rh \<Rightarrow>
          case wait_for_registration decode item role of
            None \<Rightarrow> [log_error active ''protocol_error'' ''missing or malformed registration frame'']
          | Some pairing \<Rightarrow>
              case register (ap_hub a) (ap_handle_limiter a) rh role ip (hc_max_handles (ap_config a)) pairing now' of
                (h, lim', Err e) \<Rightarrow> refused_log enc rh e h
              | (h, lim', Ok (tx, is_new)) \<Rightarrow> [joined_log enc rh role h])"

definition wire_code_name :: "close_code \<Rightarrow> string" where
  "wire_code_name code = (case close_code_name code of Some n \<Rightarrow> n | None \<Rightarrow> [])"

text \<open>One iteration of \<open>run_peer\<close>: only a binary frame that breaks a limit is logged.\<close>

definition pump_log :: "instant \<Rightarrow> pump_item \<Rightarrow> app \<Rightarrow> peer \<Rightarrow> log_fields list" where
  "pump_log now item a p =
     (let active = active_handles (ap_hub a) in
      case item of
        Frame (Binary bytes) \<Rightarrow>
          if MAX_FRAME_BYTES < length bytes then [log_error active (wire_code_name FrameTooLarge) ''frame exceeds the 1 MiB limit'']
          else if \<not> snd (frame_allow (pp_limiter p) now) then [log_error active (wire_code_name RateLimited) ''frame rate limit exceeded'']
          else []
      | _ \<Rightarrow> [])"

definition disconnected_log :: "(8 word list \<Rightarrow> string) \<Rightarrow> instant \<Rightarrow> hub \<Rightarrow> peer \<Rightarrow> log_fields" where
  "disconnected_log enc now h p =
     (let duration_ms = unat (of_nat ((now - pp_started p) div ms 1) :: 64 word) in
      (case pp_role p of Host \<Rightarrow> log_host_disconnected | Device \<Rightarrow> log_device_disconnected)
        (handle_first_6 enc (pp_handle p)) (active_handles h) (pp_frames_forwarded p) (pp_bytes_forwarded p) duration_ms)"

text \<open>The end of \<open>SessionMap::disconnect\<close>, reached only by a connection that still owns its slot.\<close>

definition teardown_log :: "(8 word list \<Rightarrow> string) \<Rightarrow> hub \<Rightarrow> handle \<Rightarrow> role \<Rightarrow> outbound_tx \<Rightarrow> close_frame option \<Rightarrow> log_fields list" where
  "teardown_log enc h rh role mine peer_close =
     (if owns_slot h rh role mine
      then [log_handle_expired (take 6 (handle_encode enc rh)) (active_handles (disconnect h rh role mine peer_close))] else [])"

definition exit_log :: "(8 word list \<Rightarrow> string) \<Rightarrow> instant \<Rightarrow> app \<Rightarrow> peer \<Rightarrow> log_fields list" where
  "exit_log enc now a p =
     (let h1 = drop_receiver (ap_hub a) (pp_tx p) in
      disconnected_log enc now h1 p # teardown_log enc h1 (pp_handle p) (pp_role p) (pp_tx p) (pp_close p))"

section \<open>What starting logs\<close>

definition config_error_log :: log_fields where
  "config_error_log =
     [(''event'', FV_Str ''error''), (''error_code'', FV_Str ''push_config''), (''error_message'', FV_Str ''push: invalid configuration'')]"

definition config_log :: "('a option, unit) result \<Rightarrow> log_fields list" where
  "config_log r = (case r of Ok _ \<Rightarrow> [] | Err _ \<Rightarrow> [config_error_log])"

definition push_start_log :: "'k push_files \<Rightarrow> bool \<Rightarrow> (string \<Rightarrow> env_value) \<Rightarrow> log_fields list" where
  "push_start_log files builds env =
     (let apns = apns_from_env files env; fcm = fcm_from_env files env;
          p = providers_from_env files builds env
      in config_log apns @ config_log fcm
         @ (if (pv_apns p \<noteq> None \<or> pv_fcm p \<noteq> None) \<and> \<not> builds then [config_error_log] else [])
         @ (if \<not> providers_enabled p then [[(''event'', FV_Str ''push_disabled''), (''error_message'', FV_Str ''push: disabled'')]] else []))"

definition hub_build :: "(string \<Rightarrow> string option) \<Rightarrow> log_state \<Rightarrow> app \<times> log_state \<times> log_fields list" where
  "hub_build env g =
     (let config = config_from_env env in (app_new config, log_init (hc_log_json config) g, [log_relay_started]))"

text \<open>\<open>main\<close> up to the two servers: both addresses are bound before the state is built.\<close>

definition hub_main ::
  "(string \<Rightarrow> string option) \<Rightarrow> (string \<Rightarrow> (unit, 'e) result) \<Rightarrow> log_state \<Rightarrow> (app \<times> log_state \<times> log_fields list, 'e) result" where
  "hub_main env bind g =
     (let addr = (case env ''HERDR_RELAY_LISTEN'' of Some v \<Rightarrow> v | None \<Rightarrow> ''0.0.0.0:8080'');
          metrics_addr = (case env ''HERDR_RELAY_METRICS_LISTEN'' of Some v \<Rightarrow> v | None \<Rightarrow> ''127.0.0.1:9090'')
      in case bind addr of
           Err e \<Rightarrow> Err e
         | Ok _ \<Rightarrow> (case bind metrics_addr of Err e \<Rightarrow> Err e | Ok _ \<Rightarrow> Ok (hub_build env g)))"

section \<open>The router\<close>

definition healthz :: string where "healthz = ''ok''"

definition metrics_endpoint :: "(64 word \<Rightarrow> string) \<Rightarrow> app \<Rightarrow> string" where
  "metrics_endpoint show_secs a = render show_secs (ap_metrics a) (active_handles (ap_hub a)) @ render_push_metrics (ap_push a)"

text \<open>\<open>accept\<close> with the address of the client: the subprotocols offered back, and the connection. The two routes give it
  their role.\<close>

definition upgrade ::
  "((string \<times> string) list \<Rightarrow> string) \<Rightarrow> (string \<Rightarrow> register_frame option) \<Rightarrow> (string \<Rightarrow> ip_addr option) \<Rightarrow> (string \<Rightarrow> 8 word list option) \<Rightarrow>
     role \<Rightarrow> string \<Rightarrow> headers \<Rightarrow> ip_addr \<Rightarrow> instant \<Rightarrow> message option \<Rightarrow> instant \<Rightarrow> app \<Rightarrow>
     string list \<times> app \<times> message list \<times> outbound_tx option" where
  "upgrade obj decode parse_ip dec role raw_handle hs addr now item now' a =
     (let protocol_ok = requests_subprotocol hs in
      (if protocol_ok then [SUBPROTOCOL] else [],
       drive_connection obj decode (client_ip parse_ip hs addr) protocol_ok (handle_from_str dec raw_handle) role now item now' a))"

definition host_upgrade where "host_upgrade obj decode parse_ip dec = upgrade obj decode parse_ip dec Host"
definition device_upgrade where "device_upgrade obj decode parse_ip dec = upgrade obj decode parse_ip dec Device"

section \<open>Strings in the log\<close>

definition LOG_TEXTS :: "string list" where
  "LOG_TEXTS =
     [''host_connected'', ''device_connected'', ''host_disconnected'', ''device_disconnected'', ''handle_expired'', ''error'', ''host'', ''device'',
      ''rate_limited'', ''protocol_error'', ''handle_taken'', ''host_in_use'', ''handle_unknown'', ''pairing_expired'', ''frame_too_large'',
      ''connection rate limit exceeded'', ''missing or unsupported subprotocol'', ''malformed routing handle'',
      ''missing or malformed registration frame'', ''A Host is already registered under this handle'', ''A Device is already active on this Host'',
      ''No Host is registered under this handle'', ''The pairing window has expired'', ''handle registration rate limit exceeded'',
      ''frame exceeds the 1 MiB limit'', ''frame rate limit exceeded'']"

definition log_names :: "string list" where
  "log_names =
     [''ts'', ''event'', ''handle_first_6'', ''peer'', ''active_handles'', ''frames_forwarded'', ''bytes_forwarded'', ''duration_ms'',
      ''error_code'', ''error_message'']"

text \<open>The strings of an event are fixed texts or \<open>h6\<close>, and an error message is short.\<close>

fun field_ok :: "string \<Rightarrow> string \<times> field_value \<Rightarrow> bool" where
  "field_ok h6 (name, FV_U64 n) = True"
| "field_ok h6 (name, FV_Str s) = (s \<in> set LOG_TEXTS \<or> s = h6 \<and> name = ''handle_first_6'')"
| "field_ok h6 (name, _) = False"

definition fields_ok :: "string \<Rightarrow> log_fields \<Rightarrow> bool" where
  "fields_ok h6 fs = list_all (field_ok h6) fs"

lemma fixed_error: "name \<in> set LOG_TEXTS \<Longrightarrow> msg \<in> set LOG_TEXTS \<Longrightarrow> fields_ok h6 (log_error n name msg)"
  by (simp add: fields_ok_def log_error_def) (simp add: LOG_TEXTS_def)

lemma fixed_events:
  "fields_ok h6 (log_host_connected h6 n)" "fields_ok h6 (log_device_connected h6 n)"
  "fields_ok h6 (log_host_disconnected h6 n f b d)" "fields_ok h6 (log_device_disconnected h6 n f b d)"
  "fields_ok h6 (log_handle_expired h6 n)"
  by (simp_all add: fields_ok_def log_host_connected_def log_device_connected_def log_host_disconnected_def
      log_device_disconnected_def log_handle_expired_def LOG_TEXTS_def)

lemma fixed_texts:
  "''rate_limited'' \<in> set LOG_TEXTS" "''protocol_error'' \<in> set LOG_TEXTS" "''connection rate limit exceeded'' \<in> set LOG_TEXTS"
  "''missing or unsupported subprotocol'' \<in> set LOG_TEXTS" "''malformed routing handle'' \<in> set LOG_TEXTS"
  "''missing or malformed registration frame'' \<in> set LOG_TEXTS" "wire_code_name FrameTooLarge \<in> set LOG_TEXTS"
  "wire_code_name RateLimited \<in> set LOG_TEXTS" "''frame exceeds the 1 MiB limit'' \<in> set LOG_TEXTS"
  "''frame rate limit exceeded'' \<in> set LOG_TEXTS"
  "describe_register_error e = (code, name, msg, reason) \<Longrightarrow> name \<in> set LOG_TEXTS"
  "describe_register_error e = (code, name, msg, reason) \<Longrightarrow> msg \<in> set LOG_TEXTS"
  by (simp_all add: LOG_TEXTS_def wire_code_name_def) (cases e; auto)+

lemma short_texts: "s \<in> set LOG_TEXTS \<Longrightarrow> truncate_str s 256 = s"
proof -
  have "\<forall>s\<in>set LOG_TEXTS. length s \<le> 256" by code_simp
  then show "s \<in> set LOG_TEXTS \<Longrightarrow> truncate_str s 256 = s" by (simp add: truncate_str_def)
qed

lemma first_6: "url_safe_no_pad enc dec \<Longrightarrow> handle_first_6 enc rh = take 6 (handle_encode enc rh)"
proof -
  assume "url_safe_no_pad enc dec"
  then have "list_all b64_char (handle_encode enc rh)" unfolding handle_encode_def by (rule url_safe_no_padD(4))
  then have "\<forall>c\<in>set (handle_encode enc rh). \<not> is_cont c"
    by (auto simp: list_all_iff b64_char_def is_upper_def is_lower_def is_digit_def is_cont_def)
  then show ?thesis by (simp add: handle_first_6_def chars_ascii take_map)
qed

lemma refused_fields_ok: "fs \<in> set (refused_log enc rh e h) \<Longrightarrow> fields_ok (handle_first_6 enc rh) fs"
proof -
  obtain code name msg reason where d: "describe_register_error e = (code, name, msg, reason)" by (metis prod_cases4)
  assume "fs \<in> set (refused_log enc rh e h)"
  then show ?thesis
    using fixed_texts(11,12) [OF d] by (auto simp: refused_log_def d fixed_error fixed_events split: if_splits)
qed

lemma registered_fields_ok:
  assumes "fs \<in> set (case r of Err e \<Rightarrow> refused_log enc rh e h | Ok (tx, is_new) \<Rightarrow> [joined_log enc rh role h])"
  shows "fields_ok (handle_first_6 enc rh) fs"
proof (cases r)
  case (Inl e)
  then show ?thesis using assms by (auto dest: refused_fields_ok)
next
  case (Inr x)
  then show ?thesis using assms by (cases x) (auto simp: joined_log_def fixed_events split: role.splits)
qed

lemma opening_fields_ok:
  assumes "\<And>rh'. raw = Ok rh' \<Longrightarrow> handle_first_6 enc rh' = h6"
    and "fs \<in> set (opening_log enc decode ip ok raw role now item now' a)"
  shows "fields_ok h6 fs"
proof (cases "snd (ip_allow (ap_conn_limiter a) ip now) \<and> ok")
  case False
  then show ?thesis using assms(2) by (auto simp: opening_log_def Let_def fixed_error fixed_texts split: if_splits)
next
  case True
  show ?thesis
  proof (cases raw)
    case (Inl e)
    then show ?thesis using assms(2) True by (simp add: opening_log_def Let_def fixed_error fixed_texts)
  next
    case (Inr rh)
    show ?thesis
    proof (cases "wait_for_registration decode item role")
      case None
      then show ?thesis using assms(2) True Inr by (simp add: opening_log_def Let_def fixed_error fixed_texts)
    next
      case (Some pairing)
      then show ?thesis using assms(2) True Inr assms(1) [OF Inr]
        by (auto simp: opening_log_def Let_def dest: registered_fields_ok)
    qed
  qed
qed

lemma pump_fields_ok: "fs \<in> set (pump_log now item a p) \<Longrightarrow> fields_ok h6 fs"
  by (auto simp: pump_log_def Let_def fixed_error fixed_texts split: pump_item.splits message.splits if_splits)

lemma exit_fields_ok:
  "handle_first_6 enc (pp_handle p) = h6 \<Longrightarrow> take 6 (handle_encode enc (pp_handle p)) = h6 \<Longrightarrow> fs \<in> set (exit_log enc now a p) \<Longrightarrow>
     fields_ok h6 fs"
  by (auto simp: exit_log_def Let_def disconnected_log_def teardown_log_def fixed_events split: role.splits if_splits)

text \<open>The collector keeps what the fields were.\<close>

definition collected_ok :: "string \<Rightarrow> field_collector \<Rightarrow> bool" where
  "collected_ok h6 f \<longleftrightarrow>
     pred_option (\<lambda>s. s \<in> set LOG_TEXTS) (fc_event f) \<and> pred_option (\<lambda>s. s \<in> set LOG_TEXTS \<or> s = h6) (fc_handle_first_6 f)
     \<and> pred_option (\<lambda>s. s \<in> set LOG_TEXTS) (fc_peer f) \<and> pred_option (\<lambda>s. s \<in> set LOG_TEXTS) (fc_error_code f)
     \<and> pred_option (\<lambda>s. s \<in> set LOG_TEXTS) (fc_error_message f)"

lemma collected_default: "collected_ok h6 fc_default"
  by (simp add: collected_ok_def fc_default_def)

lemma collected_record_str:
  "collected_ok h6 f \<Longrightarrow> s \<in> set LOG_TEXTS \<or> s = h6 \<and> name = ''handle_first_6'' \<Longrightarrow> collected_ok h6 (record_str name s f)"
  by (simp add: record_str_def collected_ok_def short_texts) (auto simp: short_texts)

lemma collected_record: "collected_ok h6 f \<Longrightarrow> field_ok h6 x \<Longrightarrow> collected_ok h6 (record_field x f)"
  by (cases "(h6, x)" rule: field_ok.cases) (auto simp: collected_record_str, auto simp: record_u64_def collected_ok_def)

lemma collected_fold: "fields_ok h6 fs \<Longrightarrow> collected_ok h6 f \<Longrightarrow> collected_ok h6 (fold record_field fs f)"
  by (induction fs arbitrary: f) (auto simp: fields_ok_def collected_record)

lemma collected_event:
  assumes "fields_ok h6 fs" "log_event enabled ts fs = Some l"
  shows "ll_ts l = ts" "ll_event l \<in> set LOG_TEXTS" "collected_ok h6 (ll_fields l)"
  using assms(2) collected_fold [OF assms(1) collected_default]
  by (auto simp: log_event_def Let_def collected_ok_def split: if_splits option.splits)

lemma member_simps:
  "(k, v) \<in> set (member_str name x) \<longleftrightarrow> (\<exists>s. x = Some s \<and> k = name \<and> v = JStr s)"
  "(k, v) \<in> set (member_u64 name y) \<longleftrightarrow> (\<exists>n. y = Some n \<and> k = name \<and> v = JNum (PosInt (of_nat n)))"
  by (auto simp: member_str_def member_u64_def split: option.splits)

lemma log_members_str:
  assumes "collected_ok h6 (ll_fields l)" "ll_event l \<in> set LOG_TEXTS" "(k, v) \<in> set (log_members l)"
  shows "k \<in> set log_names \<and>
    (v = JStr (ll_ts l) \<and> k = ''ts'' \<or> (\<exists>s\<in>set LOG_TEXTS. v = JStr s) \<or> v = JStr h6 \<and> k = ''handle_first_6'' \<or> (\<exists>n. v = JNum (PosInt n)))"
proof
  have *: "k = ''ts'' \<and> v = JStr (ll_ts l) \<or> k = ''event'' \<and> v = JStr (ll_event l)
      \<or> (k, v) \<in> set (member_str ''handle_first_6'' (fc_handle_first_6 (ll_fields l))) \<or> (k, v) \<in> set (member_str ''peer'' (fc_peer (ll_fields l)))
      \<or> (k, v) \<in> set (member_u64 ''active_handles'' (fc_active_handles (ll_fields l))) \<or> (k, v) \<in> set (member_u64 ''frames_forwarded'' (fc_frames_forwarded (ll_fields l)))
      \<or> (k, v) \<in> set (member_u64 ''bytes_forwarded'' (fc_bytes_forwarded (ll_fields l))) \<or> (k, v) \<in> set (member_u64 ''duration_ms'' (fc_duration_ms (ll_fields l)))
      \<or> (k, v) \<in> set (member_str ''error_code'' (fc_error_code (ll_fields l))) \<or> (k, v) \<in> set (member_str ''error_message'' (fc_error_message (ll_fields l)))"
    using assms(3) unfolding log_members_def Let_def set_append Un_iff by simp
  show "k \<in> set log_names" using * unfolding member_simps log_names_def by (elim disjE exE conjE) simp_all
  show "v = JStr (ll_ts l) \<and> k = ''ts'' \<or> (\<exists>s\<in>set LOG_TEXTS. v = JStr s) \<or> v = JStr h6 \<and> k = ''handle_first_6'' \<or> (\<exists>n. v = JNum (PosInt n))"
    using * assms(1,2) unfolding member_simps collected_ok_def by (elim disjE exE conjE) auto
qed

text \<open>A line the hub writes for a connection: while it opens, in the pump, or at its end.\<close>

inductive connection_logs :: "(8 word list \<Rightarrow> string) \<Rightarrow> handle \<Rightarrow> log_fields \<Rightarrow> bool" for enc rh where
  logs_opening:
    "raw = Ok rh \<or> (\<exists>e. raw = Err e) \<Longrightarrow> fs \<in> set (opening_log enc decode ip ok raw role now item now' a) \<Longrightarrow> connection_logs enc rh fs"
| logs_pump: "fs \<in> set (pump_log now item a p) \<Longrightarrow> connection_logs enc rh fs"
| logs_exit: "pp_handle p = rh \<Longrightarrow> fs \<in> set (exit_log enc now a p) \<Longrightarrow> connection_logs enc rh fs"

lemma connection_fields_ok:
  assumes "url_safe_no_pad enc dec" "connection_logs enc rh fs"
  shows "fields_ok (take 6 (handle_encode enc rh)) fs"
  using assms(2)
proof cases
  case (logs_opening raw decode ip ok role now item now' a)
  then show ?thesis using first_6 [OF assms(1)] by (intro opening_fields_ok [OF _ logs_opening(2)]) auto
next
  case (logs_pump now item a p)
  then show ?thesis by (rule pump_fields_ok)
next
  case (logs_exit p now a)
  then show ?thesis using first_6 [OF assms(1)] by (auto intro: exit_fields_ok)
qed

text \<open>C31: Whatever a connection does, the members of each line the hub prints for it are among the ten of the schema;
  the strings in them are the time, one of the fixed texts of the program, or, under its own name, the first six
  characters of the handle, and the rest are numbers: no address, frame, token or longer part of a handle.\<close>

theorem hub_log_fixed_texts:
  assumes "url_safe_no_pad enc dec" "connection_logs enc rh fs" "log_event enabled ts fs = Some l" "(k, v) \<in> set (log_members l)"
  shows "k \<in> set log_names \<and>
    (v = JStr ts \<and> k = ''ts'' \<or> (\<exists>s\<in>set LOG_TEXTS. v = JStr s) \<or> v = JStr (take 6 (handle_encode enc rh)) \<and> k = ''handle_first_6''
     \<or> (\<exists>n. v = JNum (PosInt n)))"
  using log_members_str [OF collected_event(3,2) [OF connection_fields_ok [OF assms(1,2)] assms(3)] assms(4)]
    collected_event(1) [OF connection_fields_ok [OF assms(1,2)] assms(3)] by simp

text \<open>A connection is joined only when its request offered the subprotocol, its path was the 22 characters of a
  handle and its first message a registration of its role; then it owns the slot of its role in the room of just this
  handle.\<close>

theorem joined_by_path:
  assumes "url_safe_no_pad enc dec" "upgrade obj decode parse_ip dec role raw_handle hs addr now item now' a = (protocols, a', out, Some tx)"
  shows "protocols = [SUBPROTOCOL] \<and> requests_subprotocol hs \<and> wait_for_registration decode item role \<noteq> None
    \<and> (\<exists>rh. handle_ok rh \<and> handle_encode enc rh = raw_handle \<and> length raw_handle = HANDLE_LEN \<and> owns_slot (ap_hub a') rh role tx)"
proof -
  let ?d = "drive_connection obj decode (client_ip parse_ip hs addr) (requests_subprotocol hs) (handle_from_str dec raw_handle) role now item now' a"
  have d: "?d = (a', out, Some tx)" and pr: "protocols = (if requests_subprotocol hs then [SUBPROTOCOL] else [])"
    using assms(2) by (auto simp: upgrade_def Let_def)
  obtain rh where rh: "handle_from_str dec raw_handle = Ok rh" "requests_subprotocol hs" "owns_slot (ap_hub a') rh role tx"
    using drive_connection_outcome [OF d] by auto
  have "wait_for_registration decode item role \<noteq> None"
  proof
    assume "wait_for_registration decode item role = None"
    then show False
      using d by (auto simp: drive_connection_def close_with_error_def Let_def rh split: prod.splits if_splits)
  qed
  with rh pr handle_from_str_Ok [OF assms(1) rh(1)] handle_encode_length [OF assms(1)] show ?thesis by auto
qed

section \<open>Where the log and its schema differ\<close>

text \<open>The count of a disconnect line is taken before the room is removed, the one of the line after it afterwards.\<close>

lemma disconnect_counted_before:
  "map (\<lambda>fs. map_of fs ''active_handles'') (exit_log enc now (app_new (config_from_env env)\<lparr>ap_hub := two_peers\<rparr>) (peer_new a (Handle []) Host 0 0))
     = [Some (FV_U64 1), Some (FV_U64 0)]"
proof -
  have "active_handles (drop_receiver two_peers 0) = 1" "owns_slot (drop_receiver two_peers 0) (Handle []) Host 0"
    "active_handles (disconnect (drop_receiver two_peers 0) (Handle []) Host 0 None) = 0"
    by (code_simp)+
  then show ?thesis
    by (simp add: exit_log_def Let_def disconnected_log_def teardown_log_def peer_new_def log_host_disconnected_def log_handle_expired_def)
qed

text \<open>A text message over the size limit ends the connection with an error close and no line.\<close>

theorem oversized_text_unlogged:
  assumes "MAX_FRAME_BYTES < length tx"
  shows "pump_log now (Frame (Text tx)) a p = []
    \<and> pump_step obj decode enabled supports now ok (Frame (Text tx)) a p
      = Some (a\<lparr>ap_metrics := record_error FrameTooLarge (ap_metrics a)\<rparr>, p, [Close (Some (4007, ''frame exceeds 1 MiB limit''))], False)"
  using assms by (simp add: pump_log_def pump_step_def refuse_def Let_def)

section \<open>Witnesses\<close>

theorem hub_log_fixed_texts_witness:
  "let a = app_new (config_from_env (\<lambda>_. None)); fs = hd (exit_log ref_enc 5 a (peer_new a (Handle (replicate 16 1)) Device 0 0));
       l = the (log_event True ''now'' fs)
   in (''handle_first_6'', JStr ''AQEBAQ'') \<in> set (log_members l) \<and> ''handle_first_6'' \<in> set log_names"
proof -
  let ?a = "app_new (config_from_env (\<lambda>_. None))"
  let ?p = "peer_new ?a (Handle (replicate 16 1)) Device 0 0"
  let ?fs = "hd (exit_log ref_enc 5 ?a ?p)" and ?l = "the (log_event True ''now'' (hd (exit_log ref_enc 5 ?a ?p)))"
  have h: "handle_first_6 ref_enc (Handle (replicate 16 1)) = ''AQEBAQ''" by code_simp
  have fs: "?fs = disconnected_log ref_enc 5 (drop_receiver (ap_hub ?a) (pp_tx ?p)) ?p" by (simp add: exit_log_def Let_def)
  have "\<exists>n f b d. ?fs = log_device_disconnected ''AQEBAQ'' n f b d"
    unfolding fs by (auto simp: disconnected_log_def peer_new_def h Let_def)
  then obtain n f b d where fs2: "?fs = log_device_disconnected ''AQEBAQ'' n f b d" by blast
  have l: "log_event True ''now'' ?fs = Some ?l" "fc_handle_first_6 (ll_fields ?l) = Some ''AQEBAQ''"
    unfolding fs2 by (simp_all add: log_device_disconnected_def log_event_def Let_def record_str_def record_u64_def fc_default_def)
  have m: "(''handle_first_6'', JStr ''AQEBAQ'') \<in> set (log_members ?l)"
    using l(2) by (simp add: log_members_def Let_def member_str_def)
  have "connection_logs ref_enc (Handle (replicate 16 1)) ?fs"
    by (rule logs_exit [of ?p _ _ _ 5 ?a]) (simp_all add: peer_new_def exit_log_def Let_def)
  from hub_log_fixed_texts [OF ref_codec this l(1) m] m show ?thesis by (simp add: Let_def)
qed

definition sample_request :: headers where
  "sample_request = [(''sec-websocket-protocol'', Some SUBPROTOCOL)]"

definition sample_upgrade :: "string list \<times> app \<times> message list \<times> outbound_tx option" where
  "sample_upgrade =
     upgrade (\<lambda>_. []) (\<lambda>_. Some \<lparr>rf_kind = ''host_register'', rf_protocol = 1, rf_pairing = False\<rparr>) (\<lambda>_. None) ref_dec Host
       ''AQEBAQEBAQEBAQEBAQEBAQ'' sample_request (V4 0) 0 (Some (Text [])) 0 (app_new (config_from_env (\<lambda>_. None)))"

theorem joined_by_path_witness:
  "\<exists>rh. handle_encode ref_enc rh = ''AQEBAQEBAQEBAQEBAQEBAQ'' \<and> owns_slot (ap_hub (fst (snd sample_upgrade))) rh Host 0"
proof -
  let ?a = "app_new (config_from_env (\<lambda>_. None))" and ?ip = "client_ip (\<lambda>_. None) sample_request (V4 0)"
  have r: "requests_subprotocol sample_request" by code_simp
  have h: "handle_from_str ref_dec ''AQEBAQEBAQEBAQEBAQEBAQ'' = Ok (Handle (replicate 16 1))" by code_simp
  have al: "snd (ip_allow (ip_limiter_new 10) ?ip 0)" "snd (ip_allow (ip_limiter_new 5) ?ip 0)"
    by (simp_all add: ip_allow_def ip_events_def ip_limiter_new_def Let_def)
  have w: "wait_for_registration (\<lambda>_. Some \<lparr>rf_kind = ''host_register'', rf_protocol = 1, rf_pairing = False\<rparr>) (Some (Text [])) Host = Some False"
    by (simp add: wait_for_registration_def expected_type_def)
  have g: "snd (snd (register hub_new (ip_limiter_new 5) (Handle (replicate 16 1)) Host ?ip 4096 False 0)) = Ok (0, True)"
  proof -
    obtain l5 where "ip_allow (ip_limiter_new 5) ?ip 0 = (l5, True)" using al(2) by (metis prod.collapse)
    then show ?thesis by (simp add: register_def register_host_def finish_teardown_def hub_new_def new_channel_def Let_def)
  qed
  obtain l10 where l10: "ip_allow (ip_limiter_new 10) ?ip 0 = (l10, True)" using al(1) by (metis prod.collapse)
  have "snd (snd (snd sample_upgrade)) = Some 0"
    unfolding sample_upgrade_def upgrade_def Let_def h
    using r w g by (auto simp: l10 drive_connection_def app_new_def config_defaults Let_def split: prod.splits)
  then obtain protocols a' out where u: "sample_upgrade = (protocols, a', out, Some 0)" by (metis prod.collapse)
  show ?thesis using joined_by_path [OF ref_codec u [unfolded sample_upgrade_def]] by (auto simp: u)
qed

end
