(* ===== verification/Spec2Isabelle.thy ===== *)
theory Spec2Isabelle
  imports Prelude Rust_Str Rust_Fmt Codes Base64_Ref Handle_Codec Phrase_Codec Frame_Codec Rate_Limits Session_Map Hub_Metrics Hub_Logging Push_Store Relay_Pump Host_Pairing Device_Store Host_Config Host_Relay Host_Core Pane_Scheduler Json Key_Map Wire_Messages Watch_Core Watch_Input Held_Input Watch_Actions Watch_Loop Reply_Accounting Theme Session_Loop Session_Serve Control_Plane Popup Popup_View Popup_Frame Popup_Loop Host_Loops Keybind Key_Storage Herdr_Client Push_Providers Command_Line Host_Handshake Test_Vectors Host_Platform Hub_Front
begin

text \<open>
  A verification development of herdr-mobile's Rust workspace, the crates under \<open>src/crates\<close>.

  The program. A Host bridge (\<open>herdr-relay\<close>) runs beside Herdr, a terminal multiplexer, and serves paired
  phones, the Devices. A Device reaches it through a hub (\<open>herdr-relay-hub\<close>) that forwards opaque messages
  between the two ends of a routing handle. Both ends share the wire protocol (\<open>herdr-relay-proto\<close>). A frame
  travels: message, JSON envelope with a sequence number, compressed record, fragments, Noise ciphertexts,
  binary WebSocket messages, hub, and back up on the other side. On the Host one thread per session owns a
  watch bridge that calls Herdr, and all sessions share a locked host state.

  Foundations. \<open>Prelude\<close> holds results (\<open>Ok\<close>, \<open>Err\<close>), instants in nanoseconds, hash maps as association
  lists and the generic lemmas; \<open>Rust_Str\<close> and \<open>Rust_Fmt\<close> the string and formatting functions of the standard
  library that the source uses; \<open>Base64_Ref\<close> a base64url codec that instantiates the interface the handle
  codec assumes of its third-party crate; \<open>Json\<close> the JSON values a request carries.

  The protocol crate. \<open>Codes\<close> models \<open>codes.rs\<close>; \<open>Handle_Codec\<close> models \<open>handle.rs\<close>, the pairing URI with its
  printer and parser; \<open>Phrase_Codec\<close> models \<open>phrase.rs\<close>; \<open>Wire_Messages\<close> models \<open>envelope.rs\<close> and
  \<open>messages.rs\<close>, frames and the message type that decides how a payload is read; \<open>Test_Vectors\<close> the generator
  of the shared test vectors in \<open>test_vectors.rs\<close> and its document.

  The hub crate. \<open>Session_Map\<close> models \<open>session.rs\<close>, the rooms over an explicit store of channels;
  \<open>Rate_Limits\<close> the limiters; \<open>Hub_Metrics\<close> and \<open>Hub_Logging\<close> the metrics text and the redaction of logs;
  \<open>Push_Store\<close> the registrations and budgets of push notifications; \<open>Push_Providers\<close> models
  \<open>push/providers.rs\<close>, the requests to Apple and Google and what their answers do; \<open>Relay_Pump\<close> configuration,
  heartbeat, byte pump and the opening of a connection; \<open>Hub_Front\<close> the router, the start of the hub and every
  line it logs.

  The Host crate, towards the network. \<open>Frame_Codec\<close> models \<open>frame_codec.rs\<close>, records, fragments and the
  reassembler; \<open>Host_Relay\<close> models \<open>relay/\<close>, reconnect ladder, stale detector, session registry,
  registration; \<open>Host_Pairing\<close> models \<open>pairing.rs\<close> and \<open>pairing/wordlist.rs\<close>; \<open>Device_Store\<close> models
  \<open>store.rs\<close> and \<open>watch/devices.rs\<close>; \<open>Host_Config\<close> start-up and configuration; \<open>Theme\<close> models \<open>theme.rs\<close>;
  \<open>Host_Core\<close> the host state of \<open>bridge.rs\<close> with one definition per section of code under its lock and
  \<open>host_exec\<close>, which interleaves them; \<open>Host_Loops\<close> the tasks that run those sections in order,
  \<open>registration_loop\<close> and \<open>pairing_loop\<close>, one step per await. \<open>Host_Handshake\<close> models \<open>noise.rs\<close>, the handshakes
  of \<open>relay/connection.rs\<close>, the wait of a registered Host with its observer thread, and \<open>relay/session.rs\<close>;
  \<open>Key_Storage\<close> models the key of the Host in \<open>keys.rs\<close> and the state files of \<open>config.rs\<close>.

  The Host crate, towards Herdr. \<open>Herdr_Client\<close> models \<open>ipc/\<close> and \<open>watch/herdr_calls.rs\<close>, the calls and
  subscriptions of Herdr's socket. \<open>Key_Map\<close> models \<open>watch/key_map.rs\<close>, \<open>Pane_Scheduler\<close> models
  \<open>watch/scheduler.rs\<close>, \<open>Watch_Core\<close> the state of a session and the mapping of Herdr data, \<open>Watch_Input\<close>
  the input path with the shadow of the composer line, \<open>Held_Input\<close> submits held until the agent is idle,
  \<open>Watch_Actions\<close> host actions, \<open>Watch_Loop\<close> requests, events, reads and the loop over wake-ups.
  \<open>Reply_Accounting\<close> counts what each of these owes a Device, and \<open>Session_Loop\<close> models the session thread
  of \<open>bridge.rs\<close> (dispatch, queues, service, ticks), which composes all of them, as the inductive relation
  \<open>session_step\<close>. \<open>Session_Serve\<close> puts the socket task \<open>serve_session\<close> beside that thread, with the
  channels between them, down to the ciphertexts that are written.

  The Host crate, towards the user. \<open>Control_Plane\<close> models \<open>control.rs\<close>: the endpoint in the state file, the request
  line with its token, the handler and the client. \<open>Popup\<close>, \<open>Popup_View\<close>, \<open>Popup_Frame\<close> and \<open>Popup_Loop\<close> model
  \<open>popup.rs\<close>: the state of the pane and its keys, the lines of each region, the choice of the regions that fit
  and the loop of input, status polls and frames. \<open>Keybind\<close> models \<open>keybind.rs\<close>, the installer of the binding
  that opens the pane; \<open>Command_Line\<close> models \<open>main.rs\<close>, what an argument list starts and the \<open>ctl\<close> client;
  \<open>Host_Platform\<close> the clipboard tools, the place of Herdr's configuration, shutdown and the terminal of the pane.

  Conventions. A Rust struct is a record and an enum a datatype; a method on \<open>&mut self\<close> returns the new state;
  a \<open>Result\<close> is \<open>Ok\<close> or \<open>Err\<close>. Strings are lists of bytes (\<open>char\<close>), so byte offsets are indices and character
  boundaries are explicit. Unsigned integers that can wrap or saturate are words. Instants are natural numbers;
  the clock, random bytes, files, JSON of derived types, zlib, Noise, grapheme segmentation and Herdr are
  arguments, and what is assumed of them is a named hypothesis (\<open>zlib_ok\<close>, \<open>noise_channel\<close>) or locale that
  some concrete function satisfies. A task, a channel or a one-shot signal lives in an explicit store, and
  code between two awaits or under one lock is one step.

  Loops. Loops over data recurse on it; loops over time take the list of what happens at each wake-up and
  report if it runs out (\<open>None\<close>), and the termination theorems say when it cannot. No fuel is used:
  recursions that are not structural have a measure (\<open>chunks_of\<close>, \<open>erase\<close>, \<open>serve_all\<close>).

  The properties. Reachability invariants cover the hub, the host core and its tasks, the watch state, whole
  sessions and the pane; the non-interference properties say that \<open>ctl\<close>, the pushes, the hub's log and the observer
  tell nothing they should not; the main refinements are the composer shadow against a line editor, the reassembler
  against the record that was sent, a control command against a direct call of its handler, and a session on the
  wire against the requests it read; the rest are outcomes of operations on every
  branch, bounds of the schedulers and limiters, round trips, and counterexamples where code and documents differ.

  Not modelled. The stub host and the spike programs under \<open>src/bin\<close>, throwaway tools that repeat calls of the
  library; the Flutter application, which is another language; and what third-party code does: TLS, the websocket
  and HTTP libraries, the cryptography of Noise, JSON text, TOML, the terminal library and child processes. These
  are arguments wherever the modelled code depends on their result.
\<close>

end
